(* ===== verification/Qed_Prelude.thy ===== *)
theory Qed_Prelude
  imports Main "HOL-Library.Word" "HOL-Library.Multiset"
begin

unbundle bit_operations_syntax

text \<open>
  Shared vocabulary of the development: the machine integer types of the driver, the
  error codes its functions return, the doubly linked list operations of the kernel as
  operations on HOL lists, and the arithmetic facts on words that the ring and
  bitmap components rest on.
\<close>

section \<open>Types of the driver\<close>

type_synonym u8 = "8 word"
type_synonym u16 = "16 word"
type_synonym u32 = "32 word"
type_synonym u64 = "64 word"

text \<open>
  Error codes. A C function that returns \<open>int\<close> yields \<open>0\<close> or a negated code;
  the model keeps the two cases apart in the type \<open>rc\<close>.
\<close>

datatype errno = EINVAL | ENOMEM | EBUSY | EEXIST | EAGAIN | ENODEV | EIO | EOPNOTSUPP

datatype rc = RC_OK | RC_ERR errno

section \<open>Kernel lists\<close>

text \<open>
  A \<open>struct list_head\<close> is the list of the objects linked on it, first entry first.
  \<open>list_del\<close> unlinks one object; the objects on a list are distinct in every state
  the driver builds, and then removing the first occurrence is removing the object.
\<close>

definition list_add :: "'a \<Rightarrow> 'a list \<Rightarrow> 'a list" where
  "list_add x xs = x # xs"

definition list_add_tail :: "'a \<Rightarrow> 'a list \<Rightarrow> 'a list" where
  "list_add_tail x xs = xs @ [x]"

definition list_del :: "'a \<Rightarrow> 'a list \<Rightarrow> 'a list" where
  "list_del x xs = remove1 x xs"

lemma mset_list_add [simp]: "mset (list_add x xs) = add_mset x (mset xs)"
  by (simp add: list_add_def)

lemma mset_list_add_tail [simp]: "mset (list_add_tail x xs) = add_mset x (mset xs)"
  by (simp add: list_add_tail_def)

lemma mset_list_del [simp]: "mset (list_del x xs) = mset xs - {#x#}"
  by (simp add: list_del_def)

lemma set_list_add [simp]: "set (list_add x xs) = insert x (set xs)"
  by (simp add: list_add_def)

lemma set_list_add_tail [simp]: "set (list_add_tail x xs) = insert x (set xs)"
  by (simp add: list_add_tail_def)

lemma list_del_hd [simp]: "list_del x (x # xs) = xs"
  by (simp add: list_del_def)

lemma set_list_del_subset: "set (list_del x xs) \<subseteq> set xs"
  by (simp add: list_del_def set_remove1_subset)

lemma distinct_list_del [simp, intro]: "distinct xs \<Longrightarrow> distinct (list_del x xs)"
  by (simp add: list_del_def)

lemma set_list_del_distinct [simp]: "distinct xs \<Longrightarrow> set (list_del x xs) = set xs - {x}"
  by (simp add: list_del_def)

lemma distinct_list_add [simp]: "distinct (list_add x xs) \<longleftrightarrow> x \<notin> set xs \<and> distinct xs"
  by (simp add: list_add_def)

lemma distinct_list_add_tail [simp]:
  "distinct (list_add_tail x xs) \<longleftrightarrow> x \<notin> set xs \<and> distinct xs"
  by (auto simp: list_add_tail_def)

lemma length_list_add [simp]: "length (list_add x xs) = Suc (length xs)"
  by (simp add: list_add_def)

lemma length_list_add_tail [simp]: "length (list_add_tail x xs) = Suc (length xs)"
  by (simp add: list_add_tail_def)

lemma length_list_del [simp]: "x \<in> set xs \<Longrightarrow> length (list_del x xs) = length xs - 1"
  by (simp add: list_del_def length_remove1)

section \<open>Word arithmetic\<close>

text \<open>
  The driver masks a free running index with \<open>elem_per_page - 1\<close>; on a power of two this
  is the remainder.
\<close>

lemma unat_and_mask:
  fixes x m :: "'n::len word"
  assumes "unat m = 2 ^ k - 1"
  shows "unat (x AND m) = unat x mod 2 ^ k"
proof -
  have "unat (x AND m) = and (unat x) (unat m)"
    by (simp add: unsigned_and_eq)
  also have "\<dots> = and (unat x) (mask k)"
    using assms by (simp add: mask_eq_exp_minus_1)
  also have "\<dots> = unat x mod 2 ^ k"
    by (simp flip: take_bit_eq_mask take_bit_eq_mod)
  finally show ?thesis .
qed

lemma unat_add_mod: "unat (x + y :: 'n::len word) = (unat x + unat y) mod 2 ^ LENGTH('n)"
  by (simp add: unat_word_ariths)

lemma unat_Suc_mod: "unat (x + 1 :: 'n::len word) = Suc (unat x) mod 2 ^ LENGTH('n)"
  by (simp add: unat_word_ariths)

lemma unat_Suc_nz:
  fixes x :: "'n::len word"
  assumes "x + 1 \<noteq> 0"
  shows "unat (x + 1) = Suc (unat x)"
proof -
  have "Suc (unat x) \<noteq> 2 ^ LENGTH('n)"
  proof
    assume "Suc (unat x) = 2 ^ LENGTH('n)"
    then have "unat (x + 1) = 0" by (simp add: unat_Suc_mod)
    then have "x + 1 = 0" by (rule unat_eq_zero [THEN iffD1])
    then show False using assms by contradiction
  qed
  moreover have "Suc (unat x) \<le> 2 ^ LENGTH('n)" using unsigned_less [of x, where 'a = nat] by (simp only: Suc_le_eq)
  ultimately show ?thesis by (simp add: unat_Suc_mod)
qed

lemma unat_mult_mod: "unat (x * y :: 'n::len word) = (unat x * unat y) mod 2 ^ LENGTH('n)"
  by (simp add: unat_word_ariths)

lemma unat_ucast_mod:
  "unat (ucast (x :: 'a::len word) :: 'b::len word) = unat x mod 2 ^ LENGTH('b)"
  by (simp add: unsigned_ucast_eq take_bit_eq_mod)

lemma unat_ucast_le:
  assumes "LENGTH('a) \<le> LENGTH('b)"
  shows "unat (ucast (x :: 'a::len word) :: 'b::len word) = unat x"
proof -
  have "unat x < 2 ^ LENGTH('a)" by (rule unsigned_less)
  also have "\<dots> \<le> 2 ^ LENGTH('b)" using assms by simp
  finally show ?thesis by (simp add: unat_ucast_mod)
qed

lemma and_not_eq_minus: "(a :: 'n::len word) AND NOT b = a - (a AND b)"
proof -
  have "a - (a AND b) = a AND NOT (a AND b)"
    by (rule disjunctive_diff_eq_and_not) (simp add: bit_eq_iff bit_simps)
  also have "\<dots> = a AND NOT b"
    by (rule bit_eqI) (auto simp: bit_simps)
  finally show ?thesis by simp
qed

lemma word_of_int_and_mask:
  fixes m :: "'n::len word"
  assumes "unat m = 2 ^ k - 1" "k \<le> LENGTH('n)"
  shows "word_of_int x AND m = word_of_int (x mod 2 ^ k)"
proof -
  have "unat (word_of_int x AND m) = unat (word_of_int x :: 'n word) mod 2 ^ k"
    by (rule unat_and_mask [OF assms(1)])
  then have "int (unat (word_of_int x AND m)) = (x mod 2 ^ LENGTH('n)) mod 2 ^ k"
    by (simp add: zmod_int uint_word_of_int)
  also have "\<dots> = x mod 2 ^ k"
    using assms(2) by (simp add: mod_mod_cancel le_imp_power_dvd)
  finally have "uint (word_of_int x AND m) = x mod 2 ^ k" by simp
  then show ?thesis by (metis word_of_int_uint)
qed

lemma floor_window:
  fixes a b e :: int
  assumes "0 < e" "b \<le> a"
  shows "0 \<le> a div e - b div e" "e * (a div e - b div e) \<le> (a - b) + (e - 1)"
proof -
  show "0 \<le> a div e - b div e" using assms by (simp add: zdiv_mono1)
  have "a = e * (a div e) + a mod e" "b = e * (b div e) + b mod e" by simp_all
  moreover have "0 \<le> a mod e" "b mod e < e" using assms(1) by simp_all
  ultimately show "e * (a div e - b div e) \<le> (a - b) + (e - 1)"
    unfolding right_diff_distrib by linarith
qed

end
