(* ===== verification/Qed_Ooo.thy ===== *)
theory Qed_Ooo
  imports Qed_Prelude
begin

text \<open>
  Out-of-order TCP data (\<open>qed_ooo.c\<close>). Segments that arrive ahead of a gap are kept in
  buffers; each run of consecutive segments is an isle, the isles of a connection form its
  archipelago, in sequence order. The firmware tells the driver to open an isle, to extend
  one on either side, to join two, or to drop some.

  A buffer is its address. An isle is its index in \<open>p_isles_mem\<close>, which holds the buffers of
  each isle; an archipelago is the list of its isles. The list of free isles and the two
  buffer lists of the pool are as in the code. An access outside an array is the result None.
\<close>

type_synonym buf = u64
type_synonym isle = nat

record ooo_opaque =
  cid :: u32
  drop_isle :: u8
  drop_size :: u8
  ooo_opcode :: u8
  ooo_isle :: u8

record qed_ooo_buffer =
  rx_buffer_virt_addr :: u64
  rx_buffer_phys_addr :: u64
  rx_buffer_size :: u32
  packet_length :: u16
  parse_flags :: u16
  vlan :: u16
  placement_offset :: u8

record qed_ooo_history =
  p_cqes :: "ooo_opaque list"
  head_idx :: u32
  num_of_cqes :: u32

record qed_ooo_info =
  free_buffers_list :: "buf list"
  ready_buffers_list :: "buf list"
  free_isles_list :: "isle list"
  p_archipelagos_mem :: "isle list list"
  p_isles_mem :: "buf list list"
  ooo_history :: qed_ooo_history
  cur_isles_number :: u32
  max_isles_number :: u32
  gen_isles_number :: u32
  max_num_archipelagos :: u16
  cid_base :: u16

definition QED_MAX_NUM_ISLES :: u16 where
  "QED_MAX_NUM_ISLES = 256"

definition QED_MAX_NUM_OOO_HISTORY_ENTRIES :: u32 where
  "QED_MAX_NUM_OOO_HISTORY_ENTRIES = 512"

section \<open>Seeking\<close>

definition ooo_idx :: "qed_ooo_info \<Rightarrow> u32 \<Rightarrow> u32" where
  "ooo_idx info c = (c AND 0xffff) - ucast (cid_base info)"

definition qed_ooo_seek_archipelago :: "qed_ooo_info \<Rightarrow> u32 \<Rightarrow> nat option" where
  "qed_ooo_seek_archipelago info c =
     (let idx = ooo_idx info c
      in if idx \<ge> ucast (max_num_archipelagos info) then None
         else if p_archipelagos_mem info ! unat idx = [] then None
         else Some (unat idx))"

text \<open>The walk counts in 8 bits, from 1.\<close>

fun seek_isle_walk :: "isle list \<Rightarrow> u8 \<Rightarrow> u8 \<Rightarrow> isle option" where
  "seek_isle_walk [] the_num_of_isle k = None"
| "seek_isle_walk (p # ps) the_num_of_isle k =
     (if the_num_of_isle = k then Some p else seek_isle_walk ps (the_num_of_isle + 1) k)"

definition qed_ooo_seek_isle :: "qed_ooo_info \<Rightarrow> u32 \<Rightarrow> u8 \<Rightarrow> isle option" where
  "qed_ooo_seek_isle info c k =
     (case qed_ooo_seek_archipelago info c of
        None \<Rightarrow> None
      | Some a \<Rightarrow> seek_isle_walk (p_archipelagos_mem info ! a) 1 k)"

section \<open>History\<close>

definition qed_ooo_save_history_entry :: "qed_ooo_info \<Rightarrow> ooo_opaque \<Rightarrow> qed_ooo_info option" where
  "qed_ooo_save_history_entry info cqe =
     (let h = ooo_history info;
          head = (if head_idx h = num_of_cqes h then 0 else head_idx h)
      in if unat head < length (p_cqes h)
         then Some (info\<lparr>ooo_history := h\<lparr>p_cqes := (p_cqes h)[unat head := cqe], head_idx := head + 1\<rparr>\<rparr>)
         else None)"

section \<open>Allocation\<close>

datatype qed_pci_personality =
    QED_PCI_ETH
  | QED_PCI_FCOE
  | QED_PCI_ISCSI
  | QED_PCI_ETH_ROCE
  | QED_PCI_ETH_IWARP
  | QED_PCI_ETH_RDMA
  | QED_PCI_DEFAULT

text \<open>
  The memory the component takes and gives back: its four blocks, in the order of the code, the
  buffer structures and the DMA memory behind them.
\<close>

datatype ooo_block = Ooo_info | Isles_mem | Archipelagos_mem | Cqes_mem

datatype ooo_mem_op =
    Kzalloc ooo_block
  | Kfree ooo_block
  | Dma_free u32 u64 u64
  | Kfree_buffer buf

text \<open>
  The connection counts and the first connection id of each protocol come from the context
  manager and the PF parameters: they are arguments. \<open>oks\<close> are the outcomes of the four
  \<open>kzalloc\<close> calls, in order; a failing one unwinds those before it.
\<close>

definition qed_ooo_alloc ::
  "qed_pci_personality \<Rightarrow> u16 \<Rightarrow> u16 \<Rightarrow> u16 \<Rightarrow> u16 \<Rightarrow> bool \<times> bool \<times> bool \<times> bool
   \<Rightarrow> ooo_mem_op list \<times> (errno + qed_ooo_info)" where
  "qed_ooo_alloc personality iscsi_cons iscsi_start iwarp_count iwarp_start oks =
     (let sel = (case personality of
                   QED_PCI_ISCSI \<Rightarrow> Some (iscsi_cons, iscsi_start)
                 | QED_PCI_ETH_RDMA \<Rightarrow> Some (iwarp_count, iwarp_start)
                 | QED_PCI_ETH_IWARP \<Rightarrow> Some (iwarp_count, iwarp_start)
                 | _ \<Rightarrow> None);
          (ok_info, ok_isles, ok_arch, ok_hist) = oks
      in case sel of
           None \<Rightarrow> ([], Inl EINVAL)
         | Some (n, base) \<Rightarrow>
             (let max_num_isles = QED_MAX_NUM_ISLES + n
              in if n = 0 then ([], Inl EINVAL)
                 else if \<not> ok_info then ([], Inl ENOMEM)
                 else if \<not> ok_isles then ([Kzalloc Ooo_info, Kfree Ooo_info], Inl ENOMEM)
                 else if \<not> ok_arch then
                   ([Kzalloc Ooo_info, Kzalloc Isles_mem, Kfree Isles_mem, Kfree Ooo_info], Inl ENOMEM)
                 else if \<not> ok_hist then
                   ([Kzalloc Ooo_info, Kzalloc Isles_mem, Kzalloc Archipelagos_mem,
                     Kfree Archipelagos_mem, Kfree Isles_mem, Kfree Ooo_info], Inl ENOMEM)
                 else
                   ([Kzalloc Ooo_info, Kzalloc Isles_mem, Kzalloc Archipelagos_mem, Kzalloc Cqes_mem],
                    Inr \<lparr>free_buffers_list = [], ready_buffers_list = [],
                           free_isles_list = [0..<unat max_num_isles],
                           p_archipelagos_mem = replicate (unat n) [],
                           p_isles_mem = replicate (unat max_num_isles) [],
                           ooo_history =
                             \<lparr>p_cqes = replicate (unat QED_MAX_NUM_OOO_HISTORY_ENTRIES)
                                \<lparr>cid = 0, drop_isle = 0, drop_size = 0, ooo_opcode = 0, ooo_isle = 0\<rparr>,
                              head_idx = 0, num_of_cqes = QED_MAX_NUM_OOO_HISTORY_ENTRIES\<rparr>,
                           cur_isles_number = 0, max_isles_number = 0, gen_isles_number = 0,
                           max_num_archipelagos = n, cid_base = base\<rparr>)))"

section \<open>Releasing isles\<close>

fun release_buffers :: "buf list \<Rightarrow> buf list \<Rightarrow> buf list" where
  "release_buffers [] free = free"
| "release_buffers (b # bs) free = release_buffers bs (list_add_tail b free)"

text \<open>One turn of the loop over the isles of archipelago \<open>a\<close>, for its first isle \<open>p\<close>.\<close>

definition release_isle :: "nat \<Rightarrow> isle \<Rightarrow> qed_ooo_info \<Rightarrow> qed_ooo_info" where
  "release_isle a p info =
     info\<lparr>p_archipelagos_mem := (p_archipelagos_mem info)[a := list_del p (p_archipelagos_mem info ! a)],
          free_buffers_list := release_buffers (p_isles_mem info ! p) (free_buffers_list info),
          p_isles_mem := (p_isles_mem info)[p := []],
          free_isles_list := list_add_tail p (free_isles_list info)\<rparr>"

function release_archipelago :: "nat \<Rightarrow> qed_ooo_info \<Rightarrow> qed_ooo_info" where
  "release_archipelago a info =
     (if a < length (p_archipelagos_mem info)
      then case p_archipelagos_mem info ! a of
             [] \<Rightarrow> info
           | p # ps \<Rightarrow> release_archipelago a (release_isle a p info)
      else info)"
  by auto
termination
  by (relation "measure (\<lambda>(a, info). length (p_archipelagos_mem info ! a))")
    (auto simp: release_isle_def)

declare release_archipelago.simps [simp del]

definition qed_ooo_release_connection_isles :: "qed_ooo_info \<Rightarrow> u32 \<Rightarrow> qed_ooo_info" where
  "qed_ooo_release_connection_isles info c =
     (case qed_ooo_seek_archipelago info c of
        None \<Rightarrow> info
      | Some a \<Rightarrow> release_archipelago a info)"

definition qed_ooo_release_all_isles :: "qed_ooo_info \<Rightarrow> qed_ooo_info" where
  "qed_ooo_release_all_isles info =
     (let info1 = fold release_archipelago [0..<unat (max_num_archipelagos info)] info
      in if ready_buffers_list info1 \<noteq> []
         then info1\<lparr>free_buffers_list := free_buffers_list info1 @ ready_buffers_list info1,
                    ready_buffers_list := []\<rparr>
         else info1)"

definition qed_ooo_setup :: "qed_ooo_info \<Rightarrow> qed_ooo_info" where
  "qed_ooo_setup info =
     (let info1 = qed_ooo_release_all_isles info; h = ooo_history info1
      in info1\<lparr>ooo_history := h\<lparr>p_cqes := replicate (length (p_cqes h))
             \<lparr>cid = 0, drop_isle = 0, drop_size = 0, ooo_opcode = 0, ooo_isle = 0\<rparr>, head_idx := 0\<rparr>\<rparr>)"

text \<open>
  Taking the component down: the DMA memory (size, virtual and physical address, read through the
  buffer store \<open>heap\<close>) and the structure of each buffer, then the blocks of the component.
\<close>

fun free_buffers_loop :: "(buf \<Rightarrow> qed_ooo_buffer) \<Rightarrow> buf list \<Rightarrow> ooo_mem_op list" where
  "free_buffers_loop heap [] = []"
| "free_buffers_loop heap (b # bs) =
     Dma_free (rx_buffer_size (heap b)) (rx_buffer_virt_addr (heap b)) (rx_buffer_phys_addr (heap b))
       # Kfree_buffer b # free_buffers_loop heap bs"

definition qed_ooo_free ::
  "(buf \<Rightarrow> qed_ooo_buffer) \<Rightarrow> qed_ooo_info option \<Rightarrow> ooo_mem_op list \<times> qed_ooo_info option" where
  "qed_ooo_free heap p_ooo_info =
     (case p_ooo_info of
        None \<Rightarrow> ([], None)
      | Some info \<Rightarrow>
          (free_buffers_loop heap (free_buffers_list (qed_ooo_release_all_isles info)) @
             [Kfree Isles_mem, Kfree Archipelagos_mem, Kfree Cqes_mem, Kfree Ooo_info], None))"

section \<open>Buffer pool\<close>

definition qed_ooo_put_free_buffer :: "qed_ooo_info \<Rightarrow> buf \<Rightarrow> qed_ooo_info" where
  "qed_ooo_put_free_buffer info b =
     info\<lparr>free_buffers_list := list_add_tail b (free_buffers_list info)\<rparr>"

definition qed_ooo_get_free_buffer :: "qed_ooo_info \<Rightarrow> buf option \<times> qed_ooo_info" where
  "qed_ooo_get_free_buffer info =
     (case free_buffers_list info of
        [] \<Rightarrow> (None, info)
      | b # bs \<Rightarrow> (Some b, info\<lparr>free_buffers_list := list_del b (free_buffers_list info)\<rparr>))"

definition qed_ooo_put_ready_buffer :: "qed_ooo_info \<Rightarrow> buf \<Rightarrow> u8 \<Rightarrow> qed_ooo_info" where
  "qed_ooo_put_ready_buffer info b on_tail =
     (if on_tail \<noteq> 0
      then info\<lparr>ready_buffers_list := list_add_tail b (ready_buffers_list info)\<rparr>
      else info\<lparr>ready_buffers_list := list_add b (ready_buffers_list info)\<rparr>)"

definition qed_ooo_get_ready_buffer :: "qed_ooo_info \<Rightarrow> buf option \<times> qed_ooo_info" where
  "qed_ooo_get_ready_buffer info =
     (case ready_buffers_list info of
        [] \<Rightarrow> (None, info)
      | b # bs \<Rightarrow> (Some b, info\<lparr>ready_buffers_list := list_del b (ready_buffers_list info)\<rparr>))"

section \<open>Isle events\<close>

definition drop_one_isle :: "nat \<Rightarrow> isle \<Rightarrow> qed_ooo_info \<Rightarrow> qed_ooo_info" where
  "drop_one_isle a p info =
     info\<lparr>free_buffers_list := free_buffers_list info @ p_isles_mem info ! p,
          p_isles_mem := (p_isles_mem info)[p := []],
          p_archipelagos_mem := (p_archipelagos_mem info)[a := list_del p (p_archipelagos_mem info ! a)],
          cur_isles_number := cur_isles_number info - 1,
          free_isles_list := list_add p (free_isles_list info)\<rparr>"

fun delete_isles_loop :: "nat \<Rightarrow> u32 \<Rightarrow> u8 \<Rightarrow> qed_ooo_info \<Rightarrow> qed_ooo_info" where
  "delete_isles_loop 0 c d info = info"
| "delete_isles_loop (Suc n) c d info =
     (case qed_ooo_seek_isle info c d of
        None \<Rightarrow> info
      | Some p \<Rightarrow> delete_isles_loop n c d (drop_one_isle (unat (ooo_idx info c)) p info))"

definition qed_ooo_delete_isles :: "qed_ooo_info \<Rightarrow> u32 \<Rightarrow> u8 \<Rightarrow> u8 \<Rightarrow> qed_ooo_info" where
  "qed_ooo_delete_isles info c d sz = delete_isles_loop (unat sz) c d info"

fun insert_after :: "'a \<Rightarrow> 'a \<Rightarrow> 'a list \<Rightarrow> 'a list" where
  "insert_after x prev [] = []"
| "insert_after x prev (y # ys) = (if y = prev then y # x # ys else y # insert_after x prev ys)"

definition qed_ooo_add_new_isle :: "qed_ooo_info \<Rightarrow> u32 \<Rightarrow> u8 \<Rightarrow> buf \<Rightarrow> qed_ooo_info option" where
  "qed_ooo_add_new_isle info c k b =
     (let prev = (if k > 1 then qed_ooo_seek_isle info c (k - 1) else None);
          arch = qed_ooo_seek_archipelago info c
      in if k > 1 \<and> prev = None then Some info
         else if arch = None \<and> k \<noteq> 1 then Some info
         else case free_isles_list info of
                [] \<Rightarrow> Some info
              | p # ps \<Rightarrow>
                  (let a = (case arch of Some a \<Rightarrow> a | None \<Rightarrow> unat (ooo_idx info c));
                       cur = cur_isles_number info + 1
                   in if a < length (p_archipelagos_mem info)
                      then Some (info\<lparr>free_isles_list := list_del p (free_isles_list info),
                              p_isles_mem := (p_isles_mem info)[p := list_add b []],
                              cur_isles_number := cur,
                              gen_isles_number := gen_isles_number info + 1,
                              max_isles_number :=
                                (if cur > max_isles_number info then cur else max_isles_number info),
                              p_archipelagos_mem := (p_archipelagos_mem info)[a :=
                                (case prev of
                                   None \<Rightarrow> list_add p (p_archipelagos_mem info ! a)
                                 | Some q \<Rightarrow> insert_after p q (p_archipelagos_mem info ! a))]\<rparr>)
                      else None))"

definition QED_OOO_LEFT_BUF :: u8 where
  "QED_OOO_LEFT_BUF = 0"

definition qed_ooo_add_new_buffer :: "qed_ooo_info \<Rightarrow> u32 \<Rightarrow> u8 \<Rightarrow> buf \<Rightarrow> u8 \<Rightarrow> qed_ooo_info" where
  "qed_ooo_add_new_buffer info c k b side =
     (case qed_ooo_seek_isle info c k of
        None \<Rightarrow> info
      | Some p \<Rightarrow>
          info\<lparr>p_isles_mem := (p_isles_mem info)[p :=
            (if side = QED_OOO_LEFT_BUF then list_add b (p_isles_mem info ! p)
             else list_add_tail b (p_isles_mem info ! p))]\<rparr>)"

definition qed_ooo_join_isles :: "qed_ooo_info \<Rightarrow> u32 \<Rightarrow> u8 \<Rightarrow> qed_ooo_info" where
  "qed_ooo_join_isles info c left =
     (case qed_ooo_seek_isle info c (left + 1) of
        None \<Rightarrow> info
      | Some r \<Rightarrow>
          (let a = unat (ooo_idx info c);
               info1 = info\<lparr>p_archipelagos_mem :=
                           (p_archipelagos_mem info)[a := list_del r (p_archipelagos_mem info ! a)],
                         cur_isles_number := cur_isles_number info - 1\<rparr>
           in if left \<noteq> 0 then
                (case qed_ooo_seek_isle info1 c left of
                   None \<Rightarrow> info1
                 | Some l \<Rightarrow>
                     info1\<lparr>p_isles_mem := (p_isles_mem info1)
                             [l := p_isles_mem info1 ! l @ p_isles_mem info1 ! r, r := []],
                           free_isles_list := list_add_tail r (free_isles_list info1)\<rparr>)
              else
                info1\<lparr>ready_buffers_list := ready_buffers_list info1 @ p_isles_mem info1 ! r,
                      p_isles_mem := (p_isles_mem info1)[r := []],
                      free_isles_list := list_add_tail r (free_isles_list info1)\<rparr>))"

end
