(* ===== verification/Qed_Ooo_Correct.thy ===== *)
theory Qed_Ooo_Correct
  imports Qed_Ooo
begin

text \<open>
  The out-of-order component keeps every isle on exactly one list, never loses or duplicates a
  buffer it holds, and its events act on the list of isles of the connection they name, and on
  no other connection.
\<close>

section \<open>Lists\<close>

lemma mset_concat_update:
  assumes "a < length xs"
  shows "mset (concat (xs[a := ys])) + mset (xs ! a) = mset (concat xs) + mset ys"
  using assms
proof (induction xs arbitrary: a)
  case (Cons x xs)
  then show ?case by (cases a) (auto simp: algebra_simps)
qed simp

lemma remove1_nth:
  assumes "distinct xs" "i < length xs"
  shows "remove1 (xs ! i) xs = take i xs @ drop (Suc i) xs"
  using assms
proof (induction xs arbitrary: i)
  case (Cons x xs)
  then show ?case by (cases i) auto
qed simp

lemma insert_after_nth:
  assumes "distinct xs" "i < length xs"
  shows "insert_after x (xs ! i) xs = take (Suc i) xs @ x # drop (Suc i) xs"
  using assms
proof (induction xs arbitrary: i)
  case (Cons y ys)
  then show ?case by (cases i) auto
qed simp

lemma mset_insert_after: "q \<in> set xs \<Longrightarrow> mset (insert_after x q xs) = add_mset x (mset xs)"
  by (induction xs) auto

lemma map_nth_update_other: "p \<notin> set ps \<Longrightarrow> map ((!) (xs[p := v])) ps = map ((!) xs) ps"
  by (auto intro!: nth_list_update_neq)

lemma map_nth_update:
  assumes "distinct ps" "i < length ps" "ps ! i < length xs"
  shows "map ((!) (xs[ps ! i := v])) ps = (map ((!) xs) ps)[i := v]"
  using assms by (intro nth_equalityI) (auto simp: nth_list_update nth_eq_iff_index_eq)

section \<open>Well-formed states\<close>

text \<open>
  Every isle is on exactly one list: the archipelago of one connection or the free list; free
  isles hold no buffers. The history ring stays inside its array.
\<close>

definition ooo_wf :: "qed_ooo_info \<Rightarrow> bool" where
  "ooo_wf info \<longleftrightarrow>
     length (p_archipelagos_mem info) = unat (max_num_archipelagos info) \<and>
     mset (concat (p_archipelagos_mem info)) + mset (free_isles_list info) =
       mset [0..<length (p_isles_mem info)] \<and>
     (\<forall>p\<in>set (free_isles_list info). p_isles_mem info ! p = []) \<and>
     length (p_cqes (ooo_history info)) = unat (num_of_cqes (ooo_history info)) \<and>
     0 < num_of_cqes (ooo_history info) \<and>
     head_idx (ooo_history info) \<le> num_of_cqes (ooo_history info)"

text \<open>The buffers the component holds.\<close>

definition ooo_bufs :: "qed_ooo_info \<Rightarrow> buf multiset" where
  "ooo_bufs info = mset (free_buffers_list info) + mset (ready_buffers_list info) +
     mset (concat (p_isles_mem info))"

text \<open>The isles of a connection, each as its buffers.\<close>

definition conn_isles :: "qed_ooo_info \<Rightarrow> nat \<Rightarrow> buf list list" where
  "conn_isles info a = map ((!) (p_isles_mem info)) (p_archipelagos_mem info ! a)"

lemma ooo_wf_distinct:
  assumes "ooo_wf info"
  shows "distinct (concat (p_archipelagos_mem info) @ free_isles_list info)"
proof -
  have "mset (concat (p_archipelagos_mem info) @ free_isles_list info) = mset [0..<length (p_isles_mem info)]"
    using assms by (simp add: ooo_wf_def)
  then show ?thesis by (metis distinct_upt mset_eq_imp_distinct_iff)
qed

lemma ooo_wf_set:
  assumes "ooo_wf info"
  shows "set (concat (p_archipelagos_mem info)) \<union> set (free_isles_list info) = {..<length (p_isles_mem info)}"
proof -
  have "set_mset (mset (concat (p_archipelagos_mem info)) + mset (free_isles_list info)) =
      set_mset (mset [0..<length (p_isles_mem info)])"
    using assms unfolding ooo_wf_def by presburger
  then show ?thesis by auto
qed

lemma ooo_wf_isle:
  assumes wf: "ooo_wf info" and a: "a < length (p_archipelagos_mem info)"
    and p: "p \<in> set (p_archipelagos_mem info ! a)"
  shows "p < length (p_isles_mem info)" "p \<notin> set (free_isles_list info)"
    "distinct (p_archipelagos_mem info ! a)"
    "\<And>a'. a' < length (p_archipelagos_mem info) \<Longrightarrow> a' \<noteq> a \<Longrightarrow> p \<notin> set (p_archipelagos_mem info ! a')"
proof -
  let ?A = "p_archipelagos_mem info"
  have pc: "p \<in> set (concat ?A)" using a p by auto
  then show "p < length (p_isles_mem info)" using ooo_wf_set [OF wf] by auto
  note d = ooo_wf_distinct [OF wf]
  show "p \<notin> set (free_isles_list info)" using d pc by auto
  have dc: "distinct (concat ?A)" using d by simp
  then show "distinct (?A ! a)" using a by (meson distinct_concat_iff nth_mem)
  show "p \<notin> set (?A ! a')" if "a' < length ?A" "a' \<noteq> a" for a'
  proof
    assume q: "p \<in> set (?A ! a')"
    have "mset (concat (?A[a := []]) @ ?A ! a) = mset (concat ?A)"
      using mset_concat_update [OF a, of "[]"] by simp
    then have "distinct (concat (?A[a := []]) @ ?A ! a)" using dc mset_eq_imp_distinct_iff by blast
    moreover have "?A ! a' \<in> set (?A[a := []])" using that by (metis length_list_update nth_list_update_neq nth_mem)
    then have "p \<in> set (concat (?A[a := []]))" using q by auto
    ultimately show False using p by auto
  qed
qed

text \<open>An isle moves from an archipelago to the free list.\<close>

lemma ooo_wf_free_isle:
  assumes wf: "ooo_wf info" and a: "a < length (p_archipelagos_mem info)"
    and p: "p \<in> set (p_archipelagos_mem info ! a)"
    and new: "p_archipelagos_mem info' = (p_archipelagos_mem info)[a := list_del p (p_archipelagos_mem info ! a)]"
      "mset (free_isles_list info') = add_mset p (mset (free_isles_list info))"
      "length (p_isles_mem info') = length (p_isles_mem info)" "p_isles_mem info' ! p = []"
      "\<And>q. q \<in> set (free_isles_list info) \<Longrightarrow> p_isles_mem info' ! q = p_isles_mem info ! q"
      "max_num_archipelagos info' = max_num_archipelagos info" "ooo_history info' = ooo_history info"
  shows "ooo_wf info'"
proof -
  have "mset (concat (p_archipelagos_mem info')) + mset (p_archipelagos_mem info ! a) =
      mset (concat (p_archipelagos_mem info)) + (mset (p_archipelagos_mem info ! a) - {#p#})"
    using mset_concat_update [OF a] by (simp add: new)
  moreover have "add_mset p (mset (p_archipelagos_mem info ! a) - {#p#}) = mset (p_archipelagos_mem info ! a)"
    using p by simp
  ultimately have A: "add_mset p (mset (concat (p_archipelagos_mem info'))) = mset (concat (p_archipelagos_mem info))"
    by (metis (no_types, lifting) add_mset_add_single add_right_cancel union_mset_add_mset_left union_mset_add_mset_right)
  have "mset (concat (p_archipelagos_mem info')) + mset (free_isles_list info') =
      mset (concat (p_archipelagos_mem info)) + mset (free_isles_list info)"
    by (simp add: new(2) flip: A)
  moreover have "set (free_isles_list info') = insert p (set (free_isles_list info))"
    using new(2) by (metis set_mset_add_mset_insert set_mset_mset)
  moreover have "length (p_archipelagos_mem info') = length (p_archipelagos_mem info)" by (simp add: new(1))
  ultimately show ?thesis using wf new(3-7) unfolding ooo_wf_def by (metis insert_iff)
qed

section \<open>Seeking\<close>

lemma seek_isle_walk_nth:
  assumes "unat n \<le> unat k"
  shows "seek_isle_walk ps n k = (if unat k - unat n < length ps then Some (ps ! (unat k - unat n)) else None)"
  using assms
proof (induction ps arbitrary: n)
  case (Cons p ps)
  show ?case
  proof (cases "n = k")
    case False
    then have lt: "unat n < unat k" using Cons.prems by (simp add: le_less word_unat_eq_iff)
    then have "unat (n + 1) = Suc (unat n)"
      using unsigned_less [of k, where 'a = nat] by (simp add: unat_Suc_mod)
    moreover obtain d where "unat k - unat n = Suc d" "unat k - Suc (unat n) = d" using lt by (metis Suc_diff_Suc)
    ultimately show ?thesis using Cons.IH [of "n + 1"] False lt by auto
  qed simp
qed simp

lemma seek_archipelago_Some:
  assumes "ooo_wf info" "qed_ooo_seek_archipelago info c = Some a"
  shows "a = unat (ooo_idx info c)" "a < length (p_archipelagos_mem info)" "p_archipelagos_mem info ! a \<noteq> []"
  using assms by (auto simp: qed_ooo_seek_archipelago_def Let_def ooo_wf_def word_le_nat_alt unat_ucast_le
      split: if_splits)

lemma seek_isle_Some:
  assumes wf: "ooo_wf info" and s: "qed_ooo_seek_isle info c k = Some p"
  shows "unat (ooo_idx info c) < length (p_archipelagos_mem info)"
    "p \<in> set (p_archipelagos_mem info ! unat (ooo_idx info c))"
proof -
  have w: "seek_isle_walk ps n k = Some p \<Longrightarrow> p \<in> set ps" for ps n
    by (induction ps arbitrary: n) (auto split: if_splits)
  show "unat (ooo_idx info c) < length (p_archipelagos_mem info)"
    "p \<in> set (p_archipelagos_mem info ! unat (ooo_idx info c))"
    using s seek_archipelago_Some [OF wf] w by (auto simp: qed_ooo_seek_isle_def split: option.splits)
qed

text \<open>A connection of the component: its id is in range; \<open>a\<close> is its index.\<close>

definition ooo_conn :: "qed_ooo_info \<Rightarrow> u32 \<Rightarrow> nat \<Rightarrow> bool" where
  "ooo_conn info c a \<longleftrightarrow> a = unat (ooo_idx info c) \<and> a < length (p_archipelagos_mem info)"

lemma seek_isle_nth:
  assumes wf: "ooo_wf info" and c: "ooo_conn info c a" and k: "0 < k"
  shows "qed_ooo_seek_isle info c k =
    (if unat k \<le> length (p_archipelagos_mem info ! a) then Some (p_archipelagos_mem info ! a ! (unat k - 1)) else None)"
proof -
  have k1: "1 \<le> unat k" using k by (simp add: word_less_nat_alt Suc_le_eq)
  have "ooo_idx info c < ucast (max_num_archipelagos info)"
    using wf c by (simp add: ooo_conn_def ooo_wf_def word_less_nat_alt unat_ucast_le)
  then have "qed_ooo_seek_archipelago info c =
      (if p_archipelagos_mem info ! a = [] then None else Some a)"
    using c by (auto simp: qed_ooo_seek_archipelago_def Let_def ooo_conn_def)
  moreover have "unat k - 1 < length xs \<longleftrightarrow> unat k \<le> length xs" for xs :: "isle list" using k1 by auto
  ultimately show ?thesis
    using seek_isle_walk_nth [of 1 k "p_archipelagos_mem info ! a"] k1 by (auto simp: qed_ooo_seek_isle_def)
qed

text \<open>
  The isle after number \<open>l\<close>. The numbers have 8 bits: after 255 comes 0, which the walk reaches at
  the 256th isle, so the neighbour is found there too.
\<close>

lemma seek_isle_walk_zero:
  "0 < unat n \<Longrightarrow> seek_isle_walk ps n 0 = (if 256 - unat n < length ps then Some (ps ! (256 - unat n)) else None)"
proof (induction ps arbitrary: n)
  case (Cons p ps)
  have n: "n \<noteq> 0" "unat n < 256" using Cons.prems unsigned_less [of n, where 'a = nat] by (auto simp: unat_gt_0)
  show ?case
  proof (cases "unat n = 255")
    case True
    then have "n + 1 = 0" by (simp add: word_unat_eq_iff unat_Suc_mod)
    then show ?thesis using n True by (cases ps) auto
  next
    case False
    then have "unat (n + 1) = Suc (unat n)" using n(2) by (simp add: unat_Suc_mod)
    moreover have "256 - unat n = Suc (256 - Suc (unat n))" using n(2) by simp
    ultimately show ?thesis using Cons.IH [of "n + 1"] n by auto
  qed
qed simp

lemma seek_next_isle:
  assumes wf: "ooo_wf info" and c: "ooo_conn info c a"
  shows "qed_ooo_seek_isle info c (l + 1) =
    (if unat l < length (p_archipelagos_mem info ! a) then Some (p_archipelagos_mem info ! a ! unat l) else None)"
proof (cases "l + 1 = 0")
  case False
  then have "unat (l + 1) = Suc (unat l)" "0 < l + 1" by (simp_all add: unat_Suc_nz word_gt_0)
  then show ?thesis using seek_isle_nth [OF wf c, of "l + 1"] by simp
next
  case True
  then have "l = - 1" by (simp add: add_eq_0_iff2)
  then have l: "unat l = 255" by (simp add: unsigned_minus_1_eq_mask mask_eq_exp_minus_1)
  have "ooo_idx info c < ucast (max_num_archipelagos info)"
    using wf c by (simp add: ooo_conn_def ooo_wf_def word_less_nat_alt unat_ucast_le)
  then have "qed_ooo_seek_archipelago info c = (if p_archipelagos_mem info ! a = [] then None else Some a)"
    using c by (auto simp: qed_ooo_seek_archipelago_def Let_def ooo_conn_def)
  then show ?thesis using seek_isle_walk_zero [of 1 "p_archipelagos_mem info ! a"] l True
    by (auto simp: qed_ooo_seek_isle_def)
qed

section \<open>Every operation keeps the state well-formed and accounts for its buffers\<close>

lemma bufs_update:
  assumes "p < length isles"
  shows "mset (concat (isles[p := bs])) + mset (isles ! p) = mset (concat isles) + mset bs"
  by (rule mset_concat_update [OF assms])

lemma release_buffers_append [simp]: "release_buffers bs free = free @ bs"
  by (induction bs arbitrary: free) (simp_all add: list_add_tail_def)

lemma release_isle_wf:
  assumes wf: "ooo_wf info" and a: "a < length (p_archipelagos_mem info)"
    and p: "p \<in> set (p_archipelagos_mem info ! a)"
  shows "ooo_wf (release_isle a p info)" "ooo_bufs (release_isle a p info) = ooo_bufs info"
    "max_num_archipelagos (release_isle a p info) = max_num_archipelagos info"
    "cid_base (release_isle a p info) = cid_base info"
proof -
  note w = ooo_wf_isle [OF wf a p]
  show "ooo_wf (release_isle a p info)"
    by (rule ooo_wf_free_isle [OF wf a p]) (use w in \<open>auto simp: release_isle_def nth_list_update\<close>)
  show "ooo_bufs (release_isle a p info) = ooo_bufs info"
    using bufs_update [OF w(1), of "[]"] by (simp add: ooo_bufs_def release_isle_def ac_simps)
qed (simp_all add: release_isle_def)

lemma drop_one_isle_wf:
  assumes wf: "ooo_wf info" and a: "a < length (p_archipelagos_mem info)"
    and p: "p \<in> set (p_archipelagos_mem info ! a)"
  shows "ooo_wf (drop_one_isle a p info)" "ooo_bufs (drop_one_isle a p info) = ooo_bufs info"
proof -
  note w = ooo_wf_isle [OF wf a p]
  show "ooo_wf (drop_one_isle a p info)"
    by (rule ooo_wf_free_isle [OF wf a p]) (use w in \<open>auto simp: drop_one_isle_def nth_list_update\<close>)
  show "ooo_bufs (drop_one_isle a p info) = ooo_bufs info"
    using bufs_update [OF w(1), of "[]"] by (simp add: ooo_bufs_def drop_one_isle_def ac_simps)
qed

lemma release_archipelago_wf:
  "ooo_wf info \<Longrightarrow> ooo_wf (release_archipelago a info) \<and> ooo_bufs (release_archipelago a info) = ooo_bufs info \<and>
    max_num_archipelagos (release_archipelago a info) = max_num_archipelagos info"
proof (induction a info rule: release_archipelago.induct)
  case (1 a info)
  show ?case
  proof (cases "a < length (p_archipelagos_mem info) \<and> p_archipelagos_mem info ! a \<noteq> []")
    case True
    then obtain p ps where ps: "p_archipelagos_mem info ! a = p # ps" by (cases "p_archipelagos_mem info ! a") auto
    then have r: "release_archipelago a info = release_archipelago a (release_isle a p info)"
      using True by (subst release_archipelago.simps) simp
    have p: "p \<in> set (p_archipelagos_mem info ! a)" by (simp add: ps)
    note w = release_isle_wf [OF "1.prems" conjunct1 [OF True] p]
    show ?thesis unfolding r using "1.IH" [OF conjunct1 [OF True] ps w(1)] w by simp
  next
    case False
    then have "release_archipelago a info = info"
      by (subst release_archipelago.simps) (auto split: list.split)
    then show ?thesis using "1.prems" by simp
  qed
qed

lemma fold_release_wf:
  "ooo_wf info \<Longrightarrow> ooo_wf (fold release_archipelago as info) \<and>
    ooo_bufs (fold release_archipelago as info) = ooo_bufs info \<and>
    max_num_archipelagos (fold release_archipelago as info) = max_num_archipelagos info"
  using release_archipelago_wf by (induction as arbitrary: info) auto

lemma ooo_wf_buffer_lists [simp]:
  "ooo_wf (info\<lparr>free_buffers_list := fs\<rparr>) = ooo_wf info"
  "ooo_wf (info\<lparr>ready_buffers_list := rs\<rparr>) = ooo_wf info"
  by (simp_all add: ooo_wf_def)

lemma release_connection_wf:
  assumes "ooo_wf info"
  shows "ooo_wf (qed_ooo_release_connection_isles info c)"
    "ooo_bufs (qed_ooo_release_connection_isles info c) = ooo_bufs info"
  using release_archipelago_wf [OF assms]
  by (auto simp: qed_ooo_release_connection_isles_def assms split: option.split)

lemma release_all_wf:
  assumes "ooo_wf info"
  shows "ooo_wf (qed_ooo_release_all_isles info)" "ooo_bufs (qed_ooo_release_all_isles info) = ooo_bufs info"
proof -
  let ?i = "fold release_archipelago [0..<unat (max_num_archipelagos info)] info"
  have w: "ooo_wf ?i" "ooo_bufs ?i = ooo_bufs info" using fold_release_wf [OF assms] by blast+
  have "ooo_bufs (?i\<lparr>free_buffers_list := free_buffers_list ?i @ ready_buffers_list ?i,
      ready_buffers_list := []\<rparr>) = ooo_bufs ?i"
    by (simp add: ooo_bufs_def)
  with w show "ooo_wf (qed_ooo_release_all_isles info)"
    "ooo_bufs (qed_ooo_release_all_isles info) = ooo_bufs info"
    by (simp_all add: qed_ooo_release_all_isles_def Let_def)
qed

lemma setup_wf:
  assumes "ooo_wf info"
  shows "ooo_wf (qed_ooo_setup info)" "ooo_bufs (qed_ooo_setup info) = ooo_bufs info"
  using release_all_wf [OF assms]
  by (simp_all add: qed_ooo_setup_def Let_def ooo_wf_def ooo_bufs_def)

lemma delete_isles_wf:
  assumes "ooo_wf info"
  shows "ooo_wf (delete_isles_loop n c d info) \<and> ooo_bufs (delete_isles_loop n c d info) = ooo_bufs info"
  using assms
proof (induction n arbitrary: info)
  case (Suc n)
  show ?case
  proof (cases "qed_ooo_seek_isle info c d")
    case (Some p)
    note s = seek_isle_Some [OF Suc.prems Some]
    note w = drop_one_isle_wf [OF Suc.prems s]
    show ?thesis using Suc.IH [OF w(1)] w(2) Some by simp
  qed (simp add: Suc.prems)
qed simp

lemma add_new_buffer_wf:
  assumes wf: "ooo_wf info"
  shows "ooo_wf (qed_ooo_add_new_buffer info c k b side)"
    "ooo_bufs (qed_ooo_add_new_buffer info c k b side) =
      ooo_bufs info + (if qed_ooo_seek_isle info c k = None then {#} else {#b#})"
proof -
  have "ooo_wf (qed_ooo_add_new_buffer info c k b side) \<and>
    ooo_bufs (qed_ooo_add_new_buffer info c k b side) =
      ooo_bufs info + (if qed_ooo_seek_isle info c k = None then {#} else {#b#})"
  proof (cases "qed_ooo_seek_isle info c k")
    case (Some p)
    note s = seek_isle_Some [OF wf Some]
    note w = ooo_wf_isle [OF wf s]
    have n: "q \<in> set (free_isles_list info) \<Longrightarrow> p \<noteq> q" for q using w(2) by blast
    define bs where "bs = (if side = QED_OOO_LEFT_BUF then list_add b (p_isles_mem info ! p)
        else list_add_tail b (p_isles_mem info ! p))"
    have m: "mset bs = add_mset b (mset (p_isles_mem info ! p))" by (simp add: bs_def)
    have r: "qed_ooo_add_new_buffer info c k b side = info\<lparr>p_isles_mem := (p_isles_mem info)[p := bs]\<rparr>"
      by (simp add: qed_ooo_add_new_buffer_def Some bs_def)
    show ?thesis using wf bufs_update [OF w(1), of bs] n unfolding r
      by (auto simp: ooo_wf_def ooo_bufs_def m Some nth_list_update)
  qed (simp add: qed_ooo_add_new_buffer_def wf)
  then show "ooo_wf (qed_ooo_add_new_buffer info c k b side)"
    "ooo_bufs (qed_ooo_add_new_buffer info c k b side) =
      ooo_bufs info + (if qed_ooo_seek_isle info c k = None then {#} else {#b#})" by auto
qed

text \<open>Where the events find what they refer to.\<close>

definition opens_isle :: "qed_ooo_info \<Rightarrow> u32 \<Rightarrow> u8 \<Rightarrow> bool" where
  "opens_isle info c k \<longleftrightarrow>
     \<not> (k > 1 \<and> qed_ooo_seek_isle info c (k - 1) = None) \<and>
     \<not> (qed_ooo_seek_archipelago info c = None \<and> k \<noteq> 1) \<and> free_isles_list info \<noteq> []"

lemma add_new_isle_refused: "\<not> opens_isle info c k \<Longrightarrow> qed_ooo_add_new_isle info c k b = Some info"
  by (auto simp: qed_ooo_add_new_isle_def opens_isle_def Let_def split: list.split)

lemma add_new_isle_opens:
  assumes wf: "ooo_wf info" and c: "ooo_conn info c a" and op: "opens_isle info c k"
  obtains p ps where "free_isles_list info = p # ps"
    "qed_ooo_add_new_isle info c k b = Some (info\<lparr>free_isles_list := ps,
        p_isles_mem := (p_isles_mem info)[p := [b]],
        cur_isles_number := cur_isles_number info + 1, gen_isles_number := gen_isles_number info + 1,
        max_isles_number := max (cur_isles_number info + 1) (max_isles_number info),
        p_archipelagos_mem := (p_archipelagos_mem info)[a :=
          (if k > 1 then insert_after p (the (qed_ooo_seek_isle info c (k - 1))) (p_archipelagos_mem info ! a)
           else p # p_archipelagos_mem info ! a)]\<rparr>)"
    "k > 1 \<Longrightarrow> the (qed_ooo_seek_isle info c (k - 1)) \<in> set (p_archipelagos_mem info ! a)"
proof -
  obtain p ps where f: "free_isles_list info = p # ps" using op by (auto simp: opens_isle_def neq_Nil_conv)
  have a: "(case qed_ooo_seek_archipelago info c of None \<Rightarrow> unat (ooo_idx info c) | Some a \<Rightarrow> a) = a"
    using c seek_archipelago_Some(1) [OF wf] by (auto simp: ooo_conn_def split: option.split)
  have s: "the (qed_ooo_seek_isle info c (k - 1)) \<in> set (p_archipelagos_mem info ! a)" if "k > 1"
    using op that seek_isle_Some(2) [OF wf, of c "k - 1"] c by (auto simp: opens_isle_def ooo_conn_def)
  show ?thesis
    by (rule that [OF f _ s])
      (use op f c a in \<open>auto simp: qed_ooo_add_new_isle_def opens_isle_def Let_def ooo_conn_def list_add_def
        max_def split: option.splits\<close>)
qed

lemma add_new_isle_wf:
  assumes wf: "ooo_wf info" and c: "ooo_conn info c a"
  shows "\<exists>info'. qed_ooo_add_new_isle info c k b = Some info' \<and> ooo_wf info' \<and>
    ooo_bufs info' = ooo_bufs info + (if opens_isle info c k then {#b#} else {#})"
proof (cases "opens_isle info c k")
  case True
  from wf c True obtain p ps where f: "free_isles_list info = p # ps" and
    r: "qed_ooo_add_new_isle info c k b = Some (info\<lparr>free_isles_list := ps,
        p_isles_mem := (p_isles_mem info)[p := [b]],
        cur_isles_number := cur_isles_number info + 1, gen_isles_number := gen_isles_number info + 1,
        max_isles_number := max (cur_isles_number info + 1) (max_isles_number info),
        p_archipelagos_mem := (p_archipelagos_mem info)[a :=
          (if k > 1 then insert_after p (the (qed_ooo_seek_isle info c (k - 1))) (p_archipelagos_mem info ! a)
           else p # p_archipelagos_mem info ! a)]\<rparr>)" (is "_ = Some ?i")
    and q: "k > 1 \<Longrightarrow> the (qed_ooo_seek_isle info c (k - 1)) \<in> set (p_archipelagos_mem info ! a)"
    by (rule add_new_isle_opens [where b = b]) blast
  have a: "a < length (p_archipelagos_mem info)" using c by (simp add: ooo_conn_def)
  have pl: "p < length (p_isles_mem info)" and pe: "p_isles_mem info ! p = []"
    using ooo_wf_set [OF wf] wf f by (auto simp: ooo_wf_def)
  have pd: "p \<notin> set ps" using ooo_wf_distinct [OF wf] f by auto
  let ?xs = "if k > 1 then insert_after p (the (qed_ooo_seek_isle info c (k - 1))) (p_archipelagos_mem info ! a)
           else p # p_archipelagos_mem info ! a"
  have "mset ?xs = add_mset p (mset (p_archipelagos_mem info ! a))" using q by (simp add: mset_insert_after)
  then have "mset (concat ((p_archipelagos_mem info)[a := ?xs])) = add_mset p (mset (concat (p_archipelagos_mem info)))"
    using mset_concat_update [OF a, of ?xs] by simp
  then have "mset (concat (p_archipelagos_mem ?i)) + mset (free_isles_list ?i) =
      mset (concat (p_archipelagos_mem info)) + mset (free_isles_list info)" by (simp add: f)
  moreover have "\<forall>q\<in>set ps. (p_isles_mem info)[p := [b]] ! q = []"
  proof
    fix q assume "q \<in> set ps"
    moreover from this have "p \<noteq> q" using pd by blast
    ultimately show "(p_isles_mem info)[p := [b]] ! q = []" using wf f by (simp add: ooo_wf_def)
  qed
  ultimately have "ooo_wf ?i" using wf by (simp add: ooo_wf_def)
  moreover have "ooo_bufs ?i = ooo_bufs info + {#b#}"
    using bufs_update [OF pl, of "[b]"] pe by (simp add: ooo_bufs_def)
  ultimately show ?thesis using r True by auto
qed (auto simp: add_new_isle_refused wf)

text \<open>
  Joining. The left neighbour of an isle that was found is always found too, so the branch of
  the code that reports a missing left isle, and would lose the right one, is never taken.
\<close>

lemma join_left_found:
  assumes wf: "ooo_wf info" and c: "ooo_conn info c a" and l: "l \<noteq> 0"
    and r: "qed_ooo_seek_isle info c (l + 1) = Some r"
  defines "info1 \<equiv> info\<lparr>p_archipelagos_mem :=
      (p_archipelagos_mem info)[a := list_del r (p_archipelagos_mem info ! a)],
      cur_isles_number := cur_isles_number info - 1\<rparr>"
  shows "unat l < length (p_archipelagos_mem info ! a)" "r = p_archipelagos_mem info ! a ! unat l"
    "qed_ooo_seek_isle info1 c l = Some (p_archipelagos_mem info ! a ! (unat l - 1))"
proof -
  let ?xs = "p_archipelagos_mem info ! a"
  have l1: "1 \<le> unat l" using l by (metis One_nat_def Suc_leI unat_gt_0)
  note s = seek_next_isle [OF wf c, of l] r
  then show lt: "unat l < length ?xs" and rr: "r = ?xs ! unat l" by (auto split: if_splits)
  have "distinct ?xs"
    using ooo_wf_isle(3) [OF wf _ seek_isle_Some(2) [OF wf r]] c by (simp add: ooo_conn_def)
  then have d: "list_del r ?xs = take (unat l) ?xs @ drop (Suc (unat l)) ?xs"
    using remove1_nth lt rr by (simp add: list_del_def)
  have "qed_ooo_seek_archipelago info1 c = Some a"
    using wf c lt l1 d by (auto simp: qed_ooo_seek_archipelago_def Let_def info1_def ooo_conn_def
        ooo_idx_def ooo_wf_def word_le_nat_alt unat_ucast_le)
  moreover have "p_archipelagos_mem info1 ! a = list_del r ?xs" using c by (simp add: info1_def ooo_conn_def)
  moreover have "seek_isle_walk (list_del r ?xs) 1 l = Some (?xs ! (unat l - 1))"
    using seek_isle_walk_nth [of 1 l "list_del r ?xs"] l1 lt by (simp add: d nth_append)
  ultimately show "qed_ooo_seek_isle info1 c l = Some (?xs ! (unat l - 1))"
    by (simp add: qed_ooo_seek_isle_def)
qed

lemma join_unfold:
  assumes wf: "ooo_wf info" and c: "ooo_conn info c a"
    and r: "qed_ooo_seek_isle info c (l + 1) = Some r"
  shows "qed_ooo_join_isles info c l =
    (let info1 = info\<lparr>p_archipelagos_mem :=
           (p_archipelagos_mem info)[a := list_del r (p_archipelagos_mem info ! a)],
           cur_isles_number := cur_isles_number info - 1,
           free_isles_list := list_add_tail r (free_isles_list info)\<rparr>;
         p = p_archipelagos_mem info ! a ! (unat l - 1)
     in if l \<noteq> 0
        then info1\<lparr>p_isles_mem := (p_isles_mem info)[p := p_isles_mem info ! p @ p_isles_mem info ! r, r := []]\<rparr>
        else info1\<lparr>ready_buffers_list := ready_buffers_list info @ p_isles_mem info ! r,
                   p_isles_mem := (p_isles_mem info)[r := []]\<rparr>)"
proof (cases "l = 0")
  case True
  then show ?thesis using r c by (simp add: qed_ooo_join_isles_def Let_def ooo_conn_def)
next
  case False
  have a: "unat (ooo_idx info c) = a" using c by (simp add: ooo_conn_def)
  note f = join_left_found(3) [OF wf c False r]
  show ?thesis using r False f by (simp add: qed_ooo_join_isles_def Let_def a)
qed

lemma join_isles_wf:
  assumes wf: "ooo_wf info"
  shows "ooo_wf (qed_ooo_join_isles info c l)" "ooo_bufs (qed_ooo_join_isles info c l) = ooo_bufs info"
proof -
  have "ooo_wf (qed_ooo_join_isles info c l) \<and> ooo_bufs (qed_ooo_join_isles info c l) = ooo_bufs info"
  proof (cases "qed_ooo_seek_isle info c (l + 1)")
    case None
    then show ?thesis using wf by (simp add: qed_ooo_join_isles_def)
  next
    case (Some r)
    define a where "a = unat (ooo_idx info c)"
    have a: "a < length (p_archipelagos_mem info)" and r: "r \<in> set (p_archipelagos_mem info ! a)"
      using seek_isle_Some [OF wf Some] by (simp_all add: a_def)
    have c: "ooo_conn info c a" using a by (simp add: ooo_conn_def a_def)
    note w = ooo_wf_isle [OF wf a r]
    note u = join_unfold [OF wf c Some]
    show ?thesis
    proof (cases "l = 0")
      case True
      note u0 = u [unfolded True]
      have "ooo_wf (qed_ooo_join_isles info c 0)"
        by (rule ooo_wf_free_isle [OF wf a r]) (use w in \<open>auto simp: u0 Let_def nth_list_update\<close>)
      moreover have "ooo_bufs (qed_ooo_join_isles info c 0) = ooo_bufs info"
        using bufs_update [OF w(1), of "[]"] by (simp add: ooo_bufs_def u0 Let_def ac_simps)
      ultimately show ?thesis using True by simp
    next
      case False
      define p where "p = p_archipelagos_mem info ! a ! (unat l - 1)"
      note u' = u [unfolded Let_def, folded p_def]
      note f = join_left_found(1,2) [OF wf c False Some]
      have l1: "1 \<le> unat l" using False by (metis One_nat_def Suc_leI unat_gt_0)
      have p: "p \<in> set (p_archipelagos_mem info ! a)" using f(1) by (simp add: p_def)
      note wp = ooo_wf_isle [OF wf a p]
      have pr: "p \<noteq> r" using f l1 w(3) by (simp add: p_def nth_eq_iff_index_eq)
      let ?is = "(p_isles_mem info)[p := p_isles_mem info ! p @ p_isles_mem info ! r]"
      have q: "p \<noteq> q" "r \<noteq> q" if "q \<in> set (free_isles_list info)" for q using that w(2) wp(2) by auto
      have "ooo_wf (qed_ooo_join_isles info c l)"
        by (rule ooo_wf_free_isle [OF wf a r])
          (use w q False in \<open>auto simp: u'\<close>)
      moreover have "mset (concat (?is[r := []])) = mset (concat (p_isles_mem info))"
        using bufs_update [of r ?is "[]"] bufs_update [OF wp(1), of "p_isles_mem info ! p @ p_isles_mem info ! r"]
          w(1) pr by simp
      then have "ooo_bufs (qed_ooo_join_isles info c l) = ooo_bufs info"
        using False by (simp add: ooo_bufs_def u')
      ultimately show ?thesis by simp
    qed
  qed
  then show "ooo_wf (qed_ooo_join_isles info c l)" "ooo_bufs (qed_ooo_join_isles info c l) = ooo_bufs info"
    by auto
qed

lemma history_wf:
  assumes wf: "ooo_wf info"
  shows "\<exists>info'. qed_ooo_save_history_entry info cqe = Some info' \<and> ooo_wf info' \<and>
    ooo_bufs info' = ooo_bufs info \<and>
    (let h = ooo_history info; h' = ooo_history info' in
       p_cqes h' ! (unat (head_idx h') - 1) = cqe \<and> 0 < head_idx h')"
proof -
  let ?h = "ooo_history info"
  define hd where "hd = (if head_idx ?h = num_of_cqes ?h then 0 else head_idx ?h)"
  have lt: "unat hd < unat (num_of_cqes ?h)"
    using wf by (auto simp: ooo_wf_def hd_def word_less_nat_alt word_le_nat_alt word_unat_eq_iff)
  then have s: "unat (hd + 1) = Suc (unat hd)"
    using unsigned_less [of "num_of_cqes ?h", where 'a = nat] by (simp add: unat_Suc_mod)
  have "qed_ooo_save_history_entry info cqe =
      Some (info\<lparr>ooo_history := ?h\<lparr>p_cqes := (p_cqes ?h)[unat hd := cqe], head_idx := hd + 1\<rparr>\<rparr>)"
    using lt wf by (simp add: qed_ooo_save_history_entry_def Let_def hd_def ooo_wf_def)
  then show ?thesis using wf lt s
    by (auto simp: ooo_wf_def ooo_bufs_def Let_def word_le_nat_alt word_less_nat_alt)
qed

end
