(* ===== verification/Qed_Interfaces.thy ===== *)
theory Qed_Interfaces
  imports Qed_Prelude
begin

text \<open>
  Contracts shared by several components, as locales: what a provider promises about its
  operations, and what follows for every sequence of them.
\<close>

section \<open>Runs\<close>

fun run_opt :: "('op \<Rightarrow> 's \<Rightarrow> 's option) \<Rightarrow> 'op list \<Rightarrow> 's \<Rightarrow> 's option" where
  "run_opt step [] s = Some s"
| "run_opt step (op # ops) s = (case step op s of None \<Rightarrow> None | Some s' \<Rightarrow> run_opt step ops s')"

fun run_sum ::
  "('op \<Rightarrow> 's \<Rightarrow> 's option) \<Rightarrow> ('op \<Rightarrow> 's \<Rightarrow> 'b multiset) \<Rightarrow> 'op list \<Rightarrow> 's \<Rightarrow> 'b multiset" where
  "run_sum step f [] s = {#}"
| "run_sum step f (op # ops) s =
     f op s + (case step op s of None \<Rightarrow> {#} | Some s' \<Rightarrow> run_sum step f ops s')"

fun run_ok :: "('op \<Rightarrow> 's \<Rightarrow> 's option) \<Rightarrow> ('op \<Rightarrow> 's \<Rightarrow> bool) \<Rightarrow> 'op list \<Rightarrow> 's \<Rightarrow> bool" where
  "run_ok step ok [] s \<longleftrightarrow> True"
| "run_ok step ok (op # ops) s \<longleftrightarrow>
     ok op s \<and> (case step op s of None \<Rightarrow> True | Some s' \<Rightarrow> run_ok step ok ops s')"

section \<open>Conservation\<close>

text \<open>
  A component that holds objects on behalf of others. Each operation keeps the invariant and
  is exact about what it takes over (\<open>gain\<close>) and what it hands out (\<open>loss\<close>).
\<close>

locale conserving =
  fixes step :: "'op \<Rightarrow> 's \<Rightarrow> 's option"
    and inv :: "'s \<Rightarrow> bool"
    and owned :: "'s \<Rightarrow> 'b multiset"
    and gain :: "'op \<Rightarrow> 's \<Rightarrow> 'b multiset"
    and loss :: "'op \<Rightarrow> 's \<Rightarrow> 'b multiset"
    and ok :: "'op \<Rightarrow> 's \<Rightarrow> bool"
  assumes step_conserves: "inv s \<Longrightarrow> ok op s \<Longrightarrow>
    \<exists>s'. step op s = Some s' \<and> inv s' \<and> owned s' + loss op s = owned s + gain op s"
begin

lemma run_conserves:
  assumes "inv s" "run_ok step ok ops s"
  shows "\<exists>s'. run_opt step ops s = Some s' \<and> inv s' \<and>
    owned s' + run_sum step loss ops s = owned s + run_sum step gain ops s"
  using assms
proof (induction ops arbitrary: s)
  case (Cons op ops)
  then obtain s1 where s1: "step op s = Some s1" "inv s1" "owned s1 + loss op s = owned s + gain op s"
    using step_conserves [of s op] by auto
  moreover have "run_ok step ok ops s1" using Cons.prems(2) s1(1) by simp
  ultimately obtain s' where s': "run_opt step ops s1 = Some s'" "inv s'"
    "owned s' + run_sum step loss ops s1 = owned s1 + run_sum step gain ops s1"
    using Cons.IH by blast
  have "owned s' + (loss op s + run_sum step loss ops s1) = (owned s1 + loss op s) + run_sum step gain ops s1"
    using s'(3) by (metis (no_types, lifting) add.assoc add.commute)
  then show ?case using s1 s' by (simp add: add.assoc)
qed simp

lemma owned_bounded:
  assumes "inv s" "run_ok step ok ops s" "run_opt step ops s = Some s'"
  shows "owned s' \<subseteq># owned s + run_sum step gain ops s"
  using run_conserves [OF assms(1,2)] assms(3) by (metis mset_subset_eq_add_left option.inject)

end

text \<open>When an operation that is not \<open>ok\<close> fails, the condition describes the runs exactly.\<close>

locale conserving_exact = conserving +
  assumes not_ok_fails: "inv s \<Longrightarrow> \<not> ok op s \<Longrightarrow> step op s = None"
begin

lemma run_exact:
  assumes "inv s"
  shows "run_opt step ops s = None \<longleftrightarrow> \<not> run_ok step ok ops s"
  using assms
proof (induction ops arbitrary: s)
  case (Cons op ops)
  show ?case
  proof (cases "ok op s")
    case True
    then obtain s1 where "step op s = Some s1" "inv s1"
      using step_conserves [OF Cons.prems] by blast
    then show ?thesis using Cons.IH True by simp
  next
    case False
    then show ?thesis using not_ok_fails [OF Cons.prems] by simp
  qed
qed simp

end

section \<open>Rings\<close>

text \<open>
  A ring shared with the device, as its user sees it: unbounded positions \<open>P\<close> of the producer
  and \<open>C\<close> of the consumer (\<open>at r P C\<close>), at most \<open>cap\<close> apart. Producing hands out the slot of
  position \<open>P\<close>; the index the user reads is the tag of \<open>P\<close>; slots and tags of the positions
  of one round are different.
\<close>

locale ring =
  fixes produce :: "'r \<Rightarrow> 'a \<times> 'r"
    and give_back :: "'r \<Rightarrow> 'r"
    and left :: "'r \<Rightarrow> nat"
    and idx :: "'r \<Rightarrow> 'i"
    and cap :: nat
    and at :: "'r \<Rightarrow> nat \<Rightarrow> nat \<Rightarrow> bool"
    and slot :: "nat \<Rightarrow> 'a"
    and tag :: "nat \<Rightarrow> 'i"
  assumes at_window: "at r P C \<Longrightarrow> C \<le> P \<and> P \<le> C + cap"
    and produce_at: "at r P C \<Longrightarrow> P < C + cap \<Longrightarrow>
      fst (produce r) = slot P \<and> at (snd (produce r)) (Suc P) C"
    and give_back_at: "at r P C \<Longrightarrow> C < P \<Longrightarrow> at (give_back r) P (Suc C)"
    and left_at: "at r P C \<Longrightarrow> left r = cap - (P - C)"
    and idx_at: "at r P C \<Longrightarrow> idx r = tag P"
    and slot_inj: "at r P C \<Longrightarrow> i < j \<Longrightarrow> j < i + cap \<Longrightarrow> slot i \<noteq> slot j"
    and tag_inj: "at r P C \<Longrightarrow> i < j \<Longrightarrow> j < i + cap \<Longrightarrow> tag i \<noteq> tag j"
begin

text \<open>There is room exactly when the free count is not zero.\<close>

lemma room_iff: "at r P C \<Longrightarrow> n < left r \<longleftrightarrow> P + n < C + cap"
  using at_window [of r P C] left_at [of r P C] by auto

text \<open>The slot handed out next is not the slot of a position still in use.\<close>

lemma produce_fresh:
  assumes "at r P C" "P < C + cap" "C \<le> k" "k < P"
  shows "fst (produce r) \<noteq> slot k"
  using assms slot_inj [OF assms(1,4)] produce_at [OF assms(1,2)] by simp

text \<open>The tags of the positions in use identify them.\<close>

lemma tags_distinct:
  assumes "at r P C"
  shows "inj_on tag {C..<P}"
proof (rule linorder_inj_onI)
  show "tag i \<noteq> tag j" if "i < j" "i \<in> {C..<P}" "j \<in> {C..<P}" for i j
    using tag_inj [OF assms that(1)] that at_window [OF assms] by auto
qed auto

lemma give_back_n:
  assumes "at r P C" "C + n \<le> P"
  shows "at ((give_back ^^ n) r) P (C + n)"
  using assms(2)
proof (induction n)
  case (Suc n)
  then show ?case using give_back_at [of "(give_back ^^ n) r" P "C + n"] by simp
qed (simp add: assms(1))

end

end
