(* ===== verification/Qed_Ooo_Events.thy ===== *)
theory Qed_Ooo_Events
  imports Qed_Ooo_Correct Qed_Interfaces
begin

text \<open>
  The events of the firmware on the isles of a connection: what each does to the list of isles
  the connection has, that it leaves the other connections alone, and that the buffers of the
  component are conserved over any sequence of operations.
\<close>

section \<open>What the events do to the connections\<close>

text \<open>A connection as the firmware sees it is its list of isles. Isles are numbered from 1.\<close>

lemma conn_isles_length [simp]: "length (conn_isles info a) = length (p_archipelagos_mem info ! a)"
  by (simp add: conn_isles_def)

lemma conn_isles_same:
  assumes "p_archipelagos_mem info' ! a = p_archipelagos_mem info ! a"
    and "\<And>q. q \<in> set (p_archipelagos_mem info ! a) \<Longrightarrow> p_isles_mem info' ! q = p_isles_mem info ! q"
  shows "conn_isles info' a = conn_isles info a"
  using assms by (simp add: conn_isles_def)

lemma map_nth_keep:
  assumes "\<And>q. q \<in> set ps \<Longrightarrow> isles' ! q = isles ! q"
  shows "map ((!) isles') ps = map ((!) isles) ps"
  using assms by simp

lemma take_drop_neq:
  assumes "distinct ps" "i < length ps"
  shows "q \<in> set (take i ps) \<Longrightarrow> ps ! i \<noteq> q" "q \<in> set (drop (Suc i) ps) \<Longrightarrow> ps ! i \<noteq> q"
  using assms by (auto simp: in_set_conv_nth nth_eq_iff_index_eq)

text \<open>What neither a join nor a drop touches: the history, the statistics of opened isles, the ids.\<close>

definition ooo_kept :: "qed_ooo_info \<Rightarrow> qed_ooo_info \<Rightarrow> bool" where
  "ooo_kept info info' \<longleftrightarrow>
     ooo_history info' = ooo_history info \<and> max_isles_number info' = max_isles_number info \<and>
     gen_isles_number info' = gen_isles_number info \<and>
     max_num_archipelagos info' = max_num_archipelagos info \<and> cid_base info' = cid_base info"

lemma add_new_buffer_conn:
  assumes wf: "ooo_wf info" and c: "ooo_conn info c a" and k: "0 < k" "unat k \<le> length (conn_isles info a)"
  shows "conn_isles (qed_ooo_add_new_buffer info c k b side) a =
      (conn_isles info a)[unat k - 1 :=
        (if side = QED_OOO_LEFT_BUF then b # conn_isles info a ! (unat k - 1)
         else conn_isles info a ! (unat k - 1) @ [b])]"
    and "a' < length (p_archipelagos_mem info) \<Longrightarrow> a' \<noteq> a \<Longrightarrow>
      conn_isles (qed_ooo_add_new_buffer info c k b side) a' = conn_isles info a'"
proof -
  let ?ps = "p_archipelagos_mem info ! a" and ?i = "unat k - 1"
  have i: "?i < length ?ps" using k by (auto simp: word_less_nat_alt)
  have a: "a < length (p_archipelagos_mem info)" using c by (simp add: ooo_conn_def)
  have s: "qed_ooo_seek_isle info c k = Some (?ps ! ?i)" using seek_isle_nth [OF wf c k(1)] k(2) by simp
  have p: "?ps ! ?i \<in> set ?ps" using i by simp
  note w = ooo_wf_isle [OF wf a p]
  show "conn_isles (qed_ooo_add_new_buffer info c k b side) a =
      (conn_isles info a)[?i := (if side = QED_OOO_LEFT_BUF then b # conn_isles info a ! ?i
         else conn_isles info a ! ?i @ [b])]"
    using map_nth_update [OF w(3) i w(1)] i
    by (simp add: qed_ooo_add_new_buffer_def s conn_isles_def list_add_def list_add_tail_def)
  show "conn_isles (qed_ooo_add_new_buffer info c k b side) a' = conn_isles info a'"
    if a': "a' < length (p_archipelagos_mem info)" "a' \<noteq> a"
  proof (rule conn_isles_same)
    fix q assume "q \<in> set (p_archipelagos_mem info ! a')"
    then have "?ps ! ?i \<noteq> q" using w(4) [OF a'] by blast
    then show "p_isles_mem (qed_ooo_add_new_buffer info c k b side) ! q = p_isles_mem info ! q"
      by (simp add: qed_ooo_add_new_buffer_def s)
  qed (simp add: qed_ooo_add_new_buffer_def s)
qed

lemma split_at_pair:
  assumes "Suc j < length ps"
  obtains A B where "ps = A @ ps ! j # ps ! Suc j # B" "length A = j"
proof
  show "ps = take j ps @ ps ! j # ps ! Suc j # drop (Suc (Suc j)) ps"
    using assms by (metis Cons_nth_drop_Suc Suc_lessD id_take_nth_drop)
  show "length (take j ps) = j" using assms by simp
qed

lemma map_join_isles:
  assumes d: "distinct ps" and j: "Suc j < length ps" and len: "ps ! j < length isles"
  shows "map ((!) (isles[ps ! j := v, ps ! Suc j := []])) (take (Suc j) ps @ drop (Suc (Suc j)) ps) =
    take j (map ((!) isles) ps) @ [v] @ drop (Suc (Suc j)) (map ((!) isles) ps)"
proof -
  obtain A B where ps: "ps = A @ ps ! j # ps ! Suc j # B" and A: "length A = j" using split_at_pair [OF j] .
  define p r where "p = ps ! j" "r = ps ! Suc j"
  have e: "ps = A @ p # r # B" using ps by (simp add: p_r_def)
  have n: "p \<noteq> r" "p \<notin> set A" "p \<notin> set B" "r \<notin> set A" "r \<notin> set B" using d by (auto simp: e)
  have k: "map ((!) (isles[p := v, r := []])) C = map ((!) isles) C" if "p \<notin> set C" "r \<notin> set C" for C
    using that by (intro map_nth_keep) (metis nth_list_update_neq)
  have "isles[p := v, r := []] ! p = v" using n(1) len by (simp add: p_r_def)
  then have "map ((!) (isles[p := v, r := []])) (take (Suc j) ps @ drop (Suc (Suc j)) ps) =
      map ((!) isles) A @ [v] @ map ((!) isles) B"
    using A by (simp add: e k n)
  moreover have "take j (map ((!) isles) ps) = map ((!) isles) A"
    "drop (Suc (Suc j)) (map ((!) isles) ps) = map ((!) isles) B"
    using A by (simp_all add: e take_map drop_map)
  ultimately show ?thesis by (simp add: p_r_def)
qed

lemma join_isles_conn:
  assumes wf: "ooo_wf info" and c: "ooo_conn info c a"
    and l: "unat l < length (conn_isles info a)"
  defines "xs \<equiv> conn_isles info a" and "info' \<equiv> qed_ooo_join_isles info c l"
  shows "l \<noteq> 0 \<Longrightarrow> conn_isles info' a =
      take (unat l - 1) xs @ [xs ! (unat l - 1) @ xs ! unat l] @ drop (Suc (unat l)) xs \<and>
      ready_buffers_list info' = ready_buffers_list info"
    and "l = 0 \<Longrightarrow> conn_isles info' a = tl xs \<and> ready_buffers_list info' = ready_buffers_list info @ hd xs"
    and "a' < length (p_archipelagos_mem info) \<Longrightarrow> a' \<noteq> a \<Longrightarrow> conn_isles info' a' = conn_isles info a'"
    and "ooo_kept info info'" "free_buffers_list info' = free_buffers_list info"
    and "cur_isles_number info' = cur_isles_number info - 1"
    and "free_isles_list info' = free_isles_list info @ [p_archipelagos_mem info ! a ! unat l]"
proof -
  let ?ps = "p_archipelagos_mem info ! a"
  define r where "r = ?ps ! unat l"
  define p where "p = ?ps ! (unat l - 1)"
  have a: "a < length (p_archipelagos_mem info)" using c by (simp add: ooo_conn_def)
  have lt: "unat l < length ?ps" using l by simp
  have s: "qed_ooo_seek_isle info c (l + 1) = Some r"
    using seek_next_isle [OF wf c, of l] lt by (simp add: r_def)
  have rp: "r \<in> set ?ps" using lt by (simp add: r_def)
  have pp: "p \<in> set ?ps" using lt by (simp add: p_def)
  note w = ooo_wf_isle [OF wf a rp] and wp = ooo_wf_isle [OF wf a pp]
  have del: "list_del r ?ps = take (unat l) ?ps @ drop (Suc (unat l)) ?ps"
    using remove1_nth [OF w(3) lt] by (simp add: list_del_def r_def)
  note u' = join_unfold [OF wf c s, unfolded Let_def, folded p_def info'_def]
  show "conn_isles info' a = tl xs \<and> ready_buffers_list info' = ready_buffers_list info @ hd xs" if "l = 0"
  proof -
    obtain y ys where ps: "?ps = y # ys" using lt by (cases ?ps) auto
    have y: "r = y" using that by (simp add: r_def ps)
    have "y \<noteq> q" if "q \<in> set ys" for q using w(3) that by (auto simp: ps)
    then have "map ((!) ((p_isles_mem info)[r := []])) ys = map ((!) (p_isles_mem info)) ys"
      unfolding y by (intro map_nth_keep) simp
    then show ?thesis using that a del by (simp add: u' conn_isles_def xs_def ps y)
  qed
  show "conn_isles info' a = take (unat l - 1) xs @ [xs ! (unat l - 1) @ xs ! unat l] @ drop (Suc (unat l)) xs \<and>
      ready_buffers_list info' = ready_buffers_list info" if "l \<noteq> 0"
  proof -
    have "0 < unat l" using that by (simp add: unat_gt_0)
    then obtain j where j: "unat l = Suc j" by (auto dest: gr0_implies_Suc)
    have pj: "p = ?ps ! j" by (simp add: p_def j)
    have "conn_isles info' a = map ((!) ((p_isles_mem info)[p := p_isles_mem info ! p @ p_isles_mem info ! r, r := []]))
        (take (Suc j) ?ps @ drop (Suc (Suc j)) ?ps)"
      using that a del by (simp add: u' conn_isles_def j)
    also have "\<dots> = take j xs @ [p_isles_mem info ! p @ p_isles_mem info ! r] @ drop (Suc (Suc j)) xs"
      using map_join_isles [OF w(3), of j "p_isles_mem info"] lt j wp(1)
      by (simp add: pj r_def xs_def conn_isles_def)
    also have "p_isles_mem info ! p @ p_isles_mem info ! r = xs ! j @ xs ! unat l"
      using lt j by (simp add: xs_def conn_isles_def pj r_def)
    finally show ?thesis using that by (simp add: j u')
  qed
  show "conn_isles info' a' = conn_isles info a'" if a': "a' < length (p_archipelagos_mem info)" "a' \<noteq> a"
  proof (rule conn_isles_same)
    fix q assume "q \<in> set (p_archipelagos_mem info ! a')"
    then have "r \<noteq> q" "p \<noteq> q" using w(4) [OF a'] wp(4) [OF a'] by auto
    then show "p_isles_mem info' ! q = p_isles_mem info ! q" by (simp add: u')
  qed (use a' in \<open>simp add: u'\<close>)
  show "ooo_kept info info'" "free_buffers_list info' = free_buffers_list info"
    "cur_isles_number info' = cur_isles_number info - 1"
    "free_isles_list info' = free_isles_list info @ [p_archipelagos_mem info ! a ! unat l]"
    by (simp_all add: u' ooo_kept_def list_add_tail_def r_def)
qed

lemma add_new_isle_conn:
  assumes wf: "ooo_wf info" and c: "ooo_conn info c a"
    and k: "0 < k" "unat k \<le> Suc (length (conn_isles info a))" and f: "free_isles_list info \<noteq> []"
  defines "xs \<equiv> conn_isles info a"
  obtains info' where "qed_ooo_add_new_isle info c k b = Some info'"
    "conn_isles info' a = take (unat k - 1) xs @ [b] # drop (unat k - 1) xs"
    "\<And>a'. a' < length (p_archipelagos_mem info) \<Longrightarrow> a' \<noteq> a \<Longrightarrow> conn_isles info' a' = conn_isles info a'"
proof -
  let ?ps = "p_archipelagos_mem info ! a"
  have a: "a < length (p_archipelagos_mem info)" using c by (simp add: ooo_conn_def)
  have k1: "1 \<le> unat k" using k(1) by (simp add: word_less_nat_alt Suc_le_eq)
  have gt: "k > 1 \<longleftrightarrow> 1 < unat k" by (simp add: word_less_nat_alt)
  have sk: "qed_ooo_seek_isle info c (k - 1) = Some (?ps ! (unat k - 2))" if g: "1 < unat k"
  proof -
    have u: "unat (k - 1) = unat k - 1" using k(1) by (intro unat_minus_one) auto
    then have "0 < k - 1" using g by (simp add: word_less_nat_alt)
    then show ?thesis using seek_isle_nth [OF wf c, of "k - 1"] u k(2) g by (simp add: numeral_2_eq_2)
  qed
  have arch: "qed_ooo_seek_archipelago info c \<noteq> None" if "1 < unat k"
    using sk [OF that] by (auto simp: qed_ooo_seek_isle_def split: option.splits)
  have op: "opens_isle info c k"
    using sk arch f k1 unfolding opens_isle_def gt by (auto simp: word_unat_eq_iff)
  from wf c op obtain p fs where fr: "free_isles_list info = p # fs" and
    r: "qed_ooo_add_new_isle info c k b = Some (info\<lparr>free_isles_list := fs,
        p_isles_mem := (p_isles_mem info)[p := [b]],
        cur_isles_number := cur_isles_number info + 1, gen_isles_number := gen_isles_number info + 1,
        max_isles_number := max (cur_isles_number info + 1) (max_isles_number info),
        p_archipelagos_mem := (p_archipelagos_mem info)[a :=
          (if k > 1 then insert_after p (the (qed_ooo_seek_isle info c (k - 1))) (p_archipelagos_mem info ! a)
           else p # p_archipelagos_mem info ! a)]\<rparr>)" (is "_ = Some ?i")
    by (rule add_new_isle_opens [where b = b]) blast
  have pl: "p < length (p_isles_mem info)" using ooo_wf_set [OF wf] fr by auto
  have pn: "p \<notin> set (p_archipelagos_mem info ! a')" if "a' < length (p_archipelagos_mem info)" for a'
    using ooo_wf_isle(2) [OF wf that] fr by auto
  have pos: "p_archipelagos_mem ?i ! a = take (unat k - 1) ?ps @ p # drop (unat k - 1) ?ps"
  proof (cases "1 < unat k")
    case True
    have i: "unat k - 2 < length ?ps" using True k(2) by simp
    have "distinct ?ps" using ooo_wf_distinct [OF wf] a by (meson distinct_append distinct_concat_iff nth_mem)
    from insert_after_nth [OF this i, of p] show ?thesis
      using True a sk gt by (simp add: numeral_2_eq_2 Suc_diff_Suc)
  next
    case False
    then have "unat k = 1" using k1 by simp
    then show ?thesis using False a gt by simp
  qed
  have keep: "map ((!) ((p_isles_mem info)[p := [b]])) qs = map ((!) (p_isles_mem info)) qs" if "p \<notin> set qs" for qs
    by (rule map_nth_update_other [OF that])
  have "p \<notin> set (take (unat k - 1) ?ps)" "p \<notin> set (drop (unat k - 1) ?ps)"
    using pn [OF a] in_set_takeD in_set_dropD by fast+
  note ks = keep [OF this(1)] keep [OF this(2)]
  have one: "conn_isles ?i a = take (unat k - 1) xs @ [b] # drop (unat k - 1) xs"
    unfolding conn_isles_def pos xs_def using pl ks by (simp add: take_map drop_map)
  have other: "conn_isles ?i a' = conn_isles info a'"
    if a': "a' < length (p_archipelagos_mem info)" "a' \<noteq> a" for a'
    using keep [OF pn [OF a'(1)]] a'(2) unfolding conn_isles_def by simp
  show ?thesis by (rule that [OF r one other])
qed

text \<open>Dropping isles: their buffers go back to the pool.\<close>

lemma drop_one_conn:
  assumes wf: "ooo_wf info" and c: "ooo_conn info c a" and i: "i < length (conn_isles info a)"
  defines "xs \<equiv> conn_isles info a" and "p \<equiv> p_archipelagos_mem info ! a ! i"
  shows "conn_isles (drop_one_isle a p info) a = take i xs @ drop (Suc i) xs"
    "p_archipelagos_mem (drop_one_isle a p info) ! a =
       take i (p_archipelagos_mem info ! a) @ drop (Suc i) (p_archipelagos_mem info ! a)"
    "free_buffers_list (drop_one_isle a p info) = free_buffers_list info @ xs ! i"
    "a' < length (p_archipelagos_mem info) \<Longrightarrow> a' \<noteq> a \<Longrightarrow>
       conn_isles (drop_one_isle a p info) a' = conn_isles info a'"
proof -
  let ?ps = "p_archipelagos_mem info ! a"
  have i: "i < length ?ps" using i by simp
  have a: "a < length (p_archipelagos_mem info)" using c by (simp add: ooo_conn_def)
  have pp: "p \<in> set ?ps" using i by (simp add: p_def)
  note w = ooo_wf_isle [OF wf a pp]
  have del: "list_del p ?ps = take i ?ps @ drop (Suc i) ?ps"
    using remove1_nth [OF w(3) i] by (simp add: list_del_def p_def)
  have keep: "map ((!) ((p_isles_mem info)[p := []])) qs = map ((!) (p_isles_mem info)) qs" if "p \<notin> set qs" for qs
    by (rule map_nth_update_other [OF that])
  have "p \<notin> set (take i ?ps)" "p \<notin> set (drop (Suc i) ?ps)"
    using take_drop_neq [OF w(3) i] unfolding p_def by blast+
  note ks = keep [OF this(1)] keep [OF this(2)]
  show "conn_isles (drop_one_isle a p info) a = take i xs @ drop (Suc i) xs"
    using a del ks by (simp add: conn_isles_def drop_one_isle_def xs_def take_map drop_map)
  show "p_archipelagos_mem (drop_one_isle a p info) ! a = take i ?ps @ drop (Suc i) ?ps"
    using a del by (simp add: drop_one_isle_def)
  show "free_buffers_list (drop_one_isle a p info) = free_buffers_list info @ xs ! i"
    using i by (simp add: drop_one_isle_def xs_def conn_isles_def p_def)
  show "conn_isles (drop_one_isle a p info) a' = conn_isles info a'"
    if a': "a' < length (p_archipelagos_mem info)" "a' \<noteq> a"
    using keep [OF w(4) [OF a']] a'(2) by (simp add: conn_isles_def drop_one_isle_def)
qed

lemma drop_one_conn_id: "ooo_conn (drop_one_isle a' p info) c a = ooo_conn info c a"
  by (simp add: ooo_conn_def ooo_idx_def drop_one_isle_def)

lemma take_drop_del:
  assumes "i < length xs"
  defines "ys \<equiv> take i xs @ drop (Suc i) xs"
  shows "take i ys = take i xs" "drop (i + n) ys = drop (i + Suc n) xs"
    "take (Suc n) (drop i xs) = xs ! i # take n (drop i ys)"
  using assms(1) by (simp_all add: ys_def add.commute flip: Cons_nth_drop_Suc)

text \<open>The \<open>n\<close> isles from index \<open>i\<close> on, or as many as there are.\<close>

lemma delete_isles_conn:
  fixes d :: u8
  assumes "ooo_wf info" "ooo_conn info c a"
  defines "i \<equiv> unat (d - 1)"
  shows "conn_isles (delete_isles_loop n c d info) a =
      take i (conn_isles info a) @ drop (i + n) (conn_isles info a) \<and>
    free_buffers_list (delete_isles_loop n c d info) =
      free_buffers_list info @ concat (take n (drop i (conn_isles info a))) \<and>
    (\<forall>a'<length (p_archipelagos_mem info). a' \<noteq> a \<longrightarrow>
      conn_isles (delete_isles_loop n c d info) a' = conn_isles info a') \<and>
    ooo_kept info (delete_isles_loop n c d info) \<and>
    ready_buffers_list (delete_isles_loop n c d info) = ready_buffers_list info \<and>
    cur_isles_number (delete_isles_loop n c d info) =
      cur_isles_number info - of_nat (length (take n (drop i (conn_isles info a)))) \<and>
    free_isles_list (delete_isles_loop n c d info) =
      rev (take n (drop i (p_archipelagos_mem info ! a))) @ free_isles_list info"
  using assms(1,2)
proof (induction n arbitrary: info)
  case 0
  then show ?case by (simp add: ooo_kept_def)
next
  case (Suc n)
  let ?xs = "conn_isles info a" and ?ps = "p_archipelagos_mem info ! a"
  have s: "qed_ooo_seek_isle info c d = (if i < length ?ps then Some (?ps ! i) else None)"
    using seek_next_isle [OF Suc.prems, of "d - 1"] by (simp add: i_def)
  have a: "unat (ooo_idx info c) = a" "a < length (p_archipelagos_mem info)"
    using Suc.prems(2) by (simp_all add: ooo_conn_def)
  show ?case
  proof (cases "i < length ?ps")
    case False
    then show ?thesis by (simp add: s ooo_kept_def)
  next
    case True
    then have il: "i < length ?xs" by simp
    let ?j = "drop_one_isle a (?ps ! i) info"
    note p = drop_one_conn [OF Suc.prems il]
    have step: "delete_isles_loop (Suc n) c d info = delete_isles_loop n c d ?j" by (simp add: s True a)
    have la: "length (p_archipelagos_mem ?j) = length (p_archipelagos_mem info)" by (simp add: drop_one_isle_def)
    have wf: "ooo_wf ?j" using drop_one_isle_wf(1) [OF Suc.prems(1) a(2)] True by simp
    have c': "ooo_conn ?j c a" using Suc.prems(2) by (simp add: drop_one_conn_id)
    note t = take_drop_del [OF il, folded p(1)] and tp = take_drop_del(3) [OF True, folded p(2)]
    have k: "ooo_kept info ?j" "ready_buffers_list ?j = ready_buffers_list info"
      "cur_isles_number ?j = cur_isles_number info - 1" "free_isles_list ?j = ?ps ! i # free_isles_list info"
      by (simp_all add: drop_one_isle_def ooo_kept_def list_add_def)
    show ?thesis unfolding step t(3) tp t(2) [symmetric] using Suc.IH [OF wf c', unfolded la] p(3,4) k t(1)
      by (auto simp: ooo_kept_def)
  qed
qed

lemma release_archipelago_conn:
  assumes "ooo_wf info" "a < length (p_archipelagos_mem info)"
  shows "p_archipelagos_mem (release_archipelago a info) = (p_archipelagos_mem info)[a := []] \<and>
    free_buffers_list (release_archipelago a info) = free_buffers_list info @ concat (conn_isles info a) \<and>
    ready_buffers_list (release_archipelago a info) = ready_buffers_list info \<and>
    (\<forall>a'<length (p_archipelagos_mem info). a' \<noteq> a \<longrightarrow>
      conn_isles (release_archipelago a info) a' = conn_isles info a')"
  using assms
proof (induction a info rule: release_archipelago.induct)
  case (1 a info)
  note wf = "1.prems"(1) and a = "1.prems"(2)
  show ?case
  proof (cases "p_archipelagos_mem info ! a")
    case Nil
    then have "release_archipelago a info = info"
      by (subst release_archipelago.simps) simp
    then show ?thesis using Nil a by (simp add: conn_isles_def) (metis list_update_id)
  next
    case (Cons p ps)
    let ?j = "release_isle a p info"
    have r: "release_archipelago a info = release_archipelago a ?j"
      using Cons a by (subst release_archipelago.simps) simp
    have p: "p \<in> set (p_archipelagos_mem info ! a)" by (simp add: Cons)
    note w = ooo_wf_isle [OF wf a p]
    have jl: "length (p_archipelagos_mem ?j) = length (p_archipelagos_mem info)"
      and ja: "p_archipelagos_mem ?j = (p_archipelagos_mem info)[a := ps]"
      by (simp_all add: release_isle_def Cons)
    have keep: "map ((!) ((p_isles_mem info)[p := []])) qs = map ((!) (p_isles_mem info)) qs" if "p \<notin> set qs" for qs
      by (rule map_nth_update_other [OF that])
    have "p \<notin> set ps" using w(3) Cons by simp
    then have ca: "conn_isles ?j a = map ((!) (p_isles_mem info)) ps"
      using keep a by (simp add: conn_isles_def release_isle_def Cons)
    have other: "conn_isles ?j a' = conn_isles info a'"
      if "a' < length (p_archipelagos_mem info)" "a' \<noteq> a" for a'
      using keep [OF w(4) [OF that]] that by (simp add: conn_isles_def release_isle_def)
    have fb: "free_buffers_list ?j = free_buffers_list info @ p_isles_mem info ! p"
      "ready_buffers_list ?j = ready_buffers_list info" by (simp_all add: release_isle_def)
    have wj: "ooo_wf ?j" by (rule release_isle_wf(1) [OF wf a p])
    have aj: "a < length (p_archipelagos_mem ?j)" using jl a by simp
    note ih = "1.IH" [OF a Cons wj aj]
    show ?thesis unfolding r using ih a other
      by (simp add: jl ja fb ca conn_isles_def [of info] Cons)
  qed
qed

lemma fold_release_empty:
  assumes "ooo_wf info" "n \<le> length (p_archipelagos_mem info)"
  defines "info' \<equiv> fold release_archipelago [0..<n] info"
  shows "ooo_wf info' \<and> length (p_archipelagos_mem info') = length (p_archipelagos_mem info) \<and>
    (\<forall>a<n. p_archipelagos_mem info' ! a = [])"
  using assms(2) unfolding info'_def
proof (induction n)
  case 0
  then show ?case using assms(1) by simp
next
  case (Suc n)
  let ?i = "fold release_archipelago [0..<n] info"
  have ih: "ooo_wf ?i" "length (p_archipelagos_mem ?i) = length (p_archipelagos_mem info)"
    "\<forall>a<n. p_archipelagos_mem ?i ! a = []" using Suc by auto
  then have "n < length (p_archipelagos_mem ?i)" using Suc.prems by simp
  note r = release_archipelago_conn [OF ih(1) this]
  have "ooo_wf (release_archipelago n ?i)" using release_archipelago_wf [OF ih(1)] by blast
  then show ?case using r ih(2,3) Suc.prems by (auto simp: less_Suc_eq)
qed

lemma release_all_empty:
  assumes wf: "ooo_wf info"
  defines "info' \<equiv> qed_ooo_release_all_isles info"
  shows "\<forall>a<length (p_archipelagos_mem info). p_archipelagos_mem info' ! a = []"
    "ready_buffers_list info' = []" "mset (free_buffers_list info') = ooo_bufs info"
proof -
  let ?i = "fold release_archipelago [0..<unat (max_num_archipelagos info)] info"
  have len: "length (p_archipelagos_mem info) = unat (max_num_archipelagos info)" using wf by (simp add: ooo_wf_def)
  have f: "ooo_wf ?i \<and> length (p_archipelagos_mem ?i) = length (p_archipelagos_mem info) \<and>
      (\<forall>a<unat (max_num_archipelagos info). p_archipelagos_mem ?i ! a = [])"
    by (rule fold_release_empty [OF wf]) (simp add: len)
  have A: "p_archipelagos_mem info' = p_archipelagos_mem ?i" "p_isles_mem info' = p_isles_mem ?i"
    "free_isles_list info' = free_isles_list ?i"
    by (simp_all add: info'_def qed_ooo_release_all_isles_def Let_def)
  show arch: "\<forall>a<length (p_archipelagos_mem info). p_archipelagos_mem info' ! a = []"
    using f by (simp add: A len)
  show rd: "ready_buffers_list info' = []" by (simp add: info'_def qed_ooo_release_all_isles_def Let_def)
  have wf': "ooo_wf info'" unfolding info'_def by (rule release_all_wf(1) [OF wf])
  have "set (p_archipelagos_mem info') \<subseteq> {[]}"
    using arch f by (auto simp: A len in_set_conv_nth)
  then have c0: "concat (p_archipelagos_mem info') = []" by auto
  have "set (free_isles_list info') = {..<length (p_isles_mem info')}" using ooo_wf_set [OF wf'] unfolding c0 by simp
  then have "p_isles_mem info' ! q = []" if "q < length (p_isles_mem info')" for q
    using wf' that by (auto simp: ooo_wf_def)
  then have "set (p_isles_mem info') \<subseteq> {[]}" by (auto simp: in_set_conv_nth)
  then have "concat (p_isles_mem info') = []" by auto
  then have "ooo_bufs info' = mset (free_buffers_list info')" by (simp add: ooo_bufs_def rd)
  then show "mset (free_buffers_list info') = ooo_bufs info"
    using release_all_wf(2) [OF wf] by (simp add: info'_def)
qed

lemma ooo_alloc_wf:
  assumes "qed_ooo_alloc pers n1 s1 n2 s2 oks = (mem, Inr info)"
  shows "ooo_wf info" "ooo_bufs info = {#}"
  using assms
  by (auto simp: qed_ooo_alloc_def Let_def ooo_wf_def ooo_bufs_def QED_MAX_NUM_OOO_HISTORY_ENTRIES_def
      split: qed_pci_personality.splits if_splits prod.splits)

section \<open>Conservation of buffers\<close>

datatype ooo_op =
    Put_free buf
  | Get_free
  | Put_ready buf u8
  | Get_ready
  | Delete_isles u32 u8 u8
  | Add_isle u32 u8 buf
  | Add_buffer u32 u8 buf u8
  | Join u32 u8
  | Release_conn u32
  | Release_all
  | Save_history ooo_opaque

fun ooo_step :: "ooo_op \<Rightarrow> qed_ooo_info \<Rightarrow> qed_ooo_info option" where
  "ooo_step (Put_free b) info = Some (qed_ooo_put_free_buffer info b)"
| "ooo_step Get_free info = Some (snd (qed_ooo_get_free_buffer info))"
| "ooo_step (Put_ready b t) info = Some (qed_ooo_put_ready_buffer info b t)"
| "ooo_step Get_ready info = Some (snd (qed_ooo_get_ready_buffer info))"
| "ooo_step (Delete_isles c d n) info = Some (qed_ooo_delete_isles info c d n)"
| "ooo_step (Add_isle c k b) info = qed_ooo_add_new_isle info c k b"
| "ooo_step (Add_buffer c k b s) info = Some (qed_ooo_add_new_buffer info c k b s)"
| "ooo_step (Join c l) info = Some (qed_ooo_join_isles info c l)"
| "ooo_step (Release_conn c) info = Some (qed_ooo_release_connection_isles info c)"
| "ooo_step Release_all info = Some (qed_ooo_release_all_isles info)"
| "ooo_step (Save_history e) info = qed_ooo_save_history_entry info e"

text \<open>
  The buffers handed to the component by an operation; those handed out by it; and those an event
  brings that are not taken because the isle or the connection it names is not there or no isle
  is free. The caller keeps no reference to these either: they are lost.
\<close>

fun ooo_given :: "ooo_op \<Rightarrow> qed_ooo_info \<Rightarrow> buf multiset" where
  "ooo_given (Put_free b) info = {#b#}"
| "ooo_given (Put_ready b t) info = {#b#}"
| "ooo_given (Add_isle c k b) info = {#b#}"
| "ooo_given (Add_buffer c k b s) info = {#b#}"
| "ooo_given _ info = {#}"

fun ooo_handed_out :: "ooo_op \<Rightarrow> qed_ooo_info \<Rightarrow> buf multiset" where
  "ooo_handed_out Get_free info = (case fst (qed_ooo_get_free_buffer info) of None \<Rightarrow> {#} | Some b \<Rightarrow> {#b#})"
| "ooo_handed_out Get_ready info = (case fst (qed_ooo_get_ready_buffer info) of None \<Rightarrow> {#} | Some b \<Rightarrow> {#b#})"
| "ooo_handed_out _ info = {#}"

fun ooo_leaked :: "ooo_op \<Rightarrow> qed_ooo_info \<Rightarrow> buf multiset" where
  "ooo_leaked (Add_isle c k b) info = (if opens_isle info c k then {#} else {#b#})"
| "ooo_leaked (Add_buffer c k b s) info = (if qed_ooo_seek_isle info c k = None then {#b#} else {#})"
| "ooo_leaked _ info = {#}"

abbreviation ooo_loss :: "ooo_op \<Rightarrow> qed_ooo_info \<Rightarrow> buf multiset" where
  "ooo_loss op info \<equiv> ooo_handed_out op info + ooo_leaked op info"

text \<open>
  The one thing the code relies on: an event that opens an isle names a connection of the
  function. Every other operation copes with every argument.
\<close>

fun ooo_ok :: "ooo_op \<Rightarrow> qed_ooo_info \<Rightarrow> bool" where
  "ooo_ok (Add_isle c k b) info \<longleftrightarrow>
     (opens_isle info c k \<longrightarrow> unat (ooo_idx info c) < length (p_archipelagos_mem info))"
| "ooo_ok _ info \<longleftrightarrow> True"

lemma ooo_step_conserves:
  assumes wf: "ooo_wf info" and ok: "ooo_ok op info"
  shows "\<exists>info'. ooo_step op info = Some info' \<and> ooo_wf info' \<and>
    ooo_bufs info' + ooo_loss op info = ooo_bufs info + ooo_given op info"
proof (cases op)
  case Get_free
  then show ?thesis using wf
    by (cases "free_buffers_list info") (auto simp: qed_ooo_get_free_buffer_def ooo_bufs_def)
next
  case Get_ready
  then show ?thesis using wf
    by (cases "ready_buffers_list info") (auto simp: qed_ooo_get_ready_buffer_def ooo_bufs_def)
next
  case (Add_isle c k b)
  show ?thesis
  proof (cases "opens_isle info c k")
    case True
    then have "ooo_conn info c (unat (ooo_idx info c))" using ok Add_isle by (simp add: ooo_conn_def)
    from add_new_isle_wf [OF wf this, of k b] show ?thesis using Add_isle True by simp
  qed (simp add: Add_isle add_new_isle_refused wf)
next
  case (Join c l)
  then show ?thesis using join_isles_wf [OF wf] by simp
next
  case (Save_history e)
  then show ?thesis using history_wf [OF wf, of e] by (auto simp: Let_def)
next
  case (Put_free b)
  then show ?thesis using wf by (simp add: qed_ooo_put_free_buffer_def ooo_bufs_def)
next
  case (Put_ready b t)
  then show ?thesis using wf by (simp add: qed_ooo_put_ready_buffer_def ooo_bufs_def)
qed (simp_all add: qed_ooo_delete_isles_def delete_isles_wf [OF wf] add_new_buffer_wf [OF wf]
  release_connection_wf [OF wf] release_all_wf [OF wf])

lemma ooo_step_fails:
  assumes wf: "ooo_wf info" and ok: "\<not> ooo_ok op info"
  shows "ooo_step op info = None"
proof -
  obtain c k b where op: "op = Add_isle c k b" "opens_isle info c k"
    "length (p_archipelagos_mem info) \<le> unat (ooo_idx info c)"
    using ok by (cases op) (auto simp: not_less)
  have "qed_ooo_seek_archipelago info c = None"
    using op(3) wf by (simp add: qed_ooo_seek_archipelago_def Let_def ooo_wf_def word_le_nat_alt unat_ucast_le)
  then show ?thesis using op
    by (auto simp: opens_isle_def qed_ooo_add_new_isle_def Let_def neq_Nil_conv)
qed

lemma run_sum_add:
  "run_sum step (\<lambda>op s. f op s + g op s) ops s = run_sum step f ops s + run_sum step g ops s"
  by (induction ops arbitrary: s) (auto simp: ac_simps split: option.split)

interpretation ooo: conserving_exact ooo_step ooo_wf ooo_bufs ooo_given ooo_loss ooo_ok
  by unfold_locales (rule ooo_step_conserves, assumption+, rule ooo_step_fails)

end
