(* ===== verification/Qed_Ooo_Claims.thy ===== *)
theory Qed_Ooo_Claims
  imports Qed_Ooo_Events
begin

text \<open>The properties of the out-of-order component.\<close>

section \<open>Sample data\<close>

definition ex_ooo :: qed_ooo_info where
  "ex_ooo = \<lparr>free_buffers_list = [], ready_buffers_list = [], free_isles_list = [2, 3],
     p_archipelagos_mem = [[0, 1], []], p_isles_mem = [[0x10, 0x11], [0x20], [], []],
     ooo_history = \<lparr>p_cqes = [\<lparr>cid = 0, drop_isle = 0, drop_size = 0, ooo_opcode = 0, ooo_isle = 0\<rparr>],
       head_idx = 0, num_of_cqes = 1\<rparr>,
     cur_isles_number = 2, max_isles_number = 2, gen_isles_number = 2,
     max_num_archipelagos = 2, cid_base = 5\<rparr>"

lemma ex_ooo_wf: "ooo_wf ex_ooo" by code_simp

lemma ex_ooo_conn: "ooo_conn ex_ooo 5 0" by code_simp

lemma ex_ooo_isles: "conn_isles ex_ooo 0 = [[0x10, 0x11], [0x20]]" by code_simp

definition ex_heap :: "buf \<Rightarrow> qed_ooo_buffer" where
  "ex_heap b = \<lparr>rx_buffer_virt_addr = b, rx_buffer_phys_addr = b, rx_buffer_size = 2048, packet_length = 0,
     parse_flags = 0, vlan = 0, placement_offset = 0\<rparr>"

definition ex_ops :: "ooo_op list" where
  "ex_ops = [Put_free 1, Put_free 2, Get_free, Add_isle 5 1 1, Get_free, Add_buffer 5 1 2 1,
     Join 5 0, Add_buffer 5 7 9 1]"

section \<open>Buffers\<close>

text \<open>
  C6. From \<open>qed_ooo_alloc\<close> on, for every sequence of operations with any arguments: if no event
  opens an isle for a connection id outside the range of the function (\<open>ooo_ok\<close>), the sequence
  runs without an access outside the arrays, keeps each isle on exactly one list, and accounts
  for every buffer: what the component holds, what it handed out and what refused events
  leaked is what it was given. In every other sequence an array is accessed out of bounds.
\<close>

theorem ooo_buffers_conserved:
  assumes "qed_ooo_alloc pers n1 s1 n2 s2 oks = (mem, Inr info0)"
  shows "if run_ok ooo_step ooo_ok ops info0
    then \<exists>info. run_opt ooo_step ops info0 = Some info \<and> ooo_wf info \<and>
      ooo_bufs info + run_sum ooo_step ooo_handed_out ops info0 + run_sum ooo_step ooo_leaked ops info0 =
        run_sum ooo_step ooo_given ops info0
    else run_opt ooo_step ops info0 = None"
  using ooo.run_conserves [OF ooo_alloc_wf(1) [OF assms], of ops] ooo.run_exact [OF ooo_alloc_wf(1) [OF assms], of ops]
    ooo_alloc_wf(2) [OF assms] by (simp add: run_sum_add ac_simps)

theorem ooo_buffers_conserved_witness:
  "\<exists>mem info0 info. qed_ooo_alloc QED_PCI_ISCSI 2 5 0 0 (True, True, True, True) = (mem, Inr info0) \<and>
     run_opt ooo_step ex_ops info0 = Some info \<and> ooo_wf info \<and>
     ooo_bufs info + run_sum ooo_step ooo_handed_out ex_ops info0 + run_sum ooo_step ooo_leaked ex_ops info0 =
       run_sum ooo_step ooo_given ex_ops info0 \<and>
     run_sum ooo_step ooo_leaked ex_ops info0 = {#9#} \<and>
     run_opt ooo_step (ex_ops @ [Add_isle 7 1 3]) info0 = None"
proof -
  define r where "r = qed_ooo_alloc QED_PCI_ISCSI 2 5 0 0 (True, True, True, True)"
  have a: "qed_ooo_alloc QED_PCI_ISCSI 2 5 0 0 (True, True, True, True) = (fst r, Inr (projr (snd r)))"
    by (simp add: r_def qed_ooo_alloc_def Let_def)
  have ok: "run_ok ooo_step ooo_ok ex_ops (projr (snd r))" unfolding r_def by code_simp
  have no: "\<not> run_ok ooo_step ooo_ok (ex_ops @ [Add_isle 7 1 3]) (projr (snd r))" unfolding r_def by code_simp
  have lk: "run_sum ooo_step ooo_leaked ex_ops (projr (snd r)) = {#9#}" unfolding r_def by code_simp
  show ?thesis using ooo_buffers_conserved [OF a, of ex_ops] ooo_buffers_conserved [OF a, of "ex_ops @ [Add_isle 7 1 3]"]
      a ok no lk by auto
qed

text \<open>A failing allocation gives back every block it took; a successful one has taken the four.\<close>

theorem ooo_alloc_unwinds:
  assumes "qed_ooo_alloc pers n1 s1 n2 s2 oks = (mem, r)"
  shows "filter (\<lambda>b. count_list mem (Kzalloc b) \<noteq> count_list mem (Kfree b))
      [Ooo_info, Isles_mem, Archipelagos_mem, Cqes_mem] =
    (if isl r then [] else [Ooo_info, Isles_mem, Archipelagos_mem, Cqes_mem])"
  using assms by (auto simp: qed_ooo_alloc_def Let_def split: qed_pci_personality.splits if_splits prod.splits)

text \<open>
  C9. Taking the component down frees the DMA memory and the structure of exactly the buffers it
  holds, each once, wherever they were (on the free list, the ready list or an isle of some
  connection), and the four blocks of the component, each once.
\<close>

theorem ooo_free_complete:
  assumes "ooo_wf info"
  shows "mset (fst (qed_ooo_free heap (Some info))) =
    image_mset (\<lambda>b. Dma_free (rx_buffer_size (heap b)) (rx_buffer_virt_addr (heap b)) (rx_buffer_phys_addr (heap b)))
      (ooo_bufs info) +
    image_mset Kfree_buffer (ooo_bufs info) +
    {#Kfree Isles_mem, Kfree Archipelagos_mem, Kfree Cqes_mem, Kfree Ooo_info#}"
proof -
  have "mset (free_buffers_loop heap bs) =
      image_mset (\<lambda>b. Dma_free (rx_buffer_size (heap b)) (rx_buffer_virt_addr (heap b)) (rx_buffer_phys_addr (heap b)))
        (mset bs) + image_mset Kfree_buffer (mset bs)" for bs
    by (induction bs) auto
  then show ?thesis using release_all_empty(3) [OF assms] by (simp add: qed_ooo_free_def)
qed

theorem ooo_free_complete_witness:
  "size (mset (fst (qed_ooo_free ex_heap (Some ex_ooo)))) = 10"
proof -
  have "size (ooo_bufs ex_ooo) = 3" by code_simp
  then show ?thesis unfolding ooo_free_complete [OF ex_ooo_wf] by simp
qed

section \<open>Events\<close>

text \<open>
  \<open>qed_ooo_add_new_isle\<close> with isle number \<open>k\<close> (from 1) opens a new isle holding just the
  buffer, as the \<open>k\<close>-th isle of the connection; the other isles keep their order and content,
  and the other connections are untouched.
\<close>

theorem ooo_new_isle_effect:
  assumes "ooo_wf info" "ooo_conn info c a" "0 < k" "unat k \<le> Suc (length (conn_isles info a))"
    and "free_isles_list info \<noteq> []"
  shows "\<exists>info'. qed_ooo_add_new_isle info c k b = Some info' \<and>
    conn_isles info' a =
      take (unat k - 1) (conn_isles info a) @ [b] # drop (unat k - 1) (conn_isles info a) \<and>
    (\<forall>a'<length (p_archipelagos_mem info). a' \<noteq> a \<longrightarrow> conn_isles info' a' = conn_isles info a')"
  by (rule add_new_isle_conn [OF assms]) blast

theorem ooo_new_isle_effect_witness:
  "\<exists>info'. qed_ooo_add_new_isle ex_ooo 5 2 0x99 = Some info' \<and>
     conn_isles info' 0 = [[0x10, 0x11], [0x99], [0x20]]"
proof -
  have "free_isles_list ex_ooo \<noteq> []" by (simp add: ex_ooo_def)
  from ooo_new_isle_effect [OF ex_ooo_wf ex_ooo_conn _ _ this, of 2 "0x99"]
  show ?thesis by (auto simp: ex_ooo_isles simp del: conn_isles_length)
qed

text \<open>
  \<open>qed_ooo_add_new_buffer\<close> extends the isle it names by the buffer, on the left or on the
  right, and changes nothing else of any connection.
\<close>

theorem ooo_add_buffer_effect:
  assumes "ooo_wf info" "ooo_conn info c a" "0 < k" "unat k \<le> length (conn_isles info a)"
  shows "conn_isles (qed_ooo_add_new_buffer info c k b side) a =
      (conn_isles info a)[unat k - 1 :=
        (if side = QED_OOO_LEFT_BUF then b # conn_isles info a ! (unat k - 1)
         else conn_isles info a ! (unat k - 1) @ [b])] \<and>
    (\<forall>a'<length (p_archipelagos_mem info). a' \<noteq> a \<longrightarrow>
      conn_isles (qed_ooo_add_new_buffer info c k b side) a' = conn_isles info a')"
  using add_new_buffer_conn [OF assms] by blast

theorem ooo_add_buffer_effect_witness:
  "conn_isles (qed_ooo_add_new_buffer ex_ooo 5 1 0x99 QED_OOO_LEFT_BUF) 0 = [[0x99, 0x10, 0x11], [0x20]]"
  using ooo_add_buffer_effect [OF ex_ooo_wf ex_ooo_conn, of 1 "0x99" QED_OOO_LEFT_BUF]
  by (simp add: ex_ooo_isles del: conn_isles_length)

text \<open>
  C7. \<open>qed_ooo_join_isles\<close> on a connection that has an isle \<open>l + 1\<close> appends that isle to isle \<open>l\<close>;
  with \<open>l = 0\<close> it hands the first isle over to the ready list, in order. The emptied isle goes to
  the end of the free isles and the count of isles goes down by one; the other isles, the other
  connections, the free buffers, the history, the other counters and the ids stay as they were.
  Without an isle \<open>l + 1\<close> nothing changes. The branch for a missing left isle is never taken.
\<close>

theorem ooo_join_effect:
  assumes "ooo_wf info" "ooo_conn info c a"
  shows "let info' = qed_ooo_join_isles info c l; xs = conn_isles info a
    in if unat l < length xs
    then (if l = 0
        then conn_isles info' a = tl xs \<and> ready_buffers_list info' = ready_buffers_list info @ hd xs
        else conn_isles info' a =
            take (unat l - 1) xs @ [xs ! (unat l - 1) @ xs ! unat l] @ drop (Suc (unat l)) xs \<and>
          ready_buffers_list info' = ready_buffers_list info) \<and>
      (\<forall>a'<length (p_archipelagos_mem info). a' \<noteq> a \<longrightarrow> conn_isles info' a' = conn_isles info a') \<and>
      free_isles_list info' = free_isles_list info @ [p_archipelagos_mem info ! a ! unat l] \<and>
      cur_isles_number info' = cur_isles_number info - 1 \<and>
      free_buffers_list info' = free_buffers_list info \<and> ooo_kept info info' \<and> ooo_wf info'
    else info' = info"
proof (cases "unat l < length (conn_isles info a)")
  case True
  then show ?thesis
    using join_isles_conn [OF assms(1,2) True] join_isles_wf(1) [OF assms(1)] unfolding Let_def by simp
next
  case False
  then show ?thesis using seek_next_isle [OF assms(1,2), of l]
    by (simp add: Let_def qed_ooo_join_isles_def)
qed

theorem ooo_join_effect_witness:
  "conn_isles (qed_ooo_join_isles ex_ooo 5 1) 0 = [[0x10, 0x11, 0x20]] \<and>
   conn_isles (qed_ooo_join_isles ex_ooo 5 0) 0 = [[0x20]] \<and>
   ready_buffers_list (qed_ooo_join_isles ex_ooo 5 0) = [0x10, 0x11]"
proof -
  have "ready_buffers_list ex_ooo = []" by (simp add: ex_ooo_def)
  then show ?thesis
    using ooo_join_effect [OF ex_ooo_wf ex_ooo_conn, of 1] ooo_join_effect [OF ex_ooo_wf ex_ooo_conn, of 0]
    by (simp add: ex_ooo_isles Let_def del: conn_isles_length)
qed

text \<open>
  C8. \<open>qed_ooo_delete_isles\<close> removes \<open>sz\<close> isles of a connection from number \<open>d\<close> on (as many as there
  are) and puts their buffers back on the free list, in order. The isles become free and the
  count of isles goes down by their number; the other isles, the other connections, the ready
  buffers, the history, the other counters and the ids stay as they were. (Number 0 counts as
  256, where the 8-bit numbers wrap.)
\<close>

theorem ooo_delete_effect:
  assumes "ooo_wf info" "ooo_conn info c a"
  shows "let info' = qed_ooo_delete_isles info c d sz; xs = conn_isles info a; ps = p_archipelagos_mem info ! a
    in conn_isles info' a = take (unat (d - 1)) xs @ drop (unat (d - 1) + unat sz) xs \<and>
    free_buffers_list info' = free_buffers_list info @ concat (take (unat sz) (drop (unat (d - 1)) xs)) \<and>
    (\<forall>a'<length (p_archipelagos_mem info). a' \<noteq> a \<longrightarrow> conn_isles info' a' = conn_isles info a') \<and>
    free_isles_list info' = rev (take (unat sz) (drop (unat (d - 1)) ps)) @ free_isles_list info \<and>
    cur_isles_number info' =
      cur_isles_number info - of_nat (length (take (unat sz) (drop (unat (d - 1)) xs))) \<and>
    ready_buffers_list info' = ready_buffers_list info \<and> ooo_kept info info' \<and> ooo_wf info'"
  using delete_isles_conn [OF assms(1,2), of "unat sz" d] delete_isles_wf [OF assms(1)]
  by (simp add: Let_def qed_ooo_delete_isles_def)

theorem ooo_delete_effect_witness:
  "conn_isles (qed_ooo_delete_isles ex_ooo 5 1 1) 0 = [[0x20]] \<and>
   free_buffers_list (qed_ooo_delete_isles ex_ooo 5 1 1) = [0x10, 0x11]"
proof -
  have "free_buffers_list ex_ooo = []" by (simp add: ex_ooo_def)
  then show ?thesis
    using ooo_delete_effect [OF ex_ooo_wf ex_ooo_conn, of 1 1] by (simp add: ex_ooo_isles Let_def del: conn_isles_length)
qed

text \<open>
  C10. An event that opens the first isle of a connection whose id is outside the range of the
  function is not rejected: the code goes on to index the archipelago array out of bounds.
\<close>

theorem ooo_new_isle_out_of_bounds:
  assumes "ooo_wf info" "unat (max_num_archipelagos info) \<le> unat (ooo_idx info c)"
    and "free_isles_list info \<noteq> []"
  shows "qed_ooo_add_new_isle info c 1 b = None"
proof -
  have "qed_ooo_seek_archipelago info c = None"
    using assms(2) by (simp add: qed_ooo_seek_archipelago_def Let_def word_le_nat_alt unat_ucast_le)
  then show ?thesis using assms
    by (auto simp: qed_ooo_add_new_isle_def Let_def ooo_wf_def split: list.split)
qed

theorem ooo_new_isle_out_of_bounds_witness:
  "qed_ooo_add_new_isle ex_ooo 7 1 0x99 = None"
proof -
  have "unat (max_num_archipelagos ex_ooo) \<le> unat (ooo_idx ex_ooo 7)" "free_isles_list ex_ooo \<noteq> []"
    by (simp_all add: ex_ooo_def ooo_idx_def)
  then show ?thesis by (rule ooo_new_isle_out_of_bounds [OF ex_ooo_wf])
qed

end
