(* ===== verification/Qed_Chain.thy ===== *)
theory Qed_Chain
  imports Qed_Prelude
begin

text \<open>
  The chain: the element ring of \<open>qed_chain.h\<close> that every queue between driver and
  firmware is built on. A chain is a cycle of pages of elements. Three layouts exist: a
  single page, pages listed in a side table (PBL), and pages linked by a next pointer kept
  in the last, unusable, elements of each page. Indices run freely in 16 or 32 bits and
  wrap around.

  The two members \<open>chain16\<close>/\<open>chain32\<close> of the C union (and of the PBL page index union)
  are separate fields: the code selects the member by \<open>cnt_type\<close> before every access.
  The next pointer elements live in a store \<open>chain_mem\<close>, indexed by the address of the
  element.
\<close>

section \<open>Data\<close>

datatype qed_chain_mode =
    QED_CHAIN_MODE_NEXT_PTR
  | QED_CHAIN_MODE_SINGLE
  | QED_CHAIN_MODE_PBL

datatype qed_chain_use_mode =
    QED_CHAIN_USE_TO_PRODUCE
  | QED_CHAIN_USE_TO_CONSUME
  | QED_CHAIN_USE_TO_CONSUME_PRODUCE

datatype qed_chain_cnt_type =
    QED_CHAIN_CNT_TYPE_U16
  | QED_CHAIN_CNT_TYPE_U32

record qed_chain_next =
  next_phys :: u64
  next_virt :: u64

type_synonym chain_mem = "u64 \<Rightarrow> qed_chain_next"

text \<open>
  \<open>struct qed_chain_pbl_u16\<close>/\<open>u32\<close> and \<open>struct qed_chain_u16\<close>/\<open>u32\<close>: the same two
  fields at the integer type \<open>'w\<close>.
\<close>

record 'w qed_chain_pbl_idx =
  prod_page_idx :: 'w
  cons_page_idx :: 'w

record 'w qed_chain_idx =
  prod_idx :: 'w
  cons_idx :: 'w

record qed_chain =
  p_prod_elem :: u64
  p_cons_elem :: u64
  pp_virt_addr_tbl :: "u64 list option"
  pbl_u16 :: "u16 qed_chain_pbl_idx"
  pbl_u32 :: "u32 qed_chain_pbl_idx"
  chain16 :: "u16 qed_chain_idx"
  chain32 :: "u32 qed_chain_idx"
  capacity :: u32
  page_cnt :: u32
  mode :: qed_chain_mode
  elem_per_page :: u16
  elem_per_page_mask :: u16
  elem_size :: u16
  next_page_mask :: u16
  usable_per_page :: u16
  elem_unusable :: u8
  cnt_type :: qed_chain_cnt_type
  page_size :: u32
  p_phys_table :: u64
  p_virt_table :: u64
  p_virt_addr :: u64
  p_phys_addr :: u64
  chain_size :: u32
  intended_use :: qed_chain_use_mode
  b_external_pbl :: bool

section \<open>Geometry macros\<close>

definition QED_CHAIN_PBL_ENTRY_SIZE :: u32 where
  "QED_CHAIN_PBL_ENTRY_SIZE = 8"

definition QED_CHAIN_PAGE_SIZE :: u32 where
  "QED_CHAIN_PAGE_SIZE = 0x1000"

text \<open>\<open>sizeof(struct qed_chain_next)\<close>: a register pair and a pointer.\<close>

definition sizeof_qed_chain_next :: "'n::len word" where
  "sizeof_qed_chain_next = 16"

definition ELEMS_PER_PAGE :: "'n::len word \<Rightarrow> 'n word \<Rightarrow> 'n word" where
  "ELEMS_PER_PAGE psize esize = psize div esize"

definition UNUSABLE_ELEMS_PER_PAGE :: "'n::len word \<Rightarrow> qed_chain_mode \<Rightarrow> u8" where
  "UNUSABLE_ELEMS_PER_PAGE esize m =
     (if m = QED_CHAIN_MODE_NEXT_PTR
      then ucast (1 + ((sizeof_qed_chain_next - 1) div esize)) else 0)"

definition USABLE_ELEMS_PER_PAGE :: "'n::len word \<Rightarrow> 'n word \<Rightarrow> qed_chain_mode \<Rightarrow> u32" where
  "USABLE_ELEMS_PER_PAGE esize psize m =
     ucast (ELEMS_PER_PAGE psize esize - ucast (UNUSABLE_ELEMS_PER_PAGE esize m))"

definition DIV_ROUND_UP :: "u32 \<Rightarrow> u32 \<Rightarrow> u32" where
  "DIV_ROUND_UP n d = (n + d - 1) div d"

definition QED_CHAIN_PAGE_CNT ::
  "u32 \<Rightarrow> 'n::len word \<Rightarrow> 'n word \<Rightarrow> qed_chain_mode \<Rightarrow> u32" where
  "QED_CHAIN_PAGE_CNT elem_cnt esize psize m =
     DIV_ROUND_UP elem_cnt (USABLE_ELEMS_PER_PAGE esize psize m)"

definition is_chain_u16 :: "qed_chain \<Rightarrow> bool" where
  "is_chain_u16 ch \<longleftrightarrow> cnt_type ch = QED_CHAIN_CNT_TYPE_U16"

section \<open>Accessors\<close>

definition qed_chain_get_prod_idx :: "qed_chain \<Rightarrow> u16" where
  "qed_chain_get_prod_idx ch = prod_idx (chain16 ch)"

definition qed_chain_get_cons_idx :: "qed_chain \<Rightarrow> u16" where
  "qed_chain_get_cons_idx ch = cons_idx (chain16 ch)"

definition qed_chain_get_cons_idx_u32 :: "qed_chain \<Rightarrow> u32" where
  "qed_chain_get_cons_idx_u32 ch = cons_idx (chain32 ch)"

definition qed_chain_get_elem_left :: "qed_chain \<Rightarrow> u16" where
  "qed_chain_get_elem_left ch =
     (let epp = ucast (elem_per_page ch) :: u32;
          prod0 = ucast (prod_idx (chain16 ch)) :: u32;
          cons = ucast (cons_idx (chain16 ch)) :: u32;
          prod = (if prod0 < cons then prod0 + (0xffff + 1) else prod0);
          used0 = ucast (prod - cons) :: u16;
          used = (if mode ch = QED_CHAIN_MODE_NEXT_PTR
                  then ucast (ucast used0 - (prod div epp - cons div epp)) else used0)
      in ucast (capacity ch - ucast used))"

definition qed_chain_get_elem_left_u32 :: "qed_chain \<Rightarrow> u32" where
  "qed_chain_get_elem_left_u32 ch =
     (let epp = ucast (elem_per_page ch) :: u64;
          prod0 = ucast (prod_idx (chain32 ch)) :: u64;
          cons = ucast (cons_idx (chain32 ch)) :: u64;
          prod = (if prod0 < cons then prod0 + (0xffffffff + 1) else prod0);
          used0 = ucast (prod - cons) :: u32;
          used = (if mode ch = QED_CHAIN_MODE_NEXT_PTR
                  then used0 - ucast (prod div epp - cons div epp) else used0)
      in capacity ch - used)"

definition qed_chain_get_usable_per_page :: "qed_chain \<Rightarrow> u16" where
  "qed_chain_get_usable_per_page ch = usable_per_page ch"

definition qed_chain_get_unusable_per_page :: "qed_chain \<Rightarrow> u8" where
  "qed_chain_get_unusable_per_page ch = elem_unusable ch"

definition qed_chain_get_page_cnt :: "qed_chain \<Rightarrow> u32" where
  "qed_chain_get_page_cnt ch = page_cnt ch"

definition qed_chain_get_capacity :: "qed_chain \<Rightarrow> u32" where
  "qed_chain_get_capacity ch = capacity ch"

definition qed_chain_get_pbl_phys :: "qed_chain \<Rightarrow> u64" where
  "qed_chain_get_pbl_phys ch = p_phys_table ch"

section \<open>Producing and consuming\<close>

text \<open>
  The page table read of the PBL mode. A read outside the table (or through a NULL table)
  has no defined outcome in C; the model returns 0 there, and the chain invariant below
  excludes the case.
\<close>

definition pbl_page :: "qed_chain \<Rightarrow> nat \<Rightarrow> u64" where
  "pbl_page ch i =
     (case pp_virt_addr_tbl ch of
        None \<Rightarrow> 0
      | Some tbl \<Rightarrow> if i < length tbl then tbl ! i else 0)"

text \<open>
  The C function takes untyped pointers to the index and to the page index and casts them
  to the width of the chain; here the width is the type parameter \<open>'n\<close>. The result is the
  new value of the three objects the pointers refer to: element, index, page index.
\<close>

definition qed_chain_advance_page ::
  "chain_mem \<Rightarrow> qed_chain \<Rightarrow> u64 \<Rightarrow> 'n::len word \<Rightarrow> 'n word \<Rightarrow> u64 \<times> 'n word \<times> 'n word" where
  "qed_chain_advance_page mem ch next_elem idx_to_inc page_to_inc =
     (case mode ch of
        QED_CHAIN_MODE_NEXT_PTR \<Rightarrow>
          (next_virt (mem next_elem), idx_to_inc + ucast (elem_unusable ch), page_to_inc)
      | QED_CHAIN_MODE_SINGLE \<Rightarrow>
          (p_virt_addr ch, idx_to_inc, page_to_inc)
      | QED_CHAIN_MODE_PBL \<Rightarrow>
          (let page = (if ucast (page_to_inc + 1) = page_cnt ch then 0 else page_to_inc + 1)
           in (pbl_page ch (unat page), idx_to_inc, page)))"

definition is_unusable_idx :: "qed_chain \<Rightarrow> 'n::len word \<Rightarrow> bool" where
  "is_unusable_idx ch idx \<longleftrightarrow>
     idx AND ucast (elem_per_page_mask ch) = ucast (usable_per_page ch)"

definition test_and_skip_prod :: "qed_chain \<Rightarrow> qed_chain" where
  "test_and_skip_prod ch =
     (if is_chain_u16 ch then
        if is_unusable_idx ch (prod_idx (chain16 ch))
        then ch\<lparr>chain16 := (chain16 ch)\<lparr>prod_idx := prod_idx (chain16 ch) + ucast (elem_unusable ch)\<rparr>\<rparr>
        else ch
      else
        if is_unusable_idx ch (prod_idx (chain32 ch))
        then ch\<lparr>chain32 := (chain32 ch)\<lparr>prod_idx := prod_idx (chain32 ch) + ucast (elem_unusable ch)\<rparr>\<rparr>
        else ch)"

definition test_and_skip_cons :: "qed_chain \<Rightarrow> qed_chain" where
  "test_and_skip_cons ch =
     (if is_chain_u16 ch then
        if is_unusable_idx ch (cons_idx (chain16 ch))
        then ch\<lparr>chain16 := (chain16 ch)\<lparr>cons_idx := cons_idx (chain16 ch) + ucast (elem_unusable ch)\<rparr>\<rparr>
        else ch
      else
        if is_unusable_idx ch (cons_idx (chain32 ch))
        then ch\<lparr>chain32 := (chain32 ch)\<lparr>cons_idx := cons_idx (chain32 ch) + ucast (elem_unusable ch)\<rparr>\<rparr>
        else ch)"

definition qed_chain_return_produced :: "qed_chain \<Rightarrow> qed_chain" where
  "qed_chain_return_produced ch =
     (let ch1 = (if is_chain_u16 ch
                 then ch\<lparr>chain16 := (chain16 ch)\<lparr>cons_idx := cons_idx (chain16 ch) + 1\<rparr>\<rparr>
                 else ch\<lparr>chain32 := (chain32 ch)\<lparr>cons_idx := cons_idx (chain32 ch) + 1\<rparr>\<rparr>)
      in test_and_skip_cons ch1)"

definition qed_chain_produce :: "chain_mem \<Rightarrow> qed_chain \<Rightarrow> u64 \<times> qed_chain" where
  "qed_chain_produce mem ch =
     (let ch1 =
        (if is_chain_u16 ch then
           (let (e, i, p) =
              (if prod_idx (chain16 ch) AND elem_per_page_mask ch = next_page_mask ch
               then qed_chain_advance_page mem ch (p_prod_elem ch)
                      (prod_idx (chain16 ch)) (prod_page_idx (pbl_u16 ch))
               else (p_prod_elem ch, prod_idx (chain16 ch), prod_page_idx (pbl_u16 ch)))
            in ch\<lparr>p_prod_elem := e,
                  pbl_u16 := (pbl_u16 ch)\<lparr>prod_page_idx := p\<rparr>,
                  chain16 := (chain16 ch)\<lparr>prod_idx := i + 1\<rparr>\<rparr>)
         else
           (let (e, i, p) =
              (if prod_idx (chain32 ch) AND ucast (elem_per_page_mask ch) = ucast (next_page_mask ch)
               then qed_chain_advance_page mem ch (p_prod_elem ch)
                      (prod_idx (chain32 ch)) (prod_page_idx (pbl_u32 ch))
               else (p_prod_elem ch, prod_idx (chain32 ch), prod_page_idx (pbl_u32 ch)))
            in ch\<lparr>p_prod_elem := e,
                  pbl_u32 := (pbl_u32 ch)\<lparr>prod_page_idx := p\<rparr>,
                  chain32 := (chain32 ch)\<lparr>prod_idx := i + 1\<rparr>\<rparr>))
      in (p_prod_elem ch1, ch1\<lparr>p_prod_elem := p_prod_elem ch1 + ucast (elem_size ch1)\<rparr>))"

definition qed_chain_recycle_consumed :: "qed_chain \<Rightarrow> qed_chain" where
  "qed_chain_recycle_consumed ch =
     (let ch1 = test_and_skip_prod ch
      in if is_chain_u16 ch1
         then ch1\<lparr>chain16 := (chain16 ch1)\<lparr>prod_idx := prod_idx (chain16 ch1) + 1\<rparr>\<rparr>
         else ch1\<lparr>chain32 := (chain32 ch1)\<lparr>prod_idx := prod_idx (chain32 ch1) + 1\<rparr>\<rparr>)"

definition qed_chain_consume :: "chain_mem \<Rightarrow> qed_chain \<Rightarrow> u64 \<times> qed_chain" where
  "qed_chain_consume mem ch =
     (let ch1 =
        (if is_chain_u16 ch then
           (let (e, i, p) =
              (if cons_idx (chain16 ch) AND elem_per_page_mask ch = next_page_mask ch
               then qed_chain_advance_page mem ch (p_cons_elem ch)
                      (cons_idx (chain16 ch)) (cons_page_idx (pbl_u16 ch))
               else (p_cons_elem ch, cons_idx (chain16 ch), cons_page_idx (pbl_u16 ch)))
            in ch\<lparr>p_cons_elem := e,
                  pbl_u16 := (pbl_u16 ch)\<lparr>cons_page_idx := p\<rparr>,
                  chain16 := (chain16 ch)\<lparr>cons_idx := i + 1\<rparr>\<rparr>)
         else
           (let (e, i, p) =
              (if cons_idx (chain32 ch) AND ucast (elem_per_page_mask ch) = ucast (next_page_mask ch)
               then qed_chain_advance_page mem ch (p_cons_elem ch)
                      (cons_idx (chain32 ch)) (cons_page_idx (pbl_u32 ch))
               else (p_cons_elem ch, cons_idx (chain32 ch), cons_page_idx (pbl_u32 ch)))
            in ch\<lparr>p_cons_elem := e,
                  pbl_u32 := (pbl_u32 ch)\<lparr>cons_page_idx := p\<rparr>,
                  chain32 := (chain32 ch)\<lparr>cons_idx := i + 1\<rparr>\<rparr>))
      in (p_cons_elem ch1, ch1\<lparr>p_cons_elem := p_cons_elem ch1 + ucast (elem_size ch1)\<rparr>))"

section \<open>Reset and initialisation\<close>

text \<open>
  The index part of the reset. In PBL mode the page indices start at \<open>page_cnt - 1\<close>: the
  first produce or consume advances them to page 0.
\<close>

definition chain_reset_indices :: "qed_chain \<Rightarrow> qed_chain" where
  "chain_reset_indices ch =
     (let ch1 = (if is_chain_u16 ch
                 then ch\<lparr>chain16 := \<lparr>prod_idx = 0, cons_idx = 0\<rparr>\<rparr>
                 else ch\<lparr>chain32 := \<lparr>prod_idx = 0, cons_idx = 0\<rparr>\<rparr>);
          ch2 = ch1\<lparr>p_cons_elem := p_virt_addr ch1, p_prod_elem := p_virt_addr ch1\<rparr>;
          reset_val = page_cnt ch2 - 1
      in if mode ch2 = QED_CHAIN_MODE_PBL then
           if is_chain_u16 ch2
           then ch2\<lparr>pbl_u16 := \<lparr>prod_page_idx = ucast reset_val, cons_page_idx = ucast reset_val\<rparr>\<rparr>
           else ch2\<lparr>pbl_u32 := \<lparr>prod_page_idx = reset_val, cons_page_idx = reset_val\<rparr>\<rparr>
         else ch2)"

definition qed_chain_reset :: "qed_chain \<Rightarrow> qed_chain" where
  "qed_chain_reset ch =
     (let ch1 = chain_reset_indices ch
      in case intended_use ch1 of
           QED_CHAIN_USE_TO_CONSUME \<Rightarrow>
             (qed_chain_recycle_consumed ^^ unat (capacity ch1)) ch1
         | QED_CHAIN_USE_TO_CONSUME_PRODUCE \<Rightarrow> ch1
         | QED_CHAIN_USE_TO_PRODUCE \<Rightarrow> ch1)"

text \<open>
  The fields the C function leaves alone (indices and element pointers) keep their value.
\<close>

definition qed_chain_init ::
  "qed_chain \<Rightarrow> u32 \<Rightarrow> u8 \<Rightarrow> u32 \<Rightarrow> qed_chain_use_mode \<Rightarrow> qed_chain_mode
   \<Rightarrow> qed_chain_cnt_type \<Rightarrow> qed_chain" where
  "qed_chain_init ch pcnt esize psize use m ct =
     (let epp = ucast (ELEMS_PER_PAGE psize (ucast esize)) :: u16;
          upp = ucast (USABLE_ELEMS_PER_PAGE (ucast esize) psize m) :: u16;
          msk = epp - 1
      in ch\<lparr>p_virt_addr := 0,
            p_phys_addr := 0,
            elem_size := ucast esize,
            intended_use := use,
            mode := m,
            cnt_type := ct,
            elem_per_page := epp,
            usable_per_page := upp,
            elem_per_page_mask := msk,
            elem_unusable := UNUSABLE_ELEMS_PER_PAGE (ucast esize :: u32) m,
            next_page_mask := upp AND msk,
            page_size := psize,
            page_cnt := pcnt,
            capacity := ucast upp * pcnt,
            chain_size := ucast epp * pcnt,
            b_external_pbl := False,
            p_phys_table := 0,
            p_virt_table := 0,
            pp_virt_addr_tbl := None\<rparr>)"

definition qed_chain_init_mem :: "qed_chain \<Rightarrow> u64 \<Rightarrow> u64 \<Rightarrow> qed_chain" where
  "qed_chain_init_mem ch virt phys = ch\<lparr>p_virt_addr := virt, p_phys_addr := phys\<rparr>"

definition qed_chain_init_pbl_mem ::
  "qed_chain \<Rightarrow> u64 \<Rightarrow> u64 \<Rightarrow> u64 list option \<Rightarrow> qed_chain" where
  "qed_chain_init_pbl_mem ch virt_pbl phys_pbl tbl =
     ch\<lparr>p_phys_table := phys_pbl, p_virt_table := virt_pbl, pp_virt_addr_tbl := tbl\<rparr>"

text \<open>Offset of the next pointer element in its page.\<close>

definition next_elem_off :: "qed_chain \<Rightarrow> u64" where
  "next_elem_off ch = ucast (ucast (elem_size ch) * ucast (usable_per_page ch) :: u32)"

definition qed_chain_init_next_ptr_elem ::
  "chain_mem \<Rightarrow> qed_chain \<Rightarrow> u64 \<Rightarrow> u64 \<Rightarrow> u64 \<Rightarrow> chain_mem" where
  "qed_chain_init_next_ptr_elem mem ch virt_curr virt_next phys_next =
     mem(virt_curr + next_elem_off ch := \<lparr>next_phys = phys_next, next_virt = virt_next\<rparr>)"

text \<open>
  The walk along the next pointers to the last page. It may run forever on a store in which
  the pages do not form a cycle through the first one.
\<close>

partial_function (option) last_page_walk :: "chain_mem \<Rightarrow> qed_chain \<Rightarrow> u64 \<Rightarrow> u64 option" where
  "last_page_walk mem ch virt =
     (let nxt = next_virt (mem (virt + next_elem_off ch))
      in if nxt \<noteq> p_virt_addr ch then last_page_walk mem ch nxt else Some virt)"

definition qed_chain_get_last_elem :: "chain_mem \<Rightarrow> qed_chain \<Rightarrow> u64 option" where
  "qed_chain_get_last_elem mem ch =
     (if p_virt_addr ch = 0 then Some 0
      else
        (let page =
           (case mode ch of
              QED_CHAIN_MODE_NEXT_PTR \<Rightarrow> last_page_walk mem ch (p_virt_addr ch)
            | QED_CHAIN_MODE_SINGLE \<Rightarrow> Some (p_virt_addr ch)
            | QED_CHAIN_MODE_PBL \<Rightarrow> Some (pbl_page ch (unat (page_cnt ch - 1))));
             off = ucast (ucast (elem_size ch) * (ucast (usable_per_page ch) - 1) :: u32)
         in map_option (\<lambda>p. p + off) page))"

section \<open>Rewinding\<close>

definition page_mask32 :: "qed_chain \<Rightarrow> u32" where
  "page_mask32 ch = NOT (ucast (elem_per_page_mask ch))"

definition page_diff32 :: "qed_chain \<Rightarrow> u32 \<Rightarrow> u32 \<Rightarrow> u32" where
  "page_diff32 ch cur new =
     (((cur - 1) AND page_mask32 ch) - ((new - 1) AND page_mask32 ch))
       div ucast (elem_per_page ch)"

definition qed_chain_set_prod :: "qed_chain \<Rightarrow> u32 \<Rightarrow> u64 \<Rightarrow> qed_chain" where
  "qed_chain_set_prod ch new_idx elem =
     (let cur = (if is_chain_u16 ch then ucast (prod_idx (chain16 ch)) else prod_idx (chain32 ch));
          diff = page_diff32 ch cur new_idx;
          cnt = qed_chain_get_page_cnt ch;
          ch1 = (if mode ch = QED_CHAIN_MODE_PBL then
                   if is_chain_u16 ch
                   then ch\<lparr>pbl_u16 := (pbl_u16 ch)\<lparr>prod_page_idx :=
                          ucast ((ucast (prod_page_idx (pbl_u16 ch)) - diff + cnt) mod cnt)\<rparr>\<rparr>
                   else ch\<lparr>pbl_u32 := (pbl_u32 ch)\<lparr>prod_page_idx :=
                          (prod_page_idx (pbl_u32 ch) - diff + cnt) mod cnt\<rparr>\<rparr>
                 else ch);
          ch2 = (if is_chain_u16 ch1
                 then ch1\<lparr>chain16 := (chain16 ch1)\<lparr>prod_idx := ucast new_idx\<rparr>\<rparr>
                 else ch1\<lparr>chain32 := (chain32 ch1)\<lparr>prod_idx := new_idx\<rparr>\<rparr>)
      in ch2\<lparr>p_prod_elem := elem\<rparr>)"

definition qed_chain_set_cons :: "qed_chain \<Rightarrow> u32 \<Rightarrow> u64 \<Rightarrow> qed_chain" where
  "qed_chain_set_cons ch new_idx elem =
     (let cur = (if is_chain_u16 ch then ucast (cons_idx (chain16 ch)) else cons_idx (chain32 ch));
          diff = page_diff32 ch cur new_idx;
          cnt = qed_chain_get_page_cnt ch;
          ch1 = (if mode ch = QED_CHAIN_MODE_PBL then
                   if is_chain_u16 ch
                   then ch\<lparr>pbl_u16 := (pbl_u16 ch)\<lparr>cons_page_idx :=
                          ucast ((ucast (cons_page_idx (pbl_u16 ch)) - diff + cnt) mod cnt)\<rparr>\<rparr>
                   else ch\<lparr>pbl_u32 := (pbl_u32 ch)\<lparr>cons_page_idx :=
                          (cons_page_idx (pbl_u32 ch) - diff + cnt) mod cnt\<rparr>\<rparr>
                 else ch);
          ch2 = (if is_chain_u16 ch1
                 then ch1\<lparr>chain16 := (chain16 ch1)\<lparr>cons_idx := ucast new_idx\<rparr>\<rparr>
                 else ch1\<lparr>chain32 := (chain32 ch1)\<lparr>cons_idx := new_idx\<rparr>\<rparr>)
      in ch2\<lparr>p_cons_elem := elem\<rparr>)"

text \<open>The pages cleared by \<open>memset\<close>, as (address, length) pairs in the order of the calls.\<close>

definition qed_chain_pbl_zero_mem :: "qed_chain \<Rightarrow> (u64 \<times> u32) list" where
  "qed_chain_pbl_zero_mem ch =
     (if mode ch \<noteq> QED_CHAIN_MODE_PBL then []
      else map (\<lambda>i. (pbl_page ch i, page_size ch)) [0..<unat (qed_chain_get_page_cnt ch)])"

section \<open>Element lookup of the debug printer\<close>

fun elem_by_idx_walk ::
  "chain_mem \<Rightarrow> qed_chain \<Rightarrow> nat \<Rightarrow> u64 \<Rightarrow> u32 \<Rightarrow> u64 \<times> u32" where
  "elem_by_idx_walk mem ch 0 virt elem_idx = (virt, elem_idx)"
| "elem_by_idx_walk mem ch (Suc n) virt elem_idx =
     elem_by_idx_walk mem ch n (next_virt (mem (virt + next_elem_off ch)))
       (elem_idx - ucast (elem_per_page ch))"

definition qed_chain_get_elem_by_idx :: "chain_mem \<Rightarrow> qed_chain \<Rightarrow> u32 \<Rightarrow> u64" where
  "qed_chain_get_elem_by_idx mem ch idx =
     (if p_virt_addr ch = 0 then 0
      else
        (let elem_idx = idx mod capacity ch;
             page_idx = elem_idx div ucast (elem_per_page ch);
             (page, e) =
               (case mode ch of
                  QED_CHAIN_MODE_NEXT_PTR \<Rightarrow>
                    elem_by_idx_walk mem ch (unat page_idx) (p_virt_addr ch) elem_idx
                | QED_CHAIN_MODE_SINGLE \<Rightarrow> (p_virt_addr ch, elem_idx)
                | QED_CHAIN_MODE_PBL \<Rightarrow>
                    (pbl_page ch (unat page_idx),
                     elem_idx - page_idx * ucast (elem_per_page ch)))
         in page + ucast (ucast (elem_size ch) * e)))"

end
