(* ===== verification/Qed_Chain_Correct.thy ===== *)
theory Qed_Chain_Correct
  imports Qed_Chain
begin

text \<open>
  Correctness of the chain. The abstract chain is the infinite sequence of slots
  \<open>0, 1, 2, \<dots>\<close>, slot \<open>k\<close> being element \<open>k mod usable\<close> of page
  \<open>(k div usable) mod page_cnt\<close>. Producer and consumer are two positions in this sequence.
  The lemmas show that the free running, wrapping indices, the page indices and the
  element pointers of the code track these positions in all three layouts and at both index
  widths.
\<close>

section \<open>Well-formed chains\<close>

abbreviation upp :: "qed_chain \<Rightarrow> nat" where "upp ch \<equiv> unat (usable_per_page ch)"
abbreviation epp :: "qed_chain \<Rightarrow> nat" where "epp ch \<equiv> unat (elem_per_page ch)"
abbreviation pcnt :: "qed_chain \<Rightarrow> nat" where "pcnt ch \<equiv> unat (page_cnt ch)"
abbreviation esz :: "qed_chain \<Rightarrow> nat" where "esz ch \<equiv> unat (elem_size ch)"

text \<open>The width of the index of the chain.\<close>

definition idx_bits :: "qed_chain \<Rightarrow> nat" where
  "idx_bits ch = (if is_chain_u16 ch then 16 else 32)"

text \<open>
  What \<open>qed_chain_init\<close> and the sanity check of the allocation establish: a power of two
  of elements per page, of which the last \<open>elem_unusable\<close> hold the next pointer, and
  index ranges large enough for the chain.
\<close>

definition chain_wf :: "qed_chain \<Rightarrow> bool" where
  "chain_wf ch \<longleftrightarrow>
     (\<exists>k\<in>{..15}. epp ch = 2 ^ k) \<and>
     unat (elem_per_page_mask ch) = epp ch - 1 \<and>
     upp ch + unat (elem_unusable ch) = epp ch \<and>
     0 < upp ch \<and>
     (mode ch = QED_CHAIN_MODE_NEXT_PTR \<longleftrightarrow> elem_unusable ch \<noteq> 0) \<and>
     next_page_mask ch = usable_per_page ch AND elem_per_page_mask ch \<and>
     0 < pcnt ch \<and>
     (mode ch = QED_CHAIN_MODE_SINGLE \<longrightarrow> pcnt ch = 1) \<and>
     unat (capacity ch) = upp ch * pcnt ch \<and>
     epp ch * pcnt ch \<le> 2 ^ idx_bits ch"

text \<open>The pages of the chain in memory.\<close>

definition chain_layout :: "chain_mem \<Rightarrow> qed_chain \<Rightarrow> u64 list \<Rightarrow> bool" where
  "chain_layout mem ch pages \<longleftrightarrow>
     length pages = pcnt ch \<and>
     p_virt_addr ch = pages ! 0 \<and>
     (mode ch = QED_CHAIN_MODE_PBL \<longrightarrow> pp_virt_addr_tbl ch = Some pages) \<and>
     (mode ch = QED_CHAIN_MODE_NEXT_PTR \<longrightarrow>
        (\<forall>i<pcnt ch. next_virt (mem (pages ! i + next_elem_off ch)) = pages ! (Suc i mod pcnt ch)))"

section \<open>Abstract positions\<close>

definition slot_addr :: "qed_chain \<Rightarrow> u64 list \<Rightarrow> nat \<Rightarrow> u64" where
  "slot_addr ch pages k =
     pages ! ((k div upp ch) mod pcnt ch) + of_nat ((k mod upp ch) * esz ch)"

text \<open>
  Index of a position that skips the unusable elements only when the next element is
  taken (\<open>produce\<close>, \<open>consume\<close>, \<open>recycle_consumed\<close>), with \<open>u\<close> usable of \<open>e\<close> elements
  per page.
\<close>

fun lazy_idx :: "nat \<Rightarrow> nat \<Rightarrow> nat \<Rightarrow> nat" where
  "lazy_idx u e 0 = 0"
| "lazy_idx u e (Suc j) = (j div u) * e + j mod u + 1"

text \<open>Index of a position that skips them at once (\<open>return_produced\<close>).\<close>

definition eager_idx :: "nat \<Rightarrow> nat \<Rightarrow> nat \<Rightarrow> nat" where
  "eager_idx u e k = (k div u) * e + k mod u"

definition elem_ptr :: "qed_chain \<Rightarrow> u64 list \<Rightarrow> nat \<Rightarrow> u64" where
  "elem_ptr ch pages k =
     (case k of 0 \<Rightarrow> pages ! 0
      | Suc j \<Rightarrow> pages ! ((j div upp ch) mod pcnt ch) + of_nat (Suc (j mod upp ch) * esz ch))"

definition page_pos :: "qed_chain \<Rightarrow> nat \<Rightarrow> nat" where
  "page_pos ch k = (case k of 0 \<Rightarrow> pcnt ch - 1 | Suc j \<Rightarrow> (j div upp ch) mod pcnt ch)"

definition at_pos ::
  "qed_chain \<Rightarrow> u64 list \<Rightarrow> nat \<Rightarrow> u64 \<Rightarrow> 'n::len word \<Rightarrow> 'n word \<Rightarrow> bool" where
  "at_pos ch pages k elem idx page \<longleftrightarrow>
     unat idx = lazy_idx (upp ch) (epp ch) k mod 2 ^ LENGTH('n) \<and>
     elem = elem_ptr ch pages k \<and>
     (mode ch = QED_CHAIN_MODE_PBL \<longrightarrow> unat page = page_pos ch k)"

definition prod_at :: "qed_chain \<Rightarrow> u64 list \<Rightarrow> nat \<Rightarrow> bool" where
  "prod_at ch pages k \<longleftrightarrow>
     (if is_chain_u16 ch
      then at_pos ch pages k (p_prod_elem ch) (prod_idx (chain16 ch)) (prod_page_idx (pbl_u16 ch))
      else at_pos ch pages k (p_prod_elem ch) (prod_idx (chain32 ch)) (prod_page_idx (pbl_u32 ch)))"

definition cons_at :: "qed_chain \<Rightarrow> u64 list \<Rightarrow> nat \<Rightarrow> bool" where
  "cons_at ch pages k \<longleftrightarrow>
     (if is_chain_u16 ch
      then at_pos ch pages k (p_cons_elem ch) (cons_idx (chain16 ch)) (cons_page_idx (pbl_u16 ch))
      else at_pos ch pages k (p_cons_elem ch) (cons_idx (chain32 ch)) (cons_page_idx (pbl_u32 ch)))"

section \<open>Arithmetic of the positions\<close>

lemma lazy_idx_step:
  assumes "0 < u" "u \<le> e"
  shows "lazy_idx u e (Suc k) =
    (if 0 < k \<and> k mod u = 0 then lazy_idx u e k + (e - u) + 1 else lazy_idx u e k + 1)"
proof (cases k)
  case 0
  then show ?thesis using assms by simp
next
  case (Suc j)
  show ?thesis
  proof (cases "Suc (j mod u) = u")
    case True
    then have "Suc j mod u = 0" "Suc j div u = Suc (j div u)"
      by (auto simp: mod_Suc div_Suc)
    moreover have "j mod u = u - 1" using True by simp
    ultimately show ?thesis using Suc assms by (simp add: algebra_simps)
  next
    case False
    then have "Suc j mod u = Suc (j mod u)" "Suc j div u = j div u"
      by (auto simp: mod_Suc div_Suc)
    then show ?thesis using Suc by simp
  qed
qed

lemma lazy_idx_full: "0 < u \<Longrightarrow> lazy_idx u u k = k"
  by (cases k) (simp_all add: mult.commute)

lemma lazy_idx_mod:
  assumes "0 < u" "u < e"
  shows "lazy_idx u e k mod e = (case k of 0 \<Rightarrow> 0 | Suc j \<Rightarrow> Suc (j mod u))"
proof (cases k)
  case (Suc j)
  have "Suc (j mod u) < e" using assms by (meson Suc_leI le_less_trans mod_less_divisor)
  then show ?thesis using Suc by simp
qed simp

lemma lazy_idx_boundary:
  assumes "0 < u" "u < e"
  shows "lazy_idx u e k mod e = u \<longleftrightarrow> 0 < k \<and> k mod u = 0"
  using assms by (cases k) (auto simp: lazy_idx_mod mod_Suc split: if_splits simp del: lazy_idx.simps)

section \<open>Facts of a well-formed chain\<close>

named_theorems chain_wf_facts \<open>consequences of well-formedness used by the chain proofs\<close>

lemma chain_wf_pow: "chain_wf ch \<Longrightarrow> \<exists>k\<le>15. epp ch = 2 ^ k"
  by (auto simp: chain_wf_def)

lemma chain_wf_pos [chain_wf_facts]:
  assumes "chain_wf ch"
  shows "0 < upp ch" "0 < epp ch" "0 < pcnt ch" "upp ch \<le> epp ch"
  using assms by (auto simp: chain_wf_def)

lemma chain_wf_upp [chain_wf_facts]:
  assumes "chain_wf ch"
  shows "mode ch = QED_CHAIN_MODE_NEXT_PTR \<Longrightarrow> upp ch < epp ch"
    and "mode ch \<noteq> QED_CHAIN_MODE_NEXT_PTR \<Longrightarrow> upp ch = epp ch"
    and "unat (elem_unusable ch) = epp ch - upp ch"
proof -
  have sum: "upp ch + unat (elem_unusable ch) = epp ch"
    and nz: "mode ch = QED_CHAIN_MODE_NEXT_PTR \<longleftrightarrow> elem_unusable ch \<noteq> 0"
    using assms by (auto simp: chain_wf_def)
  show "mode ch = QED_CHAIN_MODE_NEXT_PTR \<Longrightarrow> upp ch < epp ch"
    using sum nz unat_gt_0 [of "elem_unusable ch"] by linarith
  show "mode ch \<noteq> QED_CHAIN_MODE_NEXT_PTR \<Longrightarrow> upp ch = epp ch"
    using sum nz by simp
  show "unat (elem_unusable ch) = epp ch - upp ch"
    using sum by linarith
qed

lemma chain_wf_mask:
  fixes idx :: "'n::len word"
  assumes wf: "chain_wf ch" and n: "16 \<le> LENGTH('n)"
  shows "unat (idx AND ucast (elem_per_page_mask ch)) = unat idx mod epp ch"
proof -
  obtain k where k: "epp ch = 2 ^ k" using chain_wf_pow [OF wf] by blast
  have "unat (ucast (elem_per_page_mask ch) :: 'n word) = 2 ^ k - 1"
    using wf n k by (simp add: unat_ucast_le chain_wf_def)
  then show ?thesis using k by (simp add: unat_and_mask)
qed

lemma chain_wf_next_page_mask:
  assumes wf: "chain_wf ch"
  shows "unat (next_page_mask ch) = (if mode ch = QED_CHAIN_MODE_NEXT_PTR then upp ch else 0)"
proof -
  have "unat (next_page_mask ch) = upp ch mod epp ch"
    using chain_wf_mask [OF wf, of "usable_per_page ch"] wf by (simp add: chain_wf_def)
  then show ?thesis using chain_wf_upp [OF wf] by auto
qed

lemma epp_dvd_range:
  assumes "chain_wf ch" "16 \<le> n"
  shows "epp ch dvd 2 ^ n"
proof -
  obtain k where "k \<le> 15" "epp ch = 2 ^ k" using chain_wf_pow [OF assms(1)] by blast
  then show ?thesis using assms(2) by (simp add: le_imp_power_dvd)
qed

lemma mod_range_mod_epp:
  assumes "chain_wf ch" "16 \<le> n"
  shows "x mod 2 ^ n mod epp ch = x mod epp ch"
  using epp_dvd_range [OF assms] by (simp add: mod_mod_cancel)

text \<open>The test of \<open>produce\<close> and \<open>consume\<close> for the end of a page, on the position.\<close>

lemma page_end_test:
  fixes idx page :: "'n::len word"
  assumes wf: "chain_wf ch" and n: "16 \<le> LENGTH('n)"
    and pos: "at_pos ch pages k elem idx page"
  shows "idx AND ucast (elem_per_page_mask ch) = ucast (next_page_mask ch) \<longleftrightarrow>
    k mod upp ch = 0 \<and> (mode ch = QED_CHAIN_MODE_NEXT_PTR \<longrightarrow> 0 < k)"
proof -
  let ?l = "lazy_idx (upp ch) (epp ch) k"
  have "idx AND ucast (elem_per_page_mask ch) = ucast (next_page_mask ch) \<longleftrightarrow>
      ?l mod epp ch = unat (next_page_mask ch)"
    using pos n by (simp add: word_unat_eq_iff chain_wf_mask [OF wf] unat_ucast_le at_pos_def
        mod_range_mod_epp [OF wf])
  also have "\<dots> \<longleftrightarrow> k mod upp ch = 0 \<and> (mode ch = QED_CHAIN_MODE_NEXT_PTR \<longrightarrow> 0 < k)"
    using chain_wf_upp [OF wf] chain_wf_pos [OF wf]
    by (auto simp: chain_wf_next_page_mask [OF wf] lazy_idx_boundary lazy_idx_full)
  finally show ?thesis .
qed

section \<open>One step of a position\<close>

lemma next_elem_off_eq: "next_elem_off ch = of_nat (upp ch * esz ch)"
proof -
  have "esz ch * upp ch < 2 ^ 16 * 2 ^ 16"
    using unsigned_less [of "elem_size ch"] unsigned_less [of "usable_per_page ch"]
    by (intro mult_strict_mono) auto
  then have lt: "esz ch * upp ch < 2 ^ 32" by simp
  then have "unat (ucast (elem_size ch) * ucast (usable_per_page ch) :: u32) = esz ch * upp ch"
    by (simp add: unat_word_ariths unat_ucast_le)
  then have "unat (next_elem_off ch) = esz ch * upp ch"
    by (simp add: next_elem_off_def unat_ucast_le)
  then show ?thesis
    using lt by (simp add: word_unat_eq_iff unat_of_nat mult.commute del: of_nat_mult)
qed

text \<open>The page index of the PBL mode steps through the pages cyclically.\<close>

lemma next_page_wrap:
  fixes page :: "'n::len word"
  assumes q: "unat page < pcnt ch" and le: "pcnt ch \<le> 2 ^ LENGTH('n)" and n: "LENGTH('n) \<le> 32"
  shows "unat (if ucast (page + 1) = page_cnt ch then 0 else page + 1) = Suc (unat page) mod pcnt ch"
proof (cases "Suc (unat page) < 2 ^ LENGTH('n)")
  case True
  then have u: "unat (page + 1) = Suc (unat page)" by (simp add: unat_Suc_mod)
  have eq: "ucast (page + 1) = page_cnt ch \<longleftrightarrow> Suc (unat page) = pcnt ch"
    using n u by (simp add: word_unat_eq_iff unat_ucast_le)
  show ?thesis
    using u q unfolding eq by (auto simp: not_less_eq)
next
  case False
  then have "Suc (unat page) = 2 ^ LENGTH('n)" "pcnt ch = 2 ^ LENGTH('n)"
    using q le by linarith+
  moreover from this have "page + 1 = 0"
    by (simp add: word_unat_eq_iff unat_Suc_mod)
  moreover have "page_cnt ch \<noteq> 0" using q by auto
  ultimately show ?thesis by simp
qed

lemma wf_pcnt_le:
  assumes "chain_wf ch" shows "pcnt ch \<le> 2 ^ idx_bits ch"
proof -
  have "1 * pcnt ch \<le> epp ch * pcnt ch"
    using chain_wf_pos(2) [OF assms] by (intro mult_right_mono) auto
  also have "\<dots> \<le> 2 ^ idx_bits ch" using assms by (simp add: chain_wf_def)
  finally show ?thesis by simp
qed

lemma idx_bits_range: "16 \<le> idx_bits ch" "idx_bits ch \<le> 32"
  by (auto simp: idx_bits_def)

lemma page_pos_less: "chain_wf ch \<Longrightarrow> page_pos ch k < pcnt ch"
  using chain_wf_pos(3) by (auto simp: page_pos_def split: nat.split)

text \<open>
  The index after one step. \<open>pe\<close> is the outcome of the page end test; only the next
  pointer layout has elements to skip.
\<close>

lemma lazy_idx_next:
  fixes idx :: "'n::len word"
  assumes wf: "chain_wf ch" and n: "16 \<le> LENGTH('n)"
    and idx: "unat idx = lazy_idx (upp ch) (epp ch) k mod 2 ^ LENGTH('n)"
  shows "mode ch = QED_CHAIN_MODE_NEXT_PTR \<Longrightarrow> 0 < k \<Longrightarrow> k mod upp ch = 0 \<Longrightarrow>
      unat (idx + ucast (elem_unusable ch) + 1) =
        lazy_idx (upp ch) (epp ch) (Suc k) mod 2 ^ LENGTH('n)"
    and "mode ch \<noteq> QED_CHAIN_MODE_NEXT_PTR \<or> k = 0 \<or> k mod upp ch \<noteq> 0 \<Longrightarrow>
      unat (idx + 1) = lazy_idx (upp ch) (epp ch) (Suc k) mod 2 ^ LENGTH('n)"
proof -
  note pos = chain_wf_pos [OF wf]
  have un: "unat (ucast (elem_unusable ch) :: 'n word) = epp ch - upp ch"
    using n by (simp add: unat_ucast_le chain_wf_upp(3) [OF wf])
  show "unat (idx + ucast (elem_unusable ch) + 1) =
      lazy_idx (upp ch) (epp ch) (Suc k) mod 2 ^ LENGTH('n)"
    if "mode ch = QED_CHAIN_MODE_NEXT_PTR" "0 < k" "k mod upp ch = 0"
  proof -
    have "lazy_idx (upp ch) (epp ch) (Suc k) =
        Suc (lazy_idx (upp ch) (epp ch) k + (epp ch - upp ch))"
      using that pos by (simp add: lazy_idx_step del: lazy_idx.simps)
    then show ?thesis by (simp only: unat_add_mod un idx mod_simps unsigned_1 Suc_eq_plus1)
  qed
  show "unat (idx + 1) = lazy_idx (upp ch) (epp ch) (Suc k) mod 2 ^ LENGTH('n)"
    if "mode ch \<noteq> QED_CHAIN_MODE_NEXT_PTR \<or> k = 0 \<or> k mod upp ch \<noteq> 0"
  proof -
    have "lazy_idx (upp ch) (epp ch) (Suc k) = Suc (lazy_idx (upp ch) (epp ch) k)"
      using that chain_wf_upp(2) [OF wf] pos by (auto simp: lazy_idx_step simp del: lazy_idx.simps)
    then show ?thesis by (simp add: unat_Suc_mod idx mod_simps del: lazy_idx.simps)
  qed
qed

text \<open>The element pointer inside a page already is the slot; at a page end it is past it.\<close>

lemma elem_ptr_inside:
  assumes "k = 0 \<or> k mod upp ch \<noteq> 0"
  shows "elem_ptr ch pages k = slot_addr ch pages k"
proof (cases k)
  case 0
  then show ?thesis by (simp add: elem_ptr_def slot_addr_def)
next
  case (Suc j)
  then have "Suc (j mod upp ch) \<noteq> upp ch" using assms by (auto simp: mod_Suc)
  then show ?thesis using Suc by (simp add: elem_ptr_def slot_addr_def mod_Suc div_Suc)
qed

lemma elem_ptr_Suc:
  "elem_ptr ch pages (Suc k) = slot_addr ch pages k + ucast (elem_size ch)"
proof -
  have "(ucast (elem_size ch) :: u64) = of_nat (esz ch)"
    by (simp add: word_unat_eq_iff unat_of_nat unat_ucast_mod)
  then show ?thesis by (simp add: elem_ptr_def slot_addr_def algebra_simps)
qed

lemma elem_ptr_page_end:
  assumes "chain_wf ch" "k = Suc j" "k mod upp ch = 0"
  shows "elem_ptr ch pages k = pages ! ((j div upp ch) mod pcnt ch) + next_elem_off ch"
    and "slot_addr ch pages k = pages ! (Suc ((j div upp ch) mod pcnt ch) mod pcnt ch)"
proof -
  have "Suc (j mod upp ch) = upp ch" "Suc j div upp ch = Suc (j div upp ch)"
    using assms by (auto simp: mod_Suc div_Suc split: if_splits)
  then show "elem_ptr ch pages k = pages ! ((j div upp ch) mod pcnt ch) + next_elem_off ch"
    and "slot_addr ch pages k = pages ! (Suc ((j div upp ch) mod pcnt ch) mod pcnt ch)"
    using assms(2,3)
    by (simp_all add: elem_ptr_def slot_addr_def next_elem_off_eq mod_Suc_eq del: of_nat_mult)
qed

lemma page_pos_step:
  assumes "chain_wf ch" "k mod upp ch = 0"
  shows "Suc (page_pos ch k) mod pcnt ch = page_pos ch (Suc k)"
    and "slot_addr ch pages k = pages ! page_pos ch (Suc k)"
proof -
  show "Suc (page_pos ch k) mod pcnt ch = page_pos ch (Suc k)"
  proof (cases k)
    case 0
    then show ?thesis using chain_wf_pos(3) [OF assms(1)] by (simp add: page_pos_def)
  next
    case (Suc j)
    then have "Suc j div upp ch = Suc (j div upp ch)" using assms by (simp add: div_Suc mod_Suc split: if_splits)
    then show ?thesis using Suc by (simp add: page_pos_def mod_Suc_eq)
  qed
  show "slot_addr ch pages k = pages ! page_pos ch (Suc k)"
    using assms(2) by (simp add: slot_addr_def page_pos_def)
qed

lemma page_pos_inside:
  assumes "k mod upp ch \<noteq> 0"
  shows "page_pos ch (Suc k) = page_pos ch k"
  using assms by (cases k) (auto simp: page_pos_def div_Suc mod_Suc split: if_splits)

lemma pbl_page_eq:
  "chain_layout mem ch pages \<Longrightarrow> mode ch = QED_CHAIN_MODE_PBL \<Longrightarrow> i < pcnt ch \<Longrightarrow>
   pbl_page ch i = pages ! i"
  by (simp add: chain_layout_def pbl_page_def)

text \<open>
  The code shared by \<open>produce\<close> and \<open>consume\<close>, at either width: the element it yields is
  the slot of the position, and the three updated objects describe the next position.
\<close>

definition chain_step ::
  "chain_mem \<Rightarrow> qed_chain \<Rightarrow> u64 \<Rightarrow> 'n::len word \<Rightarrow> 'n word \<Rightarrow> u64 \<times> 'n word \<times> 'n word" where
  "chain_step mem ch elem idx page =
     (if idx AND ucast (elem_per_page_mask ch) = ucast (next_page_mask ch)
      then qed_chain_advance_page mem ch elem idx page else (elem, idx, page))"

lemma chain_step_pos:
  fixes idx page :: "'n::len word"
  assumes wf: "chain_wf ch" and lay: "chain_layout mem ch pages"
    and n: "LENGTH('n) = idx_bits ch" and pos: "at_pos ch pages k elem idx page"
    and step: "chain_step mem ch elem idx page = (e, i, p)"
  shows "e = slot_addr ch pages k \<and> at_pos ch pages (Suc k) (e + ucast (elem_size ch)) (i + 1) p"
proof -
  have n16: "16 \<le> LENGTH('n)" and n32: "LENGTH('n) \<le> 32" using n idx_bits_range by auto
  have idx: "unat idx = lazy_idx (upp ch) (epp ch) k mod 2 ^ LENGTH('n)"
    and el: "elem = elem_ptr ch pages k"
    and pg: "mode ch = QED_CHAIN_MODE_PBL \<Longrightarrow> unat page = page_pos ch k"
    using pos by (auto simp: at_pos_def)
  note test = page_end_test [OF wf n16 pos]
  note next_idx = lazy_idx_next [OF wf n16 idx]
  consider (inside) "\<not> (k mod upp ch = 0 \<and> (mode ch = QED_CHAIN_MODE_NEXT_PTR \<longrightarrow> 0 < k))"
    | (next_ptr) "k mod upp ch = 0" "0 < k" "mode ch = QED_CHAIN_MODE_NEXT_PTR"
    | (single) "k mod upp ch = 0" "mode ch = QED_CHAIN_MODE_SINGLE"
    | (pbl) "k mod upp ch = 0" "mode ch = QED_CHAIN_MODE_PBL"
    by (cases "mode ch"; cases "k mod upp ch = 0") auto
  then have "e = slot_addr ch pages k \<and>
      unat (i + 1) = lazy_idx (upp ch) (epp ch) (Suc k) mod 2 ^ LENGTH('n) \<and>
      (mode ch = QED_CHAIN_MODE_PBL \<longrightarrow> unat p = page_pos ch (Suc k))"
  proof cases
    case inside
    then have "(e, i, p) = (elem, idx, page)" using step test by (auto simp: chain_step_def)
    then show ?thesis using inside el next_idx(2) pg
      by (auto simp: elem_ptr_inside page_pos_inside simp del: lazy_idx.simps)
  next
    case next_ptr
    then obtain j where j: "k = Suc j" by (cases k) auto
    have "j div upp ch mod pcnt ch < pcnt ch" using chain_wf_pos(3) [OF wf] by simp
    then show ?thesis using step test next_ptr next_idx(1) lay
      by (auto simp: chain_step_def qed_chain_advance_page_def el chain_layout_def
          elem_ptr_page_end [OF wf j] simp del: lazy_idx.simps)
  next
    case single
    then show ?thesis using step test next_idx(2) lay wf
      by (auto simp: chain_step_def qed_chain_advance_page_def chain_layout_def chain_wf_def
          slot_addr_def simp del: lazy_idx.simps)
  next
    case pbl
    let ?p = "if ucast (page + 1) = page_cnt ch then 0 else page + 1"
    have "unat ?p = page_pos ch (Suc k)"
      using next_page_wrap [of page ch] pg pbl(2) page_pos_less [OF wf] wf_pcnt_le [OF wf] n n32
      by (simp add: page_pos_step(1) [OF wf pbl(1)])
    moreover have "(e, i, p) = (pbl_page ch (unat ?p), idx, ?p)"
      using step test pbl by (auto simp: chain_step_def qed_chain_advance_page_def Let_def)
    ultimately show ?thesis
      using pbl next_idx(2) page_pos_less [OF wf] pbl_page_eq [OF lay]
      by (auto simp: page_pos_step(2) [OF wf pbl(1)] simp del: lazy_idx.simps)
  qed
  then show ?thesis by (simp add: at_pos_def elem_ptr_Suc del: lazy_idx.simps)
qed

section \<open>Geometry\<close>

text \<open>
  The part of a chain no operation of the fast path changes: everything but the indices and
  element pointers.
\<close>

definition geom :: "qed_chain \<Rightarrow> qed_chain" where
  "geom ch = ch\<lparr>p_prod_elem := 0, p_cons_elem := 0,
     pbl_u16 := \<lparr>prod_page_idx = 0, cons_page_idx = 0\<rparr>,
     pbl_u32 := \<lparr>prod_page_idx = 0, cons_page_idx = 0\<rparr>,
     chain16 := \<lparr>prod_idx = 0, cons_idx = 0\<rparr>,
     chain32 := \<lparr>prod_idx = 0, cons_idx = 0\<rparr>\<rparr>"

lemma geom_sel [simp]:
  "pp_virt_addr_tbl (geom ch) = pp_virt_addr_tbl ch" "capacity (geom ch) = capacity ch"
  "page_cnt (geom ch) = page_cnt ch" "mode (geom ch) = mode ch"
  "elem_per_page (geom ch) = elem_per_page ch"
  "elem_per_page_mask (geom ch) = elem_per_page_mask ch" "elem_size (geom ch) = elem_size ch"
  "next_page_mask (geom ch) = next_page_mask ch" "usable_per_page (geom ch) = usable_per_page ch"
  "elem_unusable (geom ch) = elem_unusable ch" "cnt_type (geom ch) = cnt_type ch"
  "p_virt_addr (geom ch) = p_virt_addr ch" "intended_use (geom ch) = intended_use ch"
  "page_size (geom ch) = page_size ch"
  by (simp_all add: geom_def)

lemma geom_eqD:
  assumes "geom ch = geom ch'"
  shows "pp_virt_addr_tbl ch = pp_virt_addr_tbl ch'" "capacity ch = capacity ch'"
    "page_cnt ch = page_cnt ch'" "mode ch = mode ch'" "elem_per_page ch = elem_per_page ch'"
    "elem_per_page_mask ch = elem_per_page_mask ch'" "elem_size ch = elem_size ch'"
    "next_page_mask ch = next_page_mask ch'" "usable_per_page ch = usable_per_page ch'"
    "elem_unusable ch = elem_unusable ch'" "cnt_type ch = cnt_type ch'"
    "p_virt_addr ch = p_virt_addr ch'" "intended_use ch = intended_use ch'"
  using assms by (metis geom_sel)+

lemma geom_cong:
  assumes "geom ch = geom ch'"
  shows "chain_wf ch = chain_wf ch'" "chain_layout mem ch pages = chain_layout mem ch' pages"
    "slot_addr ch = slot_addr ch'" "is_chain_u16 ch = is_chain_u16 ch'"
    "idx_bits ch = idx_bits ch'" "elem_ptr ch = elem_ptr ch'" "page_pos ch = page_pos ch'"
    "(at_pos ch pages k e (i :: 'n::len word) p) = (at_pos ch' pages k e i p)"
proof -
  note eqs = geom_eqD [OF assms]
  show u16: "is_chain_u16 ch = is_chain_u16 ch'" by (simp add: is_chain_u16_def eqs)
  show bits: "idx_bits ch = idx_bits ch'" by (simp add: idx_bits_def u16)
  show off: "chain_layout mem ch pages = chain_layout mem ch' pages"
    by (simp add: chain_layout_def next_elem_off_def eqs)
  show "chain_wf ch = chain_wf ch'" by (simp add: chain_wf_def eqs bits)
  show "slot_addr ch = slot_addr ch'" by (simp add: fun_eq_iff slot_addr_def eqs)
  show ep: "elem_ptr ch = elem_ptr ch'" by (simp add: fun_eq_iff elem_ptr_def eqs split: nat.split)
  show pp: "page_pos ch = page_pos ch'" by (simp add: fun_eq_iff page_pos_def eqs split: nat.split)
  show "(at_pos ch pages k e (i :: 'n::len word) p) = (at_pos ch' pages k e i p)"
    by (simp add: at_pos_def eqs ep pp)
qed

section \<open>Producing and consuming\<close>

lemma is_chain_u16_upd [simp]:
  "is_chain_u16 (ch\<lparr>p_prod_elem := x1\<rparr>) = is_chain_u16 ch"
  "is_chain_u16 (ch\<lparr>p_cons_elem := x2\<rparr>) = is_chain_u16 ch"
  "is_chain_u16 (ch\<lparr>pbl_u16 := x3\<rparr>) = is_chain_u16 ch"
  "is_chain_u16 (ch\<lparr>pbl_u32 := x4\<rparr>) = is_chain_u16 ch"
  "is_chain_u16 (ch\<lparr>chain16 := x5\<rparr>) = is_chain_u16 ch"
  "is_chain_u16 (ch\<lparr>chain32 := x6\<rparr>) = is_chain_u16 ch"
  by (simp_all add: is_chain_u16_def)

lemma at_pos_upd [simp]:
  "at_pos (ch\<lparr>p_prod_elem := x1\<rparr>) = at_pos ch"
  "at_pos (ch\<lparr>p_cons_elem := x2\<rparr>) = at_pos ch"
  "at_pos (ch\<lparr>pbl_u16 := x3\<rparr>) = at_pos ch"
  "at_pos (ch\<lparr>pbl_u32 := x4\<rparr>) = at_pos ch"
  "at_pos (ch\<lparr>chain16 := x5\<rparr>) = at_pos ch"
  "at_pos (ch\<lparr>chain32 := x6\<rparr>) = at_pos ch"
  by (simp_all add: fun_eq_iff at_pos_def elem_ptr_def page_pos_def split: nat.split)

lemma produce_geom [simp]: "geom (snd (qed_chain_produce mem ch)) = geom ch"
  by (simp add: geom_def qed_chain_produce_def Let_def split: prod.split)

lemma consume_geom [simp]: "geom (snd (qed_chain_consume mem ch)) = geom ch"
  by (simp add: geom_def qed_chain_consume_def Let_def split: prod.split)

lemma recycle_geom [simp]: "geom (qed_chain_recycle_consumed ch) = geom ch"
  by (simp add: geom_def qed_chain_recycle_consumed_def test_and_skip_prod_def Let_def)

lemma return_geom [simp]: "geom (qed_chain_return_produced ch) = geom ch"
  by (simp add: geom_def qed_chain_return_produced_def test_and_skip_cons_def Let_def)

lemma produce_unfold:
  "is_chain_u16 ch \<Longrightarrow>
     chain_step mem ch (p_prod_elem ch) (prod_idx (chain16 ch)) (prod_page_idx (pbl_u16 ch)) = (e, i, p) \<Longrightarrow>
     qed_chain_produce mem ch =
       (e, ch\<lparr>p_prod_elem := e + ucast (elem_size ch),
             pbl_u16 := (pbl_u16 ch)\<lparr>prod_page_idx := p\<rparr>,
             chain16 := (chain16 ch)\<lparr>prod_idx := i + 1\<rparr>\<rparr>)"
  "\<not> is_chain_u16 ch \<Longrightarrow>
     chain_step mem ch (p_prod_elem ch) (prod_idx (chain32 ch)) (prod_page_idx (pbl_u32 ch)) = (e', i', p') \<Longrightarrow>
     qed_chain_produce mem ch =
       (e', ch\<lparr>p_prod_elem := e' + ucast (elem_size ch),
             pbl_u32 := (pbl_u32 ch)\<lparr>prod_page_idx := p'\<rparr>,
             chain32 := (chain32 ch)\<lparr>prod_idx := i' + 1\<rparr>\<rparr>)"
  by (simp_all add: qed_chain_produce_def chain_step_def Let_def)

lemma consume_unfold:
  "is_chain_u16 ch \<Longrightarrow>
     chain_step mem ch (p_cons_elem ch) (cons_idx (chain16 ch)) (cons_page_idx (pbl_u16 ch)) = (e, i, p) \<Longrightarrow>
     qed_chain_consume mem ch =
       (e, ch\<lparr>p_cons_elem := e + ucast (elem_size ch),
             pbl_u16 := (pbl_u16 ch)\<lparr>cons_page_idx := p\<rparr>,
             chain16 := (chain16 ch)\<lparr>cons_idx := i + 1\<rparr>\<rparr>)"
  "\<not> is_chain_u16 ch \<Longrightarrow>
     chain_step mem ch (p_cons_elem ch) (cons_idx (chain32 ch)) (cons_page_idx (pbl_u32 ch)) = (e', i', p') \<Longrightarrow>
     qed_chain_consume mem ch =
       (e', ch\<lparr>p_cons_elem := e' + ucast (elem_size ch),
             pbl_u32 := (pbl_u32 ch)\<lparr>cons_page_idx := p'\<rparr>,
             chain32 := (chain32 ch)\<lparr>cons_idx := i' + 1\<rparr>\<rparr>)"
  by (simp_all add: qed_chain_consume_def chain_step_def Let_def)

lemma produce_pos:
  assumes wf: "chain_wf ch" and lay: "chain_layout mem ch pages" and pos: "prod_at ch pages k"
  shows "fst (qed_chain_produce mem ch) = slot_addr ch pages k"
    and "prod_at (snd (qed_chain_produce mem ch)) pages (Suc k)"
    and "cons_at (snd (qed_chain_produce mem ch)) pages c = cons_at ch pages c"
proof -
  have "fst (qed_chain_produce mem ch) = slot_addr ch pages k \<and>
    prod_at (snd (qed_chain_produce mem ch)) pages (Suc k) \<and>
    cons_at (snd (qed_chain_produce mem ch)) pages c = cons_at ch pages c"
  proof (cases "is_chain_u16 ch")
    case True
    obtain e i p where st: "chain_step mem ch (p_prod_elem ch) (prod_idx (chain16 ch))
        (prod_page_idx (pbl_u16 ch)) = (e, i, p)" by (metis prod_cases3)
    show ?thesis
      using chain_step_pos [OF wf lay _ _ st, of k] pos True
      by (auto simp: prod_at_def cons_at_def idx_bits_def produce_unfold(1) [OF True st])
  next
    case False
    obtain e i p where st: "chain_step mem ch (p_prod_elem ch) (prod_idx (chain32 ch))
        (prod_page_idx (pbl_u32 ch)) = (e, i, p)" by (metis prod_cases3)
    show ?thesis
      using chain_step_pos [OF wf lay _ _ st, of k] pos False
      by (auto simp: prod_at_def cons_at_def idx_bits_def produce_unfold(2) [OF False st])
  qed
  then show "fst (qed_chain_produce mem ch) = slot_addr ch pages k"
    "prod_at (snd (qed_chain_produce mem ch)) pages (Suc k)"
    "cons_at (snd (qed_chain_produce mem ch)) pages c = cons_at ch pages c" by auto
qed

lemma consume_pos:
  assumes wf: "chain_wf ch" and lay: "chain_layout mem ch pages" and pos: "cons_at ch pages k"
  shows "fst (qed_chain_consume mem ch) = slot_addr ch pages k"
    and "cons_at (snd (qed_chain_consume mem ch)) pages (Suc k)"
    and "prod_at (snd (qed_chain_consume mem ch)) pages c = prod_at ch pages c"
proof -
  have "fst (qed_chain_consume mem ch) = slot_addr ch pages k \<and>
    cons_at (snd (qed_chain_consume mem ch)) pages (Suc k) \<and>
    prod_at (snd (qed_chain_consume mem ch)) pages c = prod_at ch pages c"
  proof (cases "is_chain_u16 ch")
    case True
    obtain e i p where st: "chain_step mem ch (p_cons_elem ch) (cons_idx (chain16 ch))
        (cons_page_idx (pbl_u16 ch)) = (e, i, p)" by (metis prod_cases3)
    show ?thesis
      using chain_step_pos [OF wf lay _ _ st, of k] pos True
      by (auto simp: prod_at_def cons_at_def idx_bits_def consume_unfold(1) [OF True st])
  next
    case False
    obtain e i p where st: "chain_step mem ch (p_cons_elem ch) (cons_idx (chain32 ch))
        (cons_page_idx (pbl_u32 ch)) = (e, i, p)" by (metis prod_cases3)
    show ?thesis
      using chain_step_pos [OF wf lay _ _ st, of k] pos False
      by (auto simp: prod_at_def cons_at_def idx_bits_def consume_unfold(2) [OF False st])
  qed
  then show "fst (qed_chain_consume mem ch) = slot_addr ch pages k"
    "cons_at (snd (qed_chain_consume mem ch)) pages (Suc k)"
    "prod_at (snd (qed_chain_consume mem ch)) pages c = prod_at ch pages c" by auto
qed

section \<open>Index-only operations\<close>

text \<open>
  \<open>recycle_consumed\<close> moves the producer index only, \<open>return_produced\<close> the consumer
  index only; the element pointers stay.
\<close>

definition prod_idx_nat :: "qed_chain \<Rightarrow> nat" where
  "prod_idx_nat ch =
     (if is_chain_u16 ch then unat (prod_idx (chain16 ch)) else unat (prod_idx (chain32 ch)))"

definition cons_idx_nat :: "qed_chain \<Rightarrow> nat" where
  "cons_idx_nat ch =
     (if is_chain_u16 ch then unat (cons_idx (chain16 ch)) else unat (cons_idx (chain32 ch)))"

lemma prod_at_idx: "prod_at ch pages k \<Longrightarrow>
    prod_idx_nat ch = lazy_idx (upp ch) (epp ch) k mod 2 ^ idx_bits ch"
  by (auto simp: prod_at_def at_pos_def prod_idx_nat_def idx_bits_def)

lemma cons_at_idx: "cons_at ch pages k \<Longrightarrow>
    cons_idx_nat ch = lazy_idx (upp ch) (epp ch) k mod 2 ^ idx_bits ch"
  by (auto simp: cons_at_def at_pos_def cons_idx_nat_def idx_bits_def)

lemma unusable_test:
  fixes idx :: "'n::len word"
  assumes wf: "chain_wf ch" and n: "16 \<le> LENGTH('n)"
  shows "is_unusable_idx ch idx \<longleftrightarrow>
    mode ch = QED_CHAIN_MODE_NEXT_PTR \<and> unat idx mod epp ch = upp ch"
proof -
  have "is_unusable_idx ch idx \<longleftrightarrow> unat idx mod epp ch = upp ch"
    using n by (simp add: is_unusable_idx_def word_unat_eq_iff chain_wf_mask [OF wf] unat_ucast_le)
  moreover have "unat idx mod epp ch < epp ch" using chain_wf_pos(2) [OF wf] by simp
  ultimately show ?thesis using chain_wf_upp(2) [OF wf] by (metis less_irrefl)
qed

lemma recycle_word:
  fixes idx :: "'n::len word"
  assumes wf: "chain_wf ch" and n: "16 \<le> LENGTH('n)"
    and idx: "unat idx = lazy_idx (upp ch) (epp ch) k mod 2 ^ LENGTH('n)"
  shows "unat ((if is_unusable_idx ch idx then idx + ucast (elem_unusable ch) else idx) + 1) =
    lazy_idx (upp ch) (epp ch) (Suc k) mod 2 ^ LENGTH('n)"
proof -
  have "is_unusable_idx ch idx \<longleftrightarrow>
      mode ch = QED_CHAIN_MODE_NEXT_PTR \<and> 0 < k \<and> k mod upp ch = 0"
    using idx chain_wf_upp(1) [OF wf] chain_wf_pos [OF wf] n
    by (auto simp: unusable_test [OF wf n] mod_range_mod_epp [OF wf] lazy_idx_boundary
        simp del: lazy_idx.simps)
  then show ?thesis
    using lazy_idx_next [OF wf n idx] by (auto simp del: lazy_idx.simps)
qed

lemma recycle_idx:
  assumes wf: "chain_wf ch"
    and idx: "prod_idx_nat ch = lazy_idx (upp ch) (epp ch) k mod 2 ^ idx_bits ch"
  shows "prod_idx_nat (qed_chain_recycle_consumed ch) =
      lazy_idx (upp ch) (epp ch) (Suc k) mod 2 ^ idx_bits ch"
    and "cons_at (qed_chain_recycle_consumed ch) pages c = cons_at ch pages c"
proof -
  show "prod_idx_nat (qed_chain_recycle_consumed ch) =
      lazy_idx (upp ch) (epp ch) (Suc k) mod 2 ^ idx_bits ch"
    using recycle_word [OF wf, of "prod_idx (chain16 ch)" k]
      recycle_word [OF wf, of "prod_idx (chain32 ch)" k] idx
    by (auto simp: prod_idx_nat_def idx_bits_def qed_chain_recycle_consumed_def
        test_and_skip_prod_def Let_def simp del: lazy_idx.simps)
  show "cons_at (qed_chain_recycle_consumed ch) pages c = cons_at ch pages c"
    by (auto simp: cons_at_def qed_chain_recycle_consumed_def test_and_skip_prod_def Let_def)
qed

lemma eager_idx_step:
  assumes "0 < u" "u \<le> e"
  shows "eager_idx u e (Suc k) =
    (if Suc (k mod u) = u then Suc (eager_idx u e k) + (e - u) else Suc (eager_idx u e k))"
  using assms by (auto simp: eager_idx_def mod_Suc div_Suc)

lemma eager_idx_mod:
  assumes "0 < u" "u \<le> e"
  shows "Suc (eager_idx u e k) mod e = Suc (k mod u) mod e"
proof -
  have "Suc (eager_idx u e k) = Suc (k mod u) + (k div u) * e" by (simp add: eager_idx_def)
  then show ?thesis by (metis mod_mult_self1)
qed

lemma return_word:
  fixes idx :: "'n::len word"
  assumes wf: "chain_wf ch" and n: "16 \<le> LENGTH('n)"
    and idx: "unat idx = eager_idx (upp ch) (epp ch) k mod 2 ^ LENGTH('n)"
  shows "unat (if is_unusable_idx ch (idx + 1) then idx + 1 + ucast (elem_unusable ch) else idx + 1) =
    eager_idx (upp ch) (epp ch) (Suc k) mod 2 ^ LENGTH('n)"
proof -
  note pos = chain_wf_pos [OF wf]
  let ?E = "eager_idx (upp ch) (epp ch) k"
  have un: "unat (ucast (elem_unusable ch) :: 'n word) = epp ch - upp ch"
    using n by (simp add: unat_ucast_le chain_wf_upp(3) [OF wf])
  have i1: "unat (idx + 1) = Suc ?E mod 2 ^ LENGTH('n)"
    by (simp add: unat_Suc_mod idx mod_simps)
  have le: "Suc (k mod upp ch) \<le> upp ch" using pos(1) by (simp add: Suc_leI)
  have test: "is_unusable_idx ch (idx + 1) \<longleftrightarrow>
      mode ch = QED_CHAIN_MODE_NEXT_PTR \<and> Suc (k mod upp ch) = upp ch"
    using chain_wf_upp(1) [OF wf] le
    by (auto simp: unusable_test [OF wf n] i1 mod_range_mod_epp [OF wf n] eager_idx_mod [OF pos(1,4)])
  show ?thesis
  proof (cases "mode ch = QED_CHAIN_MODE_NEXT_PTR \<and> Suc (k mod upp ch) = upp ch")
    case True
    then show ?thesis using test
      by (simp add: unat_add_mod un idx eager_idx_step [OF pos(1,4)] mod_simps)
  next
    case False
    then have "eager_idx (upp ch) (epp ch) (Suc k) = Suc ?E"
      using chain_wf_upp(2) [OF wf] by (auto simp: eager_idx_step [OF pos(1,4)])
    then show ?thesis using test False i1 by simp
  qed
qed

lemma return_idx:
  assumes wf: "chain_wf ch"
    and idx: "cons_idx_nat ch = eager_idx (upp ch) (epp ch) k mod 2 ^ idx_bits ch"
  shows "cons_idx_nat (qed_chain_return_produced ch) =
      eager_idx (upp ch) (epp ch) (Suc k) mod 2 ^ idx_bits ch"
    and "prod_at (qed_chain_return_produced ch) pages c = prod_at ch pages c"
proof -
  have t: "is_unusable_idx (ch\<lparr>chain16 := a\<rparr>) = (is_unusable_idx ch :: u16 \<Rightarrow> bool)"
    "is_unusable_idx (ch\<lparr>chain32 := b\<rparr>) = (is_unusable_idx ch :: u32 \<Rightarrow> bool)" for a b
    by (simp_all add: fun_eq_iff is_unusable_idx_def)
  show "cons_idx_nat (qed_chain_return_produced ch) =
      eager_idx (upp ch) (epp ch) (Suc k) mod 2 ^ idx_bits ch"
    using return_word [OF wf, of "cons_idx (chain16 ch)" k]
      return_word [OF wf, of "cons_idx (chain32 ch)" k] idx
    by (auto simp: cons_idx_nat_def idx_bits_def qed_chain_return_produced_def
        test_and_skip_cons_def Let_def t)
  show "prod_at (qed_chain_return_produced ch) pages c = prod_at ch pages c"
    by (auto simp: prod_at_def qed_chain_return_produced_def test_and_skip_cons_def Let_def)
qed

section \<open>Reset\<close>

lemma recycle_n:
  assumes "chain_wf ch" "prod_idx_nat ch = lazy_idx (upp ch) (epp ch) k mod 2 ^ idx_bits ch"
  shows "geom ((qed_chain_recycle_consumed ^^ n) ch) = geom ch \<and>
    prod_idx_nat ((qed_chain_recycle_consumed ^^ n) ch) =
      lazy_idx (upp ch) (epp ch) (k + n) mod 2 ^ idx_bits ch \<and>
    cons_at ((qed_chain_recycle_consumed ^^ n) ch) pages c = cons_at ch pages c"
proof (induction n)
  case 0
  then show ?case using assms by simp
next
  case (Suc n)
  let ?c = "(qed_chain_recycle_consumed ^^ n) ch"
  have g: "geom ?c = geom ch" using Suc.IH by blast
  then have wf: "chain_wf ?c" using assms(1) geom_cong(1) by blast
  have "prod_idx_nat ?c = lazy_idx (upp ?c) (epp ?c) (k + n) mod 2 ^ idx_bits ?c"
    using Suc.IH geom_eqD [OF g] geom_cong(5) [OF g] by (simp del: lazy_idx.simps)
  from recycle_idx [OF wf this] show ?case
    using Suc.IH geom_eqD [OF g] geom_cong(5) [OF g] by (simp del: lazy_idx.simps)
qed

lemma reset_indices_geom [simp]: "geom (chain_reset_indices ch) = geom ch"
  by (simp add: chain_reset_indices_def Let_def geom_def)

lemma reset_geom [simp]: "geom (qed_chain_reset ch) = geom ch"
proof -
  have "geom ((qed_chain_recycle_consumed ^^ n) c) = geom c" for n c
    by (induction n) auto
  then show ?thesis by (simp add: qed_chain_reset_def Let_def split: qed_chain_use_mode.split)
qed

lemma unat_page_cnt_minus1: "0 < pcnt ch \<Longrightarrow> unat (page_cnt ch - 1) = pcnt ch - 1"
  by (metis Suc_leI One_nat_def unat_gt_0 unat_minus_one)

lemma reset_indices_at_0:
  assumes wf: "chain_wf ch" and va: "p_virt_addr ch = pages ! 0"
  shows "prod_at (chain_reset_indices ch) pages 0" "cons_at (chain_reset_indices ch) pages 0"
proof -
  have pc: "0 < pcnt ch" using chain_wf_pos(3) [OF wf] .
  have m: "is_chain_u16 ch \<Longrightarrow> (pcnt ch - 1) mod 65536 = pcnt ch - 1"
    using wf_pcnt_le [OF wf] pc by (simp add: idx_bits_def)
  show "prod_at (chain_reset_indices ch) pages 0" "cons_at (chain_reset_indices ch) pages 0"
    using va m
    by (auto simp: chain_reset_indices_def Let_def prod_at_def cons_at_def at_pos_def elem_ptr_def
        page_pos_def unat_page_cnt_minus1 [OF pc] unat_ucast_mod)
qed

lemma reset_at_0:
  assumes "chain_wf ch" "p_virt_addr ch = pages ! 0"
    and "intended_use ch \<noteq> QED_CHAIN_USE_TO_CONSUME"
  shows "prod_at (qed_chain_reset ch) pages 0" "cons_at (qed_chain_reset ch) pages 0"
  using reset_indices_at_0 [OF assms(1,2)] assms(3) geom_eqD(13) [OF reset_indices_geom]
  by (auto simp: qed_chain_reset_def Let_def split: qed_chain_use_mode.split)

text \<open>A chain the device fills starts with every usable element handed over.\<close>

lemma reset_full:
  assumes wf: "chain_wf ch" and va: "p_virt_addr ch = pages ! 0"
    and use: "intended_use ch = QED_CHAIN_USE_TO_CONSUME"
  shows "cons_at (qed_chain_reset ch) pages 0"
    and "prod_idx_nat (qed_chain_reset ch) =
      lazy_idx (upp ch) (epp ch) (upp ch * pcnt ch) mod 2 ^ idx_bits ch"
proof -
  let ?c = "chain_reset_indices ch"
  note g = reset_indices_geom [of ch]
  note eqs = geom_eqD [OF g]
  have cwf: "chain_wf ?c" using wf geom_cong(1) [OF g] by simp
  note at0 = reset_indices_at_0 [OF wf va]
  have r: "qed_chain_reset ch = (qed_chain_recycle_consumed ^^ unat (capacity ch)) ?c"
    using use eqs by (simp add: qed_chain_reset_def Let_def)
  have cap: "unat (capacity ch) = upp ch * pcnt ch" using wf by (simp add: chain_wf_def)
  have rn: "prod_idx_nat (qed_chain_reset ch) =
        lazy_idx (upp ?c) (epp ?c) (upp ch * pcnt ch) mod 2 ^ idx_bits ?c \<and>
      cons_at (qed_chain_reset ch) pages 0 = cons_at ?c pages 0"
    using recycle_n [OF cwf, of 0 "upp ch * pcnt ch" pages 0] prod_at_idx [OF at0(1)]
    by (simp add: r cap)
  then show "cons_at (qed_chain_reset ch) pages 0" using at0(2) by simp
  show "prod_idx_nat (qed_chain_reset ch) =
      lazy_idx (upp ch) (epp ch) (upp ch * pcnt ch) mod 2 ^ idx_bits ch"
    using rn eqs geom_cong(5) [OF g] by simp
qed

end
