(* ===== verification/Qed_Chain_Props.thy ===== *)
theory Qed_Chain_Props
  imports Qed_Chain_Correct
begin

text \<open>
  What the chain promises its users: the order in which elements are handed out, the
  number of free elements, rewinding, the element lookups and the state an
  initialisation leaves.
\<close>

section \<open>Interleaved use\<close>

datatype chain_op = Produce | Consume

text \<open>
  A run of the fast path: the elements handed out to the producer, those handed out to the
  consumer, and the chain at the end.
\<close>

fun chain_run ::
  "chain_mem \<Rightarrow> chain_op list \<Rightarrow> qed_chain \<Rightarrow> u64 list \<times> u64 list \<times> qed_chain" where
  "chain_run mem [] ch = ([], [], ch)"
| "chain_run mem (Produce # ops) ch =
     (let (e, ch1) = qed_chain_produce mem ch; (ps, cs, ch2) = chain_run mem ops ch1
      in (e # ps, cs, ch2))"
| "chain_run mem (Consume # ops) ch =
     (let (e, ch1) = qed_chain_consume mem ch; (ps, cs, ch2) = chain_run mem ops ch1
      in (ps, e # cs, ch2))"

lemma chain_run_slots:
  assumes "chain_wf ch" "chain_layout mem ch pages" "prod_at ch pages p" "cons_at ch pages c"
    and "chain_run mem ops ch = (ps, cs, ch')"
  shows "ps = map (slot_addr ch pages) [p..<p + length ps] \<and>
    cs = map (slot_addr ch pages) [c..<c + length cs] \<and>
    prod_at ch' pages (p + length ps) \<and> cons_at ch' pages (c + length cs) \<and>
    geom ch' = geom ch"
  using assms
proof (induction ops arbitrary: ch p c ps cs)
  case Nil
  then show ?case by auto
next
  case (Cons op ops)
  show ?case
  proof (cases op)
    case Produce
    obtain e ch1 where pr: "qed_chain_produce mem ch = (e, ch1)" by fastforce
    have g: "geom ch1 = geom ch" using produce_geom [of mem ch] pr by simp
    obtain ps1 where run: "chain_run mem ops ch1 = (ps1, cs, ch')" and ps: "ps = e # ps1"
      using Cons.prems(5) pr Produce by (auto simp: Let_def split: prod.splits)
    have pos: "e = slot_addr ch pages p" "prod_at ch1 pages (Suc p)" "cons_at ch1 pages c"
      using produce_pos(1,2) [OF Cons.prems(1-3)] produce_pos(3) [OF Cons.prems(1-3), of c] pr Cons.prems(4) by auto
    from Cons.IH [OF _ _ pos(2,3) run] Cons.prems(1,2) show ?thesis
      using ps pos(1) g geom_cong(1-3) [OF g] by (simp add: upt_conv_Cons del: upt_Suc)
  next
    case Consume
    obtain e ch1 where pr: "qed_chain_consume mem ch = (e, ch1)" by fastforce
    have g: "geom ch1 = geom ch" using consume_geom [of mem ch] pr by simp
    obtain cs1 where run: "chain_run mem ops ch1 = (ps, cs1, ch')" and cs: "cs = e # cs1"
      using Cons.prems(5) pr Consume by (auto simp: Let_def split: prod.splits)
    have pos: "e = slot_addr ch pages c" "prod_at ch1 pages p" "cons_at ch1 pages (Suc c)"
      using consume_pos(1,2) [OF Cons.prems(1,2,4)] consume_pos(3) [OF Cons.prems(1,2,4), of p] pr Cons.prems(3) by auto
    from Cons.IH [OF _ _ pos(2,3) run] Cons.prems(1,2) show ?thesis
      using cs pos(1) g geom_cong(1-3) [OF g] by (simp add: upt_conv_Cons del: upt_Suc)
  qed
qed

section \<open>Free elements\<close>

lemma ring_diff:
  fixes M e :: nat
  assumes "e dvd M" "0 < e" "C \<le> P" "P - C < M"
  defines "pr \<equiv> (if P mod M < C mod M then P mod M + M else P mod M)"
  shows "C mod M \<le> pr" "pr - C mod M = P - C" "pr div e - C mod M div e = P div e - C div e"
proof -
  define d where "d = P - C"
  have P: "P = C + d" and d: "d < M" using assms(3,4) by (auto simp: d_def)
  have c: "C mod M < M" using assms(4) by simp
  have "P mod M = (C mod M + d) mod M" by (simp add: P mod_add_left_eq)
  also have "\<dots> = (if C mod M + d < M then C mod M + d else C mod M + d - M)"
  proof -
    have "C mod M + d - M < M" using c d by linarith
    then show ?thesis by (simp add: le_mod_geq)
  qed
  finally have "P mod M = (if C mod M + d < M then C mod M + d else C mod M + d - M)" .
  then have pr: "pr = C mod M + d" using c d by (auto simp: pr_def)
  then show "C mod M \<le> pr" "pr - C mod M = P - C" by (simp_all add: P)
  obtain m where m: "M = e * m" using assms(1) by blast
  have C: "C = e * (m * (C div M)) + C mod M" by (metis m mult.assoc mult_div_mod_eq)
  have "C div e = m * (C div M) + C mod M div e"
    using assms(2) C by (metis div_mult_self4 less_not_refl2)
  moreover have "P = e * (m * (C div M)) + pr" using C by (simp add: P pr)
  then have "P div e = m * (C div M) + pr div e"
    using assms(2) by (metis div_mult_self4 less_not_refl2)
  ultimately show "pr div e - C mod M div e = P div e - C div e" by simp
qed

text \<open>
  \<open>ring_used\<close> is what the code counts as used, for unbounded indices \<open>P\<close> of the producer and
  \<open>C\<close> of the consumer: their distance, less one per page boundary between them where the
  pages end in a next pointer.
\<close>

definition ring_used :: "qed_chain \<Rightarrow> nat \<Rightarrow> nat \<Rightarrow> nat" where
  "ring_used ch P C =
     (P - C) - (if mode ch = QED_CHAIN_MODE_NEXT_PTR then P div epp ch - C div epp ch else 0)"

lemma div_diff_le:
  fixes P C e :: nat
  assumes "0 < e" "C \<le> P"
  shows "P div e - C div e \<le> P - C"
proof -
  obtain d where P: "P = C + d" using assms(2) le_Suc_ex by blast
  have "d \<le> e * d" using assms(1) by simp
  then have "(C + d) div e \<le> (C + e * d) div e" by (intro div_le_mono) simp
  also have "\<dots> = C div e + d" using assms(1) by simp
  finally show ?thesis by (simp add: P)
qed

lemma int_unat_diff:
  "int (unat (a - b)) = (int (unat a) - int (unat b)) mod 2 ^ LENGTH('n)" for a b :: "'n::len word"
  by (simp add: uint_word_ariths)

lemma elem_left_u16_gen:
  assumes wf: "chain_wf ch" and le: "C \<le> P" "P - C < 2 ^ 16"
    and p: "unat (prod_idx (chain16 ch)) = P mod 2 ^ 16"
    and c: "unat (cons_idx (chain16 ch)) = C mod 2 ^ 16"
  shows "int (unat (qed_chain_get_elem_left ch)) = (int (unat (capacity ch)) - int (ring_used ch P C)) mod 2 ^ 16"
proof -
  let ?M = "2 ^ 16 :: nat"
  define pr where "pr = (if P mod ?M < C mod ?M then P mod ?M + ?M else P mod ?M)"
  define prod0 where "prod0 = (ucast (prod_idx (chain16 ch)) :: u32)"
  define cons where "cons = (ucast (cons_idx (chain16 ch)) :: u32)"
  define prod where "prod = (if prod0 < cons then prod0 + (0xffff + 1) else prod0)"
  define ep where "ep = (ucast (elem_per_page ch) :: u32)"
  note rd = ring_diff [OF epp_dvd_range [OF wf order_refl] chain_wf_pos(2) [OF wf] le, folded pr_def]
  have p0: "unat prod0 = P mod ?M" and co: "unat cons = C mod ?M" and e: "unat ep = epp ch"
    using p c by (simp_all add: prod0_def cons_def ep_def unat_ucast_le)
  have lt: "P mod ?M < ?M" "C mod ?M < ?M" by simp_all
  have pu: "unat prod = pr"
    using p0 co lt by (auto simp: prod_def pr_def word_less_nat_alt unat_add_mod)
  have le32: "cons \<le> prod" using rd(1) by (simp add: word_le_nat_alt pu co)
  have d: "unat (prod - cons) = P - C"
    using le32 rd(2) by (simp add: unat_sub pu co)
  have dv: "unat (prod div ep - cons div ep) = P div epp ch - C div epp ch"
  proof -
    have "cons div ep \<le> prod div ep"
      using le32 by (simp add: word_le_nat_alt unat_div div_le_mono)
    then show ?thesis using rd(3) by (simp add: unat_sub unat_div pu co e)
  qed
  have u0: "unat (ucast (prod - cons) :: u16) = P - C" using d le by (simp add: unat_ucast_mod)
  define used16 where "used16 = (if mode ch = QED_CHAIN_MODE_NEXT_PTR
      then ucast (ucast (ucast (prod - cons) :: u16) - (prod div ep - cons div ep))
      else (ucast (prod - cons) :: u16))"
  have "unat (ucast (ucast (prod - cons) :: u16) - (prod div ep - cons div ep) :: u32) =
      (P - C) - (P div epp ch - C div epp ch)"
    using div_diff_le [OF chain_wf_pos(2) [OF wf] le(1)] u0 dv
    by (subst unat_sub) (simp_all add: word_le_nat_alt unat_ucast_le)
  then have us: "unat used16 = ring_used ch P C"
    using u0 le by (auto simp: used16_def ring_used_def unat_ucast_mod)
  have "qed_chain_get_elem_left ch = ucast (capacity ch - ucast used16)"
    by (simp add: qed_chain_get_elem_left_def Let_def used16_def prod_def prod0_def cons_def ep_def)
  moreover have "int (unat (capacity ch - ucast used16)) = (int (unat (capacity ch)) - int (ring_used ch P C)) mod 2 ^ 32"
    using us by (simp only: int_unat_diff) (simp add: unat_ucast_le)
  ultimately show ?thesis by (simp add: unat_ucast_mod zmod_int mod_mod_cancel)
qed

lemma elem_left_u32_gen:
  assumes wf: "chain_wf ch" and le: "C \<le> P" "P - C < 2 ^ 32"
    and p: "unat (prod_idx (chain32 ch)) = P mod 2 ^ 32"
    and c: "unat (cons_idx (chain32 ch)) = C mod 2 ^ 32"
  shows "int (unat (qed_chain_get_elem_left_u32 ch)) = (int (unat (capacity ch)) - int (ring_used ch P C)) mod 2 ^ 32"
proof -
  let ?M = "2 ^ 32 :: nat"
  define pr where "pr = (if P mod ?M < C mod ?M then P mod ?M + ?M else P mod ?M)"
  define prod0 where "prod0 = (ucast (prod_idx (chain32 ch)) :: u64)"
  define cons where "cons = (ucast (cons_idx (chain32 ch)) :: u64)"
  define prod where "prod = (if prod0 < cons then prod0 + (0xffffffff + 1) else prod0)"
  define ep where "ep = (ucast (elem_per_page ch) :: u64)"
  have dvd: "epp ch dvd 2 ^ 32" by (rule epp_dvd_range [OF wf]) simp
  note rd = ring_diff [OF dvd chain_wf_pos(2) [OF wf] le, folded pr_def]
  have p0: "unat prod0 = P mod ?M" and co: "unat cons = C mod ?M" and e: "unat ep = epp ch"
    using p c by (simp_all add: prod0_def cons_def ep_def unat_ucast_le)
  have lt: "P mod ?M < ?M" "C mod ?M < ?M" by simp_all
  have pu: "unat prod = pr"
    using p0 co lt by (auto simp: prod_def pr_def word_less_nat_alt unat_add_mod)
  have le64: "cons \<le> prod" using rd(1) by (simp add: word_le_nat_alt pu co)
  have d: "unat (prod - cons) = P - C"
    using le64 rd(2) by (simp add: unat_sub pu co)
  have dv: "unat (prod div ep - cons div ep) = P div epp ch - C div epp ch"
  proof -
    have "cons div ep \<le> prod div ep"
      using le64 by (simp add: word_le_nat_alt unat_div div_le_mono)
    then show ?thesis using rd(3) by (simp add: unat_sub unat_div pu co e)
  qed
  note dle = div_diff_le [OF chain_wf_pos(2) [OF wf] le(1)]
  have u0: "unat (ucast (prod - cons) :: u32) = P - C" using d le by (simp add: unat_ucast_mod)
  have v0: "unat (ucast (prod div ep - cons div ep) :: u32) = P div epp ch - C div epp ch"
    using dv dle le(2) by (simp add: unat_ucast_mod)
  define used32 where "used32 = (if mode ch = QED_CHAIN_MODE_NEXT_PTR
      then ucast (prod - cons) - ucast (prod div ep - cons div ep) else (ucast (prod - cons) :: u32))"
  have us: "unat used32 = ring_used ch P C"
    using u0 v0 dle by (auto simp: used32_def ring_used_def unat_sub word_le_nat_alt)
  have "qed_chain_get_elem_left_u32 ch = capacity ch - used32"
    by (simp add: qed_chain_get_elem_left_u32_def Let_def used32_def prod_def prod0_def cons_def ep_def)
  then show ?thesis using us by (simp only: int_unat_diff) simp
qed

text \<open>
  The pages a position has left behind. On a chain with next pointers each of them has
  \<open>elem_unusable\<close> elements that are not handed out; the code takes off one per page.
\<close>

definition page_no :: "qed_chain \<Rightarrow> nat \<Rightarrow> nat" where
  "page_no ch k = (case k of 0 \<Rightarrow> 0 | Suc j \<Rightarrow> j div upp ch)"

lemma lazy_idx_div:
  assumes "0 < u" "u < e"
  shows "lazy_idx u e k div e = (case k of 0 \<Rightarrow> 0 | Suc j \<Rightarrow> j div u)"
proof (cases k)
  case (Suc j)
  have "Suc (j mod u) < e" using assms by (meson Suc_leI le_less_trans mod_less_divisor)
  moreover have "lazy_idx u e k = Suc (j mod u) + (j div u) * e" using Suc by simp
  ultimately show ?thesis using Suc assms by (simp only: div_mult_self1) simp
qed simp

lemma lazy_idx_pages:
  assumes wf: "chain_wf ch"
  shows "lazy_idx (upp ch) (epp ch) k = k + unat (elem_unusable ch) * page_no ch k"
proof (cases k)
  case (Suc j)
  have "epp ch = upp ch + unat (elem_unusable ch)" using wf by (simp add: chain_wf_def)
  then have "lazy_idx (upp ch) (epp ch) k = Suc (upp ch * (j div upp ch) + j mod upp ch) +
      unat (elem_unusable ch) * (j div upp ch)"
    using Suc by (simp add: algebra_simps)
  then show ?thesis by (simp add: Suc page_no_def)
qed (simp add: page_no_def)

lemma page_no_mono: "c \<le> p \<Longrightarrow> page_no ch c \<le> page_no ch p"
  by (auto simp: page_no_def div_le_mono split: nat.split)

lemma page_no_round:
  assumes "0 < upp ch" "p \<le> c + upp ch * n"
  shows "page_no ch p \<le> page_no ch c + n"
proof (cases c)
  case 0
  then show ?thesis using assms
    by (auto simp: page_no_def split: nat.split)
      (metis Suc_leD div_le_mono nonzero_mult_div_cancel_left not_less0)
next
  case (Suc j)
  have "page_no ch p \<le> page_no ch (c + upp ch * n)" by (rule page_no_mono [OF assms(2)])
  also have "\<dots> = page_no ch c + n" using Suc assms(1) by (simp add: page_no_def)
  finally show ?thesis .
qed

lemma lazy_idx_mono:
  assumes "0 < u" "u \<le> e" "c \<le> p"
  shows "lazy_idx u e c \<le> lazy_idx u e p"
  using assms(3)
proof (induction p rule: dec_induct)
  case (step n)
  then show ?case using lazy_idx_step [OF assms(1,2), of n] by (simp del: lazy_idx.simps split: if_splits)
qed simp

text \<open>Within one round of the chain, the unbounded indices differ by at most its size.\<close>

lemma lazy_idx_round:
  assumes "0 < u" "u \<le> e"
  shows "lazy_idx u e (c + u * n) \<le> lazy_idx u e c + e * n"
proof (cases c)
  case 0
  show ?thesis
  proof (cases "u * n")
    case (Suc j)
    then obtain m where n: "n = Suc m" by (cases n) auto
    then have j: "j = (u - 1) + m * u" using Suc assms by (simp add: algebra_simps)
    have "j div u = m + (u - 1) div u" "j mod u = (u - 1) mod u"
      unfolding j using assms by (simp_all only: div_mult_self1 mod_mult_self1)
    then have "j div u = m" "j mod u = u - 1" using assms by simp_all
    then show ?thesis using 0 Suc n assms by (simp add: algebra_simps)
  qed (use 0 assms in auto)
next
  case (Suc j)
  then show ?thesis using assms by (simp add: algebra_simps)
qed

lemma ring_used_count:
  assumes wf: "chain_wf ch" and le: "c \<le> p"
  shows "int (ring_used ch (lazy_idx (upp ch) (epp ch) p) (lazy_idx (upp ch) (epp ch) c)) =
    int (p - c) + (if mode ch = QED_CHAIN_MODE_NEXT_PTR
      then (int (unat (elem_unusable ch)) - 1) * int (page_no ch p - page_no ch c) else 0)"
proof (cases "mode ch = QED_CHAIN_MODE_NEXT_PTR")
  case True
  note pos = chain_wf_pos [OF wf]
  let ?P = "lazy_idx (upp ch) (epp ch) p" and ?C = "lazy_idx (upp ch) (epp ch) c"
  let ?x = "unat (elem_unusable ch)"
  define d where "d = page_no ch p - page_no ch c"
  have pd: "page_no ch p = page_no ch c + d" using page_no_mono [OF le] by (simp add: d_def)
  have pd2: "p = c + (p - c)" using le by simp
  have dv: "?P div epp ch = page_no ch p" "?C div epp ch = page_no ch c"
    using lazy_idx_div [OF pos(1) chain_wf_upp(1) [OF wf True]] by (simp_all add: page_no_def)
  have diff: "?P - ?C = (p - c) + ?x * d"
    unfolding lazy_idx_pages [OF wf] pd by (subst pd2) (simp add: algebra_simps)
  have x: "1 \<le> ?x" using chain_wf_upp(1,3) [OF wf] True by linarith
  then have "d \<le> (p - c) + ?x * d" by (metis le_add2 le_trans mult_le_mono1 nat_mult_1)
  then show ?thesis using True unfolding ring_used_def dv diff
    by (simp add: pd of_nat_diff left_diff_distrib)
next
  case False
  then show ?thesis
    using chain_wf_upp(2) [OF wf] chain_wf_pos(2) [OF wf]
    by (simp add: ring_used_def lazy_idx_full)
qed

text \<open>The indices fit the range unless the chain is as large as the range and full.\<close>

lemma chain_window:
  assumes wf: "chain_wf ch" and "c \<le> p" "p \<le> c + unat (capacity ch)"
    and small: "epp ch * pcnt ch < 2 ^ idx_bits ch \<or> p < c + unat (capacity ch)"
  shows "lazy_idx (upp ch) (epp ch) c \<le> lazy_idx (upp ch) (epp ch) p"
    and "lazy_idx (upp ch) (epp ch) p - lazy_idx (upp ch) (epp ch) c < 2 ^ idx_bits ch"
proof -
  note pos = chain_wf_pos [OF wf]
  show le: "lazy_idx (upp ch) (epp ch) c \<le> lazy_idx (upp ch) (epp ch) p"
    using pos assms(2) by (intro lazy_idx_mono)
  have cap: "unat (capacity ch) = upp ch * pcnt ch" and M: "epp ch * pcnt ch \<le> 2 ^ idx_bits ch"
    using wf by (simp_all add: chain_wf_def)
  have r: "lazy_idx (upp ch) (epp ch) (c + upp ch * pcnt ch) \<le> lazy_idx (upp ch) (epp ch) c + epp ch * pcnt ch"
    using pos by (intro lazy_idx_round)
  have m: "lazy_idx (upp ch) (epp ch) k \<le> lazy_idx (upp ch) (epp ch) (c + upp ch * pcnt ch)"
    if "k \<le> c + upp ch * pcnt ch" for k
    using pos that by (intro lazy_idx_mono)
  show "lazy_idx (upp ch) (epp ch) p - lazy_idx (upp ch) (epp ch) c < 2 ^ idx_bits ch"
  proof (cases "epp ch * pcnt ch < 2 ^ idx_bits ch")
    case True
    then show ?thesis using m [of p] r assms(3) cap by linarith
  next
    case False
    then have "Suc p \<le> c + upp ch * pcnt ch" using small cap by simp
    moreover have "lazy_idx (upp ch) (epp ch) p < lazy_idx (upp ch) (epp ch) (Suc p)"
      using lazy_idx_step [OF pos(1,4), of p] by (simp del: lazy_idx.simps)
    ultimately show ?thesis using m [of "Suc p"] r M le by linarith
  qed
qed

text \<open>
  What the code reports, on every well-formed chain: the free elements less, on a chain with next
  pointers, one for each unusable element after the first of every page end between the two
  positions, reduced to the width of the index.
\<close>

definition elem_left_nat :: "qed_chain \<Rightarrow> nat" where
  "elem_left_nat ch =
     (if is_chain_u16 ch then unat (qed_chain_get_elem_left ch) else unat (qed_chain_get_elem_left_u32 ch))"

lemma elem_left_gen:
  assumes wf: "chain_wf ch" and le: "c \<le> p" "p \<le> c + unat (capacity ch)"
    and small: "epp ch * pcnt ch < 2 ^ idx_bits ch \<or> p < c + unat (capacity ch)"
    and P: "prod_idx_nat ch = lazy_idx (upp ch) (epp ch) p mod 2 ^ idx_bits ch"
    and C: "cons_idx_nat ch = lazy_idx (upp ch) (epp ch) c mod 2 ^ idx_bits ch"
  shows "int (elem_left_nat ch) =
    (int (unat (capacity ch) - (p - c)) - (if mode ch = QED_CHAIN_MODE_NEXT_PTR
      then (int (unat (elem_unusable ch)) - 1) * int (page_no ch p - page_no ch c) else 0)) mod 2 ^ idx_bits ch"
proof -
  note win = chain_window [OF wf le small]
  define P' C' where "P' = lazy_idx (upp ch) (epp ch) p" "C' = lazy_idx (upp ch) (epp ch) c"
  have "int (elem_left_nat ch) = (int (unat (capacity ch)) - int (ring_used ch P' C')) mod 2 ^ idx_bits ch"
    using elem_left_u16_gen [OF wf, of C' P'] elem_left_u32_gen [OF wf, of C' P'] win P C
    by (auto simp: elem_left_nat_def idx_bits_def prod_idx_nat_def cons_idx_nat_def simp flip: P'_C'_def)
  moreover have "int (unat (capacity ch) - (p - c)) = int (unat (capacity ch)) - int (p - c)"
    using le by simp
  ultimately show ?thesis unfolding P'_C'_def ring_used_count [OF wf le(1)] by (simp only: diff_diff_eq)
qed

lemma elem_left_exact:
  assumes wf: "chain_wf ch" and le: "c \<le> p" "p \<le> c + unat (capacity ch)"
    and small: "epp ch * pcnt ch < 2 ^ idx_bits ch \<or> p < c + unat (capacity ch)"
    and P: "prod_idx_nat ch = lazy_idx (upp ch) (epp ch) p mod 2 ^ idx_bits ch"
    and C: "cons_idx_nat ch = lazy_idx (upp ch) (epp ch) c mod 2 ^ idx_bits ch"
  defines "free \<equiv> unat (capacity ch) - (p - c)"
  shows "elem_left_nat ch = free \<longleftrightarrow>
    (unat (elem_unusable ch) \<le> 1 \<or> page_no ch p = page_no ch c) \<and> free < 2 ^ idx_bits ch"
proof -
  define M :: int where "M = 2 ^ idx_bits ch"
  define x where "x = unat (elem_unusable ch)"
  define d where "d = page_no ch p - page_no ch c"
  define k where "k = (if mode ch = QED_CHAIN_MODE_NEXT_PTR then (int x - 1) * int d else 0)"
  have g: "int (elem_left_nat ch) = (int free - k) mod M"
    using elem_left_gen [OF wf le small P C] by (simp add: free_def M_def k_def x_def d_def)
  have x0: "mode ch = QED_CHAIN_MODE_NEXT_PTR \<longleftrightarrow> x \<noteq> 0"
    using wf by (simp add: chain_wf_def x_def unat_eq_0)
  have xe: "upp ch + x = epp ch" "0 < upp ch" using wf by (simp_all add: chain_wf_def x_def)
  have d: "d \<le> pcnt ch"
    using page_no_round [OF xe(2), of p c "pcnt ch"] le(2) wf by (simp add: d_def chain_wf_def)
  have "(x - 1) * d \<le> (x - 1) * pcnt ch" using d by (rule mult_le_mono2)
  also have "\<dots> < epp ch * pcnt ch" using xe chain_wf_pos(3) [OF wf] by (intro mult_less_mono1) auto
  also have "\<dots> \<le> 2 ^ idx_bits ch" using wf by (simp add: chain_wf_def)
  finally have "int ((x - 1) * d) < M" unfolding M_def by (metis of_nat_less_iff of_nat_numeral of_nat_power)
  moreover have kk: "k = int ((x - 1) * d)" using x0 by (cases x) (simp_all add: k_def)
  ultimately have kM: "0 \<le> k" "k < M" by simp_all
  have dvd: "M dvd k \<longleftrightarrow> k = 0" using kM by (metis dvd_0_right zdvd_not_zless le_less)
  have "elem_left_nat ch = free \<longleftrightarrow> (int free - k) mod M = int free"
    unfolding g [symmetric] by simp
  also have "\<dots> \<longleftrightarrow> k = 0 \<and> int free < M"
  proof
    assume e: "(int free - k) mod M = int free"
    then have "int free < M" using kM by (metis pos_mod_bound le_less_trans)
    moreover have "M dvd int free - k - int free" by (metis e minus_mod_eq_mult_div dvd_triv_left)
    then have "M dvd k" by simp
    ultimately show "k = 0 \<and> int free < M" using dvd by simp
  qed simp
  also have "k = 0 \<longleftrightarrow> x \<le> 1 \<or> page_no ch p = page_no ch c"
    using page_no_mono [OF le(1), of ch] by (auto simp: kk d_def)
  also have "int free < M \<longleftrightarrow> free < 2 ^ idx_bits ch" unfolding M_def by (metis of_nat_less_iff of_nat_numeral of_nat_power)
  finally show ?thesis by (simp add: x_def)
qed

lemma elem_left_at:
  assumes wf: "chain_wf ch" and one: "unat (elem_unusable ch) \<le> 1"
    and small: "epp ch * pcnt ch < 2 ^ idx_bits ch"
    and le: "c \<le> p" "p \<le> c + unat (capacity ch)"
    and P: "prod_idx_nat ch = lazy_idx (upp ch) (epp ch) p mod 2 ^ idx_bits ch"
    and C: "cons_idx_nat ch = lazy_idx (upp ch) (epp ch) c mod 2 ^ idx_bits ch"
  shows "is_chain_u16 ch \<Longrightarrow> unat (qed_chain_get_elem_left ch) = unat (capacity ch) - (p - c)"
    and "\<not> is_chain_u16 ch \<Longrightarrow> unat (qed_chain_get_elem_left_u32 ch) = unat (capacity ch) - (p - c)"
proof -
  have "unat (capacity ch) \<le> epp ch * pcnt ch"
    using chain_wf_pos(4) [OF wf] wf by (simp add: chain_wf_def)
  then have "unat (capacity ch) - (p - c) < 2 ^ idx_bits ch" using small by linarith
  then have "elem_left_nat ch = unat (capacity ch) - (p - c)"
    using elem_left_exact [OF wf le disjI1 [OF small] P C] one by blast
  then show "is_chain_u16 ch \<Longrightarrow> unat (qed_chain_get_elem_left ch) = unat (capacity ch) - (p - c)"
    and "\<not> is_chain_u16 ch \<Longrightarrow> unat (qed_chain_get_elem_left_u32 ch) = unat (capacity ch) - (p - c)"
    by (simp_all add: elem_left_nat_def)
qed

end
