(* ===== verification/Qed_Chain_Rewind.thy ===== *)
theory Qed_Chain_Rewind
  imports Qed_Chain_Props
begin

text \<open>
  Rewinding a chain (\<open>qed_chain_set_prod\<close>, \<open>qed_chain_set_cons\<close>): the page index of a PBL
  chain is recomputed from the distance of the two indices. The lemmas show when it is the page
  of the new position: always, unless a 16 bit index wrapped between the two; then it depends
  on the number of pages.
\<close>

section \<open>The page distance\<close>

lemma page_diff_mod:
  assumes wf: "chain_wf ch" and E: "E = int (epp ch)"
    and cur: "cur = word_of_int a" and new: "new = word_of_int b"
  shows "uint (page_diff32 ch cur new) = (E * ((a - 1) div E - (b - 1) div E)) mod 2 ^ 32 div E"
proof -
  obtain k where k: "k \<le> 15" "epp ch = 2 ^ k" using chain_wf_pow [OF wf] by blast
  have Ek: "E = 2 ^ k" using E by (simp only: k(2)) simp
  let ?m = "ucast (elem_per_page_mask ch) :: u32"
  have m: "unat ?m = 2 ^ k - 1" using wf k by (simp add: unat_ucast_le chain_wf_def)
  have am: "word_of_int y AND ?m = word_of_int (y mod E)" for y
    unfolding Ek using k(1) by (intro word_of_int_and_mask [OF m]) simp
  have fl: "(word_of_int x - 1) AND page_mask32 ch = word_of_int (E * ((x - 1) div E))" for x
  proof -
    have "(word_of_int x - 1 :: u32) = word_of_int (x - 1)" by simp
    then have "(word_of_int x - 1) AND page_mask32 ch =
        word_of_int (x - 1) - word_of_int ((x - 1) mod E)"
      by (simp only: page_mask32_def and_not_eq_minus am)
    also have "\<dots> = word_of_int ((x - 1) - (x - 1) mod E)" by (rule wi_hom_sub)
    also have "(x - 1) - (x - 1) mod E = E * ((x - 1) div E)" by (rule minus_mod_eq_mult_div)
    finally show ?thesis .
  qed
  have "((cur - 1) AND page_mask32 ch) - ((new - 1) AND page_mask32 ch) =
      word_of_int (E * ((a - 1) div E - (b - 1) div E))"
    by (simp only: cur new fl wi_hom_sub right_diff_distrib)
  moreover have "uint (ucast (elem_per_page ch) :: u32) = E"
    using unat_ucast_le [of "elem_per_page ch", where 'b = 32] by (simp only: uint_nat E) simp
  ultimately show ?thesis
    by (simp only: page_diff32_def uint_div_distrib uint_word_of_int) simp
qed

lemma page_diff_eq:
  assumes wf: "chain_wf ch" and E: "E = int (epp ch)"
    and cur: "cur = word_of_int a" and new: "new = word_of_int b"
    and le: "b \<le> a" and small: "a - b + E \<le> 2 ^ 32"
  shows "unat (page_diff32 ch cur new) = nat ((a - 1) div E - (b - 1) div E)"
proof -
  define D where "D = (a - 1) div E - (b - 1) div E"
  have E0: "0 < E" using chain_wf_pos(2) [OF wf] E by linarith
  have D: "0 \<le> D" "E * D < 2 ^ 32"
    using floor_window [OF E0, of "b - 1" "a - 1"] le small unfolding D_def by linarith+
  then have "(E * D) mod 2 ^ 32 = E * D" using E0 by (intro mod_pos_pos_trivial) simp_all
  then have "uint (page_diff32 ch cur new) = D"
    using page_diff_mod [OF wf E cur new, folded D_def] E0 by simp
  then show ?thesis by (simp only: unat_eq_nat_uint D_def)
qed

text \<open>
  Across a wrap of a 16 bit index the new index is the larger 32 bit value: the distance is taken
  modulo \<open>2 ^ 32\<close>.
\<close>

lemma page_diff_wrap:
  assumes wf: "chain_wf ch" and E: "E = int (epp ch)"
    and cur: "cur = word_of_int a" and new: "new = word_of_int b"
    and D: "D = (a - 1) div E - (b - 1) div E" "D < 0" "- (2 ^ 32) \<le> E * D"
  shows "uint (page_diff32 ch cur new) = 2 ^ 32 div E + D"
proof -
  have E0: "0 < E" using chain_wf_pos(2) [OF wf] E by linarith
  have "E * D < 0" using E0 D(2) by (simp add: mult_pos_neg)
  then have r: "(E * D) mod 2 ^ 32 = 2 ^ 32 + E * D"
    using D(3) mod_pos_pos_trivial [of "2 ^ 32 + E * D" "2 ^ 32"] by simp
  have "uint (page_diff32 ch cur new) = (2 ^ 32 + E * D) div E"
    unfolding page_diff_mod [OF wf E cur new, folded D(1)] r ..
  also have "\<dots> = 2 ^ 32 div E + D" using E0 by (simp only: div_mult_self2)
  finally show ?thesis .
qed

lemma page_pos_int:
  assumes wf: "chain_wf ch"
  shows "int (page_pos ch k) = ((int k - 1) div int (upp ch)) mod int (pcnt ch)"
proof (cases k)
  case 0
  have "- 1 div int (upp ch) = - 1" using chain_wf_pos(1) [OF wf] by (intro div_eq_minus1) linarith
  moreover have "- 1 mod int (pcnt ch) = int (pcnt ch) - 1"
    using chain_wf_pos(3) [OF wf] by (intro zmod_minus1) linarith
  ultimately show ?thesis using 0 chain_wf_pos(3) [OF wf] by (simp add: page_pos_def of_nat_diff)
next
  case (Suc j)
  then show ?thesis by (simp add: page_pos_def zdiv_int zmod_int)
qed

lemma rewind_page:
  fixes page diff :: u32
  assumes wf: "chain_wf ch" and pg: "unat page = page_pos ch p"
    and D: "unat diff = nat ((int p - 1) div int (upp ch) - (int q - 1) div int (upp ch))"
    and le: "q \<le> p" "p \<le> q + upp ch * pcnt ch" and two: "2 * pcnt ch \<le> 2 ^ 32"
  shows "unat ((page - diff + page_cnt ch) mod page_cnt ch) = page_pos ch q"
proof -
  define e where "e = int (upp ch)"
  define c where "c = int (pcnt ch)"
  define d where "d = (int p - 1) div e - (int q - 1) div e"
  have e0: "0 < e" and c0: "0 < c" using chain_wf_pos(1,3) [OF wf] unfolding e_def c_def by linarith+
  have "e * d \<le> (int p - int q) + (e - 1)" and d0: "0 \<le> d"
    using floor_window [OF e0, of "int q - 1" "int p - 1"] le(1) unfolding d_def by auto
  moreover have "int p - int q \<le> e * c" using le(2) unfolding e_def c_def
    by (metis diff_le_eq of_nat_add of_nat_le_iff of_nat_mult add.commute)
  ultimately have "e * d < e * (c + 1)" by (simp add: distrib_left)
  then have dc: "d \<le> c" using e0 by (simp add: mult_less_cancel_left)
  have g: "int (page_pos ch p) < c" using page_pos_less [OF wf, of p] unfolding c_def by linarith
  have ud: "uint diff = d" using d0 by (simp only: uint_nat D flip: e_def d_def)
  have up: "uint page = int (page_pos ch p)" by (simp only: uint_nat pg)
  have uc: "uint (page_cnt ch) = c" by (simp only: uint_nat c_def)
  have "page - diff + page_cnt ch = word_of_int (int (page_pos ch p) - d + c)"
  proof -
    have "page - diff + page_cnt ch = word_of_int (uint page - uint diff + uint (page_cnt ch))"
      by simp
    then show ?thesis by (simp only: up ud uc)
  qed
  moreover have "2 * pcnt ch \<le> 4294967296" using two by simp
  then have "0 \<le> int (page_pos ch p) - d + c" "int (page_pos ch p) - d + c < 4294967296"
    using dc d0 g unfolding c_def by linarith+
  ultimately have "uint (page - diff + page_cnt ch) = int (page_pos ch p) - d + c"
    by (simp only: uint_word_of_int) simp
  then have "int (unat ((page - diff + page_cnt ch) mod page_cnt ch)) = (int (page_pos ch p) - d + c) mod c"
    by (simp only: unat_mod_distrib zmod_int c_def) simp
  also have "\<dots> = (int (page_pos ch p) - d) mod c" by simp
  also have "\<dots> = ((int p - 1) div e - d) mod c"
    using page_pos_int [OF wf, of p] by (simp add: e_def c_def mod_simps)
  also have "\<dots> = int (page_pos ch q)"
    using page_pos_int [OF wf, of q] by (simp add: d_def e_def c_def)
  finally show ?thesis by (simp only: of_nat_eq_iff)
qed

text \<open>
  The page difference of a rewind from position \<open>p\<close> to \<open>q\<close>. With 16 bit indices the two
  indices, read as 32 bit values, must not lie on different sides of the wrap.
\<close>

lemma rewind_diff:
  assumes wf: "chain_wf ch" and npt: "mode ch \<noteq> QED_CHAIN_MODE_NEXT_PTR"
    and small: "epp ch * pcnt ch < 2 ^ idx_bits ch"
    and le: "q \<le> p" "p \<le> q + upp ch * pcnt ch"
    and cur: "unat cur = p mod 2 ^ idx_bits ch" and new: "unat new = q mod 2 ^ idx_bits ch"
    and wrap: "is_chain_u16 ch \<Longrightarrow> q mod 2 ^ 16 \<le> p mod 2 ^ 16"
  shows "unat (page_diff32 ch cur new) =
    nat ((int p - 1) div int (upp ch) - (int q - 1) div int (upp ch))"
proof (cases "is_chain_u16 ch")
  case False
  have "cur = word_of_int (int p)" "new = word_of_int (int q)"
    using cur new False by (simp_all add: word_unat_eq_iff idx_bits_def unat_of_nat)
  moreover have "epp ch dvd 2 ^ 32" by (rule epp_dvd_range [OF wf]) simp
  then obtain m where m: "2 ^ 32 = epp ch * m" by blast
  have "epp ch * pcnt ch < epp ch * m" using small False unfolding m [symmetric] by (simp add: idx_bits_def)
  then have "pcnt ch < m" by simp
  then have "epp ch * pcnt ch + epp ch \<le> 2 ^ 32"
    unfolding m by (metis Suc_leI add.commute mult_Suc_right mult_le_mono2)
  then have "p - q + epp ch \<le> 4294967296" using le chain_wf_upp(2) [OF wf npt] by simp
  then have "int p - int q + int (epp ch) \<le> 4294967296" using le(1) by linarith
  ultimately show ?thesis
    using page_diff_eq [OF wf refl, of cur "int p" new "int q"] le(1) chain_wf_upp(2) [OF wf npt] by simp
next
  case True
  define a where "a = p mod 2 ^ 16"
  define b where "b = q mod 2 ^ 16"
  have cap: "upp ch * pcnt ch < 2 ^ 16" using small chain_wf_upp(2) [OF wf npt] True by (simp add: idx_bits_def)
  have w: "cur = word_of_int (int a)" "new = word_of_int (int b)"
    using cur new True by (simp_all add: word_unat_eq_iff idx_bits_def unat_of_nat a_def b_def)
  have ba: "b \<le> a" using wrap [OF True] by (simp add: a_def b_def)
  obtain i where p: "p = 2 ^ 16 * i + a" by (metis a_def mult_div_mod_eq)
  obtain j where q: "q = 2 ^ 16 * j + b" by (metis b_def mult_div_mod_eq)
  have a: "a < 65536" by (simp add: a_def)
  have "i = j"
  proof (rule ccontr)
    assume "i \<noteq> j"
    moreover have "\<not> i < j" using le(1) a unfolding p q by auto
    ultimately have "Suc j \<le> i" by simp
    then have "2 ^ 16 * Suc j \<le> 2 ^ 16 * i" by (rule mult_le_mono2)
    then show False using le(2) cap ba unfolding p q by simp
  qed
  obtain m where m: "2 ^ 16 = epp ch * m" using epp_dvd_range [OF wf order_refl] by blast
  have shift: "(int (2 ^ 16 * i + x) - 1) div int (epp ch) = int (m * i) + (int x - 1) div int (epp ch)" for x
  proof -
    have "int (2 ^ 16 * i + x) - 1 = (int x - 1) + int (m * i) * int (epp ch)"
      unfolding m by (simp add: algebra_simps)
    then show ?thesis using chain_wf_pos(2) [OF wf] by (simp only: div_mult_self1)
  qed
  have "a < 65536" "epp ch < 65536"
    using unsigned_less [of "elem_per_page ch"] by (simp_all add: a_def)
  then have "int a - int b + int (epp ch) \<le> 4294967296" by linarith
  then have "unat (page_diff32 ch cur new) =
      nat ((int a - 1) div int (epp ch) - (int b - 1) div int (epp ch))"
    using page_diff_eq [OF wf refl w] ba by simp
  also have "(int a - 1) div int (epp ch) - (int b - 1) div int (epp ch) =
      (int p - 1) div int (upp ch) - (int q - 1) div int (upp ch)"
    unfolding p q \<open>i = j\<close> [symmetric] chain_wf_upp(2) [OF wf npt] shift by simp
  finally show ?thesis .
qed

lemma lazy_idx_npt:
  assumes "chain_wf ch" "mode ch \<noteq> QED_CHAIN_MODE_NEXT_PTR"
  shows "lazy_idx (upp ch) (epp ch) k = k"
  using chain_wf_upp(2) [OF assms] chain_wf_pos(2) [OF assms(1)] by (simp add: lazy_idx_full)

lemma elem_ptr_upd [simp]:
  "elem_ptr (ch\<lparr>pbl_u16 := x3\<rparr>) = elem_ptr ch" "elem_ptr (ch\<lparr>pbl_u32 := x4\<rparr>) = elem_ptr ch"
  "elem_ptr (ch\<lparr>chain16 := x5\<rparr>) = elem_ptr ch" "elem_ptr (ch\<lparr>chain32 := x6\<rparr>) = elem_ptr ch"
  "elem_ptr (ch\<lparr>p_prod_elem := x1\<rparr>) = elem_ptr ch" "elem_ptr (ch\<lparr>p_cons_elem := x2\<rparr>) = elem_ptr ch"
  by (simp_all add: fun_eq_iff elem_ptr_def split: nat.split)

lemma page_pos_upd [simp]:
  "page_pos (ch\<lparr>pbl_u16 := x3\<rparr>) = page_pos ch" "page_pos (ch\<lparr>pbl_u32 := x4\<rparr>) = page_pos ch"
  "page_pos (ch\<lparr>chain16 := x5\<rparr>) = page_pos ch" "page_pos (ch\<lparr>chain32 := x6\<rparr>) = page_pos ch"
  "page_pos (ch\<lparr>p_prod_elem := x1\<rparr>) = page_pos ch" "page_pos (ch\<lparr>p_cons_elem := x2\<rparr>) = page_pos ch"
  by (simp_all add: fun_eq_iff page_pos_def split: nat.split)

section \<open>The position after a rewind\<close>

definition rewound_page :: "qed_chain \<Rightarrow> u32 \<Rightarrow> u32 \<Rightarrow> u32 \<Rightarrow> u32" where
  "rewound_page ch page cur new = (page - page_diff32 ch cur new + page_cnt ch) mod page_cnt ch"

lemma page_pos_range: "chain_wf ch \<Longrightarrow> page_pos ch k < 2 ^ idx_bits ch"
  using page_pos_less [of ch k] wf_pcnt_le [of ch] by linarith

lemma rewound_page_range:
  assumes "chain_wf ch"
  shows "unat (rewound_page ch page cur new) < 2 ^ idx_bits ch"
proof -
  have "unat (rewound_page ch page cur new) < pcnt ch"
    using chain_wf_pos(3) [OF assms] by (simp add: rewound_page_def unat_mod_distrib)
  then show ?thesis using wf_pcnt_le [OF assms] by linarith
qed

text \<open>The position is the new one exactly if, on a PBL chain, the page is.\<close>

lemma set_prod_at_iff:
  assumes wf: "chain_wf ch" and new: "unat new = lazy_idx (upp ch) (epp ch) q mod 2 ^ idx_bits ch"
  shows "prod_at (qed_chain_set_prod ch new (elem_ptr ch pages q)) pages q \<longleftrightarrow>
    (mode ch = QED_CHAIN_MODE_PBL \<longrightarrow>
      unat (rewound_page ch
        (if is_chain_u16 ch then ucast (prod_page_idx (pbl_u16 ch)) else prod_page_idx (pbl_u32 ch))
        (if is_chain_u16 ch then ucast (prod_idx (chain16 ch)) else prod_idx (chain32 ch)) new) = page_pos ch q)"
  using new rewound_page_range [OF wf] page_pos_range [OF wf, of q]
  by (auto simp: qed_chain_set_prod_def Let_def prod_at_def at_pos_def unat_ucast_mod idx_bits_def
      qed_chain_get_page_cnt_def simp del: lazy_idx.simps simp flip: rewound_page_def)

lemma set_cons_at_iff:
  assumes wf: "chain_wf ch" and new: "unat new = lazy_idx (upp ch) (epp ch) q mod 2 ^ idx_bits ch"
  shows "cons_at (qed_chain_set_cons ch new (elem_ptr ch pages q)) pages q \<longleftrightarrow>
    (mode ch = QED_CHAIN_MODE_PBL \<longrightarrow>
      unat (rewound_page ch
        (if is_chain_u16 ch then ucast (cons_page_idx (pbl_u16 ch)) else cons_page_idx (pbl_u32 ch))
        (if is_chain_u16 ch then ucast (cons_idx (chain16 ch)) else cons_idx (chain32 ch)) new) = page_pos ch q)"
  using new rewound_page_range [OF wf] page_pos_range [OF wf, of q]
  by (auto simp: qed_chain_set_cons_def Let_def cons_at_def at_pos_def unat_ucast_mod idx_bits_def
      qed_chain_get_page_cnt_def simp del: lazy_idx.simps simp flip: rewound_page_def)

text \<open>
  A rewind across the wrap of a 16 bit index: the two positions lie in successive rounds of the
  index, and the distance of the pages of the two indices is negative.
\<close>

lemma index_wrap:
  fixes p q n :: nat
  assumes wrap: "p mod 2 ^ 16 < q mod 2 ^ 16" and le: "q \<le> p" "p \<le> q + n" and n: "n < 2 ^ 16"
  shows "p div 2 ^ 16 = Suc (q div 2 ^ 16)"
proof -
  define i j where "i = p div 2 ^ 16" "j = q div 2 ^ 16"
  have p: "p = 2 ^ 16 * i + p mod 2 ^ 16" and q: "q = 2 ^ 16 * j + q mod 2 ^ 16"
    by (simp_all add: i_j_def)
  have "j < i"
  proof (rule ccontr)
    assume "\<not> j < i"
    then have "2 ^ 16 * i \<le> (2 ^ 16 * j :: nat)" by simp
    then show False using p q wrap le(1) by linarith
  qed
  moreover have "i \<le> Suc j"
  proof (rule ccontr)
    assume "\<not> i \<le> Suc j"
    then have "2 ^ 16 * Suc (Suc j) \<le> (2 ^ 16 * i :: nat)" by (intro mult_le_mono2) simp
    then have "2 ^ 16 * j + 2 ^ 16 + 2 ^ 16 \<le> (2 ^ 16 * i :: nat)" by simp
    moreover have "q mod 2 ^ 16 < 2 ^ 16" by simp
    ultimately show False using p q le(2) n by linarith
  qed
  ultimately show ?thesis by (simp add: i_j_def)
qed

lemma wrap_distance:
  fixes E m c a b :: int
  assumes E0: "0 < E" and m: "E * m = 2 ^ 16" and cm: "c < m"
    and ab: "0 \<le> a" "b < 2 ^ 16" and w: "E * m + a - b \<le> E * c"
  shows "(a - 1) div E - (b - 1) div E < 0" "- m \<le> (a - 1) div E - (b - 1) div E"
proof -
  have "E * (m - c) \<le> b - a" using w by (simp add: algebra_simps)
  moreover have "E * 1 \<le> E * (m - c)" using E0 cm by (intro mult_left_mono) simp_all
  ultimately have "(a - 1) + E \<le> b - 1" by simp
  then have "((a - 1) + E) div E \<le> (b - 1) div E" using E0 by (intro zdiv_mono1)
  moreover have "((a - 1) + E) div E = (a - 1) div E + 1" using E0 by (intro div_add_self2) simp
  ultimately show "(a - 1) div E - (b - 1) div E < 0" by simp
  have "(- 1) div E \<le> (a - 1) div E" using E0 ab by (intro zdiv_mono1) simp_all
  moreover have "(- 1) div E = - 1" using E0 by (simp add: div_eq_minus1)
  moreover have "E * ((b - 1) div E) \<le> b - 1"
    using E0 pos_mod_sign [of E "b - 1"] mult_div_mod_eq [of E "b - 1"] by linarith
  then have "E * ((b - 1) div E) < E * m" using ab m by linarith
  then have "(b - 1) div E < m" using E0 by simp
  ultimately show "- m \<le> (a - 1) div E - (b - 1) div E" by linarith
qed

text \<open>Taking off a page distance beyond the page and the page count underflows 32 bits.\<close>

lemma rewound_page_underflow:
  assumes "int (unat page) - d + int (pcnt ch) < 0" "0 \<le> 2 ^ 32 + (int (unat page) - d + int (pcnt ch))"
    and diff: "uint (page_diff32 ch cur new) = d"
  shows "int (unat (rewound_page ch page cur new)) = (2 ^ 32 + int (unat page) - d) mod int (pcnt ch)"
proof -
  define X where "X = int (unat page) - d + int (pcnt ch)"
  have "page - page_diff32 ch cur new + page_cnt ch = word_of_int X"
  proof -
    have "X = uint page - uint (page_diff32 ch cur new) + uint (page_cnt ch)" by (simp add: X_def diff)
    then show ?thesis by (simp only: wi_hom_syms word_of_int_uint)
  qed
  moreover have "X mod 2 ^ 32 = 2 ^ 32 + X"
    using assms(1,2) mod_pos_pos_trivial [of "2 ^ 32 + X" "2 ^ 32"] by (simp add: X_def)
  ultimately have "uint (rewound_page ch page cur new) = (2 ^ 32 + X) mod int (pcnt ch)"
    by (simp only: rewound_page_def uint_mod_distrib uint_word_of_int) simp
  also have "2 ^ 32 + X = 2 ^ 32 + int (unat page) - d + int (pcnt ch)" by (simp add: X_def)
  finally show ?thesis by simp
qed

lemma page_shift:
  fixes E :: int
  assumes "0 < E"
  shows "(E * y + x - 1) div E = y + (x - 1) div E"
proof -
  have "E * y + x - 1 = (x - 1) + E * y" by simp
  then show ?thesis using assms by (simp only: div_mult_self2)
qed

text \<open>
  The page after such a rewind: off by \<open>2 ^ 32 - 2 ^ 32 / E + 2 ^ 16 / E\<close> pages, for \<open>E\<close> elements
  per page.
\<close>

definition wrap_error :: "qed_chain \<Rightarrow> nat" where
  "wrap_error ch = 2 ^ 32 - 2 ^ 32 div epp ch + 2 ^ 16 div epp ch"

lemma wrap_error_int:
  assumes wf: "chain_wf ch" and m: "int (epp ch) * m = 2 ^ 16"
  shows "int (wrap_error ch) = 2 ^ 32 - 2 ^ 16 * m + m" "2 ^ 32 div int (epp ch) = 2 ^ 16 * m" "1 \<le> m" "m \<le> 2 ^ 16"
proof -
  have E0: "0 < int (epp ch)" using chain_wf_pos(2) [OF wf] by linarith
  have d16: "2 ^ 16 div int (epp ch) = m" unfolding m [symmetric] using E0 by simp
  have "(2::int) ^ 32 = int (epp ch) * (2 ^ 16 * m)"
    unfolding mult.left_commute [of "int (epp ch)"] m by simp
  then show d32: "2 ^ 32 div int (epp ch) = 2 ^ 16 * m"
    using E0 by (metis nonzero_mult_div_cancel_left less_irrefl)
  show m1: "1 \<le> m" using m E0 by (smt (verit) mult_nonneg_nonpos zero_less_power)
  have "1 * m \<le> int (epp ch) * m" using E0 m1 by (intro mult_right_mono) linarith+
  then show "m \<le> 2 ^ 16" using m by simp
  have "int (2 ^ 32 div epp ch) = 2 ^ 32 div int (epp ch)" "int (2 ^ 16 div epp ch) = 2 ^ 16 div int (epp ch)"
    by (simp_all only: zdiv_int of_nat_power of_nat_numeral)
  moreover have "2 ^ 32 div epp ch \<le> (2 ^ 32 :: nat)" by (rule div_le_dividend)
  ultimately show "int (wrap_error ch) = 2 ^ 32 - 2 ^ 16 * m + m"
    unfolding wrap_error_def by (simp only: of_nat_add of_nat_diff d16 d32 of_nat_power of_nat_numeral)
qed

lemma rewound_page_wrap:
  assumes wf: "chain_wf ch" and pbl: "mode ch = QED_CHAIN_MODE_PBL"
    and small: "epp ch * pcnt ch < 2 ^ 16" and le: "q \<le> p" "p \<le> q + upp ch * pcnt ch"
    and pg: "unat page = page_pos ch p"
    and cur: "unat cur = p mod 2 ^ 16" and new: "unat new = q mod 2 ^ 16"
    and wrap: "p mod 2 ^ 16 < q mod 2 ^ 16"
  shows "int (unat (rewound_page ch page cur new)) =
    (int (page_pos ch q) + int (wrap_error ch)) mod int (pcnt ch)"
proof -
  define E c where "E = int (epp ch)" "c = int (pcnt ch)"
  define a b where "a = int (p mod 2 ^ 16)" "b = int (q mod 2 ^ 16)"
  define j where "j = int (q div 2 ^ 16)"
  define D where "D = (a - 1) div E - (b - 1) div E"
  define g where "g = int (page_pos ch p)"
  have u: "upp ch = epp ch" using chain_wf_upp(2) [OF wf] pbl by simp
  have E0: "0 < E" using chain_wf_pos(2) [OF wf] unfolding E_c_def by linarith
  have "epp ch dvd 2 ^ 16" by (rule epp_dvd_range [OF wf order_refl])
  then have "int (epp ch) dvd int (2 ^ 16)" by (simp only: of_nat_dvd_iff)
  then obtain m where m: "E * m = 2 ^ 16" by (auto simp only: E_c_def of_nat_power of_nat_numeral dvd_def)
  note we = wrap_error_int [OF wf m [unfolded E_c_def]]
  have "int (epp ch * pcnt ch) < int (2 ^ 16)" using small by (simp only: of_nat_less_iff)
  then have "E * c < E * m" unfolding m by (simp only: E_c_def of_nat_mult of_nat_power of_nat_numeral)
  then have cm: "c < m" using E0 by simp
  have sp: "int x = 2 ^ 16 * int (x div 2 ^ 16) + int (x mod 2 ^ 16)" for x by (simp add: zdiv_int zmod_int)
  have pi: "int p = E * (m * (1 + j)) + a" and qi: "int q = E * (m * j) + b"
    using sp [of p] sp [of q] index_wrap [OF wrap le [unfolded u] small]
    by (simp_all only: a_b_def j_def mult.assoc [symmetric] m) simp_all
  have "int p \<le> int (q + epp ch * pcnt ch)" using le(2) by (simp only: u of_nat_le_iff)
  then have "int p \<le> int q + E * c" by (simp only: E_c_def of_nat_add of_nat_mult)
  then have w: "E * m + a - b \<le> E * c" unfolding pi qi by (simp add: algebra_simps)
  have ab: "0 \<le> a" "b < 2 ^ 16" by (simp_all add: a_b_def)
  note D = wrap_distance [OF E0 m cm ab w, folded D_def]
  have "E * - m \<le> E * D" using E0 D(2) by (intro mult_left_mono) simp_all
  then have "- (2 ^ 32) \<le> E * D" using m by simp
  moreover have "cur = word_of_int a" "new = word_of_int b"
    using cur new by (simp_all add: word_unat_eq_iff unat_of_nat a_b_def)
  ultimately have diff: "uint (page_diff32 ch cur new) = 2 ^ 16 * m + D"
    using page_diff_wrap [OF wf E_c_def(1) _ _ D_def D(1)] we(2) by (simp only: E_c_def)
  have gc: "0 \<le> g" "g < c" using page_pos_less [OF wf, of p] unfolding g_def E_c_def by linarith+
  have "2 ^ 16 * m = 65536 * m" "m \<le> 65536" using we(4) by simp_all
  then have "g - (2 ^ 16 * m + D) + c < 0" "0 \<le> 4294967296 + (g - (2 ^ 16 * m + D) + c)"
    using gc cm D we(3) by linarith+
  then have "int (unat (rewound_page ch page cur new)) = (2 ^ 32 + g - (2 ^ 16 * m + D)) mod c"
    using rewound_page_underflow [OF _ _ diff, of page] by (simp add: pg E_c_def flip: g_def)
  also have "2 ^ 32 + g - (2 ^ 16 * m + D) = g + (int (wrap_error ch) - m - D)"
    unfolding we(1) by simp
  also have "(g + (int (wrap_error ch) - m - D)) mod c =
      ((int p - 1) div E + (int (wrap_error ch) - m - D)) mod c"
    using page_pos_int [OF wf, of p] unfolding g_def u E_c_def by (simp only: mod_add_left_eq)
  also have "(int p - 1) div E + (int (wrap_error ch) - m - D) = (int q - 1) div E + int (wrap_error ch)"
    unfolding pi qi page_shift [OF E0] by (simp add: D_def algebra_simps)
  also have "((int q - 1) div E + int (wrap_error ch)) mod c = (int (page_pos ch q) + int (wrap_error ch)) mod c"
    using page_pos_int [OF wf, of q] unfolding u E_c_def by (simp only: mod_add_left_eq)
  finally show ?thesis by (simp only: E_c_def)
qed

section \<open>When a rewind is right\<close>

definition rewind_ok :: "qed_chain \<Rightarrow> nat \<Rightarrow> nat \<Rightarrow> bool" where
  "rewind_ok ch p q \<longleftrightarrow>
     \<not> (is_chain_u16 ch \<and> mode ch = QED_CHAIN_MODE_PBL \<and> p mod 2 ^ 16 < q mod 2 ^ 16) \<or>
     pcnt ch dvd wrap_error ch"

lemma rewound_page_iff:
  assumes wf: "chain_wf ch" and pbl: "mode ch = QED_CHAIN_MODE_PBL"
    and small: "epp ch * pcnt ch < 2 ^ idx_bits ch" and two: "2 * pcnt ch \<le> 2 ^ 32"
    and le: "q \<le> p" "p \<le> q + upp ch * pcnt ch" and pg: "unat page = page_pos ch p"
    and cur: "unat cur = p mod 2 ^ idx_bits ch" and new: "unat new = q mod 2 ^ idx_bits ch"
  shows "unat (rewound_page ch page cur new) = page_pos ch q \<longleftrightarrow> rewind_ok ch p q"
proof (cases "is_chain_u16 ch \<and> p mod 2 ^ 16 < q mod 2 ^ 16")
  case True
  then have i: "idx_bits ch = 16" by (simp add: idx_bits_def)
  let ?x = "int (page_pos ch q)" and ?e = "int (wrap_error ch)" and ?c = "int (pcnt ch)"
  have "0 \<le> ?x" "?x < ?c" using page_pos_less [OF wf, of q] by (simp_all only: of_nat_0_le_iff of_nat_less_iff)
  then have x: "?x mod ?c = ?x" by simp
  have "int (unat (rewound_page ch page cur new)) = (?x + ?e) mod ?c"
    using rewound_page_wrap [OF wf pbl _ le pg] small cur new True unfolding i by blast
  then have "unat (rewound_page ch page cur new) = page_pos ch q \<longleftrightarrow> (?x + ?e) mod ?c = ?x mod ?c"
    unfolding x by (metis of_nat_eq_iff)
  also have "\<dots> \<longleftrightarrow> ?c dvd ?e" by (simp only: mod_eq_dvd_iff) simp
  finally show ?thesis using True pbl by (simp only: rewind_ok_def of_nat_dvd_iff) simp
next
  case False
  have npt: "mode ch \<noteq> QED_CHAIN_MODE_NEXT_PTR" using pbl by simp
  have "unat (page_diff32 ch cur new) = nat ((int p - 1) div int (upp ch) - (int q - 1) div int (upp ch))"
    using False by (intro rewind_diff [OF wf npt small le cur new]) (simp add: not_less)
  then have "unat (rewound_page ch page cur new) = page_pos ch q"
    unfolding rewound_page_def by (rule rewind_page [OF wf pg _ le two])
  then show ?thesis using False by (simp add: rewind_ok_def)
qed

lemma set_prod_right_iff:
  assumes wf: "chain_wf ch" and small: "epp ch * pcnt ch < 2 ^ idx_bits ch"
    and two: "2 * pcnt ch \<le> 2 ^ 32" and le: "q \<le> p" "p \<le> q + unat (capacity ch)"
    and new: "unat new = lazy_idx (upp ch) (epp ch) q mod 2 ^ idx_bits ch"
    and at: "prod_at ch pages p"
  shows "prod_at (qed_chain_set_prod ch new (elem_ptr ch pages q)) pages q \<longleftrightarrow> rewind_ok ch p q"
proof (cases "mode ch = QED_CHAIN_MODE_PBL")
  case True
  have l: "lazy_idx (upp ch) (epp ch) k = k" for k using True by (simp add: lazy_idx_npt [OF wf])
  have cap: "unat (capacity ch) = upp ch * pcnt ch" using wf by (simp add: chain_wf_def)
  show ?thesis unfolding set_prod_at_iff [OF wf new] using True
    rewound_page_iff [OF wf True small two le [unfolded cap], where new = new] at new
    by (auto simp: prod_at_def at_pos_def unat_ucast_le idx_bits_def l)
next
  case False
  then show ?thesis using set_prod_at_iff [OF wf new] by (simp add: rewind_ok_def)
qed

lemma set_cons_right_iff:
  assumes wf: "chain_wf ch" and small: "epp ch * pcnt ch < 2 ^ idx_bits ch"
    and two: "2 * pcnt ch \<le> 2 ^ 32" and le: "q \<le> p" "p \<le> q + unat (capacity ch)"
    and new: "unat new = lazy_idx (upp ch) (epp ch) q mod 2 ^ idx_bits ch"
    and at: "cons_at ch pages p"
  shows "cons_at (qed_chain_set_cons ch new (elem_ptr ch pages q)) pages q \<longleftrightarrow> rewind_ok ch p q"
proof (cases "mode ch = QED_CHAIN_MODE_PBL")
  case True
  have l: "lazy_idx (upp ch) (epp ch) k = k" for k using True by (simp add: lazy_idx_npt [OF wf])
  have cap: "unat (capacity ch) = upp ch * pcnt ch" using wf by (simp add: chain_wf_def)
  show ?thesis unfolding set_cons_at_iff [OF wf new] using True
    rewound_page_iff [OF wf True small two le [unfolded cap], where new = new] at new
    by (auto simp: cons_at_def at_pos_def unat_ucast_le idx_bits_def l)
next
  case False
  then show ?thesis using set_cons_at_iff [OF wf new] by (simp add: rewind_ok_def)
qed

end
