(* ===== verification/Qed_Chain_Slots.thy ===== *)
theory Qed_Chain_Slots
  imports Qed_Chain_Rewind
begin

text \<open>
  The memory behind the slots of a chain: any two slots less than one round apart are disjoint
  pieces of memory, and the lookups of the last element and of an element by index find the
  slot they mean.
\<close>

section \<open>Disjoint slots\<close>

definition pages_apart :: "nat \<Rightarrow> u64 list \<Rightarrow> bool" where
  "pages_apart ps pages \<longleftrightarrow>
     (\<forall>i<length pages. unat (pages ! i) + ps \<le> 2 ^ 64) \<and>
     (\<forall>i<length pages. \<forall>j<length pages. i \<noteq> j \<longrightarrow>
        unat (pages ! i) + ps \<le> unat (pages ! j) \<or> unat (pages ! j) + ps \<le> unat (pages ! i))"

lemma mult_Suc_le_upp: "0 < u \<Longrightarrow> (k mod u) * (e::nat) + e \<le> u * e"
proof -
  assume "0 < u"
  then have "Suc (k mod u) \<le> u" by (simp add: Suc_leI)
  then have "Suc (k mod u) * e \<le> u * e" by (rule mult_le_mono1)
  then show ?thesis by simp
qed

lemma slot_unat:
  assumes wf: "chain_wf ch" and sz: "upp ch * esz ch \<le> ps" and len: "length pages = pcnt ch"
    and ap: "pages_apart ps pages" and e: "0 < esz ch"
  shows "unat (slot_addr ch pages k) =
    unat (pages ! (k div upp ch mod pcnt ch)) + (k mod upp ch) * esz ch"
proof -
  note pos = chain_wf_pos [OF wf]
  have "(k mod upp ch) * esz ch + esz ch \<le> ps" using mult_Suc_le_upp [OF pos(1)] sz le_trans by blast
  moreover have "unat (pages ! (k div upp ch mod pcnt ch)) + ps \<le> 2 ^ 64"
    using ap len pos(3) by (simp add: pages_apart_def)
  ultimately have "unat (pages ! (k div upp ch mod pcnt ch)) + (k mod upp ch) * esz ch < 2 ^ 64"
    using e by linarith
  then show ?thesis by (simp add: slot_addr_def unat_add_mod unat_of_nat del: of_nat_mult)
qed

lemma ring_cases:
  fixes u n :: nat
  assumes "k < k'" "k' < k + u * n" "(k div u) mod n = (k' div u) mod n" "0 < u" "0 < n"
  shows "k mod u < k' mod u \<or> k' mod u < k mod u"
proof -
  define a b a' b' where "a = k div u" "b = k mod u" "a' = k' div u" "b' = k' mod u"
  note d = this
  have k: "k = u * a + b" "k' = u * a' + b'" by (simp_all add: d)
  have b: "b < u" "b' < u" using assms(4) by (simp_all add: d)
  have le: "a \<le> a'" unfolding d using assms(1) by (simp add: div_le_mono)
  have "b \<noteq> b'"
  proof
    assume "b = b'"
    then have "u * a < u * a'" "u * a' < u * (a + n)" using assms(1,2) k by (simp_all add: algebra_simps)
    then have "a < a'" "a' < a + n" by (simp_all only: mult_less_cancel1) 
    moreover have "n dvd a' - a" using assms(3) le d by (metis mod_eq_dvd_iff_nat)
    ultimately show False using nat_dvd_not_less [of "a' - a" n] by simp
  qed
  then show ?thesis by (simp add: d neq_iff)
qed

lemma slots_apart:
  assumes wf: "chain_wf ch" and sz: "upp ch * esz ch \<le> ps" and len: "length pages = pcnt ch"
    and ap: "pages_apart ps pages" and e: "0 < esz ch"
    and k: "k < k'" "k' < k + unat (capacity ch)"
  shows "unat (slot_addr ch pages k) + esz ch \<le> unat (slot_addr ch pages k') \<or>
    unat (slot_addr ch pages k') + esz ch \<le> unat (slot_addr ch pages k)"
proof -
  note pos = chain_wf_pos [OF wf]
  note su = slot_unat [OF wf sz len ap e]
  have cap: "unat (capacity ch) = upp ch * pcnt ch" using wf by (simp add: chain_wf_def)
  have room: "(j mod upp ch) * esz ch + esz ch \<le> ps" for j
    using mult_Suc_le_upp [OF pos(1)] sz le_trans by blast
  let ?i = "k div upp ch mod pcnt ch" and ?j = "k' div upp ch mod pcnt ch"
  show ?thesis
  proof (cases "?i = ?j")
    case True
    then have "k mod upp ch < k' mod upp ch \<or> k' mod upp ch < k mod upp ch"
      using ring_cases [of k k' "upp ch" "pcnt ch"] k cap pos by auto
    then have "(k mod upp ch) * esz ch + esz ch \<le> (k' mod upp ch) * esz ch \<or>
        (k' mod upp ch) * esz ch + esz ch \<le> (k mod upp ch) * esz ch"
      by (metis Suc_leI mult_Suc mult_le_mono1 add.commute)
    then show ?thesis unfolding su True by auto
  next
    case False
    moreover have "?i < length pages" "?j < length pages" using pos(3) len by simp_all
    ultimately have "unat (pages ! ?i) + ps \<le> unat (pages ! ?j) \<or> unat (pages ! ?j) + ps \<le> unat (pages ! ?i)"
      using ap by (auto simp: pages_apart_def)
    then show ?thesis unfolding su using room [of k] room [of k'] by linarith
  qed
qed

section \<open>Element lookup\<close>

lemma last_page_walk_page:
  assumes lay: "chain_layout mem ch pages" and m: "mode ch = QED_CHAIN_MODE_NEXT_PTR"
    and d: "distinct pages" and i: "i < pcnt ch"
  shows "last_page_walk mem ch (pages ! i) = Some (pages ! (pcnt ch - 1))"
  using i
proof (induction "pcnt ch - 1 - i" arbitrary: i)
  case 0
  then have "Suc i = pcnt ch" by simp
  then have "next_virt (mem (pages ! i + next_elem_off ch)) = p_virt_addr ch"
    using lay m 0 by (simp add: chain_layout_def)
  then show ?case using \<open>Suc i = pcnt ch\<close> by (subst last_page_walk.simps) (simp add: Let_def flip: \<open>Suc i = pcnt ch\<close>)
next
  case (Suc n)
  then have si: "Suc i < pcnt ch" by simp
  then have nx: "next_virt (mem (pages ! i + next_elem_off ch)) = pages ! Suc i"
    using lay m by (simp add: chain_layout_def)
  moreover have "pages ! Suc i \<noteq> p_virt_addr ch"
    using lay d si by (auto simp: chain_layout_def nth_eq_iff_index_eq)
  moreover have "last_page_walk mem ch (pages ! Suc i) = Some (pages ! (pcnt ch - 1))"
    using Suc si by (intro Suc.hyps(1)) auto
  ultimately show ?case by (subst last_page_walk.simps) (simp add: Let_def)
qed

lemma last_elem_slot:
  assumes wf: "chain_wf ch" and lay: "chain_layout mem ch pages" and d: "distinct pages"
    and nz: "p_virt_addr ch \<noteq> 0"
  shows "qed_chain_get_last_elem mem ch = Some (slot_addr ch pages (unat (capacity ch) - 1))"
proof -
  note pos = chain_wf_pos [OF wf]
  let ?k = "unat (capacity ch) - 1"
  have cap: "unat (capacity ch) = upp ch * pcnt ch" using wf by (simp add: chain_wf_def)
  obtain n where n: "pcnt ch = Suc n" using pos(3) by (cases "pcnt ch") auto
  have "?k = (upp ch - 1) + n * upp ch" using cap n pos(1) by (simp add: algebra_simps)
  then have k: "?k div upp ch = n" "?k mod upp ch = upp ch - 1"
    using pos(1) by (simp_all only: div_mult_self1 mod_mult_self1) simp_all
  have "usable_per_page ch \<noteq> 0" using pos(1) by auto
  then have u1: "unat (ucast (usable_per_page ch) - 1 :: u32) = upp ch - 1"
    by (subst unat_sub) (simp_all add: unat_ucast_le word_le_nat_alt Suc_le_eq pos(1))
  have "esz ch * (upp ch - 1) < 2 ^ 16 * 2 ^ 16"
    using unsigned_less [of "elem_size ch"] unsigned_less [of "usable_per_page ch", where 'a = nat]
    by (intro mult_strict_mono) auto
  then have lt: "esz ch * (upp ch - 1) < 2 ^ 32" by simp
  have off: "(ucast (ucast (elem_size ch) * (ucast (usable_per_page ch) - 1) :: u32) :: u64) =
      of_nat ((upp ch - 1) * esz ch)"
  proof -
    have "unat (ucast (elem_size ch) * (ucast (usable_per_page ch) - 1) :: u32) = esz ch * (upp ch - 1)"
      using lt u1 by (simp add: unat_word_ariths unat_ucast_le)
    then show ?thesis
      using lt by (simp add: word_unat_eq_iff unat_of_nat unat_ucast_le mult.commute del: of_nat_mult)
  qed
  have va: "p_virt_addr ch = pages ! 0" using lay by (simp add: chain_layout_def)
  have "(case mode ch of QED_CHAIN_MODE_NEXT_PTR \<Rightarrow> last_page_walk mem ch (p_virt_addr ch)
      | QED_CHAIN_MODE_SINGLE \<Rightarrow> Some (p_virt_addr ch)
      | QED_CHAIN_MODE_PBL \<Rightarrow> Some (pbl_page ch (unat (page_cnt ch - 1)))) = Some (pages ! n)"
    using last_page_walk_page [OF lay _ d pos(3)] pbl_page_eq [OF lay, of n] wf n va
    by (cases "mode ch") (auto simp: unat_page_cnt_minus1 chain_wf_def)
  moreover have "slot_addr ch pages ?k = pages ! n + of_nat ((upp ch - 1) * esz ch)"
    unfolding slot_addr_def k n by simp
  ultimately show ?thesis
    using nz by (simp add: qed_chain_get_last_elem_def Let_def off del: of_nat_mult)
qed

lemma elem_by_idx_slot:
  assumes wf: "chain_wf ch" and lay: "chain_layout mem ch pages"
    and m: "mode ch \<noteq> QED_CHAIN_MODE_NEXT_PTR" and nz: "p_virt_addr ch \<noteq> 0"
    and sz: "epp ch * esz ch \<le> 2 ^ 32"
  shows "qed_chain_get_elem_by_idx mem ch idx = slot_addr ch pages (unat idx mod unat (capacity ch))"
proof -
  note pos = chain_wf_pos [OF wf]
  have u: "upp ch = epp ch" by (rule chain_wf_upp(2) [OF wf m])
  have cap: "unat (capacity ch) = epp ch * pcnt ch" using wf u by (simp add: chain_wf_def)
  define k where "k = unat idx mod unat (capacity ch)"
  have k: "unat (idx mod capacity ch) = k" by (simp add: k_def unat_mod_distrib)
  have kl: "k < pcnt ch * epp ch" using cap pos by (simp add: k_def mult.commute)
  let ?p = "(idx mod capacity ch) div ucast (elem_per_page ch)"
  have p: "unat ?p = k div epp ch" by (simp add: unat_div k unat_ucast_le)
  have pl: "k div epp ch < pcnt ch" using kl by (simp add: less_mult_imp_div_less)
  have "unat (?p * ucast (elem_per_page ch)) = k div epp ch * epp ch"
  proof -
    have "k div epp ch * epp ch \<le> k" by simp
    also have "k < 2 ^ 32" using k unsigned_less [of "idx mod capacity ch", where 'a = nat] by simp
    finally show ?thesis by (simp add: unat_mult_mod p unat_ucast_le)
  qed
  then have e: "unat (idx mod capacity ch - ?p * ucast (elem_per_page ch)) = k mod epp ch"
    by (subst unat_sub) (simp_all add: word_le_nat_alt k minus_div_mult_eq_mod)
  have off: "(ucast (ucast (elem_size ch) * x :: u32) :: u64) = of_nat (unat x * esz ch)"
    if "unat x < epp ch" for x :: u32
  proof -
    have lt: "esz ch * unat x < 2 ^ 32"
    proof (cases "esz ch = 0")
      case False
      then have "esz ch * unat x < esz ch * epp ch" using that by (intro mult_strict_left_mono) auto
      then show ?thesis using sz by (simp only: mult.commute)
    qed simp
    then have "unat (ucast (elem_size ch) * x :: u32) = esz ch * unat x"
      by (simp add: unat_word_ariths unat_ucast_le)
    then show ?thesis
      using lt by (simp add: word_unat_eq_iff unat_of_nat unat_ucast_le mult.commute del: of_nat_mult)
  qed
  show ?thesis
  proof (cases "mode ch")
    case QED_CHAIN_MODE_PBL
    then show ?thesis
      using nz pbl_page_eq [OF lay _ pl] pl pos e off
      by (simp add: qed_chain_get_elem_by_idx_def Let_def p slot_addr_def u del: of_nat_mult flip: k_def)
  next
    case QED_CHAIN_MODE_SINGLE
    then have "pcnt ch = 1" using wf by (simp add: chain_wf_def)
    then show ?thesis
      using QED_CHAIN_MODE_SINGLE nz lay k kl off [of "idx mod capacity ch"]
      by (simp add: qed_chain_get_elem_by_idx_def Let_def slot_addr_def u chain_layout_def del: of_nat_mult flip: k_def)
  qed (use m in simp)
qed

end
