(* ===== verification/Qed_Chain_Alloc.thy ===== *)
theory Qed_Chain_Alloc
  imports Qed_Chain_Slots
begin

text \<open>
  Allocation and release of a chain (\<open>qed_dev.c\<close>). The kernel allocators are not part of
  the driver: the outcomes of their calls are a list in the environment, consumed call by
  call, and every block handed out or given back is logged.
\<close>

section \<open>Environment\<close>

datatype dma_block = Dma u64 u64 u64 | Vtable

record chain_env =
  dma_results :: "(u64 \<times> u64) option list"
  vz_results :: "bool list"
  chmem :: chain_mem
  pbl_store :: "u64 \<Rightarrow> u64"
  allocd :: "dma_block list"
  freed :: "dma_block list"

definition dma_alloc_coherent :: "chain_env \<Rightarrow> u64 \<Rightarrow> (u64 \<times> u64) option \<times> chain_env" where
  "dma_alloc_coherent env sz =
     (case dma_results env of
        [] \<Rightarrow> (None, env)
      | None # rs \<Rightarrow> (None, env\<lparr>dma_results := rs\<rparr>)
      | Some (virt, phys) # rs \<Rightarrow>
          (Some (virt, phys), env\<lparr>dma_results := rs, allocd := allocd env @ [Dma virt phys sz]\<rparr>))"

definition dma_free_coherent :: "chain_env \<Rightarrow> u64 \<Rightarrow> u64 \<Rightarrow> u64 \<Rightarrow> chain_env" where
  "dma_free_coherent env sz virt phys = env\<lparr>freed := freed env @ [Dma virt phys sz]\<rparr>"

definition sizeof_voidp :: u32 where
  "sizeof_voidp = 8"

text \<open>A zeroed table of pointers of \<open>sz\<close> bytes.\<close>

definition vzalloc_table :: "chain_env \<Rightarrow> u32 \<Rightarrow> u64 list option \<times> chain_env" where
  "vzalloc_table env sz =
     (case vz_results env of
        [] \<Rightarrow> (None, env)
      | False # rs \<Rightarrow> (None, env\<lparr>vz_results := rs\<rparr>)
      | True # rs \<Rightarrow> (Some (replicate (unat sz div 8) 0), env\<lparr>vz_results := rs, allocd := allocd env @ [Vtable]\<rparr>))"

definition vfree_table :: "chain_env \<Rightarrow> chain_env" where
  "vfree_table env = env\<lparr>freed := freed env @ [Vtable]\<rparr>"

section \<open>Release\<close>

fun free_next_ptr_loop :: "nat \<Rightarrow> qed_chain \<Rightarrow> u64 \<Rightarrow> u64 \<Rightarrow> chain_env \<Rightarrow> chain_env" where
  "free_next_ptr_loop 0 ch p_virt p_phys env = env"
| "free_next_ptr_loop (Suc n) ch p_virt p_phys env =
     (if p_virt = 0 then env
      else
        (let p_next = chmem env (p_virt + next_elem_off ch)
         in free_next_ptr_loop n ch (next_virt p_next) (next_phys p_next)
              (dma_free_coherent env (ucast (page_size ch)) p_virt p_phys)))"

definition qed_chain_free_next_ptr :: "qed_chain \<Rightarrow> chain_env \<Rightarrow> chain_env" where
  "qed_chain_free_next_ptr ch env =
     (if p_virt_addr ch = 0 then env
      else free_next_ptr_loop (unat (page_cnt ch)) ch (p_virt_addr ch) (p_phys_addr ch) env)"

definition qed_chain_free_single :: "qed_chain \<Rightarrow> chain_env \<Rightarrow> chain_env" where
  "qed_chain_free_single ch env =
     (if p_virt_addr ch = 0 then env
      else dma_free_coherent env (ucast (page_size ch)) (p_virt_addr ch) (p_phys_addr ch))"

text \<open>The table is read in order; its entries are the pages, 0 from the first missing one on.\<close>

fun free_pbl_loop :: "qed_chain \<Rightarrow> u64 list \<Rightarrow> u64 \<Rightarrow> chain_env \<Rightarrow> chain_env" where
  "free_pbl_loop ch [] p_pbl_virt env = env"
| "free_pbl_loop ch (v # tbl) p_pbl_virt env =
     (if v = 0 then env
      else free_pbl_loop ch tbl (p_pbl_virt + ucast QED_CHAIN_PBL_ENTRY_SIZE)
             (dma_free_coherent env (ucast (page_size ch)) v (pbl_store env p_pbl_virt)))"

definition qed_chain_free_pbl :: "qed_chain \<Rightarrow> chain_env \<Rightarrow> qed_chain \<times> chain_env" where
  "qed_chain_free_pbl ch env =
     (case pp_virt_addr_tbl ch of
        None \<Rightarrow> (ch, env)
      | Some tbl \<Rightarrow>
          (let env1 =
             (if p_virt_table ch = 0 then env
              else
                (let env2 = free_pbl_loop ch (take (unat (page_cnt ch)) tbl) (p_virt_table ch) env;
                     pbl_size = page_cnt ch * QED_CHAIN_PBL_ENTRY_SIZE
                 in if \<not> b_external_pbl ch
                    then dma_free_coherent env2 (ucast pbl_size) (p_virt_table ch) (p_phys_table ch)
                    else env2))
           in (ch\<lparr>pp_virt_addr_tbl := None\<rparr>, vfree_table env1)))"

definition qed_chain_free :: "qed_chain \<Rightarrow> chain_env \<Rightarrow> qed_chain \<times> chain_env" where
  "qed_chain_free ch env =
     (let (ch1, env1) =
        (case mode ch of
           QED_CHAIN_MODE_NEXT_PTR \<Rightarrow> (ch, qed_chain_free_next_ptr ch env)
         | QED_CHAIN_MODE_SINGLE \<Rightarrow> (ch, qed_chain_free_single ch env)
         | QED_CHAIN_MODE_PBL \<Rightarrow> qed_chain_free_pbl ch env)
      in (qed_chain_init_mem ch1 0 0, env1))"

section \<open>Allocation\<close>

definition qed_chain_alloc_sanity_check ::
  "qed_chain_cnt_type \<Rightarrow> u64 \<Rightarrow> u32 \<Rightarrow> u32 \<Rightarrow> rc" where
  "qed_chain_alloc_sanity_check ct esize psize cnt =
     (let chain_size = ELEMS_PER_PAGE (ucast psize) esize * ucast cnt
      in if (ct = QED_CHAIN_CNT_TYPE_U16 \<and> chain_size > 0xffff + 1) \<or>
            (ct = QED_CHAIN_CNT_TYPE_U32 \<and> chain_size > 0xffffffff)
         then RC_ERR EINVAL else RC_OK)"

text \<open>\<open>i\<close> is the loop counter, the first argument the iterations left.\<close>

fun alloc_next_ptr_loop ::
  "nat \<Rightarrow> nat \<Rightarrow> u64 \<Rightarrow> qed_chain \<Rightarrow> chain_env \<Rightarrow> rc \<times> u64 \<times> qed_chain \<times> chain_env" where
  "alloc_next_ptr_loop 0 i prev ch env = (RC_OK, prev, ch, env)"
| "alloc_next_ptr_loop (Suc n) i prev ch env =
     (case dma_alloc_coherent env (ucast (page_size ch)) of
        (None, env1) \<Rightarrow> (RC_ERR ENOMEM, prev, ch, env1)
      | (Some (virt, phys), env1) \<Rightarrow>
          if i = 0
          then alloc_next_ptr_loop n (Suc i) virt
                 (qed_chain_reset (qed_chain_init_mem ch virt phys)) env1
          else alloc_next_ptr_loop n (Suc i) virt ch
                 (env1\<lparr>chmem := qed_chain_init_next_ptr_elem (chmem env1) ch prev virt phys\<rparr>))"

definition qed_chain_alloc_next_ptr :: "qed_chain \<Rightarrow> chain_env \<Rightarrow> rc \<times> qed_chain \<times> chain_env" where
  "qed_chain_alloc_next_ptr ch env =
     (if page_cnt ch = 0 then (RC_ERR EINVAL, ch, env)
      else
        (case alloc_next_ptr_loop (unat (page_cnt ch)) 0 0 ch env of
           (RC_ERR e, prev, ch1, env1) \<Rightarrow> (RC_ERR e, ch1, env1)
         | (RC_OK, prev, ch1, env1) \<Rightarrow>
             (RC_OK, ch1,
              env1\<lparr>chmem := qed_chain_init_next_ptr_elem (chmem env1) ch1 prev
                            (p_virt_addr ch1) (p_phys_addr ch1)\<rparr>)))"

definition qed_chain_alloc_single :: "qed_chain \<Rightarrow> chain_env \<Rightarrow> rc \<times> qed_chain \<times> chain_env" where
  "qed_chain_alloc_single ch env =
     (case dma_alloc_coherent env (ucast (page_size ch)) of
        (None, env1) \<Rightarrow> (RC_ERR ENOMEM, ch, env1)
      | (Some (virt, phys), env1) \<Rightarrow>
          (RC_OK, qed_chain_reset (qed_chain_init_mem ch virt phys), env1))"

fun alloc_pbl_loop ::
  "nat \<Rightarrow> nat \<Rightarrow> u64 \<Rightarrow> qed_chain \<Rightarrow> chain_env \<Rightarrow> rc \<times> qed_chain \<times> chain_env" where
  "alloc_pbl_loop 0 i p_pbl_virt ch env = (RC_OK, ch, env)"
| "alloc_pbl_loop (Suc n) i p_pbl_virt ch env =
     (case dma_alloc_coherent env (ucast (page_size ch)) of
        (None, env1) \<Rightarrow> (RC_ERR ENOMEM, ch, env1)
      | (Some (virt, phys), env1) \<Rightarrow>
          (let ch1 = (if i = 0 then qed_chain_reset (qed_chain_init_mem ch virt phys) else ch);
               env2 = env1\<lparr>pbl_store := (pbl_store env1)(p_pbl_virt := phys)\<rparr>;
               ch2 = ch1\<lparr>pp_virt_addr_tbl := map_option (\<lambda>t. t[i := virt]) (pp_virt_addr_tbl ch1)\<rparr>
           in alloc_pbl_loop n (Suc i) (p_pbl_virt + ucast QED_CHAIN_PBL_ENTRY_SIZE) ch2 env2))"

record qed_chain_ext_pbl =
  p_pbl_phys :: u64
  p_pbl_virt :: u64

definition qed_chain_alloc_pbl ::
  "qed_chain \<Rightarrow> qed_chain_ext_pbl option \<Rightarrow> chain_env \<Rightarrow> rc \<times> qed_chain \<times> chain_env" where
  "qed_chain_alloc_pbl ch ext_pbl env =
     (case vzalloc_table env (page_cnt ch * sizeof_voidp) of
        (None, env1) \<Rightarrow> (RC_ERR ENOMEM, ch, env1)
      | (Some tbl, env1) \<Rightarrow>
          (let sz = page_cnt ch * QED_CHAIN_PBL_ENTRY_SIZE;
               (virt, phys, ch1, env2) =
                 (case ext_pbl of
                    None \<Rightarrow>
                      (case dma_alloc_coherent env1 (ucast sz) of
                         (None, env2) \<Rightarrow> (0, 0, ch, env2)
                       | (Some (v, p), env2) \<Rightarrow> (v, p, ch, env2))
                  | Some e \<Rightarrow> (p_pbl_virt e, p_pbl_phys e, ch\<lparr>b_external_pbl := True\<rparr>, env1));
               ch2 = qed_chain_init_pbl_mem ch1 virt phys (Some tbl)
           in if virt = 0 then (RC_ERR ENOMEM, ch2, env2)
              else alloc_pbl_loop (unat (page_cnt ch)) 0 virt ch2 env2))"

record qed_chain_params =
  par_intended_use :: qed_chain_use_mode
  par_mode :: qed_chain_mode
  par_cnt_type :: qed_chain_cnt_type
  num_elems :: u32
  par_elem_size :: u64
  par_page_size :: u32
  ext_pbl :: "qed_chain_ext_pbl option"

definition qed_chain_params_init ::
  "qed_chain_use_mode \<Rightarrow> qed_chain_mode \<Rightarrow> qed_chain_cnt_type \<Rightarrow> u32 \<Rightarrow> u64 \<Rightarrow> qed_chain_params" where
  "qed_chain_params_init use m ct n esize =
     \<lparr>par_intended_use = use, par_mode = m, par_cnt_type = ct, num_elems = n,
      par_elem_size = esize, par_page_size = QED_CHAIN_PAGE_SIZE, ext_pbl = None\<rparr>"

definition qed_chain_alloc ::
  "qed_chain \<Rightarrow> qed_chain_params \<Rightarrow> chain_env \<Rightarrow> rc \<times> qed_chain \<times> chain_env" where
  "qed_chain_alloc ch par env =
     (let cnt = (if par_mode par = QED_CHAIN_MODE_SINGLE then 1
                  else QED_CHAIN_PAGE_CNT (num_elems par) (par_elem_size par)
                         (ucast (par_page_size par)) (par_mode par))
      in case qed_chain_alloc_sanity_check (par_cnt_type par) (par_elem_size par)
                (par_page_size par) cnt of
           RC_ERR e \<Rightarrow> (RC_ERR e, ch, env)
         | RC_OK \<Rightarrow>
             (let ch1 = qed_chain_init ch cnt (ucast (par_elem_size par)) (par_page_size par)
                          (par_intended_use par) (par_mode par) (par_cnt_type par);
                  (rc, ch2, env2) =
                    (case par_mode par of
                       QED_CHAIN_MODE_NEXT_PTR \<Rightarrow> qed_chain_alloc_next_ptr ch1 env
                     | QED_CHAIN_MODE_SINGLE \<Rightarrow> qed_chain_alloc_single ch1 env
                     | QED_CHAIN_MODE_PBL \<Rightarrow> qed_chain_alloc_pbl ch1 (ext_pbl par) env)
              in case rc of
                   RC_OK \<Rightarrow> (RC_OK, ch2, env2)
                 | RC_ERR e \<Rightarrow> (let (ch3, env3) = qed_chain_free ch2 env2 in (RC_ERR e, ch3, env3))))"

end
