(* ===== verification/Qed_Spq.thy ===== *)
theory Qed_Spq
  imports Qed_Chain_Alloc
begin

text \<open>
  The slow path queue (\<open>qed_spq.c\<close>): the driver posts ramrods on a chain shared with the
  firmware and learns of their completion, possibly out of order, through the event queue.
  Entries come from a pool as large as the ring; when it is empty they are allocated on the
  side and wait in \<open>unlimited_pending\<close> until a pool entry is free.

  Entries are addressed by pointer, their contents are in the store \<open>ents\<close>, and the four lists
  hold pointers. The outcomes of \<open>kzalloc\<close> are a list in the state; \<open>kzalloced\<close> and \<open>kfreed\<close>
  log the calls. What the device sees is the ring memory \<open>spq_ring\<close> and the doorbell values.
  The spin lock makes each locked section one step.
\<close>

section \<open>Data\<close>

type_synonym ptr = u64

datatype spq_mode = QED_SPQ_MODE_BLOCK | QED_SPQ_MODE_CB | QED_SPQ_MODE_EBLOCK

datatype spq_priority = QED_SPQ_PRIORITY_NORMAL | QED_SPQ_PRIORITY_HIGH

datatype spq_queue = Q_none | Q_pending | Q_unlimited_pending

text \<open>The completion callback: none, \<open>qed_spq_blocking_cb\<close>, or one of the client.\<close>

datatype spq_cb = Cb_none | Cb_blocking | Cb_client

text \<open>
  The cookie of a callback is an untyped pointer. \<open>Ck_ent p\<close> is \<open>&p->comp_done\<close> of an entry,
  \<open>Ck_client c\<close> an object of the client (a \<open>struct qed_spq_comp_done\<close> for a blocking callback).
\<close>

datatype spq_cookie = Ck_ent ptr | Ck_client ptr

record slow_path_element =
  hdr_cid :: u32
  hdr_cmd_id :: u8
  hdr_protocol_id :: u8
  hdr_echo :: u16
  data_ptr :: u64

record qed_spq_comp_done =
  done_flag :: u64
  done_fw_return_code :: u8

record qed_spq_entry =
  ent_flags :: u8
  elem :: slow_path_element
  ramrod :: "nat \<Rightarrow> u8"
  priority :: spq_priority
  queue :: spq_queue
  comp_mode :: spq_mode
  cb_function :: spq_cb
  cb_cookie :: spq_cookie
  comp_done :: qed_spq_comp_done
  post_ent :: "ptr option"

record core_db_data =
  db_params :: u8
  db_agg_flags :: u8
  db_spq_prod :: u16

record qed_spq =
  unlimited_pending :: "ptr list"
  pending :: "ptr list"
  completion_pending :: "ptr list"
  free_pool :: "ptr list"
  spq_chain :: qed_chain
  spq_p_virt :: ptr
  spq_p_phys :: u64
  block_sleep_max_iter :: u32
  p_comp_bitmap :: "bool list"
  comp_bitmap_idx :: u8
  unlimited_pending_count :: u32
  normal_count :: u32
  high_count :: u32
  comp_sent_count :: u32
  comp_count :: u32
  cid :: u32
  db_addr_offset :: u32
  db_data :: core_db_data
  drop_next_completion :: bool
  async_comp_cb :: "u8 \<Rightarrow> bool"
  ents :: "ptr \<Rightarrow> qed_spq_entry"
  client_done :: "ptr \<Rightarrow> qed_spq_comp_done"
  kz_results :: "ptr option list"
  kzalloced :: "ptr list"
  kfreed :: "ptr list"
  spq_ring :: "u64 \<Rightarrow> slow_path_element"
  doorbells :: "(u32 \<times> u32) list"
  cb_calls :: "(spq_cookie \<times> u8) list"

definition SPQ_RING_SIZE :: nat where
  "SPQ_RING_SIZE = 256"

definition SPQ_HIGH_PRI_RESERVE_DEFAULT :: u32 where
  "SPQ_HIGH_PRI_RESERVE_DEFAULT = 1"

definition SPQ_BLOCK_DELAY_MAX_ITER :: u32 where
  "SPQ_BLOCK_DELAY_MAX_ITER = 10"

definition SPQ_BLOCK_SLEEP_MAX_ITER :: u32 where
  "SPQ_BLOCK_SLEEP_MAX_ITER = 200"

definition SPQ_BLOCK_SLEEP_MS :: u32 where
  "SPQ_BLOCK_SLEEP_MS = 5"

definition upd_ent :: "ptr \<Rightarrow> (qed_spq_entry \<Rightarrow> qed_spq_entry) \<Rightarrow> qed_spq \<Rightarrow> qed_spq" where
  "upd_ent p f s = s\<lparr>ents := (ents s)(p := f (ents s p))\<rparr>"

section \<open>Blocking\<close>

definition qed_spq_blocking_cb :: "spq_cookie \<Rightarrow> u8 \<Rightarrow> qed_spq \<Rightarrow> qed_spq" where
  "qed_spq_blocking_cb cookie fw s =
     (let cd = \<lparr>done_flag = 1, done_fw_return_code = fw\<rparr>
      in case cookie of
           Ck_ent p \<Rightarrow> upd_ent p (\<lambda>e. e\<lparr>comp_done := cd\<rparr>) s
         | Ck_client c \<Rightarrow> s\<lparr>client_done := (client_done s)(c := cd)\<rparr>)"

text \<open>
  What the poller sees at each iteration: whether a recovery is in progress, and the completion
  flag of the entry. The polls of one call take the observations of the stream \<open>obs\<close> from
  position \<open>t\<close> on; the result gives the return code, the firmware code read and the position
  after the last poll.
\<close>

record spq_obs =
  obs_recov :: bool
  obs_done :: u64
  obs_fw :: u8

fun spq_poll :: "nat \<Rightarrow> (nat \<Rightarrow> spq_obs) \<Rightarrow> nat \<Rightarrow> rc \<times> u8 option \<times> nat" where
  "spq_poll 0 obs t = (RC_ERR EBUSY, None, t)"
| "spq_poll (Suc n) obs t =
     (if obs_recov (obs t) then (RC_OK, None, t)
      else if obs_done (obs t) = 1 then (RC_OK, Some (obs_fw (obs t)), t)
      else spq_poll n obs (Suc t))"

definition spq_iter_cnt :: "bool \<Rightarrow> bool \<Rightarrow> qed_spq \<Rightarrow> u32" where
  "spq_iter_cnt emul sleep_between_iter s =
     (let n = (if sleep_between_iter then block_sleep_max_iter s else SPQ_BLOCK_DELAY_MAX_ITER)
      in if emul \<and> sleep_between_iter then n * 5 else n)"

definition qed_spq_block_loop ::
  "bool \<Rightarrow> bool \<Rightarrow> qed_spq \<Rightarrow> (nat \<Rightarrow> spq_obs) \<Rightarrow> nat \<Rightarrow> rc \<times> u8 option \<times> nat" where
  "qed_spq_block_loop emul sleep_between_iter s obs t =
     spq_poll (unat (spq_iter_cnt emul sleep_between_iter s)) obs t"

text \<open>
  The management firmware is asked to drain between the two sleeping polls: \<open>ptt\<close> tells whether
  a register window was free, \<open>drain\<close> the outcome of the drain command. The report of a stuck
  ramrod at the end (text output, and the error handler of the upper layer if a window is free)
  changes neither the queue nor the result and is left out.
\<close>

definition qed_spq_block ::
  "bool \<Rightarrow> qed_spq \<Rightarrow> bool \<Rightarrow> bool \<Rightarrow> rc \<Rightarrow> (nat \<Rightarrow> spq_obs) \<Rightarrow> rc \<times> u8 option \<times> nat" where
  "qed_spq_block emul s skip_quick_poll ptt drain obs =
     (let (rc0, fw0, t0) = (if skip_quick_poll then (RC_ERR EBUSY, None, 0)
                            else qed_spq_block_loop emul False s obs 0)
      in if rc0 = RC_OK then (rc0, fw0, t0)
         else
           (let (rc1, fw1, t1) = qed_spq_block_loop emul True s obs t0
            in if rc1 = RC_OK then (rc1, fw1, t1)
               else if \<not> ptt then (rc1, None, t1)
               else if drain \<noteq> RC_OK then (drain, None, t1)
               else
                 (let (rc2, fw2, t2) = qed_spq_block_loop emul True s obs t1
                  in if rc2 = RC_OK then (rc2, fw2, t2)
                     else if obs_done (obs t2) = 1 then (RC_OK, Some (obs_fw (obs t2)), t2)
                     else (RC_ERR EBUSY, None, t2))))"

definition qed_set_spq_block_timeout :: "u32 \<Rightarrow> qed_spq \<Rightarrow> qed_spq" where
  "qed_set_spq_block_timeout ms s =
     s\<lparr>block_sleep_max_iter := (if ms \<noteq> 0 then ms div SPQ_BLOCK_SLEEP_MS else SPQ_BLOCK_SLEEP_MAX_ITER)\<rparr>"

section \<open>Entries\<close>

text \<open>
  The completion mode and the priority are values of their enumerations, so the branches of
  \<open>qed_spq_fill_entry\<close> and \<open>qed_spq_add_entry\<close> that report an unknown one have no counterpart, and
  neither function fails.
\<close>

definition qed_spq_fill_entry :: "ptr \<Rightarrow> qed_spq \<Rightarrow> qed_spq" where
  "qed_spq_fill_entry p s =
     upd_ent p (\<lambda>e. let e1 = e\<lparr>ent_flags := 0\<rparr>
                    in case comp_mode e1 of
                         QED_SPQ_MODE_EBLOCK \<Rightarrow> e1\<lparr>cb_function := Cb_blocking\<rparr>
                       | QED_SPQ_MODE_BLOCK \<Rightarrow> e1\<lparr>cb_function := Cb_blocking\<rparr>
                       | QED_SPQ_MODE_CB \<Rightarrow> e1) s"

text \<open>The doorbell data as the 32-bit value that is written.\<close>

definition core_db_u32 :: "core_db_data \<Rightarrow> u32" where
  "core_db_u32 db =
     ucast (db_params db) OR push_bit 8 (ucast (db_agg_flags db)) OR push_bit 16 (ucast (db_spq_prod db))"

definition qed_spq_hw_post :: "chain_mem \<Rightarrow> ptr \<Rightarrow> qed_spq \<Rightarrow> rc \<times> qed_spq" where
  "qed_spq_hw_post mem p s =
     (let echo = qed_chain_get_prod_idx (spq_chain s);
          s1 = upd_ent p (\<lambda>e. e\<lparr>elem := (elem e)\<lparr>hdr_echo := echo\<rparr>\<rparr>) s;
          (addr, ch) = qed_chain_produce mem (spq_chain s1);
          s2 = s1\<lparr>spq_chain := ch\<rparr>
      in if addr = 0 then (RC_ERR EINVAL, s2)
         else
           (let db = (db_data s2)\<lparr>db_spq_prod := qed_chain_get_prod_idx ch\<rparr>
            in (RC_OK, s2\<lparr>spq_ring := (spq_ring s2)(addr := elem (ents s2 p)), db_data := db,
                          doorbells := doorbells s2 @ [(db_addr_offset s2, core_db_u32 db)]\<rparr>)))"

definition zero_entry :: qed_spq_entry where
  "zero_entry =
     \<lparr>ent_flags = 0,
      elem = \<lparr>hdr_cid = 0, hdr_cmd_id = 0, hdr_protocol_id = 0, hdr_echo = 0, data_ptr = 0\<rparr>,
      ramrod = (\<lambda>_. 0), priority = QED_SPQ_PRIORITY_NORMAL, queue = Q_none,
      comp_mode = QED_SPQ_MODE_BLOCK, cb_function = Cb_none, cb_cookie = Ck_client 0,
      comp_done = \<lparr>done_flag = 0, done_fw_return_code = 0\<rparr>, post_ent = None\<rparr>"

definition qed_spq_get_entry :: "qed_spq \<Rightarrow> (errno + ptr) \<times> qed_spq" where
  "qed_spq_get_entry s =
     (case free_pool s of
        [] \<Rightarrow>
          (case kz_results s of
             Some p # rs \<Rightarrow>
               (Inr p, upd_ent p (\<lambda>_. zero_entry\<lparr>queue := Q_unlimited_pending\<rparr>)
                  (s\<lparr>kz_results := rs, kzalloced := kzalloced s @ [p]\<rparr>))
           | None # rs \<Rightarrow> (Inl ENOMEM, s\<lparr>kz_results := rs\<rparr>)
           | [] \<Rightarrow> (Inl ENOMEM, s))
      | p # ps \<Rightarrow>
          (Inr p, upd_ent p (\<lambda>e. e\<lparr>queue := Q_pending\<rparr>) (s\<lparr>free_pool := list_del p (free_pool s)\<rparr>)))"

definition qed_spq_return_entry :: "ptr \<Rightarrow> qed_spq \<Rightarrow> qed_spq" where
  "qed_spq_return_entry p s = s\<lparr>free_pool := list_add_tail p (free_pool s)\<rparr>"

definition kfree_ent :: "ptr \<Rightarrow> qed_spq \<Rightarrow> qed_spq" where
  "kfree_ent p s = s\<lparr>kfreed := kfreed s @ [p]\<rparr>"

text \<open>The second half of \<open>qed_spq_add_entry\<close>: the entry goes on the pending list.\<close>

definition spq_enqueue :: "ptr \<Rightarrow> spq_priority \<Rightarrow> qed_spq \<Rightarrow> qed_spq" where
  "spq_enqueue p prio s =
     (case prio of
        QED_SPQ_PRIORITY_NORMAL \<Rightarrow>
          s\<lparr>pending := list_add_tail p (pending s), normal_count := normal_count s + 1\<rparr>
      | QED_SPQ_PRIORITY_HIGH \<Rightarrow>
          s\<lparr>pending := list_add p (pending s), high_count := high_count s + 1\<rparr>)"

definition qed_spq_add_entry :: "ptr \<Rightarrow> spq_priority \<Rightarrow> qed_spq \<Rightarrow> qed_spq" where
  "qed_spq_add_entry p prio s =
     (if queue (ents s p) = Q_unlimited_pending then
        (case free_pool s of
           [] \<Rightarrow> s\<lparr>unlimited_pending := list_add_tail p (unlimited_pending s),
                    unlimited_pending_count := unlimited_pending_count s + 1\<rparr>
         | q # qs \<Rightarrow>
             (let s1 = s\<lparr>free_pool := list_del q (free_pool s)\<rparr>;
                  s2 = upd_ent p (\<lambda>e. e\<lparr>elem := (elem e)\<lparr>data_ptr := data_ptr (elem (ents s1 q))\<rparr>\<rparr>) s1;
                  s3 = upd_ent q (\<lambda>_. ents s2 p) s2;
                  s4 = (if comp_mode (ents s3 p) \<noteq> QED_SPQ_MODE_EBLOCK then kfree_ent p s3
                        else upd_ent p (\<lambda>e. e\<lparr>post_ent := Some q\<rparr>) s3)
              in spq_enqueue q prio s4))
      else spq_enqueue p prio s)"

section \<open>Posting\<close>

text \<open>The loop over the pending list, the only list it is called with.\<close>

function qed_spq_post_list :: "chain_mem \<Rightarrow> u32 \<Rightarrow> qed_spq \<Rightarrow> rc \<times> qed_spq" where
  "qed_spq_post_list mem keep_reserve s =
     (if ucast (qed_chain_get_elem_left (spq_chain s)) > keep_reserve \<and> pending s \<noteq> [] then
        (let p = hd (pending s);
             s1 = s\<lparr>pending := tl (pending s),
                    completion_pending := list_add_tail p (completion_pending s),
                    comp_sent_count := comp_sent_count s + 1\<rparr>;
             (rc, s2) = qed_spq_hw_post mem p s1
         in case rc of
              RC_OK \<Rightarrow> qed_spq_post_list mem keep_reserve s2
            | RC_ERR e \<Rightarrow>
                (RC_ERR e, qed_spq_return_entry p
                   (s2\<lparr>completion_pending := list_del p (completion_pending s2)\<rparr>)))
      else (RC_OK, s))"
  by auto
termination
proof (relation "measure (\<lambda>(mem, r, s). length (pending s))", goal_cases)
  case (2 mem keep_reserve s p s1 rcs rc s2)
  then have "pending s2 = pending s1"
    by (auto simp: qed_spq_hw_post_def upd_ent_def Let_def split: prod.splits if_splits)
  then show ?case using 2 by (cases "pending s") auto
qed simp

declare qed_spq_post_list.simps [simp del]

lemma add_entry_unlimited:
  assumes "free_pool s \<noteq> []"
  shows "unlimited_pending (qed_spq_add_entry p prio s) = unlimited_pending s"
  using assms
  by (auto simp: qed_spq_add_entry_def spq_enqueue_def upd_ent_def kfree_ent_def Let_def
      split: list.split spq_priority.split)

function spq_refill :: "qed_spq \<Rightarrow> qed_spq" where
  "spq_refill s =
     (if free_pool s \<noteq> [] \<and> unlimited_pending s \<noteq> [] then
        (let p = hd (unlimited_pending s);
             s1 = s\<lparr>unlimited_pending := tl (unlimited_pending s)\<rparr>
         in spq_refill (qed_spq_add_entry p (priority (ents s1 p)) s1))
      else s)"
  by auto
termination
proof (relation "measure (\<lambda>s. length (unlimited_pending s))", goal_cases)
  case (2 s p s1)
  then have "unlimited_pending (qed_spq_add_entry p (priority (ents s1 p)) s1) = unlimited_pending s1"
    by (intro add_entry_unlimited) simp
  then show ?case using 2 by (cases "unlimited_pending s") auto
qed simp

declare spq_refill.simps [simp del]

definition qed_spq_pend_post :: "chain_mem \<Rightarrow> qed_spq \<Rightarrow> rc \<times> qed_spq" where
  "qed_spq_pend_post mem s = qed_spq_post_list mem SPQ_HIGH_PRI_RESERVE_DEFAULT (spq_refill s)"

section \<open>Completions\<close>

definition SPQ_COMP_BMAP_SET_BIT :: "u16 \<Rightarrow> qed_spq \<Rightarrow> qed_spq" where
  "SPQ_COMP_BMAP_SET_BIT idx s =
     s\<lparr>p_comp_bitmap := (p_comp_bitmap s)[unat idx mod SPQ_RING_SIZE := True]\<rparr>"

definition SPQ_COMP_BMAP_CLEAR_BIT :: "u16 \<Rightarrow> qed_spq \<Rightarrow> qed_spq" where
  "SPQ_COMP_BMAP_CLEAR_BIT idx s =
     s\<lparr>p_comp_bitmap := (p_comp_bitmap s)[unat idx mod SPQ_RING_SIZE := False]\<rparr>"

definition SPQ_COMP_BMAP_TEST_BIT :: "u16 \<Rightarrow> qed_spq \<Rightarrow> bool" where
  "SPQ_COMP_BMAP_TEST_BIT idx s \<longleftrightarrow>
     unat idx mod SPQ_RING_SIZE < length (p_comp_bitmap s) \<and>
     p_comp_bitmap s ! (unat idx mod SPQ_RING_SIZE)"

text \<open>The loop over the completed entries at the head of the ring.\<close>

function comp_bmap_advance :: "qed_spq \<Rightarrow> qed_spq" where
  "comp_bmap_advance s =
     (if SPQ_COMP_BMAP_TEST_BIT (ucast (comp_bitmap_idx s)) s then
        (let s1 = SPQ_COMP_BMAP_CLEAR_BIT (ucast (comp_bitmap_idx s)) s
         in comp_bmap_advance (s1\<lparr>comp_bitmap_idx := comp_bitmap_idx s1 + 1,
                                  spq_chain := qed_chain_return_produced (spq_chain s1)\<rparr>))
      else s)"
  by auto
termination
proof (relation "measure (\<lambda>s. count_list (p_comp_bitmap s) True)", goal_cases)
  case (2 s s1)
  let ?i = "unat (ucast (comp_bitmap_idx s) :: u16) mod SPQ_RING_SIZE"
  have i: "?i < length (p_comp_bitmap s)" "p_comp_bitmap s ! ?i"
    using 2(1) by (auto simp: SPQ_COMP_BMAP_TEST_BIT_def)
  have "count_list (xs[i := False]) True < count_list xs True" if "i < length xs" "xs ! i" for xs i
    using that
  proof (induction xs arbitrary: i)
    case (Cons x xs)
    then show ?case by (cases i) auto
  qed simp
  from this [OF i] show ?case using 2(2) by (simp add: SPQ_COMP_BMAP_CLEAR_BIT_def)
qed simp

declare comp_bmap_advance.simps [simp del]

definition qed_spq_comp_bmap_update :: "u16 \<Rightarrow> qed_spq \<Rightarrow> qed_spq" where
  "qed_spq_comp_bmap_update echo s = comp_bmap_advance (SPQ_COMP_BMAP_SET_BIT echo s)"

text \<open>
  The search of the completion, in the order of the list. The callback of a client is code of
  the client; the model logs its call.
\<close>

definition spq_run_cb :: "ptr \<Rightarrow> u8 \<Rightarrow> qed_spq \<Rightarrow> qed_spq" where
  "spq_run_cb p fw s =
     (case cb_function (ents s p) of
        Cb_none \<Rightarrow> s
      | Cb_blocking \<Rightarrow> qed_spq_blocking_cb (cb_cookie (ents s p)) fw s
      | Cb_client \<Rightarrow> s\<lparr>cb_calls := cb_calls s @ [(cb_cookie (ents s p), fw)]\<rparr>)"

text \<open>The section under the lock; the result is the entry found, if any.\<close>

definition spq_completion_locked :: "u16 \<Rightarrow> qed_spq \<Rightarrow> rc \<times> ptr option \<times> qed_spq" where
  "spq_completion_locked echo s =
     (case find (\<lambda>p. hdr_echo (elem (ents s p)) = echo) (completion_pending s) of
        None \<Rightarrow> (RC_ERR EEXIST, None, s)
      | Some p \<Rightarrow>
          if drop_next_completion s \<and> comp_mode (ents s p) = QED_SPQ_MODE_EBLOCK
          then (RC_OK, None, s\<lparr>drop_next_completion := False\<rparr>)
          else
            (let s1 = s\<lparr>completion_pending := list_del p (completion_pending s)\<rparr>;
                 s2 = qed_spq_comp_bmap_update echo s1
             in (RC_OK, Some p, s2\<lparr>comp_count := comp_count s2 + 1\<rparr>)))"

text \<open>The rest runs without the lock: the callback, then the return of the entry.\<close>

definition qed_spq_completion :: "u16 \<Rightarrow> u8 \<Rightarrow> qed_spq \<Rightarrow> rc \<times> qed_spq" where
  "qed_spq_completion echo fw s =
     (case spq_completion_locked echo s of
        (rc, None, s1) \<Rightarrow> (rc, s1)
      | (rc, Some p, s1) \<Rightarrow>
          (let s2 = spq_run_cb p fw s1
           in (RC_OK, if comp_mode (ents s2 p) \<noteq> QED_SPQ_MODE_EBLOCK
                      then qed_spq_return_entry p s2 else s2)))"

definition qed_cqe_completion :: "bool \<Rightarrow> u16 \<Rightarrow> qed_spq \<Rightarrow> rc \<times> qed_spq" where
  "qed_cqe_completion is_vf echo s = (if is_vf then (RC_OK, s) else qed_spq_completion echo 0 s)"

definition qed_spq_drop_next_completion :: "qed_spq \<Rightarrow> qed_spq" where
  "qed_spq_drop_next_completion s = s\<lparr>drop_next_completion := True\<rparr>"

section \<open>Posting a ramrod\<close>

definition PROTOCOLID_ROCE :: u8 where
  "PROTOCOLID_ROCE = 2"

definition PROTOCOLID_IWARP :: u8 where
  "PROTOCOLID_IWARP = 5"

definition PROTOCOLID_COMMON :: u8 where
  "PROTOCOLID_COMMON = 8"

definition RDMA_RETURN_OK :: u8 where
  "RDMA_RETURN_OK = 0"

text \<open>\<open>None\<close> is a NULL \<open>fw_return_code\<close>.\<close>

definition qed_spq_recov_set_ret_code :: "qed_spq_entry \<Rightarrow> u8 option \<Rightarrow> u8 option" where
  "qed_spq_recov_set_ret_code e fw_return_code =
     (case fw_return_code of
        None \<Rightarrow> None
      | Some v \<Rightarrow>
          if hdr_protocol_id (elem e) = PROTOCOLID_ROCE \<or> hdr_protocol_id (elem e) = PROTOCOLID_IWARP
          then Some RDMA_RETURN_OK else Some v)"

text \<open>
  The section of \<open>qed_spq_post\<close> under the lock. The flag of the result tells that the caller
  goes on to wait for the completion.
\<close>

definition spq_submit :: "chain_mem \<Rightarrow> ptr \<Rightarrow> qed_spq \<Rightarrow> rc \<times> bool \<times> qed_spq" where
  "spq_submit mem p s =
     (let s1 = qed_spq_fill_entry p s;
          eblock = (comp_mode (ents s1 p) = QED_SPQ_MODE_EBLOCK);
          s2 = qed_spq_add_entry p (priority (ents s1 p)) s1;
          (rc, s3) = qed_spq_pend_post mem s2
      in (rc, rc = RC_OK \<and> eblock, s3))"

text \<open>
  The section after the wait, with its outcome \<open>rc\<close>. The code follows pointers that may be
  invalid at two places: a NULL \<open>post_ent\<close>, and the links of an entry that is on no list
  any more. The model has no result there.
\<close>

definition spq_after_block :: "ptr \<Rightarrow> rc \<Rightarrow> qed_spq \<Rightarrow> qed_spq option" where
  "spq_after_block p rc s =
     (let unlim = (queue (ents s p) = Q_unlimited_pending);
          tgt = (if unlim then post_ent (ents s p) else Some p);
          s1 = (if unlim then kfree_ent p s else s)
      in case tgt of
           None \<Rightarrow> None
         | Some q \<Rightarrow>
             if rc = RC_OK then Some (qed_spq_return_entry q s1)
             else if q \<notin> set (pending s1) \<union> set (completion_pending s1) then None
             else
               (let s2 = s1\<lparr>pending := list_del q (pending s1),
                            completion_pending := list_del q (completion_pending s1)\<rparr>;
                    s3 = qed_spq_comp_bmap_update (hdr_echo (elem (ents s2 q))) s2
                in Some (qed_spq_return_entry q s3)))"

text \<open>
  \<open>qed_spq_post\<close>. The other threads and the interrupt handler run while the caller waits:
  \<open>world\<close> is their effect on the state, and the observations of the wait are \<open>obs\<close>.
\<close>

definition qed_spq_post ::
  "chain_mem \<Rightarrow> bool \<Rightarrow> bool \<Rightarrow> bool \<Rightarrow> rc \<Rightarrow> (nat \<Rightarrow> spq_obs) \<Rightarrow> (qed_spq \<Rightarrow> qed_spq) \<Rightarrow>
   ptr option \<Rightarrow> u8 option \<Rightarrow> qed_spq \<Rightarrow> (rc \<times> u8 option \<times> qed_spq) option" where
  "qed_spq_post mem recov_in_prog emul ptt drain obs world p_ent fw_return_code s =
     (case p_ent of
        None \<Rightarrow> Some (RC_ERR EINVAL, fw_return_code, s)
      | Some p \<Rightarrow>
          if recov_in_prog then Some (RC_OK, qed_spq_recov_set_ret_code (ents s p) fw_return_code, s)
          else
            (let (rc, wait, s1) = spq_submit mem p s
             in if \<not> wait then Some (rc, fw_return_code, s1)
                else
                  (let (rc2, fw, t) =
                         qed_spq_block emul s1 (queue (ents s1 p) = Q_unlimited_pending) ptt drain obs;
                       fw_out = (case (fw_return_code, fw) of (Some _, Some v) \<Rightarrow> Some v | _ \<Rightarrow> fw_return_code)
                   in case spq_after_block p rc2 (world s1) of
                        None \<Rightarrow> None
                      | Some s2 \<Rightarrow> Some (rc2, fw_out, s2))))"

section \<open>Requests (\<open>qed_sp_commands.c\<close>)\<close>

definition qed_sp_destroy_request :: "ptr \<Rightarrow> qed_spq \<Rightarrow> qed_spq" where
  "qed_sp_destroy_request p s =
     (if queue (ents s p) = Q_unlimited_pending then kfree_ent p s else qed_spq_return_entry p s)"

record qed_sp_init_data =
  init_cid :: u32
  init_opaque_fid :: u16
  init_comp_mode :: spq_mode
  p_comp_data :: "(spq_cb \<times> spq_cookie) option"

definition sp_fill_hdr :: "u8 \<Rightarrow> u8 \<Rightarrow> qed_sp_init_data \<Rightarrow> qed_spq_entry \<Rightarrow> qed_spq_entry" where
  "sp_fill_hdr cmd protocol dat e =
     (let opaque_cid = push_bit 16 (ucast (init_opaque_fid dat)) OR init_cid dat
      in e\<lparr>elem := (elem e)\<lparr>hdr_cid := opaque_cid, hdr_cmd_id := cmd, hdr_protocol_id := protocol\<rparr>,
           priority := QED_SPQ_PRIORITY_NORMAL, comp_mode := init_comp_mode dat,
           comp_done := (comp_done e)\<lparr>done_flag := 0\<rparr>\<rparr>)"

definition sp_fill_cb :: "ptr \<Rightarrow> qed_sp_init_data \<Rightarrow> qed_spq_entry \<Rightarrow> qed_spq_entry option" where
  "sp_fill_cb p dat e =
     (case comp_mode e of
        QED_SPQ_MODE_EBLOCK \<Rightarrow> Some (e\<lparr>cb_cookie := Ck_ent p\<rparr>)
      | QED_SPQ_MODE_BLOCK \<Rightarrow>
          (case p_comp_data dat of None \<Rightarrow> None | Some (f, c) \<Rightarrow> Some (e\<lparr>cb_cookie := c\<rparr>))
      | QED_SPQ_MODE_CB \<Rightarrow>
          (case p_comp_data dat of
             None \<Rightarrow> Some (e\<lparr>cb_function := Cb_none\<rparr>)
           | Some (f, c) \<Rightarrow> Some (e\<lparr>cb_function := f, cb_cookie := c\<rparr>)))"

definition qed_sp_init_request ::
  "u8 \<Rightarrow> u8 \<Rightarrow> qed_sp_init_data \<Rightarrow> qed_spq \<Rightarrow> (errno + ptr) \<times> qed_spq" where
  "qed_sp_init_request cmd protocol dat s =
     (case qed_spq_get_entry s of
        (Inl e, s1) \<Rightarrow> (Inl e, s1)
      | (Inr p, s1) \<Rightarrow>
          (let s2 = upd_ent p (sp_fill_hdr cmd protocol dat) s1
           in case sp_fill_cb p dat (ents s2 p) of
                None \<Rightarrow> (Inl EINVAL, qed_sp_destroy_request p s2)
              | Some e \<Rightarrow> (Inr p, upd_ent p (\<lambda>_. e\<lparr>ramrod := (\<lambda>_. 0)\<rparr>) s2)))"

section \<open>Event queue\<close>

record event_ring_entry =
  eqe_protocol_id :: u8
  eqe_opcode :: u8
  eqe_flags :: u8
  eqe_fw_return_code :: u8
  eqe_vf_id :: u8
  eqe_echo :: u16

definition MAX_PROTOCOL_TYPE :: u8 where
  "MAX_PROTOCOL_TYPE = 12"

definition QED_CXT_PF_CID :: u8 where
  "QED_CXT_PF_CID = 0xff"

definition ROCE_ASYNC_EVENT_DESTROY_QP_DONE :: u8 where
  "ROCE_ASYNC_EVENT_DESTROY_QP_DONE = 12"

definition qed_spq_register_async_cb :: "u8 \<Rightarrow> qed_spq option \<Rightarrow> rc \<times> qed_spq option" where
  "qed_spq_register_async_cb proto s =
     (case s of
        None \<Rightarrow> (RC_ERR EINVAL, None)
      | Some s1 \<Rightarrow>
          if proto \<ge> MAX_PROTOCOL_TYPE then (RC_ERR EINVAL, Some s1)
          else (RC_OK, Some (s1\<lparr>async_comp_cb := (async_comp_cb s1)(proto := True)\<rparr>)))"

definition qed_spq_unregister_async_cb :: "u8 \<Rightarrow> qed_spq option \<Rightarrow> qed_spq option" where
  "qed_spq_unregister_async_cb proto s =
     (case s of
        None \<Rightarrow> None
      | Some s1 \<Rightarrow>
          if proto \<ge> MAX_PROTOCOL_TYPE then Some s1
          else Some (s1\<lparr>async_comp_cb := (async_comp_cb s1)(proto := False)\<rparr>))"

text \<open>
  Where an asynchronous event goes. The handlers themselves (the registered callback of the
  protocol, the SR-IOV handler for events of virtual functions) are other components.
\<close>

datatype async_dest = Async_invalid | Async_iov | Async_no_cb | Async_cb u8

definition qed_async_event_completion :: "bool \<Rightarrow> event_ring_entry \<Rightarrow> qed_spq \<Rightarrow> async_dest" where
  "qed_async_event_completion is_pf e s =
     (if eqe_protocol_id e \<ge> MAX_PROTOCOL_TYPE then Async_invalid
      else if is_pf \<and> eqe_vf_id e \<noteq> QED_CXT_PF_CID \<and> eqe_protocol_id e \<noteq> PROTOCOLID_COMMON \<and>
              \<not> (eqe_protocol_id e = PROTOCOLID_ROCE \<and> eqe_opcode e = ROCE_ASYNC_EVENT_DESTROY_QP_DONE)
      then Async_iov
      else if \<not> async_comp_cb s (eqe_protocol_id e) then Async_no_cb
      else Async_cb (eqe_protocol_id e))"

record qed_eq =
  eq_chain :: qed_chain
  eq_async :: "(event_ring_entry \<times> async_dest) list"
  eq_prod :: u16

text \<open>
  One round of the loop: an entry is consumed, handled and given back. \<open>ring\<close> is the event
  ring memory the firmware writes.
\<close>

definition eq_one ::
  "chain_mem \<Rightarrow> (u64 \<Rightarrow> event_ring_entry) \<Rightarrow> bool \<Rightarrow> qed_eq \<times> qed_spq \<Rightarrow> (qed_eq \<times> qed_spq) option" where
  "eq_one mem ring is_pf st =
     (let (eq, s) = st;
          (addr, ch) = qed_chain_consume mem (eq_chain eq);
          eq1 = eq\<lparr>eq_chain := ch\<rparr>; e = ring addr
      in if addr = 0 then None
         else
           (let (eq2, s2) =
              (if eqe_flags e AND 1 = 1
               then (eq1\<lparr>eq_async := eq_async eq1 @ [(e, qed_async_event_completion is_pf e s)]\<rparr>, s)
               else (eq1, snd (qed_spq_completion (eqe_echo e) (eqe_fw_return_code e) s)))
            in Some (eq2\<lparr>eq_chain := qed_chain_recycle_consumed (eq_chain eq2)\<rparr>, s2)))"

text \<open>
  The loop ends when the consumer index meets the index the firmware published (or on a NULL
  element, which the code treats as an error and leaves the loop).
\<close>

partial_function (option) eq_loop ::
  "chain_mem \<Rightarrow> (u64 \<Rightarrow> event_ring_entry) \<Rightarrow> bool \<Rightarrow> u16 \<Rightarrow> qed_eq \<times> qed_spq \<Rightarrow> (qed_eq \<times> qed_spq) option" where
  "eq_loop mem ring is_pf fw_cons_idx st =
     (if fw_cons_idx \<noteq> qed_chain_get_cons_idx (eq_chain (fst st))
      then (case eq_one mem ring is_pf st of
              None \<Rightarrow> Some ((fst st)\<lparr>eq_chain := snd (qed_chain_consume mem (eq_chain (fst st)))\<rparr>, snd st)
            | Some st1 \<Rightarrow> eq_loop mem ring is_pf fw_cons_idx st1)
      else Some st)"

definition qed_eq_completion ::
  "chain_mem \<Rightarrow> chain_mem \<Rightarrow> (u64 \<Rightarrow> event_ring_entry) \<Rightarrow> bool \<Rightarrow> u16 \<Rightarrow> qed_eq \<Rightarrow> qed_spq option
   \<Rightarrow> (rc \<times> qed_eq \<times> qed_spq option) option" where
  "qed_eq_completion eq_mem spq_mem ring is_pf p_fw_cons eq p_spq =
     (case p_spq of
        None \<Rightarrow> Some (RC_ERR EINVAL, eq, None)
      | Some s \<Rightarrow>
          (let ch = eq_chain eq;
               upp = qed_chain_get_usable_per_page ch;
               fw = (if p_fw_cons AND upp = upp
                     then p_fw_cons + ucast (qed_chain_get_unusable_per_page ch) else p_fw_cons)
           in case eq_loop eq_mem ring is_pf fw (eq, s) of
                None \<Rightarrow> None
              | Some (eq1, s1) \<Rightarrow>
                  (let eq2 = eq1\<lparr>eq_prod := qed_chain_get_prod_idx (eq_chain eq1)\<rparr>;
                       (rc, s2) = qed_spq_pend_post spq_mem s1
                   in Some (rc, eq2, Some s2))))"

section \<open>Set up\<close>

text \<open>The pool: entry \<open>i\<close> of the array, with the bus address of its ramrod data.\<close>

fun spq_pool_init :: "nat \<Rightarrow> ptr \<Rightarrow> u64 \<Rightarrow> u64 \<Rightarrow> qed_spq \<Rightarrow> qed_spq" where
  "spq_pool_init 0 p_virt p_phys ent_sz s = s"
| "spq_pool_init (Suc n) p_virt p_phys ent_sz s =
     spq_pool_init n (p_virt + ent_sz) (p_phys + ent_sz) ent_sz
       (upd_ent p_virt (\<lambda>e. e\<lparr>elem := (elem e)\<lparr>data_ptr := p_phys\<rparr>\<rparr>)
          (s\<lparr>free_pool := list_add_tail p_virt (free_pool s)\<rparr>))"

text \<open>
  Fields of the doorbell word: destination XCM (0), command MAX (3), value selector WORD4 (2),
  and the CF18 flag.
\<close>

definition SET_FIELD8 :: "u8 \<Rightarrow> u8 \<Rightarrow> nat \<Rightarrow> u8 \<Rightarrow> u8" where
  "SET_FIELD8 v msk shift flag = (v AND NOT (push_bit shift msk)) OR push_bit shift (flag AND msk)"

definition spq_db_init :: core_db_data where
  "spq_db_init =
     \<lparr>db_params = SET_FIELD8 (SET_FIELD8 (SET_FIELD8 0 3 0 0) 3 2 3) 3 6 2,
      db_agg_flags = 16, db_spq_prod = 0\<rparr>"

definition DB_ADDR :: "u32 \<Rightarrow> u32 \<Rightarrow> u32" where
  "DB_ADDR icid dems = push_bit 2 (dems AND 7) OR icid * 4"

text \<open>
  \<open>ent_sz\<close> is the size of an entry, \<open>ramrod_off\<close> the offset of its ramrod data, \<open>new_cid\<close> the
  connection id the context manager hands out. The hardware context of the connection and the
  registration of the doorbell are calls into other components.
\<close>

definition qed_spq_setup :: "u64 \<Rightarrow> u64 \<Rightarrow> u32 \<Rightarrow> qed_spq \<Rightarrow> qed_spq" where
  "qed_spq_setup ent_sz ramrod_off new_cid s =
     (let s1 = s\<lparr>pending := [], completion_pending := [], free_pool := [], unlimited_pending := []\<rparr>;
          s2 = spq_pool_init (unat (qed_chain_get_capacity (spq_chain s1))) (spq_p_virt s1)
                 (spq_p_phys s1 + ramrod_off) ent_sz s1
      in s2\<lparr>normal_count := 0, comp_count := 0, comp_sent_count := 0, unlimited_pending_count := 0,
            p_comp_bitmap := replicate SPQ_RING_SIZE False, comp_bitmap_idx := 0,
            cid := new_cid, spq_chain := qed_chain_reset (spq_chain s2),
            db_addr_offset := DB_ADDR new_cid 0, db_data := spq_db_init\<rparr>)"

definition qed_spq_get_cid :: "qed_spq option \<Rightarrow> u32" where
  "qed_spq_get_cid s = (case s of None \<Rightarrow> 0xffffffff | Some s1 \<Rightarrow> cid s1)"

section \<open>Allocation and release\<close>

text \<open>
  The environment of the allocations: that of the chains, the outcomes of the \<open>kzalloc\<close> calls
  for the structures themselves, and how many were handed out and given back.
\<close>

record sp_env =
  cenv :: chain_env
  st_results :: "bool list"
  st_allocd :: nat
  st_freed :: nat

definition kzalloc_struct :: "sp_env \<Rightarrow> bool \<times> sp_env" where
  "kzalloc_struct env =
     (case st_results env of
        [] \<Rightarrow> (False, env)
      | False # rs \<Rightarrow> (False, env\<lparr>st_results := rs\<rparr>)
      | True # rs \<Rightarrow> (True, env\<lparr>st_results := rs, st_allocd := Suc (st_allocd env)\<rparr>))"

definition kfree_struct :: "sp_env \<Rightarrow> sp_env" where
  "kfree_struct env = env\<lparr>st_freed := Suc (st_freed env)\<rparr>"

definition zero_chain :: qed_chain where
  "zero_chain =
     \<lparr>p_prod_elem = 0, p_cons_elem = 0, pp_virt_addr_tbl = None,
      pbl_u16 = \<lparr>prod_page_idx = 0, cons_page_idx = 0\<rparr>, pbl_u32 = \<lparr>prod_page_idx = 0, cons_page_idx = 0\<rparr>,
      chain16 = \<lparr>prod_idx = 0, cons_idx = 0\<rparr>, chain32 = \<lparr>prod_idx = 0, cons_idx = 0\<rparr>,
      capacity = 0, page_cnt = 0, mode = QED_CHAIN_MODE_NEXT_PTR, elem_per_page = 0,
      elem_per_page_mask = 0, elem_size = 0, next_page_mask = 0, usable_per_page = 0,
      elem_unusable = 0, cnt_type = QED_CHAIN_CNT_TYPE_U16, page_size = 0, p_phys_table = 0,
      p_virt_table = 0, p_virt_addr = 0, p_phys_addr = 0, chain_size = 0,
      intended_use = QED_CHAIN_USE_TO_PRODUCE, b_external_pbl = False\<rparr>"

definition zero_spq :: qed_spq where
  "zero_spq =
     \<lparr>unlimited_pending = [], pending = [], completion_pending = [], free_pool = [],
      spq_chain = zero_chain, spq_p_virt = 0, spq_p_phys = 0, block_sleep_max_iter = 0,
      p_comp_bitmap = replicate SPQ_RING_SIZE False, comp_bitmap_idx = 0,
      unlimited_pending_count = 0, normal_count = 0, high_count = 0, comp_sent_count = 0,
      comp_count = 0, cid = 0, db_addr_offset = 0,
      db_data = \<lparr>db_params = 0, db_agg_flags = 0, db_spq_prod = 0\<rparr>, drop_next_completion = False,
      async_comp_cb = (\<lambda>_. False), ents = (\<lambda>_. zero_entry),
      client_done = (\<lambda>_. \<lparr>done_flag = 0, done_fw_return_code = 0\<rparr>), kz_results = [],
      kzalloced = [], kfreed = [],
      spq_ring = (\<lambda>_. \<lparr>hdr_cid = 0, hdr_cmd_id = 0, hdr_protocol_id = 0, hdr_echo = 0, data_ptr = 0\<rparr>),
      doorbells = [], cb_calls = []\<rparr>"

definition sizeof_slow_path_element :: u64 where
  "sizeof_slow_path_element = 16"

definition spq_chain_params :: qed_chain_params where
  "spq_chain_params =
     qed_chain_params_init QED_CHAIN_USE_TO_PRODUCE QED_CHAIN_MODE_SINGLE QED_CHAIN_CNT_TYPE_U16 0
       sizeof_slow_path_element"

definition qed_spq_alloc :: "u32 \<Rightarrow> bool \<Rightarrow> sp_env \<Rightarrow> rc \<times> qed_spq option \<times> sp_env" where
  "qed_spq_alloc ent_sz is_vf env =
     (let (ok, env1) = kzalloc_struct env
      in if \<not> ok then (RC_ERR ENOMEM, None, env1)
         else if is_vf then (RC_OK, Some zero_spq, env1)
         else
           (let (rc, ch, ce) = qed_chain_alloc (spq_chain zero_spq) spq_chain_params (cenv env1);
                fail = (\<lambda>ch ce. (RC_ERR ENOMEM, None :: qed_spq option,
                          kfree_struct (env1\<lparr>cenv := snd (qed_chain_free ch ce)\<rparr>)))
            in case rc of
                 RC_ERR _ \<Rightarrow> fail ch ce
               | RC_OK \<Rightarrow>
                   (case dma_alloc_coherent ce (ucast (qed_chain_get_capacity ch) * ucast ent_sz) of
                      (None, ce1) \<Rightarrow> fail ch ce1
                    | (Some (virt, phys), ce1) \<Rightarrow>
                        (RC_OK, Some (zero_spq\<lparr>spq_chain := ch, spq_p_virt := virt, spq_p_phys := phys\<rparr>),
                         env1\<lparr>cenv := ce1\<rparr>))))"

definition qed_spq_free :: "u32 \<Rightarrow> bool \<Rightarrow> qed_spq option \<Rightarrow> sp_env \<Rightarrow> qed_spq option \<times> sp_env" where
  "qed_spq_free ent_sz is_vf p_spq env =
     (case p_spq of
        None \<Rightarrow> (None, env)
      | Some s \<Rightarrow>
          if is_vf then (None, kfree_struct env)
          else
            (let ce = (if spq_p_virt s = 0 then cenv env
                       else dma_free_coherent (cenv env) (ucast (qed_chain_get_capacity (spq_chain s)) * ucast ent_sz)
                              (spq_p_virt s) (spq_p_phys s));
                 (ch, ce1) = qed_chain_free (spq_chain s) ce
             in (None, kfree_struct (env\<lparr>cenv := ce1\<rparr>))))"

text \<open>
  The event queue. Its registration on the slow path status block is a call into the interrupt
  component. \<open>sizeof_event_ring_element\<close> is the size of the element of the shared interface.
\<close>

definition sizeof_event_ring_element :: u64 where
  "sizeof_event_ring_element = 16"

definition qed_eq_alloc :: "u16 \<Rightarrow> sp_env \<Rightarrow> rc \<times> qed_eq option \<times> sp_env" where
  "qed_eq_alloc num_elem env =
     (let (ok, env1) = kzalloc_struct env
      in if \<not> ok then (RC_ERR ENOMEM, None, env1)
         else
           (let (rc, ch, ce) = qed_chain_alloc zero_chain
                  (qed_chain_params_init QED_CHAIN_USE_TO_PRODUCE QED_CHAIN_MODE_PBL
                     QED_CHAIN_CNT_TYPE_U16 (ucast num_elem) sizeof_event_ring_element) (cenv env1);
                env2 = env1\<lparr>cenv := ce\<rparr>
            in case rc of
                 RC_ERR _ \<Rightarrow> (RC_ERR ENOMEM, None, kfree_struct env2)
               | RC_OK \<Rightarrow> (RC_OK, Some \<lparr>eq_chain = ch, eq_async = [], eq_prod = 0\<rparr>, env2)))"

definition qed_eq_setup :: "qed_eq \<Rightarrow> qed_eq" where
  "qed_eq_setup eq = eq\<lparr>eq_chain := qed_chain_reset (eq_chain eq)\<rparr>"

definition qed_eq_free :: "qed_eq option \<Rightarrow> sp_env \<Rightarrow> qed_eq option \<times> sp_env" where
  "qed_eq_free p_eq env =
     (case p_eq of
        None \<Rightarrow> (None, env)
      | Some eq \<Rightarrow> (None, kfree_struct (env\<lparr>cenv := snd (qed_chain_free (eq_chain eq) (cenv env))\<rparr>)))"

text \<open>The consolidation queue is a bare chain.\<close>

definition qed_consq_alloc :: "sp_env \<Rightarrow> rc \<times> qed_chain option \<times> sp_env" where
  "qed_consq_alloc env =
     (let (ok, env1) = kzalloc_struct env
      in if \<not> ok then (RC_ERR ENOMEM, None, env1)
         else
           (let (rc, ch, ce) = qed_chain_alloc zero_chain
                  (qed_chain_params_init QED_CHAIN_USE_TO_PRODUCE QED_CHAIN_MODE_PBL
                     QED_CHAIN_CNT_TYPE_U16 (QED_CHAIN_PAGE_SIZE div 0x80) 0x80) (cenv env1);
                env2 = env1\<lparr>cenv := ce\<rparr>
            in case rc of
                 RC_ERR _ \<Rightarrow> (RC_ERR ENOMEM, None, kfree_struct env2)
               | RC_OK \<Rightarrow> (RC_OK, Some ch, env2)))"

definition qed_consq_setup :: "qed_chain \<Rightarrow> qed_chain" where
  "qed_consq_setup ch = qed_chain_reset ch"

definition qed_consq_free :: "qed_chain option \<Rightarrow> sp_env \<Rightarrow> qed_chain option \<times> sp_env" where
  "qed_consq_free p_consq env =
     (case p_consq of
        None \<Rightarrow> (None, env)
      | Some ch \<Rightarrow> (None, kfree_struct (env\<lparr>cenv := snd (qed_chain_free ch (cenv env))\<rparr>)))"

end
