(* ===== verification/Qed_Chain_Alloc_Correct.thy ===== *)
theory Qed_Chain_Alloc_Correct
  imports Qed_Chain_Alloc
begin

text \<open>
  Correctness of the chain allocation: on success the chain is well-formed, its pages are laid
  out as the fast path expects and the positions are reset; in every case the blocks obtained
  and the blocks given back balance.
\<close>

section \<open>Allocated pages\<close>

fun grab :: "nat \<Rightarrow> 'a option list \<Rightarrow> 'a list \<times> 'a option list" where
  "grab 0 rs = ([], rs)"
| "grab (Suc n) [] = ([], [])"
| "grab (Suc n) (None # rs) = ([], rs)"
| "grab (Suc n) (Some b # rs) = (b # fst (grab n rs), snd (grab n rs))"

definition page_block :: "qed_chain \<Rightarrow> u64 \<times> u64 \<Rightarrow> dma_block" where
  "page_block ch b = Dma (fst b) (snd b) (ucast (page_size ch))"

definition grab_env :: "nat \<Rightarrow> qed_chain \<Rightarrow> chain_env \<Rightarrow> chain_env" where
  "grab_env n ch env = env\<lparr>dma_results := snd (grab n (dma_results env)),
     allocd := allocd env @ map (page_block ch) (fst (grab n (dma_results env)))\<rparr>"

lemma grab_length: "length (fst (grab n rs)) \<le> n"
  by (induction n rs rule: grab.induct) auto

lemma grab_subset: "Some ` set (fst (grab n rs)) \<subseteq> set rs"
  by (induction n rs rule: grab.induct) auto

fun somes :: "'a option list \<Rightarrow> 'a list" where
  "somes [] = []"
| "somes (None # rs) = somes rs"
| "somes (Some x # rs) = x # somes rs"

lemma set_somes: "set (somes rs) = {x. Some x \<in> set rs}"
  by (induction rs rule: somes.induct) auto

lemma grab_distinct:
  "distinct (map fst (somes rs)) \<Longrightarrow> distinct (map fst (fst (grab n rs)))"
proof (induction n rs rule: grab.induct)
  case (4 n b rs)
  have "fst b \<notin> fst ` set (fst (grab n rs))"
  proof
    assume "fst b \<in> fst ` set (fst (grab n rs))"
    then have "fst b \<in> fst ` set (somes rs)"
      using grab_subset [of n rs] unfolding set_somes by blast
    then show False using "4.prems" by simp
  qed
  then show ?case using "4.IH"(1) "4.prems" by simp
qed auto

fun link :: "chain_mem \<Rightarrow> qed_chain \<Rightarrow> u64 \<Rightarrow> (u64 \<times> u64) list \<Rightarrow> chain_mem" where
  "link mem ch prev [] = mem"
| "link mem ch prev (b # bs) = link (qed_chain_init_next_ptr_elem mem ch prev (fst b) (snd b)) ch (fst b) bs"

lemma alloc_next_ptr_loop_Suc:
  "alloc_next_ptr_loop n (Suc i) prev ch env =
    (let bs = fst (grab n (dma_results env))
     in (if length bs = n then RC_OK else RC_ERR ENOMEM, last (prev # map fst bs), ch,
         (grab_env n ch env)\<lparr>chmem := link (chmem env) ch prev bs\<rparr>))"
proof (induction n arbitrary: i prev env)
  case 0
  then show ?case by (simp add: grab_env_def)
next
  case (Suc n)
  show ?case
  proof (cases "dma_results env")
    case Nil
    then show ?thesis by (simp add: dma_alloc_coherent_def grab_env_def)
  next
    case (Cons r rs)
    then show ?thesis
      by (cases r) (auto simp: dma_alloc_coherent_def grab_env_def Suc.IH Let_def page_block_def
          split: prod.split)
  qed
qed

fun linked :: "chain_mem \<Rightarrow> qed_chain \<Rightarrow> (u64 \<times> u64) list \<Rightarrow> qed_chain_next \<Rightarrow> bool" where
  "linked mem ch [] t \<longleftrightarrow> True"
| "linked mem ch (b # bs) t \<longleftrightarrow>
     mem (fst b + next_elem_off ch) =
       (case bs of [] \<Rightarrow> t | c # _ \<Rightarrow> \<lparr>next_phys = snd c, next_virt = fst c\<rparr>) \<and>
     linked mem ch bs t"

lemma link_other:
  "a \<notin> (\<lambda>v. v + next_elem_off ch) ` set (butlast (prev # map fst bs)) \<Longrightarrow>
   link mem ch prev bs a = mem a"
  by (induction bs arbitrary: prev mem) (auto simp: qed_chain_init_next_ptr_elem_def split: if_splits)

lemma linked_link:
  assumes "distinct (map fst (b # bs))"
  shows "linked (link mem ch (fst b) bs) ch (b # bs) (mem (fst (last (b # bs)) + next_elem_off ch))"
  using assms
proof (induction bs arbitrary: b mem)
  case Nil
  then show ?case by simp
next
  case (Cons c bs)
  let ?mem = "qed_chain_init_next_ptr_elem mem ch (fst b) (fst c) (snd c)"
  have "fst b \<notin> set (butlast (fst c # map fst bs))"
    using Cons.prems in_set_butlastD [of "fst b" "fst c # map fst bs"] by auto
  then have "link ?mem ch (fst c) bs (fst b + next_elem_off ch) = ?mem (fst b + next_elem_off ch)"
    by (intro link_other) auto
  then have rd: "link ?mem ch (fst c) bs (fst b + next_elem_off ch) = \<lparr>next_phys = snd c, next_virt = fst c\<rparr>"
    by (simp add: qed_chain_init_next_ptr_elem_def)
  have "fst (last (c # bs)) \<in> fst ` set (c # bs)"
    by (intro imageI last_in_set) simp
  moreover have "fst b \<notin> fst ` set (c # bs)" using Cons.prems by simp
  ultimately have "fst b \<noteq> fst (last (c # bs))" by metis
  then have "?mem (fst (last (c # bs)) + next_elem_off ch) = mem (fst (last (c # bs)) + next_elem_off ch)"
    by (simp add: qed_chain_init_next_ptr_elem_def)
  moreover have "linked (link ?mem ch (fst c) bs) ch (c # bs) (?mem (fst (last (c # bs)) + next_elem_off ch))"
    using Cons.prems by (intro Cons.IH) simp
  ultimately show ?case using rd by simp
qed

lemma linked_close:
  assumes "linked mem ch bs t" "distinct (map fst bs)" "bs \<noteq> []"
  shows "linked (mem(fst (last bs) + next_elem_off ch := t')) ch bs t'"
  using assms
proof (induction bs)
  case (Cons b bs)
  have "bs \<noteq> [] \<Longrightarrow> fst b \<noteq> fst (last bs)"
    using Cons.prems(2) last_in_set by fastforce
  then show ?case using Cons by (cases bs) auto
qed simp

lemma free_next_ptr_linked:
  assumes "linked (chmem env) ch (b # bs) t" "0 \<notin> fst ` set (b # bs)"
    and "length (b # bs) = n \<or> length (b # bs) < n \<and> next_virt t = 0"
  shows "free_next_ptr_loop n ch (fst b) (snd b) env =
    env\<lparr>freed := freed env @ map (page_block ch) (b # bs)\<rparr>"
  using assms
proof (induction bs arbitrary: b n env)
  case Nil
  then obtain m where n: "n = Suc m" by (cases n) auto
  show ?case using Nil by (cases m) (auto simp: n dma_free_coherent_def page_block_def Let_def)
next
  case (Cons c bs)
  then obtain m where n: "n = Suc m" by (cases n) auto
  let ?env = "dma_free_coherent env (ucast (page_size ch)) (fst b) (snd b)"
  have "free_next_ptr_loop m ch (fst c) (snd c) ?env =
      ?env\<lparr>freed := freed ?env @ map (page_block ch) (c # bs)\<rparr>"
    by (rule Cons.IH) (use Cons.prems n in \<open>auto simp: dma_free_coherent_def\<close>)
  moreover have "free_next_ptr_loop n ch (fst b) (snd b) env =
      free_next_ptr_loop m ch (fst c) (snd c) ?env"
    using Cons.prems(1,2) by (auto simp: n Let_def)
  ultimately show ?case by (simp add: dma_free_coherent_def page_block_def)
qed


section \<open>Next pointer chains\<close>

text \<open>
  What the driver relies on of the coherent allocator: blocks are not NULL, distinct blocks
  have distinct addresses, and the memory comes zeroed.
\<close>

definition dma_sane :: "(u64 \<times> u64) option list \<Rightarrow> bool" where
  "dma_sane rs \<longleftrightarrow> distinct (map fst (somes rs)) \<and> 0 \<notin> fst ` set (somes rs)"

definition dma_zeroed :: "chain_mem \<Rightarrow> u64 \<Rightarrow> (u64 \<times> u64) option list \<Rightarrow> bool" where
  "dma_zeroed mem off rs \<longleftrightarrow> (\<forall>b\<in>set (somes rs). next_virt (mem (fst b + off)) = 0)"

lemma grab_sane:
  assumes "dma_sane rs"
  shows "distinct (map fst (fst (grab n rs)))" "0 \<notin> fst ` set (fst (grab n rs))"
proof -
  show "distinct (map fst (fst (grab n rs)))"
    using assms by (intro grab_distinct) (simp add: dma_sane_def)
  have "set (fst (grab n rs)) \<subseteq> set (somes rs)" using grab_subset [of n rs] by (auto simp: set_somes)
  then show "0 \<notin> fst ` set (fst (grab n rs))" using assms by (auto simp: dma_sane_def)
qed

lemma page_fields_reset [simp]:
  "page_size (qed_chain_reset ch) = page_size ch" "page_cnt (qed_chain_reset ch) = page_cnt ch"
  "p_virt_addr (qed_chain_reset ch) = p_virt_addr ch" "p_phys_addr (qed_chain_reset ch) = p_phys_addr ch"
  "next_elem_off (qed_chain_reset ch) = next_elem_off ch"
  "mode (qed_chain_reset ch) = mode ch" "intended_use (qed_chain_reset ch) = intended_use ch"
  "pp_virt_addr_tbl (qed_chain_reset ch) = pp_virt_addr_tbl ch"
  "p_virt_table (qed_chain_reset ch) = p_virt_table ch" "p_phys_table (qed_chain_reset ch) = p_phys_table ch"
  "b_external_pbl (qed_chain_reset ch) = b_external_pbl ch"
proof -
  have "f (qed_chain_reset ch) = f ch" if "\<And>c. f (geom c) = f c" for f :: "qed_chain \<Rightarrow> 'b"
    using that [of ch] that [of "qed_chain_reset ch"] by simp
  note * = this
  show "page_size (qed_chain_reset ch) = page_size ch" "page_cnt (qed_chain_reset ch) = page_cnt ch"
    "p_virt_addr (qed_chain_reset ch) = p_virt_addr ch" "p_phys_addr (qed_chain_reset ch) = p_phys_addr ch"
    "next_elem_off (qed_chain_reset ch) = next_elem_off ch"
    "mode (qed_chain_reset ch) = mode ch" "intended_use (qed_chain_reset ch) = intended_use ch"
    "pp_virt_addr_tbl (qed_chain_reset ch) = pp_virt_addr_tbl ch"
    "p_virt_table (qed_chain_reset ch) = p_virt_table ch" "p_phys_table (qed_chain_reset ch) = p_phys_table ch"
    "b_external_pbl (qed_chain_reset ch) = b_external_pbl ch"
    by (rule *; simp add: geom_def next_elem_off_def)+
qed

lemma page_fields_init_mem [simp]:
  "page_size (qed_chain_init_mem ch v p) = page_size ch" "page_cnt (qed_chain_init_mem ch v p) = page_cnt ch"
  "p_virt_addr (qed_chain_init_mem ch v p) = v" "p_phys_addr (qed_chain_init_mem ch v p) = p"
  "next_elem_off (qed_chain_init_mem ch v p) = next_elem_off ch"
  "mode (qed_chain_init_mem ch v p) = mode ch"
  "intended_use (qed_chain_init_mem ch v p) = intended_use ch"
  "pp_virt_addr_tbl (qed_chain_init_mem ch v p) = pp_virt_addr_tbl ch"
  "p_virt_table (qed_chain_init_mem ch v p) = p_virt_table ch" "p_phys_table (qed_chain_init_mem ch v p) = p_phys_table ch"
  "b_external_pbl (qed_chain_init_mem ch v p) = b_external_pbl ch"
  by (simp_all add: qed_chain_init_mem_def next_elem_off_def)

lemma page_block_cong: "page_size ch = page_size ch' \<Longrightarrow> page_block ch = page_block ch'"
  by (simp add: fun_eq_iff page_block_def)

text \<open>The chain state after an attempt that got the pages \<open>bs\<close>.\<close>

definition first_page :: "qed_chain \<Rightarrow> (u64 \<times> u64) list \<Rightarrow> qed_chain" where
  "first_page ch bs = (case bs of [] \<Rightarrow> ch | b # _ \<Rightarrow> qed_chain_reset (qed_chain_init_mem ch (fst b) (snd b)))"

lemma alloc_next_ptr_loop_0:
  assumes "0 < n"
  shows "alloc_next_ptr_loop n 0 0 ch env =
    (let bs = fst (grab n (dma_results env))
     in (if length bs = n then RC_OK else RC_ERR ENOMEM, last (0 # map fst bs), first_page ch bs,
         (grab_env n ch env)\<lparr>chmem := (case bs of [] \<Rightarrow> chmem env
            | b # bs' \<Rightarrow> link (chmem env) (first_page ch bs) (fst b) bs')\<rparr>))"
proof (cases "dma_results env")
  case Nil
  then show ?thesis using assms by (cases n) (auto simp: dma_alloc_coherent_def grab_env_def first_page_def)
next
  case (Cons r rs)
  obtain m where n: "n = Suc m" using assms by (cases n) auto
  show ?thesis
  proof (cases r)
    case None
    then show ?thesis using Cons by (simp add: n dma_alloc_coherent_def grab_env_def first_page_def)
  next
    case (Some b)
    have "page_block (qed_chain_reset (qed_chain_init_mem ch v p)) = page_block ch" for v p
      by (rule page_block_cong) simp
    then show ?thesis using Cons Some
      by (cases b) (simp add: n dma_alloc_coherent_def grab_env_def alloc_next_ptr_loop_Suc Let_def
          first_page_def page_block_def)
  qed
qed

lemma link_cong: "next_elem_off ch = next_elem_off ch' \<Longrightarrow> link mem ch v bs = link mem ch' v bs"
  by (induction bs arbitrary: mem v) (simp_all add: qed_chain_init_next_ptr_elem_def)

lemma linked_cong: "next_elem_off ch = next_elem_off ch' \<Longrightarrow> linked mem ch bs t = linked mem ch' bs t"
  by (induction bs) simp_all

lemma first_page_fields [simp]:
  "page_size (first_page ch bs) = page_size ch" "page_cnt (first_page ch bs) = page_cnt ch"
  "next_elem_off (first_page ch bs) = next_elem_off ch" "mode (first_page ch bs) = mode ch"
  "intended_use (first_page ch bs) = intended_use ch"
  "pp_virt_addr_tbl (first_page ch bs) = pp_virt_addr_tbl ch"
  "p_virt_table (first_page ch bs) = p_virt_table ch" "p_phys_table (first_page ch bs) = p_phys_table ch"
  "b_external_pbl (first_page ch bs) = b_external_pbl ch"
  by (simp_all add: first_page_def split: list.split)

lemma first_page_addr:
  "p_virt_addr (first_page ch (b # bs)) = fst b" "p_phys_addr (first_page ch (b # bs)) = snd b"
  "p_virt_addr (first_page ch []) = p_virt_addr ch"
  by (simp_all add: first_page_def)

text \<open>Success: the pages form a cycle. Failure: the pages obtained form a list that ends in NULL.\<close>

lemma alloc_next_ptr_ok:
  assumes sane: "dma_sane (dma_results env)"
    and run: "qed_chain_alloc_next_ptr ch env = (RC_OK, ch', env')"
  obtains b bs where "fst (grab (pcnt ch) (dma_results env)) = b # bs" "length (b # bs) = pcnt ch"
    "ch' = first_page ch (b # bs)" "allocd env' = allocd env @ map (page_block ch) (b # bs)"
    "freed env' = freed env"
    "linked (chmem env') ch (b # bs) \<lparr>next_phys = snd b, next_virt = fst b\<rparr>"
proof -
  let ?gs = "fst (grab (pcnt ch) (dma_results env))"
  have pc: "page_cnt ch \<noteq> 0" using run by (auto simp: qed_chain_alloc_next_ptr_def)
  then have pos: "0 < pcnt ch" by (simp add: unat_gt_0)
  note loop = alloc_next_ptr_loop_0 [OF pos, of ch env]
  have len: "length ?gs = pcnt ch"
    using run pc by (auto simp: qed_chain_alloc_next_ptr_def loop Let_def split: if_splits)
  then obtain b bs where gs: "?gs = b # bs" using pos by (cases ?gs) auto
  let ?off = "next_elem_off ch"
  let ?mem = "link (chmem env) (first_page ch (b # bs)) (fst b) bs"
  have d: "distinct (map fst (b # bs))" using grab_sane(1) [OF sane, of "pcnt ch"] gs by simp
  have env': "ch' = first_page ch (b # bs)"
    "env' = (grab_env (pcnt ch) ch env)\<lparr>chmem := ?mem(fst (last (b # bs)) + ?off :=
       \<lparr>next_phys = snd b, next_virt = fst b\<rparr>)\<rparr>"
    using run pc len gs
    by (auto simp: qed_chain_alloc_next_ptr_def loop Let_def first_page_addr
        qed_chain_init_next_ptr_elem_def last_map)
  have "linked ?mem ch (b # bs) (chmem env (fst (last (b # bs)) + ?off))"
    using linked_link [OF d, of "chmem env" ch] link_cong [of "first_page ch (b # bs)" ch] by simp
  from linked_close [OF this d] have "linked (chmem env') ch (b # bs) \<lparr>next_phys = snd b, next_virt = fst b\<rparr>"
    by (simp add: env' del: linked.simps)
  then show ?thesis using that [OF gs] len gs env' by (simp add: grab_env_def)
qed

lemma alloc_next_ptr_fail:
  assumes sane: "dma_sane (dma_results env)"
    and zero: "dma_zeroed (chmem env) (next_elem_off ch) (dma_results env)"
    and v0: "p_virt_addr ch = 0"
    and run: "qed_chain_alloc_next_ptr ch env = (RC_ERR e, ch', env')"
  shows "\<exists>bs. allocd env' = allocd env @ bs \<and>
    freed (qed_chain_free_next_ptr ch' env') = freed env @ bs \<and>
    allocd (qed_chain_free_next_ptr ch' env') = allocd env @ bs"
proof (cases "page_cnt ch = 0")
  case True
  then show ?thesis using run v0 by (simp add: qed_chain_alloc_next_ptr_def qed_chain_free_next_ptr_def)
next
  case False
  let ?gs = "fst (grab (pcnt ch) (dma_results env))"
  have pos: "0 < pcnt ch" using False by (simp add: unat_gt_0)
  note loop = alloc_next_ptr_loop_0 [OF pos, of ch env]
  have len: "length ?gs < pcnt ch" and env': "ch' = first_page ch ?gs"
    "env' = (grab_env (pcnt ch) ch env)\<lparr>chmem := (case ?gs of [] \<Rightarrow> chmem env
            | b # bs' \<Rightarrow> link (chmem env) (first_page ch ?gs) (fst b) bs')\<rparr>"
    using run False grab_length [of "pcnt ch" "dma_results env"]
    by (auto simp: qed_chain_alloc_next_ptr_def loop Let_def split: if_splits)
  show ?thesis
  proof (cases ?gs)
    case Nil
    then show ?thesis using env' v0
      by (simp add: first_page_def qed_chain_free_next_ptr_def grab_env_def)
  next
    case (Cons b bs)
    let ?t = "chmem env (fst (last (b # bs)) + next_elem_off ch)"
    have d: "distinct (map fst (b # bs))" and nz: "0 \<notin> fst ` set (b # bs)"
      using grab_sane [OF sane, of "pcnt ch"] Cons by simp_all
    have "last (b # bs) \<in> set (somes (dma_results env))"
      using grab_subset [of "pcnt ch" "dma_results env"] Cons last_in_set [of "b # bs"]
      by (auto simp: set_somes)
    then have tz: "next_virt ?t = 0" using zero by (auto simp: dma_zeroed_def)
    have "linked (chmem env') ch' (b # bs) ?t"
      using linked_link [OF d, of "chmem env" ch] link_cong [of ch' ch] linked_cong [of ch' ch] env' Cons
      by (simp del: linked.simps)
    from free_next_ptr_linked [OF this nz, of "pcnt ch"] len tz Cons
    have "free_next_ptr_loop (pcnt ch) ch' (fst b) (snd b) env' =
        env'\<lparr>freed := freed env' @ map (page_block ch') (b # bs)\<rparr>" by simp
    moreover have "page_block ch' = page_block ch" by (rule page_block_cong) (simp add: env')
    ultimately show ?thesis
      using env' Cons nz by (auto simp: qed_chain_free_next_ptr_def first_page_addr grab_env_def)
  qed
qed

lemma linked_nth:
  assumes "linked mem ch bs t" "i < length bs"
  shows "mem (fst (bs ! i) + next_elem_off ch) =
    (if Suc i < length bs then \<lparr>next_phys = snd (bs ! Suc i), next_virt = fst (bs ! Suc i)\<rparr> else t)"
  using assms
proof (induction bs arbitrary: i)
  case (Cons b bs)
  then show ?case by (cases i; cases bs) auto
qed simp

lemma linked_layout:
  assumes l: "linked mem ch (b # bs) \<lparr>next_phys = snd b, next_virt = fst b\<rparr>"
    and len: "length (b # bs) = pcnt ch" and v: "p_virt_addr ch = fst b"
    and m: "mode ch = QED_CHAIN_MODE_NEXT_PTR"
  shows "chain_layout mem ch (map fst (b # bs))"
proof -
  have "next_virt (mem (map fst (b # bs) ! i + next_elem_off ch)) = map fst (b # bs) ! (Suc i mod pcnt ch)"
    if i: "i < pcnt ch" for i
  proof (cases "Suc i < pcnt ch")
    case True
    then show ?thesis using linked_nth [OF l, of i] len i by (simp add: nth_map del: list.map)
  next
    case False
    then have "Suc i = pcnt ch" using i by simp
    then show ?thesis using linked_nth [OF l, of i] len i by (simp add: nth_map del: list.map)
  qed
  then show ?thesis using len v m by (simp add: chain_layout_def)
qed

section \<open>PBL chains\<close>

fun fill :: "(u64 \<Rightarrow> u64) \<Rightarrow> u64 \<Rightarrow> (u64 \<times> u64) list \<Rightarrow> u64 \<Rightarrow> u64" where
  "fill st v [] = st"
| "fill st v (b # bs) = fill (st(v := snd b)) (v + 8) bs"

lemma alloc_pbl_loop_Suc:
  assumes "pp_virt_addr_tbl ch = Some (pre @ replicate n 0)" "length pre = Suc i"
  shows "alloc_pbl_loop n (Suc i) v ch env =
    (let bs = fst (grab n (dma_results env))
     in (if length bs = n then RC_OK else RC_ERR ENOMEM,
         ch\<lparr>pp_virt_addr_tbl := Some (pre @ map fst bs @ replicate (n - length bs) 0)\<rparr>,
         (grab_env n ch env)\<lparr>pbl_store := fill (pbl_store env) v bs\<rparr>))"
  using assms
proof (induction n arbitrary: i v pre ch env)
  case 0
  then show ?case by (simp add: grab_env_def)
next
  case (Suc n)
  show ?case
  proof (cases "dma_results env")
    case Nil
    then show ?thesis using Suc.prems by (simp add: dma_alloc_coherent_def grab_env_def)
  next
    case (Cons r rs)
    show ?thesis
    proof (cases r)
      case None
      then show ?thesis using Cons Suc.prems by (simp add: dma_alloc_coherent_def grab_env_def)
    next
      case (Some b)
      let ?ch = "ch\<lparr>pp_virt_addr_tbl := Some ((pre @ [fst b]) @ replicate n 0)\<rparr>"
      have t: "(pre @ replicate (Suc n) 0)[Suc i := fst b] = (pre @ [fst b]) @ replicate n 0"
        using Suc.prems(2) by (simp add: list_update_append)
      have g: "page_block ?ch = page_block ch" by (rule page_block_cong) simp
      have eq: "alloc_pbl_loop (Suc n) (Suc i) v ch env =
          alloc_pbl_loop n (Suc (Suc i)) (v + 8) ?ch
            (env\<lparr>dma_results := rs, allocd := allocd env @ [Dma (fst b) (snd b) (ucast (page_size ch))],
                 pbl_store := (pbl_store env)(v := snd b)\<rparr>)"
        using Cons Some Suc.prems(1) t
        by (cases b) (simp add: dma_alloc_coherent_def Let_def QED_CHAIN_PBL_ENTRY_SIZE_def del: append_assoc)
      show ?thesis unfolding eq using Cons Some Suc.prems(2)
        by (subst Suc.IH [of ?ch "pre @ [fst b]" "Suc i"])
          (simp_all add: Let_def grab_env_def g page_block_def)
    qed
  qed
qed

lemma alloc_pbl_loop_0:
  assumes t: "pp_virt_addr_tbl ch = Some (replicate n 0)"
  shows "alloc_pbl_loop n 0 v ch env =
    (let bs = fst (grab n (dma_results env))
     in (if length bs = n then RC_OK else RC_ERR ENOMEM,
         (first_page ch bs)\<lparr>pp_virt_addr_tbl := Some (map fst bs @ replicate (n - length bs) 0)\<rparr>,
         (grab_env n ch env)\<lparr>pbl_store := fill (pbl_store env) v bs\<rparr>))"
proof (cases n)
  case 0
  then show ?thesis using t by (simp add: grab_env_def first_page_def)
next
  case (Suc m)
  consider "dma_results env = []" | rs where "dma_results env = None # rs"
    | b rs where "dma_results env = Some b # rs"
    by (metis list.exhaust option.exhaust)
  then show ?thesis
  proof cases
    case (3 b rs)
    let ?c = "qed_chain_reset (qed_chain_init_mem ch (fst b) (snd b))"
    let ?ch = "?c\<lparr>pp_virt_addr_tbl := Some ([fst b] @ replicate m 0)\<rparr>"
    have g: "page_block ?ch = page_block ch" by (rule page_block_cong) simp
    have eq: "alloc_pbl_loop n 0 v ch env = alloc_pbl_loop m (Suc 0) (v + 8) ?ch
        (env\<lparr>dma_results := rs, allocd := allocd env @ [Dma (fst b) (snd b) (ucast (page_size ch))],
             pbl_store := (pbl_store env)(v := snd b)\<rparr>)"
      using 3 t by (cases b) (simp add: Suc dma_alloc_coherent_def Let_def QED_CHAIN_PBL_ENTRY_SIZE_def)
    show ?thesis unfolding eq
      using 3 by (subst alloc_pbl_loop_Suc [of ?ch "[fst b]"])
        (simp_all add: Let_def grab_env_def g Suc page_block_def first_page_def)
  qed (use t in \<open>simp_all add: Suc dma_alloc_coherent_def grab_env_def first_page_def\<close>)
qed

lemma fill_other:
  "(\<And>j. j < length bs \<Longrightarrow> a \<noteq> v + of_nat (8 * j)) \<Longrightarrow> fill st v bs a = st a"
proof (induction bs arbitrary: st v)
  case (Cons b bs)
  have "a \<noteq> v + 8 + of_nat (8 * j)" if "j < length bs" for j
    using Cons.prems [of "Suc j"] that by (simp add: algebra_simps)
  then show ?case using Cons.IH [of "v + 8"] Cons.prems [of 0] by simp
qed simp

lemma fill_nth:
  assumes "8 * length bs \<le> 2 ^ 64" "j < length bs"
  shows "fill st v bs (v + of_nat (8 * j)) = snd (bs ! j)"
  using assms
proof (induction bs arbitrary: st v j)
  case (Cons b bs)
  show ?case
  proof (cases j)
    case 0
    have "fill (st(v := snd b)) (v + 8) bs v = (st(v := snd b)) v"
    proof (rule fill_other)
      fix k assume k: "k < length bs"
      have "(of_nat (8 * Suc k) :: u64) \<noteq> 0"
      proof
        assume "(of_nat (8 * Suc k) :: u64) = 0"
        then have "unat (of_nat (8 * Suc k) :: u64) = 0" by simp
        then show False using k Cons.prems(1) by (simp only: unat_of_nat) simp
      qed
      then show "v \<noteq> v + 8 + of_nat (8 * k)" by (simp add: algebra_simps)
    qed
    then show ?thesis using 0 by simp
  next
    case (Suc i)
    then show ?thesis using Cons.IH [of i "st(v := snd b)" "v + 8"] Cons.prems
      by (simp add: algebra_simps del: fun_upd_apply)
  qed
qed simp

lemma free_pbl_loop_all:
  assumes "\<And>j. j < length bs \<Longrightarrow> pbl_store env (v + of_nat (8 * j)) = snd (bs ! j)"
    and "0 \<notin> fst ` set bs"
  shows "free_pbl_loop ch (map fst bs @ replicate m 0) v env =
    env\<lparr>freed := freed env @ map (page_block ch) bs\<rparr>"
  using assms
proof (induction bs arbitrary: v env)
  case Nil
  then show ?case by (cases m) auto
next
  case (Cons b bs)
  let ?env = "dma_free_coherent env (ucast (page_size ch)) (fst b) (snd b)"
  have "free_pbl_loop ch (map fst bs @ replicate m 0) (v + 8) ?env =
      ?env\<lparr>freed := freed ?env @ map (page_block ch) bs\<rparr>"
  proof (rule Cons.IH)
    fix j assume "j < length bs"
    then show "pbl_store ?env (v + 8 + of_nat (8 * j)) = snd (bs ! j)"
      using Cons.prems(1) [of "Suc j"] by (simp add: dma_free_coherent_def algebra_simps)
  qed (use Cons.prems(2) in auto)
  then show ?case using Cons.prems(1) [of 0] Cons.prems(2)
    by (auto simp: QED_CHAIN_PBL_ENTRY_SIZE_def dma_free_coherent_def page_block_def)
qed

text \<open>
  Whatever the outcome of the allocation, a release gives back each block it obtained, once.
\<close>

lemma alloc_pbl_tail:
  fixes v :: u64
  assumes sane: "dma_sane (dma_results env)" and v: "v \<noteq> 0" "p_virt_table ch = v"
    and t: "pp_virt_addr_tbl ch = Some (replicate (pcnt ch) 0)"
    and run: "alloc_pbl_loop (pcnt ch) 0 v ch env = (rc, ch', env')"
  defines "bs \<equiv> fst (grab (pcnt ch) (dma_results env))"
  shows "allocd env' = allocd env @ map (page_block ch) bs"
    and "qed_chain_free_pbl ch' env' = (ch'\<lparr>pp_virt_addr_tbl := None\<rparr>,
      env'\<lparr>freed := freed env @ map (page_block ch) bs @
        (if b_external_pbl ch then [] else [Dma v (p_phys_table ch) (ucast (page_cnt ch * QED_CHAIN_PBL_ENTRY_SIZE))]) @
        [Vtable]\<rparr>)"
proof -
  have len: "length bs \<le> pcnt ch" unfolding bs_def by (rule grab_length)
  have ch': "ch' = (first_page ch bs)\<lparr>pp_virt_addr_tbl := Some (map fst bs @ replicate (pcnt ch - length bs) 0)\<rparr>"
    and env': "env' = (grab_env (pcnt ch) ch env)\<lparr>pbl_store := fill (pbl_store env) v bs\<rparr>"
    using run by (auto simp: alloc_pbl_loop_0 [OF t] Let_def bs_def)
  show "allocd env' = allocd env @ map (page_block ch) bs" by (simp add: env' grab_env_def bs_def)
  have pb: "page_block ch' = page_block ch" by (rule page_block_cong) (simp add: ch')
  have "pcnt ch < 2 ^ 32" using unsigned_less [of "page_cnt ch"] by simp
  then have small: "8 * length bs \<le> 2 ^ 64" using len by simp
  have loop: "free_pbl_loop ch' (map fst bs @ replicate (pcnt ch - length bs) 0) v env' =
      env'\<lparr>freed := freed env' @ map (page_block ch') bs\<rparr>"
  proof (rule free_pbl_loop_all)
    show "0 \<notin> fst ` set bs" using grab_sane(2) [OF sane] by (simp add: bs_def)
  qed (simp add: env' fill_nth [OF small] del: of_nat_mult)
  have "take (unat (page_cnt ch')) (map fst bs @ replicate (pcnt ch - length bs) 0) =
      map fst bs @ replicate (pcnt ch - length bs) 0"
    using len by (simp add: ch')
  then show "qed_chain_free_pbl ch' env' = (ch'\<lparr>pp_virt_addr_tbl := None\<rparr>,
      env'\<lparr>freed := freed env @ map (page_block ch) bs @
        (if b_external_pbl ch then [] else [Dma v (p_phys_table ch) (ucast (page_cnt ch * QED_CHAIN_PBL_ENTRY_SIZE))]) @
        [Vtable]\<rparr>)"
    using loop v pb
    by (simp add: qed_chain_free_pbl_def Let_def ch' vfree_table_def dma_free_coherent_def)
      (simp add: env' grab_env_def)
qed

lemma dma_sane_tl: "dma_sane (r # rs) \<Longrightarrow> dma_sane rs"
  by (cases r) (auto simp: dma_sane_def)

lemma dma_alloc_cases:
  assumes "dma_alloc_coherent env sz = (r, env')" "dma_sane (dma_results env)"
  obtains (none) "r = None" "dma_sane (dma_results env')" "allocd env' = allocd env" "freed env' = freed env"
      "chmem env' = chmem env"
    | (some) v p where "r = Some (v, p)" "v \<noteq> 0" "dma_sane (dma_results env')"
      "allocd env' = allocd env @ [Dma v p sz]" "freed env' = freed env" "chmem env' = chmem env"
proof (cases "dma_results env")
  case Nil
  then show ?thesis using assms none by (auto simp: dma_alloc_coherent_def)
next
  case (Cons a rs)
  then have s: "dma_sane rs" using assms(2) dma_sane_tl by simp
  show ?thesis
  proof (cases a)
    case None
    then show ?thesis using assms none Cons s by (auto simp: dma_alloc_coherent_def)
  next
    case (Some b)
    then have "fst b \<noteq> 0" using assms(2) Cons by (auto simp: dma_sane_def)
    then show ?thesis using assms some [of "fst b" "snd b"] Cons Some s
      by (cases b) (auto simp: dma_alloc_coherent_def)
  qed
qed

lemma vzalloc_cases:
  assumes "vzalloc_table env sz = (r, env')"
  obtains (none) "r = None" "dma_results env' = dma_results env" "allocd env' = allocd env" "freed env' = freed env"
    | (some) "r = Some (replicate (unat sz div 8) 0)" "dma_results env' = dma_results env"
      "allocd env' = allocd env @ [Vtable]" "freed env' = freed env"
  using assms by (auto simp: vzalloc_table_def split: list.splits bool.splits)

lemma table_entries: "8 * pcnt ch < 2 ^ 32 \<Longrightarrow> unat (page_cnt ch * sizeof_voidp) div 8 = pcnt ch"
  by (simp add: unat_word_ariths sizeof_voidp_def mult.commute)

text \<open>The chain as it enters the page loop: its table, of its own or lent by the caller.\<close>

lemma alloc_pbl_enter:
  assumes run: "qed_chain_alloc_pbl ch ext env = (rc, ch', env')"
    and sane: "dma_sane (dma_results env)" and small: "8 * pcnt ch < 2 ^ 32"
    and ch: "pp_virt_addr_tbl ch = None" "\<not> b_external_pbl ch"
  obtains (no_table) "rc = RC_ERR ENOMEM" "ch' = ch" "allocd env' = allocd env" "freed env' = freed env"
    | (no_pbl) c1 where "rc = RC_ERR ENOMEM" "ch' = c1" "pp_virt_addr_tbl c1 \<noteq> None" "p_virt_table c1 = 0"
      "allocd env' = allocd env @ [Vtable]" "freed env' = freed env"
    | (loop) c1 env1 v p where "v \<noteq> 0" "alloc_pbl_loop (pcnt c1) 0 v c1 env1 = (rc, ch', env')"
      "c1 = (ch\<lparr>b_external_pbl := (ext \<noteq> None), p_phys_table := p, p_virt_table := v,
              pp_virt_addr_tbl := Some (replicate (pcnt ch) 0)\<rparr>)"
      "dma_sane (dma_results env1)" "freed env1 = freed env"
      "allocd env1 = allocd env @ [Vtable] @
         (if ext = None then [Dma v p (ucast (page_cnt ch * QED_CHAIN_PBL_ENTRY_SIZE))] else [])"
proof -
  obtain r env0 where vz: "vzalloc_table env (page_cnt ch * sizeof_voidp) = (r, env0)" by fastforce
  from vz show ?thesis
  proof (cases rule: vzalloc_cases)
    case none
    then show ?thesis using run vz no_table by (simp add: qed_chain_alloc_pbl_def)
  next
    case some
    then have sane0: "dma_sane (dma_results env0)" using sane by simp
    note tbl = table_entries [OF small]
    show ?thesis
    proof (cases ext)
      case (Some e)
      show ?thesis
        using run vz some Some tbl ch sane0 no_pbl loop [of "p_pbl_virt e" _ env0 "p_pbl_phys e"]
        by (auto simp: qed_chain_alloc_pbl_def qed_chain_init_pbl_mem_def Let_def split: if_splits)
    next
      case None
      obtain d env1 where al: "dma_alloc_coherent env0 (ucast (page_cnt ch * QED_CHAIN_PBL_ENTRY_SIZE)) = (d, env1)"
        by fastforce
      from al sane0 show ?thesis
      proof (cases rule: dma_alloc_cases)
        case none
        then show ?thesis using run vz some None al no_pbl
          by (auto simp: qed_chain_alloc_pbl_def qed_chain_init_pbl_mem_def Let_def)
      next
        case (some v p)
        have "ch\<lparr>b_external_pbl := False\<rparr> = ch" using ch(2) by simp
        then show ?thesis
          using run vz \<open>r = _\<close> None al some tbl loop [of v _ env1 p] \<open>allocd env0 = _\<close> \<open>freed env0 = _\<close>
          by (auto simp: qed_chain_alloc_pbl_def qed_chain_init_pbl_mem_def Let_def)
      qed
    qed
  qed
qed

lemma alloc_pbl_balanced:
  assumes run: "qed_chain_alloc_pbl ch ext env = (rc, ch', env')"
    and sane: "dma_sane (dma_results env)" and small: "8 * pcnt ch < 2 ^ 32"
    and ch: "pp_virt_addr_tbl ch = None" "\<not> b_external_pbl ch"
  shows "\<exists>bl. allocd env' = allocd env @ bl \<and>
    mset (freed (snd (qed_chain_free_pbl ch' env'))) = mset (freed env) + mset bl \<and>
    allocd (snd (qed_chain_free_pbl ch' env')) = allocd env'"
  using run sane small ch
proof (cases rule: alloc_pbl_enter)
  case no_table
  then show ?thesis using ch by (simp add: qed_chain_free_pbl_def)
next
  case (no_pbl c1)
  then show ?thesis by (auto simp: qed_chain_free_pbl_def vfree_table_def)
next
  case (loop c1 env1 v p)
  have c1: "p_virt_table c1 = v" "pp_virt_addr_tbl c1 = Some (replicate (pcnt c1) 0)"
    "b_external_pbl c1 = (ext \<noteq> None)" "p_phys_table c1 = p" "page_cnt c1 = page_cnt ch"
    by (simp_all add: loop(3))
  show ?thesis
    using alloc_pbl_tail [OF loop(4,1) c1(1,2) loop(2)] loop(5,6) c1
    by auto
qed

lemma alloc_pbl_ok:
  assumes run: "qed_chain_alloc_pbl ch ext env = (RC_OK, ch', env')"
    and sane: "dma_sane (dma_results env)" and small: "8 * pcnt ch < 2 ^ 32"
    and ch: "pp_virt_addr_tbl ch = None" "\<not> b_external_pbl ch"
  obtains c1 bs where "length bs = pcnt ch" "distinct (map fst bs)"
    "ch' = (first_page c1 bs)\<lparr>pp_virt_addr_tbl := Some (map fst bs)\<rparr>"
    "\<exists>e v p t. c1 = ch\<lparr>b_external_pbl := e, p_phys_table := p, p_virt_table := v, pp_virt_addr_tbl := t\<rparr>"
  using run sane small ch
proof (cases rule: alloc_pbl_enter)
  case (loop c1 env1 v p)
  have t: "pp_virt_addr_tbl c1 = Some (replicate (pcnt c1) 0)" "page_cnt c1 = page_cnt ch"
    by (simp_all add: loop(3))
  let ?bs = "fst (grab (pcnt c1) (dma_results env1))"
  have "length ?bs = pcnt ch" "ch' = (first_page c1 ?bs)\<lparr>pp_virt_addr_tbl := Some (map fst ?bs)\<rparr>"
    using loop(2) [unfolded alloc_pbl_loop_0 [OF t(1)]] t(2) by (auto simp: Let_def split: if_splits)
  moreover have "distinct (map fst ?bs)" by (rule grab_sane(1) [OF loop(4)])
  ultimately show ?thesis using that [of ?bs c1] loop(3) by blast
qed auto

lemma alloc_single_balanced:
  assumes run: "qed_chain_alloc_single ch env = (rc, ch', env')" and sane: "dma_sane (dma_results env)"
    and v0: "p_virt_addr ch = 0"
  shows "\<exists>bl. allocd env' = allocd env @ bl \<and>
    freed (qed_chain_free_single ch' env') = freed env @ bl \<and>
    allocd (qed_chain_free_single ch' env') = allocd env'"
proof -
  obtain r env1 where al: "dma_alloc_coherent env (ucast (page_size ch)) = (r, env1)" by fastforce
  from al sane show ?thesis
  proof (cases rule: dma_alloc_cases)
    case none
    then show ?thesis using run al v0
      by (auto simp: qed_chain_alloc_single_def qed_chain_free_single_def)
  next
    case (some v p)
    then show ?thesis using run al
      by (auto simp: qed_chain_alloc_single_def qed_chain_free_single_def dma_free_coherent_def)
  qed
qed

lemma alloc_next_ptr_balanced:
  assumes run: "qed_chain_alloc_next_ptr ch env = (rc, ch', env')"
    and sane: "dma_sane (dma_results env)"
    and zero: "dma_zeroed (chmem env) (next_elem_off ch) (dma_results env)"
    and v0: "p_virt_addr ch = 0"
  shows "\<exists>bl. allocd env' = allocd env @ bl \<and>
    freed (qed_chain_free_next_ptr ch' env') = freed env @ bl \<and>
    allocd (qed_chain_free_next_ptr ch' env') = allocd env'"
proof (cases rc)
  case (RC_ERR e)
  then show ?thesis using alloc_next_ptr_fail [OF sane zero v0] run by metis
next
  case RC_OK
  then have run': "qed_chain_alloc_next_ptr ch env = (RC_OK, ch', env')" using run by simp
  from sane run' show ?thesis
  proof (cases rule: alloc_next_ptr_ok)
    case (1 b bs)
    have l: "linked (chmem env') ch' (b # bs) \<lparr>next_phys = snd b, next_virt = fst b\<rparr>"
      using 1(6) linked_cong [of ch' ch] 1(3) by simp
    have nz: "0 \<notin> fst ` set (b # bs)" using grab_sane(2) [OF sane, of "pcnt ch"] 1(1) by simp
    have "page_block ch' = page_block ch" by (rule page_block_cong) (simp add: 1(3))
    then have "qed_chain_free_next_ptr ch' env' =
        env'\<lparr>freed := freed env' @ map (page_block ch) (b # bs)\<rparr>"
      using free_next_ptr_linked [OF l nz, of "pcnt ch"] 1(2,3) nz
      by (auto simp: qed_chain_free_next_ptr_def first_page_addr)
    then show ?thesis using 1(4,5) by simp
  qed
qed

section \<open>Geometry of a new chain\<close>

lemma unat_unusable:
  fixes e :: "'n::len word"
  assumes "0 < unat e" "5 \<le> LENGTH('n)"
  shows "unat (UNUSABLE_ELEMS_PER_PAGE e m) = (if m = QED_CHAIN_MODE_NEXT_PTR then 1 + 15 div unat e else 0)"
proof -
  have "(2::nat) ^ 5 \<le> 2 ^ LENGTH('n)" using assms(2) by (intro power_increasing) auto
  then have big: "(32::nat) \<le> 2 ^ LENGTH('n)" by simp
  then have "unat (15 :: 'n word) = 15"
    by (simp only: unat_numeral) (simp add: take_bit_nat_eq_self)
  then have "unat (16 - 1 :: 'n word) = 15" by simp
  moreover have "Suc (15 div unat e) < 2 ^ LENGTH('n)"
    using div_le_dividend [of 15 "unat e"] big by linarith
  ultimately have "unat (1 + (sizeof_qed_chain_next - 1) div e) = 1 + 15 div unat e"
    by (simp add: unat_add_mod unat_div sizeof_qed_chain_next_def)
  moreover have "Suc (15 div unat e) < 256" using div_le_dividend [of 15 "unat e"] by linarith
  ultimately show ?thesis by (simp add: UNUSABLE_ELEMS_PER_PAGE_def unat_ucast_mod)
qed

lemma unat_usable:
  fixes e ps :: "'n::len word"
  assumes e: "0 < unat e" and n: "16 \<le> LENGTH('n)"
    and k: "unat ps div unat e = 2 ^ k" "k \<le> 15"
    and np: "m = QED_CHAIN_MODE_NEXT_PTR \<Longrightarrow> 1 + 15 div unat e < 2 ^ k"
  shows "unat (USABLE_ELEMS_PER_PAGE e ps m) =
    2 ^ k - (if m = QED_CHAIN_MODE_NEXT_PTR then 1 + 15 div unat e else 0)"
proof -
  have u: "unat (ucast (UNUSABLE_ELEMS_PER_PAGE e m) :: 'n word) =
      (if m = QED_CHAIN_MODE_NEXT_PTR then 1 + 15 div unat e else 0)"
    using n by (simp add: unat_ucast_le unat_unusable [OF e])
  have "unat (ELEMS_PER_PAGE ps e) = 2 ^ k" by (simp add: ELEMS_PER_PAGE_def unat_div k)
  then have "unat (ELEMS_PER_PAGE ps e - ucast (UNUSABLE_ELEMS_PER_PAGE e m)) =
      2 ^ k - (if m = QED_CHAIN_MODE_NEXT_PTR then 1 + 15 div unat e else 0)"
    using u np by (subst unat_sub) (auto simp: word_le_nat_alt)
  moreover have "(2::nat) ^ k \<le> 2 ^ 15" using k(2) by (intro power_increasing) auto
  ultimately show ?thesis by (simp add: USABLE_ELEMS_PER_PAGE_def unat_ucast_mod)
qed

lemma chain_init_wf:
  fixes esize :: u8 and psize :: u32 and ch0 :: qed_chain and use :: qed_chain_use_mode
  assumes e: "0 < unat esize" and k: "unat psize div unat esize = 2 ^ k" "k \<le> 15"
    and np: "m = QED_CHAIN_MODE_NEXT_PTR \<Longrightarrow> 1 + 15 div unat esize < 2 ^ k"
    and n: "0 < unat n" "m = QED_CHAIN_MODE_SINGLE \<Longrightarrow> n = 1"
    and sz: "2 ^ k * unat n < 2 ^ 32" "ct = QED_CHAIN_CNT_TYPE_U16 \<Longrightarrow> 2 ^ k * unat n \<le> 2 ^ 16"
  defines "c \<equiv> qed_chain_init ch0 n esize psize use m ct"
  shows "chain_wf c" and "epp c = 2 ^ k"
    and "upp c = 2 ^ k - (if m = QED_CHAIN_MODE_NEXT_PTR then 1 + 15 div unat esize else 0)"
proof -
  have e32: "unat (ucast esize :: u32) = unat esize" by (simp add: unat_ucast_le)
  have "(2::nat) ^ k \<le> 2 ^ 15" using k(2) by (intro power_increasing) auto
  then have k16: "(2::nat) ^ k < 65536" by simp
  have "unat (ELEMS_PER_PAGE psize (ucast esize)) = 2 ^ k"
    by (simp add: ELEMS_PER_PAGE_def unat_div e32 k)
  then show epp: "epp c = 2 ^ k"
    using k16 by (simp add: c_def qed_chain_init_def Let_def unat_ucast_mod)
  have un: "unat (elem_unusable c) = (if m = QED_CHAIN_MODE_NEXT_PTR then 1 + 15 div unat esize else 0)"
    using e by (simp add: c_def qed_chain_init_def Let_def unat_unusable e32)
  have us: "unat (USABLE_ELEMS_PER_PAGE (ucast esize) psize m) =
      2 ^ k - (if m = QED_CHAIN_MODE_NEXT_PTR then 1 + 15 div unat esize else 0)"
    using unat_usable [of "ucast esize :: u32" psize k m] e k np by (simp add: e32)
  then show upp: "upp c = 2 ^ k - (if m = QED_CHAIN_MODE_NEXT_PTR then 1 + 15 div unat esize else 0)"
    using k16 by (simp add: c_def qed_chain_init_def Let_def unat_ucast_mod)
  have mask: "unat (elem_per_page_mask c) = epp c - 1"
  proof -
    have "elem_per_page_mask c = elem_per_page c - 1" by (simp add: c_def qed_chain_init_def Let_def)
    moreover have "elem_per_page c \<noteq> 0" using epp by auto
    ultimately show ?thesis using unat_minus_one by metis
  qed
  have le: "upp c \<le> 2 ^ k" unfolding upp by simp
  have cap: "unat (capacity c) = upp c * unat n"
  proof -
    have "upp c * unat n \<le> 2 ^ k * unat n" using le by (intro mult_right_mono) auto
    then have "upp c * unat n < 2 ^ 32" using sz(1) by linarith
    moreover have "capacity c = ucast (usable_per_page c) * n" by (simp add: c_def qed_chain_init_def Let_def)
    ultimately show ?thesis by (simp add: unat_word_ariths unat_ucast_le)
  qed
  have f: "mode c = m" "page_cnt c = n" "cnt_type c = ct"
    "next_page_mask c = usable_per_page c AND elem_per_page_mask c"
    by (simp_all add: c_def qed_chain_init_def Let_def)
  have "upp c + unat (elem_unusable c) = epp c" "0 < upp c"
    unfolding upp un epp using np by auto
  moreover have "mode c = QED_CHAIN_MODE_NEXT_PTR \<longleftrightarrow> elem_unusable c \<noteq> 0"
    using un f(1) by (auto simp: unat_eq_0 split: if_splits)
  ultimately show "chain_wf c"
    unfolding chain_wf_def cap mask using f n sz epp k(2)
    by (auto simp: idx_bits_def is_chain_u16_def)
qed

section \<open>The allocation as a whole\<close>

text \<open>
  The parameters the driver uses: elements of less than 256 bytes, a power of two of which, at
  least 8, fill a page. The number of elements is not used for a single page.
\<close>

definition params_ok :: "qed_chain_params \<Rightarrow> bool" where
  "params_ok par \<longleftrightarrow>
     0 < unat (par_elem_size par) \<and> unat (par_elem_size par) < 256 \<and>
     (\<exists>k\<in>{3..15}. unat (par_page_size par) div unat (par_elem_size par) = 2 ^ k) \<and>
     (par_mode par = QED_CHAIN_MODE_NEXT_PTR \<longrightarrow>
        1 + 15 div unat (par_elem_size par) < unat (par_page_size par) div unat (par_elem_size par)) \<and>
     (par_mode par \<noteq> QED_CHAIN_MODE_SINGLE \<longrightarrow> 0 < num_elems par \<and>
        unat (num_elems par) + unat (par_page_size par) div unat (par_elem_size par) \<le> 2 ^ 32)"

definition alloc_page_cnt :: "qed_chain_params \<Rightarrow> u32" where
  "alloc_page_cnt par =
     (if par_mode par = QED_CHAIN_MODE_SINGLE then 1
      else QED_CHAIN_PAGE_CNT (num_elems par) (par_elem_size par)
             (ucast (par_page_size par)) (par_mode par))"

definition alloc_init :: "qed_chain \<Rightarrow> qed_chain_params \<Rightarrow> qed_chain" where
  "alloc_init ch par =
     qed_chain_init ch (alloc_page_cnt par) (ucast (par_elem_size par)) (par_page_size par)
       (par_intended_use par) (par_mode par) (par_cnt_type par)"

lemma alloc_init_fields [simp]:
  "mode (alloc_init ch par) = par_mode par" "page_cnt (alloc_init ch par) = alloc_page_cnt par"
  "intended_use (alloc_init ch par) = par_intended_use par"
  "pp_virt_addr_tbl (alloc_init ch par) = None" "p_virt_addr (alloc_init ch par) = 0"
  "b_external_pbl (alloc_init ch par) = False" "page_size (alloc_init ch par) = par_page_size par"
  by (simp_all add: alloc_init_def qed_chain_init_def Let_def)

lemma div_round_up:
  assumes "0 < u" "unat n + unat u \<le> 2 ^ 32" "0 < n"
  shows "unat n \<le> unat u * unat (DIV_ROUND_UP n u)" "0 < unat (DIV_ROUND_UP n u)"
proof -
  have p: "0 < unat n" "0 < unat u" using assms(1,3) by (auto simp: word_less_nat_alt)
  have "n + u - 1 = n + (u - 1)" by simp
  moreover have "unat (u - 1) = unat u - 1" using p by (intro unat_minus_one) auto
  ultimately have s: "unat (n + u - 1) = unat n + unat u - 1"
    using assms(2) p by (simp only: unat_add_mod) simp
  have d: "unat (DIV_ROUND_UP n u) = (unat n + unat u - 1) div unat u"
    by (simp add: DIV_ROUND_UP_def unat_div s)
  have "unat n + unat u - 1 = unat u * unat (DIV_ROUND_UP n u) + (unat n + unat u - 1) mod unat u"
    by (simp add: d)
  moreover have "(unat n + unat u - 1) mod unat u < unat u" using p by simp
  ultimately show le: "unat n \<le> unat u * unat (DIV_ROUND_UP n u)" by linarith
  then show "0 < unat (DIV_ROUND_UP n u)" using p by (cases "unat (DIV_ROUND_UP n u)") auto
qed

lemma sanity_ok:
  assumes ok: "qed_chain_alloc_sanity_check ct es ps n = RC_OK" and e: "0 < unat es"
    and k: "unat ps div unat es = 2 ^ k" "k \<le> 15"
  shows "2 ^ k * unat n < 2 ^ 32 \<or> ct = QED_CHAIN_CNT_TYPE_U16"
    and "ct = QED_CHAIN_CNT_TYPE_U16 \<Longrightarrow> 2 ^ k * unat n \<le> 2 ^ 16"
proof -
  have "(2::nat) ^ k \<le> 2 ^ 15" using k(2) by (intro power_increasing) auto
  moreover have "unat n < 2 ^ 32" using unsigned_less [of n] by simp
  ultimately have "2 ^ k * unat n < 2 ^ 15 * 2 ^ 32" by (intro mult_le_less_imp_less) auto
  moreover have "unat (ELEMS_PER_PAGE (ucast ps) es) = 2 ^ k"
    by (simp add: ELEMS_PER_PAGE_def unat_div unat_ucast_le k)
  ultimately have "unat (ELEMS_PER_PAGE (ucast ps) es * ucast n) = 2 ^ k * unat n"
    by (simp add: unat_word_ariths unat_ucast_le)
  then show "2 ^ k * unat n < 2 ^ 32 \<or> ct = QED_CHAIN_CNT_TYPE_U16"
    and "ct = QED_CHAIN_CNT_TYPE_U16 \<Longrightarrow> 2 ^ k * unat n \<le> 2 ^ 16"
    using ok by (cases ct; auto simp: qed_chain_alloc_sanity_check_def Let_def word_less_nat_alt
        split: if_splits)+
qed

lemma alloc_init_wf:
  assumes ok: "params_ok par"
    and sane: "qed_chain_alloc_sanity_check (par_cnt_type par) (par_elem_size par) (par_page_size par)
      (alloc_page_cnt par) = RC_OK"
  shows "chain_wf (alloc_init ch par)" "8 * pcnt (alloc_init ch par) < 2 ^ 32"
    "par_mode par \<noteq> QED_CHAIN_MODE_SINGLE \<Longrightarrow>
       unat (num_elems par) \<le> unat (capacity (alloc_init ch par))"
proof -
  let ?e = "par_elem_size par" and ?n = "alloc_page_cnt par" and ?c = "alloc_init ch par"
  let ?un = "if par_mode par = QED_CHAIN_MODE_NEXT_PTR then 1 + 15 div unat ?e else 0"
  obtain k where k: "unat (par_page_size par) div unat ?e = 2 ^ k" "3 \<le> k" "k \<le> 15"
    using ok by (auto simp: params_ok_def)
  have e: "0 < unat ?e" "unat ?e < 256" using ok by (auto simp: params_ok_def)
  have e8: "unat (ucast ?e :: u8) = unat ?e" using e(2) by (simp add: unat_ucast_mod)
  have np: "par_mode par = QED_CHAIN_MODE_NEXT_PTR \<Longrightarrow> 1 + 15 div unat ?e < 2 ^ k"
    using ok k by (auto simp: params_ok_def)
  have us: "unat (USABLE_ELEMS_PER_PAGE ?e (ucast (par_page_size par)) (par_mode par)) = 2 ^ k - ?un"
    using e k np by (intro unat_usable) (simp_all add: unat_ucast_le)
  have n1: "0 < unat ?n" and cap: "par_mode par \<noteq> QED_CHAIN_MODE_SINGLE \<Longrightarrow>
      unat (num_elems par) \<le> (2 ^ k - ?un) * unat ?n"
  proof -
    let ?u = "USABLE_ELEMS_PER_PAGE ?e (ucast (par_page_size par)) (par_mode par)"
    have u: "0 < ?u" using np unfolding word_less_nat_alt us by auto
    have "unat (num_elems par) \<le> unat ?u * unat (DIV_ROUND_UP (num_elems par) ?u) \<and>
        0 < unat (DIV_ROUND_UP (num_elems par) ?u)" if "par_mode par \<noteq> QED_CHAIN_MODE_SINGLE"
    proof -
      have "unat (num_elems par) + unat ?u \<le> 2 ^ 32" "0 < num_elems par"
        using ok k(1) us that by (auto simp: params_ok_def split: if_splits)
      then show ?thesis using div_round_up [OF u] by blast
    qed
    then show "0 < unat ?n" "par_mode par \<noteq> QED_CHAIN_MODE_SINGLE \<Longrightarrow>
        unat (num_elems par) \<le> (2 ^ k - ?un) * unat ?n"
      by (auto simp: alloc_page_cnt_def QED_CHAIN_PAGE_CNT_def us)
  qed
  note sz = sanity_ok [OF sane e(1) k(1,3)]
  have s32: "2 ^ k * unat ?n < 2 ^ 32" using sz by auto
  show wf: "chain_wf ?c" unfolding alloc_init_def
    by (rule chain_init_wf(1)) (use e e8 k np n1 s32 sz in \<open>auto simp: alloc_page_cnt_def\<close>)
  have "upp ?c = 2 ^ k - ?un" unfolding alloc_init_def
    by (subst chain_init_wf(3)) (use e e8 k np n1 s32 sz in \<open>auto simp: alloc_page_cnt_def\<close>)
  moreover have "unat (capacity ?c) = upp ?c * pcnt ?c" using wf by (simp add: chain_wf_def)
  ultimately show "unat (num_elems par) \<le> unat (capacity ?c)" if "par_mode par \<noteq> QED_CHAIN_MODE_SINGLE"
    using cap that by simp
  have "(2::nat) ^ 3 \<le> 2 ^ k" using k(2) by (intro power_increasing) auto
  then have "8 * unat ?n \<le> 2 ^ k * unat ?n" by (intro mult_right_mono) auto
  then show "8 * pcnt ?c < 2 ^ 32" using s32 by (simp only: alloc_init_fields)
qed


lemma alloc_unfold:
  "qed_chain_alloc ch par env =
     (case qed_chain_alloc_sanity_check (par_cnt_type par) (par_elem_size par) (par_page_size par)
            (alloc_page_cnt par) of
        RC_ERR e \<Rightarrow> (RC_ERR e, ch, env)
      | RC_OK \<Rightarrow>
          (case (case par_mode par of
                   QED_CHAIN_MODE_NEXT_PTR \<Rightarrow> qed_chain_alloc_next_ptr (alloc_init ch par) env
                 | QED_CHAIN_MODE_SINGLE \<Rightarrow> qed_chain_alloc_single (alloc_init ch par) env
                 | QED_CHAIN_MODE_PBL \<Rightarrow> qed_chain_alloc_pbl (alloc_init ch par) (ext_pbl par) env) of
             (RC_OK, ch2, env2) \<Rightarrow> (RC_OK, ch2, env2)
           | (RC_ERR e, ch2, env2) \<Rightarrow> (RC_ERR e, qed_chain_free ch2 env2)))"
  unfolding qed_chain_alloc_def Let_def alloc_page_cnt_def [symmetric] alloc_init_def [symmetric]
  by (simp split: rc.split prod.split)

text \<open>A chain reset on its first page, possibly with its table filled in afterwards.\<close>

lemma reset_started:
  assumes wf: "chain_wf c" and va: "p_virt_addr c = pages ! 0"
    and ch': "ch' = (qed_chain_reset c)\<lparr>pp_virt_addr_tbl := t\<rparr>"
  shows "chain_wf ch'" "cons_at ch' pages 0"
    "if intended_use ch' = QED_CHAIN_USE_TO_CONSUME
     then prod_idx_nat ch' = lazy_idx (upp ch') (epp ch') (unat (capacity ch')) mod 2 ^ idx_bits ch'
     else prod_at ch' pages 0"
proof -
  have wf': "chain_wf (qed_chain_reset c)" using wf geom_cong(1) [OF reset_geom] by blast
  then show "chain_wf ch'" by (simp add: ch' chain_wf_def idx_bits_def is_chain_u16_def)
  have u: "is_chain_u16 (x\<lparr>pp_virt_addr_tbl := y\<rparr>) = is_chain_u16 x" for x y by (simp add: is_chain_u16_def)
  have a: "at_pos (x\<lparr>pp_virt_addr_tbl := y\<rparr>) = at_pos x" for x y
    by (simp add: fun_eq_iff at_pos_def elem_ptr_def page_pos_def split: nat.split)
  have c: "cons_at ch' pages 0 = cons_at (qed_chain_reset c) pages 0"
    "prod_at ch' pages 0 = prod_at (qed_chain_reset c) pages 0"
    "prod_idx_nat ch' = prod_idx_nat (qed_chain_reset c)" "idx_bits ch' = idx_bits (qed_chain_reset c)"
    by (simp_all add: ch' cons_at_def prod_at_def prod_idx_nat_def idx_bits_def u a)
  note g = geom_eqD [OF reset_geom [of c]] geom_cong(5) [OF reset_geom [of c]]
  have cap: "unat (capacity c) = upp c * pcnt c" using wf by (simp add: chain_wf_def)
  show "cons_at ch' pages 0"
    using reset_full(1) [OF wf va] reset_at_0(2) [OF wf va] c by blast
  show "if intended_use ch' = QED_CHAIN_USE_TO_CONSUME
     then prod_idx_nat ch' = lazy_idx (upp ch') (epp ch') (unat (capacity ch')) mod 2 ^ idx_bits ch'
     else prod_at ch' pages 0"
    using reset_full(2) [OF wf va] reset_at_0(1) [OF wf va] cap
    by (simp add: c g) (simp add: ch' g)
qed

text \<open>
  A chain ready for use: well-formed, its pages distinct and laid out, consumer at the start,
  producer at the start or, where the device fills the chain, one full round ahead.
\<close>

definition chain_ready :: "chain_mem \<Rightarrow> qed_chain \<Rightarrow> u64 list \<Rightarrow> bool" where
  "chain_ready mem ch pages \<longleftrightarrow>
     chain_wf ch \<and> chain_layout mem ch pages \<and> distinct pages \<and> cons_at ch pages 0 \<and>
     (if intended_use ch = QED_CHAIN_USE_TO_CONSUME
      then prod_idx_nat ch = lazy_idx (upp ch) (epp ch) (unat (capacity ch)) mod 2 ^ idx_bits ch
      else prod_at ch pages 0)"

lemma chain_wf_cong:
  assumes "c = ch\<lparr>b_external_pbl := e, p_phys_table := p, p_virt_table := v, pp_virt_addr_tbl := t\<rparr>"
  shows "chain_wf c = chain_wf ch" "page_cnt c = page_cnt ch" "mode c = mode ch" "capacity c = capacity ch"
    "intended_use c = intended_use ch"
  by (simp_all add: assms chain_wf_def idx_bits_def is_chain_u16_def)

lemma chain_wf_init_mem: "chain_wf (qed_chain_init_mem c v p) = chain_wf c"
  by (simp add: qed_chain_init_mem_def chain_wf_def idx_bits_def is_chain_u16_def)

lemma alloc_next_ptr_ready:
  assumes wf: "chain_wf ch" and m: "mode ch = QED_CHAIN_MODE_NEXT_PTR"
    and sane: "dma_sane (dma_results env)" and run: "qed_chain_alloc_next_ptr ch env = (RC_OK, ch', env')"
  shows "\<exists>pages. chain_ready (chmem env') ch' pages" "capacity ch' = capacity ch"
proof -
  from sane run obtain b bs where g: "fst (grab (pcnt ch) (dma_results env)) = b # bs"
    and len: "length (b # bs) = pcnt ch" and ch': "ch' = first_page ch (b # bs)"
    and l: "linked (chmem env') ch (b # bs) \<lparr>next_phys = snd b, next_virt = fst b\<rparr>"
    by (rule alloc_next_ptr_ok)
  let ?c = "qed_chain_init_mem ch (fst b) (snd b)"
  have d: "distinct (map fst (b # bs))" using grab_sane(1) [OF sane, of "pcnt ch"] g by simp
  have e: "ch' = qed_chain_reset ?c" by (simp add: ch' first_page_def)
  note st = reset_started [of ?c "map fst (b # bs)" ch' "pp_virt_addr_tbl ch'"]
  have "chain_layout (chmem env') ch' (map fst (b # bs))"
    using l linked_cong [of ch' ch] len m by (intro linked_layout) (simp_all add: ch' first_page_addr del: linked.simps)
  then have "chain_ready (chmem env') ch' (map fst (b # bs))"
    using st wf d e unfolding chain_ready_def by (simp add: chain_wf_init_mem)
  then show "\<exists>pages. chain_ready (chmem env') ch' pages" ..
  show "capacity ch' = capacity ch"
    using geom_eqD(2) [OF reset_geom [of ?c]] by (simp add: e qed_chain_init_mem_def)
qed

lemma alloc_single_ready:
  assumes wf: "chain_wf ch" and m: "mode ch = QED_CHAIN_MODE_SINGLE"
    and sane: "dma_sane (dma_results env)" and run: "qed_chain_alloc_single ch env = (RC_OK, ch', env')"
  shows "\<exists>pages. chain_ready (chmem env') ch' pages" "capacity ch' = capacity ch"
proof -
  obtain v p where ch': "ch' = qed_chain_reset (qed_chain_init_mem ch v p)"
    using run by (auto simp: qed_chain_alloc_single_def split: prod.splits option.splits)
  let ?c = "qed_chain_init_mem ch v p"
  note st = reset_started [of ?c "[v]" ch' "pp_virt_addr_tbl ch'"]
  have "chain_layout (chmem env') ch' [v]"
    using wf m by (simp add: chain_layout_def ch' chain_wf_def)
  then have "chain_ready (chmem env') ch' [v]"
    using st wf ch' unfolding chain_ready_def by (simp add: chain_wf_init_mem)
  then show "\<exists>pages. chain_ready (chmem env') ch' pages" ..
  show "capacity ch' = capacity ch"
    using geom_eqD(2) [OF reset_geom [of ?c]] by (simp add: ch' qed_chain_init_mem_def)
qed

lemma alloc_pbl_ready:
  assumes wf: "chain_wf ch" and m: "mode ch = QED_CHAIN_MODE_PBL"
    and ch: "pp_virt_addr_tbl ch = None" "\<not> b_external_pbl ch" "8 * pcnt ch < 2 ^ 32"
    and sane: "dma_sane (dma_results env)" and run: "qed_chain_alloc_pbl ch ext env = (RC_OK, ch', env')"
  shows "\<exists>pages. chain_ready (chmem env') ch' pages" "capacity ch' = capacity ch"
proof -
  from run sane ch(3,1,2) obtain c1 bs where len: "length bs = pcnt ch" and d: "distinct (map fst bs)"
    and ch': "ch' = (first_page c1 bs)\<lparr>pp_virt_addr_tbl := Some (map fst bs)\<rparr>"
    and "\<exists>e v p t. c1 = ch\<lparr>b_external_pbl := e, p_phys_table := p, p_virt_table := v, pp_virt_addr_tbl := t\<rparr>"
    by (rule alloc_pbl_ok)
  then obtain e v p t where
    "c1 = ch\<lparr>b_external_pbl := e, p_phys_table := p, p_virt_table := v, pp_virt_addr_tbl := t\<rparr>" by blast
  note c1 = chain_wf_cong [OF this]
  obtain b bs' where bs: "bs = b # bs'" using len chain_wf_pos(3) [OF wf] by (cases bs) auto
  let ?c = "qed_chain_init_mem c1 (fst b) (snd b)"
  have e: "ch' = (qed_chain_reset ?c)\<lparr>pp_virt_addr_tbl := Some (map fst bs)\<rparr>"
    by (simp add: ch' first_page_def bs)
  note st = reset_started [OF _ _ e, of "map fst bs"]
  have "chain_layout (chmem env') ch' (map fst bs)"
    using m len c1 by (simp add: chain_layout_def e bs)
  then have "chain_ready (chmem env') ch' (map fst bs)"
    using st wf d unfolding chain_ready_def by (simp add: chain_wf_init_mem c1 bs)
  then show "\<exists>pages. chain_ready (chmem env') ch' pages" ..
  show "capacity ch' = capacity ch"
    using geom_eqD(2) [OF reset_geom [of ?c]] c1(4) by (simp add: e qed_chain_init_mem_def)
qed

lemma chain_alloc_ready:
  assumes ok: "params_ok par" and sane: "dma_sane (dma_results env)"
    and run: "qed_chain_alloc ch par env = (RC_OK, ch', env')"
  shows "\<exists>pages. chain_ready (chmem env') ch' pages"
    and "par_mode par \<noteq> QED_CHAIN_MODE_SINGLE \<Longrightarrow> unat (num_elems par) \<le> unat (capacity ch')"
proof -
  let ?c = "alloc_init ch par"
  have s: "qed_chain_alloc_sanity_check (par_cnt_type par) (par_elem_size par) (par_page_size par)
      (alloc_page_cnt par) = RC_OK"
    using run by (auto simp: alloc_unfold split: rc.splits)
  note w = alloc_init_wf [OF ok s, of ch]
  have "(\<exists>pages. chain_ready (chmem env') ch' pages) \<and> capacity ch' = capacity ?c"
  proof (cases "par_mode par")
    case QED_CHAIN_MODE_NEXT_PTR
    then show ?thesis using run s alloc_next_ptr_ready [OF w(1) _ sane, of ch' env']
      by (auto simp: alloc_unfold split: rc.splits prod.splits)
  next
    case QED_CHAIN_MODE_SINGLE
    then show ?thesis using run s alloc_single_ready [OF w(1) _ sane, of ch' env']
      by (auto simp: alloc_unfold split: rc.splits prod.splits)
  next
    case QED_CHAIN_MODE_PBL
    then show ?thesis using run s w(2) alloc_pbl_ready [OF w(1) _ _ _ _ sane, of "ext_pbl par" ch' env']
      by (auto simp: alloc_unfold split: rc.splits prod.splits)
  qed
  then show "\<exists>pages. chain_ready (chmem env') ch' pages"
    and "par_mode par \<noteq> QED_CHAIN_MODE_SINGLE \<Longrightarrow> unat (num_elems par) \<le> unat (capacity ch')"
    using w(3) by auto
qed

lemma alloc_next_ptr_mode: "qed_chain_alloc_next_ptr ch env = (r, c1, e1) \<Longrightarrow> mode c1 = mode ch \<and> intended_use c1 = intended_use ch"
proof (cases "page_cnt ch = 0")
  case False
  then have "0 < pcnt ch" by (simp add: unat_gt_0)
  note loop = alloc_next_ptr_loop_0 [OF this, of ch env]
  show "qed_chain_alloc_next_ptr ch env = (r, c1, e1) \<Longrightarrow> mode c1 = mode ch \<and> intended_use c1 = intended_use ch"
    using False by (auto simp: qed_chain_alloc_next_ptr_def loop Let_def split: if_splits)
qed (simp add: qed_chain_alloc_next_ptr_def)

lemma alloc_pbl_loop_mode: "alloc_pbl_loop n i v ch env = (r, c1, e1) \<Longrightarrow> mode c1 = mode ch \<and> intended_use c1 = intended_use ch"
proof (induction n arbitrary: i v ch env)
  case (Suc n)
  then show ?case by (fastforce simp: Let_def split: prod.splits option.splits if_splits)
qed simp

lemma alloc_pbl_mode: "qed_chain_alloc_pbl ch ext env = (r, c1, e1) \<Longrightarrow> mode c1 = mode ch \<and> intended_use c1 = intended_use ch"
  by (auto simp: qed_chain_alloc_pbl_def Let_def qed_chain_init_pbl_mem_def
      split: prod.splits option.splits if_splits dest!: alloc_pbl_loop_mode)

lemma alloc_mode:
  assumes "(case m of QED_CHAIN_MODE_NEXT_PTR \<Rightarrow> qed_chain_alloc_next_ptr ch env
    | QED_CHAIN_MODE_SINGLE \<Rightarrow> qed_chain_alloc_single ch env
    | QED_CHAIN_MODE_PBL \<Rightarrow> qed_chain_alloc_pbl ch ext env) = (r, c1, e1)"
  shows "mode c1 = mode ch \<and> intended_use c1 = intended_use ch"
  using assms alloc_next_ptr_mode alloc_pbl_mode
  by (cases m) (auto simp: qed_chain_alloc_single_def split: prod.splits option.splits)

text \<open>Whatever the outcome, the blocks obtained and the blocks given back balance.\<close>

lemma chain_alloc_balance:
  assumes ok: "params_ok par" and sane: "dma_sane (dma_results env)"
    and zero: "dma_zeroed (chmem env) (next_elem_off (alloc_init ch par)) (dma_results env)"
    and run: "qed_chain_alloc ch par env = (rc, ch', env')"
  shows "\<exists>bl. allocd env' = allocd env @ bl \<and>
    mset (freed (if rc = RC_OK then snd (qed_chain_free ch' env') else env')) = mset (freed env) + mset bl"
proof (cases "qed_chain_alloc_sanity_check (par_cnt_type par) (par_elem_size par) (par_page_size par)
      (alloc_page_cnt par)")
  case (RC_ERR e)
  then show ?thesis using run by (auto simp: alloc_unfold)
next
  case RC_OK
  let ?c = "alloc_init ch par"
  let ?r = "case par_mode par of
      QED_CHAIN_MODE_NEXT_PTR \<Rightarrow> qed_chain_alloc_next_ptr ?c env
    | QED_CHAIN_MODE_SINGLE \<Rightarrow> qed_chain_alloc_single ?c env
    | QED_CHAIN_MODE_PBL \<Rightarrow> qed_chain_alloc_pbl ?c (ext_pbl par) env"
  obtain r c1 e1 where r: "?r = (r, c1, e1)" by (metis prod_cases3)
  have m: "mode c1 = par_mode par"
    using alloc_mode [OF r] by simp
  note w = alloc_init_wf [OF ok RC_OK, of ch]
  have "\<exists>bl. allocd e1 = allocd env @ bl \<and>
      mset (freed (snd (qed_chain_free c1 e1))) = mset (freed env) + mset bl \<and>
      allocd (snd (qed_chain_free c1 e1)) = allocd e1"
  proof (cases "par_mode par")
    case QED_CHAIN_MODE_NEXT_PTR
    then show ?thesis using alloc_next_ptr_balanced [of ?c env r c1 e1] r sane zero m
      by (auto simp: qed_chain_free_def)
  next
    case QED_CHAIN_MODE_SINGLE
    then show ?thesis using alloc_single_balanced [of ?c env r c1 e1] r sane m
      by (auto simp: qed_chain_free_def)
  next
    case QED_CHAIN_MODE_PBL
    then show ?thesis using alloc_pbl_balanced [of ?c "ext_pbl par" env r c1 e1] r sane m w(2)
      by (auto simp: qed_chain_free_def split: prod.split)
  qed
  moreover have "(rc, ch', env') = (case r of RC_OK \<Rightarrow> (RC_OK, c1, e1) | RC_ERR e \<Rightarrow> (RC_ERR e, qed_chain_free c1 e1))"
    using run RC_OK by (simp only: alloc_unfold r) (cases r; auto)
  ultimately show ?thesis by (cases r) (auto simp: prod_eq_iff)
qed

lemma alloc_intended_use:
  assumes "qed_chain_alloc ch par env = (RC_OK, ch', env')"
  shows "intended_use ch' = par_intended_use par"
proof -
  have "(case par_mode par of
      QED_CHAIN_MODE_NEXT_PTR \<Rightarrow> qed_chain_alloc_next_ptr (alloc_init ch par) env
    | QED_CHAIN_MODE_SINGLE \<Rightarrow> qed_chain_alloc_single (alloc_init ch par) env
    | QED_CHAIN_MODE_PBL \<Rightarrow> qed_chain_alloc_pbl (alloc_init ch par) (ext_pbl par) env) = (RC_OK, ch', env')"
    using assms by (auto simp: alloc_unfold split: rc.splits prod.splits)
  from alloc_mode [OF this] show ?thesis by simp
qed

end
