(* ===== verification/Qed_Chain_Ring.thy ===== *)
theory Qed_Chain_Ring
  imports Qed_Chain_Alloc_Correct Qed_Interfaces
begin

text \<open>
  A chain with 16 bit indices and no next pointer elements is a ring in the sense of the
  interface: this is how the slow path queue and the light L2 queues use it.
\<close>

section \<open>Positions\<close>

text \<open>
  \<open>g\<close> fixes the geometry. The consumer of these rings is an index only
  (\<open>qed_chain_return_produced\<close>), so nothing is said of its element pointer.
\<close>

definition chain_ring_at :: "chain_mem \<Rightarrow> qed_chain \<Rightarrow> u64 list \<Rightarrow> qed_chain \<Rightarrow> nat \<Rightarrow> nat \<Rightarrow> bool" where
  "chain_ring_at mem g pages r P C \<longleftrightarrow>
     geom r = geom g \<and> chain_wf g \<and> chain_layout mem g pages \<and> is_chain_u16 g \<and>
     mode g \<noteq> QED_CHAIN_MODE_NEXT_PTR \<and> epp g * pcnt g < 2 ^ 16 \<and>
     0 < esz g \<and> pages_apart (upp g * esz g) pages \<and>
     prod_at r pages P \<and> unat (cons_idx (chain16 r)) = C mod 2 ^ 16 \<and>
     C \<le> P \<and> P \<le> C + unat (capacity g)"

lemma chain_ring_geom:
  assumes "chain_ring_at mem g pages r P C"
  shows "chain_wf r" "chain_layout mem r pages" "is_chain_u16 r" "epp r = upp r" "epp g = upp g"
    "elem_unusable g = 0" "elem_unusable r = 0" "capacity r = capacity g" "slot_addr r = slot_addr g"
proof -
  have g: "geom r = geom g" using assms by (simp add: chain_ring_at_def)
  show wf: "chain_wf r" "chain_layout mem r pages" "is_chain_u16 r" "capacity r = capacity g"
    "slot_addr r = slot_addr g"
    using assms geom_cong(1-4) [OF g] geom_eqD(2) [OF g] by (auto simp: chain_ring_at_def)
  have wg: "chain_wf g" "mode g \<noteq> QED_CHAIN_MODE_NEXT_PTR" using assms by (auto simp: chain_ring_at_def)
  then show "elem_unusable g = 0" by (auto simp: chain_wf_def)
  then show "elem_unusable r = 0" using geom_eqD(10) [OF g] by simp
  show "epp g = upp g" using chain_wf_upp(2) [OF wg] by simp
  then show "epp r = upp r" using geom_eqD(5,9) [OF g] by simp
qed

lemma chain_ring_idx:
  assumes at: "chain_ring_at mem g pages r P C"
  shows "unat (prod_idx (chain16 r)) = P mod 2 ^ 16" "cons_idx_nat r = C mod 2 ^ 16"
    "prod_idx_nat r = lazy_idx (upp r) (epp r) P mod 2 ^ idx_bits r"
    "cons_idx_nat r = lazy_idx (upp r) (epp r) C mod 2 ^ idx_bits r"
    "cons_idx_nat r = eager_idx (upp r) (epp r) C mod 2 ^ idx_bits r"
proof -
  note g = chain_ring_geom [OF at]
  have u: "0 < upp r" using chain_wf_pos(1) [OF g(1)] .
  have p: "prod_at r pages P" and c: "unat (cons_idx (chain16 r)) = C mod 2 ^ 16"
    using at by (auto simp: chain_ring_at_def)
  show pi: "prod_idx_nat r = lazy_idx (upp r) (epp r) P mod 2 ^ idx_bits r" by (rule prod_at_idx [OF p])
  then show "unat (prod_idx (chain16 r)) = P mod 2 ^ 16"
    using g(3) by (simp add: prod_idx_nat_def idx_bits_def g(4) lazy_idx_full u)
  show ci: "cons_idx_nat r = C mod 2 ^ 16" using c g(3) by (simp add: cons_idx_nat_def)
  show "cons_idx_nat r = lazy_idx (upp r) (epp r) C mod 2 ^ idx_bits r"
    using g(3) by (simp add: ci idx_bits_def g(4) lazy_idx_full u)
  show "cons_idx_nat r = eager_idx (upp r) (epp r) C mod 2 ^ idx_bits r"
    using g(3) by (simp add: ci idx_bits_def g(4) eager_idx_def)
qed

section \<open>The laws\<close>

lemma chain_ring_produce:
  assumes at: "chain_ring_at mem g pages r P C" and room: "P < C + unat (capacity g)"
  shows "fst (qed_chain_produce mem r) = slot_addr g pages P"
    "chain_ring_at mem g pages (snd (qed_chain_produce mem r)) (Suc P) C"
proof -
  note g = chain_ring_geom [OF at]
  have p: "prod_at r pages P" using at by (simp add: chain_ring_at_def)
  note pp = produce_pos [OF g(1,2) p]
  show "fst (qed_chain_produce mem r) = slot_addr g pages P" using pp(1) g(9) by simp
  have "cons_idx (chain16 (snd (qed_chain_produce mem r))) = cons_idx (chain16 r)"
    by (simp add: qed_chain_produce_def Let_def split: prod.split)
  then show "chain_ring_at mem g pages (snd (qed_chain_produce mem r)) (Suc P) C"
    using at room pp(2) by (simp add: chain_ring_at_def)
qed

lemma chain_ring_return:
  assumes at: "chain_ring_at mem g pages r P C" and used: "C < P"
  shows "chain_ring_at mem g pages (qed_chain_return_produced r) P (Suc C)"
proof -
  note g = chain_ring_geom [OF at]
  note ret = return_idx [OF g(1) chain_ring_idx(5) [OF at]]
  have u: "is_chain_u16 (qed_chain_return_produced r)"
    using g(3) geom_cong(4) [OF return_geom [of r]] by simp
  have "cons_idx_nat (qed_chain_return_produced r) = Suc C mod 2 ^ 16"
    using ret(1) g(3) by (simp add: idx_bits_def g(4) eager_idx_def)
  then have "unat (cons_idx (chain16 (qed_chain_return_produced r))) = Suc C mod 2 ^ 16"
    using u by (simp add: cons_idx_nat_def)
  then show ?thesis using at used ret(2) by (simp add: chain_ring_at_def)
qed

lemma chain_ring_left:
  assumes at: "chain_ring_at mem g pages r P C"
  shows "unat (qed_chain_get_elem_left r) = unat (capacity g) - (P - C)"
proof -
  note g = chain_ring_geom [OF at]
  have gr: "geom r = geom g" using at by (simp add: chain_ring_at_def)
  have sm: "epp r * pcnt r < 2 ^ idx_bits r"
    using at g(3) geom_eqD(3,5) [OF gr] by (simp add: chain_ring_at_def idx_bits_def)
  have w: "C \<le> P" "P \<le> C + unat (capacity r)" using at g(8) by (simp_all add: chain_ring_at_def)
  have "unat (elem_unusable r) \<le> 1" using g(7) by simp
  from elem_left_at(1) [OF g(1) this sm w chain_ring_idx(3,4) [OF at] g(3)]
  have "unat (qed_chain_get_elem_left r) = unat (capacity r) - (P - C)" .
  then show ?thesis by (simp add: g(8))
qed

lemma chain_ring_slot_inj:
  assumes at: "chain_ring_at mem g pages r P C" and "i < j" "j < i + unat (capacity g)"
  shows "slot_addr g pages i \<noteq> slot_addr g pages j"
proof -
  have g: "chain_wf g" "length pages = pcnt g" "pages_apart (upp g * esz g) pages" "0 < esz g"
    using at by (auto simp: chain_ring_at_def chain_layout_def)
  from slots_apart [OF g(1) order_refl g(2-4) assms(2,3)] g(4) show ?thesis by auto
qed

lemma chain_ring_tag_inj:
  assumes at: "chain_ring_at mem g pages r P C" and "i < j" "j < i + unat (capacity g)"
  shows "(of_nat i :: u16) \<noteq> of_nat j"
proof
  assume "(of_nat i :: u16) = of_nat j"
  then have "i mod 2 ^ 16 = j mod 2 ^ 16" by (simp add: word_of_nat_eq_iff take_bit_eq_mod)
  then have "2 ^ 16 dvd j - i" using assms(2) by (metis less_imp_le_nat mod_eq_dvd_iff_nat)
  moreover have "unat (capacity g) < 2 ^ 16"
    using at chain_ring_geom(5) [OF at] by (simp add: chain_ring_at_def chain_wf_def)
  then have "j - i < 2 ^ 16" "0 < j - i" using assms(2,3) by auto
  ultimately show False using nat_dvd_not_less [of "j - i" "2 ^ 16"] by blast
qed

interpretation cring: ring "qed_chain_produce mem" qed_chain_return_produced
  "\<lambda>r. unat (qed_chain_get_elem_left r)" qed_chain_get_prod_idx "unat (capacity g)"
  "chain_ring_at mem g pages" "slot_addr g pages" "of_nat :: nat \<Rightarrow> u16" for mem g pages
proof unfold_locales
  show "C \<le> P \<and> P \<le> C + unat (capacity g)" if "chain_ring_at mem g pages r P C" for r P C
    using that by (simp add: chain_ring_at_def)
  show "qed_chain_get_prod_idx r = of_nat P" if "chain_ring_at mem g pages r P C" for r P C
    using chain_ring_idx(1) [OF that] chain_ring_geom(3) [OF that]
    by (simp add: qed_chain_get_prod_idx_def word_unat_eq_iff unat_of_nat)
qed (simp_all only: chain_ring_produce chain_ring_return chain_ring_left chain_ring_slot_inj
    chain_ring_tag_inj not_False_eq_True simp_thms)

end
