(* ===== verification/Qed_Spq_Window.thy ===== *)
theory Qed_Spq_Window
  imports Qed_Spq Qed_Chain_Ring
begin

text \<open>
  Correctness of the slow path queue. The ring is seen through unbounded positions: ramrods are
  posted at \<open>P\<close>, the positions from \<open>C\<close> on are not yet given back to the ring, and the bitmap
  marks those of them that completed out of order.
\<close>

section \<open>The completion window\<close>

definition bit_at :: "qed_spq \<Rightarrow> nat \<Rightarrow> bool" where
  "bit_at s k \<longleftrightarrow> p_comp_bitmap s ! (k mod SPQ_RING_SIZE)"

definition spq_window :: "chain_mem \<Rightarrow> qed_chain \<Rightarrow> u64 list \<Rightarrow> qed_spq \<Rightarrow> nat \<Rightarrow> nat \<Rightarrow> bool" where
  "spq_window mem g pages s P C \<longleftrightarrow>
     chain_ring_at mem g pages (spq_chain s) P C \<and> unat (capacity g) = SPQ_RING_SIZE \<and>
     0 \<notin> set pages \<and> length (p_comp_bitmap s) = SPQ_RING_SIZE \<and>
     unat (comp_bitmap_idx s) = C mod SPQ_RING_SIZE \<and>
     (\<forall>k. P \<le> k \<and> k < C + SPQ_RING_SIZE \<longrightarrow> \<not> bit_at s k)"

text \<open>The positions whose ramrods the firmware still works on.\<close>

definition outstanding :: "qed_spq \<Rightarrow> nat \<Rightarrow> nat \<Rightarrow> nat list" where
  "outstanding s P C = filter (\<lambda>k. \<not> bit_at s k) [C..<P]"

definition spq_echoes :: "qed_spq \<Rightarrow> u16 list" where
  "spq_echoes s = map (\<lambda>p. hdr_echo (elem (ents s p))) (completion_pending s)"

definition spq_ring_inv :: "chain_mem \<Rightarrow> qed_chain \<Rightarrow> u64 list \<Rightarrow> qed_spq \<Rightarrow> nat \<Rightarrow> nat \<Rightarrow> bool" where
  "spq_ring_inv mem g pages s P C \<longleftrightarrow>
     spq_window mem g pages s P C \<and> \<not> bit_at s C \<and> spq_echoes s = map of_nat (outstanding s P C)"

lemma same_bit_iff:
  assumes "i < j" "j < i + SPQ_RING_SIZE"
  shows "i mod SPQ_RING_SIZE \<noteq> j mod SPQ_RING_SIZE"
proof
  assume "i mod SPQ_RING_SIZE = j mod SPQ_RING_SIZE"
  then have "SPQ_RING_SIZE dvd j - i" using assms(1) by (metis less_imp_le_nat mod_eq_dvd_iff_nat)
  then show False using assms nat_dvd_not_less [of "j - i" SPQ_RING_SIZE] by auto
qed

lemma window_le: "spq_window mem g pages s P C \<Longrightarrow> C \<le> P \<and> P \<le> C + SPQ_RING_SIZE"
  using cring.at_window [of mem g pages "spq_chain s" P C] by (simp add: spq_window_def)

lemma ring_size_pos [simp]: "0 < SPQ_RING_SIZE" by (simp add: SPQ_RING_SIZE_def)

lemma bit_at_update:
  assumes "length (p_comp_bitmap s) = SPQ_RING_SIZE"
  shows "bit_at (s\<lparr>p_comp_bitmap := (p_comp_bitmap s)[i mod SPQ_RING_SIZE := b]\<rparr>) k =
    (if k mod SPQ_RING_SIZE = i mod SPQ_RING_SIZE then b else bit_at s k)"
  using assms by (auto simp: bit_at_def nth_list_update)

lemma bit_at_frame [simp]:
  "bit_at (s\<lparr>comp_bitmap_idx := i\<rparr>) = bit_at s" "bit_at (s\<lparr>spq_chain := c\<rparr>) = bit_at s"
  by (simp_all add: fun_eq_iff bit_at_def)

section \<open>Giving completed positions back\<close>

lemma u8_ring: "unat (i + 1 :: u8) = Suc (unat i) mod SPQ_RING_SIZE"
  by (simp add: unat_Suc_mod SPQ_RING_SIZE_def)

definition advance_one :: "qed_spq \<Rightarrow> qed_spq" where
  "advance_one s =
     (let s1 = SPQ_COMP_BMAP_CLEAR_BIT (ucast (comp_bitmap_idx s)) s
      in s1\<lparr>comp_bitmap_idx := comp_bitmap_idx s1 + 1, spq_chain := qed_chain_return_produced (spq_chain s1)\<rparr>)"

lemma advance_unfold:
  "comp_bmap_advance s =
     (if SPQ_COMP_BMAP_TEST_BIT (ucast (comp_bitmap_idx s)) s then comp_bmap_advance (advance_one s) else s)"
  by (subst comp_bmap_advance.simps) (simp add: advance_one_def Let_def)

lemma idx_test:
  assumes "spq_window mem g pages s P C"
  shows "SPQ_COMP_BMAP_TEST_BIT (ucast (comp_bitmap_idx s)) s \<longleftrightarrow> bit_at s C"
    "unat (ucast (comp_bitmap_idx s) :: u16) mod SPQ_RING_SIZE = C mod SPQ_RING_SIZE"
proof -
  have "unat (ucast (comp_bitmap_idx s) :: u16) = C mod SPQ_RING_SIZE"
    using assms by (simp add: spq_window_def unat_ucast_le)
  then show "unat (ucast (comp_bitmap_idx s) :: u16) mod SPQ_RING_SIZE = C mod SPQ_RING_SIZE" by simp
  then show "SPQ_COMP_BMAP_TEST_BIT (ucast (comp_bitmap_idx s)) s \<longleftrightarrow> bit_at s C"
    using assms by (simp add: SPQ_COMP_BMAP_TEST_BIT_def bit_at_def spq_window_def)
qed

lemma advance_one_window:
  assumes win: "spq_window mem g pages s P C" and set: "bit_at s C"
  shows "C < P" "spq_window mem g pages (advance_one s) P (Suc C)"
    "C < k \<Longrightarrow> k < C + SPQ_RING_SIZE \<Longrightarrow> bit_at (advance_one s) k = bit_at s k"
proof -
  note w = win [unfolded spq_window_def]
  have le: "C \<le> P" "P \<le> C + SPQ_RING_SIZE" using window_le [OF win] by auto
  have "C \<noteq> P"
  proof
    assume "C = P"
    then have "\<not> bit_at s C" using w by (auto dest: spec [of _ C])
    then show False using set by simp
  qed
  then show lt: "C < P" using le by simp
  have b: "bit_at (advance_one s) k = (if k mod SPQ_RING_SIZE = C mod SPQ_RING_SIZE then False else bit_at s k)" for k
    using w idx_test(2) [OF win]
    by (simp add: advance_one_def SPQ_COMP_BMAP_CLEAR_BIT_def Let_def bit_at_update)
  show keep: "bit_at (advance_one s) k = bit_at s k" if "C < k" "k < C + SPQ_RING_SIZE" for k
    using same_bit_iff [OF that] b by auto
  have "\<not> bit_at (advance_one s) k" if "P \<le> k" "k < Suc C + SPQ_RING_SIZE" for k
  proof (cases "k = C + SPQ_RING_SIZE")
    case True
    then show ?thesis using b by simp
  next
    case False
    then show ?thesis using that lt keep w by auto
  qed
  moreover have "chain_ring_at mem g pages (spq_chain (advance_one s)) P (Suc C)"
    using cring.give_back_at [of mem g pages "spq_chain s" P C] w lt
    by (simp add: advance_one_def SPQ_COMP_BMAP_CLEAR_BIT_def Let_def)
  moreover have "unat (comp_bitmap_idx (advance_one s)) = Suc C mod SPQ_RING_SIZE"
    using w by (simp add: advance_one_def SPQ_COMP_BMAP_CLEAR_BIT_def Let_def u8_ring mod_Suc_eq)
  ultimately show "spq_window mem g pages (advance_one s) P (Suc C)"
    using w by (simp add: spq_window_def advance_one_def SPQ_COMP_BMAP_CLEAR_BIT_def Let_def)
qed

text \<open>The loop stops at the first position that has not completed, or at the producer.\<close>

lemma advance_window:
  assumes "spq_window mem g pages s P C"
  shows "\<exists>C'. C \<le> C' \<and> C' \<le> P \<and> spq_window mem g pages (comp_bmap_advance s) P C' \<and>
    \<not> bit_at (comp_bmap_advance s) C' \<and> (\<forall>k. C \<le> k \<and> k < C' \<longrightarrow> bit_at s k) \<and>
    (\<forall>k. C' \<le> k \<and> k < P \<longrightarrow> bit_at (comp_bmap_advance s) k = bit_at s k)"
  using assms
proof (induction "P - C" arbitrary: s C)
  case 0
  then have "C = P" using window_le by fastforce
  then have "\<not> bit_at s C" using 0 advance_one_window(1) by blast
  then have "comp_bmap_advance s = s" using idx_test(1) [OF 0(2)] by (subst advance_unfold) simp
  then show ?case using 0 \<open>C = P\<close> \<open>\<not> bit_at s C\<close> by (intro exI [of _ C]) auto
next
  case (Suc n)
  show ?case
  proof (cases "bit_at s C")
    case False
    then have "comp_bmap_advance s = s" using idx_test(1) [OF Suc(3)] by (subst advance_unfold) simp
    then show ?thesis using Suc False window_le [OF Suc(3)] by (intro exI [of _ C]) auto
  next
    case True
    note one = advance_one_window [OF Suc(3) True]
    have e: "comp_bmap_advance s = comp_bmap_advance (advance_one s)"
      using idx_test(1) [OF Suc(3)] True by (subst advance_unfold) simp
    have "n = P - Suc C" using Suc(2) by simp
    from Suc(1) [OF this one(2)] obtain C' where C': "Suc C \<le> C'" "C' \<le> P"
      "spq_window mem g pages (comp_bmap_advance s) P C'" "\<not> bit_at (comp_bmap_advance s) C'"
      "\<And>k. Suc C \<le> k \<Longrightarrow> k < C' \<Longrightarrow> bit_at (advance_one s) k"
      "\<And>k. C' \<le> k \<Longrightarrow> k < P \<Longrightarrow> bit_at (comp_bmap_advance s) k = bit_at (advance_one s) k"
      unfolding e by blast
    have in_win: "k < C + SPQ_RING_SIZE" if "k < P" for k using that window_le [OF Suc(3)] by simp
    show ?thesis
    proof (intro exI [of _ C'] conjI allI impI)
      show "bit_at s k" if "C \<le> k \<and> k < C'" for k
        using that True C'(2,5) one(3) in_win by (cases "k = C") auto
      show "bit_at (comp_bmap_advance s) k = bit_at s k" if "C' \<le> k \<and> k < P" for k
        using that C'(1,6) one(3) in_win by simp
    qed (use C' in auto)
  qed
qed

lemma advance_frame [simp]:
  "completion_pending (comp_bmap_advance s) = completion_pending s"
  "pending (comp_bmap_advance s) = pending s"
  "free_pool (comp_bmap_advance s) = free_pool s"
  "unlimited_pending (comp_bmap_advance s) = unlimited_pending s"
  "ents (comp_bmap_advance s) = ents s"
  "spq_ring (comp_bmap_advance s) = spq_ring s"
  "kfreed (comp_bmap_advance s) = kfreed s"
  "kz_results (comp_bmap_advance s) = kz_results s"
  "drop_next_completion (comp_bmap_advance s) = drop_next_completion s"
  by (induction s rule: comp_bmap_advance.induct;
      subst comp_bmap_advance.simps; simp add: Let_def SPQ_COMP_BMAP_CLEAR_BIT_def)+

lemma outstanding_advance:
  assumes "C \<le> C'" "C' \<le> P" "\<And>k. C \<le> k \<Longrightarrow> k < C' \<Longrightarrow> bit_at s k"
    and "\<And>k. C' \<le> k \<Longrightarrow> k < P \<Longrightarrow> bit_at s' k = bit_at s k"
  shows "outstanding s' P C' = outstanding s P C"
proof -
  have "[C..<P] = [C..<C'] @ [C'..<P]" using assms(1,2) by (metis le_Suc_ex upt_add_eq_append)
  moreover have "filter (\<lambda>k. \<not> bit_at s k) [C..<C'] = []" using assms(3) by (simp add: filter_empty_conv)
  moreover have "filter (\<lambda>k. \<not> bit_at s' k) [C'..<P] = filter (\<lambda>k. \<not> bit_at s k) [C'..<P]"
    using assms(4) by (intro filter_cong) auto
  ultimately show ?thesis by (simp add: outstanding_def)
qed

section \<open>A completion\<close>

lemma outstanding_iff: "k \<in> set (outstanding s P C) \<longleftrightarrow> C \<le> k \<and> k < P \<and> \<not> bit_at s k"
  by (auto simp: outstanding_def)

lemma tags_inj:
  assumes "spq_window mem g pages s P C"
  shows "inj_on (of_nat :: nat \<Rightarrow> u16) {C..<P}"
  using cring.tags_distinct [of mem g pages "spq_chain s" P C] assms by (simp add: spq_window_def)

lemma echoes_distinct:
  assumes "spq_ring_inv mem g pages s P C"
  shows "distinct (spq_echoes s)"
proof -
  have "inj_on (of_nat :: nat \<Rightarrow> u16) {C..<P}" using assms tags_inj unfolding spq_ring_inv_def by blast
  then have "inj_on (of_nat :: nat \<Rightarrow> u16) (set (outstanding s P C))"
    by (rule inj_on_subset) (auto simp: outstanding_iff)
  then show ?thesis using assms by (simp add: spq_ring_inv_def distinct_map outstanding_def)
qed

text \<open>Taking an entry off the list takes its position out of the outstanding ones.\<close>

lemma map_remove1_filter:
  assumes "distinct (map f xs)" "p \<in> set xs"
  shows "map f (remove1 p xs) = filter (\<lambda>e. e \<noteq> f p) (map f xs)"
proof -
  have d: "distinct xs" and i: "inj_on f (set xs)" using assms(1) by (simp_all add: distinct_map)
  have "remove1 p xs = filter (\<lambda>q. f q \<noteq> f p) xs"
    unfolding distinct_remove1_removeAll [OF d] removeAll_filter_not_eq
    using i assms(2) by (intro filter_cong) (auto dest: inj_onD)
  then show ?thesis by (simp add: filter_map comp_def)
qed

lemma bmap_set_window:
  assumes win: "spq_window mem g pages s P C" and k: "C \<le> k" "k < P"
  defines "s' \<equiv> SPQ_COMP_BMAP_SET_BIT (of_nat k) s"
  shows "spq_window mem g pages s' P C" "bit_at s' j = (bit_at s j \<or> j mod SPQ_RING_SIZE = k mod SPQ_RING_SIZE)"
proof -
  note w = win [unfolded spq_window_def]
  have "unat (of_nat k :: u16) mod SPQ_RING_SIZE = k mod SPQ_RING_SIZE"
    by (simp add: unat_of_nat SPQ_RING_SIZE_def mod_mod_cancel)
  then have b: "bit_at s' j = (bit_at s j \<or> j mod SPQ_RING_SIZE = k mod SPQ_RING_SIZE)" for j
    using w by (simp add: s'_def SPQ_COMP_BMAP_SET_BIT_def bit_at_update)
  then show "bit_at s' j = (bit_at s j \<or> j mod SPQ_RING_SIZE = k mod SPQ_RING_SIZE)" .
  have "\<not> bit_at s' i" if "P \<le> i" "i < C + SPQ_RING_SIZE" for i
    using that w b same_bit_iff [of k i] k by auto
  then show "spq_window mem g pages s' P C"
    using w by (simp add: spq_window_def s'_def SPQ_COMP_BMAP_SET_BIT_def)
qed

text \<open>
  The entry at an outstanding position leaves the list of pending completions and its position
  is marked: what both the completion and the timeout of a posted ramrod do.
\<close>

definition retire :: "ptr \<Rightarrow> u16 \<Rightarrow> qed_spq \<Rightarrow> qed_spq" where
  "retire p echo s = qed_spq_comp_bmap_update echo (s\<lparr>completion_pending := list_del p (completion_pending s)\<rparr>)"

lemma retire_frame [simp]:
  "completion_pending (retire p echo s) = list_del p (completion_pending s)"
  "pending (retire p echo s) = pending s" "free_pool (retire p echo s) = free_pool s"
  "unlimited_pending (retire p echo s) = unlimited_pending s" "ents (retire p echo s) = ents s"
  "spq_ring (retire p echo s) = spq_ring s" "kz_results (retire p echo s) = kz_results s"
  "drop_next_completion (retire p echo s) = drop_next_completion s"
  by (simp_all add: retire_def qed_spq_comp_bmap_update_def SPQ_COMP_BMAP_SET_BIT_def)

lemma retire_inv:
  assumes inv: "spq_ring_inv mem g pages s P C" and p: "p \<in> set (completion_pending s)"
    and k: "k \<in> set (outstanding s P C)" "hdr_echo (elem (ents s p)) = of_nat k"
  shows "\<exists>C'. C \<le> C' \<and> C' \<le> P \<and> spq_ring_inv mem g pages (retire p (of_nat k) s) P C' \<and>
    outstanding (retire p (of_nat k) s) P C' = remove1 k (outstanding s P C) \<and>
    (\<forall>j. C \<le> j \<and> j < C' \<longrightarrow> j = k \<or> bit_at s j)"
proof -
  let ?d = "s\<lparr>completion_pending := list_del p (completion_pending s)\<rparr>" and ?r = "retire p (of_nat k) s"
  let ?s1 = "SPQ_COMP_BMAP_SET_BIT (of_nat k) ?d"
  have win: "spq_window mem g pages s P C" using inv by (simp add: spq_ring_inv_def)
  have fr: "bit_at ?d = bit_at s" by (simp add: fun_eq_iff bit_at_def)
  have wd: "spq_window mem g pages ?d P C" using win by (simp add: spq_window_def fr)
  have kr: "C \<le> k" "k < P" "\<not> bit_at s k" using k(1) by (auto simp: outstanding_iff)
  note sb = bmap_set_window [OF wd kr(1,2)]
  have b1: "bit_at ?s1 j \<longleftrightarrow> bit_at s j \<or> j = k" if "C \<le> j" "j < P" for j
  proof -
    have "j < k + SPQ_RING_SIZE" "k < j + SPQ_RING_SIZE" using that kr(1,2) window_le [OF win] by linarith+
    then have "j mod SPQ_RING_SIZE = k mod SPQ_RING_SIZE \<longleftrightarrow> j = k"
      using same_bit_iff [of j k] same_bit_iff [of k j] by (cases j k rule: linorder_cases) auto
    then show ?thesis using sb(2) [of j] by (simp add: fr)
  qed
  have r: "?r = comp_bmap_advance ?s1" by (simp add: retire_def qed_spq_comp_bmap_update_def)
  from advance_window [OF sb(1)] obtain C' where C': "C \<le> C'" "C' \<le> P"
    "spq_window mem g pages ?r P C'" "\<not> bit_at ?r C'"
    "\<And>j. C \<le> j \<Longrightarrow> j < C' \<Longrightarrow> bit_at ?s1 j"
    "\<And>j. C' \<le> j \<Longrightarrow> j < P \<Longrightarrow> bit_at ?r j = bit_at ?s1 j" unfolding r by blast
  have "outstanding ?r P C' = outstanding ?s1 P C" by (rule outstanding_advance) (use C' in auto)
  also have "\<dots> = filter (\<lambda>j. j \<noteq> k) (outstanding s P C)"
    unfolding outstanding_def filter_filter by (rule filter_cong) (use b1 in auto)
  finally have o: "outstanding ?r P C' = filter (\<lambda>j. j \<noteq> k) (outstanding s P C)" .
  have "spq_echoes ?r = filter (\<lambda>e. e \<noteq> of_nat k) (spq_echoes s)"
    using map_remove1_filter [of "\<lambda>p. hdr_echo (elem (ents s p))" "completion_pending s" p]
      echoes_distinct [OF inv] p k(2)
    by (simp add: spq_echoes_def list_del_def)
  also have "\<dots> = map of_nat (filter (\<lambda>j. of_nat j \<noteq> (of_nat k :: u16)) (outstanding s P C))"
    using inv by (simp add: spq_ring_inv_def filter_map comp_def)
  also have "filter (\<lambda>j. of_nat j \<noteq> (of_nat k :: u16)) (outstanding s P C) = outstanding ?r P C'"
    unfolding o by (rule filter_cong) (use tags_inj [OF win] kr in \<open>auto simp: outstanding_iff dest: inj_onD\<close>)
  finally have "spq_ring_inv mem g pages ?r P C'" using C' by (simp add: spq_ring_inv_def)
  moreover have "outstanding ?r P C' = remove1 k (outstanding s P C)"
    unfolding o by (simp add: outstanding_def distinct_remove1_removeAll removeAll_filter_not_eq neq_commute)
  moreover have "j = k \<or> bit_at s j" if "C \<le> j" "j < C'" for j using C' b1 that by force
  ultimately show ?thesis using C'(1,2) by blast
qed

text \<open>The search finds the one entry whose echo it is, if its ramrod is outstanding.\<close>

lemma find_echo:
  assumes inv: "spq_ring_inv mem g pages s P C"
  shows "(\<exists>k\<in>set (outstanding s P C). echo = of_nat k) \<longleftrightarrow>
      find (\<lambda>p. hdr_echo (elem (ents s p)) = echo) (completion_pending s) \<noteq> None"
    "find (\<lambda>p. hdr_echo (elem (ents s p)) = echo) (completion_pending s) = Some p \<Longrightarrow>
      p \<in> set (completion_pending s) \<and> hdr_echo (elem (ents s p)) = echo"
proof -
  show "p \<in> set (completion_pending s) \<and> hdr_echo (elem (ents s p)) = echo"
    if "find (\<lambda>p. hdr_echo (elem (ents s p)) = echo) (completion_pending s) = Some p"
    using that by (auto simp: find_Some_iff)
  have "echo \<in> set (spq_echoes s) \<longleftrightarrow> (\<exists>k\<in>set (outstanding s P C). echo = of_nat k)"
    using inv by (auto simp: spq_ring_inv_def)
  then show "(\<exists>k\<in>set (outstanding s P C). echo = of_nat k) \<longleftrightarrow>
      find (\<lambda>p. hdr_echo (elem (ents s p)) = echo) (completion_pending s) \<noteq> None"
    by (auto simp: find_None_iff spq_echoes_def)
qed

lemma completion_locked_unfold:
  "spq_completion_locked echo s =
     (case find (\<lambda>p. hdr_echo (elem (ents s p)) = echo) (completion_pending s) of
        None \<Rightarrow> (RC_ERR EEXIST, None, s)
      | Some p \<Rightarrow>
          if drop_next_completion s \<and> comp_mode (ents s p) = QED_SPQ_MODE_EBLOCK
          then (RC_OK, None, s\<lparr>drop_next_completion := False\<rparr>)
          else (RC_OK, Some p, (retire p echo s)\<lparr>comp_count := comp_count (retire p echo s) + 1\<rparr>))"
  by (simp add: spq_completion_locked_def retire_def Let_def split: option.split)

section \<open>A posting\<close>

lemma slot_nonzero:
  assumes "spq_window mem g pages s P C"
  shows "slot_addr g pages k \<noteq> 0"
proof -
  have g: "chain_wf g" "length pages = pcnt g" "pages_apart (upp g * esz g) pages" "0 < esz g" "0 \<notin> set pages"
    using assms by (auto simp: spq_window_def chain_ring_at_def chain_layout_def)
  have "pages ! (k div upp g mod pcnt g) \<in> set pages" using g(2) chain_wf_pos(3) [OF g(1)] by simp
  then have "pages ! (k div upp g mod pcnt g) \<noteq> 0" using g(5) by metis
  then have "0 < unat (slot_addr g pages k)"
    using slot_unat [OF g(1) order_refl g(2-4), of k] by (simp add: unat_gt_0)
  then show ?thesis by auto
qed

lemma hw_post_frame:
  assumes "qed_spq_hw_post mem p s = (rc, s')"
  shows "pending s' = pending s" "free_pool s' = free_pool s" "unlimited_pending s' = unlimited_pending s"
    "completion_pending s' = completion_pending s" "kz_results s' = kz_results s"
    "q \<noteq> p \<Longrightarrow> ents s' q = ents s q" "p_comp_bitmap s' = p_comp_bitmap s"
    "comp_bitmap_idx s' = comp_bitmap_idx s"
    "\<exists>e. ents s' p = (ents s p)\<lparr>elem := (elem (ents s p))\<lparr>hdr_echo := e\<rparr>\<rparr>"
  using assms by (auto simp: qed_spq_hw_post_def upd_ent_def Let_def split: prod.splits if_splits)

lemma hw_post_inv:
  assumes inv: "spq_ring_inv mem g pages s P C" and room: "P < C + SPQ_RING_SIZE"
    and p: "p \<notin> set (completion_pending s)"
    and run: "qed_spq_hw_post mem p (s\<lparr>completion_pending := list_add_tail p (completion_pending s),
                                      comp_sent_count := n, pending := q\<rparr>) = (rc, s')"
  shows "rc = RC_OK" "spq_ring_inv mem g pages s' (Suc P) C"
    "hdr_echo (elem (ents s' p)) = of_nat P"
    "spq_ring s' = (spq_ring s)(slot_addr g pages P := elem (ents s' p))"
    "outstanding s' (Suc P) C = outstanding s P C @ [P]"
proof -
  let ?s1 = "s\<lparr>completion_pending := list_add_tail p (completion_pending s), comp_sent_count := n, pending := q\<rparr>"
  have win: "spq_window mem g pages s P C" using inv by (simp add: spq_ring_inv_def)
  note w = win [unfolded spq_window_def]
  have pr: "fst (qed_chain_produce mem (spq_chain s)) = slot_addr g pages P"
    "chain_ring_at mem g pages (snd (qed_chain_produce mem (spq_chain s))) (Suc P) C"
    "qed_chain_get_prod_idx (spq_chain s) = of_nat P"
    using cring.produce_at [of mem g pages "spq_chain s" P C] cring.idx_at [of mem g pages "spq_chain s" P C] w room
    by auto
  have z: "slot_addr g pages P \<noteq> 0" by (rule slot_nonzero [OF win])
  show ok: "rc = RC_OK" and ec: "hdr_echo (elem (ents s' p)) = of_nat P"
    and "spq_ring s' = (spq_ring s)(slot_addr g pages P := elem (ents s' p))"
    using run pr z by (auto simp: qed_spq_hw_post_def upd_ent_def Let_def split: prod.splits if_splits)
  have ch: "chain_ring_at mem g pages (spq_chain s') (Suc P) C"
    using run pr z by (auto simp: qed_spq_hw_post_def upd_ent_def Let_def split: prod.splits if_splits)
  have bm: "bit_at s' = bit_at s" using hw_post_frame(7) [OF run] by (simp add: fun_eq_iff bit_at_def)
  have nb: "\<not> bit_at s P" using w room by (auto dest: spec [of _ P])
  show o: "outstanding s' (Suc P) C = outstanding s P C @ [P]"
    using window_le [OF win] nb by (simp add: outstanding_def bm)
  have "spq_echoes s' = spq_echoes s @ [of_nat P]"
  proof -
    have "ents s' x = ents s x" if "x \<in> set (completion_pending s)" for x
      using hw_post_frame(6) [OF run, of x] that p by auto
    then show ?thesis using hw_post_frame(4) [OF run] ec by (simp add: spq_echoes_def list_add_tail_def)
  qed
  moreover have "spq_window mem g pages s' (Suc P) C"
    using w ch hw_post_frame(7,8) [OF run] by (auto simp: spq_window_def bm)
  ultimately show "spq_ring_inv mem g pages s' (Suc P) C"
    using inv by (simp add: spq_ring_inv_def bm o)
qed

section \<open>The posting loop\<close>

text \<open>Two states of an entry that differ in the echo at most.\<close>

definition but_echo :: "qed_spq_entry \<Rightarrow> qed_spq_entry \<Rightarrow> bool" where
  "but_echo e e' \<longleftrightarrow> (\<exists>x. e' = e\<lparr>elem := (elem e)\<lparr>hdr_echo := x\<rparr>\<rparr>)"

lemma but_echo_refl [simp]: "but_echo e e"
  unfolding but_echo_def by (rule exI [of _ "hdr_echo (elem e)"]) simp

lemma but_echo_trans: "but_echo e e' \<Longrightarrow> but_echo e' e'' \<Longrightarrow> but_echo e e''"
  by (auto simp: but_echo_def)

lemma but_echo_fields:
  assumes "but_echo e e'"
  shows "queue e' = queue e" "data_ptr (elem e') = data_ptr (elem e)" "ramrod e' = ramrod e"
    "comp_mode e' = comp_mode e" "priority e' = priority e" "cb_cookie e' = cb_cookie e"
    "post_ent e' = post_ent e" "hdr_cid (elem e') = hdr_cid (elem e)"
    "hdr_cmd_id (elem e') = hdr_cmd_id (elem e)" "hdr_protocol_id (elem e') = hdr_protocol_id (elem e)"
  using assms by (auto simp: but_echo_def)

text \<open>What a run of the loop that posts the first \<open>n\<close> pending entries does.\<close>

definition posted :: "qed_chain \<Rightarrow> u64 list \<Rightarrow> nat \<Rightarrow> nat \<Rightarrow> qed_spq \<Rightarrow> qed_spq \<Rightarrow> bool" where
  "posted g pages n P s s' \<longleftrightarrow>
     pending s' = drop n (pending s) \<and>
     completion_pending s' = completion_pending s @ take n (pending s) \<and>
     free_pool s' = free_pool s \<and> unlimited_pending s' = unlimited_pending s \<and>
     kz_results s' = kz_results s \<and>
     (\<forall>q. but_echo (ents s q) (ents s' q)) \<and> (\<forall>q. q \<notin> set (take n (pending s)) \<longrightarrow> ents s' q = ents s q) \<and>
     (\<forall>i<n. spq_ring s' (slot_addr g pages (P + i)) = elem (ents s' (pending s ! i)) \<and>
            hdr_echo (elem (ents s' (pending s ! i))) = of_nat (P + i)) \<and>
     (\<forall>a. a \<notin> slot_addr g pages ` {P..<P + n} \<longrightarrow> spq_ring s' a = spq_ring s a)"

lemma posted_0: "posted g pages 0 P s s"
  by (simp add: posted_def)

lemma posted_Suc:
  assumes p: "pending s = p # ps" "p \<notin> set ps"
    and one: "pending s1 = ps" "completion_pending s1 = completion_pending s @ [p]"
      "free_pool s1 = free_pool s" "unlimited_pending s1 = unlimited_pending s" "kz_results s1 = kz_results s"
      "\<And>q. q \<noteq> p \<Longrightarrow> ents s1 q = ents s q" "but_echo (ents s p) (ents s1 p)"
      "hdr_echo (elem (ents s1 p)) = of_nat P"
      "spq_ring s1 = (spq_ring s)(slot_addr g pages P := elem (ents s1 p))"
    and rest: "posted g pages n (Suc P) s1 s'"
    and fresh: "\<And>i. i < n \<Longrightarrow> slot_addr g pages P \<noteq> slot_addr g pages (Suc P + i)"
  shows "posted g pages (Suc n) P s s'"
proof -
  note r = rest [unfolded posted_def one]
  have pe: "ents s' p = ents s1 p" using r p(2) by (meson in_set_takeD)
  have be: "but_echo (ents s q) (ents s' q)" for q
  proof -
    have "but_echo (ents s q) (ents s1 q)" using one(6) [of q] one(7) by (cases "q = p") auto
    moreover have "but_echo (ents s1 q) (ents s' q)" using r by blast
    ultimately show ?thesis by (rule but_echo_trans)
  qed
  have "slot_addr g pages P \<notin> slot_addr g pages ` {Suc P..<Suc P + n}"
  proof
    assume "slot_addr g pages P \<in> slot_addr g pages ` {Suc P..<Suc P + n}"
    then obtain k where k: "slot_addr g pages P = slot_addr g pages k" "Suc P \<le> k" "k < Suc P + n" by auto
    then have "slot_addr g pages P = slot_addr g pages (Suc P + (k - Suc P))" "k - Suc P < n" by auto
    then show False using fresh by blast
  qed
  then have rp: "spq_ring s' (slot_addr g pages P) = elem (ents s1 p)" using r one(9) by simp
  have hd: "spq_ring s' (slot_addr g pages (P + i)) = elem (ents s' (pending s ! i)) \<and>
      hdr_echo (elem (ents s' (pending s ! i))) = of_nat (P + i)" if "i < Suc n" for i
  proof (cases i)
    case 0
    then show ?thesis using rp pe one(8) p(1) by simp
  next
    case (Suc j)
    then have "j < n" using that by simp
    then have "spq_ring s' (slot_addr g pages (Suc P + j)) = elem (ents s' (ps ! j)) \<and>
        hdr_echo (elem (ents s' (ps ! j))) = of_nat (Suc P + j)" using r by blast
    then show ?thesis using Suc p(1) by (simp only: nth_Cons_Suc add_Suc_right add_Suc)
  qed
  have "spq_ring s' a = spq_ring s a" if "a \<notin> slot_addr g pages ` {P..<P + Suc n}" for a
  proof -
    have "a \<notin> slot_addr g pages ` {Suc P..<Suc P + n}" "a \<noteq> slot_addr g pages P" using that by auto
    then show ?thesis using r one(9) by simp
  qed
  then show ?thesis using r one(6) be hd p(1) unfolding posted_def by auto
qed

lemma post_list_inv:
  assumes "spq_ring_inv mem g pages s P C" "distinct (pending s @ completion_pending s)"
    and "n = min (length (pending s)) (SPQ_RING_SIZE - unat r - (P - C))"
  shows "fst (qed_spq_post_list mem r s) = RC_OK \<and>
    spq_ring_inv mem g pages (snd (qed_spq_post_list mem r s)) (P + n) C \<and>
    posted g pages n P s (snd (qed_spq_post_list mem r s)) \<and>
    outstanding (snd (qed_spq_post_list mem r s)) (P + n) C = outstanding s P C @ [P..<P + n]"
  using assms
proof (induction "pending s" arbitrary: s P n)
  case Nil
  then show ?case by (subst (1 2 3 4) qed_spq_post_list.simps) (simp add: posted_0)
next
  case (Cons p ps)
  have win: "spq_window mem g pages s P C" using Cons.prems(1) by (simp add: spq_ring_inv_def)
  have pd: "pending s = p # ps" using Cons.hyps(2) by simp
  have left: "unat (qed_chain_get_elem_left (spq_chain s)) = SPQ_RING_SIZE - (P - C)"
    using cring.left_at [of mem g pages "spq_chain s" P C] win by (simp add: spq_window_def)
  have cond: "ucast (qed_chain_get_elem_left (spq_chain s)) > r \<longleftrightarrow> unat r < SPQ_RING_SIZE - (P - C)"
    by (simp add: word_less_nat_alt unat_ucast_le left)
  show ?case
  proof (cases "unat r < SPQ_RING_SIZE - (P - C)")
    case False
    then have "n = 0" by (simp add: Cons.prems(3))
    then show ?thesis using Cons.prems(1) False cond
      by (subst (1 2 3 4) qed_spq_post_list.simps) (simp add: posted_0)
  next
    case True
    have room: "P < C + SPQ_RING_SIZE" using True window_le [OF win] by linarith
    let ?s1 = "s\<lparr>pending := ps, completion_pending := list_add_tail p (completion_pending s),
                 comp_sent_count := comp_sent_count s + 1\<rparr>"
    obtain rc s2 where hw: "qed_spq_hw_post mem p ?s1 = (rc, s2)" by fastforce
    have pn: "p \<notin> set (completion_pending s)" using Cons.prems(2) pd by simp
    have "?s1 = s\<lparr>completion_pending := list_add_tail p (completion_pending s),
                 comp_sent_count := comp_sent_count s + 1, pending := ps\<rparr>" by simp
    note h = hw_post_inv [OF Cons.prems(1) room pn hw [unfolded this]]
    note f = hw_post_frame [OF hw]
    have eq: "qed_spq_post_list mem r s = qed_spq_post_list mem r s2"
      using True cond hw h(1) pd by (subst qed_spq_post_list.simps) simp
    define m where "m = min (length (pending s2)) (SPQ_RING_SIZE - unat r - (Suc P - C))"
    have n: "n = Suc m" using True window_le [OF win] f(1) pd by (simp add: m_def Cons.prems(3))
    have d2: "distinct (pending s2 @ completion_pending s2)"
      using Cons.prems(2) f(1,4) pd by (auto simp: list_add_tail_def)
    have IH: "fst (qed_spq_post_list mem r s2) = RC_OK \<and>
      spq_ring_inv mem g pages (snd (qed_spq_post_list mem r s2)) (Suc P + m) C \<and>
      posted g pages m (Suc P) s2 (snd (qed_spq_post_list mem r s2)) \<and>
      outstanding (snd (qed_spq_post_list mem r s2)) (Suc P + m) C = outstanding s2 (Suc P) C @ [Suc P..<Suc P + m]"
      using Cons.hyps(1) [OF _ h(2) d2 m_def] f(1) by simp
    have "posted g pages (Suc m) P s (snd (qed_spq_post_list mem r s2))"
    proof (rule posted_Suc [OF pd])
      show "slot_addr g pages P \<noteq> slot_addr g pages (Suc P + i)" if "i < m" for i
      proof -
        have "i < SPQ_RING_SIZE - unat r - (Suc P - C)" using that by (simp only: m_def min_less_iff_conj)
        then have "Suc P + i < P + SPQ_RING_SIZE" using window_le [OF win] by linarith
        then show ?thesis
          using cring.slot_inj [of mem g pages "spq_chain s" P C P "Suc P + i"] win by (simp add: spq_window_def)
      qed
      show "but_echo (ents s p) (ents s2 p)" using f(9) by (auto simp: but_echo_def)
    qed (use f h IH Cons.prems(2) pd in \<open>auto simp: list_add_tail_def\<close>)
    moreover have "[P..<P + n] = P # [Suc P..<Suc P + m]" by (simp add: n upt_conv_Cons)
    ultimately show ?thesis using IH h(5) eq by (simp add: n)
  qed
qed

end
