(* ===== verification/Qed_Spq_Lists.thy ===== *)
theory Qed_Spq_Lists
  imports Qed_Spq_Window
begin

text \<open>
  Ownership of the entries of the slow path queue: every pool entry is on exactly one list or in
  the hands of a caller, and every section the driver runs under the lock keeps it so.
\<close>

section \<open>The invariant\<close>

text \<open>
  \<open>pool\<close> is the set of the entries allocated with the queue, \<open>bus p\<close> the bus address of the
  ramrod data of \<open>p\<close>.
\<close>

definition spq_lists :: "ptr set \<Rightarrow> (ptr \<Rightarrow> u64) \<Rightarrow> qed_spq \<Rightarrow> bool" where
  "spq_lists pool bus s \<longleftrightarrow>
     distinct (free_pool s @ pending s @ completion_pending s) \<and>
     set (free_pool s @ pending s @ completion_pending s) \<subseteq> pool \<and>
     distinct (unlimited_pending s) \<and> set (unlimited_pending s) \<inter> pool = {} \<and>
     (\<forall>p\<in>set (unlimited_pending s). queue (ents s p) = Q_unlimited_pending) \<and>
     (\<forall>p\<in>pool. data_ptr (elem (ents s p)) = bus p)"

definition spq_inv ::
  "chain_mem \<Rightarrow> qed_chain \<Rightarrow> u64 list \<Rightarrow> ptr set \<Rightarrow> (ptr \<Rightarrow> u64) \<Rightarrow> qed_spq \<Rightarrow> bool" where
  "spq_inv mem g pages pool bus s \<longleftrightarrow>
     spq_lists pool bus s \<and> (\<exists>P C. spq_ring_inv mem g pages s P C)"

definition spq_owned :: "qed_spq \<Rightarrow> ptr multiset" where
  "spq_owned s = mset (free_pool s) + mset (pending s) + mset (completion_pending s) + mset (unlimited_pending s)"

text \<open>The entry is in the hands of a caller: a pool entry on no list, or an allocated one.\<close>

definition held :: "ptr set \<Rightarrow> ptr \<Rightarrow> qed_spq \<Rightarrow> bool" where
  "held pool p s \<longleftrightarrow>
     (if queue (ents s p) = Q_unlimited_pending then p \<notin> pool \<and> p \<notin> set (unlimited_pending s)
      else p \<in> pool \<and> p \<notin> set (free_pool s @ pending s @ completion_pending s))"

text \<open>States with the same ring: the same chain and bitmap, and the same echoes on the list.\<close>

lemma ring_inv_cong:
  assumes "spq_chain s' = spq_chain s" "p_comp_bitmap s' = p_comp_bitmap s" "comp_bitmap_idx s' = comp_bitmap_idx s"
    and "spq_echoes s' = spq_echoes s"
  shows "spq_ring_inv mem g pages s' P C = spq_ring_inv mem g pages s P C"
proof -
  have "bit_at s' = bit_at s" by (simp add: fun_eq_iff bit_at_def assms)
  then show ?thesis by (simp add: spq_ring_inv_def spq_window_def outstanding_def assms)
qed

section \<open>Adding entries\<close>

lemma enqueue_fields [simp]:
  "mset (pending (spq_enqueue p prio s)) = add_mset p (mset (pending s))"
  "set (pending (spq_enqueue p prio s)) = insert p (set (pending s))"
  "free_pool (spq_enqueue p prio s) = free_pool s"
  "completion_pending (spq_enqueue p prio s) = completion_pending s"
  "unlimited_pending (spq_enqueue p prio s) = unlimited_pending s" "ents (spq_enqueue p prio s) = ents s"
  "spq_chain (spq_enqueue p prio s) = spq_chain s" "p_comp_bitmap (spq_enqueue p prio s) = p_comp_bitmap s"
  "comp_bitmap_idx (spq_enqueue p prio s) = comp_bitmap_idx s" "kz_results (spq_enqueue p prio s) = kz_results s"
  "spq_ring (spq_enqueue p prio s) = spq_ring s"
  "distinct (pending (spq_enqueue p prio s)) \<longleftrightarrow> p \<notin> set (pending s) \<and> distinct (pending s)"
  by (cases prio; simp add: spq_enqueue_def)+

lemma upd_ent_fields [simp]:
  "free_pool (upd_ent p f s) = free_pool s" "pending (upd_ent p f s) = pending s"
  "completion_pending (upd_ent p f s) = completion_pending s"
  "unlimited_pending (upd_ent p f s) = unlimited_pending s"
  "spq_chain (upd_ent p f s) = spq_chain s" "p_comp_bitmap (upd_ent p f s) = p_comp_bitmap s"
  "comp_bitmap_idx (upd_ent p f s) = comp_bitmap_idx s" "kz_results (upd_ent p f s) = kz_results s"
  "ents (upd_ent p f s) = (ents s)(p := f (ents s p))" "spq_ring (upd_ent p f s) = spq_ring s"
  "kfreed (upd_ent p f s) = kfreed s"
  by (simp_all add: upd_ent_def)

lemma kfree_ent_fields [simp]:
  "free_pool (kfree_ent p s) = free_pool s" "pending (kfree_ent p s) = pending s"
  "completion_pending (kfree_ent p s) = completion_pending s"
  "unlimited_pending (kfree_ent p s) = unlimited_pending s" "ents (kfree_ent p s) = ents s"
  "spq_chain (kfree_ent p s) = spq_chain s" "p_comp_bitmap (kfree_ent p s) = p_comp_bitmap s"
  "comp_bitmap_idx (kfree_ent p s) = comp_bitmap_idx s" "kz_results (kfree_ent p s) = kz_results s"
  "spq_ring (kfree_ent p s) = spq_ring s"
  by (simp_all add: kfree_ent_def)

text \<open>
  What \<open>qed_spq_add_entry\<close> does with an allocated entry \<open>p\<close> when \<open>q\<close> is the first free pool
  entry: \<open>q\<close> becomes a copy of \<open>p\<close> that keeps the bus address of its own ramrod data.
\<close>

lemma add_entry_copy:
  fixes p q :: ptr and prio :: spq_priority and s :: qed_spq
  assumes "queue (ents s p) = Q_unlimited_pending" "free_pool s = q # qs" "p \<noteq> q"
  defines "s' \<equiv> qed_spq_add_entry p prio s"
  shows "free_pool s' = qs" "mset (pending s') = add_mset q (mset (pending s))"
    "distinct (pending s') \<longleftrightarrow> q \<notin> set (pending s) \<and> distinct (pending s)"
    "set (pending s') = insert q (set (pending s))"
    "completion_pending s' = completion_pending s" "unlimited_pending s' = unlimited_pending s"
    "spq_chain s' = spq_chain s" "p_comp_bitmap s' = p_comp_bitmap s" "comp_bitmap_idx s' = comp_bitmap_idx s"
    "kz_results s' = kz_results s" "spq_ring s' = spq_ring s"
    "r \<noteq> p \<Longrightarrow> r \<noteq> q \<Longrightarrow> ents s' r = ents s r"
    "ents s' q = (ents s p)\<lparr>elem := (elem (ents s p))\<lparr>data_ptr := data_ptr (elem (ents s q))\<rparr>\<rparr>"
    "queue (ents s' p) = Q_unlimited_pending"
    "comp_mode (ents s p) = QED_SPQ_MODE_EBLOCK \<Longrightarrow> post_ent (ents s' p) = Some q"
  using assms by (auto simp: qed_spq_add_entry_def Let_def)

lemma add_entry_cases:
  fixes p :: ptr and prio :: spq_priority and s :: qed_spq
  assumes inv: "spq_inv mem g pages pool bus s" and h: "held pool p s"
  defines "s' \<equiv> qed_spq_add_entry p prio s"
  shows "spq_inv mem g pages pool bus s'"
    and "spq_owned s' + (if queue (ents s p) = Q_unlimited_pending \<and> free_pool s \<noteq> [] then {#p#} else {#}) =
      spq_owned s + {#p#}"
    and "unlimited_pending s' = (if queue (ents s p) = Q_unlimited_pending \<and> free_pool s = []
      then unlimited_pending s @ [p] else unlimited_pending s)"
    and "free_pool s' = (if queue (ents s p) = Q_unlimited_pending then tl (free_pool s) else free_pool s)"
    and "kz_results s' = kz_results s"
    and "spq_ring_inv mem g pages s' = spq_ring_inv mem g pages s" "completion_pending s' = completion_pending s"
    and "spq_ring s' = spq_ring s"
proof -
  have l: "spq_lists pool bus s" using inv by (simp add: spq_inv_def)
  note ld = l [unfolded spq_lists_def]
  have "spq_inv mem g pages pool bus s' \<and>
    spq_owned s' + (if queue (ents s p) = Q_unlimited_pending \<and> free_pool s \<noteq> [] then {#p#} else {#}) =
      spq_owned s + {#p#} \<and>
    unlimited_pending s' = (if queue (ents s p) = Q_unlimited_pending \<and> free_pool s = []
      then unlimited_pending s @ [p] else unlimited_pending s) \<and>
    free_pool s' = (if queue (ents s p) = Q_unlimited_pending then tl (free_pool s) else free_pool s) \<and>
    kz_results s' = kz_results s \<and> spq_ring_inv mem g pages s' = spq_ring_inv mem g pages s \<and>
    completion_pending s' = completion_pending s \<and> spq_ring s' = spq_ring s"
  proof (cases "queue (ents s p) = Q_unlimited_pending")
    case False
    then have e: "s' = spq_enqueue p prio s" by (simp add: s'_def qed_spq_add_entry_def)
    have "spq_lists pool bus s'" using ld h False by (auto simp: e spq_lists_def held_def)
    moreover have "spq_ring_inv mem g pages s' = spq_ring_inv mem g pages s"
      by (intro ext ring_inv_cong) (simp_all add: e spq_echoes_def)
    ultimately show ?thesis using inv False by (simp add: spq_inv_def e spq_owned_def)
  next
    case True
    then have hp: "p \<notin> pool" "p \<notin> set (unlimited_pending s)" using h by (auto simp: held_def)
    show ?thesis
    proof (cases "free_pool s")
      case Nil
      then have e: "s' = s\<lparr>unlimited_pending := list_add_tail p (unlimited_pending s),
          unlimited_pending_count := unlimited_pending_count s + 1\<rparr>"
        using True by (simp add: s'_def qed_spq_add_entry_def)
      have "spq_lists pool bus s'" using ld hp True by (auto simp: e spq_lists_def)
      moreover have "spq_ring_inv mem g pages s' = spq_ring_inv mem g pages s"
        by (intro ext ring_inv_cong) (simp_all add: e spq_echoes_def)
      ultimately show ?thesis using inv True Nil by (simp add: spq_inv_def e spq_owned_def list_add_tail_def)
    next
      case (Cons q qs)
      have pq: "p \<noteq> q" using hp ld Cons by auto
      note c = add_entry_copy [OF True Cons pq, where prio = prio, folded s'_def]
      have eq: "ents s' r = ents s r" if "r \<in> set (completion_pending s) \<union> set (unlimited_pending s)" for r
        using that ld hp Cons by (intro c(12)) auto
      have "data_ptr (elem (ents s' r)) = bus r" if "r \<in> pool" for r
      proof (cases "r = q")
        case True
        then show ?thesis using that ld c(13) by simp
      next
        case False
        have "r \<noteq> p" using that hp(1) by auto
        then show ?thesis using that ld c(12) [OF _ False] by simp
      qed
      then have "spq_lists pool bus s'" using ld Cons eq by (simp add: spq_lists_def c)
      moreover have "spq_ring_inv mem g pages s' = spq_ring_inv mem g pages s"
        by (intro ext ring_inv_cong) (use eq in \<open>simp_all add: c spq_echoes_def\<close>)
      ultimately show ?thesis using inv True Cons by (simp add: spq_inv_def c spq_owned_def)
    qed
  qed
  then show "spq_inv mem g pages pool bus s'"
    "spq_owned s' + (if queue (ents s p) = Q_unlimited_pending \<and> free_pool s \<noteq> [] then {#p#} else {#}) =
      spq_owned s + {#p#}"
    "unlimited_pending s' = (if queue (ents s p) = Q_unlimited_pending \<and> free_pool s = []
      then unlimited_pending s @ [p] else unlimited_pending s)"
    "free_pool s' = (if queue (ents s p) = Q_unlimited_pending then tl (free_pool s) else free_pool s)"
    "kz_results s' = kz_results s" "spq_ring_inv mem g pages s' = spq_ring_inv mem g pages s"
    "completion_pending s' = completion_pending s" "spq_ring s' = spq_ring s" by blast+
qed

text \<open>With nothing pending, the entry added is the only one pending, under its bus address.\<close>

lemma add_entry_lands:
  assumes inv: "spq_inv mem g pages pool bus s" and h: "held pool p s"
    and fp: "queue (ents s p) = Q_unlimited_pending \<longrightarrow> free_pool s \<noteq> []"
  shows "\<exists>q. pending (qed_spq_add_entry p prio s) =
      (case prio of QED_SPQ_PRIORITY_HIGH \<Rightarrow> q # pending s | QED_SPQ_PRIORITY_NORMAL \<Rightarrow> pending s @ [q]) \<and> q \<in> pool \<and>
    ramrod (ents (qed_spq_add_entry p prio s) q) = ramrod (ents s p) \<and>
    elem (ents (qed_spq_add_entry p prio s) q) = (elem (ents s p))\<lparr>data_ptr := bus q\<rparr> \<and>
    queue (ents (qed_spq_add_entry p prio s) q) = queue (ents s p) \<and>
    comp_mode (ents (qed_spq_add_entry p prio s) q) = comp_mode (ents s p) \<and> (queue (ents s p) \<noteq> Q_unlimited_pending \<longrightarrow> q = p)"
proof (cases "queue (ents s p) = Q_unlimited_pending")
  case False
  then have e: "qed_spq_add_entry p prio s = spq_enqueue p prio s" by (simp add: qed_spq_add_entry_def)
  have "p \<in> pool" using h False by (simp add: held_def)
  moreover have "pending (spq_enqueue p prio s) =
      (case prio of QED_SPQ_PRIORITY_HIGH \<Rightarrow> p # pending s | QED_SPQ_PRIORITY_NORMAL \<Rightarrow> pending s @ [p])"
    by (cases prio) (simp_all add: spq_enqueue_def list_add_def list_add_tail_def)
  moreover have "data_ptr (elem (ents s p)) = bus p" using inv \<open>p \<in> pool\<close> by (simp add: spq_inv_def spq_lists_def)
  then have "elem (ents s p) = (elem (ents s p))\<lparr>data_ptr := bus p\<rparr>" by simp
  ultimately show ?thesis unfolding e by (intro exI [of _ p]) simp
next
  case True
  then obtain q qs where q: "free_pool s = q # qs" using fp by (cases "free_pool s") auto
  have qp: "q \<in> pool" "data_ptr (elem (ents s q)) = bus q" using inv q by (auto simp: spq_inv_def spq_lists_def)
  have "p \<noteq> q" using qp h True by (auto simp: held_def)
  note c = add_entry_copy [OF True q this, where prio = prio]
  have "pending (qed_spq_add_entry p prio s) =
      (case prio of QED_SPQ_PRIORITY_HIGH \<Rightarrow> q # pending s | QED_SPQ_PRIORITY_NORMAL \<Rightarrow> pending s @ [q])"
    using True q by (cases prio)
      (simp_all add: qed_spq_add_entry_def Let_def spq_enqueue_def list_add_def list_add_tail_def)
  then show ?thesis using c(13) qp True by auto
qed

section \<open>Refilling\<close>

lemma refill_inv:
  assumes "spq_inv mem g pages pool bus s"
  shows "spq_inv mem g pages pool bus (spq_refill s) \<and>
    spq_owned (spq_refill s) + mset (take (length (free_pool s)) (unlimited_pending s)) = spq_owned s \<and>
    unlimited_pending (spq_refill s) = drop (length (free_pool s)) (unlimited_pending s) \<and>
    free_pool (spq_refill s) = drop (length (unlimited_pending s)) (free_pool s) \<and>
    kz_results (spq_refill s) = kz_results s \<and>
    spq_ring_inv mem g pages (spq_refill s) = spq_ring_inv mem g pages s \<and>
    completion_pending (spq_refill s) = completion_pending s \<and> spq_ring (spq_refill s) = spq_ring s"
  using assms
proof (induction s rule: spq_refill.induct)
  case (1 s)
  show ?case
  proof (cases "free_pool s \<noteq> [] \<and> unlimited_pending s \<noteq> []")
    case False
    then have "spq_refill s = s" by (subst spq_refill.simps) (simp only: if_False)
    then show ?thesis using 1(2) False by auto
  next
    case True
    obtain p ps where u: "unlimited_pending s = p # ps" using True by (cases "unlimited_pending s") auto
    obtain q qs where f: "free_pool s = q # qs" using True by (cases "free_pool s") auto
    let ?s1 = "s\<lparr>unlimited_pending := ps\<rparr>"
    have l: "spq_lists pool bus s" using 1(2) by (simp add: spq_inv_def)
    have qu: "queue (ents ?s1 p) = Q_unlimited_pending" using l u by (simp add: spq_lists_def)
    have l1: "spq_lists pool bus ?s1" using l u by (auto simp: spq_lists_def)
    have r1: "spq_ring_inv mem g pages ?s1 = spq_ring_inv mem g pages s"
      by (intro ext ring_inv_cong) (simp_all add: spq_echoes_def)
    then have i1: "spq_inv mem g pages pool bus ?s1" using 1(2) l1 by (simp add: spq_inv_def)
    have h: "held pool p ?s1" using l u qu by (auto simp: held_def spq_lists_def)
    let ?s2 = "qed_spq_add_entry p (priority (ents ?s1 p)) ?s1"
    note a = add_entry_cases [OF i1 h, where prio = "priority (ents ?s1 p)"]
    have eq: "spq_refill s = spq_refill ?s2" using True u by (subst spq_refill.simps) (simp add: Let_def)
    have IH: "spq_inv mem g pages pool bus (spq_refill ?s2) \<and>
      spq_owned (spq_refill ?s2) + mset (take (length (free_pool ?s2)) (unlimited_pending ?s2)) = spq_owned ?s2 \<and>
      unlimited_pending (spq_refill ?s2) = drop (length (free_pool ?s2)) (unlimited_pending ?s2) \<and>
      free_pool (spq_refill ?s2) = drop (length (unlimited_pending ?s2)) (free_pool ?s2) \<and>
      kz_results (spq_refill ?s2) = kz_results ?s2 \<and>
      spq_ring_inv mem g pages (spq_refill ?s2) = spq_ring_inv mem g pages ?s2 \<and>
      completion_pending (spq_refill ?s2) = completion_pending ?s2 \<and> spq_ring (spq_refill ?s2) = spq_ring ?s2"
      using 1(1) [OF True refl refl] a(1) u by (simp add: Let_def)
    have o: "spq_owned ?s2 = spq_owned ?s1" using a(2) qu f by simp
    have "spq_owned s = add_mset p (spq_owned ?s1)" by (simp add: spq_owned_def u)
    then show ?thesis using IH a(3-8) r1 qu f u o by (simp add: eq)
  qed
qed

section \<open>Posting\<close>

text \<open>The allocated entries that a call of \<open>qed_spq_pend_post\<close> moves into pool entries.\<close>

definition refilled :: "qed_spq \<Rightarrow> ptr multiset" where
  "refilled s = mset (take (length (free_pool s)) (unlimited_pending s))"

lemma posted_lists:
  assumes po: "posted g pages n P s s'" and l: "spq_lists pool bus s"
  shows "spq_lists pool bus s'" "spq_owned s' = spq_owned s"
proof -
  note p = po [unfolded posted_def] and ld = l [unfolded spq_lists_def]
  have "mset (pending s) = mset (take n (pending s)) + mset (drop n (pending s))"
    by (metis append_take_drop_id mset_append)
  then have m: "mset (free_pool s' @ pending s' @ completion_pending s') =
      mset (free_pool s @ pending s @ completion_pending s)" using p by simp
  have "queue (ents s' q) = queue (ents s q)" "data_ptr (elem (ents s' q)) = data_ptr (elem (ents s q))" for q
    using p but_echo_fields(1,2) by blast+
  then show "spq_lists pool bus s'"
    using ld p mset_eq_imp_distinct_iff [OF m] mset_eq_setD [OF m] unfolding spq_lists_def by auto
  show "spq_owned s' = spq_owned s" using p m by (simp add: spq_owned_def add.assoc)
qed

lemma pend_post_inv:
  assumes inv: "spq_inv mem g pages pool bus s"
  shows "fst (qed_spq_pend_post mem s) = RC_OK" "spq_inv mem g pages pool bus (snd (qed_spq_pend_post mem s))"
    "spq_owned (snd (qed_spq_pend_post mem s)) + refilled s = spq_owned s"
    "kz_results (snd (qed_spq_pend_post mem s)) = kz_results s"
proof -
  note rf = refill_inv [OF inv]
  obtain P C where ri: "spq_ring_inv mem g pages (spq_refill s) P C" and l: "spq_lists pool bus (spq_refill s)"
    using rf by (auto simp: spq_inv_def)
  have "distinct (pending (spq_refill s) @ completion_pending (spq_refill s))" using l by (simp add: spq_lists_def)
  note pl = post_list_inv [OF ri this refl, of SPQ_HIGH_PRI_RESERVE_DEFAULT, folded qed_spq_pend_post_def]
  then obtain n where po: "posted g pages n P (spq_refill s) (snd (qed_spq_pend_post mem s))"
    and ri2: "spq_ring_inv mem g pages (snd (qed_spq_pend_post mem s)) (P + n) C" by blast
  note pol = posted_lists [OF po l]
  show "fst (qed_spq_pend_post mem s) = RC_OK" using pl by blast
  show "spq_inv mem g pages pool bus (snd (qed_spq_pend_post mem s))"
    using pol(1) ri2 by (auto simp: spq_inv_def)
  have "kz_results (snd (qed_spq_pend_post mem s)) = kz_results (spq_refill s)"
    using po by (simp add: posted_def)
  then show "spq_owned (snd (qed_spq_pend_post mem s)) + refilled s = spq_owned s"
    "kz_results (snd (qed_spq_pend_post mem s)) = kz_results s"
    using rf pol(2) by (simp_all add: refilled_def)
qed

lemma upd_ent_inv:
  assumes inv: "spq_inv mem g pages pool bus s"
    and f: "\<And>e. hdr_echo (elem (f e)) = hdr_echo (elem e) \<or> p \<notin> set (completion_pending s)"
      "\<And>e. queue (f e) = queue e \<or> p \<notin> set (unlimited_pending s)"
      "\<And>e. data_ptr (elem (f e)) = data_ptr (elem e) \<or> p \<notin> pool"
  shows "spq_inv mem g pages pool bus (upd_ent p f s)" "spq_owned (upd_ent p f s) = spq_owned s"
proof -
  have "spq_lists pool bus (upd_ent p f s)" using inv f by (auto simp: spq_inv_def spq_lists_def)
  moreover have "spq_echoes (upd_ent p f s) = spq_echoes s" using f(1) by (auto simp: spq_echoes_def)
  then have "spq_ring_inv mem g pages (upd_ent p f s) P C = spq_ring_inv mem g pages s P C" for P C
    by (intro ring_inv_cong) simp_all
  ultimately show "spq_inv mem g pages pool bus (upd_ent p f s)" using inv by (simp add: spq_inv_def)
  show "spq_owned (upd_ent p f s) = spq_owned s" by (simp add: spq_owned_def)
qed

lemma fill_entry_upd:
  obtains f where "qed_spq_fill_entry p s = upd_ent p f s" "\<And>e. elem (f e) = elem e"
    "\<And>e. queue (f e) = queue e" "\<And>e. comp_mode (f e) = comp_mode e" "\<And>e. priority (f e) = priority e"
    "\<And>e. ramrod (f e) = ramrod e" "\<And>e. post_ent (f e) = post_ent e"
proof
  show "qed_spq_fill_entry p s = upd_ent p (\<lambda>e. let e1 = e\<lparr>ent_flags := 0\<rparr>
                    in case comp_mode e1 of
                         QED_SPQ_MODE_EBLOCK \<Rightarrow> e1\<lparr>cb_function := Cb_blocking\<rparr>
                       | QED_SPQ_MODE_BLOCK \<Rightarrow> e1\<lparr>cb_function := Cb_blocking\<rparr>
                       | QED_SPQ_MODE_CB \<Rightarrow> e1) s" by (simp add: qed_spq_fill_entry_def)
qed (simp_all add: Let_def split: spq_mode.split)

lemma submit_inv:
  assumes inv: "spq_inv mem g pages pool bus s" and h: "held pool p s"
  defines "r \<equiv> spq_submit mem p s"
  defines "s2 \<equiv> snd (snd r)" and "fp \<equiv> if queue (ents s p) = Q_unlimited_pending then tl (free_pool s) else free_pool s"
  shows "fst r = RC_OK" "fst (snd r) \<longleftrightarrow> comp_mode (ents s p) = QED_SPQ_MODE_EBLOCK"
    "spq_inv mem g pages pool bus s2"
    "spq_owned s2 + mset (take (length fp) (unlimited_pending s)) +
       (if queue (ents s p) = Q_unlimited_pending \<and> free_pool s \<noteq> [] then {#p#} else {#}) = spq_owned s + {#p#}"
    "kz_results s2 = kz_results s"
proof -
  obtain f where f: "qed_spq_fill_entry p s = upd_ent p f s" "\<And>e. elem (f e) = elem e"
    "\<And>e. queue (f e) = queue e" "\<And>e. comp_mode (f e) = comp_mode e" "\<And>e. priority (f e) = priority e"
    by (rule fill_entry_upd [of p s]) blast
  let ?s1 = "upd_ent p f s"
  have i1: "spq_inv mem g pages pool bus ?s1" "spq_owned ?s1 = spq_owned s"
    by (rule upd_ent_inv [OF inv]; simp add: f)+
  have h1: "held pool p ?s1" using h f(3) by (auto simp: held_def split: if_splits)
  let ?a = "qed_spq_add_entry p (priority (ents ?s1 p)) ?s1"
  note a = add_entry_cases [OF i1(1) h1, where prio = "priority (ents ?s1 p)"]
  note pp = pend_post_inv [OF a(1)]
  have e: "r = (fst (qed_spq_pend_post mem ?a),
      fst (qed_spq_pend_post mem ?a) = RC_OK \<and> comp_mode (ents s p) = QED_SPQ_MODE_EBLOCK,
      snd (qed_spq_pend_post mem ?a))"
    by (simp add: r_def spq_submit_def f Let_def split: prod.split)
  show "fst r = RC_OK" "fst (snd r) \<longleftrightarrow> comp_mode (ents s p) = QED_SPQ_MODE_EBLOCK" using pp(1) by (simp_all add: e)
  show "spq_inv mem g pages pool bus s2" using pp(2) by (simp add: s2_def e)
  show "kz_results s2 = kz_results s" using pp(4) a(5) by (simp add: s2_def e)
  have "refilled ?a = mset (take (length fp) (unlimited_pending s))"
    using a(3,4) f(3) by (auto simp: refilled_def fp_def)
  then show "spq_owned s2 + mset (take (length fp) (unlimited_pending s)) +
       (if queue (ents s p) = Q_unlimited_pending \<and> free_pool s \<noteq> [] then {#p#} else {#}) = spq_owned s + {#p#}"
    using pp(3) a(2) i1(2) f(3) by (simp add: s2_def e)
qed

text \<open>
  Submitting a request while there is room for it and for everything that is pending: the place
  of its element among those posted is the front for high priority and the end otherwise.
\<close>

lemma submit_lands:
  assumes inv: "spq_lists pool bus s" "spq_ring_inv mem g pages s P C" and h: "held pool p s"
    and room: "unlimited_pending s = []" "length (pending s) + (P - C) < 255"
    and fp: "queue (ents s p) = Q_unlimited_pending \<longrightarrow> free_pool s \<noteq> []"
    and run: "spq_submit mem p s = (rc, wait, s')"
    and k: "k = (case priority (ents s p) of QED_SPQ_PRIORITY_HIGH \<Rightarrow> 0 | QED_SPQ_PRIORITY_NORMAL \<Rightarrow> length (pending s))"
  shows "rc = RC_OK \<and> pending s' = [] \<and> (\<exists>q el. q \<in> pool \<and>
    completion_pending s' = completion_pending s @ take k (pending s) @ q # drop k (pending s) \<and>
    el = spq_ring s' (slot_addr g pages (P + k)) \<and> el = elem (ents s' q) \<and>
    hdr_echo el = of_nat (P + k) \<and> data_ptr el = bus q \<and>
    ramrod (ents s' q) = ramrod (ents s p) \<and> hdr_cid el = hdr_cid (elem (ents s p)) \<and>
    hdr_cmd_id el = hdr_cmd_id (elem (ents s p)) \<and> hdr_protocol_id el = hdr_protocol_id (elem (ents s p)) \<and>
    queue (ents s' q) = queue (ents s p) \<and> comp_mode (ents s' q) = comp_mode (ents s p) \<and>
    (queue (ents s p) \<noteq> Q_unlimited_pending \<longrightarrow> q = p))"
proof -
  have si: "spq_inv mem g pages pool bus s" using inv by (auto simp: spq_inv_def)
  obtain f where f: "qed_spq_fill_entry p s = upd_ent p f s" "\<And>e. elem (f e) = elem e"
    "\<And>e. queue (f e) = queue e" "\<And>e. priority (f e) = priority e" "\<And>e. ramrod (f e) = ramrod e"
    "\<And>e. comp_mode (f e) = comp_mode e"
    by (rule fill_entry_upd [of p s]) blast
  let ?t = "upd_ent p f s"
  have it: "spq_inv mem g pages pool bus ?t" by (rule upd_ent_inv [OF si]) (simp_all add: f)
  have ht: "held pool p ?t" using h f(3) by (auto simp: held_def split: if_splits)
  define a where "a = qed_spq_add_entry p (priority (ents ?t p)) ?t"
  note ac = add_entry_cases [OF it ht, where prio = "priority (ents ?t p)", folded a_def]
  have "spq_echoes ?t = spq_echoes s" by (simp add: spq_echoes_def f(2))
  then have rt: "spq_ring_inv mem g pages ?t P C" using inv(2) ring_inv_cong [of ?t s] by simp
  have ra: "spq_ring_inv mem g pages a P C" "spq_lists pool bus a" using ac(1,6) rt by (simp_all add: spq_inv_def)
  have ua: "unlimited_pending a = []" using ac(3) room(1) fp f(3) by auto
  have ft: "queue (ents ?t p) = Q_unlimited_pending \<longrightarrow> free_pool ?t \<noteq> []"
    using fp f(3) by simp_all
  have "pending ?t = pending s" by simp
  from add_entry_lands [OF it ht ft, where prio = "priority (ents ?t p)", folded a_def, unfolded this]
  have "\<exists>q. pending a = (case priority (ents s p) of QED_SPQ_PRIORITY_HIGH \<Rightarrow> q # pending s
        | QED_SPQ_PRIORITY_NORMAL \<Rightarrow> pending s @ [q]) \<and> q \<in> pool \<and> ramrod (ents a q) = ramrod (ents s p) \<and>
      elem (ents a q) = (elem (ents s p))\<lparr>data_ptr := bus q\<rparr> \<and> queue (ents a q) = queue (ents s p) \<and>
      comp_mode (ents a q) = comp_mode (ents s p) \<and> (queue (ents s p) \<noteq> Q_unlimited_pending \<longrightarrow> q = p)"
    by (simp add: f(2-6))
  then obtain q where q0: "pending a = (case priority (ents s p) of QED_SPQ_PRIORITY_HIGH \<Rightarrow> q # pending s
        | QED_SPQ_PRIORITY_NORMAL \<Rightarrow> pending s @ [q])"
    and q: "q \<in> pool" "ramrod (ents a q) = ramrod (ents s p)"
    "elem (ents a q) = (elem (ents s p))\<lparr>data_ptr := bus q\<rparr>" "queue (ents a q) = queue (ents s p)"
    "comp_mode (ents a q) = comp_mode (ents s p)" "queue (ents s p) \<noteq> Q_unlimited_pending \<longrightarrow> q = p"
    by blast
  have pa: "pending a = take k (pending s) @ q # drop k (pending s)" "pending a ! k = q" "k < length (pending a)"
    using q0 by (auto simp: k split: spq_priority.splits)
  have la: "length (pending a) = Suc (length (pending s))" using q0 by (auto split: spq_priority.splits)
  have refill: "spq_refill a = a" using ua by (subst spq_refill.simps) simp
  have d: "distinct (pending a @ completion_pending a)" using ra(2) by (simp add: spq_lists_def)
  have "length (pending a) = min (length (pending a)) (SPQ_RING_SIZE - unat SPQ_HIGH_PRI_RESERVE_DEFAULT - (P - C))"
    using room(2) la by (simp add: SPQ_RING_SIZE_def SPQ_HIGH_PRI_RESERVE_DEFAULT_def)
  note pl = post_list_inv [OF ra(1) d this]
  have e: "qed_spq_post_list mem SPQ_HIGH_PRI_RESERVE_DEFAULT a = (rc, s')"
  proof -
    have "qed_spq_pend_post mem a = (rc, s')"
      using run unfolding spq_submit_def f(1) Let_def a_def by (auto split: prod.splits)
    then show ?thesis by (simp add: qed_spq_pend_post_def refill)
  qed
  have po: "posted g pages (length (pending a)) P a s'" and rc: "rc = RC_OK" using pl by (simp_all add: e)
  then have be: "but_echo (ents a q) (ents s' q)" and r: "spq_ring s' (slot_addr g pages (P + k)) = elem (ents s' q)"
    "hdr_echo (elem (ents s' q)) = of_nat (P + k)" "completion_pending s' = completion_pending s @ pending a"
    "pending s' = []"
    using pa(2,3) ac(7) by (auto simp: posted_def)
  note bf = but_echo_fields [OF be]
  have "queue (ents s' q) = queue (ents s p)" "comp_mode (ents s' q) = comp_mode (ents s p)" by (simp_all only: bf q)
  then show ?thesis using rc q(1,2,3,6) pa(1) bf(2,3,8-10) r
    by (intro conjI exI [of _ q] exI [of _ "elem (ents s' q)"]) simp_all
qed

section \<open>Taking and giving back entries\<close>

text \<open>The allocator does not hand out memory that is in use.\<close>

definition kz_fresh :: "ptr set \<Rightarrow> qed_spq \<Rightarrow> bool" where
  "kz_fresh pool s \<longleftrightarrow>
     (case kz_results s of Some p # rs \<Rightarrow> p \<notin> pool \<and> p \<notin> set (unlimited_pending s) | _ \<Rightarrow> True)"

lemma spq_inv_cong:
  assumes "spq_chain s' = spq_chain s" "p_comp_bitmap s' = p_comp_bitmap s" "comp_bitmap_idx s' = comp_bitmap_idx s"
    and "completion_pending s' = completion_pending s" "ents s' = ents s" "spq_lists pool bus s'"
  shows "spq_inv mem g pages pool bus s \<Longrightarrow> spq_inv mem g pages pool bus s'"
  using ring_inv_cong [OF assms(1-3)] assms(4-6) by (simp add: spq_inv_def spq_echoes_def)

lemma get_entry_inv:
  assumes inv: "spq_inv mem g pages pool bus s" and fr: "kz_fresh pool s"
  shows "case qed_spq_get_entry s of
      (Inl e, s') \<Rightarrow> e = ENOMEM \<and> free_pool s = [] \<and> spq_inv mem g pages pool bus s' \<and> spq_owned s' = spq_owned s
    | (Inr p, s') \<Rightarrow> spq_inv mem g pages pool bus s' \<and> held pool p s' \<and>
        (queue (ents s' p) = Q_unlimited_pending \<longleftrightarrow> free_pool s = []) \<and>
        spq_owned s' + (if free_pool s = [] then {#} else {#p#}) = spq_owned s"
proof -
  have l: "spq_lists pool bus s" using inv by (simp add: spq_inv_def)
  show ?thesis
  proof (cases "free_pool s")
    case Nil
    show ?thesis
    proof (cases "kz_results s")
      case (Cons k rs)
      let ?k = "\<lambda>a. s\<lparr>kz_results := rs, kzalloced := a\<rparr>"
      have ik: "spq_inv mem g pages pool bus (?k a)" "spq_owned (?k a) = spq_owned s" for a
        using l by (auto intro!: spq_inv_cong [OF _ _ _ _ _ _ inv] simp: spq_lists_def spq_owned_def)
      show ?thesis
      proof (cases k)
        case None
        have "spq_inv mem g pages pool bus (s\<lparr>kz_results := rs\<rparr>)"
          by (rule spq_inv_cong [OF _ _ _ _ _ _ inv]) (use l in \<open>simp_all add: spq_lists_def\<close>)
        then show ?thesis using Cons Nil None by (simp add: qed_spq_get_entry_def spq_owned_def)
      next
        case (Some p)
        have p: "p \<notin> pool" "p \<notin> set (unlimited_pending s)" using fr Cons Some by (simp_all add: kz_fresh_def)
        then have "p \<notin> set (completion_pending s)" using l by (auto simp: spq_lists_def)
        with p have "spq_inv mem g pages pool bus (upd_ent p (\<lambda>_. zero_entry\<lparr>queue := Q_unlimited_pending\<rparr>) (?k a))"
          "spq_owned (upd_ent p (\<lambda>_. zero_entry\<lparr>queue := Q_unlimited_pending\<rparr>) (?k a)) = spq_owned s" for a
          using upd_ent_inv [OF ik(1), where p = p and f = "\<lambda>_. zero_entry\<lparr>queue := Q_unlimited_pending\<rparr>"] ik(2)
          by simp_all
        then show ?thesis using Cons Nil Some p by (simp add: qed_spq_get_entry_def held_def)
      qed
    qed (use inv Nil in \<open>simp add: qed_spq_get_entry_def\<close>)
  next
    case (Cons p ps)
    let ?s1 = "s\<lparr>free_pool := ps\<rparr>"
    have i1: "spq_inv mem g pages pool bus ?s1"
      by (rule spq_inv_cong [OF _ _ _ _ _ _ inv]) (use l Cons in \<open>auto simp: spq_lists_def\<close>)
    have p: "p \<in> pool" "p \<notin> set ps \<union> set (pending s) \<union> set (completion_pending s)" "p \<notin> set (unlimited_pending s)"
      using l Cons by (auto simp: spq_lists_def)
    have "spq_inv mem g pages pool bus (upd_ent p (\<lambda>e. e\<lparr>queue := Q_pending\<rparr>) ?s1)"
      using p by (intro upd_ent_inv(1) [OF i1]) simp_all
    then show ?thesis using Cons p by (simp add: qed_spq_get_entry_def held_def spq_owned_def)
  qed
qed

lemma return_inv:
  assumes inv: "spq_inv mem g pages pool bus s"
    and p: "p \<in> pool" "p \<notin> set (free_pool s @ pending s @ completion_pending s)"
  shows "spq_inv mem g pages pool bus (qed_spq_return_entry p s)"
    "spq_owned (qed_spq_return_entry p s) = spq_owned s + {#p#}"
proof -
  show "spq_inv mem g pages pool bus (qed_spq_return_entry p s)"
    by (rule spq_inv_cong [OF _ _ _ _ _ _ inv])
      (use inv p in \<open>auto simp: qed_spq_return_entry_def spq_inv_def spq_lists_def\<close>)
  show "spq_owned (qed_spq_return_entry p s) = spq_owned s + {#p#}"
    by (simp add: qed_spq_return_entry_def spq_owned_def)
qed

lemma kfree_inv [simp]:
  "spq_inv mem g pages pool bus (kfree_ent p s) = spq_inv mem g pages pool bus s"
  "spq_owned (kfree_ent p s) = spq_owned s"
proof -
  have "spq_ring_inv mem g pages (kfree_ent p s) P C = spq_ring_inv mem g pages s P C" for P C
    by (rule ring_inv_cong) (simp_all add: spq_echoes_def)
  then show "spq_inv mem g pages pool bus (kfree_ent p s) = spq_inv mem g pages pool bus s"
    by (simp add: spq_inv_def spq_lists_def)
qed (simp add: spq_owned_def)

lemma destroy_inv:
  assumes inv: "spq_inv mem g pages pool bus s" and h: "held pool p s"
  shows "spq_inv mem g pages pool bus (qed_sp_destroy_request p s)"
    "spq_owned (qed_sp_destroy_request p s) =
       spq_owned s + (if queue (ents s p) = Q_unlimited_pending then {#} else {#p#})"
  using return_inv [OF inv, of p] inv h by (auto simp: qed_sp_destroy_request_def held_def split: if_splits)

section \<open>Completions\<close>

lemma retire_spq_inv:
  assumes inv: "spq_inv mem g pages pool bus s" and p: "p \<in> set (completion_pending s)"
  defines "s' \<equiv> retire p (hdr_echo (elem (ents s p))) s"
  shows "spq_inv mem g pages pool bus s'" "spq_owned s' + {#p#} = spq_owned s"
    "p \<in> pool" "p \<notin> set (free_pool s' @ pending s' @ completion_pending s')"
proof -
  obtain P C where ri: "spq_ring_inv mem g pages s P C" and l: "spq_lists pool bus s"
    using inv by (auto simp: spq_inv_def)
  have "hdr_echo (elem (ents s p)) \<in> set (spq_echoes s)" using p by (simp add: spq_echoes_def)
  then obtain k where "k \<in> set (outstanding s P C)" "hdr_echo (elem (ents s p)) = of_nat k"
    using ri by (auto simp: spq_ring_inv_def)
  from retire_inv [OF ri p this] have "\<exists>C'. spq_ring_inv mem g pages s' P C'"
    using \<open>hdr_echo (elem (ents s p)) = of_nat k\<close> by (auto simp: s'_def)
  moreover have "spq_lists pool bus s'" using l by (auto simp: spq_lists_def s'_def)
  ultimately show "spq_inv mem g pages pool bus s'" by (auto simp: spq_inv_def)
  have "mset (completion_pending s) = add_mset p (mset (completion_pending s) - {#p#})" using p by simp
  then show "spq_owned s' + {#p#} = spq_owned s" by (simp add: spq_owned_def s'_def)
  show "p \<in> pool" "p \<notin> set (free_pool s' @ pending s' @ completion_pending s')"
    using l p by (auto simp: spq_lists_def s'_def)
qed

end
