(* ===== verification/Qed_Spq_Events.thy ===== *)
theory Qed_Spq_Events
  imports Qed_Spq_Lists
begin

text \<open>
  The slow path queue over time. The threads and the interrupt handler interleave at the
  sections the lock protects: any sequence of them conserves the entries and keeps the ring
  and the completion bitmap consistent.
\<close>

section \<open>Events\<close>

text \<open>
  One constructor per section: obtaining a request (\<open>qed_sp_init_request\<close>), filling its data,
  submitting it (the locked part of \<open>qed_spq_post\<close>), a completion from the firmware (the locked
  part of \<open>qed_spq_completion\<close>), its callback, the return of the entry, the part of
  \<open>qed_spq_post\<close> after the wait, giving up a request, and posting after the event queue ran.
\<close>

datatype spq_op =
    Op_init u8 u8 qed_sp_init_data
  | Op_fill ptr "nat \<Rightarrow> u8"
  | Op_submit ptr
  | Op_complete u16
  | Op_callback ptr u8
  | Op_return ptr
  | Op_after ptr rc
  | Op_destroy ptr
  | Op_pend
  | Op_drop

fun spq_step :: "chain_mem \<Rightarrow> spq_op \<Rightarrow> qed_spq \<Rightarrow> qed_spq option" where
  "spq_step mem (Op_init cmd proto dat) s = Some (snd (qed_sp_init_request cmd proto dat s))"
| "spq_step mem (Op_fill p bytes) s = Some (upd_ent p (\<lambda>e. e\<lparr>ramrod := bytes\<rparr>) s)"
| "spq_step mem (Op_submit p) s = Some (snd (snd (spq_submit mem p s)))"
| "spq_step mem (Op_complete echo) s = Some (snd (snd (spq_completion_locked echo s)))"
| "spq_step mem (Op_callback p fw) s = Some (spq_run_cb p fw s)"
| "spq_step mem (Op_return p) s = Some (qed_spq_return_entry p s)"
| "spq_step mem (Op_after p rc) s = spq_after_block p rc s"
| "spq_step mem (Op_destroy p) s = Some (qed_sp_destroy_request p s)"
| "spq_step mem Op_pend s = Some (snd (qed_spq_pend_post mem s))"
| "spq_step mem Op_drop s = Some (qed_spq_drop_next_completion s)"

text \<open>The entry that a waiter gives back: the pool entry it was copied to, if it was allocated.\<close>

definition wait_target :: "ptr \<Rightarrow> qed_spq \<Rightarrow> ptr option" where
  "wait_target p s = (if queue (ents s p) = Q_unlimited_pending then post_ent (ents s p) else Some p)"

text \<open>
  When a section runs. The allocator returns memory that is not in use, a caller passes an entry
  it holds, and an entry given back is on no list. A waiter that succeeded finds its entry on no
  list; this leaves out a wait that ends because a recovery started. A waiter that gives up finds
  its ramrod posted and not completed. This leaves out a timeout before the ramrod was posted,
  where the code goes wrong, as the last two properties of the component show, and a completion
  that comes between the last look of the waiter and its taking of the lock.
\<close>

fun spq_ok :: "ptr set \<Rightarrow> spq_op \<Rightarrow> qed_spq \<Rightarrow> bool" where
  "spq_ok pool (Op_init cmd proto dat) s \<longleftrightarrow> kz_fresh pool s"
| "spq_ok pool (Op_submit p) s \<longleftrightarrow> held pool p s"
| "spq_ok pool (Op_return p) s \<longleftrightarrow> p \<in> pool \<and> p \<notin> set (free_pool s @ pending s @ completion_pending s)"
| "spq_ok pool (Op_after p rc) s \<longleftrightarrow>
     (case wait_target p s of
        None \<Rightarrow> False
      | Some q \<Rightarrow>
          if rc = RC_OK then q \<in> pool \<and> q \<notin> set (free_pool s @ pending s @ completion_pending s)
          else q \<in> set (completion_pending s))"
| "spq_ok pool (Op_destroy p) s \<longleftrightarrow> held pool p s"
| "spq_ok pool _ s \<longleftrightarrow> True"

fun spq_gain :: "spq_op \<Rightarrow> qed_spq \<Rightarrow> ptr multiset" where
  "spq_gain (Op_submit p) s = {#p#}"
| "spq_gain (Op_return p) s = {#p#}"
| "spq_gain (Op_after p rc) s = (if rc = RC_OK then mset_set (set_option (wait_target p s)) else {#})"
| "spq_gain (Op_destroy p) s = (if queue (ents s p) = Q_unlimited_pending then {#} else {#p#})"
| "spq_gain _ s = {#}"

fun spq_loss :: "spq_op \<Rightarrow> qed_spq \<Rightarrow> ptr multiset" where
  "spq_loss (Op_init cmd proto dat) s =
     (case (fst (qed_sp_init_request cmd proto dat s), free_pool s) of
        (Inr p, q # qs) \<Rightarrow> {#q#} | _ \<Rightarrow> {#})"
| "spq_loss (Op_submit p) s =
     (if queue (ents s p) = Q_unlimited_pending
      then (if free_pool s = [] then {#} else {#p#}) +
           mset (take (length (tl (free_pool s))) (unlimited_pending s))
      else refilled s)"
| "spq_loss (Op_complete echo) s =
     (case fst (snd (spq_completion_locked echo s)) of None \<Rightarrow> {#} | Some p \<Rightarrow> {#p#})"
| "spq_loss Op_pend s = refilled s"
| "spq_loss _ s = {#}"

section \<open>Each section conserves\<close>

lemma get_entry_first:
  "free_pool s = q # qs \<Longrightarrow> fst (qed_spq_get_entry s) = Inr q"
  by (simp add: qed_spq_get_entry_def)

lemma fill_hdr_fields [simp]:
  "hdr_echo (elem (sp_fill_hdr cmd proto dat e)) = hdr_echo (elem e)"
  "queue (sp_fill_hdr cmd proto dat e) = queue e"
  "data_ptr (elem (sp_fill_hdr cmd proto dat e)) = data_ptr (elem e)"
  by (simp_all add: sp_fill_hdr_def Let_def)

lemma fill_cb_fields:
  assumes "sp_fill_cb p dat e = Some e'"
  shows "elem e' = elem e" "queue e' = queue e"
  using assms by (auto simp: sp_fill_cb_def split: spq_mode.splits option.splits)

lemma upd_ent_const: "upd_ent p (\<lambda>_. v) s = upd_ent p (\<lambda>e. if e = ents s p then v else e) s"
  by (simp add: upd_ent_def)

lemma init_request_inv:
  fixes cmd proto :: u8 and dat :: qed_sp_init_data and s :: qed_spq
  assumes inv: "spq_inv mem g pages pool bus s" and fr: "kz_fresh pool s"
  defines "r \<equiv> qed_sp_init_request cmd proto dat s"
  shows "spq_inv mem g pages pool bus (snd r) \<and>
    spq_owned (snd r) + (case (fst r, free_pool s) of (Inr p, q # qs) \<Rightarrow> {#q#} | _ \<Rightarrow> {#}) = spq_owned s"
proof (cases "fst (qed_spq_get_entry s)")
  case (Inl e)
  then obtain s1 where "qed_spq_get_entry s = (Inl e, s1)" by (metis prod.collapse)
  then show ?thesis using get_entry_inv [OF inv fr] by (simp add: r_def qed_sp_init_request_def)
next
  case (Inr p)
  then obtain s1 where ge: "qed_spq_get_entry s = (Inr p, s1)" by (metis prod.collapse)
  from get_entry_inv [OF inv fr] have g: "spq_inv mem g pages pool bus s1" "held pool p s1"
    "queue (ents s1 p) = Q_unlimited_pending \<longleftrightarrow> free_pool s = []"
    "spq_owned s1 + (if free_pool s = [] then {#} else {#p#}) = spq_owned s" by (simp_all add: ge)
  let ?s2 = "upd_ent p (sp_fill_hdr cmd proto dat) s1"
  have i2: "spq_inv mem g pages pool bus ?s2" "spq_owned ?s2 = spq_owned s1"
    by (rule upd_ent_inv [OF g(1)]; simp)+
  have fp: "free_pool s = q # qs \<Longrightarrow> q = p" for q qs using get_entry_first [of s q qs] ge by simp
  show ?thesis
  proof (cases "sp_fill_cb p dat (ents ?s2 p)")
    case None
    have "held pool p ?s2" using g(2) by (auto simp: held_def split: if_splits)
    then show ?thesis using destroy_inv [OF i2(1), of p] None g(3,4) i2(2)
      by (simp add: r_def qed_sp_init_request_def ge Let_def split: list.split)
  next
    case (Some e)
    let ?s3 = "upd_ent p (\<lambda>_. e\<lparr>ramrod := (\<lambda>_. 0)\<rparr>) ?s2"
    have "spq_inv mem g pages pool bus ?s3" "spq_owned ?s3 = spq_owned ?s2"
      unfolding upd_ent_const by (rule upd_ent_inv [OF i2(1)]; simp add: fill_cb_fields [OF Some])+
    then show ?thesis using Some g(4) i2(2) fp
      by (auto simp: r_def qed_sp_init_request_def ge Let_def split: list.split)
  qed
qed

lemma spq_inv_fields [simp]:
  "spq_inv mem g pages pool bus (s\<lparr>comp_count := c\<rparr>) = spq_inv mem g pages pool bus s"
  "spq_inv mem g pages pool bus (s\<lparr>drop_next_completion := b\<rparr>) = spq_inv mem g pages pool bus s"
  "spq_inv mem g pages pool bus (s\<lparr>client_done := d\<rparr>) = spq_inv mem g pages pool bus s"
  "spq_inv mem g pages pool bus (s\<lparr>cb_calls := l\<rparr>) = spq_inv mem g pages pool bus s"
  "spq_owned (s\<lparr>comp_count := c\<rparr>) = spq_owned s" "spq_owned (s\<lparr>drop_next_completion := b\<rparr>) = spq_owned s"
  "spq_owned (s\<lparr>client_done := d\<rparr>) = spq_owned s" "spq_owned (s\<lparr>cb_calls := l\<rparr>) = spq_owned s"
proof -
  have "spq_ring_inv mem g pages (s\<lparr>comp_count := c\<rparr>) = spq_ring_inv mem g pages s"
    "spq_ring_inv mem g pages (s\<lparr>drop_next_completion := b\<rparr>) = spq_ring_inv mem g pages s"
    "spq_ring_inv mem g pages (s\<lparr>client_done := d\<rparr>) = spq_ring_inv mem g pages s"
    "spq_ring_inv mem g pages (s\<lparr>cb_calls := l\<rparr>) = spq_ring_inv mem g pages s"
    by (intro ext ring_inv_cong; simp add: spq_echoes_def)+
  then show "spq_inv mem g pages pool bus (s\<lparr>comp_count := c\<rparr>) = spq_inv mem g pages pool bus s"
    "spq_inv mem g pages pool bus (s\<lparr>drop_next_completion := b\<rparr>) = spq_inv mem g pages pool bus s"
    "spq_inv mem g pages pool bus (s\<lparr>client_done := d\<rparr>) = spq_inv mem g pages pool bus s"
    "spq_inv mem g pages pool bus (s\<lparr>cb_calls := l\<rparr>) = spq_inv mem g pages pool bus s"
    by (simp_all add: spq_inv_def spq_lists_def)
qed (simp_all add: spq_owned_def)

lemma completion_step:
  assumes inv: "spq_inv mem g pages pool bus s"
  shows "spq_inv mem g pages pool bus (snd (snd (spq_completion_locked echo s))) \<and>
    spq_owned (snd (snd (spq_completion_locked echo s))) + spq_loss (Op_complete echo) s = spq_owned s"
proof (cases "find (\<lambda>p. hdr_echo (elem (ents s p)) = echo) (completion_pending s)")
  case None
  then show ?thesis using inv by (simp add: completion_locked_unfold)
next
  case (Some p)
  have p: "p \<in> set (completion_pending s)" "echo = hdr_echo (elem (ents s p))"
    using Some by (auto simp: find_Some_iff)
  show ?thesis using Some retire_spq_inv(1,2) [OF inv p(1)] inv p(2) by (simp add: completion_locked_unfold)
qed

lemma run_cb_inv:
  assumes inv: "spq_inv mem g pages pool bus s"
  shows "spq_inv mem g pages pool bus (spq_run_cb p fw s)" "spq_owned (spq_run_cb p fw s) = spq_owned s"
proof -
  have "spq_inv mem g pages pool bus (qed_spq_blocking_cb c fw s) \<and> spq_owned (qed_spq_blocking_cb c fw s) = spq_owned s" for c
  proof (cases c)
    case (Ck_ent q)
    have "spq_inv mem g pages pool bus (upd_ent q (\<lambda>e. e\<lparr>comp_done := d\<rparr>) s)"
      "spq_owned (upd_ent q (\<lambda>e. e\<lparr>comp_done := d\<rparr>) s) = spq_owned s" for d
      by (rule upd_ent_inv [OF inv]; simp)+
    then show ?thesis using Ck_ent by (simp add: qed_spq_blocking_cb_def)
  qed (simp add: qed_spq_blocking_cb_def inv)
  then show "spq_inv mem g pages pool bus (spq_run_cb p fw s)" "spq_owned (spq_run_cb p fw s) = spq_owned s"
    using inv by (simp_all add: spq_run_cb_def split: spq_cb.split)
qed

lemma after_block_inv:
  assumes inv: "spq_inv mem g pages pool bus s" and ok: "spq_ok pool (Op_after p rc) s"
  shows "\<exists>s'. spq_after_block p rc s = Some s' \<and> spq_inv mem g pages pool bus s' \<and>
    spq_owned s' = spq_owned s + spq_gain (Op_after p rc) s"
proof -
  obtain q where q: "wait_target p s = Some q" using ok by (cases "wait_target p s") auto
  define s1 where "s1 = (if queue (ents s p) = Q_unlimited_pending then kfree_ent p s else s)"
  have i1: "spq_inv mem g pages pool bus s1" "spq_owned s1 = spq_owned s" using inv by (simp_all add: s1_def)
  have l1: "free_pool s1 = free_pool s" "pending s1 = pending s" "completion_pending s1 = completion_pending s" "ents s1 = ents s"
    by (simp_all add: s1_def)
  show ?thesis
  proof (cases "rc = RC_OK")
    case True
    then have e: "spq_after_block p rc s = Some (qed_spq_return_entry q s1)"
      using q by (simp add: spq_after_block_def wait_target_def s1_def Let_def)
    show ?thesis using return_inv [OF i1(1), of q] ok q True i1(2) unfolding e by (simp add: l1)
  next
    case False
    then have c: "q \<in> set (completion_pending s1)" using ok q l1 by simp
    have np: "q \<notin> set (pending s1)" using i1(1) c by (auto simp: spq_inv_def spq_lists_def)
    have "s1\<lparr>pending := list_del q (pending s1), completion_pending := cp\<rparr> = s1\<lparr>completion_pending := cp\<rparr>" for cp
      using np by (simp add: list_del_def remove1_idem)
    then have e: "spq_after_block p rc s = Some (qed_spq_return_entry q (retire q (hdr_echo (elem (ents s1 q))) s1))"
      using False c q by (simp add: spq_after_block_def wait_target_def Let_def retire_def flip: s1_def)
    note rt = retire_spq_inv [OF i1(1) c]
    show ?thesis using return_inv [OF rt(1,3)] rt(2,4) False i1(2) unfolding e by simp
  qed
qed

interpretation spq: conserving "spq_step mem" "spq_inv mem g pages pool bus" spq_owned spq_gain spq_loss "spq_ok pool"
  for mem g pages pool bus
proof
  fix s op
  assume inv: "spq_inv mem g pages pool bus s" and ok: "spq_ok pool op s"
  show "\<exists>s'. spq_step mem op s = Some s' \<and> spq_inv mem g pages pool bus s' \<and>
    spq_owned s' + spq_loss op s = spq_owned s + spq_gain op s"
  proof (cases op)
    case (Op_init cmd proto dat)
    then show ?thesis using init_request_inv [OF inv, of cmd proto dat] ok by simp
  next
    case (Op_fill p b)
    have "spq_inv mem g pages pool bus (upd_ent p (\<lambda>e. e\<lparr>ramrod := b\<rparr>) s)"
      "spq_owned (upd_ent p (\<lambda>e. e\<lparr>ramrod := b\<rparr>) s) = spq_owned s"
      by (rule upd_ent_inv [OF inv]; simp)+
    then show ?thesis using Op_fill by simp
  next
    case (Op_submit p)
    then have "held pool p s" using ok by simp
    note sub = submit_inv(3,4) [OF inv this]
    show ?thesis using sub Op_submit
      by (cases "queue (ents s p) = Q_unlimited_pending"; cases "free_pool s = []")
        (simp_all add: refilled_def add.commute add.left_commute)
  next
    case (Op_complete e)
    then show ?thesis using completion_step [OF inv, of e] by simp
  next
    case (Op_callback p fw)
    then show ?thesis using run_cb_inv [OF inv, of p fw] by simp
  next
    case (Op_return p)
    then show ?thesis using return_inv [OF inv, of p] ok by simp
  next
    case (Op_after p rc)
    then show ?thesis using after_block_inv [OF inv, of p rc] ok by auto
  next
    case (Op_destroy p)
    then show ?thesis using destroy_inv [OF inv, of p] ok by simp
  next
    case Op_pend
    then show ?thesis using pend_post_inv [OF inv] by simp
  next
    case Op_drop
    then show ?thesis using inv by (simp add: qed_spq_drop_next_completion_def)
  qed
qed

end
