(* ===== verification/Qed_Spq_Setup.thy ===== *)
theory Qed_Spq_Setup
  imports Qed_Spq_Events
begin

text \<open>
  From allocation to a running queue: \<open>qed_spq_alloc\<close> and \<open>qed_spq_setup\<close> establish the
  invariant with an empty ring and every entry in the pool, and allocation and release balance.
\<close>

section \<open>The pool\<close>

definition spq_pool_ptr :: "ptr \<Rightarrow> u64 \<Rightarrow> nat \<Rightarrow> ptr" where
  "spq_pool_ptr p_virt ent_sz i = p_virt + of_nat i * ent_sz"

lemma pool_ptr_Suc: "spq_pool_ptr (p + sz) sz i = spq_pool_ptr p sz (Suc i)"
  by (simp add: spq_pool_ptr_def algebra_simps)

lemma pool_ptr_inj:
  assumes "0 < unat sz" "n * unat sz \<le> 2 ^ 64"
  shows "inj_on (spq_pool_ptr p sz) {..<n}"
proof (rule inj_onI)
  fix i j assume ij: "i \<in> {..<n}" "j \<in> {..<n}" and eq: "spq_pool_ptr p sz i = spq_pool_ptr p sz j"
  have u: "unat (of_nat k * sz) = k * unat sz" if "k < n" for k
  proof -
    have "k * unat sz < n * unat sz" using that assms(1) by simp
    then have lt: "k * unat sz < 2 ^ 64" using assms(2) by linarith
    moreover have "k \<le> k * unat sz" using assms(1) by simp
    ultimately have "k < 2 ^ 64" by linarith
    then show ?thesis using lt by (simp only: unat_mult_mod unat_of_nat) simp
  qed
  have "of_nat i * sz = of_nat j * sz" using eq by (simp add: spq_pool_ptr_def)
  then have "i * unat sz = j * unat sz" using u ij by (metis lessThan_iff)
  then show "i = j" using assms(1) by simp
qed

lemma pool_init:
  assumes "inj_on (spq_pool_ptr pv sz) {..<n}"
  shows "free_pool (spq_pool_init n pv pp sz s) = free_pool s @ map (spq_pool_ptr pv sz) [0..<n] \<and>
    (\<forall>i<n. data_ptr (elem (ents (spq_pool_init n pv pp sz s) (spq_pool_ptr pv sz i))) = pp + of_nat i * sz) \<and>
    (\<forall>q. q \<notin> spq_pool_ptr pv sz ` {..<n} \<longrightarrow> ents (spq_pool_init n pv pp sz s) q = ents s q)"
  using assms
proof (induction n arbitrary: pv pp s)
  case (Suc n)
  let ?s1 = "upd_ent pv (\<lambda>e. e\<lparr>elem := (elem e)\<lparr>data_ptr := pp\<rparr>\<rparr>) (s\<lparr>free_pool := list_add_tail pv (free_pool s)\<rparr>)"
  have img: "spq_pool_ptr (pv + sz) sz = (\<lambda>i. spq_pool_ptr pv sz (Suc i))" by (simp add: fun_eq_iff pool_ptr_Suc)
  have inj: "inj_on (spq_pool_ptr (pv + sz) sz) {..<n}"
    unfolding img using Suc.prems by (auto simp: inj_on_def)
  note IH = Suc.IH [OF inj, of "pp + sz" ?s1]
  have p0: "spq_pool_ptr pv sz 0 = pv" by (simp add: spq_pool_ptr_def)
  have "pv \<notin> spq_pool_ptr (pv + sz) sz ` {..<n}"
  proof
    assume "pv \<in> spq_pool_ptr (pv + sz) sz ` {..<n}"
    then obtain i where "i < n" "spq_pool_ptr pv sz 0 = spq_pool_ptr pv sz (Suc i)" using p0 by (auto simp: img)
    then show False using inj_onD [OF Suc.prems, of 0 "Suc i"] by simp
  qed
  then have e0: "ents (spq_pool_init n (pv + sz) (pp + sz) sz ?s1) pv = (ents s pv)\<lparr>elem := (elem (ents s pv))\<lparr>data_ptr := pp\<rparr>\<rparr>"
    using IH by simp
  show ?case
  proof (intro conjI allI impI)
    have "map (spq_pool_ptr pv sz) [0..<Suc n] = pv # map (\<lambda>i. spq_pool_ptr pv sz (Suc i)) [0..<n]"
      by (simp add: upt_conv_Cons map_Suc_upt [symmetric] comp_def p0 del: upt_Suc)
    then show "free_pool (spq_pool_init (Suc n) pv pp sz s) = free_pool s @ map (spq_pool_ptr pv sz) [0..<Suc n]"
      using IH by (simp add: img list_add_tail_def del: upt_Suc)
    show "data_ptr (elem (ents (spq_pool_init (Suc n) pv pp sz s) (spq_pool_ptr pv sz i))) = pp + of_nat i * sz"
      if "i < Suc n" for i
      using IH e0 that by (cases i) (simp_all add: p0 pool_ptr_Suc algebra_simps)
    show "ents (spq_pool_init (Suc n) pv pp sz s) q = ents s q" if q: "q \<notin> spq_pool_ptr pv sz ` {..<Suc n}" for q
    proof -
      have "q \<notin> spq_pool_ptr (pv + sz) sz ` {..<n}" using q by (auto simp: img)
      moreover have "q \<noteq> pv" using q p0 by (metis image_eqI lessThan_iff zero_less_Suc)
      ultimately show ?thesis using IH by simp
    qed
  qed
qed simp

lemma pool_init_frame [simp]:
  "spq_chain (spq_pool_init n pv pp sz s) = spq_chain s" "pending (spq_pool_init n pv pp sz s) = pending s"
  "completion_pending (spq_pool_init n pv pp sz s) = completion_pending s"
  "unlimited_pending (spq_pool_init n pv pp sz s) = unlimited_pending s"
  "kz_results (spq_pool_init n pv pp sz s) = kz_results s"
  "hdr_echo (elem (ents (spq_pool_init n pv pp sz s) q)) = hdr_echo (elem (ents s q))"
  by (induction n arbitrary: pv pp s) auto

lemma pool_card:
  assumes "0 < unat sz" "n * unat sz \<le> 2 ^ 64"
  shows "card (spq_pool_ptr p sz ` {..<n}) = n"
  using card_image [OF pool_ptr_inj [OF assms]] by simp

section \<open>The ring\<close>

definition spq_geom :: qed_chain where
  "spq_geom = alloc_init zero_chain spq_chain_params"

lemma spq_geom_fields:
  "capacity spq_geom = 256" "elem_per_page spq_geom = 256" "elem_per_page_mask spq_geom = 255"
  "usable_per_page spq_geom = 256" "elem_unusable spq_geom = 0" "elem_size spq_geom = 16"
  "page_cnt spq_geom = 1" "mode spq_geom = QED_CHAIN_MODE_SINGLE" "cnt_type spq_geom = QED_CHAIN_CNT_TYPE_U16"
  "intended_use spq_geom = QED_CHAIN_USE_TO_PRODUCE" "next_page_mask spq_geom = 0"
  by (simp_all add: spq_geom_def alloc_init_def alloc_page_cnt_def spq_chain_params_def qed_chain_params_init_def
      qed_chain_init_def zero_chain_def Let_def ELEMS_PER_PAGE_def USABLE_ELEMS_PER_PAGE_def
      UNUSABLE_ELEMS_PER_PAGE_def QED_CHAIN_PAGE_SIZE_def sizeof_slow_path_element_def)

lemma spq_geom_wf: "chain_wf spq_geom"
proof -
  have "\<exists>k\<in>{..15}. (256::nat) = 2 ^ k" by (rule bexI [of _ 8]) simp_all
  then show ?thesis by (simp add: chain_wf_def spq_geom_fields idx_bits_def is_chain_u16_def)
qed

text \<open>A chain on the page at \<open>v\<close>, reset.\<close>

lemma spq_ring_start:
  fixes v p :: u64
  assumes v: "v \<noteq> 0" "unat v + 4096 \<le> 2 ^ 64"
  defines "c \<equiv> qed_chain_init_mem spq_geom v p"
  assumes ch: "geom ch = geom c"
  shows "chain_ring_at mem c [v] (qed_chain_reset ch) 0 0" "unat (capacity c) = SPQ_RING_SIZE"
proof -
  have f: "capacity c = 256" "elem_per_page c = 256" "usable_per_page c = 256" "elem_size c = 16" "page_cnt c = 1"
    "mode c = QED_CHAIN_MODE_SINGLE" "cnt_type c = QED_CHAIN_CNT_TYPE_U16" "p_virt_addr c = v"
    "intended_use c = QED_CHAIN_USE_TO_PRODUCE"
    by (simp_all add: c_def qed_chain_init_mem_def spq_geom_fields)
  have wf: "chain_wf c" by (simp add: c_def chain_wf_init_mem spq_geom_wf)
  have chwf: "chain_wf ch" "p_virt_addr ch = [v] ! 0" "intended_use ch = QED_CHAIN_USE_TO_PRODUCE"
    using wf geom_cong(1) [OF ch] geom_eqD(12,13) [OF ch] f by auto
  have u: "is_chain_u16 c" by (simp add: is_chain_u16_def f)
  have rg: "geom (qed_chain_reset ch) = geom c" using ch by simp
  note at0 = reset_at_0 [OF chwf(1,2)]
  have "cons_at (qed_chain_reset ch) [v] 0" using at0(2) chwf(3) by simp
  then have "unat (cons_idx (chain16 (qed_chain_reset ch))) = 0"
    using u geom_cong(4) [OF rg] by (simp add: cons_at_def at_pos_def)
  moreover have "pages_apart (upp c * esz c) [v]" using v by (simp add: pages_apart_def f)
  moreover have "chain_layout mem c [v]" by (simp add: chain_layout_def f)
  ultimately show "chain_ring_at mem c [v] (qed_chain_reset ch) 0 0"
    using wf u rg at0(1) chwf(3) by (simp add: chain_ring_at_def f)
  show "unat (capacity c) = SPQ_RING_SIZE" by (simp add: f SPQ_RING_SIZE_def)
qed

section \<open>Set up\<close>

lemma spq_setup_inv:
  fixes v p ent_sz off :: u64 and new_cid :: u32 and s :: qed_spq
  assumes v: "v \<noteq> 0" "unat v + 4096 \<le> 2 ^ 64"
    and s: "spq_chain s = qed_chain_reset (qed_chain_init_mem spq_geom v p)"
    and sz: "0 < unat ent_sz" "SPQ_RING_SIZE * unat ent_sz \<le> 2 ^ 64"
  defines "s' \<equiv> qed_spq_setup ent_sz off new_cid s"
    and "g \<equiv> qed_chain_init_mem spq_geom v p"
    and "pool \<equiv> spq_pool_ptr (spq_p_virt s) ent_sz ` {..<SPQ_RING_SIZE}"
    and "bus \<equiv> \<lambda>q. q - spq_p_virt s + (spq_p_phys s + off)"
  shows "spq_ring_inv mem g [v] s' 0 0" "spq_lists pool bus s'" "spq_owned s' = mset_set pool"
    "free_pool s' = map (spq_pool_ptr (spq_p_virt s) ent_sz) [0..<SPQ_RING_SIZE]"
proof -
  have inj: "inj_on (spq_pool_ptr (spq_p_virt s) ent_sz) {..<SPQ_RING_SIZE}" by (rule pool_ptr_inj [OF sz])
  have gm: "geom (spq_chain s) = geom g" by (simp add: s g_def)
  note st = spq_ring_start [OF v, of _ p, folded g_def, OF gm]
  have cap: "unat (qed_chain_get_capacity (spq_chain s)) = SPQ_RING_SIZE"
    using geom_eqD(2) [OF gm] st(2) by (simp add: qed_chain_get_capacity_def)
  let ?s1 = "s\<lparr>pending := [], completion_pending := [], free_pool := [], unlimited_pending := []\<rparr>"
  note pi = pool_init [OF inj, of "spq_p_phys s + off" ?s1]
  have f: "spq_chain s' = qed_chain_reset (spq_chain s)" "pending s' = []" "completion_pending s' = []"
    "unlimited_pending s' = []" "p_comp_bitmap s' = replicate SPQ_RING_SIZE False" "comp_bitmap_idx s' = 0"
    "free_pool s' = map (spq_pool_ptr (spq_p_virt s) ent_sz) [0..<SPQ_RING_SIZE]"
    "i < SPQ_RING_SIZE \<Longrightarrow> data_ptr (elem (ents s' (spq_pool_ptr (spq_p_virt s) ent_sz i))) = spq_p_phys s + off + of_nat i * ent_sz" for i
    using pi cap by (simp_all add: s'_def qed_spq_setup_def Let_def)
  have "\<not> bit_at s' k" for k by (simp add: bit_at_def f)
  then show "spq_ring_inv mem g [v] s' 0 0"
    using st v(1) by (simp add: spq_ring_inv_def spq_window_def f outstanding_def spq_echoes_def)
  have "distinct (free_pool s')" using inj by (simp add: f distinct_map atLeast0LessThan)
  moreover have fp: "set (free_pool s') = pool" by (simp add: f pool_def atLeast0LessThan)
  moreover have "data_ptr (elem (ents s' q)) = bus q" if "q \<in> pool" for q
    using that f(8) by (auto simp: pool_def bus_def spq_pool_ptr_def)
  ultimately show "spq_lists pool bus s'" by (simp add: spq_lists_def f)
  show "spq_owned s' = mset_set pool"
    using \<open>distinct (free_pool s')\<close> fp by (simp add: spq_owned_def f mset_set_set [symmetric] flip: f(7))
  show "free_pool s' = map (spq_pool_ptr (spq_p_virt s) ent_sz) [0..<SPQ_RING_SIZE]" by (fact f(7))
qed

section \<open>Allocation\<close>

lemma spq_params_ok: "params_ok spq_chain_params"
proof -
  have "\<exists>k\<in>{3..15}. (256::nat) = 2 ^ k" by (rule bexI [of _ 8]) simp_all
  then show ?thesis
    by (simp add: params_ok_def spq_chain_params_def qed_chain_params_init_def QED_CHAIN_PAGE_SIZE_def
        sizeof_slow_path_element_def)
qed

lemma spq_sanity: "qed_chain_alloc_sanity_check (par_cnt_type spq_chain_params) (par_elem_size spq_chain_params)
    (par_page_size spq_chain_params) (alloc_page_cnt spq_chain_params) = RC_OK"
  by (simp add: qed_chain_alloc_sanity_check_def alloc_page_cnt_def spq_chain_params_def
      qed_chain_params_init_def QED_CHAIN_PAGE_SIZE_def sizeof_slow_path_element_def ELEMS_PER_PAGE_def Let_def)

lemma spq_chain_alloc:
  "qed_chain_alloc zero_chain spq_chain_params env =
     (case qed_chain_alloc_single spq_geom env of
        (RC_OK, ch2, env2) \<Rightarrow> (RC_OK, ch2, env2)
      | (RC_ERR e, ch2, env2) \<Rightarrow> (RC_ERR e, qed_chain_free ch2 env2))"
proof -
  have "par_mode spq_chain_params = QED_CHAIN_MODE_SINGLE"
    by (simp add: spq_chain_params_def qed_chain_params_init_def)
  then show ?thesis by (simp add: alloc_unfold spq_sanity spq_geom_def)
qed

definition spq_fresh :: "u64 \<Rightarrow> u64 \<Rightarrow> u64 \<Rightarrow> u64 \<Rightarrow> qed_spq" where
  "spq_fresh v p v2 p2 = zero_spq\<lparr>spq_chain := qed_chain_reset (qed_chain_init_mem spq_geom v p),
     spq_p_virt := v2, spq_p_phys := p2\<rparr>"

lemma spq_chain_free:
  "snd (qed_chain_free (qed_chain_reset (qed_chain_init_mem spq_geom v p)) ce) =
     (if v = 0 then ce else dma_free_coherent ce (ucast QED_CHAIN_PAGE_SIZE) v p)"
  "snd (qed_chain_free (fst (qed_chain_free spq_geom ce)) ce) = ce" "snd (qed_chain_free spq_geom ce) = ce"
proof -
  have "mode (qed_chain_reset (qed_chain_init_mem spq_geom v p)) = QED_CHAIN_MODE_SINGLE"
    "p_virt_addr spq_geom = 0" "page_size spq_geom = QED_CHAIN_PAGE_SIZE"
    using geom_eqD(4) [OF reset_geom [of "qed_chain_init_mem spq_geom v p"]]
    by (simp_all add: spq_geom_fields qed_chain_init_mem_def)
      (simp_all add: spq_geom_def spq_chain_params_def qed_chain_params_init_def)
  then show "snd (qed_chain_free (qed_chain_reset (qed_chain_init_mem spq_geom v p)) ce) =
     (if v = 0 then ce else dma_free_coherent ce (ucast QED_CHAIN_PAGE_SIZE) v p)"
    "snd (qed_chain_free (fst (qed_chain_free spq_geom ce)) ce) = ce" "snd (qed_chain_free spq_geom ce) = ce"
    by (simp_all add: qed_chain_free_def qed_chain_free_single_def spq_geom_fields qed_chain_init_mem_def)
qed

lemma spq_alloc_eq:
  "qed_spq_alloc ent_sz False env =
     (case kzalloc_struct env of
        (False, env1) \<Rightarrow> (RC_ERR ENOMEM, None, env1)
      | (True, env1) \<Rightarrow>
          (case dma_alloc_coherent (cenv env1) (ucast QED_CHAIN_PAGE_SIZE) of
             (None, e1) \<Rightarrow> (RC_ERR ENOMEM, None, kfree_struct (env1\<lparr>cenv := e1\<rparr>))
           | (Some (v, p), e1) \<Rightarrow>
               (case dma_alloc_coherent e1 (256 * ucast ent_sz) of
                  (None, e2) \<Rightarrow> (RC_ERR ENOMEM, None, kfree_struct (env1\<lparr>cenv :=
                     if v = 0 then e2 else dma_free_coherent e2 (ucast QED_CHAIN_PAGE_SIZE) v p\<rparr>))
                | (Some (v2, p2), e2) \<Rightarrow> (RC_OK, Some (spq_fresh v p v2 p2), env1\<lparr>cenv := e2\<rparr>))))"
proof -
  have ps: "page_size spq_geom = QED_CHAIN_PAGE_SIZE"
    by (simp add: spq_geom_def spq_chain_params_def qed_chain_params_init_def)
  have cap: "qed_chain_get_capacity (qed_chain_reset (qed_chain_init_mem spq_geom v p)) = 256" for v p
    using geom_eqD(2) [OF reset_geom [of "qed_chain_init_mem spq_geom v p"]]
    by (simp add: qed_chain_get_capacity_def spq_geom_fields qed_chain_init_mem_def)
  have z: "spq_chain zero_spq = zero_chain" by (simp add: zero_spq_def)
  have tw: "snd (qed_chain_free a b) = e" if "qed_chain_free spq_geom e = (a, b)" for a b e
    using that spq_chain_free(2,3) [of e] by simp
  show ?thesis
    unfolding qed_spq_alloc_def z spq_chain_alloc qed_chain_alloc_single_def ps
    by (auto simp: Let_def spq_chain_free cap spq_fresh_def tw split: prod.split option.split bool.split)
qed

lemma dma_alloc_some:
  assumes "dma_alloc_coherent env sz = (Some (v, p), env')"
  shows "Some (v, p) \<in> set (dma_results env)" "dma_results env' = tl (dma_results env)"
    "allocd env' = allocd env @ [Dma v p sz]" "freed env' = freed env"
  using assms by (auto simp: dma_alloc_coherent_def split: list.splits option.splits)

lemma dma_alloc_none:
  assumes "dma_alloc_coherent env sz = (None, env')"
  shows "allocd env' = allocd env" "freed env' = freed env"
  using assms by (auto simp: dma_alloc_coherent_def split: list.splits option.splits)

lemma kzalloc_cases:
  assumes "kzalloc_struct env = (ok, env')"
  shows "cenv env' = cenv env" "st_freed env' = st_freed env" "st_allocd env' = st_allocd env + (if ok then 1 else 0)"
  using assms by (auto simp: kzalloc_struct_def split: list.splits bool.splits)

lemma spq_alloc_ok:
  assumes "qed_spq_alloc ent_sz False env = (RC_OK, s, env')" "dma_sane (dma_results (cenv env))"
  obtains v p v2 p2 where "s = Some (spq_fresh v p v2 p2)" "v \<noteq> 0"
    "Some (v, p) \<in> set (dma_results (cenv env))" "Some (v2, p2) \<in> set (dma_results (cenv env))"
proof -
  have nz: "v \<noteq> 0" if "Some (v, p) \<in> set (dma_results (cenv env))" for v p
    using that assms(2) by (force simp: dma_sane_def set_somes)
  obtain e1 v p c1 v2 p2 c2 where kz: "kzalloc_struct env = (True, e1)"
    and d1: "dma_alloc_coherent (cenv e1) (ucast QED_CHAIN_PAGE_SIZE) = (Some (v, p), c1)"
    and d2: "dma_alloc_coherent c1 (256 * ucast ent_sz) = (Some (v2, p2), c2)" and s: "s = Some (spq_fresh v p v2 p2)"
    using assms(1) unfolding spq_alloc_eq by (auto split: prod.splits option.splits bool.splits)
  note a1 = dma_alloc_some [OF d1] and a2 = dma_alloc_some [OF d2] and k = kzalloc_cases(1) [OF kz]
  have "Some (v2, p2) \<in> set (dma_results (cenv env))" using a2(1) a1(2) k by (metis list.set_sel(2) tl_Nil)
  then show ?thesis using that s a1(1) k nz by metis
qed

lemma spq_alloc_balance:
  assumes "dma_sane (dma_results (cenv env))" "qed_spq_alloc ent_sz is_vf env = (rc, s, env1)"
    and "qed_spq_free ent_sz is_vf s env1 = (s2, env2)"
  shows "\<exists>bl. allocd (cenv env1) = allocd (cenv env) @ bl \<and>
      mset (freed (cenv env2)) = mset (freed (cenv env)) + mset bl \<and>
      st_allocd env1 + st_freed env = st_allocd env + st_freed env2 \<and> s2 = None"
proof -
  obtain ok e1 where kz: "kzalloc_struct env = (ok, e1)" by fastforce
  note k = kzalloc_cases [OF kz]
  have nz: "v \<noteq> 0" if "Some (v, p) \<in> set (dma_results (cenv env))" for v p
    using that assms(1) by (force simp: dma_sane_def set_somes)
  consider "is_vf" | "\<not> is_vf" "\<not> ok" | "\<not> is_vf" ok by blast
  then show ?thesis
  proof cases
    case 1
    then show ?thesis using assms(2,3) kz k
      by (auto simp: qed_spq_alloc_def qed_spq_free_def kfree_struct_def split: if_splits)
  next
    case 2
    then show ?thesis using assms(2,3) kz k by (auto simp: spq_alloc_eq qed_spq_free_def)
  next
    case 3
    then have False: "is_vf = False" and ok: ok by auto
    obtain r1 c1 where d1: "dma_alloc_coherent (cenv e1) (ucast QED_CHAIN_PAGE_SIZE) = (r1, c1)" by fastforce
    show ?thesis
    proof (cases r1)
      case None
      then show ?thesis using assms(2,3) False kz k ok d1 dma_alloc_none [of "cenv e1" _ c1]
        by (auto simp: spq_alloc_eq qed_spq_free_def kfree_struct_def)
    next
      case (Some vp)
      obtain v p where vp: "vp = (v, p)" by fastforce
      note a1 = dma_alloc_some [OF d1 [unfolded Some vp]]
      have v: "v \<noteq> 0" using a1(1) k(1) nz by auto
      obtain r2 c2 where d2: "dma_alloc_coherent c1 (256 * ucast ent_sz) = (r2, c2)" by fastforce
      show ?thesis
      proof (cases r2)
        case None
        then show ?thesis using assms(2,3) False kz k ok d1 Some vp d2 a1 v dma_alloc_none [of c1 _ c2]
          by (auto simp: spq_alloc_eq qed_spq_free_def kfree_struct_def dma_free_coherent_def)
      next
        case (Some vp2)
        obtain v2 p2 where vp2: "vp2 = (v2, p2)" by fastforce
        note a2 = dma_alloc_some [OF d2 [unfolded Some vp2]]
        have "Some (v2, p2) \<in> set (dma_results (cenv env))"
          using a2(1) a1(2) k(1) by (metis list.set_sel(2) tl_Nil)
        then have v2: "v2 \<noteq> 0" using nz by blast
        have "qed_chain_get_capacity (spq_chain (spq_fresh v p v2 p2)) = 256"
          using geom_eqD(2) [OF reset_geom [of "qed_chain_init_mem spq_geom v p"]]
          by (simp add: qed_chain_get_capacity_def spq_geom_fields qed_chain_init_mem_def spq_fresh_def)
        then show ?thesis using assms(2,3) False kz k ok d1 \<open>r1 = Some vp\<close> vp Some vp2 d2 a1 a2 v v2
          by (auto simp: spq_alloc_eq qed_spq_free_def kfree_struct_def dma_free_coherent_def spq_fresh_def
              case_prod_beta spq_chain_free(1) Let_def)
      qed
    qed
  qed
qed

end
