(* ===== verification/Qed_Spq_Eq.thy ===== *)
theory Qed_Spq_Eq
  imports Qed_Spq_Setup
begin

text \<open>
  The wait for a completion, and the loop over the event queue: both end, and what they return
  is determined by what they observe.
\<close>

section \<open>Waiting\<close>

definition obs_hit :: "(nat \<Rightarrow> spq_obs) \<Rightarrow> nat \<Rightarrow> bool" where
  "obs_hit obs t \<longleftrightarrow> obs_recov (obs t) \<or> obs_done (obs t) = 1"

definition obs_code :: "(nat \<Rightarrow> spq_obs) \<Rightarrow> nat \<Rightarrow> u8 option" where
  "obs_code obs t = (if obs_recov (obs t) then None else Some (obs_fw (obs t)))"

lemma poll_hit:
  assumes "t \<le> h" "h < t + n" "obs_hit obs h" "\<And>i. t \<le> i \<Longrightarrow> i < h \<Longrightarrow> \<not> obs_hit obs i"
  shows "spq_poll n obs t = (RC_OK, obs_code obs h, h)"
  using assms
proof (induction n arbitrary: t)
  case (Suc n)
  show ?case
  proof (cases "t = h")
    case True
    then show ?thesis using Suc.prems(3) by (auto simp: obs_hit_def obs_code_def)
  next
    case False
    then have "\<not> obs_hit obs t" using Suc.prems(1,4) by simp
    moreover have "spq_poll n obs (Suc t) = (RC_OK, obs_code obs h, h)"
      using Suc.prems False by (intro Suc.IH) auto
    ultimately show ?thesis by (simp add: obs_hit_def)
  qed
qed simp

lemma poll_miss:
  assumes "\<And>i. t \<le> i \<Longrightarrow> i < t + n \<Longrightarrow> \<not> obs_hit obs i"
  shows "spq_poll n obs t = (RC_ERR EBUSY, None, t + n)"
  using assms
proof (induction n arbitrary: t)
  case (Suc n)
  have "\<not> obs_hit obs t" using Suc.prems by simp
  moreover have "spq_poll n obs (Suc t) = (RC_ERR EBUSY, None, Suc t + n)" using Suc.prems by (intro Suc.IH) auto
  ultimately show ?case by (simp add: obs_hit_def)
qed simp

lemma poll_cases:
  obtains (hit) h where "t \<le> h" "h < t + n" "obs_hit obs h" "\<And>i. t \<le> i \<Longrightarrow> i < h \<Longrightarrow> \<not> obs_hit obs i"
    "spq_poll n obs t = (RC_OK, obs_code obs h, h)"
  | (miss) "\<And>i. t \<le> i \<Longrightarrow> i < t + n \<Longrightarrow> \<not> obs_hit obs i" "spq_poll n obs t = (RC_ERR EBUSY, None, t + n)"
proof (cases "\<exists>i. t \<le> i \<and> i < t + n \<and> obs_hit obs i")
  case True
  define h where "h = (LEAST i. t \<le> i \<and> i < t + n \<and> obs_hit obs i)"
  have h: "t \<le> h \<and> h < t + n \<and> obs_hit obs h" unfolding h_def by (rule LeastI_ex [OF True])
  have "\<not> obs_hit obs i" if "t \<le> i" "i < h" for i
    using not_less_Least [of i "\<lambda>i. t \<le> i \<and> i < t + n \<and> obs_hit obs i"] that h by (auto simp: h_def [symmetric])
  with h show ?thesis using hit [of h] poll_hit [of t h n obs] by blast
qed (use miss poll_miss [of t n obs] in blast)

text \<open>
  The polls a wait makes in all: the short ones unless skipped, then those with sleeps, once more
  after a successful drain.
\<close>

definition block_quick :: "bool \<Rightarrow> nat" where
  "block_quick skip = (if skip then 0 else unat SPQ_BLOCK_DELAY_MAX_ITER)"

definition block_sleep :: "bool \<Rightarrow> qed_spq \<Rightarrow> nat" where
  "block_sleep emul s = unat (spq_iter_cnt emul True s)"

definition block_budget :: "bool \<Rightarrow> qed_spq \<Rightarrow> bool \<Rightarrow> bool \<Rightarrow> rc \<Rightarrow> nat" where
  "block_budget emul s skip ptt drain =
     block_quick skip + block_sleep emul s + (if ptt \<and> drain = RC_OK then block_sleep emul s else 0)"

lemma block_loop_polls:
  "qed_spq_block_loop emul False s obs t = spq_poll (unat SPQ_BLOCK_DELAY_MAX_ITER) obs t"
  "qed_spq_block_loop emul True s obs t = spq_poll (block_sleep emul s) obs t"
  by (simp_all add: qed_spq_block_loop_def block_sleep_def spq_iter_cnt_def Let_def)

lemma block_first:
  assumes "h < block_budget emul s skip ptt drain" "obs_hit obs h" "\<And>i. i < h \<Longrightarrow> \<not> obs_hit obs i"
  shows "qed_spq_block emul s skip ptt drain obs = (RC_OK, obs_code obs h, h)"
proof -
  let ?q = "block_quick skip" and ?n = "block_sleep emul s"
  define r0 where "r0 = (if skip then (RC_ERR EBUSY, None, 0) else spq_poll (unat SPQ_BLOCK_DELAY_MAX_ITER) obs 0)"
  consider "h < ?q" | "?q \<le> h" "h < ?q + ?n" | "?q + ?n \<le> h" by linarith
  then show ?thesis
  proof cases
    case 1
    then have "r0 = (RC_OK, obs_code obs h, h)"
      using poll_hit [of 0 h ?q obs] assms by (auto simp: r0_def block_quick_def split: if_splits)
    then show ?thesis unfolding qed_spq_block_def block_loop_polls r0_def [symmetric] by simp
  next
    case 2
    then have "r0 = (RC_ERR EBUSY, None, ?q)"
      using poll_miss [of 0 ?q obs] assms(3) by (auto simp: r0_def block_quick_def)
    moreover have "spq_poll ?n obs ?q = (RC_OK, obs_code obs h, h)" using 2 assms by (intro poll_hit) auto
    ultimately show ?thesis unfolding qed_spq_block_def block_loop_polls r0_def [symmetric] by simp
  next
    case 3
    then have d: "ptt" "drain = RC_OK" "h < ?q + ?n + ?n" using assms(1) by (auto simp: block_budget_def split: if_splits)
    have "r0 = (RC_ERR EBUSY, None, ?q)"
      using poll_miss [of 0 ?q obs] assms(3) 3 by (auto simp: r0_def block_quick_def)
    moreover have "spq_poll ?n obs ?q = (RC_ERR EBUSY, None, ?q + ?n)" using 3 assms(3) by (intro poll_miss) auto
    moreover have "spq_poll ?n obs (?q + ?n) = (RC_OK, obs_code obs h, h)" using 3 d(3) assms by (intro poll_hit) auto
    ultimately show ?thesis using d unfolding qed_spq_block_def block_loop_polls r0_def [symmetric] by simp
  qed
qed

lemma block_timeout:
  assumes "\<And>i. i < block_budget emul s skip ptt drain \<Longrightarrow> \<not> obs_hit obs i"
    and B_def: "B = block_budget emul s skip ptt drain"
  shows "qed_spq_block emul s skip ptt drain obs =
    (if ptt \<and> drain = RC_OK \<and> obs_done (obs B) = 1 then (RC_OK, Some (obs_fw (obs B)), B)
     else (if ptt \<and> drain \<noteq> RC_OK then drain else RC_ERR EBUSY, None, B))"
proof -
  let ?q = "block_quick skip" and ?n = "block_sleep emul s"
  define r0 where "r0 = (if skip then (RC_ERR EBUSY, None, 0) else spq_poll (unat SPQ_BLOCK_DELAY_MAX_ITER) obs 0)"
  have "r0 = (RC_ERR EBUSY, None, ?q)"
    using poll_miss [of 0 ?q obs] assms(1) by (auto simp: r0_def block_quick_def block_budget_def)
  moreover have "spq_poll ?n obs ?q = (RC_ERR EBUSY, None, ?q + ?n)"
    using assms(1) by (intro poll_miss) (auto simp: block_budget_def)
  moreover have "spq_poll ?n obs (?q + ?n) = (RC_ERR EBUSY, None, ?q + ?n + ?n)" if "ptt" "drain = RC_OK"
    using assms(1) that by (intro poll_miss) (auto simp: block_budget_def)
  ultimately show ?thesis
    unfolding qed_spq_block_def block_loop_polls r0_def [symmetric] B_def block_budget_def by simp
qed

section \<open>The event queue\<close>

text \<open>What one entry does to the log of asynchronous events and to the slow path queue.\<close>

definition eq_dispatch ::
  "bool \<Rightarrow> event_ring_entry \<Rightarrow> (event_ring_entry \<times> async_dest) list \<times> qed_spq \<Rightarrow>
   (event_ring_entry \<times> async_dest) list \<times> qed_spq" where
  "eq_dispatch is_pf e st =
     (if eqe_flags e AND 1 = 1
      then (fst st @ [(e, qed_async_event_completion is_pf e (snd st))], snd st)
      else (fst st, snd (qed_spq_completion (eqe_echo e) (eqe_fw_return_code e) (snd st))))"

lemma eq_one_dispatch:
  assumes "qed_chain_consume mem (eq_chain eq) = (addr, ch)" "addr \<noteq> 0"
  shows "eq_one mem evs is_pf (eq, s) =
    Some (eq\<lparr>eq_chain := qed_chain_recycle_consumed ch,
             eq_async := fst (eq_dispatch is_pf (evs addr) (eq_async eq, s))\<rparr>,
          snd (eq_dispatch is_pf (evs addr) (eq_async eq, s)))"
  using assms by (auto simp: eq_one_def eq_dispatch_def Let_def)

lemma recycle_cons_at: "cons_at (qed_chain_recycle_consumed ch) pages c = cons_at ch pages c"
  by (auto simp: cons_at_def qed_chain_recycle_consumed_def test_and_skip_prod_def Let_def)

text \<open>
  With the consumer at position \<open>c\<close> and the index of the firmware \<open>n\<close> entries ahead, the loop
  handles exactly these entries, in order, and stops.
\<close>

lemma eq_loop_run:
  assumes "chain_wf (eq_chain eq)" "chain_layout mem (eq_chain eq) pages" "cons_at (eq_chain eq) pages c"
    and "is_chain_u16 (eq_chain eq)" "mode (eq_chain eq) \<noteq> QED_CHAIN_MODE_NEXT_PTR"
    and "\<And>k. slot_addr (eq_chain eq) pages k \<noteq> 0" "n < 2 ^ 16" "fw = of_nat (c + n)"
  shows "\<exists>eq' s'. eq_loop mem evs is_pf fw (eq, s) = Some (eq', s') \<and>
    cons_at (eq_chain eq') pages (c + n) \<and> geom (eq_chain eq') = geom (eq_chain eq) \<and>
    (eq_async eq', s') = fold (eq_dispatch is_pf) (map (\<lambda>k. evs (slot_addr (eq_chain eq) pages k)) [c..<c + n]) (eq_async eq, s)"
  using assms
proof (induction n arbitrary: eq s c)
  case 0
  have "epp (eq_chain eq) = upp (eq_chain eq)" using chain_wf_upp(2) [OF 0(1,5)] by simp
  then have "qed_chain_get_cons_idx (eq_chain eq) = of_nat c"
    using 0 chain_wf_pos(1) [OF 0(1)]
    by (simp add: cons_at_def at_pos_def qed_chain_get_cons_idx_def lazy_idx_full word_unat_eq_iff unat_of_nat)
  then show ?case using 0 by (subst eq_loop.simps) simp
next
  case (Suc n)
  let ?ch = "eq_chain eq"
  have "epp ?ch = upp ?ch" using chain_wf_upp(2) [OF Suc.prems(1,5)] by simp
  then have ci: "qed_chain_get_cons_idx ?ch = of_nat c"
    using Suc.prems chain_wf_pos(1) [OF Suc.prems(1)]
    by (simp add: cons_at_def at_pos_def qed_chain_get_cons_idx_def lazy_idx_full word_unat_eq_iff unat_of_nat)
  have ne: "(of_nat (c + Suc n) :: u16) \<noteq> of_nat c"
  proof
    assume "(of_nat (c + Suc n) :: u16) = of_nat c"
    then have "(c + Suc n) mod 2 ^ 16 = c mod 2 ^ 16"
      by (simp only: word_of_nat_eq_iff take_bit_eq_mod) simp
    then have "2 ^ 16 dvd c + Suc n - c" by (subst (asm) mod_eq_dvd_iff_nat) simp_all
    then show False using Suc.prems(7) nat_dvd_not_less [of "Suc n" "2 ^ 16"] by simp
  qed
  note cp = consume_pos [OF Suc.prems(1-3)]
  obtain addr ch1 where co: "qed_chain_consume mem ?ch = (addr, ch1)" by fastforce
  have addr: "addr = slot_addr ?ch pages c" using cp(1) co by simp
  let ?e = "eq_dispatch is_pf (evs addr) (eq_async eq, s)"
  let ?eq1 = "eq\<lparr>eq_chain := qed_chain_recycle_consumed ch1, eq_async := fst ?e\<rparr>"
  have g: "geom (eq_chain ?eq1) = geom ?ch" using consume_geom [of mem ?ch] co by simp
  have "cons_at (eq_chain ?eq1) pages (Suc c)" using cp(2) co by (simp add: recycle_cons_at)
  then have "\<exists>eq' s'. eq_loop mem evs is_pf fw (?eq1, snd ?e) = Some (eq', s') \<and>
    cons_at (eq_chain eq') pages (Suc c + n) \<and> geom (eq_chain eq') = geom (eq_chain ?eq1) \<and>
    (eq_async eq', s') = fold (eq_dispatch is_pf)
      (map (\<lambda>k. evs (slot_addr (eq_chain ?eq1) pages k)) [Suc c..<Suc c + n]) (eq_async ?eq1, snd ?e)"
    using Suc.prems geom_cong(1-4) [OF g] geom_eqD(4) [OF g] by (intro Suc.IH) simp_all
  moreover have "eq_loop mem evs is_pf fw (eq, s) = eq_loop mem evs is_pf fw (?eq1, snd ?e)"
    using ci ne Suc.prems(6,8) addr eq_one_dispatch [OF co, where evs = evs and is_pf = is_pf and s = s]
    by (subst eq_loop.simps) simp
  moreover have "[c..<c + Suc n] = c # [Suc c..<Suc c + n]" by (simp add: upt_conv_Cons)
  ultimately show ?case using g geom_cong(3) [OF g] addr by (simp add: del: upt_Suc)
qed

end
