(* ===== verification/Qed_Chain_Claims.thy ===== *)
theory Qed_Chain_Claims
  imports Qed_Chain_Alloc_Correct
begin

text \<open>
  The properties of the chain component, each with a concrete instance where it has
  hypotheses.
\<close>

section \<open>Sample data\<close>

definition ex_chain :: qed_chain where
  "ex_chain = \<lparr>p_prod_elem = 0, p_cons_elem = 0, pp_virt_addr_tbl = None,
     pbl_u16 = \<lparr>prod_page_idx = 0, cons_page_idx = 0\<rparr>, pbl_u32 = \<lparr>prod_page_idx = 0, cons_page_idx = 0\<rparr>,
     chain16 = \<lparr>prod_idx = 0, cons_idx = 0\<rparr>, chain32 = \<lparr>prod_idx = 0, cons_idx = 0\<rparr>,
     capacity = 0, page_cnt = 0, mode = QED_CHAIN_MODE_PBL, elem_per_page = 0, elem_per_page_mask = 0,
     elem_size = 0, next_page_mask = 0, usable_per_page = 0, elem_unusable = 0,
     cnt_type = QED_CHAIN_CNT_TYPE_U16, page_size = 0, p_phys_table = 0, p_virt_table = 0,
     p_virt_addr = 0, p_phys_addr = 0, chain_size = 0, intended_use = QED_CHAIN_USE_TO_CONSUME_PRODUCE,
     b_external_pbl = False\<rparr>"

definition ex_env :: chain_env where
  "ex_env = \<lparr>dma_results = [Some (0x10000, 0x90000), Some (0x30000, 0xa0000)], vz_results = [True],
     chmem = (\<lambda>_. \<lparr>next_phys = 0, next_virt = 0\<rparr>), pbl_store = (\<lambda>_. 0), allocd = [], freed = []\<rparr>"

definition ex_par :: qed_chain_params where
  "ex_par = qed_chain_params_init QED_CHAIN_USE_TO_CONSUME_PRODUCE QED_CHAIN_MODE_NEXT_PTR
     QED_CHAIN_CNT_TYPE_U16 40 128"

text \<open>A PBL chain of three pages of 256 elements, at given positions of the producer.\<close>

definition ex_pbl :: "u16 \<Rightarrow> u16 \<Rightarrow> u64 \<Rightarrow> qed_chain" where
  "ex_pbl i pg el = ex_chain\<lparr>pp_virt_addr_tbl := Some [0x10000, 0x20000, 0x30000],
     p_virt_addr := 0x10000, elem_size := 16, elem_per_page := 256, elem_per_page_mask := 255,
     usable_per_page := 256, next_page_mask := 0, elem_unusable := 0, page_cnt := 3,
     capacity := 768, page_size := 0x1000,
     chain16 := \<lparr>prod_idx = i, cons_idx = 0\<rparr>, pbl_u16 := \<lparr>prod_page_idx = pg, cons_page_idx = 2\<rparr>,
     p_prod_elem := el, p_cons_elem := 0x10000\<rparr>"

definition ex_pages :: "u64 list" where
  "ex_pages = [0x10000, 0x20000, 0x30000]"

definition ex_mem :: chain_mem where
  "ex_mem = (\<lambda>_. \<lparr>next_phys = 0, next_virt = 0\<rparr>)"

lemma ex_par_ok: "params_ok ex_par"
proof -
  have "\<exists>k\<in>{3..15}. (32::nat) = 2 ^ k" by (rule bexI [of _ 5]) simp_all
  then show ?thesis by (simp add: params_ok_def ex_par_def qed_chain_params_init_def QED_CHAIN_PAGE_SIZE_def)
qed

lemma ex_env_ok: "dma_sane (dma_results ex_env)" "dma_zeroed (chmem ex_env) off (dma_results ex_env)"
  by (simp_all add: dma_sane_def dma_zeroed_def ex_env_def)

lemma ex_alloc_run: "fst (qed_chain_alloc ex_chain ex_par ex_env) = RC_OK"
  by code_simp

lemma ex_pbl_wf: "chain_wf (ex_pbl i pg el)" "chain_layout mem (ex_pbl i pg el) ex_pages"
  "epp (ex_pbl i pg el) = 256" "upp (ex_pbl i pg el) = 256" "pcnt (ex_pbl i pg el) = 3"
  "idx_bits (ex_pbl i pg el) = 16" "unat (capacity (ex_pbl i pg el)) = 768"
  "esz (ex_pbl i pg el) = 16" "is_chain_u16 (ex_pbl i pg el)" "mode (ex_pbl i pg el) = QED_CHAIN_MODE_PBL"
proof -
  have "\<exists>k\<in>{..15}. (256::nat) = 2 ^ k" by (rule bexI [of _ 8]) simp_all
  then show "chain_wf (ex_pbl i pg el)"
    by (simp add: chain_wf_def ex_pbl_def ex_chain_def idx_bits_def is_chain_u16_def)
qed (simp_all add: chain_layout_def ex_pbl_def ex_chain_def idx_bits_def is_chain_u16_def ex_pages_def)

text \<open>A single page chain of 8 byte elements with a next pointer: 2 of 512 elements unusable.\<close>

definition ex_bd_ring :: qed_chain where
  "ex_bd_ring = ex_chain\<lparr>mode := QED_CHAIN_MODE_NEXT_PTR, p_virt_addr := 0x10000, elem_size := 8,
     elem_per_page := 512, elem_per_page_mask := 511, usable_per_page := 510, next_page_mask := 510,
     elem_unusable := 2, page_cnt := 1, capacity := 510, page_size := 0x1000,
     chain16 := \<lparr>prod_idx = 513, cons_idx = 1\<rparr>, p_prod_elem := 0x10008, p_cons_elem := 0x10008\<rparr>"

lemma ex_bd_ring_at: "chain_wf ex_bd_ring" "prod_at ex_bd_ring [0x10000] 511" "cons_at ex_bd_ring [0x10000] 1"
proof -
  have "\<exists>k\<in>{..15}. (512::nat) = 2 ^ k" by (rule bexI [of _ 9]) simp_all
  then show "chain_wf ex_bd_ring"
    by (simp add: chain_wf_def ex_bd_ring_def ex_chain_def idx_bits_def is_chain_u16_def)
  have l: "lazy_idx 510 512 511 = 513" "lazy_idx 510 512 (Suc 0) = 1" by code_simp+
  show "prod_at ex_bd_ring [0x10000] 511" "cons_at ex_bd_ring [0x10000] 1"
    by (simp_all add: prod_at_def cons_at_def at_pos_def elem_ptr_def ex_bd_ring_def ex_chain_def
        is_chain_u16_def l del: lazy_idx.simps)
qed

section \<open>Order and free space\<close>

text \<open>
  C1. A chain fresh from \<open>qed_chain_alloc\<close> is a first-in-first-out ring in all three layouts:
  however produce and consume are interleaved, the producer is handed the slots 0, 1, 2, ... of
  the chain in order, and the consumer the same slots in the same order, so that as long as
  it does not overtake, it sees the elements in the order they were produced.
\<close>

theorem chain_fifo:
  assumes "params_ok par" "dma_sane (dma_results env)"
    and "par_intended_use par \<noteq> QED_CHAIN_USE_TO_CONSUME"
    and alloc: "qed_chain_alloc ch par env = (RC_OK, ch1, env1)"
    and run: "chain_run (chmem env1) ops ch1 = (ps, cs, ch2)"
  shows "(\<exists>pages. distinct pages \<and> chain_layout (chmem env1) ch1 pages \<and>
      ps = map (slot_addr ch1 pages) [0..<length ps] \<and> cs = map (slot_addr ch1 pages) [0..<length cs]) \<and>
    (length cs \<le> length ps \<longrightarrow> cs = take (length cs) ps)"
proof -
  obtain pages where rd: "chain_ready (chmem env1) ch1 pages"
    using chain_alloc_ready(1) [OF assms(1,2) alloc] by blast
  have "intended_use ch1 \<noteq> QED_CHAIN_USE_TO_CONSUME" using alloc_intended_use [OF alloc] assms(3) by simp
  then have pos: "prod_at ch1 pages 0" "cons_at ch1 pages 0" "chain_wf ch1"
    "chain_layout (chmem env1) ch1 pages" "distinct pages" using rd by (auto simp: chain_ready_def)
  have *: "ps = map (slot_addr ch1 pages) [0..<length ps]" "cs = map (slot_addr ch1 pages) [0..<length cs]"
    using chain_run_slots [OF pos(3,4,1,2) run] by simp_all
  moreover have "cs = take (length cs) ps" if "length cs \<le> length ps"
  proof -
    have "take (length cs) ps = take (length cs) (map (slot_addr ch1 pages) [0..<length ps])" using *(1) by simp
    also have "\<dots> = map (slot_addr ch1 pages) [0..<length cs]" using that by (simp add: take_map take_upt)
    finally show ?thesis using *(2) by simp
  qed
  ultimately show ?thesis using pos by blast
qed

theorem chain_fifo_witness:
  "\<exists>ch1 env1 ps cs ch2. qed_chain_alloc ex_chain ex_par ex_env = (RC_OK, ch1, env1) \<and>
     chain_run (chmem env1) [Produce, Produce, Consume] ch1 = (ps, cs, ch2) \<and>
     length ps = 2 \<and> length cs = 1 \<and> cs = take 1 ps"
proof -
  obtain ch1 env1 where r: "qed_chain_alloc ex_chain ex_par ex_env = (RC_OK, ch1, env1)"
    using ex_alloc_run by (metis prod.collapse)
  obtain ps cs ch2 where q: "chain_run (chmem env1) [Produce, Produce, Consume] ch1 = (ps, cs, ch2)"
    by (metis prod_cases3)
  then have l: "length ps = 2" "length cs = 1" by (auto split: prod.splits)
  have "par_intended_use ex_par \<noteq> QED_CHAIN_USE_TO_CONSUME"
    by (simp add: ex_par_def qed_chain_params_init_def)
  from chain_fifo [OF ex_par_ok ex_env_ok(1) this r q] show ?thesis using r q l by auto
qed

text \<open>
  C2. The free element count (\<open>qed_chain_get_elem_left\<close>, \<open>qed_chain_get_elem_left_u32\<close>) on every
  well-formed chain, at either index width and across index wrap-around, with the producer at
  position \<open>p\<close> and the consumer at \<open>c\<close>, at most one round apart (and less than that if the
  chain is as large as the index range). With \<open>free\<close> the capacity less \<open>p - c\<close>, the code reports
  \<open>free\<close> less, on a chain with next pointers, one for each unusable element after the first of
  every page end between the two positions, modulo the range of the index. This is \<open>free\<close>
  exactly if at most one element per page is unusable or no page end lies between them, and
  \<open>free\<close> fits the width of the index.
\<close>

theorem chain_elem_left_exact:
  assumes "chain_wf ch" "prod_at ch pages p" "cons_at ch pages c" "c \<le> p" "p \<le> c + unat (capacity ch)"
    and "epp ch * pcnt ch < 2 ^ idx_bits ch \<or> p < c + unat (capacity ch)"
  shows "let left = (if is_chain_u16 ch then unat (qed_chain_get_elem_left ch)
                     else unat (qed_chain_get_elem_left_u32 ch));
             free = unat (capacity ch) - (p - c); unusable = unat (elem_unusable ch);
             crossed = page_no ch p - page_no ch c
    in int left = (int free - (if mode ch = QED_CHAIN_MODE_NEXT_PTR then (int unusable - 1) * int crossed else 0))
         mod 2 ^ idx_bits ch \<and>
       (left = free \<longleftrightarrow> (unusable \<le> 1 \<or> page_no ch p = page_no ch c) \<and> free < 2 ^ idx_bits ch)"
  using elem_left_gen [OF assms(1,4-6) prod_at_idx [OF assms(2)] cons_at_idx [OF assms(3)]]
    elem_left_exact [OF assms(1,4-6) prod_at_idx [OF assms(2)] cons_at_idx [OF assms(3)]]
  by (simp only: elem_left_nat_def Let_def)

theorem chain_elem_left_exact_witness:
  "unat (qed_chain_get_elem_left (ex_pbl 5 0 0x10050)) = 763 \<and>
   unat (capacity ex_bd_ring) = 510 \<and> unat (qed_chain_get_elem_left ex_bd_ring) = 65535"
proof -
  let ?c = "ex_pbl 5 0 0x10050" and ?d = "ex_bd_ring"
  have at: "prod_at ?c ex_pages 5" "cons_at ?c ex_pages 0"
    by (simp_all add: prod_at_def cons_at_def at_pos_def elem_ptr_def page_pos_def ex_pbl_wf lazy_idx_full)
      (simp_all add: ex_pbl_def ex_pages_def ex_chain_def)
  have u: "elem_unusable ?c = 0" by (simp add: ex_pbl_def)
  have d: "epp ?d = 512" "pcnt ?d = 1" "upp ?d = 510" "unat (capacity ?d) = 510" "elem_unusable ?d = 2"
    "mode ?d = QED_CHAIN_MODE_NEXT_PTR" "is_chain_u16 ?d" "idx_bits ?d = 16"
    by (simp_all add: ex_bd_ring_def ex_chain_def is_chain_u16_def idx_bits_def)
  have pn: "page_no ?d 511 = 1" "page_no ?d (Suc 0) = 0" by (simp_all add: page_no_def d)
  have "unat (qed_chain_get_elem_left ?c) = 763"
    using chain_elem_left_exact [OF ex_pbl_wf(1) at] by (simp add: Let_def ex_pbl_wf u)
  moreover have "int (unat (qed_chain_get_elem_left ?d)) = 65535"
    using chain_elem_left_exact [OF ex_bd_ring_at] by (simp add: Let_def d pn)
  then have "unat (qed_chain_get_elem_left ?d) = 65535" by linarith
  ultimately show ?thesis using d by simp
qed

text \<open>
  C3. A successful \<open>qed_chain_alloc\<close>, in any layout, leaves a well-formed chain: the geometry
  fields are consistent, the pages are distinct and linked (or listed) in a cycle, the
  positions are reset as the intended use asks, and, where the page count follows from the
  request, the capacity is at least the number of elements asked for.
\<close>

theorem chain_alloc_establishes:
  assumes "params_ok par" "dma_sane (dma_results env)"
    and "qed_chain_alloc ch par env = (RC_OK, ch', env')"
  shows "(\<exists>pages. chain_ready (chmem env') ch' pages) \<and>
    (par_mode par \<noteq> QED_CHAIN_MODE_SINGLE \<longrightarrow> unat (num_elems par) \<le> unat (capacity ch'))"
  using chain_alloc_ready [OF assms] by blast

theorem chain_alloc_establishes_witness:
  "\<exists>ch' env' pages. qed_chain_alloc ex_chain ex_par ex_env = (RC_OK, ch', env') \<and>
     chain_ready (chmem env') ch' pages \<and> 40 \<le> unat (capacity ch')"
proof -
  obtain ch1 env1 where r: "qed_chain_alloc ex_chain ex_par ex_env = (RC_OK, ch1, env1)"
    using ex_alloc_run by (metis prod.collapse)
  have "par_mode ex_par \<noteq> QED_CHAIN_MODE_SINGLE" "unat (num_elems ex_par) = 40"
    by (simp_all add: ex_par_def qed_chain_params_init_def)
  then show ?thesis using chain_alloc_establishes [OF ex_par_ok ex_env_ok(1) r] r by auto
qed

text \<open>
  C4. No leak and no double release: whatever the outcomes of the kernel allocations, a failing
  \<open>qed_chain_alloc\<close> has given back each block it obtained exactly once, and a
  \<open>qed_chain_free\<close> after a successful one gives back exactly the blocks it obtained.
\<close>

theorem chain_alloc_free_balance:
  assumes "params_ok par" "dma_sane (dma_results env)"
    and "dma_zeroed (chmem env) (next_elem_off (alloc_init ch par)) (dma_results env)"
    and "qed_chain_alloc ch par env = (rc, ch', env')"
  shows "\<exists>bl. allocd env' = allocd env @ bl \<and>
    mset (freed (if rc = RC_OK then snd (qed_chain_free ch' env') else env')) = mset (freed env) + mset bl"
  by (rule chain_alloc_balance [OF assms])

theorem chain_alloc_free_balance_witness:
  "\<exists>ch' env'. qed_chain_alloc ex_chain ex_par ex_env = (RC_OK, ch', env') \<and>
     mset (freed (snd (qed_chain_free ch' env'))) = mset (allocd env')"
proof -
  obtain ch1 env1 where r: "qed_chain_alloc ex_chain ex_par ex_env = (RC_OK, ch1, env1)"
    using ex_alloc_run by (metis prod.collapse)
  have "allocd ex_env = []" "freed ex_env = []" by (simp_all add: ex_env_def)
  then show ?thesis using chain_alloc_free_balance [OF ex_par_ok ex_env_ok r] r by auto
qed

text \<open>
  Releasing a chain twice is harmless in every layout: after \<open>qed_chain_free\<close> a second
  call frees nothing.
\<close>

theorem chain_free_twice:
  "snd (qed_chain_free (fst (qed_chain_free ch env)) env') = env'"
  by (cases "mode ch")
    (auto simp: qed_chain_free_def qed_chain_free_next_ptr_def qed_chain_free_single_def
      qed_chain_free_pbl_def Let_def split: option.splits)

section \<open>Memory of the slots\<close>

text \<open>
  Two elements handed out within one round never overlap in memory: slots fewer than
  \<open>capacity\<close> positions apart are disjoint ranges of \<open>elem_size\<close> bytes, given pages that do
  not overlap.
\<close>

theorem chain_slots_disjoint:
  assumes "chain_wf ch" "upp ch * esz ch \<le> ps" "length pages = pcnt ch" "pages_apart ps pages" "0 < esz ch"
    and "k < k'" "k' < k + unat (capacity ch)"
  shows "unat (slot_addr ch pages k) + esz ch \<le> unat (slot_addr ch pages k') \<or>
    unat (slot_addr ch pages k') + esz ch \<le> unat (slot_addr ch pages k)"
  by (rule slots_apart [OF assms])

theorem chain_slots_disjoint_witness:
  "unat (slot_addr (ex_pbl 0 2 0) ex_pages 255) + 16 \<le> unat (slot_addr (ex_pbl 0 2 0) ex_pages 256) \<or>
   unat (slot_addr (ex_pbl 0 2 0) ex_pages 256) + 16 \<le> unat (slot_addr (ex_pbl 0 2 0) ex_pages 255)"
proof -
  have "pages_apart 0x1000 ex_pages"
    by (auto simp: pages_apart_def ex_pages_def less_Suc_eq)
  then show ?thesis
    using chain_slots_disjoint [OF ex_pbl_wf(1), of 0 2 0 "0x1000" ex_pages 255 256]
    by (simp add: ex_pbl_wf) (simp add: ex_pages_def)
qed

text \<open>
  \<open>qed_chain_get_last_elem\<close> always returns (its walk along the next pointers ends), and
  what it returns is the last slot of the round, in all three layouts.
\<close>

theorem chain_last_elem:
  assumes "chain_wf ch" "chain_layout mem ch pages" "distinct pages" "p_virt_addr ch \<noteq> 0"
  shows "qed_chain_get_last_elem mem ch = Some (slot_addr ch pages (unat (capacity ch) - 1))"
  by (rule last_elem_slot [OF assms])

theorem chain_last_elem_witness:
  "qed_chain_get_last_elem ex_mem (ex_pbl 0 2 0) = Some 0x30ff0"
proof -
  have "distinct ex_pages" "p_virt_addr (ex_pbl 0 2 0) \<noteq> 0" by (simp_all add: ex_pages_def ex_pbl_def)
  then show ?thesis
    using chain_last_elem [OF ex_pbl_wf(1,2), of 0 2 0 ex_mem]
    by (simp add: ex_pbl_wf slot_addr_def) (simp add: ex_pages_def)
qed

text \<open>
  \<open>qed_chain_get_elem_by_idx\<close> finds, for a single page or a PBL chain, the slot of the index
  modulo the capacity.
\<close>

theorem chain_elem_by_idx:
  assumes "chain_wf ch" "chain_layout mem ch pages" "mode ch \<noteq> QED_CHAIN_MODE_NEXT_PTR"
    and "p_virt_addr ch \<noteq> 0" "epp ch * esz ch \<le> 2 ^ 32"
  shows "qed_chain_get_elem_by_idx mem ch idx = slot_addr ch pages (unat idx mod unat (capacity ch))"
  by (rule elem_by_idx_slot [OF assms])

theorem chain_elem_by_idx_witness:
  "qed_chain_get_elem_by_idx ex_mem (ex_pbl 0 2 0) 1026 = 0x20020"
proof -
  have "p_virt_addr (ex_pbl 0 2 0) \<noteq> 0" "mode (ex_pbl 0 2 0) \<noteq> QED_CHAIN_MODE_NEXT_PTR"
    by (simp_all add: ex_pbl_wf) (simp add: ex_pbl_def)
  then show ?thesis
    using chain_elem_by_idx [OF ex_pbl_wf(1,2), of 0 2 0 ex_mem 1026]
    by (simp add: ex_pbl_wf slot_addr_def) (simp add: ex_pages_def)
qed

section \<open>Rewinding\<close>

text \<open>
  C5. Rewinding: \<open>qed_chain_set_prod\<close> (and \<open>qed_chain_set_cons\<close>) from position \<open>p\<close> back to an earlier
  position \<open>q\<close> at most one round before it, given the index and the element pointer of \<open>q\<close>, on a
  chain smaller than the index range with at most \<open>2 ^ 31\<close> pages. It restores the whole state of
  position \<open>q\<close>, the PBL page index included, exactly if the chain has no 16 bit PBL, or the index
  did not wrap between the two positions, or the number of pages divides
  \<open>2 ^ 32 - 2 ^ 32 / E + 2 ^ 16 / E\<close>, for \<open>E\<close> elements per page. In all other cases the page is wrong.
\<close>

theorem chain_rewind_iff:
  assumes "chain_wf ch" "epp ch * pcnt ch < 2 ^ idx_bits ch" "2 * pcnt ch \<le> 2 ^ 32"
    and "q \<le> p" "p \<le> q + unat (capacity ch)"
    and "unat new = lazy_idx (upp ch) (epp ch) q mod 2 ^ idx_bits ch"
  shows "let right = (\<not> (is_chain_u16 ch \<and> mode ch = QED_CHAIN_MODE_PBL \<and> p mod 2 ^ 16 < q mod 2 ^ 16) \<or>
           pcnt ch dvd (2 ^ 32 - 2 ^ 32 div epp ch + 2 ^ 16 div epp ch))
    in (prod_at ch pages p \<longrightarrow>
         (prod_at (qed_chain_set_prod ch new (elem_ptr ch pages q)) pages q \<longleftrightarrow> right)) \<and>
       (cons_at ch pages p \<longrightarrow>
         (cons_at (qed_chain_set_cons ch new (elem_ptr ch pages q)) pages q \<longleftrightarrow> right))"
  using set_prod_right_iff [OF assms] set_cons_right_iff [OF assms]
  unfolding Let_def rewind_ok_def wrap_error_def by blast

theorem chain_rewind_iff_witness:
  "prod_at (ex_pbl 257 1 0x20010) ex_pages 257 \<and>
   prod_at (qed_chain_set_prod (ex_pbl 257 1 0x20010) 255 (elem_ptr (ex_pbl 257 1 0x20010) ex_pages 255)) ex_pages 255 \<and>
   prod_at (ex_pbl 1 1 0x20010) ex_pages 65537 \<and>
   \<not> prod_at (qed_chain_set_prod (ex_pbl 1 1 0x20010) 65535 (elem_ptr (ex_pbl 1 1 0x20010) ex_pages 65535)) ex_pages 65535"
proof -
  have at: "prod_at (ex_pbl 257 1 0x20010) ex_pages 257" "prod_at (ex_pbl 1 1 0x20010) ex_pages 65537"
    by (simp_all add: prod_at_def at_pos_def elem_ptr_def page_pos_def ex_pbl_wf lazy_idx_full)
      (simp_all add: ex_pbl_def ex_pages_def ex_chain_def)
  have n: "\<not> (3::nat) dvd 2 ^ 32 - 2 ^ 32 div 256 + 2 ^ 16 div 256" by (simp add: dvd_eq_mod_eq_0)
  show ?thesis
    using chain_rewind_iff [OF ex_pbl_wf(1), of 257 1 "0x20010" 255 257 255 ex_pages]
      chain_rewind_iff [OF ex_pbl_wf(1), of 1 1 "0x20010" 65535 65537 65535 ex_pages] at n
    by (simp add: ex_pbl_wf lazy_idx_full Let_def)
qed

end
