(* ===== verification/Qed_Spq_Claims.thy ===== *)
theory Qed_Spq_Claims
  imports Qed_Spq_Eq Qed_Chain_Claims
begin

text \<open>
  The properties of the slow path queue, each with a concrete instance where it has hypotheses.
\<close>

section \<open>Sample data\<close>

definition ex_kmem :: chain_mem where
  "ex_kmem = (\<lambda>_. \<lparr>next_phys = 0, next_virt = 0\<rparr>)"

definition ex_cenv :: chain_env where
  "ex_cenv = \<lparr>dma_results = [Some (0x1000, 0x90000), Some (0x100000, 0xa0000)], vz_results = [],
     chmem = ex_kmem, pbl_store = (\<lambda>_. 0), allocd = [], freed = []\<rparr>"

definition ex_sp_env :: sp_env where
  "ex_sp_env = \<lparr>cenv = ex_cenv, st_results = [True], st_allocd = 0, st_freed = 0\<rparr>"

text \<open>A queue just set up, its ring on the page at 0x1000 and its entries at 0x100000.\<close>

definition ex_fresh :: qed_spq where
  "ex_fresh = spq_fresh 0x1000 0x90000 0x100000 0xa0000"

definition ex_spq :: qed_spq where
  "ex_spq = qed_spq_setup 512 64 7 ex_fresh"

definition ex_pool :: "ptr set" where
  "ex_pool = spq_pool_ptr 0x100000 512 ` {..<SPQ_RING_SIZE}"

definition ex_bus :: "ptr \<Rightarrow> u64" where
  "ex_bus = (\<lambda>q. q - 0x100000 + (0xa0000 + 64))"

definition ex_geom :: qed_chain where
  "ex_geom = qed_chain_init_mem spq_geom 0x1000 0x90000"

lemma ex_alloc: "\<exists>env1. qed_spq_alloc 512 False ex_sp_env = (RC_OK, Some ex_fresh, env1)"
  by (simp add: spq_alloc_eq kzalloc_struct_def ex_sp_env_def ex_cenv_def dma_alloc_coherent_def ex_fresh_def)

lemma ex_dma: "dma_sane (dma_results (cenv ex_sp_env))"
  "\<forall>v p. Some (v, p) \<in> set (dma_results (cenv ex_sp_env)) \<longrightarrow> unat v + 4096 \<le> 2 ^ 64"
  by (simp_all add: dma_sane_def ex_sp_env_def ex_cenv_def)

lemma ex_spq_inv:
  "spq_ring_inv mem ex_geom [0x1000] ex_spq 0 0" "spq_lists ex_pool ex_bus ex_spq"
  "spq_owned ex_spq = mset_set ex_pool"
  "spq_inv mem ex_geom [0x1000] ex_pool ex_bus ex_spq"
  "free_pool ex_spq = map (spq_pool_ptr 0x100000 512) [0..<SPQ_RING_SIZE]"
proof -
  have "spq_chain ex_fresh = qed_chain_reset (qed_chain_init_mem spq_geom 0x1000 0x90000)"
    by (simp add: ex_fresh_def spq_fresh_def)
  note st = spq_setup_inv [OF _ _ this, where ent_sz = 512 and off = 64 and new_cid = 7, folded ex_spq_def ex_geom_def]
  have f: "spq_p_virt ex_fresh = 0x100000" "spq_p_phys ex_fresh = 0xa0000" by (simp_all add: ex_fresh_def spq_fresh_def)
  show *: "spq_ring_inv mem ex_geom [0x1000] ex_spq 0 0" "spq_lists ex_pool ex_bus ex_spq"
    "spq_owned ex_spq = mset_set ex_pool"
    using st by (simp_all add: f SPQ_RING_SIZE_def ex_bus_def flip: ex_pool_def [unfolded SPQ_RING_SIZE_def])
  then show "spq_inv mem ex_geom [0x1000] ex_pool ex_bus ex_spq" by (auto simp: spq_inv_def)
  show "free_pool ex_spq = map (spq_pool_ptr 0x100000 512) [0..<SPQ_RING_SIZE]"
    using st(4) by (simp add: f SPQ_RING_SIZE_def del: upt_Suc)
qed

lemma ex_spq_free: "set (free_pool ex_spq) = ex_pool" "unlimited_pending ex_spq = []" "pending ex_spq = []"
  "completion_pending ex_spq = []" "kz_results ex_spq = []"
proof -
  show *: "unlimited_pending ex_spq = []" "pending ex_spq = []" "completion_pending ex_spq = []" "kz_results ex_spq = []"
    by (simp_all add: ex_spq_def qed_spq_setup_def Let_def ex_fresh_def spq_fresh_def zero_spq_def)
  show "set (free_pool ex_spq) = ex_pool"
    using arg_cong [OF ex_spq_inv(3), of set_mset] * by (simp add: spq_owned_def ex_pool_def)
qed

lemma ex_in_pool: "i < 256 \<Longrightarrow> 0x100000 + of_nat i * 512 \<in> ex_pool"
  by (simp add: ex_pool_def spq_pool_ptr_def SPQ_RING_SIZE_def)

lemma ex_not_pool: "8 \<notin> ex_pool"
proof
  assume "8 \<in> ex_pool"
  then obtain i where i: "i < 256" "8 = spq_pool_ptr 0x100000 512 i" unfolding ex_pool_def SPQ_RING_SIZE_def by blast
  have "unat (of_nat i * 512 :: u64) = i * 512" using i(1) by (simp only: unat_mult_mod unat_of_nat) simp
  then have "unat (spq_pool_ptr 0x100000 512 i) = (0x100000 + i * 512) mod 2 ^ 64"
    unfolding spq_pool_ptr_def unat_add_mod by simp
  also have "\<dots> = 0x100000 + i * 512" using i(1) by simp
  finally have "unat (8 :: u64) = 0x100000 + i * 512" unfolding i(2) .
  then show False by simp
qed

section \<open>Ownership\<close>

text \<open>
  C11. From \<open>qed_spq_alloc\<close> and \<open>qed_spq_setup\<close> on, the threads and the interrupt handler run the
  locked sections of the slow path queue in any order. As long as \<open>spq_ok\<close> holds for each of them,
  the queue never goes wrong: each of the 256 pool entries is on exactly one list or handed
  out, none is lost or duplicated, and the entries on the list of pending completions are
  exactly the outstanding positions of the ring, in posting order.

  \<open>spq_ok\<close> asks that \<open>kzalloc\<close> returns memory that is not in use; that a request that is submitted
  or destroyed is held by its caller; that an entry given back is on no list; that a waiter
  that succeeded finds its entry on no list (which leaves out a wait that ends because a
  recovery started); and that a waiter that gives up finds its ramrod posted and not completed.
  The last leaves out a timeout before the ramrod was posted, which is what the last two
  properties of the component are about, and a completion that arrives between the last look
  of the waiter and its taking of the lock.
\<close>

theorem spq_lifecycle:
  assumes sane: "dma_sane (dma_results (cenv env))"
    and fits: "\<forall>v p. Some (v, p) \<in> set (dma_results (cenv env)) \<longrightarrow> unat v + 4096 \<le> 2 ^ 64"
    and sz: "0 < ent_sz"
    and alloc: "qed_spq_alloc ent_sz False env = (RC_OK, Some s0, env1)"
    and s: "s = (qed_spq_setup (ucast ent_sz) off new_cid s0)\<lparr>kz_results := kz\<rparr>"
    and pool: "pool = set (free_pool s)"
    and run: "run_ok (spq_step mem) (spq_ok pool) ops s"
  shows "card pool = 256 \<and>
    (\<exists>s'. run_opt (spq_step mem) ops s = Some s' \<and>
       spq_owned s' + run_sum (spq_step mem) spq_loss ops s = mset_set pool + run_sum (spq_step mem) spq_gain ops s \<and>
       distinct (free_pool s' @ pending s' @ completion_pending s') \<and>
       set (free_pool s' @ pending s' @ completion_pending s') \<subseteq> pool \<and>
       (\<exists>g pages P C. chain_ring_at mem g pages (spq_chain s') P C \<and>
          spq_echoes s' = map of_nat (outstanding s' P C)))"
proof -
  obtain v p v2 p2 where s0: "Some s0 = Some (spq_fresh v p v2 p2)" and v: "v \<noteq> 0"
    and in_dma: "Some (v, p) \<in> set (dma_results (cenv env))" by (rule spq_alloc_ok [OF alloc sane])
  let ?t = "qed_spq_setup (ucast ent_sz) off new_cid s0"
  have ch: "spq_chain s0 = qed_chain_reset (qed_chain_init_mem spq_geom v p)" using s0 by (simp add: spq_fresh_def)
  have u: "unat (ucast ent_sz :: u64) = unat ent_sz" by (simp add: unat_ucast_le)
  have "unat ent_sz < 2 ^ 32" using unsigned_less [of ent_sz, where 'a = nat] by simp
  then have z: "0 < unat (ucast ent_sz :: u64)" "SPQ_RING_SIZE * unat (ucast ent_sz :: u64) \<le> 2 ^ 64"
    using sz unfolding u by (simp_all add: SPQ_RING_SIZE_def word_less_nat_alt)
  have "unat v + 4096 \<le> 2 ^ 64" using fits in_dma by blast
  note st = spq_setup_inv [OF v this ch z, where off = off and new_cid = new_cid]
  have fp: "set (free_pool ?t) = spq_pool_ptr (spq_p_virt s0) (ucast ent_sz) ` {..<SPQ_RING_SIZE}"
    and l: "unlimited_pending ?t = []" "pending ?t = []" "completion_pending ?t = []"
    using arg_cong [OF st(3), of set_mset] by (simp_all add: spq_owned_def qed_spq_setup_def Let_def)
  have pl: "pool = spq_pool_ptr (spq_p_virt s0) (ucast ent_sz) ` {..<SPQ_RING_SIZE}" using fp by (simp add: pool s)
  let ?bus = "\<lambda>q. q - spq_p_virt s0 + (spq_p_phys s0 + off)" and ?g = "qed_chain_init_mem spq_geom v p"
  have "spq_inv mem ?g [v] pool ?bus ?t" using st(1,2) by (auto simp: spq_inv_def pl)
  then have inv: "spq_inv mem ?g [v] pool ?bus s"
    by (rule spq_inv_cong [rotated -1]) (use st(2) in \<open>simp_all add: s spq_lists_def pl\<close>)
  have ow: "spq_owned s = mset_set pool" using st(3) by (simp add: s spq_owned_def pl)
  from spq.run_conserves [OF inv run] obtain s' where s': "run_opt (spq_step mem) ops s = Some s'"
    "spq_inv mem ?g [v] pool ?bus s'"
    "spq_owned s' + run_sum (spq_step mem) spq_loss ops s = spq_owned s + run_sum (spq_step mem) spq_gain ops s" by blast
  moreover have "card pool = 256" using pool_card [OF z] by (simp add: pl SPQ_RING_SIZE_def)
  moreover have "distinct (free_pool s' @ pending s' @ completion_pending s')"
    "set (free_pool s' @ pending s' @ completion_pending s') \<subseteq> pool"
    "\<exists>g pages P C. chain_ring_at mem g pages (spq_chain s') P C \<and> spq_echoes s' = map of_nat (outstanding s' P C)"
    using s'(2) unfolding spq_inv_def spq_lists_def spq_ring_inv_def spq_window_def by blast+
  ultimately show ?thesis using ow by auto
qed

definition ex_dat :: qed_sp_init_data where
  "ex_dat = \<lparr>init_cid = 3, init_opaque_fid = 1, init_comp_mode = QED_SPQ_MODE_CB, p_comp_data = None\<rparr>"

lemma ex_spq_hd: "\<exists>qs. free_pool ex_spq = 0x100000 # qs"
  using ex_spq_inv(5) by (simp add: SPQ_RING_SIZE_def upt_conv_Cons spq_pool_ptr_def)

text \<open>The queue after a request was obtained and submitted.\<close>

definition ex_asked :: qed_spq where
  "ex_asked = snd (qed_sp_init_request 5 3 ex_dat ex_spq)"

definition ex_sent :: qed_spq where
  "ex_sent = snd (snd (spq_submit ex_kmem 0x100000 ex_asked))"

lemma ex_sent:
  "held ex_pool 0x100000 ex_asked"
  "completion_pending ex_sent = [0x100000]" "pending ex_sent = []" "0x100000 \<notin> set (free_pool ex_sent)"
  "hdr_echo (elem (ents ex_sent 0x100000)) = 0" "queue (ents ex_sent 0x100000) = Q_pending"
  "comp_mode (ents ex_sent 0x100000) = QED_SPQ_MODE_CB"
proof -
  obtain qs where qs: "free_pool ex_spq = 0x100000 # qs" using ex_spq_hd by blast
  have "distinct (free_pool ex_spq)" using ex_spq_inv(2) by (simp add: spq_lists_def)
  then have n: "0x100000 \<notin> set qs" by (simp add: qs)
  have f: "free_pool ex_asked = qs" "pending ex_asked = []" "unlimited_pending ex_asked = []"
    "completion_pending ex_asked = []" "queue (ents ex_asked 0x100000) = Q_pending"
    "priority (ents ex_asked 0x100000) = QED_SPQ_PRIORITY_NORMAL"
    "comp_mode (ents ex_asked 0x100000) = QED_SPQ_MODE_CB" "spq_chain ex_asked = spq_chain ex_spq"
    "p_comp_bitmap ex_asked = p_comp_bitmap ex_spq" "comp_bitmap_idx ex_asked = comp_bitmap_idx ex_spq"
    by (simp_all add: ex_asked_def qed_sp_init_request_def qed_spq_get_entry_def qs Let_def sp_fill_hdr_def
        sp_fill_cb_def ex_dat_def upd_ent_def ex_spq_free list_del_def)
  have "kz_fresh ex_pool ex_spq" by (simp add: kz_fresh_def ex_spq_free)
  from init_request_inv [OF ex_spq_inv(4) this, where cmd = 5 and proto = 3 and dat = ex_dat]
  have inv: "spq_inv ex_kmem ex_geom [0x1000] ex_pool ex_bus ex_asked" by (simp add: ex_asked_def)
  then have l: "spq_lists ex_pool ex_bus ex_asked" by (simp add: spq_inv_def)
  have ri: "spq_ring_inv ex_kmem ex_geom [0x1000] ex_asked 0 0"
    using ex_spq_inv(1) ring_inv_cong [of ex_asked ex_spq] f by (simp add: spq_echoes_def ex_spq_free)
  show h: "held ex_pool 0x100000 ex_asked" using n ex_in_pool [of 0] by (simp add: held_def f)
  obtain rc w where sub: "spq_submit ex_kmem 0x100000 ex_asked = (rc, w, ex_sent)" by (metis ex_sent_def prod.collapse)
  from submit_lands [OF l ri h f(3) _ _ sub refl] f
  show s: "completion_pending ex_sent = [0x100000]" "pending ex_sent = []"
    "hdr_echo (elem (ents ex_sent 0x100000)) = 0" "queue (ents ex_sent 0x100000) = Q_pending"
    "comp_mode (ents ex_sent 0x100000) = QED_SPQ_MODE_CB" by auto
  have "spq_inv ex_kmem ex_geom [0x1000] ex_pool ex_bus ex_sent"
    using submit_inv(3) [OF inv h] by (simp add: ex_sent_def)
  then show "0x100000 \<notin> set (free_pool ex_sent)" using s(1) by (auto simp: spq_inv_def spq_lists_def)
qed

definition ex_life :: "spq_op list" where
  "ex_life = [Op_init 5 3 ex_dat, Op_submit 0x100000, Op_complete 0, Op_callback 0x100000 0, Op_return 0x100000]"

definition ex_late :: "spq_op list" where
  "ex_late = [Op_init 5 3 ex_dat, Op_submit 0x100000, Op_after 0x100000 (RC_ERR EBUSY)]"

lemma ex_life_ok:
  "run_ok (spq_step ex_kmem) (spq_ok (set (free_pool ex_spq))) ex_life ex_spq"
  "run_ok (spq_step ex_kmem) (spq_ok (set (free_pool ex_spq))) ex_late ex_spq"
proof -
  have p: "0x100000 \<in> ex_pool" using ex_in_pool [of 0] by simp
  have k: "kz_fresh ex_pool ex_spq" by (simp add: kz_fresh_def ex_spq_free)
  define t where "t = snd (snd (spq_completion_locked 0 ex_sent))"
  have t: "free_pool t = free_pool ex_sent" "pending t = []"
    "completion_pending t = []"
    by (simp_all add: t_def completion_locked_unfold ex_sent list_del_def)
  then have "0x100000 \<notin> set (free_pool (spq_run_cb 0x100000 0 t)) \<union> set (pending (spq_run_cb 0x100000 0 t)) \<union>
      set (completion_pending (spq_run_cb 0x100000 0 t))"
    using ex_sent(4) by (auto simp: spq_run_cb_def qed_spq_blocking_cb_def Let_def split: spq_cb.splits spq_cookie.splits)
  note t = this
  show "run_ok (spq_step ex_kmem) (spq_ok (set (free_pool ex_spq))) ex_life ex_spq"
    unfolding ex_spq_free(1) using p k ex_sent t
    by (simp add: ex_life_def flip: ex_asked_def ex_sent_def t_def)
  show "run_ok (spq_step ex_kmem) (spq_ok (set (free_pool ex_spq))) ex_late ex_spq"
    unfolding ex_spq_free(1) using p k ex_sent
    by (simp add: ex_late_def wait_target_def split: option.split flip: ex_asked_def ex_sent_def)
qed

theorem spq_lifecycle_witness:
  "(\<exists>s'. run_opt (spq_step ex_kmem) ex_life ex_spq = Some s' \<and>
     spq_owned s' + run_sum (spq_step ex_kmem) spq_loss ex_life ex_spq =
       mset_set ex_pool + run_sum (spq_step ex_kmem) spq_gain ex_life ex_spq) \<and>
   (\<exists>s'. run_opt (spq_step ex_kmem) ex_late ex_spq = Some s' \<and>
     spq_owned s' + run_sum (spq_step ex_kmem) spq_loss ex_late ex_spq =
       mset_set ex_pool + run_sum (spq_step ex_kmem) spq_gain ex_late ex_spq)"
proof -
  obtain env1 where al: "qed_spq_alloc 512 False ex_sp_env = (RC_OK, Some ex_fresh, env1)" using ex_alloc by blast
  have e: "ex_spq = (qed_spq_setup (ucast (512 :: u32)) 64 7 ex_fresh)\<lparr>kz_results := []\<rparr>"
    using ex_spq_free(5) by (simp add: ex_spq_def)
  from spq_lifecycle [OF ex_dma _ al e refl ex_life_ok(1)] spq_lifecycle [OF ex_dma _ al e refl ex_life_ok(2)]
  show ?thesis unfolding ex_spq_free(1) by fastforce
qed

section \<open>Posting\<close>

text \<open>A queue with one pending ramrod, that of the first pool entry.\<close>

definition ex_pend :: qed_spq where
  "ex_pend = ex_spq\<lparr>pending := [0x100000], free_pool := tl (free_pool ex_spq)\<rparr>"

lemma ex_pend_inv: "spq_lists ex_pool ex_bus ex_pend" "spq_ring_inv ex_kmem ex_geom [0x1000] ex_pend 0 0"
proof -
  obtain qs where "free_pool ex_spq = 0x100000 # qs" using ex_spq_hd by blast
  then show "spq_lists ex_pool ex_bus ex_pend"
    using ex_spq_inv(2) by (auto simp: spq_lists_def ex_pend_def ex_spq_free)
  have "spq_echoes ex_pend = spq_echoes ex_spq" by (simp add: ex_pend_def spq_echoes_def)
  then show "spq_ring_inv ex_kmem ex_geom [0x1000] ex_pend 0 0"
    using ex_spq_inv(1) ring_inv_cong [of ex_pend ex_spq] by (simp add: ex_pend_def)
qed

text \<open>
  C12. \<open>qed_spq_pend_post\<close> posts the pending ramrods first come first served, as many as fit
  with one element kept in reserve. They go to the slots from the producer position on, each
  with its position as echo; no slot of a ramrod that has not completed is written; and when
  it stops, nothing is pending or only the reserve is left.
\<close>

theorem spq_post_order:
  assumes inv: "spq_lists pool bus s" "spq_ring_inv mem g pages s P C"
    and s1: "s1 = spq_refill s" and run: "qed_spq_pend_post mem s = (rc, s')"
    and n: "n = min (length (pending s1)) (255 - (P - C))"
  shows "rc = RC_OK \<and> spq_ring_inv mem g pages s' (P + n) C \<and>
    pending s' = drop n (pending s1) \<and>
    completion_pending s' = completion_pending s @ take n (pending s1) \<and>
    (\<forall>i<n. spq_ring s' (slot_addr g pages (P + i)) = elem (ents s' (pending s1 ! i)) \<and>
           hdr_echo (elem (ents s' (pending s1 ! i))) = of_nat (P + i)) \<and>
    (\<forall>k. C \<le> k \<and> k < P \<longrightarrow> spq_ring s' (slot_addr g pages k) = spq_ring s (slot_addr g pages k)) \<and>
    (pending s' = [] \<or> unat (qed_chain_get_elem_left (spq_chain s')) \<le> 1)"
proof -
  have si: "spq_inv mem g pages pool bus s" using inv by (auto simp: spq_inv_def)
  note rf = refill_inv [OF si, folded s1]
  have ri: "spq_ring_inv mem g pages s1 P C" and l: "spq_lists pool bus s1"
    using rf inv(2) by (auto simp: spq_inv_def)
  have rs: "unat SPQ_HIGH_PRI_RESERVE_DEFAULT = 1" by (simp add: SPQ_HIGH_PRI_RESERVE_DEFAULT_def)
  have n': "n = min (length (pending s1)) (SPQ_RING_SIZE - unat SPQ_HIGH_PRI_RESERVE_DEFAULT - (P - C))"
    by (simp add: n rs SPQ_RING_SIZE_def)
  have "distinct (pending s1 @ completion_pending s1)" using l by (simp add: spq_lists_def)
  note pl = post_list_inv [OF ri this n']
  have e: "qed_spq_post_list mem SPQ_HIGH_PRI_RESERVE_DEFAULT s1 = (rc, s')"
    using run by (simp add: qed_spq_pend_post_def s1)
  have po: "posted g pages n P s1 s'" and ri2: "spq_ring_inv mem g pages s' (P + n) C" and rc: "rc = RC_OK"
    using pl by (simp_all add: e)
  have win: "spq_window mem g pages s' (P + n) C" using ri2 by (simp add: spq_ring_inv_def)
  have keep: "spq_ring s' (slot_addr g pages k) = spq_ring s (slot_addr g pages k)" if "C \<le> k" "k < P" for k
  proof -
    have "slot_addr g pages k \<noteq> slot_addr g pages j" if "j \<in> {P..<P + n}" for j
      using cring.slot_inj [of mem g pages "spq_chain s'" "P + n" C k j] win window_le [OF win] \<open>C \<le> k\<close> \<open>k < P\<close> that
      by (simp add: spq_window_def)
    then have "slot_addr g pages k \<notin> slot_addr g pages ` {P..<P + n}" by blast
    then show ?thesis using po rf by (simp add: posted_def)
  qed
  have left: "unat (qed_chain_get_elem_left (spq_chain s')) = 256 - (P + n - C)"
    using cring.left_at [of mem g pages "spq_chain s'" "P + n" C] win by (simp add: spq_window_def SPQ_RING_SIZE_def)
  have "pending s' = [] \<or> unat (qed_chain_get_elem_left (spq_chain s')) \<le> 1"
  proof (cases "length (pending s1) \<le> 255 - (P - C)")
    case True
    then show ?thesis using po by (simp add: posted_def n)
  next
    case False
    then have "n = 255 - (P - C)" by (simp add: n)
    moreover have "C \<le> P" using window_le ri unfolding spq_ring_inv_def by blast
    ultimately show ?thesis using left by linarith
  qed
  then show ?thesis using rc ri2 po keep rf by (simp add: posted_def)
qed

theorem spq_post_order_witness:
  "\<exists>s'. qed_spq_pend_post ex_kmem ex_pend = (RC_OK, s') \<and> spq_ring_inv ex_kmem ex_geom [0x1000] s' 1 0 \<and>
     pending s' = [] \<and> completion_pending s' = [0x100000] \<and>
     spq_ring s' (slot_addr ex_geom [0x1000] 0) = elem (ents s' 0x100000) \<and> hdr_echo (elem (ents s' 0x100000)) = 0"
proof -
  obtain rc s' where r: "qed_spq_pend_post ex_kmem ex_pend = (rc, s')" by fastforce
  have u: "unlimited_pending ex_pend = []" "pending ex_pend = [0x100000]" "completion_pending ex_pend = []"
    by (simp_all add: ex_pend_def ex_spq_free)
  have "ex_pend = spq_refill ex_pend" using u by (subst spq_refill.simps) simp
  moreover have "1 = min (length (pending ex_pend)) (255 - (0 - 0))" by (simp add: u)
  ultimately show ?thesis using spq_post_order [OF ex_pend_inv _ r] r u by auto
qed

text \<open>
  C13. A ramrod submitted while no request waits for a pool entry, with room on the ring for it and
  for everything that is pending, and with a free pool entry if the request was allocated
  outside the pool, reaches the firmware as the caller built it: the pending ramrods are posted,
  this one before them if it has high priority and after them otherwise. The element in its slot
  has the header of the request, the position as echo, and the bus address of the entry that
  now holds the ramrod data of the request, also when it had to be copied into a pool entry.
\<close>

theorem spq_submit_reaches_ring:
  assumes "spq_lists pool bus s" "spq_ring_inv mem g pages s P C" "held pool p s"
    and "unlimited_pending s = []" "length (pending s) + (P - C) < 255"
    and "queue (ents s p) = Q_unlimited_pending \<longrightarrow> free_pool s \<noteq> []"
    and "spq_submit mem p s = (rc, wait, s')"
    and "k = (case priority (ents s p) of QED_SPQ_PRIORITY_HIGH \<Rightarrow> 0 | QED_SPQ_PRIORITY_NORMAL \<Rightarrow> length (pending s))"
  shows "rc = RC_OK \<and> pending s' = [] \<and> (\<exists>q el. q \<in> pool \<and>
    completion_pending s' = completion_pending s @ take k (pending s) @ q # drop k (pending s) \<and>
    el = spq_ring s' (slot_addr g pages (P + k)) \<and> hdr_echo el = of_nat (P + k) \<and> data_ptr el = bus q \<and>
    ramrod (ents s' q) = ramrod (ents s p) \<and> hdr_cid el = hdr_cid (elem (ents s p)) \<and>
    hdr_cmd_id el = hdr_cmd_id (elem (ents s p)) \<and> hdr_protocol_id el = hdr_protocol_id (elem (ents s p)))"
  using submit_lands [OF assms] by blast

theorem spq_submit_reaches_ring_witness:
  "\<exists>rc wait s' q el. spq_submit ex_kmem 8 (upd_ent 8 (\<lambda>_. zero_entry\<lparr>queue := Q_unlimited_pending\<rparr>) ex_spq) = (rc, wait, s') \<and>
     rc = RC_OK \<and> completion_pending s' = [q] \<and> el = spq_ring s' (slot_addr ex_geom [0x1000] 0) \<and> data_ptr el = ex_bus q"
proof -
  let ?f = "\<lambda>_ :: qed_spq_entry. zero_entry\<lparr>queue := Q_unlimited_pending\<rparr>"
  let ?s = "upd_ent 8 ?f ex_spq"
  have p: "8 \<notin> ex_pool" by (rule ex_not_pool)
  have inv: "spq_inv ex_kmem ex_geom [0x1000] ex_pool ex_bus ?s"
    by (rule upd_ent_inv(1) [OF ex_spq_inv(4)]) (simp_all add: p ex_spq_free)
  have "spq_echoes ?s = spq_echoes ex_spq" by (simp add: spq_echoes_def ex_spq_free)
  then have ri: "spq_ring_inv ex_kmem ex_geom [0x1000] ?s 0 0"
    using ex_spq_inv(1) ring_inv_cong [of ?s ex_spq] by simp
  have h: "held ex_pool 8 ?s" using p by (simp add: held_def ex_spq_free)
  have fp: "free_pool ?s \<noteq> []" using ex_spq_free(1) ex_in_pool [of 0] by auto
  obtain rc wait s' where r: "spq_submit ex_kmem 8 ?s = (rc, wait, s')" by (metis prod_cases3)
  have l: "spq_lists ex_pool ex_bus ?s" using inv by (simp add: spq_inv_def)
  from spq_submit_reaches_ring [OF l ri h _ _ _ r refl] fp r show ?thesis
    by (auto simp: ex_spq_free zero_entry_def)
qed

section \<open>Completions\<close>

text \<open>A queue with one ramrod, that of the first pool entry, posted at position 0.\<close>

definition ex_one :: qed_spq where
  "ex_one = (snd (qed_spq_post_list ex_kmem 1 ex_pend))\<lparr>drop_next_completion := False\<rparr>"

lemma ex_one_inv:
  "spq_ring_inv ex_kmem ex_geom [0x1000] ex_one 1 0" "completion_pending ex_one = [0x100000]" "pending ex_one = []"
  "outstanding ex_one 1 0 = [0]" "hdr_echo (elem (ents ex_one 0x100000)) = 0"
  "\<And>q. q \<noteq> 0x100000 \<Longrightarrow> ents ex_one q = ents ex_spq q" "drop_next_completion ex_one = False"
proof -
  note ri = ex_pend_inv(2)
  have d: "distinct (pending ex_pend @ completion_pending ex_pend)" by (simp add: ex_pend_def ex_spq_free)
  have "1 = min (length (pending ex_pend)) (SPQ_RING_SIZE - unat (1 :: u32) - (0 - 0))"
    by (simp add: ex_pend_def SPQ_RING_SIZE_def)
  note pl = post_list_inv [OF ri d this]
  let ?t = "snd (qed_spq_post_list ex_kmem 1 ex_pend)"
  have po: "posted ex_geom [0x1000] 1 0 ex_pend ?t" using pl by blast
  have "bit_at ex_one = bit_at ?t" "spq_echoes ex_one = spq_echoes ?t"
    by (simp_all add: fun_eq_iff bit_at_def ex_one_def spq_echoes_def)
  then show "spq_ring_inv ex_kmem ex_geom [0x1000] ex_one 1 0" "outstanding ex_one 1 0 = [0]"
    using pl ring_inv_cong [of ex_one ?t] by (simp_all add: ex_one_def outstanding_def)
  show "completion_pending ex_one = [0x100000]" "pending ex_one = []" "hdr_echo (elem (ents ex_one 0x100000)) = 0"
    "\<And>q. q \<noteq> 0x100000 \<Longrightarrow> ents ex_one q = ents ex_spq q"
    using po by (simp_all add: posted_def ex_pend_def ex_spq_free ex_one_def)
qed (simp add: ex_one_def)

text \<open>
  C14. A completion event is matched to its ramrod by the echo. If the echo is that of an
  outstanding position, exactly the entry posted there is taken off the list, its position is no
  longer outstanding, and the ring gets back the completed positions in front of the first one
  still outstanding, no more. Any other echo is refused with \<open>-EEXIST\<close> and changes nothing.
\<close>

theorem spq_completion_exact:
  assumes inv: "spq_ring_inv mem g pages s P C" and nd: "\<not> drop_next_completion s"
    and run: "spq_completion_locked echo s = (rc, found, s')"
  shows "if \<exists>k\<in>set (outstanding s P C). echo = of_nat k
    then \<exists>k p C'. k \<in> set (outstanding s P C) \<and> echo = of_nat k \<and> rc = RC_OK \<and> found = Some p \<and>
      p \<in> set (completion_pending s) \<and> hdr_echo (elem (ents s p)) = echo \<and>
      completion_pending s' = list_del p (completion_pending s) \<and>
      spq_ring_inv mem g pages s' P C' \<and> outstanding s' P C' = remove1 k (outstanding s P C) \<and>
      C \<le> C' \<and> (\<forall>j. C \<le> j \<and> j < C' \<longrightarrow> j = k \<or> j \<notin> set (outstanding s P C)) \<and>
      (C' = P \<or> C' \<in> set (outstanding s' P C'))
    else rc = RC_ERR EEXIST \<and> found = None \<and> s' = s"
proof (cases "\<exists>k\<in>set (outstanding s P C). echo = of_nat k")
  case False
  then have "find (\<lambda>p. hdr_echo (elem (ents s p)) = echo) (completion_pending s) = None"
    using find_echo(1) [OF inv] by blast
  then show ?thesis using run False by (simp add: completion_locked_unfold)
next
  case True
  then obtain k where k: "k \<in> set (outstanding s P C)" "echo = of_nat k" by blast
  obtain p where fd: "find (\<lambda>p. hdr_echo (elem (ents s p)) = echo) (completion_pending s) = Some p"
    using find_echo(1) [OF inv, of echo] True by blast
  note p = find_echo(2) [OF inv fd]
  from retire_inv [OF inv _ k(1), of p] p k(2) obtain C' where C': "C \<le> C'" "C' \<le> P"
    "spq_ring_inv mem g pages (retire p echo s) P C'" "outstanding (retire p echo s) P C' = remove1 k (outstanding s P C)"
    "\<forall>j. C \<le> j \<and> j < C' \<longrightarrow> j = k \<or> bit_at s j" by auto
  have r: "rc = RC_OK" "found = Some p" "s' = (retire p echo s)\<lparr>comp_count := comp_count (retire p echo s) + 1\<rparr>"
    using run fd nd by (simp_all add: completion_locked_unfold)
  have "bit_at s' = bit_at (retire p echo s)" "spq_echoes s' = spq_echoes (retire p echo s)"
    by (simp_all add: fun_eq_iff bit_at_def r spq_echoes_def)
  then have ri: "spq_ring_inv mem g pages s' P C'" "outstanding s' P C' = remove1 k (outstanding s P C)"
    using C'(3,4) ring_inv_cong [of s' "retire p echo s"] by (simp_all add: r outstanding_def)
  moreover have "C' = P \<or> C' \<in> set (outstanding s' P C')"
    using ri(1) C'(2) by (auto simp: spq_ring_inv_def outstanding_iff)
  moreover have "completion_pending s' = list_del p (completion_pending s)" by (simp add: r)
  moreover have "\<forall>j. C \<le> j \<and> j < C' \<longrightarrow> j = k \<or> j \<notin> set (outstanding s P C)"
    using C'(5) by (auto simp: outstanding_iff)
  ultimately show ?thesis unfolding if_P [OF True] using k p r(1,2) C'(1) by blast
qed

theorem spq_completion_exact_witness:
  "\<exists>rc found s' p C'. spq_completion_locked 0 ex_one = (rc, found, s') \<and> rc = RC_OK \<and> found = Some p \<and>
     p \<in> set (completion_pending ex_one) \<and> outstanding s' 1 C' = []"
proof -
  obtain rc found s' where r: "spq_completion_locked 0 ex_one = (rc, found, s')" by (metis prod_cases3)
  have nd: "\<not> drop_next_completion ex_one" by (simp add: ex_one_inv)
  from spq_completion_exact [OF ex_one_inv(1) nd r] show ?thesis unfolding ex_one_inv(4) using r by auto
qed

text \<open>
  C15. The order in which the firmware completes the ramrods does not matter: whatever the order
  of their completions, once every outstanding ramrod has completed, no completion is pending
  and the whole ring is free again.
\<close>

theorem spq_out_of_order:
  assumes "spq_ring_inv mem g pages s P C" "\<not> drop_next_completion s"
    and "mset ks = mset (outstanding s P C)"
    and "s' = fold (\<lambda>k t. snd (snd (spq_completion_locked (of_nat k) t))) ks s"
  shows "completion_pending s' = [] \<and> spq_ring_inv mem g pages s' P P \<and>
    unat (qed_chain_get_elem_left (spq_chain s')) = 256"
  using assms
proof (induction ks arbitrary: s C)
  case Nil
  then have o: "outstanding s P C = []" and e: "s' = s" by auto
  have win: "spq_window mem g pages s P C" using Nil(1) by (simp add: spq_ring_inv_def)
  have "C \<notin> set (outstanding s P C)" using o by simp
  then have "C = P" using window_le [OF win] Nil(1) by (simp add: outstanding_iff spq_ring_inv_def)
  moreover have "completion_pending s = []" using Nil(1) o by (simp add: spq_ring_inv_def spq_echoes_def)
  moreover have "unat (qed_chain_get_elem_left (spq_chain s)) = SPQ_RING_SIZE"
    using cring.left_at [of mem g pages "spq_chain s" P C] win \<open>C = P\<close> by (simp add: spq_window_def)
  ultimately show ?case using Nil(1) e by (simp add: SPQ_RING_SIZE_def)
next
  case (Cons k ks)
  have k: "k \<in> set (outstanding s P C)" using Cons.prems(3) by (metis list.set_intros(1) mset_eq_setD)
  obtain p where fd: "find (\<lambda>p. hdr_echo (elem (ents s p)) = of_nat k) (completion_pending s) = Some p"
    using find_echo(1) [OF Cons.prems(1), of "of_nat k"] k by blast
  note p = find_echo(2) [OF Cons.prems(1) fd]
  let ?r = "retire p (of_nat k) s" and ?t = "snd (snd (spq_completion_locked (of_nat k) s))"
  from retire_inv [OF Cons.prems(1) _ k, of p] p obtain C' where C':
    "spq_ring_inv mem g pages ?r P C'" "outstanding ?r P C' = remove1 k (outstanding s P C)" by auto
  have t: "?t = ?r\<lparr>comp_count := comp_count ?r + 1\<rparr>" using fd Cons.prems(2) by (simp add: completion_locked_unfold)
  have "bit_at ?t = bit_at ?r" "spq_echoes ?t = spq_echoes ?r" by (simp_all add: fun_eq_iff bit_at_def t spq_echoes_def)
  then have ri: "spq_ring_inv mem g pages ?t P C'" "outstanding ?t P C' = remove1 k (outstanding s P C)"
    using C' ring_inv_cong [of ?t ?r] by (simp_all add: t outstanding_def)
  have "\<not> drop_next_completion ?t" using Cons.prems(2) by (simp add: t)
  moreover have "mset ks = mset (outstanding ?t P C')"
    using Cons.prems(3) ri(2) by (metis add_mset_remove_trivial mset.simps(2) mset_remove1)
  moreover have "s' = fold (\<lambda>k t. snd (snd (spq_completion_locked (of_nat k) t))) ks ?t" using Cons.prems(4) by simp
  ultimately show ?case using Cons.IH [OF ri(1)] by blast
qed

theorem spq_out_of_order_witness:
  "completion_pending (fold (\<lambda>k t. snd (snd (spq_completion_locked (of_nat k) t))) [0] ex_one) = []"
  using spq_out_of_order [OF ex_one_inv(1) _ _ refl, of "[0]"] ex_one_inv(4,7) by simp

section \<open>Waiting\<close>

text \<open>
  C16. The wait of a blocking ramrod is bounded and its outcome determined by what it observes:
  it makes at most the configured number of polls (10 short ones, unless skipped, and the
  sleeping ones, twice if the drain succeeds); it succeeds exactly if one of them, or the last
  look after the drain, sees the completion or a recovery; it stops at the first such poll and
  reports the firmware code read there.
\<close>

theorem spq_block_returns:
  assumes "r = qed_spq_block emul s skip ptt drain obs" "B = block_budget emul s skip ptt drain"
  shows "snd (snd r) \<le> B \<and>
    (fst r = RC_OK \<longleftrightarrow> (\<exists>t<B. obs_hit obs t) \<or> (ptt \<and> drain = RC_OK \<and> obs_done (obs B) = 1)) \<and>
    (\<forall>t<B. obs_hit obs t \<and> (\<forall>i<t. \<not> obs_hit obs i) \<longrightarrow> r = (RC_OK, obs_code obs t, t))"
proof (cases "\<exists>t<B. obs_hit obs t")
  case True
  define h where "h = (LEAST t. t < B \<and> obs_hit obs t)"
  have h: "h < B" "obs_hit obs h" using LeastI_ex [OF True] by (simp_all add: h_def)
  have f: "\<not> obs_hit obs i" if "i < h" for i
    using not_less_Least [of i "\<lambda>t. t < B \<and> obs_hit obs t"] that h by (auto simp: h_def [symmetric])
  have r: "r = (RC_OK, obs_code obs h, h)" using block_first [of h emul s skip ptt drain obs] h f assms by simp
  have "t = h" if "obs_hit obs t" "\<forall>i<t. \<not> obs_hit obs i" for t using that h f by (metis linorder_neqE_nat)
  then show ?thesis using r h by auto
next
  case False
  have r: "r = (if ptt \<and> drain = RC_OK \<and> obs_done (obs B) = 1 then (RC_OK, Some (obs_fw (obs B)), B)
     else (if ptt \<and> drain \<noteq> RC_OK then drain else RC_ERR EBUSY, None, B))"
    using block_timeout [of emul s skip ptt drain obs B] False assms by auto
  then show ?thesis using False by auto
qed

theorem spq_block_returns_witness:
  "fst (qed_spq_block False (ex_spq\<lparr>block_sleep_max_iter := 200\<rparr>) False True RC_OK
     (\<lambda>t. \<lparr>obs_recov = False, obs_done = (if t = 100 then 1 else 0), obs_fw = 3\<rparr>)) = RC_OK"
proof -
  let ?s = "ex_spq\<lparr>block_sleep_max_iter := 200\<rparr>"
  let ?o = "\<lambda>t :: nat. \<lparr>obs_recov = False, obs_done = (if t = 100 then 1 else 0), obs_fw = 3\<rparr>"
  have "block_budget False ?s False True RC_OK = 410"
    by (simp add: block_budget_def block_quick_def block_sleep_def spq_iter_cnt_def SPQ_BLOCK_DELAY_MAX_ITER_def)
  moreover have "obs_hit ?o 100" by (simp add: obs_hit_def)
  ultimately have "\<exists>t<block_budget False ?s False True RC_OK. obs_hit ?o t" by (intro exI [of _ 100]) simp
  then show ?thesis using spq_block_returns [OF refl refl, of False ?s False True RC_OK ?o] by blast
qed

section \<open>The event queue\<close>

text \<open>
  C17. \<open>qed_eq_completion\<close> returns for every index the firmware may publish: less than 65536
  entries of the event ring are handled, exactly those between the consumer and that index, in
  ring order, each dispatched to the slow path queue or to the asynchronous handlers, and
  then the pending ramrods are posted.
\<close>

theorem eq_completion_returns:
  assumes "chain_wf (eq_chain eq)" "chain_layout mem (eq_chain eq) pages" "cons_at (eq_chain eq) pages c"
    and "is_chain_u16 (eq_chain eq)" "mode (eq_chain eq) = QED_CHAIN_MODE_PBL"
    and "\<forall>k. slot_addr (eq_chain eq) pages k \<noteq> 0"
  shows "\<exists>n<2 ^ 16. fw = of_nat (c + n) \<and>
    (\<exists>eq' s1. qed_eq_completion mem spq_mem evs is_pf fw eq (Some s) =
        Some (fst (qed_spq_pend_post spq_mem s1), eq', Some (snd (qed_spq_pend_post spq_mem s1))) \<and>
      cons_at (eq_chain eq') pages (c + n) \<and>
      (eq_async eq', s1) = fold (eq_dispatch is_pf)
        (map (\<lambda>k. evs (slot_addr (eq_chain eq) pages k)) [c..<c + n]) (eq_async eq, s))"
proof -
  have "fw = of_nat (c + unat (fw - of_nat c))" by simp
  moreover define n where "n = unat (fw - of_nat c :: u16)"
  ultimately have fw: "fw = of_nat (c + n)" by simp
  have n: "n < 2 ^ 16" unfolding n_def using unsigned_less [of "fw - of_nat c :: u16", where 'a = nat] by simp
  have m: "mode (eq_chain eq) \<noteq> QED_CHAIN_MODE_NEXT_PTR" using assms(5) by simp
  have "elem_unusable (eq_chain eq) = 0" using assms(1,5) by (auto simp: chain_wf_def)
  then have u: "qed_chain_get_unusable_per_page (eq_chain eq) = 0" by (simp add: qed_chain_get_unusable_per_page_def)
  have nz: "\<And>k. slot_addr (eq_chain eq) pages k \<noteq> 0" using assms(6) by blast
  obtain eq1 s1 where l: "eq_loop mem evs is_pf fw (eq, s) = Some (eq1, s1)" "cons_at (eq_chain eq1) pages (c + n)"
    "(eq_async eq1, s1) = fold (eq_dispatch is_pf) (map (\<lambda>k. evs (slot_addr (eq_chain eq) pages k)) [c..<c + n]) (eq_async eq, s)"
    using eq_loop_run [OF assms(1-4) m nz n fw, of evs is_pf s] by blast
  have "qed_eq_completion mem spq_mem evs is_pf fw eq (Some s) =
      Some (fst (qed_spq_pend_post spq_mem s1), eq1\<lparr>eq_prod := qed_chain_get_prod_idx (eq_chain eq1)\<rparr>,
            Some (snd (qed_spq_pend_post spq_mem s1)))"
    using l(1) by (simp add: qed_eq_completion_def u Let_def split: prod.split)
  then show ?thesis using n fw l(2,3)
    by (intro exI [of _ n] conjI) (auto intro!: exI [of _ "eq1\<lparr>eq_prod := qed_chain_get_prod_idx (eq_chain eq1)\<rparr>"])
qed

definition ex_eq :: qed_eq where
  "ex_eq = \<lparr>eq_chain = ex_pbl 0 2 0x10000, eq_async = [], eq_prod = 0\<rparr>"

definition ex_evs :: "u64 \<Rightarrow> event_ring_entry" where
  "ex_evs = (\<lambda>_. \<lparr>eqe_protocol_id = 8, eqe_opcode = 0, eqe_flags = 0, eqe_fw_return_code = 0, eqe_vf_id = 0xff, eqe_echo = 0\<rparr>)"

lemma ex_pages_nonzero: "slot_addr (ex_pbl i pg el) ex_pages k \<noteq> 0"
proof -
  have ap: "pages_apart 4096 ex_pages" by (auto simp: pages_apart_def ex_pages_def less_Suc_eq nth_Cons')
  have e: "0 < esz (ex_pbl i pg el)" "upp (ex_pbl i pg el) * esz (ex_pbl i pg el) \<le> 4096" by (simp_all add: ex_pbl_wf)
  have len: "length ex_pages = pcnt (ex_pbl i pg el)" by (simp add: ex_pbl_wf ex_pages_def)
  have "k div 256 mod 3 < 3" by simp
  then have "k div 256 mod 3 = 0 \<or> k div 256 mod 3 = 1 \<or> k div 256 mod 3 = 2" by linarith
  then have "0 < unat (ex_pages ! (k div 256 mod 3))" by (auto simp: ex_pages_def)
  then have "0 < unat (slot_addr (ex_pbl i pg el) ex_pages k)"
    using slot_unat [OF ex_pbl_wf(1) e(2) len ap e(1), of k] by (simp only: ex_pbl_wf)
  then show ?thesis by auto
qed

theorem eq_completion_returns_witness:
  "\<exists>n<2 ^ 16. (3 :: u16) = of_nat (0 + n) \<and>
     (\<exists>r. qed_eq_completion ex_mem ex_kmem ex_evs True 3 ex_eq (Some ex_one) = Some r)"
proof -
  have c: "eq_chain ex_eq = ex_pbl 0 2 0x10000" by (simp add: ex_eq_def)
  have "cons_at (eq_chain ex_eq) ex_pages 0"
    by (simp add: c cons_at_def at_pos_def elem_ptr_def page_pos_def ex_pbl_wf)
      (simp add: ex_pbl_def ex_pages_def ex_chain_def)
  note w = eq_completion_returns [OF _ _ this, of ex_mem 3 ex_kmem ex_evs True ex_one, unfolded c, folded c]
  have "chain_wf (eq_chain ex_eq)" "chain_layout ex_mem (eq_chain ex_eq) ex_pages" "is_chain_u16 (eq_chain ex_eq)"
    "mode (eq_chain ex_eq) = QED_CHAIN_MODE_PBL" "\<forall>k. slot_addr (eq_chain ex_eq) ex_pages k \<noteq> 0"
    by (simp_all add: c ex_pbl_wf ex_pages_nonzero)
  from w [OF this] show ?thesis by blast
qed

section \<open>Allocation\<close>

text \<open>
  C18. Allocation and release of the slow path queue balance whatever allocation fails: the
  blocks obtained are exactly those given back once \<open>qed_spq_free\<close> has run (after a failure it
  finds nothing to free), and so is the structure itself.
\<close>

theorem spq_alloc_free_balance:
  assumes "dma_sane (dma_results (cenv env))"
    and "qed_spq_alloc ent_sz is_vf env = (rc, s, env1)" "qed_spq_free ent_sz is_vf s env1 = (s2, env2)"
  shows "s2 = None \<and> st_allocd env1 + st_freed env = st_allocd env + st_freed env2 \<and>
    (\<exists>bl. allocd (cenv env1) = allocd (cenv env) @ bl \<and>
          mset (freed (cenv env2)) = mset (freed (cenv env)) + mset bl)"
  using spq_alloc_balance [OF assms] by blast

theorem spq_alloc_free_balance_witness:
  "\<exists>rc s env1 s2 env2. qed_spq_alloc 512 False ex_sp_env = (rc, s, env1) \<and>
     qed_spq_free 512 False s env1 = (s2, env2) \<and> s2 = None \<and> st_freed env2 = st_allocd env1"
proof -
  obtain rc s env1 where a: "qed_spq_alloc 512 False ex_sp_env = (rc, s, env1)" by (metis prod_cases3)
  obtain s2 env2 where f: "qed_spq_free 512 False s env1 = (s2, env2)" by fastforce
  from spq_alloc_free_balance [OF ex_dma(1) a f] a f show ?thesis by (auto simp: ex_sp_env_def)
qed

section \<open>Defects\<close>

text \<open>
  C19. A blocking ramrod that times out while it still waits for room in the ring is treated as if
  it had been posted: \<open>qed_spq_post\<close> marks the position of the echo its entry has from an
  earlier use as completed. When this is the oldest outstanding position, the ring element
  of another ramrod, which the firmware has not completed, is given back as free.
\<close>

theorem spq_timeout_before_post_defect:
  assumes "spq_ring_inv mem g pages s P C" "C < P"
    and "queue (ents s q) = Q_pending" "q \<in> set (pending s)" "q \<notin> set (completion_pending s)"
    and "hdr_echo (elem (ents s q)) = of_nat C"
  shows "\<exists>s'. spq_after_block q (RC_ERR EBUSY) s = Some s' \<and>
    completion_pending s' = completion_pending s \<and> C \<in> set (outstanding s P C) \<and>
    unat (qed_chain_get_elem_left (spq_chain s)) < unat (qed_chain_get_elem_left (spq_chain s'))"
proof -
  let ?t = "s\<lparr>pending := list_del q (pending s)\<rparr>"
  have win: "spq_window mem g pages s P C" and nb: "\<not> bit_at s C" using assms(1) by (auto simp: spq_ring_inv_def)
  have "bit_at ?t = bit_at s" by (simp add: fun_eq_iff bit_at_def)
  then have wt: "spq_window mem g pages ?t P C" using win by (simp add: spq_window_def)
  note b = bmap_set_window [OF wt order_refl assms(2)]
  let ?m = "SPQ_COMP_BMAP_SET_BIT (of_nat C) ?t"
  from advance_window [OF b(1)] obtain C' where C': "C \<le> C'" "C' \<le> P"
    "spq_window mem g pages (comp_bmap_advance ?m) P C'" "\<not> bit_at (comp_bmap_advance ?m) C'"
    "\<forall>k. C' \<le> k \<and> k < P \<longrightarrow> bit_at (comp_bmap_advance ?m) k = bit_at ?m k" by blast
  have "C < C'" using C' b(2) [of C] assms(2) by (cases "C' = C") auto
  have cp: "list_del q (completion_pending s) = completion_pending s"
    using assms(5) by (simp add: list_del_def remove1_idem)
  let ?s' = "qed_spq_return_entry q (comp_bmap_advance ?m)"
  have "s\<lparr>pending := list_del q (pending s), completion_pending := completion_pending s\<rparr> = ?t" by simp
  then have "spq_after_block q (RC_ERR EBUSY) s = Some ?s'"
    using assms(3,4,6) cp by (simp add: spq_after_block_def Let_def qed_spq_comp_bmap_update_def)
  moreover have "completion_pending ?s' = completion_pending s"
    by (simp add: qed_spq_return_entry_def SPQ_COMP_BMAP_SET_BIT_def)
  moreover have "unat (qed_chain_get_elem_left (spq_chain s)) < unat (qed_chain_get_elem_left (spq_chain ?s'))"
    using cring.left_at [of mem g pages "spq_chain s" P C] cring.left_at [of mem g pages "spq_chain (comp_bmap_advance ?m)" P C']
      win C'(1-3) \<open>C < C'\<close> window_le [OF win] by (simp add: spq_window_def qed_spq_return_entry_def)
  moreover have "C \<in> set (outstanding s P C)" using assms(2) nb by (simp add: outstanding_iff)
  ultimately show ?thesis by blast
qed

text \<open>A second blocking entry, not yet posted, while the first is outstanding at position 0.\<close>

definition ex_wait :: qed_spq where
  "ex_wait = (upd_ent 0x100200 (\<lambda>e. e\<lparr>queue := Q_pending\<rparr>) ex_one)\<lparr>pending := [0x100200]\<rparr>"

theorem spq_timeout_before_post_defect_witness:
  "\<exists>s'. spq_after_block 0x100200 (RC_ERR EBUSY) ex_wait = Some s' \<and>
    completion_pending s' = completion_pending ex_wait \<and> 0 \<in> set (outstanding ex_wait 1 0) \<and>
    unat (qed_chain_get_elem_left (spq_chain ex_wait)) < unat (qed_chain_get_elem_left (spq_chain s'))"
proof -
  have "spq_echoes ex_wait = spq_echoes ex_one" by (simp add: ex_wait_def spq_echoes_def)
  then have ri: "spq_ring_inv ex_kmem ex_geom [0x1000] ex_wait 1 0"
    using ex_one_inv(1) ring_inv_cong [of ex_wait ex_one] by (simp add: ex_wait_def)
  have "hdr_echo (elem (ents ex_wait 0x100200)) = of_nat 0"
    by (simp add: ex_one_inv(6) ex_wait_def ex_spq_def qed_spq_setup_def Let_def ex_fresh_def spq_fresh_def zero_spq_def zero_entry_def)
  then show ?thesis using spq_timeout_before_post_defect [OF ri] ex_one_inv(2) by (simp add: ex_wait_def)
qed

text \<open>
  C20. A blocking ramrod allocated outside the pool that times out before a pool entry becomes
  free has no posted entry: \<open>qed_spq_post\<close> frees it while it is still linked on
  \<open>unlimited_pending\<close>, and then follows a NULL pointer.
\<close>

theorem spq_timeout_unlimited_defect:
  assumes "spq_inv mem g pages pool bus s" "held pool p s" "free_pool s = []"
    and "queue (ents s p) = Q_unlimited_pending" "comp_mode (ents s p) = QED_SPQ_MODE_EBLOCK" "post_ent (ents s p) = None"
    and "spq_submit mem p s = (rc, wait, s')"
  shows "rc = RC_OK \<and> wait \<and> p \<in> set (unlimited_pending s') \<and> spq_after_block p (RC_ERR EBUSY) s' = None"
proof -
  obtain f where f: "qed_spq_fill_entry p s = upd_ent p f s" "\<And>e. elem (f e) = elem e"
    "\<And>e. queue (f e) = queue e" "\<And>e. comp_mode (f e) = comp_mode e" "\<And>e. post_ent (f e) = post_ent e"
    by (rule fill_entry_upd [of p s]) blast
  define a where "a = qed_spq_add_entry p (priority (ents (upd_ent p f s) p)) (upd_ent p f s)"
  have a: "unlimited_pending a = unlimited_pending s @ [p]" "free_pool a = []" "ents a = ents (upd_ent p f s)"
    using assms(3,4) f(3) by (simp_all add: a_def qed_spq_add_entry_def list_add_tail_def)
  have it: "spq_inv mem g pages pool bus (upd_ent p f s)" by (rule upd_ent_inv [OF assms(1)]) (simp_all add: f)
  have "held pool p (upd_ent p f s)" using assms(2) f(3) by (auto simp: held_def split: if_splits)
  then have "spq_inv mem g pages pool bus a" unfolding a_def by (rule add_entry_cases(1) [OF it])
  then obtain P C where ri: "spq_ring_inv mem g pages a P C" and l: "spq_lists pool bus a" by (auto simp: spq_inv_def)
  have refill: "spq_refill a = a" using a(2) by (subst spq_refill.simps) simp
  have d: "distinct (pending a @ completion_pending a)" using l by (simp add: spq_lists_def)
  note pl = post_list_inv [OF ri d refl, of SPQ_HIGH_PRI_RESERVE_DEFAULT]
  have "qed_spq_pend_post mem a = (rc, s') \<and> wait = (rc = RC_OK \<and> comp_mode (ents s p) = QED_SPQ_MODE_EBLOCK)"
    using assms(7) f(4) unfolding spq_submit_def f(1) Let_def a_def by (auto split: prod.splits)
  then have e: "qed_spq_post_list mem SPQ_HIGH_PRI_RESERVE_DEFAULT a = (rc, s')" and w: "wait = (rc = RC_OK)"
    using assms(5) by (auto simp: qed_spq_pend_post_def refill)
  then have "rc = RC_OK" "but_echo (ents a p) (ents s' p)" "unlimited_pending s' = unlimited_pending a"
    using pl by (simp_all add: posted_def)
  moreover have "queue (ents s' p) = Q_unlimited_pending" "post_ent (ents s' p) = None"
    using but_echo_fields(1,7) [OF calculation(2)] a(3) f(3,5) assms(4,6) by simp_all
  ultimately show ?thesis using w a(1) by (simp add: spq_after_block_def Let_def)
qed

theorem spq_timeout_unlimited_defect_witness:
  "\<exists>rc wait s'. spq_submit ex_kmem 8 (upd_ent 8 (\<lambda>_. zero_entry\<lparr>queue := Q_unlimited_pending, comp_mode := QED_SPQ_MODE_EBLOCK\<rparr>)
       (ex_spq\<lparr>free_pool := []\<rparr>)) = (rc, wait, s') \<and> wait \<and> spq_after_block 8 (RC_ERR EBUSY) s' = None"
proof -
  let ?f = "\<lambda>_ :: qed_spq_entry. zero_entry\<lparr>queue := Q_unlimited_pending, comp_mode := QED_SPQ_MODE_EBLOCK\<rparr>"
  let ?e = "ex_spq\<lparr>free_pool := []\<rparr>"
  have "spq_inv ex_kmem ex_geom [0x1000] ex_pool ex_bus ?e"
    by (rule spq_inv_cong [OF _ _ _ _ _ _ ex_spq_inv(4)]) (use ex_spq_inv(2) in \<open>simp_all add: spq_lists_def\<close>)
  then have i: "spq_inv ex_kmem ex_geom [0x1000] ex_pool ex_bus (upd_ent 8 ?f ?e)"
    by (rule upd_ent_inv) (simp_all add: ex_not_pool ex_spq_free)
  have h: "held ex_pool 8 (upd_ent 8 ?f ?e)" by (simp add: held_def ex_not_pool ex_spq_free)
  obtain rc wait s' where r: "spq_submit ex_kmem 8 (upd_ent 8 ?f ?e) = (rc, wait, s')" by (metis prod_cases3)
  from spq_timeout_unlimited_defect [OF i h _ _ _ _ r] r show ?thesis by (auto simp: zero_entry_def)
qed

end
