(* ===== verification/Qed_Hw.thy ===== *)
theory Qed_Hw
  imports Qed_Prelude
begin

unbundle bit_operations_syntax

text \<open>
  Register access through the PTT windows of the PCI BAR: \<open>qed_hw.c\<close>, first half. The chip's
  internal registers (the GRC space) are reached through twelve windows of 4 KB each. A PTT
  entry (\<open>struct qed_ptt\<close>) is the driver's copy of one window: where it points and which
  function it pretends to be. The theory models the pool of the entries, the moving of a
  window, single register reads and writes, block copies and the pretend commands.

  The device itself is a parameter: a state of type \<open>'d\<close> and the functions of a \<open>bus\<close> that say
  how it answers to an access of the BAR (\<open>REG_WR\<close>, \<open>REG_RD\<close>), to the passing of time
  (\<open>udelay\<close>) and to accesses of the memory it shares with the driver. Words are those of a little
  endian host, on which \<open>cpu_to_le32\<close> and its relatives are the identity.
\<close>

section \<open>Constants and fields\<close>

definition PXP_PF_WINDOW_ADMIN_START :: u32 where "PXP_PF_WINDOW_ADMIN_START = 0"
definition PXP_PF_WINDOW_ADMIN_PER_PF_START :: u32 where "PXP_PF_WINDOW_ADMIN_PER_PF_START = 0"
definition PXP_PF_WINDOW_ADMIN_GLOBAL_START :: u32 where "PXP_PF_WINDOW_ADMIN_GLOBAL_START = 0x200"
definition PXP_GLOBAL_ENTRY_SIZE :: u32 where "PXP_GLOBAL_ENTRY_SIZE = 4"
definition PXP_EXTERNAL_BAR_PF_WINDOW_START :: u32 where "PXP_EXTERNAL_BAR_PF_WINDOW_START = 0x1000"
definition PXP_EXTERNAL_BAR_PF_WINDOW_NUM :: nat where "PXP_EXTERNAL_BAR_PF_WINDOW_NUM = 12"
definition PXP_EXTERNAL_BAR_PF_WINDOW_SINGLE_SIZE :: u32 where
  "PXP_EXTERNAL_BAR_PF_WINDOW_SINGLE_SIZE = 0x1000"
definition QED_BAR_INVALID_OFFSET :: u32 where "QED_BAR_INVALID_OFFSET = - 1"
definition QED_BAR_ACQUIRE_TIMEOUT :: nat where "QED_BAR_ACQUIRE_TIMEOUT = 1000"
definition GRC_REG_TRACE_FIFO_VALID_DATA :: u32 where "GRC_REG_TRACE_FIFO_VALID_DATA = 0x050064"

text \<open>The entries of the pool that are taken by design, never from the free list.\<close>

datatype reserved_ptts =
  RESERVED_PTT_EDIAG | RESERVED_PTT_USER_SPACE | RESERVED_PTT_MAIN | RESERVED_PTT_DPC | RESERVED_PTT_MAX

primrec reserved_idx :: "reserved_ptts \<Rightarrow> nat" where
  "reserved_idx RESERVED_PTT_EDIAG = 0"
| "reserved_idx RESERVED_PTT_USER_SPACE = 1"
| "reserved_idx RESERVED_PTT_MAIN = 2"
| "reserved_idx RESERVED_PTT_DPC = 3"
| "reserved_idx RESERVED_PTT_MAX = 4"

text \<open>
  \<open>SET_FIELD\<close> and \<open>GET_FIELD\<close>: a field is a mask and a shift. The value is widened to 64 bits,
  masked, shifted and truncated to the width of the word it goes into.
\<close>

definition SET_FIELD :: "'n::len word \<Rightarrow> nat \<times> nat \<Rightarrow> u64 \<Rightarrow> 'n word" where
  "SET_FIELD value name flag = (case name of (msk, sh) \<Rightarrow>
     (value AND NOT (push_bit sh (of_nat msk))) OR ucast (push_bit sh (flag AND of_nat msk)))"

definition GET_FIELD :: "'n::len word \<Rightarrow> nat \<times> nat \<Rightarrow> 'n word" where
  "GET_FIELD value name = (case name of (msk, sh) \<Rightarrow> drop_bit sh value AND of_nat msk)"

definition FIELD_VALUE :: "nat \<times> nat \<Rightarrow> u8 \<Rightarrow> u16" where
  "FIELD_VALUE name v = (case name of (msk, sh) \<Rightarrow> push_bit sh (ucast v AND of_nat msk))"

definition PXP_PRETEND_CMD_USE_PORT :: "nat \<times> nat" where "PXP_PRETEND_CMD_USE_PORT = (1, 1)"
definition PXP_PRETEND_CMD_PORT :: "nat \<times> nat" where "PXP_PRETEND_CMD_PORT = (3, 2)"
definition PXP_PRETEND_CMD_PRETEND_PORT :: "nat \<times> nat" where "PXP_PRETEND_CMD_PRETEND_PORT = (1, 13)"
definition PXP_PRETEND_CMD_PRETEND_FUNCTION :: "nat \<times> nat" where
  "PXP_PRETEND_CMD_PRETEND_FUNCTION = (1, 14)"
definition PXP_PRETEND_CMD_IS_CONCRETE :: "nat \<times> nat" where "PXP_PRETEND_CMD_IS_CONCRETE = (1, 15)"
definition PXP_CONCRETE_FID_PFID :: "nat \<times> nat" where "PXP_CONCRETE_FID_PFID = (0xF, 0)"
definition PXP_CONCRETE_FID_VFVALID :: "nat \<times> nat" where "PXP_CONCRETE_FID_VFVALID = (1, 7)"
definition PXP_CONCRETE_FID_VFID :: "nat \<times> nat" where "PXP_CONCRETE_FID_VFID = (0xFF, 8)"
definition PXP_PRETEND_CONCRETE_FID_PFID :: "nat \<times> nat" where
  "PXP_PRETEND_CONCRETE_FID_PFID = (0xF, 0)"

text \<open>The content of the global windows, and the chip revisions that run on an emulator or FPGA.\<close>

definition pxp_global_win :: "u32 list" where
  "pxp_global_win = [0, 0, 0x1c02, 0x1c80, 0x1d00, 0x1d01, 0x1d02, 0x1d80, 0x1d81, 0x1d82,
     0x1e00, 0x1e01, 0x1e80, 0x1f00, 0x1c08, 0, 0, 0, 0]"

definition CHIP_REV_IS_EMUL :: "u8 \<Rightarrow> bool" where
  "CHIP_REV_IS_EMUL r \<longleftrightarrow> r = 0xe \<or> r = 0xc"

definition CHIP_REV_IS_FPGA :: "u8 \<Rightarrow> bool" where
  "CHIP_REV_IS_FPGA r \<longleftrightarrow> r = 0xf \<or> r = 0xd"

definition CHIP_REV_IS_SLOW :: "u8 \<Rightarrow> bool" where
  "CHIP_REV_IS_SLOW r \<longleftrightarrow> CHIP_REV_IS_EMUL r \<or> CHIP_REV_IS_FPGA r"

section \<open>State\<close>

text \<open>
  \<open>struct qed_ptt\<close> with the fields of its \<open>pxp_ptt_entry\<close>; the pool with its free list, whose
  members are indices into \<open>ptts\<close>.
\<close>

record qed_ptt =
  ptt_idx :: u32
  pxp_offset :: u32
  pxp_fid :: u16
  pxp_control :: u16
  ptt_hwfn_id :: u8

record qed_ptt_pool =
  ptt_free_list :: "nat list"
  ptts :: "qed_ptt list"

text \<open>
  The command of the DMA engine and the driver's bookkeeping for it (\<open>struct dmae_cmd\<close>, up to
  its result fields, and \<open>struct qed_dmae_info\<close>). A pointer the code tests for \<open>NULL\<close> is an
  option, or a truth value where only its bus address is ever used.
\<close>

record dmae_cmd =
  opcode :: u32
  src_addr_lo :: u32
  src_addr_hi :: u32
  dst_addr_lo :: u32
  dst_addr_hi :: u32
  length_dw :: u16
  opcode_b :: u16
  comp_addr_lo :: u32
  comp_addr_hi :: u32
  comp_val :: u32

record qed_dmae_info =
  b_mem_ready :: bool
  channel :: u8
  completion_word_phys_addr :: u64
  p_completion_word :: bool
  intermediate_buffer_phys_addr :: u64
  p_intermediate_buffer :: bool
  dmae_cmd_phys_addr :: u64
  p_dmae_cmd :: "dmae_cmd option"

text \<open>
  What the code reads of \<open>struct qed_dev\<close>, and the state of one hardware function: its PTT pool
  (\<open>None\<close> for a \<open>NULL\<close> pointer), the DMA engine, the host's memory (dwords by byte address), the
  warnings printed by \<open>WARN\<close> and the reported hardware errors, and the device.
\<close>

record qed_cdev =
  chip_rev :: u8
  is_bb :: bool
  is_pf :: bool
  num_ports :: u8
  num_ports_in_engine :: u8
  chk_reg_fifo :: bool
  monitored_hw_addr :: u32
  recov_in_prog :: bool
  aer_in_prog :: bool

datatype hw_warn = WarnMonitored u32 | WarnFifo u32

datatype qed_hw_err_type =
  QED_HW_ERR_FAN_FAIL | QED_HW_ERR_MFW_RESP_FAIL | QED_HW_ERR_HW_ATTN | QED_HW_ERR_DMAE_FAIL |
  QED_HW_ERR_RAMROD_FAIL | QED_HW_ERR_FW_ASSERT | QED_HW_ERR_PARITY

text \<open>
  Host memory (\<open>hmem\<close>) is the dword at each byte address. The code accesses it by aligned dwords; dwords at
  addresses that are not a multiple of four are cells of their own and do not overlap their neighbours.
\<close>

record 'd qed_hwfn =
  my_id :: u8
  rel_pf_id :: u8
  abs_pf_id :: u8
  hw_port_id :: u8
  cdev :: qed_cdev
  p_ptt_pool :: "qed_ptt_pool option"
  dmae_info :: qed_dmae_info
  hmem :: "u64 \<Rightarrow> u32"
  warnings :: "hw_warn list"
  hw_errors :: "qed_hw_err_type list"
  device :: 'd

text \<open>How the device answers.\<close>

record 'd bus =
  reg_wr :: "u32 \<Rightarrow> u32 \<Rightarrow> 'd \<Rightarrow> 'd"
  reg_rd :: "u32 \<Rightarrow> 'd \<Rightarrow> u32 \<times> 'd"
  bus_delay :: "nat \<Rightarrow> 'd \<Rightarrow> 'd"
  dma_rd :: "u64 \<Rightarrow> 'd \<Rightarrow> u32"
  dma_wr :: "u64 \<Rightarrow> u32 \<Rightarrow> 'd \<Rightarrow> 'd"

definition REG_WR :: "'d bus \<Rightarrow> u32 \<Rightarrow> u32 \<Rightarrow> 'd qed_hwfn \<Rightarrow> 'd qed_hwfn" where
  "REG_WR B off v s = s\<lparr>device := reg_wr B off v (device s)\<rparr>"

definition REG_RD :: "'d bus \<Rightarrow> u32 \<Rightarrow> 'd qed_hwfn \<Rightarrow> u32 \<times> 'd qed_hwfn" where
  "REG_RD B off s = (case reg_rd B off (device s) of (v, d) \<Rightarrow> (v, s\<lparr>device := d\<rparr>))"

definition udelay :: "'d bus \<Rightarrow> nat \<Rightarrow> 'd qed_hwfn \<Rightarrow> 'd qed_hwfn" where
  "udelay B us s = s\<lparr>device := bus_delay B us (device s)\<rparr>"

definition slow_delay :: "'d bus \<Rightarrow> 'd qed_hwfn \<Rightarrow> 'd qed_hwfn" where
  "slow_delay B s = (if CHIP_REV_IS_SLOW (chip_rev (cdev s)) then udelay B 100 s else s)"

definition WARN :: "bool \<Rightarrow> hw_warn \<Rightarrow> 'd qed_hwfn \<Rightarrow> 'd qed_hwfn" where
  "WARN c w s = (if c then s\<lparr>warnings := warnings s @ [w]\<rparr> else s)"

definition QED_RECOV_IN_PROG :: "qed_cdev \<Rightarrow> bool" where
  "QED_RECOV_IN_PROG c \<longleftrightarrow> recov_in_prog c \<or> aer_in_prog c"

section \<open>The PTT pool\<close>

definition pool_of :: "'d qed_hwfn \<Rightarrow> qed_ptt_pool" where
  "pool_of s = the (p_ptt_pool s)"

definition ptt_at :: "'d qed_hwfn \<Rightarrow> nat \<Rightarrow> qed_ptt" where
  "ptt_at s i = ptts (pool_of s) ! i"

definition ptt_put :: "nat \<Rightarrow> qed_ptt \<Rightarrow> 'd qed_hwfn \<Rightarrow> 'd qed_hwfn" where
  "ptt_put i p s = s\<lparr>p_ptt_pool := Some ((pool_of s)\<lparr>ptts := (ptts (pool_of s))[i := p]\<rparr>)\<rparr>"

text \<open>
  \<open>qed_ptt_pool_alloc\<close>: the argument \<open>mem\<close> is what \<open>kmalloc\<close> returned, whose content is not
  initialized; the loop sets every field but the function identifier of the pretend command.
\<close>

primrec ptt_pool_init :: "u8 \<Rightarrow> nat \<Rightarrow> qed_ptt_pool \<Rightarrow> qed_ptt_pool" where
  "ptt_pool_init my 0 pool = pool"
| "ptt_pool_init my (Suc i) pool = (let
     pool = ptt_pool_init my i pool;
     pool = pool\<lparr>ptts := (ptts pool)[i := (ptts pool ! i)\<lparr>ptt_idx := of_nat i,
       pxp_offset := QED_BAR_INVALID_OFFSET, pxp_control := 0, ptt_hwfn_id := my\<rparr>]\<rparr>
     in if reserved_idx RESERVED_PTT_MAX \<le> i
        then pool\<lparr>ptt_free_list := list_add i (ptt_free_list pool)\<rparr> else pool)"

definition qed_ptt_pool_alloc ::
  "qed_ptt_pool option \<Rightarrow> 'd qed_hwfn \<Rightarrow> rc \<times> 'd qed_hwfn" where
  "qed_ptt_pool_alloc mem s = (case mem of
     None \<Rightarrow> (RC_ERR ENOMEM, s)
   | Some p_pool \<Rightarrow> (let
       p_pool = p_pool\<lparr>ptt_free_list := []\<rparr>;
       p_pool = ptt_pool_init (my_id s) PXP_EXTERNAL_BAR_PF_WINDOW_NUM p_pool
       in (RC_OK, s\<lparr>p_ptt_pool := Some p_pool\<rparr>)))"

definition qed_ptt_pool_free :: "'d qed_hwfn \<Rightarrow> 'd qed_hwfn" where
  "qed_ptt_pool_free s = s\<lparr>p_ptt_pool := None\<rparr>"

primrec gtt_loop :: "'d bus \<Rightarrow> u32 \<Rightarrow> nat \<Rightarrow> 'd qed_hwfn \<Rightarrow> 'd qed_hwfn" where
  "gtt_loop B gtt_base 0 s = s"
| "gtt_loop B gtt_base (Suc i) s = (let s = gtt_loop B gtt_base i s in
     if pxp_global_win ! i \<noteq> 0
     then REG_WR B (gtt_base + of_nat i * PXP_GLOBAL_ENTRY_SIZE) (pxp_global_win ! i) s else s)"

definition qed_gtt_init :: "'d bus \<Rightarrow> 'd qed_hwfn \<Rightarrow> 'd qed_hwfn" where
  "qed_gtt_init B s = (let
     gtt_base = PXP_PF_WINDOW_ADMIN_START + PXP_PF_WINDOW_ADMIN_GLOBAL_START
     in gtt_loop B gtt_base (length pxp_global_win) s)"

primrec ptt_invalidate_loop :: "nat \<Rightarrow> 'd qed_hwfn \<Rightarrow> 'd qed_hwfn" where
  "ptt_invalidate_loop 0 s = s"
| "ptt_invalidate_loop (Suc i) s = (let s = ptt_invalidate_loop i s in
     ptt_put i ((ptt_at s i)\<lparr>pxp_offset := QED_BAR_INVALID_OFFSET\<rparr>) s)"

definition qed_ptt_invalidate :: "'d qed_hwfn \<Rightarrow> 'd qed_hwfn" where
  "qed_ptt_invalidate s = ptt_invalidate_loop PXP_EXTERNAL_BAR_PF_WINDOW_NUM s"

definition qed_ptt_release :: "nat \<Rightarrow> 'd qed_hwfn \<Rightarrow> 'd qed_hwfn" where
  "qed_ptt_release i s = s\<lparr>p_ptt_pool := Some ((pool_of s)\<lparr>
     ptt_free_list := list_add i (ptt_free_list (pool_of s))\<rparr>)\<rparr>"

text \<open>
  \<open>qed_ptt_acquire\<close>: one attempt under the lock, and the loop of the attempts. The loop sleeps
  between its attempts, and meanwhile other contexts release entries; \<open>rels n\<close> are the entries
  released during the sleep after attempt \<open>n\<close>. The argument \<open>left\<close> counts the attempts that remain.
\<close>

definition ptt_try :: "'d qed_hwfn \<Rightarrow> nat option \<times> 'd qed_hwfn" where
  "ptt_try s = (case ptt_free_list (pool_of s) of
     p_ptt # _ \<Rightarrow> (Some p_ptt, s\<lparr>p_ptt_pool := Some ((pool_of s)\<lparr>
       ptt_free_list := list_del p_ptt (ptt_free_list (pool_of s))\<rparr>)\<rparr>)
   | [] \<Rightarrow> (None, s))"

primrec ptt_acquire_loop ::
  "(nat \<Rightarrow> nat list) \<Rightarrow> nat \<Rightarrow> nat \<Rightarrow> 'd qed_hwfn \<Rightarrow> nat option \<times> 'd qed_hwfn" where
  "ptt_acquire_loop rels 0 n s = (None, s)"
| "ptt_acquire_loop rels (Suc left) n s = (case ptt_try s of
     (Some p_ptt, s) \<Rightarrow> (Some p_ptt, s)
   | (None, s) \<Rightarrow> ptt_acquire_loop rels left (Suc n) (fold qed_ptt_release (rels n) s))"

definition qed_ptt_acquire ::
  "(nat \<Rightarrow> nat list) \<Rightarrow> 'd qed_hwfn \<Rightarrow> nat option \<times> 'd qed_hwfn" where
  "qed_ptt_acquire rels s = (case p_ptt_pool s of
     None \<Rightarrow> (None, s)
   | Some _ \<Rightarrow> ptt_acquire_loop rels QED_BAR_ACQUIRE_TIMEOUT 0 s)"

definition qed_get_reserved_ptt :: "nat \<Rightarrow> nat option" where
  "qed_get_reserved_ptt ptt_index =
     (if reserved_idx RESERVED_PTT_MAX \<le> ptt_index then None else Some ptt_index)"

section \<open>Windows\<close>

definition qed_ptt_get_hw_addr :: "qed_ptt \<Rightarrow> u32" where
  "qed_ptt_get_hw_addr p_ptt = push_bit 2 (pxp_offset p_ptt)"

definition qed_ptt_config_addr :: "qed_ptt \<Rightarrow> u32" where
  "qed_ptt_config_addr p_ptt = PXP_PF_WINDOW_ADMIN_PER_PF_START + ptt_idx p_ptt * 8"

definition qed_ptt_get_bar_addr :: "qed_ptt \<Rightarrow> u32" where
  "qed_ptt_get_bar_addr p_ptt = PXP_EXTERNAL_BAR_PF_WINDOW_START +
     ptt_idx p_ptt * PXP_EXTERNAL_BAR_PF_WINDOW_SINGLE_SIZE"

definition qed_ptt_set_win :: "'d bus \<Rightarrow> nat \<Rightarrow> u32 \<Rightarrow> 'd qed_hwfn \<Rightarrow> 'd qed_hwfn" where
  "qed_ptt_set_win B i new_hw_addr s = (let prev_hw_addr = qed_ptt_get_hw_addr (ptt_at s i) in
     if new_hw_addr = prev_hw_addr then s
     else (let p_ptt = (ptt_at s i)\<lparr>pxp_offset := drop_bit 2 new_hw_addr\<rparr>;
               s = ptt_put i p_ptt s
           in REG_WR B (qed_ptt_config_addr p_ptt) (pxp_offset p_ptt) s))"

definition qed_set_ptt :: "'d bus \<Rightarrow> nat \<Rightarrow> u32 \<Rightarrow> 'd qed_hwfn \<Rightarrow> u32 \<times> 'd qed_hwfn" where
  "qed_set_ptt B i hw_addr s = (let
     win_hw_addr = qed_ptt_get_hw_addr (ptt_at s i);
     offset = hw_addr - win_hw_addr
     in if hw_addr < win_hw_addr \<or> PXP_EXTERNAL_BAR_PF_WINDOW_SINGLE_SIZE \<le> offset
        then (let s = qed_ptt_set_win B i hw_addr s
              in (qed_ptt_get_bar_addr (ptt_at s i) + 0, s))
        else (qed_ptt_get_bar_addr (ptt_at s i) + offset, s))"

section \<open>Single registers\<close>

definition qed_is_reg_fifo_empty :: "'d bus \<Rightarrow> nat \<Rightarrow> 'd qed_hwfn \<Rightarrow> bool \<times> 'd qed_hwfn" where
  "qed_is_reg_fifo_empty B i s =
     (if \<not> chk_reg_fifo (cdev s) then (True, s)
      else (let (bar_addr, s) = qed_set_ptt B i GRC_REG_TRACE_FIFO_VALID_DATA s;
                (v, s) = REG_RD B bar_addr s
            in (v = 0, slow_delay B s)))"

text \<open>
  The closing check of \<open>qed_wr\<close> and \<open>qed_rd\<close>: the conjunction in the argument of \<open>WARN\<close> is
  short circuited, so the FIFO is looked at again only when it was empty before.
\<close>

definition reg_fifo_warn :: "'d bus \<Rightarrow> nat \<Rightarrow> bool \<Rightarrow> u32 \<Rightarrow> 'd qed_hwfn \<Rightarrow> 'd qed_hwfn" where
  "reg_fifo_warn B i prev_fifo_err hw_addr s =
     (if prev_fifo_err then s
      else (let (empty, s) = qed_is_reg_fifo_empty B i s in WARN (\<not> empty) (WarnFifo hw_addr) s))"

definition qed_wr :: "'d bus \<Rightarrow> nat \<Rightarrow> u32 \<Rightarrow> u32 \<Rightarrow> 'd qed_hwfn \<Rightarrow> 'd qed_hwfn" where
  "qed_wr B i hw_addr val s = (let
     (empty, s) = qed_is_reg_fifo_empty B i s;
     prev_fifo_err = (\<not> empty);
     (bar_addr, s) = qed_set_ptt B i hw_addr s;
     s = REG_WR B bar_addr val s;
     s = WARN (hw_addr = monitored_hw_addr (cdev s)) (WarnMonitored hw_addr) s;
     s = slow_delay B s
     in reg_fifo_warn B i prev_fifo_err hw_addr s)"

definition qed_rd :: "'d bus \<Rightarrow> nat \<Rightarrow> u32 \<Rightarrow> 'd qed_hwfn \<Rightarrow> u32 \<times> 'd qed_hwfn" where
  "qed_rd B i hw_addr s = (let
     (empty, s) = qed_is_reg_fifo_empty B i s;
     prev_fifo_err = (\<not> empty);
     (bar_addr, s) = qed_set_ptt B i hw_addr s;
     (val, s) = REG_RD B bar_addr s;
     s = WARN (hw_addr = monitored_hw_addr (cdev s)) (WarnMonitored hw_addr) s;
     s = slow_delay B s
     in (val, reg_fifo_warn B i prev_fifo_err hw_addr s))"

section \<open>Block copies\<close>

datatype memcpy_action = TO_DEVICE | FROM_DEVICE | MEMZERO_DEVICE

text \<open>
  The inner loops of \<open>qed_memcpy_hw\<close>: \<open>dw_count\<close> dwords from the BAR offset \<open>reg\<close> and the host
  address \<open>host\<close> on.
\<close>

primrec memcpy_words ::
  "'d bus \<Rightarrow> memcpy_action \<Rightarrow> nat \<Rightarrow> u32 \<Rightarrow> u64 \<Rightarrow> 'd qed_hwfn \<Rightarrow> 'd qed_hwfn" where
  "memcpy_words B action 0 reg host s = s"
| "memcpy_words B action (Suc dw_count) reg host s = memcpy_words B action dw_count (reg + 4) (host + 4)
     (case action of
        TO_DEVICE \<Rightarrow> REG_WR B reg (hmem s host) s
      | FROM_DEVICE \<Rightarrow> (let (v, s) = REG_RD B reg s in s\<lparr>hmem := (hmem s)(host := v)\<rparr>)
      | MEMZERO_DEVICE \<Rightarrow> REG_WR B reg 0 s)"

text \<open>
  The outer loop: one window's worth per round, \<open>dn\<close> bytes done so far. The sizes are
  \<open>size_t\<close>; they are bounded by \<open>n\<close>, so nothing wraps around and they are natural numbers here.
\<close>

function memcpy_loop ::
  "'d bus \<Rightarrow> nat \<Rightarrow> u64 \<Rightarrow> u32 \<Rightarrow> nat \<Rightarrow> memcpy_action \<Rightarrow> nat \<Rightarrow> 'd qed_hwfn \<Rightarrow> 'd qed_hwfn" where
  "memcpy_loop B i addr hw_addr n action dn s = (if dn < n then (let
     quota = min (n - dn) (unat PXP_EXTERNAL_BAR_PF_WINDOW_SINGLE_SIZE);
     (hw_offset, s) = (if is_pf (cdev s)
        then (let s = qed_ptt_set_win B i (hw_addr + of_nat dn) s
              in (qed_ptt_get_bar_addr (ptt_at s i), s))
        else (hw_addr + of_nat dn, s));
     dw_count = quota div 4;
     host_addr = addr + of_nat dn;
     s = memcpy_words B action dw_count hw_offset host_addr s
     in memcpy_loop B i addr hw_addr n action (dn + quota) s)
   else s)"
  by pat_completeness auto
termination
  by (relation "measure (\<lambda>(B, i, addr, hw_addr, n, action, dn, s). n - dn)")
    (auto simp: PXP_EXTERNAL_BAR_PF_WINDOW_SINGLE_SIZE_def)

declare memcpy_loop.simps [simp del]

definition qed_memcpy_hw ::
  "'d bus \<Rightarrow> nat \<Rightarrow> u64 \<Rightarrow> u32 \<Rightarrow> nat \<Rightarrow> memcpy_action \<Rightarrow> 'd qed_hwfn \<Rightarrow> 'd qed_hwfn" where
  "qed_memcpy_hw B i addr hw_addr n action s =
     (if addr = 0 \<and> action \<noteq> MEMZERO_DEVICE then s
      else memcpy_loop B i addr hw_addr n action 0 s)"

definition qed_memcpy_from :: "'d bus \<Rightarrow> nat \<Rightarrow> u64 \<Rightarrow> u32 \<Rightarrow> nat \<Rightarrow> 'd qed_hwfn \<Rightarrow> 'd qed_hwfn" where
  "qed_memcpy_from B i dest hw_addr n s = qed_memcpy_hw B i dest hw_addr n FROM_DEVICE s"

definition qed_memcpy_to :: "'d bus \<Rightarrow> nat \<Rightarrow> u32 \<Rightarrow> u64 \<Rightarrow> nat \<Rightarrow> 'd qed_hwfn \<Rightarrow> 'd qed_hwfn" where
  "qed_memcpy_to B i hw_addr src n s = qed_memcpy_hw B i src hw_addr n TO_DEVICE s"

definition qed_memzero_hw :: "'d bus \<Rightarrow> nat \<Rightarrow> u32 \<Rightarrow> nat \<Rightarrow> 'd qed_hwfn \<Rightarrow> 'd qed_hwfn" where
  "qed_memzero_hw B i hw_addr n s = qed_memcpy_hw B i 0 hw_addr n MEMZERO_DEVICE s"

section \<open>Pretending to be another function\<close>

text \<open>
  The pretend command is the second dword of the entry; the code writes the dword at the address
  of the structure, function identifier in the low half.
\<close>

definition pretend_word :: "qed_ptt \<Rightarrow> u32" where
  "pretend_word p_ptt = ucast (pxp_fid p_ptt) OR push_bit 16 (ucast (pxp_control p_ptt))"

definition write_pretend :: "'d bus \<Rightarrow> nat \<Rightarrow> qed_ptt \<Rightarrow> 'd qed_hwfn \<Rightarrow> 'd qed_hwfn" where
  "write_pretend B i p_ptt s =
     REG_WR B (qed_ptt_config_addr p_ptt + 4) (pretend_word p_ptt) (ptt_put i p_ptt s)"

definition fid_or_pfid :: "u16 \<Rightarrow> u16" where
  "fid_or_pfid fid = (if GET_FIELD fid PXP_CONCRETE_FID_VFVALID = 0
     then GET_FIELD fid PXP_CONCRETE_FID_PFID else fid)"

definition qed_fid_pretend :: "'d bus \<Rightarrow> nat \<Rightarrow> u16 \<Rightarrow> 'd qed_hwfn \<Rightarrow> 'd qed_hwfn" where
  "qed_fid_pretend B i fid s = (let
     control = (0 :: u16);
     control = SET_FIELD control PXP_PRETEND_CMD_IS_CONCRETE 1;
     control = SET_FIELD control PXP_PRETEND_CMD_PRETEND_FUNCTION 1;
     control = SET_FIELD control PXP_PRETEND_CMD_PORT 0;
     control = SET_FIELD control PXP_PRETEND_CMD_USE_PORT 0;
     control = SET_FIELD control PXP_PRETEND_CMD_PRETEND_PORT 1;
     fid = fid_or_pfid fid
     in write_pretend B i ((ptt_at s i)\<lparr>pxp_control := control, pxp_fid := fid\<rparr>) s)"

definition qed_port_pretend :: "'d bus \<Rightarrow> nat \<Rightarrow> u8 \<Rightarrow> 'd qed_hwfn \<Rightarrow> 'd qed_hwfn" where
  "qed_port_pretend B i port s = (let
     control = (0 :: u16);
     control = SET_FIELD control PXP_PRETEND_CMD_PORT (ucast port);
     control = SET_FIELD control PXP_PRETEND_CMD_USE_PORT 1;
     control = SET_FIELD control PXP_PRETEND_CMD_PRETEND_PORT 1
     in write_pretend B i ((ptt_at s i)\<lparr>pxp_control := control\<rparr>) s)"

definition qed_port_unpretend :: "'d bus \<Rightarrow> nat \<Rightarrow> 'd qed_hwfn \<Rightarrow> 'd qed_hwfn" where
  "qed_port_unpretend B i s = (let
     control = (0 :: u16);
     control = SET_FIELD control PXP_PRETEND_CMD_PORT 0;
     control = SET_FIELD control PXP_PRETEND_CMD_USE_PORT 0;
     control = SET_FIELD control PXP_PRETEND_CMD_PRETEND_PORT 1
     in write_pretend B i ((ptt_at s i)\<lparr>pxp_control := control\<rparr>) s)"

definition qed_port_fid_pretend :: "'d bus \<Rightarrow> nat \<Rightarrow> u8 \<Rightarrow> u16 \<Rightarrow> 'd qed_hwfn \<Rightarrow> 'd qed_hwfn" where
  "qed_port_fid_pretend B i port fid s = (let
     control = (0 :: u16);
     control = SET_FIELD control PXP_PRETEND_CMD_PORT (ucast port);
     control = SET_FIELD control PXP_PRETEND_CMD_USE_PORT 1;
     control = SET_FIELD control PXP_PRETEND_CMD_PRETEND_PORT 1;
     control = SET_FIELD control PXP_PRETEND_CMD_IS_CONCRETE 1;
     control = SET_FIELD control PXP_PRETEND_CMD_PRETEND_FUNCTION 1;
     fid = fid_or_pfid fid
     in write_pretend B i ((ptt_at s i)\<lparr>pxp_control := control, pxp_fid := fid\<rparr>) s)"

definition qed_vfid_to_concrete :: "'d qed_hwfn \<Rightarrow> u8 \<Rightarrow> u32" where
  "qed_vfid_to_concrete s vfid = (let
     concrete_fid = (0 :: u32);
     concrete_fid = SET_FIELD concrete_fid PXP_CONCRETE_FID_PFID (ucast (rel_pf_id s));
     concrete_fid = SET_FIELD concrete_fid PXP_CONCRETE_FID_VFID (ucast vfid);
     concrete_fid = SET_FIELD concrete_fid PXP_CONCRETE_FID_VFVALID 1
     in concrete_fid)"

definition MFW_PORT :: "'d qed_hwfn \<Rightarrow> nat" where
  "MFW_PORT s = unat (abs_pf_id s) mod unat (num_ports (cdev s))"

definition QED_PFID_BY_PPFID :: "'d qed_hwfn \<Rightarrow> u8 \<Rightarrow> u8" where
  "QED_PFID_BY_PPFID s abs_ppfid = (if is_bb (cdev s) then abs_ppfid
     else of_nat (unat abs_ppfid * unat (num_ports_in_engine (cdev s)) + MFW_PORT s))"

definition qed_ppfid_wr :: "'d bus \<Rightarrow> nat \<Rightarrow> u8 \<Rightarrow> u32 \<Rightarrow> u32 \<Rightarrow> 'd qed_hwfn \<Rightarrow> 'd qed_hwfn" where
  "qed_ppfid_wr B i abs_ppfid hw_addr val s = (let
     pfid = QED_PFID_BY_PPFID s abs_ppfid;
     fid = FIELD_VALUE PXP_PRETEND_CONCRETE_FID_PFID pfid;
     s = qed_fid_pretend B i fid s;
     s = qed_wr B i hw_addr val s;
     fid = FIELD_VALUE PXP_PRETEND_CONCRETE_FID_PFID (rel_pf_id s)
     in qed_fid_pretend B i fid s)"

definition qed_ppfid_rd :: "'d bus \<Rightarrow> nat \<Rightarrow> u8 \<Rightarrow> u32 \<Rightarrow> 'd qed_hwfn \<Rightarrow> u32 \<times> 'd qed_hwfn" where
  "qed_ppfid_rd B i abs_ppfid hw_addr s = (let
     pfid = QED_PFID_BY_PPFID s abs_ppfid;
     fid = FIELD_VALUE PXP_PRETEND_CONCRETE_FID_PFID pfid;
     s = qed_fid_pretend B i fid s;
     (val, s) = qed_rd B i hw_addr s;
     fid = FIELD_VALUE PXP_PRETEND_CONCRETE_FID_PFID (rel_pf_id s)
     in (val, qed_fid_pretend B i fid s))"

end
