(* ===== verification/Qed_Blocks.thy ===== *)
theory Qed_Blocks
  imports Qed_Prelude
begin

text \<open>
  Blocks of dwords in a memory: a function from addresses of some width to dwords. The dwords of a
  block are \<open>st\<close> addresses apart: four in byte addressed memory, one where addresses count dwords.
\<close>

definition get_dwords :: "'n::len word \<Rightarrow> 'n word \<Rightarrow> nat \<Rightarrow> ('n word \<Rightarrow> 'v) \<Rightarrow> 'v list" where
  "get_dwords st a k m = map (\<lambda>j. m (a + of_nat j * st)) [0..<k]"

primrec put_dwords :: "'n::len word \<Rightarrow> 'n word \<Rightarrow> 'v list \<Rightarrow> ('n word \<Rightarrow> 'v) \<Rightarrow> 'n word \<Rightarrow> 'v" where
  "put_dwords st a [] m = m"
| "put_dwords st a (v # vs) m = put_dwords st (a + st) vs (m(a := v))"

text \<open>The addresses of a block; a block is injective when no two of them coincide.\<close>

definition block :: "'n::len word \<Rightarrow> 'n word \<Rightarrow> nat \<Rightarrow> 'n word set" where
  "block st a k = (\<lambda>j. a + of_nat j * st) ` {..<k}"

lemma length_get_dwords [simp]: "length (get_dwords st a k m) = k"
  by (simp add: get_dwords_def)

lemma get_dwords_nth [simp]: "j < k \<Longrightarrow> get_dwords st a k m ! j = m (a + of_nat j * st)"
  by (simp add: get_dwords_def)

lemma get_dwords_0 [simp]: "get_dwords st a 0 m = []"
  by (simp add: get_dwords_def)

lemma get_dwords_Suc: "get_dwords st a (Suc k) m = m a # get_dwords st (a + st) k m"
proof -
  have "[0..<Suc k] = 0 # map Suc [0..<k]" by (simp only: upt_conv_Cons map_Suc_upt zero_less_Suc)
  then show ?thesis by (simp add: get_dwords_def algebra_simps)
qed

lemma get_dwords_snoc: "get_dwords st a (Suc k) m = get_dwords st a k m @ [m (a + of_nat k * st)]"
  by (simp add: get_dwords_def)

lemma get_dwords_add:
  "get_dwords st a (j + k) m = get_dwords st a j m @ get_dwords st (a + of_nat j * st) k m"
  by (induction j arbitrary: a) (simp_all add: get_dwords_Suc algebra_simps)

lemma get_dwords_cong:
  "(\<And>x. x \<in> block st a k \<Longrightarrow> m x = m' x) \<Longrightarrow> get_dwords st a k m = get_dwords st a k m'"
  by (auto simp: get_dwords_def block_def)

lemma put_dwords_append:
  "put_dwords st a (vs @ ws) m = put_dwords st (a + of_nat (length vs) * st) ws (put_dwords st a vs m)"
  by (induction vs arbitrary: a m) (simp_all add: algebra_simps)

lemma put_dwords_snoc:
  "put_dwords st a (vs @ [w]) m = (put_dwords st a vs m)(a + of_nat (length vs) * st := w)"
  by (simp add: put_dwords_append)

lemma block_Suc: "block st a (Suc k) = insert a (block st (a + st) k)"
proof -
  have "{..<Suc k} = insert 0 (Suc ` {..<k})" by (simp add: lessThan_Suc_eq_insert_0)
  then show ?thesis by (simp add: block_def image_image algebra_simps)
qed

lemma put_dwords_outside: "x \<notin> block st a (length vs) \<Longrightarrow> put_dwords st a vs m x = m x"
  by (induction vs arbitrary: a m) (auto simp: block_Suc)

lemma put_dwords_inside:
  assumes "inj_on (\<lambda>j. a + of_nat j * st) {..<length vs}" "j < length vs"
  shows "put_dwords st a vs m (a + of_nat j * st) = vs ! j"
  using assms
proof (induction vs rule: rev_induct)
  case (snoc v vs)
  have "inj_on (\<lambda>j. a + of_nat j * st) {..<length vs}"
    by (rule inj_on_subset [OF snoc.prems(1)]) auto
  moreover have "a + of_nat j * st \<noteq> a + of_nat (length vs) * st" if "j < length vs"
    using inj_onD [OF snoc.prems(1), of j "length vs"] that by force
  ultimately show ?case using snoc.IH snoc.prems(2)
    by (auto simp: put_dwords_snoc nth_append less_Suc_eq simp del: add_left_cancel)
qed simp

lemma get_put_dwords:
  assumes "inj_on (\<lambda>j. a + of_nat j * st) {..<length vs}"
  shows "get_dwords st a (length vs) (put_dwords st a vs m) = vs"
  using put_dwords_inside [OF assms] by (auto intro: nth_equalityI)

lemma unat_of_nat_small: "x < 2 ^ LENGTH('n) \<Longrightarrow> unat (of_nat x :: 'n::len word) = x"
  by (simp add: unsigned_of_nat take_bit_nat_eq_self)

lemma of_nat_inj_small:
  "x < 2 ^ LENGTH('n) \<Longrightarrow> y < 2 ^ LENGTH('n) \<Longrightarrow> of_nat x = (of_nat y :: 'n::len word) \<Longrightarrow> x = y"
  by (metis unat_of_nat_small)

lemma block_inj4:
  fixes a :: "'n::len word"
  assumes "k * 4 \<le> 2 ^ LENGTH('n)"
  shows "inj_on (\<lambda>j. a + of_nat j * 4) {..<k}"
proof (rule inj_onI)
  fix x y assume *: "x \<in> {..<k}" "y \<in> {..<k}" "a + of_nat x * 4 = a + of_nat y * 4"
  then have "of_nat (x * 4) = (of_nat (y * 4) :: 'n word)" by simp
  then have "x * 4 = y * 4" using * assms by (intro of_nat_inj_small) auto
  then show "x = y" by simp
qed

lemma block_inj1:
  fixes a :: "'n::len word"
  assumes "k \<le> 2 ^ LENGTH('n)"
  shows "inj_on (\<lambda>j. a + of_nat j * 1) {..<k}"
proof (rule inj_onI)
  fix x y assume *: "x \<in> {..<k}" "y \<in> {..<k}" "a + of_nat x * 1 = a + of_nat y * (1 :: 'n word)"
  then have "of_nat x = (of_nat y :: 'n word)" by simp
  then show "x = y" using * assms by (intro of_nat_inj_small) auto
qed

lemma block_part:
  assumes "m + l \<le> n"
  shows "block st (a + of_nat m * st) l \<subseteq> block st a n"
proof
  fix x assume "x \<in> block st (a + of_nat m * st) l"
  then obtain j where "j < l" "x = a + of_nat (m + j) * st" by (auto simp: block_def algebra_simps)
  then show "x \<in> block st a n" using assms unfolding block_def by (intro image_eqI [of _ _ "m + j"]) simp_all
qed

lemma block_mono: "l \<le> n \<Longrightarrow> block st a l \<subseteq> block st a n"
  using block_part [of 0 l n st a] by simp

lemma put_dwords_upd_outside:
  "x \<notin> block st a (length vs) \<Longrightarrow> put_dwords st a vs (m(x := c)) = (put_dwords st a vs m)(x := c)"
proof (induction vs arbitrary: a m)
  case (Cons v vs)
  then have x: "x \<noteq> a" "x \<notin> block st (a + st) (length vs)" by (auto simp: block_Suc)
  show ?case unfolding put_dwords.simps fun_upd_twist [OF x(1)] by (rule Cons.IH [OF x(2)])
qed simp

lemma block_start: "0 < l \<Longrightarrow> m + l \<le> n \<Longrightarrow> a + of_nat m * st \<in> block st a n"
  by (auto simp: block_def)

lemma block_apart:
  fixes a :: "'n::len word"
  assumes "(m + k) * 4 \<le> 2 ^ LENGTH('n)"
  shows "block 4 a m \<inter> block 4 (a + of_nat m * 4) k = {}"
proof -
  have False if "i < m" "j < k" "a + of_nat i * 4 = a + of_nat m * 4 + of_nat j * 4" for i j
  proof -
    have "a + of_nat i * 4 = a + of_nat (m + j) * 4" using that(3) by (simp add: algebra_simps)
    then have "i = m + j"
      using that inj_onD [OF block_inj4 [OF assms, of a], of i "m + j"] by auto
    then show False using that(1) by simp
  qed
  then show ?thesis by (auto simp: block_def)
qed

end
