(* ===== verification/Qed_Hw_Correct.thy ===== *)
theory Qed_Hw_Correct
  imports Qed_Hw Qed_Blocks
begin

unbundle bit_operations_syntax

text \<open>
  Register access through a window is register access: what the code of \<open>Qed_Hw\<close> relies on of
  the device, the invariant that ties the driver's copy of a window to the device's, and that
  every access through a PTT entry has the effect of a direct access.
\<close>

section \<open>What the code relies on of the device\<close>

text \<open>
  The GRC space behind the windows: a state \<open>'g\<close> and how it answers to a read or write of the
  address by the function that the first argument (a pretend command) names. Nothing is assumed
  of these functions here.
\<close>

record 'g grc =
  grc_wr :: "u32 \<Rightarrow> u32 \<Rightarrow> u32 \<Rightarrow> 'g \<Rightarrow> 'g"
  grc_rd :: "u32 \<Rightarrow> u32 \<Rightarrow> 'g \<Rightarrow> u32 \<times> 'g"
  grc_delay :: "nat \<Rightarrow> 'g \<Rightarrow> 'g"

text \<open>
  What can be observed of the device: the offset and the pretend command of each window, as
  last written into the admin window, and the state of the GRC space.
\<close>

record ('d, 'g) pxp_view =
  win :: "'d \<Rightarrow> nat \<Rightarrow> u32"
  pret :: "'d \<Rightarrow> nat \<Rightarrow> u32"
  chip :: "'d \<Rightarrow> 'g"

definition win_dword :: "nat \<Rightarrow> nat \<Rightarrow> u32" where
  "win_dword i n = 0x1000 + of_nat i * 0x1000 + of_nat n * 4"

definition win_target :: "u32 \<Rightarrow> nat \<Rightarrow> u32" where
  "win_target off n = push_bit 2 (off AND 0x7FFFFF) + of_nat n * 4"

text \<open>
  The address map of the BAR (\<open>common_hsi.h\<close>): twelve entries of eight bytes in the admin window,
  offset first, pretend command second; other parts of the admin window do not touch
  them; dword \<open>n\<close> of window \<open>i\<close> is the GRC dword \<open>n\<close> behind the 23 bit offset of entry \<open>i\<close>.
\<close>

definition pxp_windows :: "'d bus \<Rightarrow> 'g grc \<Rightarrow> ('d, 'g) pxp_view \<Rightarrow> bool" where
  "pxp_windows B G V \<longleftrightarrow>
     (\<forall>d i v. i < 12 \<longrightarrow> win V (reg_wr B (of_nat i * 8) v d) = (win V d)(i := v)
       \<and> pret V (reg_wr B (of_nat i * 8) v d) = pret V d
       \<and> chip V (reg_wr B (of_nat i * 8) v d) = chip V d)
   \<and> (\<forall>d i v. i < 12 \<longrightarrow> win V (reg_wr B (of_nat i * 8 + 4) v d) = win V d
       \<and> pret V (reg_wr B (of_nat i * 8 + 4) v d) = (pret V d)(i := v)
       \<and> chip V (reg_wr B (of_nat i * 8 + 4) v d) = chip V d)
   \<and> (\<forall>d a v. 0x60 \<le> a \<and> a < 0x1000 \<longrightarrow> win V (reg_wr B a v d) = win V d
       \<and> pret V (reg_wr B a v d) = pret V d \<and> chip V (reg_wr B a v d) = chip V d)
   \<and> (\<forall>d i n v. i < 12 \<and> n < 1024 \<longrightarrow> win V (reg_wr B (win_dword i n) v d) = win V d
       \<and> pret V (reg_wr B (win_dword i n) v d) = pret V d
       \<and> chip V (reg_wr B (win_dword i n) v d) =
           grc_wr G (pret V d i) (win_target (win V d i) n) v (chip V d))
   \<and> (\<forall>d i n. i < 12 \<and> n < 1024 \<longrightarrow> win V (snd (reg_rd B (win_dword i n) d)) = win V d
       \<and> pret V (snd (reg_rd B (win_dword i n) d)) = pret V d
       \<and> (fst (reg_rd B (win_dword i n) d), chip V (snd (reg_rd B (win_dword i n) d))) =
           grc_rd G (pret V d i) (win_target (win V d i) n) (chip V d))
   \<and> (\<forall>d us. win V (bus_delay B us d) = win V d \<and> pret V (bus_delay B us d) = pret V d
       \<and> chip V (bus_delay B us d) = grc_delay G us (chip V d))"

lemma pxp_windowsD:
  assumes "pxp_windows B G V"
  shows "i < 12 \<Longrightarrow> win V (reg_wr B (of_nat i * 8) v d) = (win V d)(i := v)"
    and "i < 12 \<Longrightarrow> pret V (reg_wr B (of_nat i * 8) v d) = pret V d"
    and "i < 12 \<Longrightarrow> chip V (reg_wr B (of_nat i * 8) v d) = chip V d"
    and "i < 12 \<Longrightarrow> win V (reg_wr B (of_nat i * 8 + 4) v d) = win V d"
    and "i < 12 \<Longrightarrow> pret V (reg_wr B (of_nat i * 8 + 4) v d) = (pret V d)(i := v)"
    and "i < 12 \<Longrightarrow> chip V (reg_wr B (of_nat i * 8 + 4) v d) = chip V d"
    and "0x60 \<le> a \<Longrightarrow> a < 0x1000 \<Longrightarrow> win V (reg_wr B a v d) = win V d"
    and "0x60 \<le> a \<Longrightarrow> a < 0x1000 \<Longrightarrow> pret V (reg_wr B a v d) = pret V d"
    and "0x60 \<le> a \<Longrightarrow> a < 0x1000 \<Longrightarrow> chip V (reg_wr B a v d) = chip V d"
    and "i < 12 \<Longrightarrow> n < 1024 \<Longrightarrow> win V (reg_wr B (win_dword i n) v d) = win V d"
    and "i < 12 \<Longrightarrow> n < 1024 \<Longrightarrow> pret V (reg_wr B (win_dword i n) v d) = pret V d"
    and "i < 12 \<Longrightarrow> n < 1024 \<Longrightarrow> chip V (reg_wr B (win_dword i n) v d) =
           grc_wr G (pret V d i) (win_target (win V d i) n) v (chip V d)"
    and "i < 12 \<Longrightarrow> n < 1024 \<Longrightarrow> win V (snd (reg_rd B (win_dword i n) d)) = win V d"
    and "i < 12 \<Longrightarrow> n < 1024 \<Longrightarrow> pret V (snd (reg_rd B (win_dword i n) d)) = pret V d"
    and "i < 12 \<Longrightarrow> n < 1024 \<Longrightarrow>
           (fst (reg_rd B (win_dword i n) d), chip V (snd (reg_rd B (win_dword i n) d))) =
           grc_rd G (pret V d i) (win_target (win V d i) n) (chip V d)"
    and "win V (bus_delay B us d) = win V d"
    and "pret V (bus_delay B us d) = pret V d"
    and "chip V (bus_delay B us d) = grc_delay G us (chip V d)"
  using assms unfolding pxp_windows_def by blast+

section \<open>The invariant\<close>

text \<open>
  The pool is there and holds the twelve entries in order. The driver's copy of an offset is
  either the invalid one or what the admin window holds, which then fits its 23 bits.
\<close>

definition ptt_ok :: "('d, 'g) pxp_view \<Rightarrow> 'd qed_hwfn \<Rightarrow> bool" where
  "ptt_ok V s \<longleftrightarrow> p_ptt_pool s \<noteq> None \<and> length (ptts (pool_of s)) = 12 \<and>
     (\<forall>i < 12. ptt_idx (ptt_at s i) = of_nat i \<and>
        (pxp_offset (ptt_at s i) = QED_BAR_INVALID_OFFSET \<or>
         pxp_offset (ptt_at s i) = win V (device s) i \<and> pxp_offset (ptt_at s i) \<le> 0x7FFFFF))"

text \<open>A GRC address the windows can reach: a multiple of four below 2 to the 25.\<close>

definition grc_addr :: "u32 \<Rightarrow> bool" where
  "grc_addr a \<longleftrightarrow> a AND 3 = 0 \<and> a < 0x2000000"

text \<open>
  What an access leaves alone: everything but the windows, the device, the warnings and the
  host's memory; the free list of the pool stays as well.
\<close>

definition hw_frame :: "'d qed_hwfn \<Rightarrow> 'd qed_hwfn \<Rightarrow> bool" where
  "hw_frame s s' \<longleftrightarrow> s' = s\<lparr>p_ptt_pool := p_ptt_pool s', device := device s',
       warnings := warnings s', hmem := hmem s'\<rparr> \<and>
     ptt_free_list (pool_of s') = ptt_free_list (pool_of s)"

lemma hw_frame_refl [simp, intro]: "hw_frame s s"
  by (simp add: hw_frame_def)

lemma hw_frame_fields:
  assumes "hw_frame s s'"
  shows "my_id s' = my_id s" "rel_pf_id s' = rel_pf_id s" "abs_pf_id s' = abs_pf_id s"
    "hw_port_id s' = hw_port_id s" "cdev s' = cdev s" "dmae_info s' = dmae_info s"
    "hw_errors s' = hw_errors s" "ptt_free_list (pool_of s') = ptt_free_list (pool_of s)"
proof -
  have e: "s' = s\<lparr>p_ptt_pool := p_ptt_pool s', device := device s', warnings := warnings s',
    hmem := hmem s'\<rparr>"
    using assms by (simp add: hw_frame_def)
  show "my_id s' = my_id s" by (subst e) simp
  show "rel_pf_id s' = rel_pf_id s" by (subst e) simp
  show "abs_pf_id s' = abs_pf_id s" by (subst e) simp
  show "hw_port_id s' = hw_port_id s" by (subst e) simp
  show "cdev s' = cdev s" by (subst e) simp
  show "dmae_info s' = dmae_info s" by (subst e) simp
  show "hw_errors s' = hw_errors s" by (subst e) simp
  show "ptt_free_list (pool_of s') = ptt_free_list (pool_of s)" using assms by (simp add: hw_frame_def)
qed

lemma hw_frame_trans [trans]:
  assumes "hw_frame s s'" "hw_frame s' s''"
  shows "hw_frame s s''"
proof -
  note a = hw_frame_fields [OF assms(1)] and b = hw_frame_fields [OF assms(2)]
  show ?thesis unfolding hw_frame_def
    by (intro conjI qed_hwfn.equality) (simp_all add: a b)
qed

lemma hw_frame_devI [intro]: "hw_frame s (s\<lparr>device := d\<rparr>)"
  by (simp add: hw_frame_def pool_of_def)

section \<open>Entries\<close>

lemma ptt_at_put:
  "p_ptt_pool s \<noteq> None \<Longrightarrow> i < length (ptts (pool_of s)) \<Longrightarrow>
     ptt_at (ptt_put i p s) j = (if j = i then p else ptt_at s j)"
  by (simp add: ptt_at_def ptt_put_def pool_of_def)

lemma ptt_put_fields [simp]:
  "device (ptt_put i p s) = device s" "cdev (ptt_put i p s) = cdev s"
  "warnings (ptt_put i p s) = warnings s" "hmem (ptt_put i p s) = hmem s"
  "p_ptt_pool (ptt_put i p s) \<noteq> None"
  "length (ptts (pool_of (ptt_put i p s))) = length (ptts (pool_of s))"
  "ptt_free_list (pool_of (ptt_put i p s)) = ptt_free_list (pool_of s)"
  by (simp_all add: ptt_put_def pool_of_def)

lemma REG_WR_fields [simp]:
  "device (REG_WR B a v s) = reg_wr B a v (device s)" "cdev (REG_WR B a v s) = cdev s"
  "warnings (REG_WR B a v s) = warnings s" "hmem (REG_WR B a v s) = hmem s"
  "p_ptt_pool (REG_WR B a v s) = p_ptt_pool s" "pool_of (REG_WR B a v s) = pool_of s"
  "ptt_at (REG_WR B a v s) i = ptt_at s i"
  by (simp_all add: REG_WR_def pool_of_def ptt_at_def)

lemma ptt_okD:
  assumes "ptt_ok V s"
  shows "p_ptt_pool s \<noteq> None" "length (ptts (pool_of s)) = 12"
    "i < 12 \<Longrightarrow> ptt_idx (ptt_at s i) = of_nat i"
    "i < 12 \<Longrightarrow> pxp_offset (ptt_at s i) = QED_BAR_INVALID_OFFSET \<or>
         pxp_offset (ptt_at s i) = win V (device s) i \<and> pxp_offset (ptt_at s i) \<le> 0x7FFFFF"
  using assms by (simp_all add: ptt_ok_def)

lemma ptt_ok_devI:
  "ptt_ok V s \<Longrightarrow> win V d = win V (device s) \<Longrightarrow> ptt_ok V (s\<lparr>device := d\<rparr>)"
  by (simp add: ptt_ok_def ptt_at_def pool_of_def)

section \<open>Addresses\<close>

lemma unat_shift2: "unat (push_bit 2 (w :: u32)) = (unat w * 4) mod 2 ^ 32"
  by (simp add: push_bit_eq_mult unat_mult_mod)

lemma shift_back:
  assumes "grc_addr a"
  shows "push_bit 2 (drop_bit 2 a) = a" "drop_bit 2 a \<le> 0x7FFFFF" "drop_bit 2 a AND 0x7FFFFF = drop_bit 2 a"
proof -
  have a: "unat a mod 4 = 0" "unat a < 2 ^ 25"
  proof -
    have "unat (a AND 3) = unat a mod 2 ^ 2" by (rule unat_and_mask) simp
    then show "unat a mod 4 = 0" using assms by (simp add: grc_addr_def)
    show "unat a < 2 ^ 25" using assms by (simp add: grc_addr_def word_less_nat_alt)
  qed
  have u: "unat (drop_bit 2 a) = unat a div 4" by (simp only: unat_drop_bit_eq) (simp add: drop_bit_eq_div)
  have "unat (push_bit 2 (drop_bit 2 a)) = unat a"
  proof -
    have "unat a div 4 * 4 = unat a" using a(1) by presburger
    then show ?thesis unfolding unat_shift2 u using a(2) by simp
  qed
  then show "push_bit 2 (drop_bit 2 a) = a" by (simp add: word_unat_eq_iff)
  show le: "drop_bit 2 a \<le> 0x7FFFFF" using a(2) by (simp add: word_le_nat_alt u)
  have "unat (drop_bit 2 a AND 0x7FFFFF) = unat (drop_bit 2 a) mod 2 ^ 23" by (rule unat_and_mask) simp
  also have "\<dots> = unat (drop_bit 2 a)" using a(2) u by simp
  finally show "drop_bit 2 a AND 0x7FFFFF = drop_bit 2 a" by (simp add: word_unat_eq_iff)
qed


lemma window_dword:
  assumes "grc_addr a" "off \<le> 0x7FFFFF" "\<not> a < push_bit 2 off" "\<not> 0x1000 \<le> a - push_bit 2 off"
  obtains n where "n < 1024" "a - push_bit 2 off = of_nat n * 4" "win_target off n = a"
proof -
  let ?w = "push_bit 2 off"
  define n where "n = unat (a - ?w) div 4"
  have a: "unat a mod 4 = 0"
  proof -
    have "unat (a AND 3) = unat a mod 2 ^ 2" by (rule unat_and_mask) simp
    then show "unat a mod 4 = 0" using assms(1) by (simp add: grc_addr_def)
  qed
  have off: "unat off < 2 ^ 23" using assms(2) by (simp add: word_le_nat_alt)
  have w: "unat ?w = 4 * unat off"
    unfolding unat_shift2 using off by simp
  have d: "unat (a - ?w) = unat a - unat ?w" using assms(3) by (simp add: unat_sub not_less)
  have dv: "unat (a - ?w) mod 4 = 0" unfolding d w using a by presburger
  have lt: "unat (a - ?w) < 4096" using assms(4) by (simp add: word_le_nat_alt not_le)
  have n4: "unat (a - ?w) = n * 4" unfolding n_def using dv by presburger
  have "a - ?w = of_nat (n * 4)" by (simp flip: n4)
  then have eq: "a - ?w = of_nat n * 4" by simp
  have "unat (off AND 0x7FFFFF) = unat off mod 2 ^ 23" by (rule unat_and_mask) simp
  then have "off AND 0x7FFFFF = off" using off by (simp add: word_unat_eq_iff)
  then have "win_target off n = ?w + (a - ?w)" by (simp add: win_target_def eq)
  then have t: "win_target off n = a" by simp
  have "n < 1024" using lt n_def by simp
  then show thesis using eq t by (rule that)
qed

lemma bar_addr_dword:
  "ptt_idx p = of_nat i \<Longrightarrow> qed_ptt_get_bar_addr p + of_nat n * 4 = win_dword i n"
  by (simp add: qed_ptt_get_bar_addr_def win_dword_def PXP_EXTERNAL_BAR_PF_WINDOW_START_def
      PXP_EXTERNAL_BAR_PF_WINDOW_SINGLE_SIZE_def)

lemma config_addr_entry:
  "ptt_idx p = of_nat i \<Longrightarrow> qed_ptt_config_addr p = of_nat i * 8"
  by (simp add: qed_ptt_config_addr_def PXP_PF_WINDOW_ADMIN_PER_PF_START_def)

section \<open>The view from outside\<close>

text \<open>
  The state of the driver and the device without the windows. The pretend command and its
  function identifier are kept per entry.
\<close>

record 'g direct =
  d_chip :: 'g
  d_warn :: "hw_warn list"
  d_hmem :: "u64 \<Rightarrow> u32"
  d_fid :: "nat \<Rightarrow> u16"
  d_pret :: "nat \<Rightarrow> u32"

definition direct_of :: "('d, 'g) pxp_view \<Rightarrow> 'd qed_hwfn \<Rightarrow> 'g direct" where
  "direct_of V s = \<lparr>d_chip = chip V (device s), d_warn = warnings s, d_hmem = hmem s,
     d_fid = (\<lambda>i. pxp_fid (ptt_at s i)), d_pret = pret V (device s)\<rparr>"

lemma direct_of_sel [simp]:
  "d_chip (direct_of V s) = chip V (device s)" "d_warn (direct_of V s) = warnings s"
  "d_hmem (direct_of V s) = hmem s" "d_fid (direct_of V s) i = pxp_fid (ptt_at s i)"
  "d_pret (direct_of V s) = pret V (device s)"
  by (simp_all add: direct_of_def)

section \<open>Moving a window\<close>

lemma invalid_not_addr: "grc_addr a \<Longrightarrow> a < push_bit 2 QED_BAR_INVALID_OFFSET"
  by (simp add: grc_addr_def QED_BAR_INVALID_OFFSET_def word_less_nat_alt unat_shift2
      unsigned_minus_1_eq_mask mask_eq_exp_minus_1)

text \<open>After \<open>qed_ptt_set_win\<close> the window starts at the address, whatever it was before.\<close>

lemma set_win_ok:
  assumes L: "pxp_windows B G V" and ok: "ptt_ok V s" and i: "i < 12" and a: "grc_addr a"
  defines "s' \<equiv> qed_ptt_set_win B i a s"
  shows "ptt_ok V s'" "hw_frame s s'" "direct_of V s' = direct_of V s" "win_target (win V (device s') i) 0 = a"
proof -
  note okD = ptt_okD [OF ok]
  let ?p = "ptt_at s i"
  let ?q = "?p\<lparr>pxp_offset := drop_bit 2 a\<rparr>"
  have "ptt_ok V s' \<and> hw_frame s s' \<and> direct_of V s' = direct_of V s \<and> win_target (win V (device s') i) 0 = a"
  proof (cases "a = qed_ptt_get_hw_addr ?p")
    case True
    then have "pxp_offset ?p \<noteq> QED_BAR_INVALID_OFFSET"
      using invalid_not_addr [OF a] by (auto simp: qed_ptt_get_hw_addr_def)
    then have w: "pxp_offset ?p = win V (device s) i" "pxp_offset ?p \<le> 0x7FFFFF"
      using okD(4) [OF i] by auto
    have "\<not> a < push_bit 2 (pxp_offset ?p)" "\<not> 0x1000 \<le> a - push_bit 2 (pxp_offset ?p)"
      using True by (simp_all add: qed_ptt_get_hw_addr_def)
    from window_dword [OF a w(2) this] obtain n
      where n: "n < 1024" "a - push_bit 2 (pxp_offset ?p) = of_nat n * 4"
        "win_target (pxp_offset ?p) n = a" by metis
    have "of_nat n * 4 = (0 :: u32)" using n(2) True by (simp add: qed_ptt_get_hw_addr_def)
    then have "win_target (pxp_offset ?p) 0 = a" using n(3) by (simp add: win_target_def)
    moreover have "s' = s" using True by (simp add: s'_def qed_ptt_set_win_def)
    ultimately show ?thesis using ok w by simp
  next
    case False
    have s': "s' = REG_WR B (of_nat i * 8) (drop_bit 2 a) (ptt_put i ?q s)"
      using False config_addr_entry [of ?q i] okD(3) [OF i]
      by (simp add: s'_def qed_ptt_set_win_def Let_def)
    have at: "ptt_at s' j = (if j = i then ?q else ptt_at s j)" for j
      using okD(1,2) i by (simp add: s' ptt_at_put)
    have dev: "win V (device s') = (win V (device s))(i := drop_bit 2 a)"
      "pret V (device s') = pret V (device s)" "chip V (device s') = chip V (device s)"
      using pxp_windowsD(1,2,3) [OF L i] by (simp_all add: s')
    have ok': "ptt_ok V s'" unfolding ptt_ok_def
    proof (intro conjI allI impI)
      show "p_ptt_pool s' \<noteq> None" "length (ptts (pool_of s')) = 12" using okD(2) by (simp_all add: s')
    next
      fix j :: nat assume j: "j < 12"
      show "ptt_idx (ptt_at s' j) = of_nat j" using okD(3) [OF j] by (auto simp: at)
      show "pxp_offset (ptt_at s' j) = QED_BAR_INVALID_OFFSET \<or>
         pxp_offset (ptt_at s' j) = win V (device s') j \<and> pxp_offset (ptt_at s' j) \<le> 0x7FFFFF"
        using okD(4) [OF j] shift_back(2) [OF a] by (simp add: at dev)
    qed
    have fr: "hw_frame s s'" by (simp add: hw_frame_def s' REG_WR_def ptt_put_def pool_of_def)
    have dir: "direct_of V s' = direct_of V s"
      by (rule direct.equality) (simp_all add: direct_of_def dev at fun_eq_iff, simp_all add: s')
    have "win_target (win V (device s') i) 0 = a"
      using shift_back(1,3) [OF a] by (simp add: dev win_target_def)
    then show ?thesis using ok' fr dir by blast
  qed
  then show "ptt_ok V s'" "hw_frame s s'" "direct_of V s' = direct_of V s" "win_target (win V (device s') i) 0 = a" by blast+
qed

text \<open>\<open>qed_set_ptt\<close> returns the BAR offset behind which the requested register is.\<close>

lemma set_ptt_ok:
  assumes L: "pxp_windows B G V" and ok: "ptt_ok V s" and i: "i < 12" and a: "grc_addr a"
  obtains n s' where "qed_set_ptt B i a s = (win_dword i n, s')" "n < 1024"
    "win_target (win V (device s') i) n = a" "ptt_ok V s'" "hw_frame s s'"
    "direct_of V s' = direct_of V s"
proof (cases "a < qed_ptt_get_hw_addr (ptt_at s i) \<or> 0x1000 \<le> a - qed_ptt_get_hw_addr (ptt_at s i)")
  case True
  let ?s = "qed_ptt_set_win B i a s"
  note sw = set_win_ok [OF L ok i a]
  have "qed_set_ptt B i a s = (win_dword i 0, ?s)"
    using True bar_addr_dword [OF ptt_okD(3) [OF sw(1) i], of 0]
    by (simp add: qed_set_ptt_def Let_def PXP_EXTERNAL_BAR_PF_WINDOW_SINGLE_SIZE_def)
  then show thesis using sw by (intro that [of 0 ?s]) simp_all
next
  case False
  let ?p = "ptt_at s i"
  have "pxp_offset ?p \<noteq> QED_BAR_INVALID_OFFSET"
    using invalid_not_addr [OF a] False by (auto simp: qed_ptt_get_hw_addr_def)
  then have w: "pxp_offset ?p = win V (device s) i" "pxp_offset ?p \<le> 0x7FFFFF"
    using ptt_okD(4) [OF ok i] by auto
  have "\<not> a < push_bit 2 (pxp_offset ?p)" "\<not> 0x1000 \<le> a - push_bit 2 (pxp_offset ?p)"
    using False by (simp_all add: qed_ptt_get_hw_addr_def)
  from window_dword [OF a w(2) this] obtain n
    where n: "n < 1024" "a - push_bit 2 (pxp_offset ?p) = of_nat n * 4"
      "win_target (pxp_offset ?p) n = a" by metis
  have "qed_set_ptt B i a s = (win_dword i n, s)"
    using False n(2) bar_addr_dword [OF ptt_okD(3) [OF ok i], of n]
    by (simp add: qed_set_ptt_def Let_def PXP_EXTERNAL_BAR_PF_WINDOW_SINGLE_SIZE_def
        qed_ptt_get_hw_addr_def)
  then show thesis using n w ok by (intro that [of n s]) simp_all
qed


section \<open>Direct access\<close>

text \<open>The same operations on a device without windows: the GRC space, addressed directly.\<close>

definition direct_slow :: "'g grc \<Rightarrow> qed_cdev \<Rightarrow> 'g direct \<Rightarrow> 'g direct" where
  "direct_slow G c D =
     (if CHIP_REV_IS_SLOW (chip_rev c) then D\<lparr>d_chip := grc_delay G 100 (d_chip D)\<rparr> else D)"

definition direct_warn :: "bool \<Rightarrow> hw_warn \<Rightarrow> 'g direct \<Rightarrow> 'g direct" where
  "direct_warn c w D = (if c then D\<lparr>d_warn := d_warn D @ [w]\<rparr> else D)"

definition direct_fifo :: "'g grc \<Rightarrow> qed_cdev \<Rightarrow> nat \<Rightarrow> 'g direct \<Rightarrow> bool \<times> 'g direct" where
  "direct_fifo G c i D = (if \<not> chk_reg_fifo c then (True, D)
     else (case grc_rd G (d_pret D i) GRC_REG_TRACE_FIFO_VALID_DATA (d_chip D) of
       (v, g) \<Rightarrow> (v = 0, direct_slow G c (D\<lparr>d_chip := g\<rparr>))))"

definition direct_close :: "'g grc \<Rightarrow> qed_cdev \<Rightarrow> nat \<Rightarrow> bool \<Rightarrow> u32 \<Rightarrow> 'g direct \<Rightarrow> 'g direct" where
  "direct_close G c i err a D = (let D = direct_slow G c
       (direct_warn (a = monitored_hw_addr c) (WarnMonitored a) D)
     in if err then D
        else (case direct_fifo G c i D of (emp, D) \<Rightarrow> direct_warn (\<not> emp) (WarnFifo a) D))"

definition direct_wr :: "'g grc \<Rightarrow> qed_cdev \<Rightarrow> nat \<Rightarrow> u32 \<Rightarrow> u32 \<Rightarrow> 'g direct \<Rightarrow> 'g direct" where
  "direct_wr G c i a v D = (case direct_fifo G c i D of (emp, D) \<Rightarrow>
     direct_close G c i (\<not> emp) a (D\<lparr>d_chip := grc_wr G (d_pret D i) a v (d_chip D)\<rparr>))"

definition direct_rd :: "'g grc \<Rightarrow> qed_cdev \<Rightarrow> nat \<Rightarrow> u32 \<Rightarrow> 'g direct \<Rightarrow> u32 \<times> 'g direct" where
  "direct_rd G c i a D = (case direct_fifo G c i D of (emp, D) \<Rightarrow>
     (case grc_rd G (d_pret D i) a (d_chip D) of (v, g) \<Rightarrow>
       (v, direct_close G c i (\<not> emp) a (D\<lparr>d_chip := g\<rparr>))))"

primrec direct_copy ::
  "'g grc \<Rightarrow> memcpy_action \<Rightarrow> nat \<Rightarrow> nat \<Rightarrow> u32 \<Rightarrow> u64 \<Rightarrow> 'g direct \<Rightarrow> 'g direct" where
  "direct_copy G action i 0 a host D = D"
| "direct_copy G action i (Suc k) a host D = direct_copy G action i k (a + 4) (host + 4)
     (case action of
        TO_DEVICE \<Rightarrow> D\<lparr>d_chip := grc_wr G (d_pret D i) a (d_hmem D host) (d_chip D)\<rparr>
      | FROM_DEVICE \<Rightarrow> (case grc_rd G (d_pret D i) a (d_chip D) of
          (v, g) \<Rightarrow> D\<lparr>d_chip := g, d_hmem := (d_hmem D)(host := v)\<rparr>)
      | MEMZERO_DEVICE \<Rightarrow> D\<lparr>d_chip := grc_wr G (d_pret D i) a 0 (d_chip D)\<rparr>)"

section \<open>Simulation\<close>

text \<open>
  \<open>sim V s s' D\<close>: from \<open>s\<close> the code came to \<open>s'\<close>, which looks like \<open>D\<close> from outside, has its
  windows in order and differs from \<open>s\<close> only where an access may differ.
\<close>

definition sim :: "('d, 'g) pxp_view \<Rightarrow> 'd qed_hwfn \<Rightarrow> 'd qed_hwfn \<Rightarrow> 'g direct \<Rightarrow> bool" where
  "sim V s s' D \<longleftrightarrow> ptt_ok V s' \<and> hw_frame s s' \<and> direct_of V s' = D"

lemma simI: "ptt_ok V s' \<Longrightarrow> hw_frame s s' \<Longrightarrow> direct_of V s' = D \<Longrightarrow> sim V s s' D"
  by (simp add: sim_def)

lemma simD:
  assumes "sim V s s' D"
  shows "ptt_ok V s'" "hw_frame s s'" "direct_of V s' = D" "cdev s' = cdev s"
  using assms hw_frame_fields(5) by (auto simp: sim_def)

lemma sim_refl: "ptt_ok V s \<Longrightarrow> sim V s s (direct_of V s)"
  by (simp add: sim_def)

lemma sim_trans: "sim V s s' D \<Longrightarrow> sim V s' s'' D' \<Longrightarrow> sim V s s'' D'"
  using hw_frame_trans by (auto simp: sim_def)

lemma direct_of_devI:
  "pret V d = pret V (device s) \<Longrightarrow>
     direct_of V (s\<lparr>device := d\<rparr>) = (direct_of V s)\<lparr>d_chip := chip V d\<rparr>"
  by (simp add: direct_of_def ptt_at_def pool_of_def)

lemma sim_dev:
  assumes "ptt_ok V s" "win V d = win V (device s)" "pret V d = pret V (device s)"
    "D = (direct_of V s)\<lparr>d_chip := chip V d\<rparr>"
  shows "sim V s (s\<lparr>device := d\<rparr>) D"
  using assms by (intro simI ptt_ok_devI hw_frame_devI) (simp_all add: direct_of_devI)

lemma sim_slow:
  "pxp_windows B G V \<Longrightarrow> ptt_ok V s \<Longrightarrow>
     sim V s (slow_delay B s) (direct_slow G (cdev s) (direct_of V s))"
  by (auto simp: slow_delay_def direct_slow_def udelay_def pxp_windowsD(16-18) intro: sim_refl sim_dev)

lemma sim_warn:
  "ptt_ok V s \<Longrightarrow> sim V s (WARN c w s) (direct_warn c w (direct_of V s))"
  by (auto simp: WARN_def direct_warn_def sim_def direct_of_def hw_frame_def ptt_ok_def ptt_at_def
      pool_of_def)

lemma sim_set_ptt:
  assumes "pxp_windows B G V" "ptt_ok V s" "i < 12" "grc_addr a"
  obtains n s' where "qed_set_ptt B i a s = (win_dword i n, s')" "n < 1024"
    "win_target (win V (device s') i) n = a" "sim V s s' (direct_of V s)"
proof -
  obtain n s' where "qed_set_ptt B i a s = (win_dword i n, s')" "n < 1024"
    "win_target (win V (device s') i) n = a" "ptt_ok V s'" "hw_frame s s'"
    "direct_of V s' = direct_of V s"
    by (rule set_ptt_ok [OF assms]) metis
  then show thesis by (intro that simI)
qed

lemma sim_win_wr:
  assumes "pxp_windows B G V" "ptt_ok V s" "i < 12" "n < 1024"
  shows "sim V s (REG_WR B (win_dword i n) v s) ((direct_of V s)\<lparr>d_chip :=
    grc_wr G (pret V (device s) i) (win_target (win V (device s) i) n) v (chip V (device s))\<rparr>)"
  unfolding REG_WR_def using assms by (intro sim_dev) (simp_all add: pxp_windowsD(10-12))

lemma sim_win_rd:
  assumes "pxp_windows B G V" "ptt_ok V s" "i < 12" "n < 1024"
    and "grc_rd G (pret V (device s) i) (win_target (win V (device s) i) n) (chip V (device s)) = (v, g)"
  obtains s' where "REG_RD B (win_dword i n) s = (v, s')" "sim V s s' ((direct_of V s)\<lparr>d_chip := g\<rparr>)"
    "win V (device s') = win V (device s)"
proof -
  obtain d where r: "reg_rd B (win_dword i n) (device s) = (v, d)" "chip V d = g"
    using pxp_windowsD(15) [OF assms(1,3,4), of "device s"] assms(5)
    by (metis prod.collapse prod.inject)
  have d: "win V d = win V (device s)" "pret V d = pret V (device s)"
    using pxp_windowsD(13,14) [OF assms(1,3,4), of "device s"] r by simp_all
  show thesis
  proof (rule that)
    show "REG_RD B (win_dword i n) s = (v, s\<lparr>device := d\<rparr>)" by (simp add: REG_RD_def r)
    show "sim V s (s\<lparr>device := d\<rparr>) ((direct_of V s)\<lparr>d_chip := g\<rparr>)"
      using assms(2) d r(2) by (intro sim_dev) simp_all
  qed (simp add: d)
qed


section \<open>Registers\<close>

lemma grc_addr_fifo [simp]: "grc_addr GRC_REG_TRACE_FIFO_VALID_DATA"
  by (simp add: grc_addr_def GRC_REG_TRACE_FIFO_VALID_DATA_def)

lemma sim_fifo:
  assumes L: "pxp_windows B G V" and ok: "ptt_ok V s" and i: "i < 12"
  obtains e s' D where "qed_is_reg_fifo_empty B i s = (e, s')"
    "direct_fifo G (cdev s) i (direct_of V s) = (e, D)" "sim V s s' D"
proof (cases "chk_reg_fifo (cdev s)")
  case True
  obtain n s1 where s1: "qed_set_ptt B i GRC_REG_TRACE_FIFO_VALID_DATA s = (win_dword i n, s1)" "n < 1024"
    "win_target (win V (device s1) i) n = GRC_REG_TRACE_FIFO_VALID_DATA" "sim V s s1 (direct_of V s)"
    using sim_set_ptt [OF L ok i grc_addr_fifo] by metis
  note d1 = simD [OF s1(4)]
  obtain v g where vg: "grc_rd G (pret V (device s1) i) (win_target (win V (device s1) i) n)
    (chip V (device s1)) = (v, g)" by fastforce
  obtain s2 where s2: "REG_RD B (win_dword i n) s1 = (v, s2)" "sim V s1 s2 ((direct_of V s1)\<lparr>d_chip := g\<rparr>)"
    using sim_win_rd [OF L d1(1) i s1(2) vg] by metis
  note d2 = simD [OF s2(2)]
  have "sim V s2 (slow_delay B s2) (direct_slow G (cdev s2) (direct_of V s2))"
    by (rule sim_slow [OF L d2(1)])
  then have "sim V s (slow_delay B s2) (direct_slow G (cdev s2) (direct_of V s2))"
    by (meson s1(4) s2(2) sim_trans)
  moreover have "direct_fifo G (cdev s) i (direct_of V s) = (v = 0, direct_slow G (cdev s2) (direct_of V s2))"
    unfolding d1(3) [symmetric] d2(3) using True vg s1(3) d1(4) d2(4) by (simp add: direct_fifo_def)
  ultimately show thesis
    using True s1(1) s2(1) by (intro that [of "v = 0"]) (simp_all add: qed_is_reg_fifo_empty_def)
next
  case False
  then show thesis using sim_refl [OF ok]
    by (intro that [of True s]) (simp_all add: qed_is_reg_fifo_empty_def direct_fifo_def)
qed

lemma sim_close:
  assumes L: "pxp_windows B G V" and ok: "ptt_ok V s" and i: "i < 12"
  shows "sim V s (reg_fifo_warn B i err a
      (slow_delay B (WARN (a = monitored_hw_addr (cdev s)) (WarnMonitored a) s)))
    (direct_close G (cdev s) i err a (direct_of V s))"
proof -
  let ?s1 = "WARN (a = monitored_hw_addr (cdev s)) (WarnMonitored a) s"
  let ?s2 = "slow_delay B ?s1"
  let ?D1 = "direct_warn (a = monitored_hw_addr (cdev s)) (WarnMonitored a) (direct_of V s)"
  have s1: "sim V s ?s1 ?D1" by (rule sim_warn [OF ok])
  note d1 = simD [OF s1]
  have s2: "sim V s ?s2 (direct_slow G (cdev s) ?D1)"
    using sim_trans [OF s1 sim_slow [OF L d1(1)]] by (simp only: d1(3,4))
  note d2 = simD [OF s2]
  show ?thesis
  proof (cases err)
    case True
    then show ?thesis using s2 by (simp add: reg_fifo_warn_def direct_close_def)
  next
    case False
    obtain e s3 D where s3: "qed_is_reg_fifo_empty B i ?s2 = (e, s3)"
      "direct_fifo G (cdev ?s2) i (direct_of V ?s2) = (e, D)" "sim V ?s2 s3 D"
      by (rule sim_fifo [OF L d2(1) i])
    note d3 = simD [OF s3(3)]
    have "sim V s (WARN (\<not> e) (WarnFifo a) s3) (direct_warn (\<not> e) (WarnFifo a) D)"
      using sim_trans [OF s2 sim_trans [OF s3(3) sim_warn [OF d3(1)]]] by (simp only: d3(3))
    then show ?thesis using False s3(1,2)
      by (simp add: reg_fifo_warn_def direct_close_def d2(3,4))
  qed
qed

lemma sim_wr:
  assumes L: "pxp_windows B G V" and ok: "ptt_ok V s" and i: "i < 12" and a: "grc_addr a"
  shows "sim V s (qed_wr B i a v s) (direct_wr G (cdev s) i a v (direct_of V s))"
proof -
  obtain e s1 D where s1: "qed_is_reg_fifo_empty B i s = (e, s1)"
    "direct_fifo G (cdev s) i (direct_of V s) = (e, D)" "sim V s s1 D"
    by (rule sim_fifo [OF L ok i])
  note d1 = simD [OF s1(3)]
  obtain n s2 where s2: "qed_set_ptt B i a s1 = (win_dword i n, s2)" "n < 1024"
    "win_target (win V (device s2) i) n = a" "sim V s1 s2 (direct_of V s1)"
    using sim_set_ptt [OF L d1(1) i a] by metis
  note d2 = simD [OF s2(4)]
  have D: "direct_of V s2 = D" using d1(3) d2(3) by (rule trans [rotated])
  let ?s3 = "REG_WR B (win_dword i n) v s2"
  let ?D3 = "D\<lparr>d_chip := grc_wr G (d_pret D i) a v (d_chip D)\<rparr>"
  have s3: "sim V s2 ?s3 ?D3"
    using sim_win_wr [OF L d2(1) i s2(2), of v] unfolding D [symmetric] s2(3) by simp
  note d3 = simD [OF s3]
  have "sim V s (reg_fifo_warn B i (\<not> e) a
      (slow_delay B (WARN (a = monitored_hw_addr (cdev ?s3)) (WarnMonitored a) ?s3)))
    (direct_close G (cdev ?s3) i (\<not> e) a ?D3)"
    using sim_trans [OF s1(3) sim_trans [OF s2(4) sim_trans [OF s3 sim_close [OF L d3(1) i]]]]
    by (simp only: d3(3))
  then show ?thesis
    using s1(1,2) s2(1) d1(4) d2(4) d3(4) by (simp add: qed_wr_def direct_wr_def Let_def)
qed

lemma sim_rd:
  assumes L: "pxp_windows B G V" and ok: "ptt_ok V s" and i: "i < 12" and a: "grc_addr a"
  obtains v s' D where "qed_rd B i a s = (v, s')" "direct_rd G (cdev s) i a (direct_of V s) = (v, D)"
    "sim V s s' D"
proof -
  obtain e s1 D where s1: "qed_is_reg_fifo_empty B i s = (e, s1)"
    "direct_fifo G (cdev s) i (direct_of V s) = (e, D)" "sim V s s1 D"
    by (rule sim_fifo [OF L ok i])
  note d1 = simD [OF s1(3)]
  obtain n s2 where s2: "qed_set_ptt B i a s1 = (win_dword i n, s2)" "n < 1024"
    "win_target (win V (device s2) i) n = a" "sim V s1 s2 (direct_of V s1)"
    using sim_set_ptt [OF L d1(1) i a] by metis
  note d2 = simD [OF s2(4)]
  obtain v g where vg: "grc_rd G (pret V (device s2) i) (win_target (win V (device s2) i) n)
    (chip V (device s2)) = (v, g)" by fastforce
  obtain s3 where s3: "REG_RD B (win_dword i n) s2 = (v, s3)" "sim V s2 s3 ((direct_of V s2)\<lparr>d_chip := g\<rparr>)"
    using sim_win_rd [OF L d2(1) i s2(2) vg] by metis
  note d3 = simD [OF s3(2)]
  have D: "direct_of V s2 = D" using d1(3) d2(3) by (rule trans [rotated])
  have gr: "grc_rd G (d_pret D i) a (d_chip D) = (v, g)" using vg unfolding D [symmetric] s2(3) by simp
  have "sim V s (reg_fifo_warn B i (\<not> e) a
      (slow_delay B (WARN (a = monitored_hw_addr (cdev s3)) (WarnMonitored a) s3)))
    (direct_close G (cdev s3) i (\<not> e) a (D\<lparr>d_chip := g\<rparr>))"
    using sim_trans [OF s1(3) sim_trans [OF s2(4) sim_trans [OF s3(2) sim_close [OF L d3(1) i]]]]
    by (simp only: d3(3) D)
  then show thesis
    using s1(1,2) s2(1) s3(1) gr d1(4) d2(4) d3(4)
    by (intro that [of v]) (simp_all add: qed_rd_def direct_rd_def Let_def)
qed


section \<open>Block copies\<close>

lemma win_dword_Suc: "win_dword i n + 4 = win_dword i (Suc n)"
  by (simp add: win_dword_def algebra_simps)

lemma win_target_Suc: "win_target w n + 4 = win_target w (Suc n)"
  by (simp add: win_target_def algebra_simps)

lemma sim_hmem:
  assumes "sim V s s' D"
  shows "sim V s (s'\<lparr>hmem := h\<rparr>) (D\<lparr>d_hmem := h\<rparr>)"
proof -
  note d = simD [OF assms]
  have "ptt_ok V (s'\<lparr>hmem := h\<rparr>)" using d(1) by (simp add: ptt_ok_def pool_of_def ptt_at_def)
  moreover have "hw_frame s' (s'\<lparr>hmem := h\<rparr>)" by (simp add: hw_frame_def pool_of_def)
  then have "hw_frame s (s'\<lparr>hmem := h\<rparr>)" using d(2) hw_frame_trans by blast
  moreover have "direct_of V (s'\<lparr>hmem := h\<rparr>) = D\<lparr>d_hmem := h\<rparr>"
    unfolding d(3) [symmetric] by (simp add: direct_of_def ptt_at_def pool_of_def)
  ultimately show ?thesis by (rule simI)
qed

text \<open>One round: at most the rest of the window.\<close>

lemma sim_words:
  assumes L: "pxp_windows B G V" and i: "i < 12"
  shows "ptt_ok V s \<Longrightarrow> n + k \<le> 1024 \<Longrightarrow> sim V s (memcpy_words B action k (win_dword i n) host s)
    (direct_copy G action i k (win_target (win V (device s) i) n) host (direct_of V s))"
proof (induction k arbitrary: n host s)
  case 0
  then show ?case using sim_refl by simp
next
  case (Suc k)
  let ?w = "win_target (win V (device s) i) n"
  have n: "n < 1024" using Suc.prems by simp
  note wr = sim_win_wr [OF L Suc.prems(1) i n] and rd = sim_win_rd [OF L Suc.prems(1) i n]
  have step: "sim V s (memcpy_words B action (Suc k) (win_dword i n) host s)
      (direct_copy G action i (Suc k) ?w host (direct_of V s))"
    if s1: "memcpy_words B action (Suc k) (win_dword i n) host s =
        memcpy_words B action k (win_dword i (Suc n)) (host + 4) s1"
      and D1: "direct_copy G action i (Suc k) ?w host (direct_of V s) =
        direct_copy G action i k (win_target (win V (device s1) i) (Suc n)) (host + 4) D1"
      and sm: "sim V s s1 D1" for s1 D1
  proof -
    have "sim V s1 (memcpy_words B action k (win_dword i (Suc n)) (host + 4) s1)
      (direct_copy G action i k (win_target (win V (device s1) i) (Suc n)) (host + 4) (direct_of V s1))"
      using Suc.prems(2) simD(1) [OF sm] by (intro Suc.IH) simp_all
    then show ?thesis unfolding s1 D1 using sm simD(3) [OF sm] sim_trans by metis
  qed
  show ?case
  proof (cases action)
    case TO_DEVICE
    show ?thesis
      by (rule step [OF _ _ wr [of "hmem s host"]])
        (simp_all add: TO_DEVICE win_dword_Suc win_target_Suc pxp_windowsD(10) [OF L i n])
  next
    case FROM_DEVICE
    obtain v g where vg: "grc_rd G (pret V (device s) i) ?w (chip V (device s)) = (v, g)" by fastforce
    obtain s1 where s1: "REG_RD B (win_dword i n) s = (v, s1)"
      "sim V s s1 ((direct_of V s)\<lparr>d_chip := g\<rparr>)" "win V (device s1) = win V (device s)"
      by (rule rd [OF vg])
    have h: "hmem s1 = hmem s" using arg_cong [OF simD(3) [OF s1(2)], of d_hmem] by simp
    show ?thesis
      by (rule step [OF _ _ sim_hmem [OF s1(2), of "(hmem s)(host := v)"]])
        (simp_all add: FROM_DEVICE win_dword_Suc win_target_Suc s1 vg h)
  next
    case MEMZERO_DEVICE
    show ?thesis
      by (rule step [OF _ _ wr [of 0]])
        (simp_all add: MEMZERO_DEVICE win_dword_Suc win_target_Suc pxp_windowsD(10) [OF L i n])
  qed
qed

lemma direct_copy_add:
  "direct_copy G action i (j + k) a host D =
     direct_copy G action i k (a + of_nat j * 4) (host + of_nat j * 4) (direct_copy G action i j a host D)"
  by (induction j arbitrary: a host D) (simp_all add: algebra_simps)

text \<open>An area of the GRC space that the windows reach.\<close>

definition grc_area :: "u32 \<Rightarrow> nat \<Rightarrow> bool" where
  "grc_area a n \<longleftrightarrow> a AND 3 = 0 \<and> unat a + n \<le> 0x2000000"

lemma grc_area_addr:
  assumes "grc_area a n" "4 * k < n"
  shows "grc_addr (a + of_nat (4 * k))" "unat (a + of_nat (4 * k)) = unat a + 4 * k"
proof -
  have le: "unat a + 4 * k < 0x2000000" using assms by (simp add: grc_area_def)
  have "unat (of_nat (4 * k) :: u32) = 4 * k" using le by (intro unat_of_nat_small) simp
  then show u: "unat (a + of_nat (4 * k)) = unat a + 4 * k"
    using le by (simp add: unat_add_mod)
  have m: "unat (x AND 3) = unat x mod 2 ^ 2" for x :: u32 by (rule unat_and_mask) simp
  have "unat a mod 4 = 0" using assms(1) m [of a] by (simp add: grc_area_def)
  then have "unat ((a + of_nat (4 * k)) AND 3) = 0" unfolding m u by simp
  then have "(a + of_nat (4 * k)) AND 3 = 0" by (simp only: unat_eq_zero)
  then show "grc_addr (a + of_nat (4 * k))" unfolding grc_addr_def word_less_nat_alt u using le by simp
qed

lemma sim_memcpy_loop:
  assumes L: "pxp_windows B G V" and i: "i < 12" and area: "grc_area hw_addr n"
  shows "ptt_ok V s \<Longrightarrow> is_pf (cdev s) \<Longrightarrow> dn = 4 * m \<Longrightarrow> sim V s (memcpy_loop B i addr hw_addr n action dn s)
    (direct_copy G action i ((n - dn) div 4) (hw_addr + of_nat dn) (addr + of_nat dn) (direct_of V s))"
proof (induction "n - dn" arbitrary: dn m s rule: less_induct)
  case less
  show ?case
  proof (cases "dn < n")
    case False
    then show ?thesis using sim_refl [OF less.prems(1)] by (simp add: memcpy_loop.simps)
  next
    case True
    let ?s1 = "qed_ptt_set_win B i (hw_addr + of_nat dn) s"
    define q where "q = min (n - dn) 0x1000"
    have ga: "grc_addr (hw_addr + of_nat dn)" unfolding less.prems(3)
      using area True less.prems(3) by (intro grc_area_addr(1) [where n = n]) simp_all
    note sw = set_win_ok [OF L less.prems(1) i ga]
    have q4: "q div 4 \<le> 1024" by (simp add: q_def)
    have s1: "sim V s ?s1 (direct_of V s)" using sw(1-3) by (rule simI)
    have bar: "qed_ptt_get_bar_addr (ptt_at ?s1 i) = win_dword i 0"
      using bar_addr_dword [OF ptt_okD(3) [OF sw(1) i], of 0] by simp
    let ?s2 = "memcpy_words B action (q div 4) (win_dword i 0) (addr + of_nat dn) ?s1"
    let ?D2 = "direct_copy G action i (q div 4) (hw_addr + of_nat dn) (addr + of_nat dn) (direct_of V s)"
    have s2: "sim V s ?s2 ?D2"
      using sim_trans [OF s1 sim_words [OF L i sw(1), of 0 "q div 4" action "addr + of_nat dn"]] q4
      unfolding sw(3,4) by simp
    note d2 = simD [OF s2]
    have un: "memcpy_loop B i addr hw_addr n action dn s = memcpy_loop B i addr hw_addr n action (dn + q) ?s2"
      by (subst memcpy_loop.simps)
        (simp add: True less.prems(2) q_def bar PXP_EXTERNAL_BAR_PF_WINDOW_SINGLE_SIZE_def Let_def)
    show ?thesis
    proof (cases "n \<le> dn + 0x1000")
      case last: True
      then have "q = n - dn" by (simp add: q_def)
      then show ?thesis using un s2 True by (simp add: memcpy_loop.simps [of _ _ _ _ _ _ n])
    next
      case more: False
      then have q: "q = 0x1000" by (simp add: q_def)
      have "sim V ?s2 (memcpy_loop B i addr hw_addr n action (dn + q) ?s2)
        (direct_copy G action i ((n - (dn + q)) div 4) (hw_addr + of_nat (dn + q)) (addr + of_nat (dn + q))
          (direct_of V ?s2))"
        using less.prems(2,3) d2 True q
        by (intro less.hyps [where m = "m + 1024"]) simp_all
      then have r: "sim V s (memcpy_loop B i addr hw_addr n action (dn + q) ?s2)
        (direct_copy G action i ((n - (dn + q)) div 4) (hw_addr + of_nat (dn + q)) (addr + of_nat (dn + q)) ?D2)"
        unfolding d2(3) by (rule sim_trans [OF s2])
      have k: "(n - dn) div 4 = 1024 + (n - (dn + 0x1000)) div 4" using more by presburger
      show ?thesis unfolding un k direct_copy_add using r unfolding q by (simp add: add.assoc)
    qed
  qed
qed

end
