(* ===== verification/Qed_Hw_Access.thy ===== *)
theory Qed_Hw_Access
  imports Qed_Hw_Correct Qed_Interfaces
begin

unbundle bit_operations_syntax

text \<open>
  Sequences of accesses. The pretend commands, the invalidation of the windows and the pool of
  the entries join the single accesses of \<open>Qed_Hw_Correct\<close>; then any sequence of them, through
  any entries, refines the same sequence without windows.
\<close>

section \<open>Pretend commands\<close>

definition direct_pretend :: "nat \<Rightarrow> u16 \<Rightarrow> u16 \<Rightarrow> 'g direct \<Rightarrow> 'g direct" where
  "direct_pretend i fid control D = D\<lparr>d_fid := (d_fid D)(i := fid),
     d_pret := (d_pret D)(i := ucast fid OR push_bit 16 (ucast control))\<rparr>"

lemma sim_write_pretend:
  assumes L: "pxp_windows B G V" and ok: "ptt_ok V s" and i: "i < 12"
    and p: "ptt_idx p = ptt_idx (ptt_at s i)" "pxp_offset p = pxp_offset (ptt_at s i)"
  shows "sim V s (write_pretend B i p s) (direct_pretend i (pxp_fid p) (pxp_control p) (direct_of V s))"
proof -
  note okD = ptt_okD [OF ok]
  let ?s = "write_pretend B i p s"
  have s: "?s = REG_WR B (of_nat i * 8 + 4) (pretend_word p) (ptt_put i p s)"
    using config_addr_entry [of p i] p(1) okD(3) [OF i] by (simp add: write_pretend_def)
  have at: "ptt_at ?s j = (if j = i then p else ptt_at s j)" for j
    using okD(1,2) i by (simp add: s ptt_at_put)
  have dev: "win V (device ?s) = win V (device s)"
    "pret V (device ?s) = (pret V (device s))(i := pretend_word p)"
    "chip V (device ?s) = chip V (device s)"
    using pxp_windowsD(4,5,6) [OF L i] by (simp_all add: s)
  show ?thesis
  proof (rule simI)
    have "ptt_idx (ptt_at ?s j) = of_nat j" if "j < 12" for j
      using okD(3) [OF that] p(1) by (auto simp: at)
    moreover have "pxp_offset (ptt_at ?s j) = QED_BAR_INVALID_OFFSET \<or>
        pxp_offset (ptt_at ?s j) = win V (device ?s) j \<and> pxp_offset (ptt_at ?s j) \<le> 0x7FFFFF"
      if "j < 12" for j
      using okD(4) [OF that] p(2) by (auto simp: at dev)
    moreover have "p_ptt_pool ?s \<noteq> None" "length (ptts (pool_of ?s)) = 12"
      using okD(2) by (simp_all add: s)
    ultimately show "ptt_ok V ?s" by (simp add: ptt_ok_def)
    show "hw_frame s ?s" by (simp add: hw_frame_def s REG_WR_def ptt_put_def pool_of_def)
    show "direct_of V ?s = direct_pretend i (pxp_fid p) (pxp_control p) (direct_of V s)"
      by (rule direct.equality)
        (simp_all add: direct_of_def direct_pretend_def dev at fun_eq_iff pretend_word_def, simp_all add: s)
  qed
qed

text \<open>The control words: function bits 15, 14, port bits 13, 1 and the port number in 3 and 2.\<close>

definition port_bits :: "u8 \<Rightarrow> u16" where
  "port_bits port = push_bit 2 (ucast port AND 3)"

lemmas pretend_fields = PXP_PRETEND_CMD_IS_CONCRETE_def PXP_PRETEND_CMD_PRETEND_FUNCTION_def
  PXP_PRETEND_CMD_PORT_def PXP_PRETEND_CMD_USE_PORT_def PXP_PRETEND_CMD_PRETEND_PORT_def SET_FIELD_def

lemma clear_set: "((x :: 'n::len word) AND NOT m) OR m = x OR m"
  by (rule bit_eqI) (auto simp: bit_simps)

lemma clear_set_bits:
  "(x :: u16) AND - 3 OR 2 = x OR 2" "x AND - 8193 OR 8192 = x OR 8192"
  "x AND - 32769 OR 32768 = x OR 32768" "x AND - 16385 OR 16384 = x OR 16384"
  using clear_set [of x 2] clear_set [of x 8192] clear_set [of x 32768] clear_set [of x 16384]
  by simp_all

lemma ucast_push: "ucast (push_bit k (w :: u64)) = (push_bit k (ucast w) :: u16)"
  by (rule bit_eqI) (auto simp: bit_simps)

lemma port_field: "ucast (push_bit 2 (ucast port) AND 12 :: u64) = port_bits port"
proof -
  have "push_bit 2 (ucast port) AND 12 = push_bit 2 (ucast port AND 3 :: u64)" by simp
  also have "ucast \<dots> = (push_bit 2 (ucast (ucast port AND 3 :: u64)) :: u16)"
    by (rule ucast_push)
  also have "ucast (ucast port AND 3 :: u64) = (ucast port AND 3 :: u16)"
    by (rule bit_eqI) (auto simp: bit_simps)
  finally show ?thesis by (simp add: port_bits_def)
qed

lemma sim_fid_pretend:
  assumes "pxp_windows B G V" "ptt_ok V s" "i < 12"
  shows "sim V s (qed_fid_pretend B i fid s)
    (direct_pretend i (fid_or_pfid fid) 0xE000 (direct_of V s))"
  using sim_write_pretend [OF assms, of "(ptt_at s i)\<lparr>pxp_control := 0xE000, pxp_fid := fid_or_pfid fid\<rparr>"]
  by (simp add: qed_fid_pretend_def pretend_fields)

lemma sim_port_unpretend:
  assumes "pxp_windows B G V" "ptt_ok V s" "i < 12"
  shows "sim V s (qed_port_unpretend B i s)
    (direct_pretend i (pxp_fid (ptt_at s i)) 0x2000 (direct_of V s))"
  using sim_write_pretend [OF assms, of "(ptt_at s i)\<lparr>pxp_control := 0x2000\<rparr>"]
  by (simp add: qed_port_unpretend_def pretend_fields)

lemma sim_port_pretend:
  assumes "pxp_windows B G V" "ptt_ok V s" "i < 12"
  shows "sim V s (qed_port_pretend B i port s)
    (direct_pretend i (pxp_fid (ptt_at s i)) (port_bits port OR 0x2002) (direct_of V s))"
  using sim_write_pretend [OF assms, of "(ptt_at s i)\<lparr>pxp_control := port_bits port OR 0x2002\<rparr>"]
  by (simp add: qed_port_pretend_def pretend_fields port_field clear_set_bits or.assoc)

lemma sim_port_fid_pretend:
  assumes "pxp_windows B G V" "ptt_ok V s" "i < 12"
  shows "sim V s (qed_port_fid_pretend B i port fid s)
    (direct_pretend i (fid_or_pfid fid) (port_bits port OR 0xE002) (direct_of V s))"
  using sim_write_pretend [OF assms, of
      "(ptt_at s i)\<lparr>pxp_control := port_bits port OR 0xE002, pxp_fid := fid_or_pfid fid\<rparr>"]
  by (simp add: qed_port_fid_pretend_def pretend_fields port_field clear_set_bits or.assoc)


section \<open>Invalidating the windows\<close>

lemma sim_put_invalid:
  assumes ok: "ptt_ok V s" and i: "i < 12"
  shows "sim V s (ptt_put i ((ptt_at s i)\<lparr>pxp_offset := QED_BAR_INVALID_OFFSET\<rparr>) s) (direct_of V s)"
proof -
  note okD = ptt_okD [OF ok]
  let ?p = "(ptt_at s i)\<lparr>pxp_offset := QED_BAR_INVALID_OFFSET\<rparr>"
  let ?s = "ptt_put i ?p s"
  have at: "ptt_at ?s j = (if j = i then ?p else ptt_at s j)" for j
    using okD(1,2) i by (simp add: ptt_at_put)
  show ?thesis
  proof (rule simI)
    have "ptt_idx (ptt_at ?s j) = of_nat j" if "j < 12" for j
      using okD(3) [OF that] by (auto simp: at)
    moreover have "pxp_offset (ptt_at ?s j) = QED_BAR_INVALID_OFFSET \<or>
        pxp_offset (ptt_at ?s j) = win V (device ?s) j \<and> pxp_offset (ptt_at ?s j) \<le> 0x7FFFFF"
      if "j < 12" for j
      using okD(4) [OF that] by (auto simp: at)
    ultimately show "ptt_ok V ?s" using okD(2) by (simp add: ptt_ok_def)
    show "hw_frame s ?s" by (simp add: hw_frame_def ptt_put_def pool_of_def)
    show "direct_of V ?s = direct_of V s"
      by (rule direct.equality) (simp_all add: direct_of_def at fun_eq_iff)
  qed
qed

lemma sim_invalidate_loop:
  "ptt_ok V s \<Longrightarrow> n \<le> 12 \<Longrightarrow> sim V s (ptt_invalidate_loop n s) (direct_of V s)"
proof (induction n)
  case 0
  then show ?case using sim_refl by simp
next
  case (Suc n)
  then have s1: "sim V s (ptt_invalidate_loop n s) (direct_of V s)" by simp
  note d1 = simD [OF s1]
  show ?case
    using sim_trans [OF s1 sim_put_invalid [OF d1(1), of n]] Suc.prems(2) d1(3) by (simp add: Let_def)
qed

lemma sim_invalidate: "ptt_ok V s \<Longrightarrow> sim V s (qed_ptt_invalidate s) (direct_of V s)"
  by (simp add: qed_ptt_invalidate_def PXP_EXTERNAL_BAR_PF_WINDOW_NUM_def sim_invalidate_loop)

text \<open>The global windows live elsewhere in the admin window.\<close>

lemma direct_of_self: "(direct_of V s)\<lparr>d_chip := chip V (device s)\<rparr> = direct_of V s"
  by (simp add: direct_of_def)

lemma sim_gtt_loop:
  assumes L: "pxp_windows B G V"
  shows "ptt_ok V s \<Longrightarrow> n \<le> 19 \<Longrightarrow> sim V s (gtt_loop B 0x200 n s) (direct_of V s)"
proof (induction n)
  case 0
  then show ?case using sim_refl by simp
next
  case (Suc n)
  then have s1: "sim V s (gtt_loop B 0x200 n s) (direct_of V s)" by simp
  note d1 = simD [OF s1]
  let ?a = "0x200 + of_nat n * PXP_GLOBAL_ENTRY_SIZE"
  have "unat (of_nat n * 4 :: u32) = n * 4" using Suc.prems(2) unat_of_nat_small [of "n * 4", where 'n = 32] by simp
  then have "unat ?a = 0x200 + n * 4"
    using Suc.prems(2) by (simp add: PXP_GLOBAL_ENTRY_SIZE_def unat_add_mod)
  then have a: "0x60 \<le> ?a" "?a < 0x1000" using Suc.prems(2) by (simp_all add: word_le_nat_alt word_less_nat_alt)
  have "sim V (gtt_loop B 0x200 n s) (REG_WR B ?a v (gtt_loop B 0x200 n s)) (direct_of V s)" for v
    unfolding REG_WR_def using d1(1) a
    by (intro sim_dev) (simp_all add: pxp_windowsD(7-9) [OF L] direct_of_self flip: d1(3))
  then show ?case using sim_trans [OF s1] s1 by (simp add: Let_def)
qed

lemma sim_gtt_init:
  assumes "pxp_windows B G V" "ptt_ok V s"
  shows "sim V s (qed_gtt_init B s) (direct_of V s)"
proof -
  have "length pxp_global_win \<le> 19" by (simp add: pxp_global_win_def)
  then show ?thesis
    using sim_gtt_loop [OF assms]
    unfolding qed_gtt_init_def PXP_PF_WINDOW_ADMIN_START_def PXP_PF_WINDOW_ADMIN_GLOBAL_START_def Let_def
    by (simp only: add_0_left)
qed

section \<open>Sequences of accesses\<close>

datatype access =
    AWr nat u32 u32
  | ARd nat u32
  | APpfidWr nat u8 u32 u32
  | APpfidRd nat u8 u32
  | AMemcpyTo nat u32 u64 nat
  | AMemcpyFrom nat u64 u32 nat
  | AMemzero nat u32 nat
  | AFidPretend nat u16
  | APortPretend nat u8
  | APortUnpretend nat
  | APortFidPretend nat u8 u16
  | ASetWin nat u32
  | AInvalidate
  | AGttInit

text \<open>An operation yields the value read, if it reads one.\<close>

fun do_access :: "'d bus \<Rightarrow> access \<Rightarrow> 'd qed_hwfn \<Rightarrow> u32 option \<times> 'd qed_hwfn" where
  "do_access B (AWr i a v) s = (None, qed_wr B i a v s)"
| "do_access B (ARd i a) s = map_prod Some id (qed_rd B i a s)"
| "do_access B (APpfidWr i pp a v) s = (None, qed_ppfid_wr B i pp a v s)"
| "do_access B (APpfidRd i pp a) s = map_prod Some id (qed_ppfid_rd B i pp a s)"
| "do_access B (AMemcpyTo i a src n) s = (None, qed_memcpy_to B i a src n s)"
| "do_access B (AMemcpyFrom i dest a n) s = (None, qed_memcpy_from B i dest a n s)"
| "do_access B (AMemzero i a n) s = (None, qed_memzero_hw B i a n s)"
| "do_access B (AFidPretend i fid) s = (None, qed_fid_pretend B i fid s)"
| "do_access B (APortPretend i port) s = (None, qed_port_pretend B i port s)"
| "do_access B (APortUnpretend i) s = (None, qed_port_unpretend B i s)"
| "do_access B (APortFidPretend i port fid) s = (None, qed_port_fid_pretend B i port fid s)"
| "do_access B (ASetWin i a) s = (None, qed_ptt_set_win B i a s)"
| "do_access B AInvalidate s = (None, qed_ptt_invalidate s)"
| "do_access B AGttInit s = (None, qed_gtt_init B s)"

fun run_accesses :: "'d bus \<Rightarrow> access list \<Rightarrow> 'd qed_hwfn \<Rightarrow> u32 option list \<times> 'd qed_hwfn" where
  "run_accesses B [] s = ([], s)"
| "run_accesses B (op # ops) s = (let (r, s) = do_access B op s; (rs, s) = run_accesses B ops s in (r # rs, s))"

text \<open>
  The same without windows. What a PPFID maps to and the own PF are read from the
  driver state, which no access changes.
\<close>

definition pf_fid :: "u8 \<Rightarrow> u16" where
  "pf_fid pf = fid_or_pfid (FIELD_VALUE PXP_PRETEND_CONCRETE_FID_PFID pf)"

fun direct_access :: "'g grc \<Rightarrow> 'd qed_hwfn \<Rightarrow> access \<Rightarrow> 'g direct \<Rightarrow> u32 option \<times> 'g direct" where
  "direct_access G h (AWr i a v) D = (None, direct_wr G (cdev h) i a v D)"
| "direct_access G h (ARd i a) D = map_prod Some id (direct_rd G (cdev h) i a D)"
| "direct_access G h (APpfidWr i pp a v) D = (None,
     direct_pretend i (pf_fid (rel_pf_id h)) 0xE000 (direct_wr G (cdev h) i a v
       (direct_pretend i (pf_fid (QED_PFID_BY_PPFID h pp)) 0xE000 D)))"
| "direct_access G h (APpfidRd i pp a) D = map_prod Some (direct_pretend i (pf_fid (rel_pf_id h)) 0xE000)
     (direct_rd G (cdev h) i a (direct_pretend i (pf_fid (QED_PFID_BY_PPFID h pp)) 0xE000 D))"
| "direct_access G h (AMemcpyTo i a src n) D =
     (None, if src = 0 then D else direct_copy G TO_DEVICE i (n div 4) a src D)"
| "direct_access G h (AMemcpyFrom i dest a n) D =
     (None, if dest = 0 then D else direct_copy G FROM_DEVICE i (n div 4) a dest D)"
| "direct_access G h (AMemzero i a n) D = (None, direct_copy G MEMZERO_DEVICE i (n div 4) a 0 D)"
| "direct_access G h (AFidPretend i fid) D = (None, direct_pretend i (fid_or_pfid fid) 0xE000 D)"
| "direct_access G h (APortPretend i port) D = (None, direct_pretend i (d_fid D i) (port_bits port OR 0x2002) D)"
| "direct_access G h (APortUnpretend i) D = (None, direct_pretend i (d_fid D i) 0x2000 D)"
| "direct_access G h (APortFidPretend i port fid) D =
     (None, direct_pretend i (fid_or_pfid fid) (port_bits port OR 0xE002) D)"
| "direct_access G h (ASetWin i a) D = (None, D)"
| "direct_access G h AInvalidate D = (None, D)"
| "direct_access G h AGttInit D = (None, D)"

fun run_direct :: "'g grc \<Rightarrow> 'd qed_hwfn \<Rightarrow> access list \<Rightarrow> 'g direct \<Rightarrow> u32 option list \<times> 'g direct" where
  "run_direct G h [] D = ([], D)"
| "run_direct G h (op # ops) D = (let (r, D) = direct_access G h op D; (rs, D) = run_direct G h ops D in (r # rs, D))"

text \<open>An operation names one of the twelve entries and registers that the windows reach.\<close>

fun access_ok :: "access \<Rightarrow> bool" where
  "access_ok (AWr i a v) \<longleftrightarrow> i < 12 \<and> grc_addr a"
| "access_ok (ARd i a) \<longleftrightarrow> i < 12 \<and> grc_addr a"
| "access_ok (APpfidWr i pp a v) \<longleftrightarrow> i < 12 \<and> grc_addr a"
| "access_ok (APpfidRd i pp a) \<longleftrightarrow> i < 12 \<and> grc_addr a"
| "access_ok (AMemcpyTo i a src n) \<longleftrightarrow> i < 12 \<and> grc_area a n"
| "access_ok (AMemcpyFrom i dest a n) \<longleftrightarrow> i < 12 \<and> grc_area a n"
| "access_ok (AMemzero i a n) \<longleftrightarrow> i < 12 \<and> grc_area a n"
| "access_ok (AFidPretend i fid) \<longleftrightarrow> i < 12"
| "access_ok (APortPretend i port) \<longleftrightarrow> i < 12"
| "access_ok (APortUnpretend i) \<longleftrightarrow> i < 12"
| "access_ok (APortFidPretend i port fid) \<longleftrightarrow> i < 12"
| "access_ok (ASetWin i a) \<longleftrightarrow> i < 12 \<and> grc_addr a"
| "access_ok AInvalidate \<longleftrightarrow> True"
| "access_ok AGttInit \<longleftrightarrow> True"


lemma sim_memcpy:
  assumes "pxp_windows B G V" "ptt_ok V s" "i < 12" "grc_area a n" "is_pf (cdev s)"
  shows "sim V s (qed_memcpy_hw B i addr a n action s)
    (if addr = 0 \<and> action \<noteq> MEMZERO_DEVICE then direct_of V s
     else direct_copy G action i (n div 4) a addr (direct_of V s))"
  using sim_memcpy_loop [OF assms(1,3,4,2,5), of 0 0 addr action] sim_refl [OF assms(2)]
  by (simp add: qed_memcpy_hw_def)

lemma sim_ppfid_wr:
  assumes L: "pxp_windows B G V" and ok: "ptt_ok V s" and i: "i < 12" and a: "grc_addr a"
  shows "sim V s (qed_ppfid_wr B i pp a v s)
    (direct_pretend i (pf_fid (rel_pf_id s)) 0xE000 (direct_wr G (cdev s) i a v
       (direct_pretend i (pf_fid (QED_PFID_BY_PPFID s pp)) 0xE000 (direct_of V s))))"
proof -
  let ?f = "FIELD_VALUE PXP_PRETEND_CONCRETE_FID_PFID (QED_PFID_BY_PPFID s pp)"
  let ?s1 = "qed_fid_pretend B i ?f s"
  note s1 = sim_fid_pretend [OF L ok i, of ?f]
  note d1 = simD [OF s1]
  let ?s2 = "qed_wr B i a v ?s1"
  note s2 = sim_trans [OF s1 sim_wr [OF L d1(1) i a, of v]]
  note d2 = simD [OF s2]
  note s3 = sim_trans [OF s2 sim_fid_pretend [OF L d2(1) i,
        of "FIELD_VALUE PXP_PRETEND_CONCRETE_FID_PFID (rel_pf_id ?s2)"]]
  have pf: "rel_pf_id ?s2 = rel_pf_id s" by (rule hw_frame_fields(2) [OF d2(2)])
  show ?thesis
    using s3 unfolding d2(3) unfolding d1(3,4) pf
    by (simp add: qed_ppfid_wr_def Let_def pf_fid_def pf)
qed

lemma sim_ppfid_rd:
  assumes L: "pxp_windows B G V" and ok: "ptt_ok V s" and i: "i < 12" and a: "grc_addr a"
  obtains v s' D where "qed_ppfid_rd B i pp a s = (v, s')"
    "direct_rd G (cdev s) i a (direct_pretend i (pf_fid (QED_PFID_BY_PPFID s pp)) 0xE000 (direct_of V s)) = (v, D)"
    "sim V s s' (direct_pretend i (pf_fid (rel_pf_id s)) 0xE000 D)"
proof -
  let ?f = "FIELD_VALUE PXP_PRETEND_CONCRETE_FID_PFID (QED_PFID_BY_PPFID s pp)"
  let ?s1 = "qed_fid_pretend B i ?f s"
  note s1 = sim_fid_pretend [OF L ok i, of ?f]
  note d1 = simD [OF s1]
  obtain v s2 D where s2: "qed_rd B i a ?s1 = (v, s2)" "direct_rd G (cdev ?s1) i a (direct_of V ?s1) = (v, D)"
    "sim V ?s1 s2 D" by (rule sim_rd [OF L d1(1) i a])
  note d2 = simD [OF sim_trans [OF s1 s2(3)]]
  note s3 = sim_trans [OF sim_trans [OF s1 s2(3)] sim_fid_pretend [OF L d2(1) i,
        of "FIELD_VALUE PXP_PRETEND_CONCRETE_FID_PFID (rel_pf_id s2)"]]
  have pf: "rel_pf_id s2 = rel_pf_id s" by (rule hw_frame_fields(2) [OF d2(2)])
  show thesis
  proof (rule that)
    show "qed_ppfid_rd B i pp a s = (v, qed_fid_pretend B i
        (FIELD_VALUE PXP_PRETEND_CONCRETE_FID_PFID (rel_pf_id s2)) s2)"
      by (simp add: qed_ppfid_rd_def Let_def s2(1))
    show "direct_rd G (cdev s) i a (direct_pretend i (pf_fid (QED_PFID_BY_PPFID s pp)) 0xE000 (direct_of V s)) = (v, D)"
      using s2(2) unfolding d1(3,4) pf_fid_def .
  qed (use s3 in \<open>simp add: d2(3) pf pf_fid_def\<close>)
qed

text \<open>One operation: the same value, and the same effect as seen from outside.\<close>

lemma sim_access:
  assumes L: "pxp_windows B G V" and ok: "ptt_ok V s" and pf: "is_pf (cdev s)" and op: "access_ok op"
  obtains r s' D where "do_access B op s = (r, s')" "direct_access G s op (direct_of V s) = (r, D)"
    "sim V s s' D"
proof -
  have "\<exists>r s' D. do_access B op s = (r, s') \<and> direct_access G s op (direct_of V s) = (r, D) \<and> sim V s s' D"
  proof (cases op)
    case (ARd i a)
    then show ?thesis using sim_rd [OF L ok] op
      by (metis access_ok.simps(2) direct_access.simps(2) do_access.simps(2) id_apply map_prod_simp)
  next
    case (APpfidRd i pp a)
    then show ?thesis using sim_ppfid_rd [OF L ok, of i a pp] op
      by (metis access_ok.simps(4) direct_access.simps(4) do_access.simps(4) id_apply map_prod_simp)
  next
    case (AMemcpyTo i a src n)
    then show ?thesis using sim_memcpy [OF L ok _ _ pf, of i a n src TO_DEVICE] op
      by (simp add: qed_memcpy_to_def)
  next
    case (AMemcpyFrom i dest a n)
    then show ?thesis using sim_memcpy [OF L ok _ _ pf, of i a n dest FROM_DEVICE] op
      by (simp add: qed_memcpy_from_def)
  next
    case (AMemzero i a n)
    then show ?thesis using sim_memcpy [OF L ok _ _ pf, of i a n 0 MEMZERO_DEVICE] op
      by (simp add: qed_memzero_hw_def)
  next
    case (ASetWin i a)
    then show ?thesis using set_win_ok [OF L ok] op by (simp add: sim_def)
  qed (use op sim_wr [OF L ok] sim_ppfid_wr [OF L ok] sim_fid_pretend [OF L ok] sim_port_pretend [OF L ok]
      sim_port_unpretend [OF L ok] sim_port_fid_pretend [OF L ok] sim_invalidate [OF ok] sim_gtt_init [OF L ok]
      in simp_all)
  then show thesis using that by blast
qed

lemma direct_access_frame:
  "hw_frame h h' \<Longrightarrow> direct_access G h' op D = direct_access G h op D"
  by (cases op) (simp_all add: hw_frame_fields QED_PFID_BY_PPFID_def MFW_PORT_def)

lemma run_direct_frame: "hw_frame h h' \<Longrightarrow> run_direct G h' ops D = run_direct G h ops D"
  by (induction ops arbitrary: D) (simp_all add: direct_access_frame)

lemma sim_run:
  assumes L: "pxp_windows B G V"
  shows "ptt_ok V s \<Longrightarrow> is_pf (cdev s) \<Longrightarrow> list_all access_ok ops \<Longrightarrow>
    \<exists>rs s' D. run_accesses B ops s = (rs, s') \<and> run_direct G s ops (direct_of V s) = (rs, D) \<and> sim V s s' D"
proof (induction ops arbitrary: s)
  case Nil
  then show ?case using sim_refl by simp
next
  case (Cons op ops)
  obtain r s1 D1 where s1: "do_access B op s = (r, s1)" "direct_access G s op (direct_of V s) = (r, D1)"
    "sim V s s1 D1"
    by (rule sim_access [OF L Cons.prems(1,2), of op]) (use Cons.prems(3) in simp)
  note d1 = simD [OF s1(3)]
  obtain rs s2 D2 where s2: "run_accesses B ops s1 = (rs, s2)" "run_direct G s1 ops (direct_of V s1) = (rs, D2)"
    "sim V s1 s2 D2"
    using Cons.IH [OF d1(1)] Cons.prems(2,3) d1(4) by auto
  have "run_direct G s ops D1 = (rs, D2)" using s2(2) unfolding d1(3) run_direct_frame [OF d1(2)] .
  then show ?case using s1 s2 sim_trans by fastforce
qed


section \<open>Memory behind the windows\<close>

text \<open>
  An area of the GRC space that is memory for the function \<open>p\<close> pretends to be: \<open>ram\<close> is its content,
  a write changes the addressed dword only, a read returns it and changes nothing.
\<close>

definition grc_ram :: "'g grc \<Rightarrow> u32 \<Rightarrow> ('g \<Rightarrow> u32 \<Rightarrow> u32) \<Rightarrow> u32 \<Rightarrow> nat \<Rightarrow> bool" where
  "grc_ram G p ram a k \<longleftrightarrow> (\<forall>g v. \<forall>j < k. ram (grc_wr G p (a + of_nat j * 4) v g) = (ram g)(a + of_nat j * 4 := v)
     \<and> fst (grc_rd G p (a + of_nat j * 4) g) = ram g (a + of_nat j * 4)
     \<and> ram (snd (grc_rd G p (a + of_nat j * 4) g)) = ram g)"

lemma grc_ramD:
  assumes "grc_ram G p ram a k" "j < k"
  shows "ram (grc_wr G p (a + of_nat j * 4) v g) = (ram g)(a + of_nat j * 4 := v)"
    "fst (grc_rd G p (a + of_nat j * 4) g) = ram g (a + of_nat j * 4)"
    "ram (snd (grc_rd G p (a + of_nat j * 4) g)) = ram g"
  using assms by (auto simp: grc_ram_def)

text \<open>The last dword of a copy, which is how the facts below are proved.\<close>

lemma direct_copy_Suc:
  "direct_copy G action i (Suc k) a host D =
     direct_copy G action i 1 (a + of_nat k * 4) (host + of_nat k * 4) (direct_copy G action i k a host D)"
  using direct_copy_add [of G action i k 1 a host D] by simp

lemma direct_copy_frame [simp]:
  "d_pret (direct_copy G action i k a host D) = d_pret D"
  "d_fid (direct_copy G action i k a host D) = d_fid D"
  "d_warn (direct_copy G action i k a host D) = d_warn D"
  by (induction k arbitrary: a host D) (auto split: memcpy_action.splits prod.splits)

lemma direct_copy_to:
  assumes "grc_ram G (d_pret D i) ram a n" "k \<le> n"
  shows "d_hmem (direct_copy G TO_DEVICE i k a src D) = d_hmem D \<and>
    ram (d_chip (direct_copy G TO_DEVICE i k a src D)) =
      put_dwords 4 a (get_dwords 4 src k (d_hmem D)) (ram (d_chip D))"
  using assms(2)
proof (induction k)
  case (Suc k)
  then show ?case using grc_ramD(1) [OF assms(1), of k]
    unfolding direct_copy_Suc get_dwords_snoc put_dwords_snoc by simp
qed simp

lemma direct_copy_from:
  assumes "grc_ram G (d_pret D i) ram a n" "k \<le> n"
  shows "ram (d_chip (direct_copy G FROM_DEVICE i k a dst D)) = ram (d_chip D) \<and>
    d_hmem (direct_copy G FROM_DEVICE i k a dst D) =
      put_dwords 4 dst (get_dwords 4 a k (ram (d_chip D))) (d_hmem D)"
  using assms(2)
proof (induction k)
  case (Suc k)
  then show ?case using grc_ramD(2,3) [OF assms(1), of k]
    unfolding direct_copy_Suc get_dwords_snoc put_dwords_snoc by (simp add: prod.case_eq_if)
qed simp

lemma direct_copy_zero:
  assumes "grc_ram G (d_pret D i) ram a n" "k \<le> n"
  shows "d_hmem (direct_copy G MEMZERO_DEVICE i k a src D) = d_hmem D \<and>
    ram (d_chip (direct_copy G MEMZERO_DEVICE i k a src D)) =
      put_dwords 4 a (replicate k 0) (ram (d_chip D))"
  using assms(2)
proof (induction k)
  case (Suc k)
  then show ?case using grc_ramD(1) [OF assms(1), of k]
    unfolding direct_copy_Suc replicate_Suc replicate_append_same [symmetric] put_dwords_snoc by simp
qed simp

section \<open>The pool of the entries\<close>

text \<open>
  The free list holds entries that are not reserved, each at most once. An attempt to acquire and
  a release are the two sections under the lock of the pool.
\<close>

definition pool_inv :: "'d qed_hwfn \<Rightarrow> bool" where
  "pool_inv s \<longleftrightarrow> p_ptt_pool s \<noteq> None \<and> distinct (ptt_free_list (pool_of s)) \<and>
     set (ptt_free_list (pool_of s)) \<subseteq> {4..<12}"

datatype pool_op = PoolTry | PoolRelease nat

fun pool_step :: "pool_op \<Rightarrow> 'd qed_hwfn \<Rightarrow> 'd qed_hwfn option" where
  "pool_step PoolTry s = Some (snd (ptt_try s))"
| "pool_step (PoolRelease i) s = Some (qed_ptt_release i s)"

fun pool_gain :: "pool_op \<Rightarrow> 'd qed_hwfn \<Rightarrow> nat multiset" where
  "pool_gain PoolTry s = {#}"
| "pool_gain (PoolRelease i) s = {#i#}"

fun pool_loss :: "pool_op \<Rightarrow> 'd qed_hwfn \<Rightarrow> nat multiset" where
  "pool_loss PoolTry s = (case fst (ptt_try s) of None \<Rightarrow> {#} | Some i \<Rightarrow> {#i#})"
| "pool_loss (PoolRelease i) s = {#}"

text \<open>Only an entry of general use that is not free is released.\<close>

fun pool_ok :: "pool_op \<Rightarrow> 'd qed_hwfn \<Rightarrow> bool" where
  "pool_ok PoolTry s \<longleftrightarrow> True"
| "pool_ok (PoolRelease i) s \<longleftrightarrow> i \<in> {4..<12} \<and> i \<notin> set (ptt_free_list (pool_of s))"

definition pool_owned :: "'d qed_hwfn \<Rightarrow> nat multiset" where
  "pool_owned s = mset (ptt_free_list (pool_of s))"

lemma pool_conserves:
  assumes "pool_inv s" "pool_ok op s"
  shows "\<exists>s'. pool_step op s = Some s' \<and> pool_inv s' \<and>
    pool_owned s' + pool_loss op s = pool_owned s + pool_gain op s"
proof (cases op)
  case PoolTry
  then show ?thesis using assms
    by (auto simp: ptt_try_def pool_inv_def pool_owned_def pool_of_def split: list.splits)
next
  case (PoolRelease i)
  then show ?thesis using assms
    by (auto simp: qed_ptt_release_def pool_inv_def pool_owned_def pool_of_def)
qed

interpretation pttp: conserving pool_step pool_inv pool_owned pool_gain pool_loss pool_ok
  by unfold_locales (rule pool_conserves)

lemma pool_init_facts:
  "n \<le> length (ptts pool) \<Longrightarrow> ptt_free_list pool = [] \<Longrightarrow>
     ptt_free_list (ptt_pool_init my n pool) = rev [4..<n] \<and>
     length (ptts (ptt_pool_init my n pool)) = length (ptts pool) \<and>
     (\<forall>i < n. ptt_idx (ptts (ptt_pool_init my n pool) ! i) = of_nat i \<and>
        pxp_offset (ptts (ptt_pool_init my n pool) ! i) = QED_BAR_INVALID_OFFSET)"
  by (induction n) (auto simp: Let_def list_add_def nth_list_update less_Suc_eq)

lemma pool_alloc_ok:
  assumes "length (ptts pool) = 12" "qed_ptt_pool_alloc (Some pool) s = (rc, s')"
  shows "rc = RC_OK" "pool_inv s'" "ptt_free_list (pool_of s') = rev [4..<12]" "ptt_ok V s'"
    "device s' = device s" "cdev s' = cdev s"
proof -
  let ?p = "ptt_pool_init (my_id s) 12 (pool\<lparr>ptt_free_list := []\<rparr>)"
  have s': "s' = s\<lparr>p_ptt_pool := Some ?p\<rparr>" "rc = RC_OK"
    using assms(2) by (simp_all add: qed_ptt_pool_alloc_def PXP_EXTERNAL_BAR_PF_WINDOW_NUM_def Let_def)
  note i = pool_init_facts [of 12 "pool\<lparr>ptt_free_list := []\<rparr>" "my_id s"]
  show "rc = RC_OK" "device s' = device s" "cdev s' = cdev s" by (simp_all add: s')
  show f: "ptt_free_list (pool_of s') = rev [4..<12]" using i assms(1) by (simp add: s' pool_of_def)
  then show "pool_inv s'" by (simp add: pool_inv_def s' pool_of_def del: set_upt upt_rec_numeral) auto
  show "ptt_ok V s'" using i assms(1) by (simp add: ptt_ok_def s' pool_of_def ptt_at_def)
qed

text \<open>
  \<open>qed_ptt_acquire\<close> returns an entry exactly when the free list is not empty at one of its
  attempts; then it is the head of the list.
\<close>

lemma acquire_loop_now:
  "ptt_free_list (pool_of s) = x # xs \<Longrightarrow> 0 < left \<Longrightarrow>
     ptt_acquire_loop rels left n s = (Some x, snd (ptt_try s))"
  by (cases left) (simp_all add: ptt_try_def)

lemma acquire_loop_never:
  "ptt_free_list (pool_of s) = [] \<Longrightarrow> (\<And>j. j < left \<Longrightarrow> rels (n + j) = []) \<Longrightarrow>
     ptt_acquire_loop rels left n s = (None, s)"
proof (induction left arbitrary: n)
  case (Suc left)
  have "rels n = []" using Suc.prems(2) [of 0] by simp
  moreover have "ptt_acquire_loop rels left (Suc n) s = (None, s)"
    using Suc.prems(1) Suc.prems(2) [of "Suc j" for j] by (intro Suc.IH) simp_all
  ultimately show ?case using Suc.prems(1) by (simp add: ptt_try_def)
qed simp

lemma release_free: "p_ptt_pool s \<noteq> None \<Longrightarrow>
  p_ptt_pool (fold qed_ptt_release xs s) \<noteq> None \<and>
  ptt_free_list (pool_of (fold qed_ptt_release xs s)) = rev xs @ ptt_free_list (pool_of s)"
  by (induction xs arbitrary: s) (simp_all add: qed_ptt_release_def pool_of_def list_add_def)

lemma acquire_loop_wait:
  assumes "p_ptt_pool s \<noteq> None" "ptt_free_list (pool_of s) = []" "\<And>j. j < w \<Longrightarrow> rels (n + j) = []"
    "rels (n + w) = xs @ [x]" "Suc w < left"
  shows "fst (ptt_acquire_loop rels left n s) = Some x"
  using assms
proof (induction w arbitrary: n left)
  case 0
  then obtain l where l: "left = Suc l" "0 < l" by (cases left) auto
  let ?s = "fold qed_ptt_release (rels n) s"
  have "ptt_free_list (pool_of ?s) = x # rev xs" using release_free [OF 0(1), of "rels n"] 0(2,4) by simp
  then show ?case using l 0(2) acquire_loop_now [of ?s x "rev xs" l rels "Suc n"] by (simp add: ptt_try_def)
next
  case (Suc w)
  then obtain l where l: "left = Suc l" by (cases left) auto
  have "rels n = []" using Suc.prems(3) [of 0] by simp
  moreover have "fst (ptt_acquire_loop rels l (Suc n) s) = Some x"
    using Suc.prems l by (intro Suc.IH) (auto simp: Suc.prems(3) [of "Suc j" for j, simplified])
  ultimately show ?case using l Suc.prems(2) by (simp add: ptt_try_def)
qed

end
