(* ===== verification/Qed_Dmae.thy ===== *)
theory Qed_Dmae
  imports Qed_Hw
begin

unbundle bit_operations_syntax

text \<open>
  The DMA engine of the chip (DMAE), \<open>qed_hw.c\<close>, second half. A command copies a block of
  dwords between the GRC space and host memory: the driver fills a command, writes it into the
  engine's command memory, starts it and polls a completion word. A long request is split into
  commands of at most \<open>DMAE_MAX_RW_SIZE\<close> dwords; data at a virtual address passes through an
  intermediate buffer that the device can reach.

  Memory shared with the device is part of the device's state and is accessed by \<open>dma_rd\<close> and
  \<open>dma_wr\<close> of the bus. The argument \<open>N\<close> of the operations stands for the report to the
  management firmware at the end of \<open>qed_hw_err_notify\<close>, which is not modelled.
\<close>

section \<open>Constants and fields\<close>

definition DMAE_GO_VALUE :: u32 where "DMAE_GO_VALUE = 1"
definition DMAE_COMPLETION_VAL :: u32 where "DMAE_COMPLETION_VAL = 0xD1AE"
definition DMAE_CMD_ENDIANITY :: u64 where "DMAE_CMD_ENDIANITY = 2"
definition DMAE_CMD_SIZE :: nat where "DMAE_CMD_SIZE = 14"
definition DMAE_CMD_SIZE_TO_FILL :: nat where "DMAE_CMD_SIZE_TO_FILL = DMAE_CMD_SIZE - 5"
definition DMAE_MIN_WAIT_TIME :: nat where "DMAE_MIN_WAIT_TIME = 2"
definition DMAE_MAX_RW_SIZE :: u16 where "DMAE_MAX_RW_SIZE = 0x2000"
definition DMAE_REG_GO_C0 :: u32 where "DMAE_REG_GO_C0 = 0x00c048"
definition DMAE_REG_CMD_MEM :: u32 where "DMAE_REG_CMD_MEM = 0x00c800"
definition QED_EMUL_FACTOR :: nat where "QED_EMUL_FACTOR = 2000"
definition QED_FPGA_FACTOR :: nat where "QED_FPGA_FACTOR = 200"

definition DMA_LO :: "u64 \<Rightarrow> u32" where "DMA_LO x = ucast (x AND 0xffffffff)"
definition DMA_HI :: "u64 \<Rightarrow> u32" where "DMA_HI x = ucast (drop_bit 32 x)"

definition DMAE_CMD_SRC :: "nat \<times> nat" where "DMAE_CMD_SRC = (1, 0)"
definition DMAE_CMD_DST :: "nat \<times> nat" where "DMAE_CMD_DST = (3, 1)"
definition DMAE_CMD_SRC_ADDR_RESET :: "nat \<times> nat" where "DMAE_CMD_SRC_ADDR_RESET = (1, 5)"
definition DMAE_CMD_DST_ADDR_RESET :: "nat \<times> nat" where "DMAE_CMD_DST_ADDR_RESET = (1, 6)"
definition DMAE_CMD_COMP_FUNC :: "nat \<times> nat" where "DMAE_CMD_COMP_FUNC = (1, 7)"
definition DMAE_CMD_COMP_WORD_EN :: "nat \<times> nat" where "DMAE_CMD_COMP_WORD_EN = (1, 8)"
definition DMAE_CMD_ENDIANITY_MODE :: "nat \<times> nat" where "DMAE_CMD_ENDIANITY_MODE = (3, 14)"
definition DMAE_CMD_PORT_ID :: "nat \<times> nat" where "DMAE_CMD_PORT_ID = (3, 18)"
definition DMAE_CMD_SRC_PF_ID :: "nat \<times> nat" where "DMAE_CMD_SRC_PF_ID = (0xF, 20)"
definition DMAE_CMD_DST_PF_ID :: "nat \<times> nat" where "DMAE_CMD_DST_PF_ID = (0xF, 24)"
definition DMAE_CMD_SRC_VF_ID_VALID :: "nat \<times> nat" where "DMAE_CMD_SRC_VF_ID_VALID = (1, 28)"
definition DMAE_CMD_DST_VF_ID_VALID :: "nat \<times> nat" where "DMAE_CMD_DST_VF_ID_VALID = (1, 29)"
definition DMAE_CMD_SRC_VF_ID :: "nat \<times> nat" where "DMAE_CMD_SRC_VF_ID = (0xFF, 0)"
definition DMAE_CMD_DST_VF_ID :: "nat \<times> nat" where "DMAE_CMD_DST_VF_ID = (0xFF, 8)"

definition dmae_cmd_src_pcie :: u64 where "dmae_cmd_src_pcie = 0"
definition dmae_cmd_src_grc :: u64 where "dmae_cmd_src_grc = 1"
definition dmae_cmd_dst_pcie :: u64 where "dmae_cmd_dst_pcie = 1"
definition dmae_cmd_dst_grc :: u64 where "dmae_cmd_dst_grc = 2"

text \<open>\<open>struct dmae_params\<close>; a \<open>NULL\<close> pointer is \<open>None\<close> and has no flag set.\<close>

record dmae_params =
  dp_flags :: u32
  dp_src_vf_id :: u8
  dp_dst_vf_id :: u8
  dp_port_id :: u8
  dp_src_pf_id :: u8
  dp_dst_pf_id :: u8

definition DMAE_PARAMS_RW_REPL_SRC :: "nat \<times> nat" where "DMAE_PARAMS_RW_REPL_SRC = (1, 0)"
definition DMAE_PARAMS_SRC_VF_VALID :: "nat \<times> nat" where "DMAE_PARAMS_SRC_VF_VALID = (1, 1)"
definition DMAE_PARAMS_DST_VF_VALID :: "nat \<times> nat" where "DMAE_PARAMS_DST_VF_VALID = (1, 2)"
definition DMAE_PARAMS_COMPLETION_DST :: "nat \<times> nat" where "DMAE_PARAMS_COMPLETION_DST = (1, 3)"
definition DMAE_PARAMS_PORT_VALID :: "nat \<times> nat" where "DMAE_PARAMS_PORT_VALID = (1, 4)"
definition DMAE_PARAMS_SRC_PF_VALID :: "nat \<times> nat" where "DMAE_PARAMS_SRC_PF_VALID = (1, 5)"
definition DMAE_PARAMS_DST_PF_VALID :: "nat \<times> nat" where "DMAE_PARAMS_DST_PF_VALID = (1, 6)"

definition QED_DMAE_FLAGS_IS_SET :: "dmae_params option \<Rightarrow> nat \<times> nat \<Rightarrow> bool" where
  "QED_DMAE_FLAGS_IS_SET params flag =
     (case params of None \<Rightarrow> False | Some p \<Rightarrow> GET_FIELD (dp_flags p) flag \<noteq> 0)"

section \<open>Buffers\<close>

text \<open>
  \<open>qed_dmae_info_alloc\<close> and \<open>qed_dmae_info_free\<close>. The arguments \<open>a1\<close>, \<open>a2\<close>, \<open>a3\<close> are the bus
  addresses \<open>dma_alloc_coherent\<close> returns, \<open>None\<close> when it fails; \<open>cmd0\<close> is the unspecified content of a
  fresh command. The second component of the results lists the buffers given back, by bus address.
\<close>

definition qed_dmae_info_free :: "'d qed_hwfn \<Rightarrow> u64 list \<times> 'd qed_hwfn" where
  "qed_dmae_info_free s = (let
     i = (dmae_info s)\<lparr>b_mem_ready := False\<rparr>;
     (f1, i) = (if p_completion_word i
       then ([completion_word_phys_addr i], i\<lparr>p_completion_word := False\<rparr>) else ([], i));
     (f2, i) = (if p_dmae_cmd i \<noteq> None
       then ([dmae_cmd_phys_addr i], i\<lparr>p_dmae_cmd := None\<rparr>) else ([], i));
     (f3, i) = (if p_intermediate_buffer i
       then ([intermediate_buffer_phys_addr i], i\<lparr>p_intermediate_buffer := False\<rparr>) else ([], i))
     in (f1 @ f2 @ f3, s\<lparr>dmae_info := i\<rparr>))"

definition qed_dmae_info_alloc ::
  "u64 option \<Rightarrow> u64 option \<Rightarrow> u64 option \<Rightarrow> dmae_cmd \<Rightarrow> 'd qed_hwfn \<Rightarrow> rc \<times> u64 list \<times> 'd qed_hwfn" where
  "qed_dmae_info_alloc a1 a2 a3 cmd0 s = (let
     err = (\<lambda>s. (RC_ERR ENOMEM, qed_dmae_info_free s)) in
     (case a1 of None \<Rightarrow> err (s\<lparr>dmae_info := (dmae_info s)\<lparr>p_completion_word := False\<rparr>\<rparr>)
      | Some p1 \<Rightarrow> (let s = s\<lparr>dmae_info := (dmae_info s)\<lparr>p_completion_word := True,
            completion_word_phys_addr := p1\<rparr>\<rparr> in
     (case a2 of None \<Rightarrow> err (s\<lparr>dmae_info := (dmae_info s)\<lparr>p_dmae_cmd := None\<rparr>\<rparr>)
      | Some p2 \<Rightarrow> (let s = s\<lparr>dmae_info := (dmae_info s)\<lparr>p_dmae_cmd := Some cmd0,
            dmae_cmd_phys_addr := p2\<rparr>\<rparr> in
     (case a3 of None \<Rightarrow> err (s\<lparr>dmae_info := (dmae_info s)\<lparr>p_intermediate_buffer := False\<rparr>\<rparr>)
      | Some p3 \<Rightarrow> (let s = s\<lparr>dmae_info := (dmae_info s)\<lparr>p_intermediate_buffer := True,
            intermediate_buffer_phys_addr := p3\<rparr>\<rparr>
          in (RC_OK, [], s\<lparr>dmae_info := (dmae_info s)\<lparr>channel := rel_pf_id s, b_mem_ready := True\<rparr>\<rparr>))))))))"

section \<open>Commands\<close>

definition dmae_cmd_of :: "'d qed_hwfn \<Rightarrow> dmae_cmd" where
  "dmae_cmd_of s = the (p_dmae_cmd (dmae_info s))"

definition put_dmae_cmd :: "dmae_cmd \<Rightarrow> 'd qed_hwfn \<Rightarrow> 'd qed_hwfn" where
  "put_dmae_cmd cmd s = s\<lparr>dmae_info := (dmae_info s)\<lparr>p_dmae_cmd := Some cmd\<rparr>\<rparr>"

definition qed_dmae_opcode ::
  "bool \<Rightarrow> bool \<Rightarrow> dmae_params option \<Rightarrow> 'd qed_hwfn \<Rightarrow> 'd qed_hwfn" where
  "qed_dmae_opcode is_src_type_grc is_dst_type_grc p_params s = (let
     op = SET_FIELD (0 :: u32) DMAE_CMD_SRC (if is_src_type_grc then dmae_cmd_src_grc else dmae_cmd_src_pcie);
     src_pf = (if QED_DMAE_FLAGS_IS_SET p_params DMAE_PARAMS_SRC_PF_VALID
       then dp_src_pf_id (the p_params) else rel_pf_id s);
     op = SET_FIELD op DMAE_CMD_SRC_PF_ID (ucast src_pf);
     op = SET_FIELD op DMAE_CMD_DST (if is_dst_type_grc then dmae_cmd_dst_grc else dmae_cmd_dst_pcie);
     dst_pf = (if QED_DMAE_FLAGS_IS_SET p_params DMAE_PARAMS_DST_PF_VALID
       then dp_dst_pf_id (the p_params) else rel_pf_id s);
     op = SET_FIELD op DMAE_CMD_DST_PF_ID (ucast dst_pf);
     op = SET_FIELD op DMAE_CMD_COMP_WORD_EN 1;
     op = SET_FIELD op DMAE_CMD_SRC_ADDR_RESET 1;
     op = (if QED_DMAE_FLAGS_IS_SET p_params DMAE_PARAMS_COMPLETION_DST
       then SET_FIELD op DMAE_CMD_COMP_FUNC 1 else op);
     op = SET_FIELD op DMAE_CMD_ENDIANITY_MODE DMAE_CMD_ENDIANITY;
     port = (if QED_DMAE_FLAGS_IS_SET p_params DMAE_PARAMS_PORT_VALID
       then dp_port_id (the p_params) else hw_port_id s);
     op = SET_FIELD op DMAE_CMD_PORT_ID (ucast port);
     op = SET_FIELD op DMAE_CMD_SRC_ADDR_RESET 1;
     op = SET_FIELD op DMAE_CMD_DST_ADDR_RESET 1;
     (op, op_b) = (if QED_DMAE_FLAGS_IS_SET p_params DMAE_PARAMS_SRC_VF_VALID
       then (SET_FIELD op DMAE_CMD_SRC_VF_ID_VALID 1,
             SET_FIELD (0 :: u16) DMAE_CMD_SRC_VF_ID (ucast (dp_src_vf_id (the p_params))))
       else (op, SET_FIELD 0 DMAE_CMD_SRC_VF_ID 0xFF));
     (op, op_b) = (if QED_DMAE_FLAGS_IS_SET p_params DMAE_PARAMS_DST_VF_VALID
       then (SET_FIELD op DMAE_CMD_DST_VF_ID_VALID 1,
             SET_FIELD op_b DMAE_CMD_DST_VF_ID (ucast (dp_dst_vf_id (the p_params))))
       else (op, SET_FIELD op_b DMAE_CMD_DST_VF_ID 0xFF))
     in put_dmae_cmd ((dmae_cmd_of s)\<lparr>opcode := op, opcode_b := op_b\<rparr>) s)"

definition qed_dmae_idx_to_go_cmd :: "u8 \<Rightarrow> u32" where
  "qed_dmae_idx_to_go_cmd idx = DMAE_REG_GO_C0 + push_bit 2 (ucast idx)"

text \<open>Dword \<open>i\<close> of the command as it lies in memory, for the nine dwords that are filled.\<close>

definition dmae_cmd_dword :: "dmae_cmd \<Rightarrow> nat \<Rightarrow> u32" where
  "dmae_cmd_dword c i = [opcode c, src_addr_lo c, src_addr_hi c, dst_addr_lo c, dst_addr_hi c,
     ucast (length_dw c) OR push_bit 16 (ucast (opcode_b c)),
     comp_addr_lo c, comp_addr_hi c, comp_val c] ! i"

primrec dmae_fill_cmd_mem :: "'d bus \<Rightarrow> nat \<Rightarrow> u8 \<Rightarrow> dmae_cmd \<Rightarrow> nat \<Rightarrow> 'd qed_hwfn \<Rightarrow> 'd qed_hwfn" where
  "dmae_fill_cmd_mem B p_ptt idx_cmd cmd 0 s = s"
| "dmae_fill_cmd_mem B p_ptt idx_cmd cmd (Suc i) s = (let
     s = dmae_fill_cmd_mem B p_ptt idx_cmd cmd i s;
     data = (if i < DMAE_CMD_SIZE_TO_FILL then dmae_cmd_dword cmd i else 0)
     in qed_wr B p_ptt (DMAE_REG_CMD_MEM + (ucast idx_cmd * of_nat DMAE_CMD_SIZE * 4) + (of_nat i * 4)) data s)"

definition qed_dmae_post_command :: "'d bus \<Rightarrow> nat \<Rightarrow> 'd qed_hwfn \<Rightarrow> rc \<times> 'd qed_hwfn" where
  "qed_dmae_post_command B p_ptt s = (let
     p_command = dmae_cmd_of s;
     idx_cmd = channel (dmae_info s)
     in if (dst_addr_lo p_command = 0 \<and> dst_addr_hi p_command = 0) \<or>
           (src_addr_lo p_command = 0 \<and> src_addr_hi p_command = 0)
        then (RC_ERR EINVAL, s)
        else (let s = dmae_fill_cmd_mem B p_ptt idx_cmd p_command DMAE_CMD_SIZE s
              in (RC_OK, qed_wr B p_ptt (qed_dmae_idx_to_go_cmd idx_cmd) DMAE_GO_VALUE s)))"

text \<open>The completion word; the wait is bounded by a limit that depends on the chip revision.\<close>

definition completion_word :: "'d bus \<Rightarrow> 'd qed_hwfn \<Rightarrow> u32" where
  "completion_word B s = dma_rd B (completion_word_phys_addr (dmae_info s)) (device s)"

definition dma_put :: "'d bus \<Rightarrow> u64 \<Rightarrow> u32 \<Rightarrow> 'd qed_hwfn \<Rightarrow> 'd qed_hwfn" where
  "dma_put B a v s = s\<lparr>device := dma_wr B a v (device s)\<rparr>"

definition wait_cnt_limit :: "qed_cdev \<Rightarrow> nat" where
  "wait_cnt_limit c = 10000 * (if CHIP_REV_IS_EMUL (chip_rev c) then QED_EMUL_FACTOR
     else if CHIP_REV_IS_FPGA (chip_rev c) then QED_FPGA_FACTOR else 1)"

function dmae_wait_loop :: "'d bus \<Rightarrow> nat \<Rightarrow> nat \<Rightarrow> 'd qed_hwfn \<Rightarrow> rc \<times> 'd qed_hwfn" where
  "dmae_wait_loop B limit wait_cnt s =
     (if completion_word B s \<noteq> DMAE_COMPLETION_VAL then (let
        s = udelay B DMAE_MIN_WAIT_TIME s;
        wait_cnt = Suc wait_cnt
        in if limit < wait_cnt then (RC_ERR EBUSY, s) else dmae_wait_loop B limit wait_cnt s)
      else (RC_OK, s))"
  by pat_completeness auto
termination
  by (relation "measure (\<lambda>(B, limit, wait_cnt, s). Suc limit - wait_cnt)") auto

declare dmae_wait_loop.simps [simp del]

definition qed_dmae_operation_wait :: "'d bus \<Rightarrow> 'd qed_hwfn \<Rightarrow> rc \<times> 'd qed_hwfn" where
  "qed_dmae_operation_wait B s = (let
     (qed_status, s) = dmae_wait_loop B (wait_cnt_limit (cdev s)) 0 s
     in if qed_status = RC_OK
        then (RC_OK, dma_put B (completion_word_phys_addr (dmae_info s)) 0 s) else (qed_status, s))"

section \<open>Operations\<close>

datatype qed_dmae_address_type =
  QED_DMAE_ADDRESS_HOST_VIRT | QED_DMAE_ADDRESS_HOST_PHYS | QED_DMAE_ADDRESS_GRC

text \<open>The two \<open>memcpy\<close> calls between host memory and the intermediate buffer.\<close>

primrec memcpy_to_dma :: "'d bus \<Rightarrow> u64 \<Rightarrow> u64 \<Rightarrow> nat \<Rightarrow> 'd qed_hwfn \<Rightarrow> 'd qed_hwfn" where
  "memcpy_to_dma B dst src 0 s = s"
| "memcpy_to_dma B dst src (Suc k) s =
     memcpy_to_dma B (dst + 4) (src + 4) k (dma_put B dst (hmem s src) s)"

primrec memcpy_from_dma :: "'d bus \<Rightarrow> u64 \<Rightarrow> u64 \<Rightarrow> nat \<Rightarrow> 'd qed_hwfn \<Rightarrow> 'd qed_hwfn" where
  "memcpy_from_dma B dst src 0 s = s"
| "memcpy_from_dma B dst src (Suc k) s =
     memcpy_from_dma B (dst + 4) (src + 4) k (s\<lparr>hmem := (hmem s)(dst := dma_rd B src (device s))\<rparr>)"

definition qed_dmae_execute_sub_operation ::
  "'d bus \<Rightarrow> nat \<Rightarrow> u64 \<Rightarrow> u64 \<Rightarrow> qed_dmae_address_type \<Rightarrow> qed_dmae_address_type \<Rightarrow> u32 \<Rightarrow>
     'd qed_hwfn \<Rightarrow> rc \<times> 'd qed_hwfn" where
  "qed_dmae_execute_sub_operation B p_ptt src_addr dst_addr src_type dst_type len s = (let
     phys = intermediate_buffer_phys_addr (dmae_info s);
     s = (case src_type of
         QED_DMAE_ADDRESS_HOST_VIRT \<Rightarrow>
           memcpy_to_dma B phys src_addr (unat len)
             (put_dmae_cmd ((dmae_cmd_of s)\<lparr>src_addr_hi := DMA_HI phys, src_addr_lo := DMA_LO phys\<rparr>) s)
       | _ \<Rightarrow> put_dmae_cmd ((dmae_cmd_of s)\<lparr>src_addr_hi := DMA_HI src_addr, src_addr_lo := DMA_LO src_addr\<rparr>) s);
     s = (case dst_type of
         QED_DMAE_ADDRESS_HOST_VIRT \<Rightarrow>
           put_dmae_cmd ((dmae_cmd_of s)\<lparr>dst_addr_hi := DMA_HI phys, dst_addr_lo := DMA_LO phys\<rparr>) s
       | _ \<Rightarrow> put_dmae_cmd ((dmae_cmd_of s)\<lparr>dst_addr_hi := DMA_HI dst_addr, dst_addr_lo := DMA_LO dst_addr\<rparr>) s);
     s = put_dmae_cmd ((dmae_cmd_of s)\<lparr>length_dw := ucast len\<rparr>) s;
     (_, s) = qed_dmae_post_command B p_ptt s;
     (qed_status, s) = qed_dmae_operation_wait B s
     in if qed_status \<noteq> RC_OK then (qed_status, s)
        else (RC_OK, if dst_type = QED_DMAE_ADDRESS_HOST_VIRT
                     then memcpy_from_dma B dst_addr phys (unat len) s else s))"

definition qed_hw_err_notify ::
  "(nat \<Rightarrow> 'd qed_hwfn \<Rightarrow> 'd qed_hwfn) \<Rightarrow> nat \<Rightarrow> qed_hw_err_type \<Rightarrow> 'd qed_hwfn \<Rightarrow> 'd qed_hwfn" where
  "qed_hw_err_notify N p_ptt err_type s =
     (if QED_RECOV_IN_PROG (cdev s) \<and> err_type \<noteq> QED_HW_ERR_FAN_FAIL then s
      else N p_ptt (s\<lparr>hw_errors := hw_errors s @ [err_type]\<rparr>))"

text \<open>A request: what stays fixed while \<open>qed_dmae_execute_command\<close> goes through its parts.\<close>

record dmae_req =
  rq_src_addr :: u64
  rq_dst_addr :: u64
  rq_src_type :: qed_dmae_address_type
  rq_dst_type :: qed_dmae_address_type
  rq_params :: "dmae_params option"
  rq_cnt_split :: u16
  rq_length_mod :: u16

definition dmae_split_offset :: "u16 \<Rightarrow> u32" where
  "dmae_split_offset i = ucast DMAE_MAX_RW_SIZE * ucast i"

definition dmae_split_src :: "dmae_req \<Rightarrow> u16 \<Rightarrow> u64" where
  "dmae_split_src r i = (if \<not> QED_DMAE_FLAGS_IS_SET (rq_params r) DMAE_PARAMS_RW_REPL_SRC
     then (if rq_src_type r = QED_DMAE_ADDRESS_GRC then rq_src_addr r + ucast (dmae_split_offset i)
           else rq_src_addr r + ucast (dmae_split_offset i * 4))
     else rq_src_addr r)"

definition dmae_split_dst :: "dmae_req \<Rightarrow> u16 \<Rightarrow> u64" where
  "dmae_split_dst r i = (if rq_dst_type r = QED_DMAE_ADDRESS_GRC
     then rq_dst_addr r + ucast (dmae_split_offset i)
     else rq_dst_addr r + ucast (dmae_split_offset i * 4))"

definition dmae_split_len :: "dmae_req \<Rightarrow> u16 \<Rightarrow> u16" where
  "dmae_split_len r i = (if rq_cnt_split r = i then rq_length_mod r else DMAE_MAX_RW_SIZE)"

text \<open>One round of the loop over the parts: an empty part is skipped, a failure is reported.\<close>

definition dmae_split_one ::
  "'d bus \<Rightarrow> (nat \<Rightarrow> 'd qed_hwfn \<Rightarrow> 'd qed_hwfn) \<Rightarrow> nat \<Rightarrow> dmae_req \<Rightarrow> u16 \<Rightarrow> 'd qed_hwfn \<Rightarrow> rc \<times> 'd qed_hwfn" where
  "dmae_split_one B N p_ptt r i s =
     (if dmae_split_len r i = 0 then (RC_OK, s)
      else (let (qed_status, s) = qed_dmae_execute_sub_operation B p_ptt (dmae_split_src r i)
                  (dmae_split_dst r i) (rq_src_type r) (rq_dst_type r) (ucast (dmae_split_len r i)) s
            in if qed_status \<noteq> RC_OK
               then (qed_status, qed_hw_err_notify N p_ptt QED_HW_ERR_DMAE_FAIL s) else (RC_OK, s)))"

text \<open>The loop. Its counter has 16 bits and the bound is inclusive, so it may not end.\<close>

partial_function (option) dmae_split_loop ::
  "'d bus \<Rightarrow> (nat \<Rightarrow> 'd qed_hwfn \<Rightarrow> 'd qed_hwfn) \<Rightarrow> nat \<Rightarrow> dmae_req \<Rightarrow> u16 \<Rightarrow> 'd qed_hwfn \<Rightarrow>
     (rc \<times> 'd qed_hwfn) option" where
  "dmae_split_loop B N p_ptt r i s =
     (if i \<le> rq_cnt_split r
      then (case dmae_split_one B N p_ptt r i s of
              (RC_OK, s') \<Rightarrow> dmae_split_loop B N p_ptt r (i + 1) s'
            | (e, s') \<Rightarrow> Some (e, s'))
      else Some (RC_OK, s))"

definition qed_dmae_execute_command ::
  "'d bus \<Rightarrow> (nat \<Rightarrow> 'd qed_hwfn \<Rightarrow> 'd qed_hwfn) \<Rightarrow> nat \<Rightarrow> u64 \<Rightarrow> u64 \<Rightarrow> qed_dmae_address_type \<Rightarrow>
     qed_dmae_address_type \<Rightarrow> u32 \<Rightarrow> dmae_params option \<Rightarrow> 'd qed_hwfn \<Rightarrow> (rc \<times> 'd qed_hwfn) option" where
  "qed_dmae_execute_command B N p_ptt src_addr dst_addr src_type dst_type size_in_dwords p_params s = (let
     phys = completion_word_phys_addr (dmae_info s)
     in if \<not> b_mem_ready (dmae_info s) then Some (RC_ERR ENOMEM, s)
        else if QED_RECOV_IN_PROG (cdev s) then Some (RC_OK, s)
        else if p_dmae_cmd (dmae_info s) = None then Some (RC_ERR EINVAL, s)
        else (let
          s = qed_dmae_opcode (src_type = QED_DMAE_ADDRESS_GRC) (dst_type = QED_DMAE_ADDRESS_GRC) p_params s;
          s = put_dmae_cmd ((dmae_cmd_of s)\<lparr>comp_addr_lo := DMA_LO phys, comp_addr_hi := DMA_HI phys,
                comp_val := DMAE_COMPLETION_VAL\<rparr>) s;
          cnt_split = ucast (size_in_dwords div ucast DMAE_MAX_RW_SIZE);
          length_mod = ucast (size_in_dwords mod ucast DMAE_MAX_RW_SIZE);
          r = \<lparr>rq_src_addr = src_addr, rq_dst_addr = dst_addr, rq_src_type = src_type, rq_dst_type = dst_type,
               rq_params = p_params, rq_cnt_split = cnt_split, rq_length_mod = length_mod\<rparr>
          in dmae_split_loop B N p_ptt r 0 s))"

definition qed_dmae_host2grc ::
  "'d bus \<Rightarrow> (nat \<Rightarrow> 'd qed_hwfn \<Rightarrow> 'd qed_hwfn) \<Rightarrow> nat \<Rightarrow> u64 \<Rightarrow> u32 \<Rightarrow> u32 \<Rightarrow> dmae_params option \<Rightarrow>
     'd qed_hwfn \<Rightarrow> (rc \<times> 'd qed_hwfn) option" where
  "qed_dmae_host2grc B N p_ptt source_addr grc_addr size_in_dwords p_params s = (let
     grc_addr_in_dw = grc_addr div 4
     in qed_dmae_execute_command B N p_ptt source_addr (ucast grc_addr_in_dw)
          QED_DMAE_ADDRESS_HOST_VIRT QED_DMAE_ADDRESS_GRC size_in_dwords p_params s)"

definition qed_dmae_grc2host ::
  "'d bus \<Rightarrow> (nat \<Rightarrow> 'd qed_hwfn \<Rightarrow> 'd qed_hwfn) \<Rightarrow> nat \<Rightarrow> u32 \<Rightarrow> u64 \<Rightarrow> u32 \<Rightarrow> dmae_params option \<Rightarrow>
     'd qed_hwfn \<Rightarrow> (rc \<times> 'd qed_hwfn) option" where
  "qed_dmae_grc2host B N p_ptt grc_addr dest_addr size_in_dwords p_params s = (let
     grc_addr_in_dw = grc_addr div 4
     in qed_dmae_execute_command B N p_ptt (ucast grc_addr_in_dw) dest_addr
          QED_DMAE_ADDRESS_GRC QED_DMAE_ADDRESS_HOST_VIRT size_in_dwords p_params s)"

definition qed_dmae_host2host ::
  "'d bus \<Rightarrow> (nat \<Rightarrow> 'd qed_hwfn \<Rightarrow> 'd qed_hwfn) \<Rightarrow> nat \<Rightarrow> u64 \<Rightarrow> u64 \<Rightarrow> u32 \<Rightarrow> dmae_params option \<Rightarrow>
     'd qed_hwfn \<Rightarrow> (rc \<times> 'd qed_hwfn) option" where
  "qed_dmae_host2host B N p_ptt source_addr dest_addr size_in_dwords p_params s =
     qed_dmae_execute_command B N p_ptt source_addr dest_addr
       QED_DMAE_ADDRESS_HOST_PHYS QED_DMAE_ADDRESS_HOST_PHYS size_in_dwords p_params s"

section \<open>The self test\<close>

text \<open>
  \<open>qed_dmae_sanity\<close>: \<open>mem\<close> is the buffer \<open>dma_alloc_coherent\<close> returned (virtual and bus address),
  \<open>page_size\<close> the page size of the host. The pattern is the low half of the virtual address.
\<close>

primrec sanity_fill :: "'d bus \<Rightarrow> u64 \<Rightarrow> u64 \<Rightarrow> nat \<Rightarrow> 'd qed_hwfn \<Rightarrow> 'd qed_hwfn" where
  "sanity_fill B virt phys 0 s = s"
| "sanity_fill B virt phys (Suc k) s =
     dma_put B (phys + of_nat k * 4) (ucast (virt + of_nat k * 4)) (sanity_fill B virt phys k s)"

primrec sanity_zero :: "'d bus \<Rightarrow> u64 \<Rightarrow> nat \<Rightarrow> 'd qed_hwfn \<Rightarrow> 'd qed_hwfn" where
  "sanity_zero B phys 0 s = s"
| "sanity_zero B phys (Suc k) s = dma_put B (phys + of_nat k * 4) 0 (sanity_zero B phys k s)"

primrec sanity_check :: "'d bus \<Rightarrow> u64 \<Rightarrow> u64 \<Rightarrow> u32 \<Rightarrow> nat \<Rightarrow> 'd qed_hwfn \<Rightarrow> rc" where
  "sanity_check B virt phys sz 0 s = RC_OK"
| "sanity_check B virt phys sz (Suc k) s =
     (if dma_rd B phys (device s) \<noteq> ucast virt - sz then RC_ERR EINVAL
      else sanity_check B (virt + 4) (phys + 4) sz k s)"

definition qed_dmae_sanity ::
  "'d bus \<Rightarrow> (nat \<Rightarrow> 'd qed_hwfn \<Rightarrow> 'd qed_hwfn) \<Rightarrow> u32 \<Rightarrow> (u64 \<times> u64) option \<Rightarrow> nat \<Rightarrow> 'd qed_hwfn \<Rightarrow>
     (rc \<times> 'd qed_hwfn) option" where
  "qed_dmae_sanity B N page_size mem p_ptt s = (case mem of
     None \<Rightarrow> Some (RC_ERR ENOMEM, s)
   | Some (p_virt, p_phys) \<Rightarrow> (let
       size = page_size div 2;
       k = unat (size div 4);
       s = sanity_fill B p_virt p_phys k s;
       s = sanity_zero B (p_phys + ucast size) k s
       in (case qed_dmae_host2host B N p_ptt p_phys (p_phys + ucast size) (size div 4) None s of
             None \<Rightarrow> None
           | Some (rc, s) \<Rightarrow> (if rc \<noteq> RC_OK then Some (rc, s)
               else Some (sanity_check B (p_virt + ucast size) (p_phys + ucast size) size k s, s)))))"

end
