(* ===== verification/Qed_Dmae_Correct.thy ===== *)
theory Qed_Dmae_Correct
  imports Qed_Dmae Qed_Hw_Correct
begin

unbundle bit_operations_syntax

text \<open>
  What the DMA operations do. First what they rely on of the engine, as documented in the
  hardware interface (\<open>struct dmae_cmd\<close> of \<open>qed_hsi.h\<close>); then one command; then requests of any
  length, which the driver splits into commands.
\<close>

section \<open>Fields of a word\<close>

lemma bit_SET_FIELD:
  assumes "m = 2 ^ w - 1" "n < LENGTH('n)" "LENGTH('n) \<le> 64"
  shows "bit (SET_FIELD (v :: 'n::len word) (m, sh) x) n \<longleftrightarrow>
    (if sh \<le> n \<and> n < sh + w then bit x (n - sh) else bit v n)"
proof -
  have "m = mask w" using assms(1) by (simp add: mask_eq_exp_minus_1)
  then show ?thesis using assms(2,3) by (auto simp: SET_FIELD_def bit_simps)
qed

text \<open>Reassembling a bus address from its halves.\<close>

definition addr64 :: "u32 \<Rightarrow> u32 \<Rightarrow> u64" where
  "addr64 lo hi = ucast lo OR push_bit 32 (ucast hi)"

lemma DMA_LO_mask: "DMA_LO x = ucast (x AND mask 32)"
  by (simp add: DMA_LO_def mask_eq_exp_minus_1)

lemma addr64_halves: "addr64 (DMA_LO x) (DMA_HI x) = x"
  by (rule bit_eqI) (auto simp: addr64_def DMA_LO_mask DMA_HI_def bit_simps)

lemma halves_zero: "DMA_LO x = 0 \<and> DMA_HI x = 0 \<longleftrightarrow> x = 0"
proof
  assume "DMA_LO x = 0 \<and> DMA_HI x = 0"
  then have "addr64 (DMA_LO x) (DMA_HI x) = 0" by (simp add: addr64_def)
  then show "x = 0" by (simp add: addr64_halves)
qed (simp add: DMA_LO_def DMA_HI_def)

lemma DMA_LO_ucast: "DMA_LO (ucast (a :: u32)) = a"
  by (rule bit_eqI) (auto simp: DMA_LO_mask bit_simps)

section \<open>The engine\<close>

text \<open>
  What is observed of the GRC space: the command of our channel in the engine's command memory, the
  memory in the GRC space (by dword address) and the host memory that the device reaches (dwords,
  by bus address).
\<close>

record 'g dmae_view =
  cmdrow :: "'g \<Rightarrow> nat \<Rightarrow> u32"
  gmem :: "'g \<Rightarrow> u32 \<Rightarrow> u32"
  pmem :: "'g \<Rightarrow> u64 \<Rightarrow> u32"

text \<open>How the engine reads a command, from its rows.\<close>

definition row_src_grc :: "(nat \<Rightarrow> u32) \<Rightarrow> bool" where
  "row_src_grc w \<longleftrightarrow> bit (w 0) 0"

definition row_dst_grc :: "(nat \<Rightarrow> u32) \<Rightarrow> bool" where
  "row_dst_grc w \<longleftrightarrow> bit (w 0) 2 \<and> \<not> bit (w 0) 1"

definition row_dst_pcie :: "(nat \<Rightarrow> u32) \<Rightarrow> bool" where
  "row_dst_pcie w \<longleftrightarrow> bit (w 0) 1 \<and> \<not> bit (w 0) 2"

definition row_len :: "(nat \<Rightarrow> u32) \<Rightarrow> nat" where
  "row_len w = unat (w 5 AND 0xFFFF)"

definition row_comp_addr :: "(nat \<Rightarrow> u32) \<Rightarrow> u64" where
  "row_comp_addr w = addr64 (w 6) (w 7)"

text \<open>A command that has a destination and asks for a completion word in host memory.\<close>

definition row_valid :: "(nat \<Rightarrow> u32) \<Rightarrow> bool" where
  "row_valid w \<longleftrightarrow> (row_dst_grc w \<or> row_dst_pcie w) \<and> bit (w 0) 8 \<and> \<not> bit (w 0) 3"

definition row_words :: "'g dmae_view \<Rightarrow> 'g \<Rightarrow> u32 list" where
  "row_words W g = (let w = cmdrow W g in
     if row_src_grc w then get_dwords 1 (w 1) (row_len w) (gmem W g)
     else get_dwords 4 (addr64 (w 1) (w 2)) (row_len w) (pmem W g))"

definition gmem_after :: "'g dmae_view \<Rightarrow> 'g \<Rightarrow> u32 \<Rightarrow> u32" where
  "gmem_after W g = (let w = cmdrow W g in
     if row_dst_grc w then put_dwords 1 (w 3) (row_words W g) (gmem W g) else gmem W g)"

definition pmem_after :: "'g dmae_view \<Rightarrow> 'g \<Rightarrow> u64 \<Rightarrow> u32" where
  "pmem_after W g = (let w = cmdrow W g;
     m = (if row_dst_pcie w then put_dwords 4 (addr64 (w 3) (w 4)) (row_words W g) (pmem W g) else pmem W g)
     in m(row_comp_addr w := w 8))"

text \<open>
  The engine. Writing a row of the command memory changes that row. Writing one into the go
  register of the channel starts the command: within \<open>limit\<close> waits the data is copied and the
  completion value is written, and not before. Of the opcode the engine looks at the direction, the
  completion and the reset bits; the function, port and byte order fields select what this model has one of.
\<close>

definition cmd_row_addr :: "u8 \<Rightarrow> nat \<Rightarrow> u32" where
  "cmd_row_addr c i = 0xc800 + ucast c * 56 + of_nat i * 4"

definition go_addr :: "u8 \<Rightarrow> u32" where
  "go_addr c = 0xc048 + push_bit 2 (ucast c)"

definition dmae_engine :: "'g grc \<Rightarrow> 'g dmae_view \<Rightarrow> u8 \<Rightarrow> nat \<Rightarrow> bool" where
  "dmae_engine G W c limit \<longleftrightarrow>
     (\<forall>p g i v. i < 14 \<longrightarrow> (let g' = grc_wr G p (cmd_row_addr c i) v g in
        cmdrow W g' = (cmdrow W g)(i := v) \<and> gmem W g' = gmem W g \<and> pmem W g' = pmem W g))
   \<and> (\<forall>p g. (let w = cmdrow W g; g' = grc_wr G p (go_addr c) 1 g in
        row_valid w \<and> pmem W g (row_comp_addr w) \<noteq> w 8 \<longrightarrow>
        (\<exists>k \<le> limit. (\<forall>j < k. pmem W ((grc_delay G 2 ^^ j) g') (row_comp_addr w) \<noteq> w 8)
           \<and> gmem W ((grc_delay G 2 ^^ k) g') = gmem_after W g
           \<and> pmem W ((grc_delay G 2 ^^ k) g') = pmem_after W g)))"

text \<open>Accesses of the processor to the shared memory.\<close>

definition dma_memory :: "'d bus \<Rightarrow> ('d, 'g) pxp_view \<Rightarrow> 'g dmae_view \<Rightarrow> bool" where
  "dma_memory B V W \<longleftrightarrow> (\<forall>d a v. win V (dma_wr B a v d) = win V d \<and> pret V (dma_wr B a v d) = pret V d
       \<and> pmem W (chip V (dma_wr B a v d)) = (pmem W (chip V d))(a := v)
       \<and> gmem W (chip V (dma_wr B a v d)) = gmem W (chip V d)
       \<and> cmdrow W (chip V (dma_wr B a v d)) = cmdrow W (chip V d))
   \<and> (\<forall>d a. dma_rd B a d = pmem W (chip V d) a)"

lemma dma_memoryD:
  assumes "dma_memory B V W"
  shows "win V (dma_wr B a v d) = win V d" "pret V (dma_wr B a v d) = pret V d"
    "pmem W (chip V (dma_wr B a v d)) = (pmem W (chip V d))(a := v)"
    "gmem W (chip V (dma_wr B a v d)) = gmem W (chip V d)"
    "cmdrow W (chip V (dma_wr B a v d)) = cmdrow W (chip V d)"
    "dma_rd B a d = pmem W (chip V d) a"
  using assms by (auto simp: dma_memory_def)

section \<open>Readiness\<close>

text \<open>
  The observations of a driver state, and the states in which requests are made: the windows are in
  order, the buffers are there, the completion word is clear and lies outside the
  intermediate buffer, and neither the register trace check nor an emulated chip slows things down.
\<close>

definition gm :: "('d, 'g) pxp_view \<Rightarrow> 'g dmae_view \<Rightarrow> 'd qed_hwfn \<Rightarrow> u32 \<Rightarrow> u32" where
  "gm V W s = gmem W (chip V (device s))"

definition pm :: "('d, 'g) pxp_view \<Rightarrow> 'g dmae_view \<Rightarrow> 'd qed_hwfn \<Rightarrow> u64 \<Rightarrow> u32" where
  "pm V W s = pmem W (chip V (device s))"

definition cm :: "('d, 'g) pxp_view \<Rightarrow> 'g dmae_view \<Rightarrow> 'd qed_hwfn \<Rightarrow> nat \<Rightarrow> u32" where
  "cm V W s = cmdrow W (chip V (device s))"

definition dmae_ok :: "('d, 'g) pxp_view \<Rightarrow> 'g dmae_view \<Rightarrow> 'd qed_hwfn \<Rightarrow> bool" where
  "dmae_ok V W s \<longleftrightarrow> ptt_ok V s \<and> \<not> chk_reg_fifo (cdev s) \<and> \<not> CHIP_REV_IS_SLOW (chip_rev (cdev s)) \<and>
     p_dmae_cmd (dmae_info s) \<noteq> None \<and> channel (dmae_info s) < 32 \<and>
     intermediate_buffer_phys_addr (dmae_info s) \<noteq> 0 \<and>
     completion_word_phys_addr (dmae_info s) \<notin> block 4 (intermediate_buffer_phys_addr (dmae_info s)) 0x2000 \<and>
     pm V W s (completion_word_phys_addr (dmae_info s)) \<noteq> DMAE_COMPLETION_VAL"

text \<open>What a request leaves alone: all but the windows, the device, host memory, warnings and the command.\<close>

definition dmae_frame :: "('d, 'g) pxp_view \<Rightarrow> 'd qed_hwfn \<Rightarrow> 'd qed_hwfn \<Rightarrow> bool" where
  "dmae_frame V s s' \<longleftrightarrow> my_id s' = my_id s \<and> rel_pf_id s' = rel_pf_id s \<and> abs_pf_id s' = abs_pf_id s \<and>
     hw_port_id s' = hw_port_id s \<and> cdev s' = cdev s \<and> hw_errors s' = hw_errors s \<and>
     b_mem_ready (dmae_info s') = b_mem_ready (dmae_info s) \<and>
     channel (dmae_info s') = channel (dmae_info s) \<and>
     completion_word_phys_addr (dmae_info s') = completion_word_phys_addr (dmae_info s) \<and>
     p_completion_word (dmae_info s') = p_completion_word (dmae_info s) \<and>
     intermediate_buffer_phys_addr (dmae_info s') = intermediate_buffer_phys_addr (dmae_info s) \<and>
     p_intermediate_buffer (dmae_info s') = p_intermediate_buffer (dmae_info s) \<and>
     dmae_cmd_phys_addr (dmae_info s') = dmae_cmd_phys_addr (dmae_info s) \<and>
     (p_dmae_cmd (dmae_info s') = None) = (p_dmae_cmd (dmae_info s) = None) \<and>
     pret V (device s') = pret V (device s)"


lemma dmae_frame_refl [simp, intro]: "dmae_frame V s s"
  by (simp add: dmae_frame_def)

lemma dmae_frame_trans:
  assumes "dmae_frame V s s'" "dmae_frame V s' s''"
  shows "dmae_frame V s s''"
  using assms by (simp add: dmae_frame_def)

lemma dmae_frame_hw: "hw_frame s s' \<Longrightarrow> pret V (device s') = pret V (device s) \<Longrightarrow> dmae_frame V s s'"
  by (simp add: dmae_frame_def hw_frame_fields)

lemma dmae_frame_dev: "pret V d = pret V (device s) \<Longrightarrow> dmae_frame V s (s\<lparr>device := d\<rparr>)"
  by (simp add: dmae_frame_def)

lemma dmae_frameD:
  assumes "dmae_frame V s s'"
  shows "my_id s' = my_id s" "rel_pf_id s' = rel_pf_id s" "hw_port_id s' = hw_port_id s" "cdev s' = cdev s"
    "hw_errors s' = hw_errors s" "pret V (device s') = pret V (device s)"
    "b_mem_ready (dmae_info s') = b_mem_ready (dmae_info s)" "channel (dmae_info s') = channel (dmae_info s)"
    "completion_word_phys_addr (dmae_info s') = completion_word_phys_addr (dmae_info s)"
    "intermediate_buffer_phys_addr (dmae_info s') = intermediate_buffer_phys_addr (dmae_info s)"
    "(p_dmae_cmd (dmae_info s') = None) = (p_dmae_cmd (dmae_info s) = None)"
  using assms by (simp_all add: dmae_frame_def)

section \<open>Posting a command\<close>

text \<open>A register write when nothing but the write happens.\<close>

lemma wr_plain:
  assumes L: "pxp_windows B G V" and ok: "ptt_ok V s" and i: "i < 12" and a: "grc_addr a"
    and c: "\<not> chk_reg_fifo (cdev s)" "\<not> CHIP_REV_IS_SLOW (chip_rev (cdev s))"
  shows "ptt_ok V (qed_wr B i a v s)" "hw_frame s (qed_wr B i a v s)"
    "pret V (device (qed_wr B i a v s)) = pret V (device s)" "hmem (qed_wr B i a v s) = hmem s"
    "chip V (device (qed_wr B i a v s)) = grc_wr G (pret V (device s) i) a v (chip V (device s))"
proof -
  note d = simD [OF sim_wr [OF L ok i a, of v]]
  show "ptt_ok V (qed_wr B i a v s)" "hw_frame s (qed_wr B i a v s)" by (rule d(1), rule d(2))
  have e: "direct_wr G (cdev s) i a v (direct_of V s) = direct_warn (a = monitored_hw_addr (cdev s)) (WarnMonitored a)
    ((direct_of V s)\<lparr>d_chip := grc_wr G (pret V (device s) i) a v (chip V (device s))\<rparr>)"
    using c by (simp add: direct_wr_def direct_fifo_def direct_close_def direct_slow_def direct_warn_def Let_def)
  show "pret V (device (qed_wr B i a v s)) = pret V (device s)"
    using arg_cong [OF d(3), of d_pret] by (simp add: e direct_warn_def)
  show "hmem (qed_wr B i a v s) = hmem s"
    using arg_cong [OF d(3), of d_hmem] by (simp add: e direct_warn_def)
  show "chip V (device (qed_wr B i a v s)) = grc_wr G (pret V (device s) i) a v (chip V (device s))"
    using arg_cong [OF d(3), of d_chip] by (simp add: e direct_warn_def)
qed

lemma grc_addrI:
  assumes "unat a mod 4 = 0" "unat a < 0x2000000"
  shows "grc_addr a"
proof -
  have "unat (a AND 3) = unat a mod 2 ^ 2" by (rule unat_and_mask) simp
  then have "a AND 3 = 0" using assms(1) by (simp flip: unat_eq_zero)
  then show ?thesis using assms(2) by (simp add: grc_addr_def word_less_nat_alt)
qed

lemma cmd_row_ok:
  assumes "c < 32" "i < 14"
  shows "grc_addr (cmd_row_addr c i)"
proof -
  have c: "unat c < 32" using assms(1) by (simp add: word_less_nat_alt)
  have "cmd_row_addr c i = of_nat (0xc800 + unat c * 56 + i * 4)"
    by (simp add: cmd_row_addr_def)
  then have "unat (cmd_row_addr c i) = 0xc800 + unat c * 56 + i * 4"
    using c assms(2) unat_of_nat_small [of "0xc800 + unat c * 56 + i * 4", where 'n = 32] by simp
  then show ?thesis using c assms(2) by (intro grc_addrI) presburger+
qed

lemma go_addr_ok:
  assumes "c < 32"
  shows "grc_addr (go_addr c)"
proof -
  have c: "unat c < 32" using assms by (simp add: word_less_nat_alt)
  have "go_addr c = of_nat (0xc048 + unat c * 4)" by (simp add: go_addr_def push_bit_eq_mult)
  then have "unat (go_addr c) = 0xc048 + unat c * 4"
    using c unat_of_nat_small [of "0xc048 + unat c * 4", where 'n = 32] by simp
  then show ?thesis using c by (intro grc_addrI) presburger+
qed

text \<open>The rows of a command as the engine sees them.\<close>

definition cmd_rows :: "dmae_cmd \<Rightarrow> nat \<Rightarrow> u32" where
  "cmd_rows c i = (if i < DMAE_CMD_SIZE_TO_FILL then dmae_cmd_dword c i else 0)"

text \<open>\<open>s'\<close> is reached from \<open>s\<close> by register writes that the memories do not notice.\<close>

definition quiet :: "('d, 'g) pxp_view \<Rightarrow> 'g dmae_view \<Rightarrow> 'd qed_hwfn \<Rightarrow> 'd qed_hwfn \<Rightarrow> bool" where
  "quiet V W s s' \<longleftrightarrow> ptt_ok V s' \<and> hw_frame s s' \<and> pret V (device s') = pret V (device s) \<and>
     hmem s' = hmem s \<and> gm V W s' = gm V W s \<and> pm V W s' = pm V W s"

lemma dmae_engineD:
  assumes "dmae_engine G W c limit"
  shows "i < 14 \<Longrightarrow> cmdrow W (grc_wr G p (cmd_row_addr c i) v g) = (cmdrow W g)(i := v)"
    "i < 14 \<Longrightarrow> gmem W (grc_wr G p (cmd_row_addr c i) v g) = gmem W g"
    "i < 14 \<Longrightarrow> pmem W (grc_wr G p (cmd_row_addr c i) v g) = pmem W g"
    "row_valid (cmdrow W g) \<Longrightarrow> pmem W g (row_comp_addr (cmdrow W g)) \<noteq> cmdrow W g 8 \<Longrightarrow>
      \<exists>k \<le> limit. (\<forall>j < k. pmem W ((grc_delay G 2 ^^ j) (grc_wr G p (go_addr c) 1 g))
            (row_comp_addr (cmdrow W g)) \<noteq> cmdrow W g 8)
        \<and> gmem W ((grc_delay G 2 ^^ k) (grc_wr G p (go_addr c) 1 g)) = gmem_after W g
        \<and> pmem W ((grc_delay G 2 ^^ k) (grc_wr G p (go_addr c) 1 g)) = pmem_after W g"
  using assms unfolding dmae_engine_def Let_def by blast+

lemma fill_cmd_mem:
  assumes L: "pxp_windows B G V" and E: "dmae_engine G W c limit" and i: "i < 12" and c: "c < 32"
    and ok: "ptt_ok V s" "\<not> chk_reg_fifo (cdev s)" "\<not> CHIP_REV_IS_SLOW (chip_rev (cdev s))"
  shows "n \<le> 14 \<Longrightarrow> quiet V W s (dmae_fill_cmd_mem B i c cmd n s) \<and>
    (\<forall>j < n. cm V W (dmae_fill_cmd_mem B i c cmd n s) j = cmd_rows cmd j)"
proof (induction n)
  case 0
  then show ?case using ok(1) by (simp add: quiet_def)
next
  case (Suc n)
  let ?s = "dmae_fill_cmd_mem B i c cmd n s"
  let ?a = "DMAE_REG_CMD_MEM + (ucast c * of_nat DMAE_CMD_SIZE * 4) + (of_nat n * 4)"
  have q: "quiet V W s ?s" "\<forall>j < n. cm V W ?s j = cmd_rows cmd j" using Suc by simp_all
  have a: "?a = cmd_row_addr c n"
    by (simp add: cmd_row_addr_def DMAE_REG_CMD_MEM_def DMAE_CMD_SIZE_def mult.assoc)
  have n: "n < 14" using Suc.prems by simp
  have ok': "ptt_ok V ?s" "\<not> chk_reg_fifo (cdev ?s)" "\<not> CHIP_REV_IS_SLOW (chip_rev (cdev ?s))"
    using q(1) ok by (auto simp: quiet_def hw_frame_fields)
  note w = wr_plain [OF L ok'(1) i cmd_row_ok [OF c n] ok'(2,3), of "cmd_rows cmd n"]
  have st: "dmae_fill_cmd_mem B i c cmd (Suc n) s = qed_wr B i (cmd_row_addr c n) (cmd_rows cmd n) ?s"
    unfolding dmae_fill_cmd_mem.simps Let_def a cmd_rows_def ..
  note e = dmae_engineD(1-3) [OF E n]
  have "quiet V W s (dmae_fill_cmd_mem B i c cmd (Suc n) s)"
    using q(1) w(1-4) hw_frame_trans [OF _ w(2)] unfolding st quiet_def gm_def pm_def w(5) e(2,3)
    by simp
  moreover have "cm V W (dmae_fill_cmd_mem B i c cmd (Suc n) s) = (cm V W ?s)(n := cmd_rows cmd n)"
    unfolding st cm_def w(5) by (rule e(1))
  ultimately show ?case using q(2) by (auto simp: less_Suc_eq)
qed


section \<open>Waiting\<close>

lemma delay_pow:
  assumes "pxp_windows B G V"
  shows "win V ((bus_delay B us ^^ k) d) = win V d" "pret V ((bus_delay B us ^^ k) d) = pret V d"
    "chip V ((bus_delay B us ^^ k) d) = (grc_delay G us ^^ k) (chip V d)"
  by (induction k) (simp_all add: pxp_windowsD(16-18) [OF assms])

lemma funpow_delay: "(f ^^ k) (f x) = f ((f ^^ k) x)"
  by (simp add: funpow_swap1)

text \<open>The loop stops at the first poll that sees the completion value, if that is within the limit.\<close>

lemma wait_loop_ok:
  assumes "wait_cnt + k \<le> limit"
    and "\<And>j. j < k \<Longrightarrow> completion_word B (s\<lparr>device := (bus_delay B 2 ^^ j) (device s)\<rparr>) \<noteq> DMAE_COMPLETION_VAL"
    and "completion_word B (s\<lparr>device := (bus_delay B 2 ^^ k) (device s)\<rparr>) = DMAE_COMPLETION_VAL"
  shows "dmae_wait_loop B limit wait_cnt s = (RC_OK, s\<lparr>device := (bus_delay B 2 ^^ k) (device s)\<rparr>)"
  using assms
proof (induction k arbitrary: wait_cnt s)
  case 0
  then show ?case by (simp add: dmae_wait_loop.simps)
next
  case (Suc k)
  let ?s = "udelay B DMAE_MIN_WAIT_TIME s"
  have s: "?s\<lparr>device := (bus_delay B 2 ^^ j) (device ?s)\<rparr> = s\<lparr>device := (bus_delay B 2 ^^ Suc j) (device s)\<rparr>" for j
    by (simp add: udelay_def DMAE_MIN_WAIT_TIME_def funpow_delay)
  have "dmae_wait_loop B limit (Suc wait_cnt) ?s = (RC_OK, ?s\<lparr>device := (bus_delay B 2 ^^ k) (device ?s)\<rparr>)"
    using Suc.prems by (intro Suc.IH) (auto simp only: s Suc_less_eq add_Suc_shift)
  moreover have "completion_word B s \<noteq> DMAE_COMPLETION_VAL" using Suc.prems(2) [of 0] by simp
  ultimately show ?case using Suc.prems(1)
    by (subst dmae_wait_loop.simps) (simp add: Let_def s del: funpow.simps)
qed

text \<open>Without a completion it gives up, after one wait more than the limit.\<close>

lemma wait_loop_timeout:
  assumes "\<And>j. j \<le> k \<Longrightarrow> completion_word B (s\<lparr>device := (bus_delay B 2 ^^ j) (device s)\<rparr>) \<noteq> DMAE_COMPLETION_VAL"
    and "wait_cnt + k = limit"
  shows "dmae_wait_loop B limit wait_cnt s = (RC_ERR EBUSY, s\<lparr>device := (bus_delay B 2 ^^ Suc k) (device s)\<rparr>)"
  using assms
proof (induction k arbitrary: wait_cnt s)
  case 0
  from 0(1) [of 0] 0(2) show ?case
    by (subst dmae_wait_loop.simps) (simp add: udelay_def DMAE_MIN_WAIT_TIME_def)
next
  case (Suc k)
  let ?s = "udelay B DMAE_MIN_WAIT_TIME s"
  have s: "?s\<lparr>device := (bus_delay B 2 ^^ j) (device ?s)\<rparr> = s\<lparr>device := (bus_delay B 2 ^^ Suc j) (device s)\<rparr>" for j
    by (simp add: udelay_def DMAE_MIN_WAIT_TIME_def funpow_delay)
  have "dmae_wait_loop B limit (Suc wait_cnt) ?s = (RC_ERR EBUSY, ?s\<lparr>device := (bus_delay B 2 ^^ Suc k) (device ?s)\<rparr>)"
    using Suc.prems by (intro Suc.IH) (auto simp only: s Suc_le_mono add_Suc_shift)
  moreover have "completion_word B s \<noteq> DMAE_COMPLETION_VAL" using Suc.prems(1) [of 0] by simp
  ultimately show ?case using Suc.prems(2)
    by (subst dmae_wait_loop.simps) (simp add: Let_def s del: funpow.simps)
qed

section \<open>One command\<close>

text \<open>The type bits of an opcode: source and destination, completion word wanted, in host memory.\<close>

definition opcode_for :: "bool \<Rightarrow> bool \<Rightarrow> dmae_cmd \<Rightarrow> bool" where
  "opcode_for src_grc dst_grc c \<longleftrightarrow> bit (opcode c) 0 = src_grc \<and> bit (opcode c) 2 = dst_grc \<and>
     bit (opcode c) 1 = (\<not> dst_grc) \<and> bit (opcode c) 8 \<and> \<not> bit (opcode c) 3"

lemmas dmae_fields = DMAE_CMD_SRC_def DMAE_CMD_DST_def DMAE_CMD_SRC_ADDR_RESET_def
  DMAE_CMD_DST_ADDR_RESET_def DMAE_CMD_COMP_FUNC_def DMAE_CMD_COMP_WORD_EN_def
  DMAE_CMD_ENDIANITY_MODE_def DMAE_CMD_PORT_ID_def DMAE_CMD_SRC_PF_ID_def DMAE_CMD_DST_PF_ID_def
  DMAE_CMD_SRC_VF_ID_VALID_def DMAE_CMD_DST_VF_ID_VALID_def dmae_cmd_src_pcie_def
  dmae_cmd_src_grc_def dmae_cmd_dst_pcie_def dmae_cmd_dst_grc_def

lemmas bit_SET_FIELD_w = bit_SET_FIELD [where w = 1] bit_SET_FIELD [where w = 2] bit_SET_FIELD [where w = 4]

lemma opcode_ok:
  "opcode_for src_grc dst_grc (dmae_cmd_of (qed_dmae_opcode src_grc dst_grc p s))"
  unfolding opcode_for_def qed_dmae_opcode_def dmae_cmd_of_def put_dmae_cmd_def
  by (auto simp: Let_def dmae_fields bit_SET_FIELD_w split: prod.splits if_splits)

lemma row_len_cmd: "row_len (cmd_rows c) = unat (length_dw c)"
proof -
  have "(ucast (length_dw c) OR push_bit 16 (ucast (opcode_b c)) :: u32) AND mask 16 = ucast (length_dw c)"
    by (rule bit_eqI) (auto simp: bit_simps dest: bit_imp_le_length)
  then have "(ucast (length_dw c) OR push_bit 16 (ucast (opcode_b c)) :: u32) AND 0xFFFF = ucast (length_dw c)"
    by (simp add: mask_eq_exp_minus_1)
  then show ?thesis
    by (simp add: row_len_def cmd_rows_def dmae_cmd_dword_def DMAE_CMD_SIZE_TO_FILL_def DMAE_CMD_SIZE_def
        unat_ucast_le)
qed

lemma cmd_rows_sel:
  "cmd_rows c 0 = opcode c" "cmd_rows c (Suc 0) = src_addr_lo c" "cmd_rows c 2 = src_addr_hi c"
  "cmd_rows c 3 = dst_addr_lo c" "cmd_rows c 4 = dst_addr_hi c" "cmd_rows c 6 = comp_addr_lo c"
  "cmd_rows c 7 = comp_addr_hi c" "cmd_rows c 8 = comp_val c"
  by (simp_all add: cmd_rows_def dmae_cmd_dword_def DMAE_CMD_SIZE_TO_FILL_def DMAE_CMD_SIZE_def)


text \<open>The data a command moves, and the memories after it.\<close>

definition cmd_words :: "('d, 'g) pxp_view \<Rightarrow> 'g dmae_view \<Rightarrow> dmae_cmd \<Rightarrow> 'd qed_hwfn \<Rightarrow> u32 list" where
  "cmd_words V W c s = (if bit (opcode c) 0
     then get_dwords 1 (src_addr_lo c) (unat (length_dw c)) (gm V W s)
     else get_dwords 4 (addr64 (src_addr_lo c) (src_addr_hi c)) (unat (length_dw c)) (pm V W s))"

definition cmd_gmem :: "('d, 'g) pxp_view \<Rightarrow> 'g dmae_view \<Rightarrow> bool \<Rightarrow> dmae_cmd \<Rightarrow> 'd qed_hwfn \<Rightarrow> u32 \<Rightarrow> u32" where
  "cmd_gmem V W dst_grc c s =
     (if dst_grc then put_dwords 1 (dst_addr_lo c) (cmd_words V W c s) (gm V W s) else gm V W s)"

definition cmd_pmem :: "('d, 'g) pxp_view \<Rightarrow> 'g dmae_view \<Rightarrow> bool \<Rightarrow> dmae_cmd \<Rightarrow> 'd qed_hwfn \<Rightarrow> u64 \<Rightarrow> u32" where
  "cmd_pmem V W dst_grc c s = (if dst_grc then pm V W s
     else put_dwords 4 (addr64 (dst_addr_lo c) (dst_addr_hi c)) (cmd_words V W c s) (pm V W s))"

text \<open>A command ready to be posted: the types, the completion word, addresses that are not zero.\<close>

definition cmd_ready :: "bool \<Rightarrow> bool \<Rightarrow> 'd qed_hwfn \<Rightarrow> bool" where
  "cmd_ready src_grc dst_grc s \<longleftrightarrow> (let c = dmae_cmd_of s in opcode_for src_grc dst_grc c \<and>
     addr64 (comp_addr_lo c) (comp_addr_hi c) = completion_word_phys_addr (dmae_info s) \<and>
     comp_val c = DMAE_COMPLETION_VAL \<and> \<not> (dst_addr_lo c = 0 \<and> dst_addr_hi c = 0) \<and>
     \<not> (src_addr_lo c = 0 \<and> src_addr_hi c = 0))"

text \<open>Posting leaves the engine at work on the command, and it will be done in time.\<close>

lemma post_go:
  assumes L: "pxp_windows B G V" and E: "dmae_engine G W (channel (dmae_info s)) (wait_cnt_limit (cdev s))"
    and ok: "dmae_ok V W s" and i: "i < 12" and rdy: "cmd_ready src_grc dst_grc s"
  obtains s1 k where "qed_dmae_post_command B i s = (RC_OK, s1)" "ptt_ok V s1" "hw_frame s s1"
    "pret V (device s1) = pret V (device s)" "hmem s1 = hmem s" "k \<le> wait_cnt_limit (cdev s)"
    "\<And>j. j < k \<Longrightarrow> pmem W ((grc_delay G 2 ^^ j) (chip V (device s1))) (completion_word_phys_addr (dmae_info s)) \<noteq>
       DMAE_COMPLETION_VAL"
    "gmem W ((grc_delay G 2 ^^ k) (chip V (device s1))) = cmd_gmem V W dst_grc (dmae_cmd_of s) s"
    "pmem W ((grc_delay G 2 ^^ k) (chip V (device s1))) =
       (cmd_pmem V W dst_grc (dmae_cmd_of s) s)(completion_word_phys_addr (dmae_info s) := DMAE_COMPLETION_VAL)"
proof -
  let ?c = "dmae_cmd_of s" and ?ch = "channel (dmae_info s)" and ?ca = "completion_word_phys_addr (dmae_info s)"
  have o: "ptt_ok V s" "\<not> chk_reg_fifo (cdev s)" "\<not> CHIP_REV_IS_SLOW (chip_rev (cdev s))" "?ch < 32"
    "pm V W s ?ca \<noteq> DMAE_COMPLETION_VAL"
    using ok by (simp_all add: dmae_ok_def)
  have r: "opcode_for src_grc dst_grc ?c" "addr64 (comp_addr_lo ?c) (comp_addr_hi ?c) = ?ca"
    "comp_val ?c = DMAE_COMPLETION_VAL"
    using rdy by (simp_all add: cmd_ready_def Let_def)
  define s0 where "s0 = dmae_fill_cmd_mem B i ?ch ?c 14 s"
  have f: "quiet V W s s0" "\<And>j. j < 14 \<Longrightarrow> cm V W s0 j = cmd_rows ?c j"
    using fill_cmd_mem [OF L E i o(4,1-3), of 14 ?c] by (simp_all add: s0_def)
  have o0: "ptt_ok V s0" "\<not> chk_reg_fifo (cdev s0)" "\<not> CHIP_REV_IS_SLOW (chip_rev (cdev s0))"
    using f(1) o by (auto simp: quiet_def hw_frame_fields)
  note w = wr_plain [OF L o0(1) i go_addr_ok [OF o(4)] o0(2,3), of 1]
  have p1: "qed_dmae_post_command B i s = (RC_OK, qed_wr B i (go_addr ?ch) 1 s0)"
    using rdy by (auto simp: qed_dmae_post_command_def Let_def s0_def DMAE_CMD_SIZE_def cmd_ready_def
        qed_dmae_idx_to_go_cmd_def go_addr_def DMAE_REG_GO_C0_def DMAE_GO_VALUE_def)
  let ?g = "chip V (device s0)"
  have rows: "cmdrow W ?g j = cmd_rows ?c j" if "j < 14" for j using f(2) [OF that] by (simp add: cm_def)
  have ra: "row_comp_addr (cmdrow W ?g) = ?ca" "cmdrow W ?g 8 = DMAE_COMPLETION_VAL"
    using r by (simp_all add: row_comp_addr_def rows cmd_rows_sel)
  have rd: "row_src_grc (cmdrow W ?g) = src_grc" "row_dst_grc (cmdrow W ?g) = dst_grc"
    "row_dst_pcie (cmdrow W ?g) = (\<not> dst_grc)" "row_valid (cmdrow W ?g)"
    using r(1) by (auto simp: row_src_grc_def row_dst_grc_def row_dst_pcie_def row_valid_def rows cmd_rows_sel
        opcode_for_def)
  have rl: "row_len (cmdrow W ?g) = unat (length_dw ?c)"
    using row_len_cmd [of ?c] by (simp add: row_len_def rows)
  have m0: "gmem W ?g = gm V W s" "pmem W ?g = pm V W s" using f(1) by (simp_all add: quiet_def gm_def pm_def)
  have words: "row_words W ?g = cmd_words V W ?c s"
    using r(1) by (simp add: row_words_def cmd_words_def rd rl rows cmd_rows_sel m0 Let_def opcode_for_def)
  have after: "gmem_after W ?g = cmd_gmem V W dst_grc ?c s"
    "pmem_after W ?g = (cmd_pmem V W dst_grc ?c s)(?ca := DMAE_COMPLETION_VAL)"
    by (simp_all add: gmem_after_def pmem_after_def cmd_gmem_def cmd_pmem_def words rd ra m0 rows cmd_rows_sel Let_def)
  obtain k where "k \<le> wait_cnt_limit (cdev s)"
    "\<And>j. j < k \<Longrightarrow> pmem W ((grc_delay G 2 ^^ j) (grc_wr G (pret V (device s0) i) (go_addr ?ch) 1 ?g)) ?ca \<noteq> DMAE_COMPLETION_VAL"
    "gmem W ((grc_delay G 2 ^^ k) (grc_wr G (pret V (device s0) i) (go_addr ?ch) 1 ?g)) = gmem_after W ?g"
    "pmem W ((grc_delay G 2 ^^ k) (grc_wr G (pret V (device s0) i) (go_addr ?ch) 1 ?g)) = pmem_after W ?g"
    using dmae_engineD(4) [OF E rd(4), of "pret V (device s0) i"] o(5) unfolding ra m0 by blast
  then show thesis
    using w f(1) hw_frame_trans [OF _ w(2)] after
    by (intro that [OF p1]) (simp_all add: quiet_def)
qed

text \<open>Waiting for it then clears the completion word.\<close>

lemma post_wait:
  assumes L: "pxp_windows B G V" and M: "dma_memory B V W"
    and E: "dmae_engine G W (channel (dmae_info s)) (wait_cnt_limit (cdev s))"
    and ok: "dmae_ok V W s" and i: "i < 12" and rdy: "cmd_ready src_grc dst_grc s"
  obtains s1 s' where "qed_dmae_post_command B i s = (RC_OK, s1)"
    "qed_dmae_operation_wait B s1 = (RC_OK, s')" "dmae_ok V W s'" "dmae_frame V s s'" "hmem s' = hmem s"
    "dmae_cmd_of s' = dmae_cmd_of s" "gm V W s' = cmd_gmem V W dst_grc (dmae_cmd_of s) s"
    "pm V W s' = (cmd_pmem V W dst_grc (dmae_cmd_of s) s)(completion_word_phys_addr (dmae_info s) := 0)"
proof -
  let ?ca = "completion_word_phys_addr (dmae_info s)"
  obtain s1 k where s1: "qed_dmae_post_command B i s = (RC_OK, s1)" "ptt_ok V s1" "hw_frame s s1"
    "pret V (device s1) = pret V (device s)" "hmem s1 = hmem s" "k \<le> wait_cnt_limit (cdev s)"
    "\<And>j. j < k \<Longrightarrow> pmem W ((grc_delay G 2 ^^ j) (chip V (device s1))) ?ca \<noteq> DMAE_COMPLETION_VAL"
    "gmem W ((grc_delay G 2 ^^ k) (chip V (device s1))) = cmd_gmem V W dst_grc (dmae_cmd_of s) s"
    "pmem W ((grc_delay G 2 ^^ k) (chip V (device s1))) =
       (cmd_pmem V W dst_grc (dmae_cmd_of s) s)(?ca := DMAE_COMPLETION_VAL)"
    using post_go [OF L E ok i rdy] by metis
  note fr = hw_frame_fields [OF s1(3)]
  note dp = delay_pow [OF L]
  let ?d = "(bus_delay B 2 ^^ k) (device s1)"
  let ?s' = "s1\<lparr>device := dma_wr B ?ca 0 ?d\<rparr>"
  have cw: "completion_word B (s1\<lparr>device := (bus_delay B 2 ^^ j) (device s1)\<rparr>) =
      pmem W ((grc_delay G 2 ^^ j) (chip V (device s1))) ?ca" for j
    by (simp add: completion_word_def dma_memoryD(6) [OF M] fr dp)
  have "dmae_wait_loop B (wait_cnt_limit (cdev s1)) 0 s1 = (RC_OK, s1\<lparr>device := ?d\<rparr>)"
    using s1(6,7,9) by (intro wait_loop_ok) (simp_all add: cw fr)
  then have w: "qed_dmae_operation_wait B s1 = (RC_OK, ?s')"
    by (simp add: qed_dmae_operation_wait_def dma_put_def fr)
  have dev: "win V (device ?s') = win V (device s1)" "pret V (device ?s') = pret V (device s1)"
    "gm V W ?s' = cmd_gmem V W dst_grc (dmae_cmd_of s) s"
    "pm V W ?s' = (cmd_pmem V W dst_grc (dmae_cmd_of s) s)(?ca := 0)"
    by (simp_all add: dma_memoryD [OF M] dp gm_def pm_def s1(8,9))
  have pok: "ptt_ok V ?s'" using s1(2) dev(1) by (intro ptt_ok_devI) simp_all
  have "dmae_ok V W ?s'"
    using ok pok dev(4) by (simp add: dmae_ok_def fr DMAE_COMPLETION_VAL_def)
  moreover have "dmae_frame V s ?s'" using dev(2) s1(4) by (simp add: dmae_frame_def fr)
  moreover have "dmae_cmd_of ?s' = dmae_cmd_of s" by (simp add: dmae_cmd_of_def fr)
  ultimately show thesis using s1(1,5) w dev by (intro that [of s1 ?s']) simp_all
qed

end
