(* ===== verification/Qed_Dmae_Ops.thy ===== *)
theory Qed_Dmae_Ops
  imports Qed_Dmae_Correct
begin

unbundle bit_operations_syntax

text \<open>
  Requests to the DMA engine: each kind of command moves its data between the memories, and the
  loop over the parts of a long request composes to one move of the whole block.
\<close>

section \<open>Preparing a command\<close>

text \<open>What every part of a request finds in the command: its types and the completion word.\<close>

definition cmd_base :: "bool \<Rightarrow> bool \<Rightarrow> 'd qed_hwfn \<Rightarrow> bool" where
  "cmd_base src_grc dst_grc s \<longleftrightarrow> (let c = dmae_cmd_of s in opcode_for src_grc dst_grc c \<and>
     addr64 (comp_addr_lo c) (comp_addr_hi c) = completion_word_phys_addr (dmae_info s) \<and>
     comp_val c = DMAE_COMPLETION_VAL)"

lemma put_cmd_sel [simp]:
  "dmae_cmd_of (put_dmae_cmd c s) = c" "device (put_dmae_cmd c s) = device s" "hmem (put_dmae_cmd c s) = hmem s"
  "cdev (put_dmae_cmd c s) = cdev s" "rel_pf_id (put_dmae_cmd c s) = rel_pf_id s"
  "completion_word_phys_addr (dmae_info (put_dmae_cmd c s)) = completion_word_phys_addr (dmae_info s)"
  "intermediate_buffer_phys_addr (dmae_info (put_dmae_cmd c s)) = intermediate_buffer_phys_addr (dmae_info s)"
  "channel (dmae_info (put_dmae_cmd c s)) = channel (dmae_info s)"
  "b_mem_ready (dmae_info (put_dmae_cmd c s)) = b_mem_ready (dmae_info s)"
  "p_dmae_cmd (dmae_info (put_dmae_cmd c s)) = Some c"
  "gm V W (put_dmae_cmd c s) = gm V W s" "pm V W (put_dmae_cmd c s) = pm V W s"
  "put_dmae_cmd c (put_dmae_cmd c' s) = put_dmae_cmd c s"
  by (simp_all add: put_dmae_cmd_def dmae_cmd_of_def gm_def pm_def)

lemma put_cmd_ok [simp]: "p_dmae_cmd (dmae_info s) \<noteq> None \<Longrightarrow> dmae_ok V W (put_dmae_cmd c s) = dmae_ok V W s"
  by (simp add: dmae_ok_def ptt_ok_def) (simp add: put_dmae_cmd_def pool_of_def ptt_at_def gm_def pm_def)

lemma put_cmd_frame: "p_dmae_cmd (dmae_info s) \<noteq> None \<Longrightarrow> dmae_frame V s (put_dmae_cmd c s)"
  by (simp add: dmae_frame_def put_dmae_cmd_def)

lemma dma_put_sel [simp]:
  "hmem (dma_put B a v s) = hmem s" "cdev (dma_put B a v s) = cdev s"
  "dmae_info (dma_put B a v s) = dmae_info s" "dmae_cmd_of (dma_put B a v s) = dmae_cmd_of s"
  "rel_pf_id (dma_put B a v s) = rel_pf_id s"
  by (simp_all add: dma_put_def dmae_cmd_of_def)

lemma dma_put_mem:
  assumes "dma_memory B V W"
  shows "gm V W (dma_put B a v s) = gm V W s" "pm V W (dma_put B a v s) = (pm V W s)(a := v)"
    "dmae_frame V s (dma_put B a v s)"
    "a \<noteq> completion_word_phys_addr (dmae_info s) \<Longrightarrow> dmae_ok V W (dma_put B a v s) = dmae_ok V W s"
  by (simp_all add: dma_put_def gm_def pm_def dmae_frame_def dmae_ok_def ptt_ok_def pool_of_def ptt_at_def
      dma_memoryD [OF assms])

text \<open>Copies between host memory and the shared buffer.\<close>

lemma memcpy_to_dma:
  assumes M: "dma_memory B V W"
  shows "completion_word_phys_addr (dmae_info s) \<notin> block 4 dst k \<Longrightarrow>
    (let s' = memcpy_to_dma B dst src k s in hmem s' = hmem s \<and> dmae_info s' = dmae_info s \<and>
      gm V W s' = gm V W s \<and> pm V W s' = put_dwords 4 dst (get_dwords 4 src k (hmem s)) (pm V W s) \<and>
      dmae_frame V s s' \<and> dmae_ok V W s' = dmae_ok V W s)"
proof (induction k arbitrary: dst src s)
  case (Suc k)
  let ?s = "dma_put B dst (hmem s src) s"
  have "completion_word_phys_addr (dmae_info ?s) \<notin> block 4 (dst + 4) k"
    and ne: "dst \<noteq> completion_word_phys_addr (dmae_info s)"
    using Suc.prems by (auto simp: block_Suc)
  from Suc.IH [OF this(1), of "src + 4"] show ?case
    using dmae_frame_trans [OF dma_put_mem(3) [OF M, of s dst "hmem s src"]]
    by (simp add: Let_def get_dwords_Suc dma_put_mem(1,2) [OF M] dma_put_mem(4) [OF M ne] fun_upd_def)
qed simp

lemma memcpy_from_dma:
  assumes M: "dma_memory B V W"
  shows "let s' = memcpy_from_dma B dst src k s in hmem s' = put_dwords 4 dst (get_dwords 4 src k (pm V W s)) (hmem s) \<and>
      dmae_info s' = dmae_info s \<and> gm V W s' = gm V W s \<and> pm V W s' = pm V W s \<and>
      dmae_frame V s s' \<and> dmae_ok V W s' = dmae_ok V W s"
proof (induction k arbitrary: dst src s)
  case (Suc k)
  let ?s = "s\<lparr>hmem := (hmem s)(dst := dma_rd B src (device s))\<rparr>"
  have e: "gm V W ?s = gm V W s" "pm V W ?s = pm V W s" "dmae_frame V s ?s" "dmae_ok V W ?s = dmae_ok V W s"
    "dma_rd B src (device s) = pm V W s src"
    by (simp_all add: gm_def pm_def dmae_frame_def dmae_ok_def ptt_ok_def pool_of_def ptt_at_def
        dma_memoryD(6) [OF M])
  show ?case using Suc.IH [of "dst + 4" "src + 4" ?s] dmae_frame_trans [OF e(3)]
    unfolding memcpy_from_dma.simps Let_def e(1,2,4) unfolding e(5) get_dwords_Suc by simp
qed simp

section \<open>The three kinds of commands\<close>

text \<open>The device and the engine behave as documented; the engine answers within the wait limit.\<close>

definition dmae_env ::
  "'d bus \<Rightarrow> 'g grc \<Rightarrow> ('d, 'g) pxp_view \<Rightarrow> 'g dmae_view \<Rightarrow> 'd qed_hwfn \<Rightarrow> bool" where
  "dmae_env B G V W s \<longleftrightarrow> pxp_windows B G V \<and> dma_memory B V W \<and>
     dmae_engine G W (channel (dmae_info s)) (wait_cnt_limit (cdev s))"

text \<open>The result of a step: successful, everything in order, and the memories as stated.\<close>

definition dmae_done ::
  "('d, 'g) pxp_view \<Rightarrow> 'g dmae_view \<Rightarrow> 'd qed_hwfn \<Rightarrow> bool \<Rightarrow> bool \<Rightarrow> 'd qed_hwfn \<Rightarrow> bool" where
  "dmae_done V W s src_grc dst_grc s' \<longleftrightarrow> dmae_ok V W s' \<and> dmae_frame V s s' \<and> cmd_base src_grc dst_grc s'"

lemma dmae_doneD:
  assumes "dmae_done V W s src_grc dst_grc s'"
  shows "dmae_ok V W s'" "dmae_frame V s s'" "cmd_base src_grc dst_grc s'"
  using assms by (simp_all add: dmae_done_def)

lemma len16:
  assumes "unat (len :: u32) \<le> 0x2000"
  shows "unat (ucast len :: u16) = unat len"
  using assms by (simp add: unat_ucast_mod)

lemma sub_op_host2grc:
  assumes env: "dmae_env B G V W s" and ok: "dmae_ok V W s" and i: "i < 12"
    and base: "cmd_base False True s" and len: "unat len \<le> 0x2000" and nz: "dst \<noteq> 0"
  obtains s' where
    "qed_dmae_execute_sub_operation B i src dst QED_DMAE_ADDRESS_HOST_VIRT QED_DMAE_ADDRESS_GRC len s = (RC_OK, s')"
    "dmae_done V W s False True s'" "hmem s' = hmem s"
    "gm V W s' = put_dwords 1 (DMA_LO dst) (get_dwords 4 src (unat len) (hmem s)) (gm V W s)"
proof -
  have L: "pxp_windows B G V" and M: "dma_memory B V W"
    and E: "dmae_engine G W (channel (dmae_info s)) (wait_cnt_limit (cdev s))"
    using env by (simp_all add: dmae_env_def)
  let ?phys = "intermediate_buffer_phys_addr (dmae_info s)" and ?ca = "completion_word_phys_addr (dmae_info s)"
  have o: "p_dmae_cmd (dmae_info s) \<noteq> None" "?phys \<noteq> 0" "?ca \<notin> block 4 ?phys 0x2000"
    using ok by (simp_all add: dmae_ok_def)
  have nb: "?ca \<notin> block 4 ?phys (unat len)" using o(3) len by (auto simp: block_def)
  define c1 where "c1 = (dmae_cmd_of s)\<lparr>src_addr_hi := DMA_HI ?phys, src_addr_lo := DMA_LO ?phys\<rparr>"
  define s1 where "s1 = memcpy_to_dma B ?phys src (unat len) (put_dmae_cmd c1 s)"
  have s1: "hmem s1 = hmem s" "dmae_info s1 = dmae_info (put_dmae_cmd c1 s)" "gm V W s1 = gm V W s"
    "pm V W s1 = put_dwords 4 ?phys (get_dwords 4 src (unat len) (hmem s)) (pm V W s)"
    "dmae_frame V s s1" "dmae_ok V W s1"
    using memcpy_to_dma [OF M, of "put_dmae_cmd c1 s" ?phys "unat len" src] nb ok o(1)
      dmae_frame_trans [OF put_cmd_frame [OF o(1)]]
    by (auto simp: Let_def s1_def)
  define c2 where "c2 = c1\<lparr>dst_addr_hi := DMA_HI dst, dst_addr_lo := DMA_LO dst, length_dw := ucast len\<rparr>"
  define s2 where "s2 = put_dmae_cmd c2 s1"
  have c1: "dmae_cmd_of s1 = c1" by (simp add: dmae_cmd_of_def s1(2))
  have pd: "p_dmae_cmd (dmae_info s1) \<noteq> None" by (simp add: s1(2))
  have f2: "dmae_frame V s s2" unfolding s2_def using dmae_frame_trans [OF s1(5) put_cmd_frame [OF pd]] .
  have ok2: "dmae_ok V W s2" using s1(6) pd by (simp add: s2_def)
  have rdy: "cmd_ready False True s2"
    using base nz o(2) halves_zero [of dst] halves_zero [of ?phys]
    by (auto simp: cmd_ready_def cmd_base_def s2_def c2_def c1_def Let_def opcode_for_def s1(2))
  have E2: "dmae_engine G W (channel (dmae_info s2)) (wait_cnt_limit (cdev s2))"
    using E dmae_frameD [OF f2] by simp
  obtain s3 s' where p: "qed_dmae_post_command B i s2 = (RC_OK, s3)"
    "qed_dmae_operation_wait B s3 = (RC_OK, s')" "dmae_ok V W s'" "dmae_frame V s2 s'" "hmem s' = hmem s2"
    "dmae_cmd_of s' = dmae_cmd_of s2" "gm V W s' = cmd_gmem V W True (dmae_cmd_of s2) s2"
    by (rule post_wait [OF L M E2 ok2 i rdy]) metis
  have "get_dwords 4 ?phys (unat len) (pm V W s1) = get_dwords 4 src (unat len) (hmem s)"
    unfolding s1(4) using get_put_dwords [of ?phys 4 "get_dwords 4 src (unat len) (hmem s)"] len
    by (simp add: block_inj4)
  then have "gm V W s' = put_dwords 1 (DMA_LO dst) (get_dwords 4 src (unat len) (hmem s)) (gm V W s)"
    unfolding p(7) using base
    by (simp add: cmd_gmem_def cmd_words_def s2_def c2_def c1_def addr64_halves len16 [OF len] s1(3) cmd_base_def
        opcode_for_def Let_def)
  moreover have "qed_dmae_execute_sub_operation B i src dst QED_DMAE_ADDRESS_HOST_VIRT QED_DMAE_ADDRESS_GRC len s = (RC_OK, s')"
    using p(1,2) c1
    by (simp add: qed_dmae_execute_sub_operation_def Let_def s2_def c2_def flip: c1_def s1_def)
  moreover have "dmae_frame V s s'" using f2 p(4) by (rule dmae_frame_trans)
  moreover have "cmd_base False True s'"
    using base dmae_frameD(9) [OF \<open>dmae_frame V s s'\<close>]
    by (simp add: cmd_base_def p(6) s2_def c2_def c1_def Let_def opcode_for_def)
  ultimately show thesis using p(3,5) s1(1) by (intro that [of s']) (simp_all add: dmae_done_def s2_def)
qed


lemma sub_op_grc2host:
  assumes env: "dmae_env B G V W s" and ok: "dmae_ok V W s" and i: "i < 12"
    and base: "cmd_base True False s" and len: "unat len \<le> 0x2000" and nz: "src \<noteq> 0"
  obtains s' where
    "qed_dmae_execute_sub_operation B i src dst QED_DMAE_ADDRESS_GRC QED_DMAE_ADDRESS_HOST_VIRT len s = (RC_OK, s')"
    "dmae_done V W s True False s'" "gm V W s' = gm V W s"
    "hmem s' = put_dwords 4 dst (get_dwords 1 (DMA_LO src) (unat len) (gm V W s)) (hmem s)"
proof -
  have L: "pxp_windows B G V" and M: "dma_memory B V W"
    and E: "dmae_engine G W (channel (dmae_info s)) (wait_cnt_limit (cdev s))"
    using env by (simp_all add: dmae_env_def)
  let ?phys = "intermediate_buffer_phys_addr (dmae_info s)" and ?ca = "completion_word_phys_addr (dmae_info s)"
  let ?ws = "get_dwords 1 (DMA_LO src) (unat len) (gm V W s)"
  have o: "p_dmae_cmd (dmae_info s) \<noteq> None" "?phys \<noteq> 0" "?ca \<notin> block 4 ?phys 0x2000"
    using ok by (simp_all add: dmae_ok_def)
  have nb: "?ca \<notin> block 4 ?phys (unat len)" using o(3) len by (auto simp: block_def)
  define c2 where "c2 = (dmae_cmd_of s)\<lparr>src_addr_hi := DMA_HI src, src_addr_lo := DMA_LO src,
    dst_addr_hi := DMA_HI ?phys, dst_addr_lo := DMA_LO ?phys, length_dw := ucast len\<rparr>"
  define s2 where "s2 = put_dmae_cmd c2 s"
  have f2: "dmae_frame V s s2" and ok2: "dmae_ok V W s2"
    using o(1) ok by (simp_all add: s2_def put_cmd_frame)
  have rdy: "cmd_ready True False s2"
    using base nz o(2) halves_zero [of src] halves_zero [of ?phys]
    by (auto simp: cmd_ready_def cmd_base_def s2_def c2_def Let_def opcode_for_def)
  have E2: "dmae_engine G W (channel (dmae_info s2)) (wait_cnt_limit (cdev s2))"
    using E dmae_frameD [OF f2] by simp
  obtain s3 s4 where p: "qed_dmae_post_command B i s2 = (RC_OK, s3)"
    "qed_dmae_operation_wait B s3 = (RC_OK, s4)" "dmae_ok V W s4" "dmae_frame V s2 s4" "hmem s4 = hmem s2"
    "dmae_cmd_of s4 = dmae_cmd_of s2" "gm V W s4 = cmd_gmem V W False (dmae_cmd_of s2) s2"
    "pm V W s4 = (cmd_pmem V W False (dmae_cmd_of s2) s2)(completion_word_phys_addr (dmae_info s2) := 0)"
    by (rule post_wait [OF L M E2 ok2 i rdy]) metis
  have "cmd_words V W c2 s2 = ?ws"
    using base by (simp add: cmd_words_def s2_def c2_def len16 [OF len] cmd_base_def opcode_for_def Let_def)
  then have pm4: "pm V W s4 = (put_dwords 4 ?phys ?ws (pm V W s))(?ca := 0)"
    unfolding p(8) by (simp add: cmd_pmem_def s2_def) (simp add: c2_def addr64_halves)
  have "get_dwords 4 ?phys (unat len) (pm V W s4) = get_dwords 4 ?phys (unat len) (put_dwords 4 ?phys ?ws (pm V W s))"
    unfolding pm4 using nb by (intro get_dwords_cong) auto
  also have "\<dots> = ?ws"
    using get_put_dwords [of ?phys 4 ?ws] len by (simp add: block_inj4)
  finally have rd: "get_dwords 4 ?phys (unat len) (pm V W s4) = ?ws" .
  let ?s' = "memcpy_from_dma B dst ?phys (unat len) s4"
  note fr = memcpy_from_dma [OF M, of dst ?phys "unat len" s4, unfolded Let_def rd]
  have f4: "dmae_frame V s ?s'" using dmae_frame_trans [OF f2 dmae_frame_trans [OF p(4)]] fr by blast
  have ex: "qed_dmae_execute_sub_operation B i src dst QED_DMAE_ADDRESS_GRC QED_DMAE_ADDRESS_HOST_VIRT len s = (RC_OK, ?s')"
    using p(1,2) by (simp add: qed_dmae_execute_sub_operation_def Let_def s2_def c2_def)
  have "dmae_cmd_of ?s' = c2" using fr p(6) by (simp add: dmae_cmd_of_def s2_def)
  then have "cmd_base True False ?s'"
    using base dmae_frameD(9) [OF f4] by (simp add: cmd_base_def c2_def Let_def opcode_for_def)
  then have dn: "dmae_done V W s True False ?s'" using f4 fr p(3) by (simp add: dmae_done_def)
  have "gm V W ?s' = gm V W s" using fr by (simp add: p(7) cmd_gmem_def s2_def)
  moreover have "hmem ?s' = put_dwords 4 dst ?ws (hmem s)" using fr by (simp add: p(5) s2_def)
  ultimately show thesis by (rule that [OF ex dn])
qed

lemma sub_op_host2host:
  assumes env: "dmae_env B G V W s" and ok: "dmae_ok V W s" and i: "i < 12"
    and base: "cmd_base False False s" and len: "unat len \<le> 0x2000" and nz: "src \<noteq> 0" "dst \<noteq> 0"
  obtains s' where
    "qed_dmae_execute_sub_operation B i src dst QED_DMAE_ADDRESS_HOST_PHYS QED_DMAE_ADDRESS_HOST_PHYS len s = (RC_OK, s')"
    "dmae_done V W s False False s'" "gm V W s' = gm V W s" "hmem s' = hmem s"
    "pm V W s' = (put_dwords 4 dst (get_dwords 4 src (unat len) (pm V W s)) (pm V W s))
       (completion_word_phys_addr (dmae_info s) := 0)"
proof -
  have L: "pxp_windows B G V" and M: "dma_memory B V W"
    and E: "dmae_engine G W (channel (dmae_info s)) (wait_cnt_limit (cdev s))"
    using env by (simp_all add: dmae_env_def)
  have o: "p_dmae_cmd (dmae_info s) \<noteq> None" using ok by (simp add: dmae_ok_def)
  define c2 where "c2 = (dmae_cmd_of s)\<lparr>src_addr_hi := DMA_HI src, src_addr_lo := DMA_LO src,
    dst_addr_hi := DMA_HI dst, dst_addr_lo := DMA_LO dst, length_dw := ucast len\<rparr>"
  define s2 where "s2 = put_dmae_cmd c2 s"
  have f2: "dmae_frame V s s2" and ok2: "dmae_ok V W s2"
    using o ok by (simp_all add: s2_def put_cmd_frame)
  have rdy: "cmd_ready False False s2"
    using base nz halves_zero [of src] halves_zero [of dst]
    by (auto simp: cmd_ready_def cmd_base_def s2_def c2_def Let_def opcode_for_def)
  have E2: "dmae_engine G W (channel (dmae_info s2)) (wait_cnt_limit (cdev s2))"
    using E dmae_frameD [OF f2] by simp
  obtain s3 s' where p: "qed_dmae_post_command B i s2 = (RC_OK, s3)"
    "qed_dmae_operation_wait B s3 = (RC_OK, s')" "dmae_ok V W s'" "dmae_frame V s2 s'" "hmem s' = hmem s2"
    "dmae_cmd_of s' = dmae_cmd_of s2" "gm V W s' = cmd_gmem V W False (dmae_cmd_of s2) s2"
    "pm V W s' = (cmd_pmem V W False (dmae_cmd_of s2) s2)(completion_word_phys_addr (dmae_info s2) := 0)"
    by (rule post_wait [OF L M E2 ok2 i rdy]) metis
  have "cmd_words V W c2 s2 = get_dwords 4 src (unat len) (pm V W s)"
    using base by (simp add: cmd_words_def s2_def c2_def len16 [OF len] cmd_base_def opcode_for_def Let_def
        addr64_halves)
  then have pm': "pm V W s' = (put_dwords 4 dst (get_dwords 4 src (unat len) (pm V W s)) (pm V W s))
       (completion_word_phys_addr (dmae_info s) := 0)"
    unfolding p(8) by (simp add: cmd_pmem_def s2_def) (simp add: c2_def addr64_halves)
  have f: "dmae_frame V s s'" using f2 p(4) by (rule dmae_frame_trans)
  have "cmd_base False False s'"
    using base dmae_frameD(9) [OF f]
    by (simp add: cmd_base_def p(6) s2_def c2_def Let_def opcode_for_def)
  then have dn: "dmae_done V W s False False s'" using f p(3) by (simp add: dmae_done_def)
  have "qed_dmae_execute_sub_operation B i src dst QED_DMAE_ADDRESS_HOST_PHYS QED_DMAE_ADDRESS_HOST_PHYS len s = (RC_OK, s')"
    using p(1,2) by (simp add: qed_dmae_execute_sub_operation_def Let_def s2_def c2_def)
  from that [OF this dn _ _ pm'] show thesis by (simp add: p(5,7) cmd_gmem_def s2_def)
qed


section \<open>The loop over the parts\<close>

text \<open>
  With fewer than 65535 full parts the loop ends, whatever the device does: the 16 bit counter
  passes the bound.
\<close>

lemma split_loop_total:
  assumes "unat (rq_cnt_split r) < 0xFFFF"
  shows "\<exists>res. dmae_split_loop B N p r i s = Some res"
proof (induction "Suc (unat (rq_cnt_split r)) - unat i" arbitrary: i s rule: less_induct)
  case less
  show ?case
  proof (cases "i \<le> rq_cnt_split r")
    case False
    then show ?thesis by (subst dmae_split_loop.simps) simp
  next
    case True
    then have u: "unat i \<le> unat (rq_cnt_split r)" by (simp add: word_le_nat_alt)
    then have "unat (i + 1) = Suc (unat i)" using assms by (simp add: unat_Suc_mod)
    then have rec: "\<exists>res. dmae_split_loop B N p r (i + 1) s' = Some res" for s' using less u by simp
    show ?thesis
    proof (cases "dmae_split_one B N p r i s")
      case (Pair e s')
      then show ?thesis using True rec [of s'] by (subst dmae_split_loop.simps) (cases e; simp)
    qed
  qed
qed

text \<open>With 65535 it never ends, as long as no part fails.\<close>

lemma split_loop_forever:
  assumes r: "rq_cnt_split r = 0xFFFF" and R: "R s"
    and step: "\<And>j s. R s \<Longrightarrow> \<exists>s'. dmae_split_one B N p r j s = (RC_OK, s') \<and> R s'"
  shows "dmae_split_loop B N p r i s = None"
proof -
  have le: "j \<le> rq_cnt_split r" for j :: u16
    unfolding r word_le_nat_alt using unsigned_less [of j, where 'a = nat] by simp
  have "\<not> (B = B \<and> N = N \<and> p = p \<and> r = r \<and> R s)" if "dmae_split_loop B N p r i s = Some res" for res
  proof (rule dmae_split_loop.raw_induct
      [where P = "\<lambda>B' N' p' r' i s y. \<not> (B' = B \<and> N' = N \<and> p' = p \<and> r' = r \<and> R s)", OF _ that], rule notI)
    fix loop B' N' p' r' i s y
    assume IH: "\<And>B' N' p' r' i s y. loop B' N' p' r' i s = Some y \<Longrightarrow>
        \<not> (B' = B \<and> N' = N \<and> p' = p \<and> r' = r \<and> R s)"
      and body: "(if i \<le> rq_cnt_split r'
        then case dmae_split_one B' N' p' r' i s of
             (RC_OK, s') \<Rightarrow> loop B' N' p' r' (i + 1) s'
             | (RC_ERR errno, s') \<Rightarrow> Some (RC_ERR errno, s')
        else Some (RC_OK, s)) = Some y"
      and eq: "B' = B \<and> N' = N \<and> p' = p \<and> r' = r \<and> R s"
    obtain s' where s': "dmae_split_one B N p r i s = (RC_OK, s')" "R s'" using step eq by blast
    then have "loop B N p r (i + 1) s' = Some y" using body eq le [of i] by simp
    then show False using IH s'(2) by blast
  qed
  then show ?thesis using R by (cases "dmae_split_loop B N p r i s") auto
qed

text \<open>An invariant of the successful rounds.\<close>

lemma split_loop_inv:
  assumes cnt: "unat (rq_cnt_split r) < 0xFFFF"
    and step: "\<And>k s. k \<le> unat (rq_cnt_split r) \<Longrightarrow> P k s \<Longrightarrow>
      \<exists>s'. dmae_split_one B N p r (of_nat k) s = (RC_OK, s') \<and> P (Suc k) s'"
  shows "k \<le> Suc (unat (rq_cnt_split r)) \<Longrightarrow> P k s \<Longrightarrow>
    \<exists>s'. dmae_split_loop B N p r (of_nat k) s = Some (RC_OK, s') \<and> P (Suc (unat (rq_cnt_split r))) s'"
proof (induction "Suc (unat (rq_cnt_split r)) - k" arbitrary: k s)
  case 0
  then have k: "k = Suc (unat (rq_cnt_split r))" by simp
  have "unat (of_nat k :: u16) = k" using cnt k by (intro unat_of_nat_small) simp
  then have "\<not> (of_nat k \<le> rq_cnt_split r)" using k by (simp add: word_le_nat_alt)
  then show ?case using 0 k by (subst dmae_split_loop.simps) simp
next
  case (Suc n)
  then have k: "k \<le> unat (rq_cnt_split r)" by simp
  have "unat (of_nat k :: u16) = k" using cnt k by (intro unat_of_nat_small) simp
  then have le: "of_nat k \<le> rq_cnt_split r" using k by (simp add: word_le_nat_alt)
  obtain s1 where s1: "dmae_split_one B N p r (of_nat k) s = (RC_OK, s1)" "P (Suc k) s1"
    using step [OF k Suc.prems(2)] by blast
  have "\<exists>s'. dmae_split_loop B N p r (of_nat (Suc k)) s1 = Some (RC_OK, s') \<and> P (Suc (unat (rq_cnt_split r))) s'"
    using Suc.hyps k s1(2) by (intro Suc.hyps(1)) simp_all
  then show ?case using le s1(1) by (subst dmae_split_loop.simps) (simp add: add.commute)
qed


section \<open>Whole requests\<close>

definition dmae_request ::
  "u64 \<Rightarrow> u64 \<Rightarrow> qed_dmae_address_type \<Rightarrow> qed_dmae_address_type \<Rightarrow> dmae_params option \<Rightarrow> u32 \<Rightarrow> dmae_req" where
  "dmae_request src dst st dt pr n = \<lparr>rq_src_addr = src, rq_dst_addr = dst, rq_src_type = st, rq_dst_type = dt,
     rq_params = pr, rq_cnt_split = ucast (n div ucast DMAE_MAX_RW_SIZE),
     rq_length_mod = ucast (n mod ucast DMAE_MAX_RW_SIZE)\<rparr>"

lemma max_rw [simp]: "(ucast DMAE_MAX_RW_SIZE :: u32) = 0x2000" "unat DMAE_MAX_RW_SIZE = 0x2000"
  by (simp_all add: DMAE_MAX_RW_SIZE_def)

lemma request_cnt:
  assumes "unat n div 0x2000 < 0xFFFF"
  shows "unat (rq_cnt_split (dmae_request src dst st dt pr n)) = unat n div 0x2000"
  using assms by (simp add: dmae_request_def unat_ucast_mod unat_div)

lemma request_sel [simp]:
  "rq_src_addr (dmae_request src dst st dt pr n) = src" "rq_dst_addr (dmae_request src dst st dt pr n) = dst"
  "rq_src_type (dmae_request src dst st dt pr n) = st" "rq_dst_type (dmae_request src dst st dt pr n) = dt"
  "rq_params (dmae_request src dst st dt pr n) = pr"
  by (simp_all add: dmae_request_def)

text \<open>Part \<open>k\<close> starts at dword \<open>0x2000 * k\<close> and its length makes the parts add up.\<close>

lemma part_len:
  assumes "unat n div 0x2000 < 0xFFFF" "k \<le> unat n div 0x2000"
    and len_def: "len = dmae_split_len (dmae_request src dst st dt pr n) (of_nat k)"
  shows "min (0x2000 * k) (unat n) = 0x2000 * k" "min (0x2000 * Suc k) (unat n) = 0x2000 * k + unat len"
    "unat len \<le> 0x2000" "unat (ucast len :: u32) = unat len"
proof -
  let ?r = "dmae_request src dst st dt pr n"
  have c: "unat (rq_cnt_split ?r) = unat n div 0x2000" by (rule request_cnt [OF assms(1)])
  have uk: "unat (of_nat k :: u16) = k" using assms(1,2) by (intro unat_of_nat_small) simp
  have eq: "rq_cnt_split ?r = of_nat k \<longleftrightarrow> k = unat n div 0x2000"
    using c uk by (metis word_unat_eq_iff)
  have "unat (rq_length_mod ?r) = unat n mod 0x2000"
    by (simp add: dmae_request_def unat_ucast_mod unat_mod)
  then have l: "unat len = (if k = unat n div 0x2000 then unat n mod 0x2000 else 0x2000)"
    by (simp add: len_def dmae_split_len_def eq)
  show "unat (ucast len :: u32) = unat len" by (simp add: unat_ucast_le)
  show "unat len \<le> 0x2000" unfolding l by simp
  show "min (0x2000 * k) (unat n) = 0x2000 * k" using assms(2) by simp
  show "min (0x2000 * Suc k) (unat n) = 0x2000 * k + unat len"
  proof (cases "k = unat n div 0x2000")
    case True
    then have "0x2000 * k + unat n mod 0x2000 = unat n" by simp
    moreover have "unat n < 0x2000 * Suc k" unfolding True using dividend_less_times_div [of "0x2000" "unat n"] by simp
    ultimately show ?thesis using True by (simp add: l)
  next
    case False
    then have "Suc k \<le> unat n div 0x2000" using assms(2) by simp
    then have "0x2000 * Suc k \<le> unat n" by (metis div_times_less_eq_dividend le_trans mult.commute mult_le_mono2)
    then show ?thesis using False by (simp add: l)
  qed
qed

lemma part_offset:
  assumes "k < 0xFFFF"
  shows "dmae_split_offset (of_nat k) = of_nat (0x2000 * k)" "unat (dmae_split_offset (of_nat k)) = 0x2000 * k"
    "ucast (dmae_split_offset (of_nat k) * 4) = (of_nat (0x2000 * k) * 4 :: u64)"
    "ucast (dmae_split_offset (of_nat k)) = (of_nat (0x2000 * k) :: u64)"
proof -
  have uk: "unat (of_nat k :: u16) = k" using assms by (intro unat_of_nat_small) simp
  have "(ucast (of_nat k :: u16) :: u32) = of_nat k"
    using uk assms by (simp add: word_unat_eq_iff unat_ucast_le unat_of_nat_small)
  then show o: "dmae_split_offset (of_nat k) = of_nat (0x2000 * k)" by (simp add: dmae_split_offset_def)
  show u: "unat (dmae_split_offset (of_nat k)) = 0x2000 * k"
    unfolding o using assms by (intro unat_of_nat_small) simp
  have "unat (dmae_split_offset (of_nat k) * 4) = 0x2000 * k * 4"
    unfolding unat_mult_mod u using assms by simp
  then have "unat (ucast (dmae_split_offset (of_nat k) * 4) :: u64) = unat (of_nat (0x2000 * k * 4) :: u64)"
    using assms by (subst unat_of_nat_small) (simp_all add: unat_ucast_le)
  then show "ucast (dmae_split_offset (of_nat k) * 4) = (of_nat (0x2000 * k) * 4 :: u64)"
    by (simp add: word_unat_eq_iff)
  have "unat (ucast (dmae_split_offset (of_nat k)) :: u64) = unat (of_nat (0x2000 * k) :: u64)"
    using assms u by (subst unat_of_nat_small) (simp_all add: unat_ucast_le)
  then show "ucast (dmae_split_offset (of_nat k)) = (of_nat (0x2000 * k) :: u64)"
    by (simp add: word_unat_eq_iff)
qed

text \<open>The destination of a part in the GRC space: the low half of the address, and never zero.\<close>

lemma part_grc:
  assumes "k < 0xFFFF" "a \<noteq> 0"
  shows "DMA_LO (ucast a + of_nat (0x2000 * k)) = a + of_nat (0x2000 * k)" "ucast a + of_nat (0x2000 * k) \<noteq> (0 :: u64)"
proof -
  let ?x = "ucast (a :: u32) + of_nat (0x2000 * k) :: u64"
  have a: "unat a < 2 ^ 32" using unsigned_less [of a, where 'a = nat] by simp
  have k: "unat (of_nat (0x2000 * k) :: u64) = 0x2000 * k" using assms(1) by (intro unat_of_nat_small) simp
  have u: "unat ?x = unat a + 0x2000 * k"
    unfolding unat_add_mod k using a assms(1) by (simp add: unat_ucast_le)
  then show "?x \<noteq> 0" using assms(2) by (metis add_is_0 unat_eq_zero unat_0)
  have "unat (DMA_LO ?x) = unat ?x mod 2 ^ 32"
    unfolding DMA_LO_mask unat_ucast_mod by (simp add: unat_and_mask [where k = 32] mask_eq_exp_minus_1)
  also have "\<dots> = (unat a + 0x2000 * k) mod 2 ^ 32" by (simp only: u)
  also have "\<dots> = unat (a + of_nat (0x2000 * k))"
    unfolding unat_add_mod using unat_of_nat_small [of "0x2000 * k", where 'n = 32] assms(1) by simp
  finally show "DMA_LO ?x = a + of_nat (0x2000 * k)" by (simp add: word_unat_eq_iff)
qed

text \<open>A request is served when the buffers are there and no recovery is under way.\<close>

definition dmae_up :: "'d qed_hwfn \<Rightarrow> bool" where
  "dmae_up s \<longleftrightarrow> b_mem_ready (dmae_info s) \<and> \<not> QED_RECOV_IN_PROG (cdev s)"

lemma opcode_put: "\<exists>c. qed_dmae_opcode src_grc dst_grc pr s = put_dmae_cmd c s"
  unfolding qed_dmae_opcode_def Let_def split_beta by (rule exI, rule refl)

lemma execute_start:
  assumes ok: "dmae_ok V W s" and up: "dmae_up s"
  obtains s1 where "qed_dmae_execute_command B N p src dst st dt n pr s =
      dmae_split_loop B N p (dmae_request src dst st dt pr n) 0 s1"
    "dmae_done V W s (st = QED_DMAE_ADDRESS_GRC) (dt = QED_DMAE_ADDRESS_GRC) s1"
    "gm V W s1 = gm V W s" "pm V W s1 = pm V W s" "hmem s1 = hmem s"
proof -
  let ?sg = "st = QED_DMAE_ADDRESS_GRC" and ?dg = "dt = QED_DMAE_ADDRESS_GRC"
  let ?ca = "completion_word_phys_addr (dmae_info s)"
  have o: "p_dmae_cmd (dmae_info s) \<noteq> None" using ok by (simp add: dmae_ok_def)
  obtain c where c: "qed_dmae_opcode ?sg ?dg pr s = put_dmae_cmd c s"
    using opcode_put by blast
  define s1 where "s1 = put_dmae_cmd (c\<lparr>comp_addr_lo := DMA_LO ?ca, comp_addr_hi := DMA_HI ?ca,
    comp_val := DMAE_COMPLETION_VAL\<rparr>) s"
  have "opcode_for ?sg ?dg c" using opcode_ok [of ?sg ?dg pr s] by (simp add: c)
  then have "cmd_base ?sg ?dg s1" by (simp add: cmd_base_def s1_def Let_def addr64_halves opcode_for_def)
  then have "dmae_done V W s ?sg ?dg s1" using o ok by (simp add: dmae_done_def s1_def put_cmd_frame)
  moreover have "qed_dmae_execute_command B N p src dst st dt n pr s =
      dmae_split_loop B N p (dmae_request src dst st dt pr n) 0 s1"
    using o up unfolding qed_dmae_execute_command_def Let_def c dmae_up_def dmae_request_def s1_def
    by (simp only: put_cmd_sel if_False if_True not_True_eq_False not_False_eq_True)
  ultimately show thesis by (intro that [of s1]) (simp_all add: s1_def)
qed

lemma dmae_env_frame: "dmae_frame V s s' \<Longrightarrow> dmae_env B G V W s' = dmae_env B G V W s"
  by (simp add: dmae_env_def dmae_frameD)


text \<open>
  The parts compose: \<open>Q m\<close> says that the first \<open>m\<close> dwords have been moved; a part moves it on by
  its length.
\<close>

lemma request_loop:
  assumes n: "unat n div 0x2000 < 0xFFFF"
    and s1: "dmae_done V W s sg dg s1" "Q 0 s1"
    and part: "\<And>k t len. k < 0xFFFF \<Longrightarrow> unat len \<le> 0x2000 \<Longrightarrow> 0 < unat len \<Longrightarrow> 0x2000 * k + unat len \<le> unat n \<Longrightarrow> dmae_done V W s sg dg t \<Longrightarrow> Q (0x2000 * k) t \<Longrightarrow>
      \<exists>s'. qed_dmae_execute_sub_operation B i (dmae_split_src (dmae_request src dst st dt pr n) (of_nat k))
          (dmae_split_dst (dmae_request src dst st dt pr n) (of_nat k)) st dt len t = (RC_OK, s') \<and>
        dmae_done V W t sg dg s' \<and> Q (0x2000 * k + unat len) s'"
  shows "\<exists>s'. dmae_split_loop B N i (dmae_request src dst st dt pr n) 0 s1 = Some (RC_OK, s') \<and>
    dmae_done V W s sg dg s' \<and> Q (unat n) s'"
proof -
  let ?r = "dmae_request src dst st dt pr n"
  define P where "P k t \<longleftrightarrow> dmae_done V W s sg dg t \<and> Q (min (0x2000 * k) (unat n)) t" for k t
  have cnt: "unat (rq_cnt_split ?r) = unat n div 0x2000" by (rule request_cnt [OF n])
  have step: "\<exists>s'. dmae_split_one B N i ?r (of_nat k) t = (RC_OK, s') \<and> P (Suc k) s'"
    if k: "k \<le> unat (rq_cnt_split ?r)" and P: "P k t" for k t
  proof -
    have k': "k \<le> unat n div 0x2000" "k < 0xFFFF" using k cnt n by simp_all
    let ?len = "dmae_split_len ?r (of_nat k)"
    note pl = part_len(1) [OF n k'(1) refl] part_len(2-4) [OF n k'(1) refl, of src dst st dt pr]
    have t: "dmae_done V W s sg dg t" "Q (0x2000 * k) t" using P unfolding P_def pl(1) by blast+
    show ?thesis
    proof (cases "?len = 0")
      case True
      have "P (Suc k) t" unfolding P_def pl(2) using t True by simp
      then show ?thesis using True by (simp add: dmae_split_one_def)
    next
      case False
      then have pos: "0 < unat ?len" by (simp add: unat_gt_0)
      have le: "0x2000 * k + unat ?len \<le> unat n" using pl(2) by (metis min.cobounded2)
      obtain s' where s': "qed_dmae_execute_sub_operation B i (dmae_split_src ?r (of_nat k)) (dmae_split_dst ?r (of_nat k))
          st dt (ucast ?len) t = (RC_OK, s')" "dmae_done V W t sg dg s'" "Q (0x2000 * k + unat (ucast ?len :: u32)) s'"
        using part [OF k'(2) _ _ _ t, of "ucast ?len"] pl(3,4) pos le by auto
      then have "P (Suc k) s'" unfolding P_def pl(2) pl(4)
        using dmae_frame_trans [OF dmae_doneD(2) [OF t(1)]] by (auto simp: dmae_done_def)
      then show ?thesis using False s'(1) by (simp add: dmae_split_one_def)
    qed
  qed
  have "P 0 s1" using s1 by (simp add: P_def)
  from split_loop_inv [OF _ step _ this] cnt n obtain s' where
    "dmae_split_loop B N i ?r 0 s1 = Some (RC_OK, s')" "P (Suc (unat n div 0x2000)) s'" by auto
  moreover have "min (0x2000 * Suc (unat n div 0x2000)) (unat n) = unat n"
    using dividend_less_times_div [of "0x2000" "unat n"] by simp
  ultimately show ?thesis by (simp add: P_def)
qed

lemma host2grc_ok:
  assumes env: "dmae_env B G V W s" and ok: "dmae_ok V W s" and up: "dmae_up s" and i: "i < 12"
    and n: "unat n div 0x2000 < 0xFFFF" and a: "a div 4 \<noteq> 0"
    and pr: "\<not> QED_DMAE_FLAGS_IS_SET pr DMAE_PARAMS_RW_REPL_SRC"
  obtains s' where "qed_dmae_host2grc B N i src a n pr s = Some (RC_OK, s')"
    "dmae_done V W s False True s'" "hmem s' = hmem s"
    "gm V W s' = put_dwords 1 (a div 4) (get_dwords 4 src (unat n) (hmem s)) (gm V W s)"
proof -
  let ?d = "a div 4"
  let ?r = "dmae_request src (ucast ?d) QED_DMAE_ADDRESS_HOST_VIRT QED_DMAE_ADDRESS_GRC pr n"
  define Q where "Q m t \<longleftrightarrow> hmem t = hmem s \<and>
    gm V W t = put_dwords 1 ?d (get_dwords 4 src m (hmem s)) (gm V W s)" for m t
  obtain s1 where s1: "qed_dmae_host2grc B N i src a n pr s = dmae_split_loop B N i ?r 0 s1"
    "dmae_done V W s False True s1" "gm V W s1 = gm V W s" "hmem s1 = hmem s"
    using execute_start [OF ok up, of B N i src "ucast ?d" QED_DMAE_ADDRESS_HOST_VIRT QED_DMAE_ADDRESS_GRC n pr]
    by (auto simp: qed_dmae_host2grc_def Let_def)
  have "\<exists>s'. dmae_split_loop B N i ?r 0 s1 = Some (RC_OK, s') \<and> dmae_done V W s False True s' \<and> Q (unat n) s'"
  proof (rule request_loop [OF n s1(2)])
    show "Q 0 s1" using s1 by (simp add: Q_def)
    fix k t and len :: u32
    assume k: "k < 0xFFFF" and len: "unat len \<le> 0x2000" and t: "dmae_done V W s False True t" and q: "Q (0x2000 * k) t"
    note td = dmae_doneD [OF t] and po = part_offset [OF k] and pg = part_grc [OF k a]
    have sd: "dmae_split_src ?r (of_nat k) = src + of_nat (0x2000 * k) * 4"
      "dmae_split_dst ?r (of_nat k) = ucast ?d + of_nat (0x2000 * k)"
      unfolding dmae_split_src_def dmae_split_dst_def request_sel po(3,4) using pr by simp_all
    have env': "dmae_env B G V W t" using env dmae_env_frame [OF td(2)] by blast
    obtain s' where s': "qed_dmae_execute_sub_operation B i (src + of_nat (0x2000 * k) * 4) (ucast ?d + of_nat (0x2000 * k))
          QED_DMAE_ADDRESS_HOST_VIRT QED_DMAE_ADDRESS_GRC len t = (RC_OK, s')"
        "dmae_done V W t False True s'" "hmem s' = hmem t"
        "gm V W s' = put_dwords 1 (?d + of_nat (0x2000 * k))
           (get_dwords 4 (src + of_nat (0x2000 * k) * 4) (unat len) (hmem t)) (gm V W t)"
      using sub_op_host2grc [OF env' td(1) i td(3) len pg(2)] unfolding pg(1) by blast
    have "Q (0x2000 * k + unat len) s'"
      using q s'(3,4) unfolding Q_def get_dwords_add put_dwords_append by simp
    then show "\<exists>s'. qed_dmae_execute_sub_operation B i (dmae_split_src ?r (of_nat k)) (dmae_split_dst ?r (of_nat k))
        QED_DMAE_ADDRESS_HOST_VIRT QED_DMAE_ADDRESS_GRC len t = (RC_OK, s') \<and>
        dmae_done V W t False True s' \<and> Q (0x2000 * k + unat len) s'"
      unfolding sd using s'(1,2) by blast
  qed
  then show thesis using s1(1) that by (auto simp: Q_def)
qed

text \<open>
  Filling: with the flag \<open>RW_REPL_SRC\<close> every part takes the same source block; a block of zeros
  clears the destination.
\<close>

lemma host2grc_fill:
  assumes env: "dmae_env B G V W s" and ok: "dmae_ok V W s" and up: "dmae_up s" and i: "i < 12"
    and n: "unat n div 0x2000 < 0xFFFF" and a: "a div 4 \<noteq> 0"
    and pr: "QED_DMAE_FLAGS_IS_SET pr DMAE_PARAMS_RW_REPL_SRC"
    and z: "\<And>x. x \<in> block 4 src 0x2000 \<Longrightarrow> hmem s x = v"
  obtains s' where "qed_dmae_host2grc B N i src a n pr s = Some (RC_OK, s')"
    "dmae_done V W s False True s'" "hmem s' = hmem s"
    "gm V W s' = put_dwords 1 (a div 4) (replicate (unat n) v) (gm V W s)"
proof -
  let ?d = "a div 4"
  let ?r = "dmae_request src (ucast ?d) QED_DMAE_ADDRESS_HOST_VIRT QED_DMAE_ADDRESS_GRC pr n"
  define Q where "Q m t \<longleftrightarrow> hmem t = hmem s \<and>
    gm V W t = put_dwords 1 ?d (replicate m v) (gm V W s)" for m t
  obtain s1 where s1: "qed_dmae_host2grc B N i src a n pr s = dmae_split_loop B N i ?r 0 s1"
    "dmae_done V W s False True s1" "gm V W s1 = gm V W s" "hmem s1 = hmem s"
    using execute_start [OF ok up, of B N i src "ucast ?d" QED_DMAE_ADDRESS_HOST_VIRT QED_DMAE_ADDRESS_GRC n pr]
    by (auto simp: qed_dmae_host2grc_def Let_def)
  have blk: "get_dwords 4 src m (hmem s) = replicate m v" if "m \<le> 0x2000" for m
  proof (rule nth_equalityI)
    fix j assume "j < length (get_dwords 4 src m (hmem s))"
    then have "src + of_nat j * 4 \<in> block 4 src 0x2000" using that by (auto simp: block_def)
    then show "get_dwords 4 src m (hmem s) ! j = replicate m v ! j"
      using z \<open>j < _\<close> by simp
  qed simp
  have "\<exists>s'. dmae_split_loop B N i ?r 0 s1 = Some (RC_OK, s') \<and> dmae_done V W s False True s' \<and> Q (unat n) s'"
  proof (rule request_loop [OF n s1(2)])
    show "Q 0 s1" using s1 by (simp add: Q_def)
    fix k t and len :: u32
    assume k: "k < 0xFFFF" and len: "unat len \<le> 0x2000" and t: "dmae_done V W s False True t" and q: "Q (0x2000 * k) t"
    note td = dmae_doneD [OF t] and po = part_offset [OF k] and pg = part_grc [OF k a]
    have sd: "dmae_split_src ?r (of_nat k) = src" "dmae_split_dst ?r (of_nat k) = ucast ?d + of_nat (0x2000 * k)"
      unfolding dmae_split_src_def dmae_split_dst_def request_sel po(4) using pr by simp_all
    have env': "dmae_env B G V W t" using env dmae_env_frame [OF td(2)] by blast
    obtain s' where s': "qed_dmae_execute_sub_operation B i src (ucast ?d + of_nat (0x2000 * k))
          QED_DMAE_ADDRESS_HOST_VIRT QED_DMAE_ADDRESS_GRC len t = (RC_OK, s')"
        "dmae_done V W t False True s'" "hmem s' = hmem t"
        "gm V W s' = put_dwords 1 (?d + of_nat (0x2000 * k)) (get_dwords 4 src (unat len) (hmem t)) (gm V W t)"
      using sub_op_host2grc [OF env' td(1) i td(3) len pg(2)] unfolding pg(1) by blast
    have "Q (0x2000 * k + unat len) s'"
      using q s'(3,4) blk [OF len] unfolding Q_def replicate_add put_dwords_append by simp
    then show "\<exists>s'. qed_dmae_execute_sub_operation B i (dmae_split_src ?r (of_nat k)) (dmae_split_dst ?r (of_nat k))
        QED_DMAE_ADDRESS_HOST_VIRT QED_DMAE_ADDRESS_GRC len t = (RC_OK, s') \<and>
        dmae_done V W t False True s' \<and> Q (0x2000 * k + unat len) s'"
      unfolding sd using s'(1,2) by blast
  qed
  then show thesis using s1(1) that by (auto simp: Q_def)
qed


lemma grc2host_ok:
  assumes env: "dmae_env B G V W s" and ok: "dmae_ok V W s" and up: "dmae_up s" and i: "i < 12"
    and n: "unat n div 0x2000 < 0xFFFF" and a: "a div 4 \<noteq> 0"
    and pr: "\<not> QED_DMAE_FLAGS_IS_SET pr DMAE_PARAMS_RW_REPL_SRC"
  obtains s' where "qed_dmae_grc2host B N i a dst n pr s = Some (RC_OK, s')"
    "dmae_done V W s True False s'" "gm V W s' = gm V W s"
    "hmem s' = put_dwords 4 dst (get_dwords 1 (a div 4) (unat n) (gm V W s)) (hmem s)"
proof -
  let ?d = "a div 4"
  let ?r = "dmae_request (ucast ?d) dst QED_DMAE_ADDRESS_GRC QED_DMAE_ADDRESS_HOST_VIRT pr n"
  define Q where "Q m t \<longleftrightarrow> gm V W t = gm V W s \<and>
    hmem t = put_dwords 4 dst (get_dwords 1 ?d m (gm V W s)) (hmem s)" for m t
  obtain s1 where s1: "qed_dmae_grc2host B N i a dst n pr s = dmae_split_loop B N i ?r 0 s1"
    "dmae_done V W s True False s1" "gm V W s1 = gm V W s" "hmem s1 = hmem s"
    using execute_start [OF ok up, of B N i "ucast ?d" dst QED_DMAE_ADDRESS_GRC QED_DMAE_ADDRESS_HOST_VIRT n pr]
    by (auto simp: qed_dmae_grc2host_def Let_def)
  have "\<exists>s'. dmae_split_loop B N i ?r 0 s1 = Some (RC_OK, s') \<and> dmae_done V W s True False s' \<and> Q (unat n) s'"
  proof (rule request_loop [OF n s1(2)])
    show "Q 0 s1" using s1 by (simp add: Q_def)
    fix k t and len :: u32
    assume k: "k < 0xFFFF" and len: "unat len \<le> 0x2000" and t: "dmae_done V W s True False t" and q: "Q (0x2000 * k) t"
    note td = dmae_doneD [OF t] and po = part_offset [OF k] and pg = part_grc [OF k a]
    have sd: "dmae_split_src ?r (of_nat k) = ucast ?d + of_nat (0x2000 * k)"
      "dmae_split_dst ?r (of_nat k) = dst + of_nat (0x2000 * k) * 4"
      unfolding dmae_split_src_def dmae_split_dst_def request_sel po(3,4) using pr by simp_all
    have env': "dmae_env B G V W t" using env dmae_env_frame [OF td(2)] by blast
    obtain s' where s': "qed_dmae_execute_sub_operation B i (ucast ?d + of_nat (0x2000 * k)) (dst + of_nat (0x2000 * k) * 4)
          QED_DMAE_ADDRESS_GRC QED_DMAE_ADDRESS_HOST_VIRT len t = (RC_OK, s')"
        "dmae_done V W t True False s'" "gm V W s' = gm V W t"
        "hmem s' = put_dwords 4 (dst + of_nat (0x2000 * k) * 4)
           (get_dwords 1 (?d + of_nat (0x2000 * k)) (unat len) (gm V W t)) (hmem t)"
      using sub_op_grc2host [OF env' td(1) i td(3) len pg(2)] unfolding pg(1) by blast
    have "Q (0x2000 * k + unat len) s'"
      using q s'(3,4) unfolding Q_def get_dwords_add put_dwords_append by simp
    then show "\<exists>s'. qed_dmae_execute_sub_operation B i (dmae_split_src ?r (of_nat k)) (dmae_split_dst ?r (of_nat k))
        QED_DMAE_ADDRESS_GRC QED_DMAE_ADDRESS_HOST_VIRT len t = (RC_OK, s') \<and>
        dmae_done V W t True False s' \<and> Q (0x2000 * k + unat len) s'"
      unfolding sd using s'(1,2) by blast
  qed
  then show thesis using s1(1) that by (auto simp: Q_def)
qed

text \<open>
  Between bus addresses: the source and the destination are apart from each other and from the
  completion word, and address zero belongs to neither.
\<close>

definition host_blocks_ok :: "'d qed_hwfn \<Rightarrow> u64 \<Rightarrow> u64 \<Rightarrow> nat \<Rightarrow> bool" where
  "host_blocks_ok s src dst n \<longleftrightarrow> block 4 src n \<inter> block 4 dst n = {} \<and>
     0 \<notin> block 4 src n \<union> block 4 dst n \<and>
     completion_word_phys_addr (dmae_info s) \<notin> block 4 src n \<union> block 4 dst n"

lemma host2host_ok:
  assumes env: "dmae_env B G V W s" and ok: "dmae_ok V W s" and up: "dmae_up s" and i: "i < 12"
    and n: "unat n div 0x2000 < 0xFFFF" and bl: "host_blocks_ok s src dst (unat n)"
    and pr: "\<not> QED_DMAE_FLAGS_IS_SET pr DMAE_PARAMS_RW_REPL_SRC"
  obtains s' c where "qed_dmae_host2host B N i src dst n pr s = Some (RC_OK, s')"
    "dmae_done V W s False False s'" "gm V W s' = gm V W s" "hmem s' = hmem s"
    "pm V W s' = (put_dwords 4 dst (get_dwords 4 src (unat n) (pm V W s)) (pm V W s))
       (completion_word_phys_addr (dmae_info s) := c)"
proof -
  let ?ca = "completion_word_phys_addr (dmae_info s)"
  let ?r = "dmae_request src dst QED_DMAE_ADDRESS_HOST_PHYS QED_DMAE_ADDRESS_HOST_PHYS pr n"
  let ?m = "\<lambda>m. put_dwords 4 dst (get_dwords 4 src m (pm V W s)) (pm V W s)"
  define Q where "Q m t \<longleftrightarrow> gm V W t = gm V W s \<and> hmem t = hmem s \<and>
    (\<exists>c. pm V W t = (?m m)(?ca := c))" for m t
  obtain s1 where s1: "qed_dmae_host2host B N i src dst n pr s = dmae_split_loop B N i ?r 0 s1"
    "dmae_done V W s False False s1" "gm V W s1 = gm V W s" "hmem s1 = hmem s" "pm V W s1 = pm V W s"
    using execute_start [OF ok up, of B N i src dst QED_DMAE_ADDRESS_HOST_PHYS QED_DMAE_ADDRESS_HOST_PHYS n pr]
    by (auto simp: qed_dmae_host2host_def)
  have "\<exists>s'. dmae_split_loop B N i ?r 0 s1 = Some (RC_OK, s') \<and> dmae_done V W s False False s' \<and> Q (unat n) s'"
  proof (rule request_loop [OF n s1(2)])
    show "Q 0 s1" using s1 fun_upd_triv [of "pm V W s" ?ca] by (auto simp: Q_def intro: exI [of _ "pm V W s ?ca"])
    fix k t and len :: u32
    assume k: "k < 0xFFFF" and len: "unat len \<le> 0x2000" "0 < unat len" "0x2000 * k + unat len \<le> unat n"
      and t: "dmae_done V W s False False t" and q: "Q (0x2000 * k) t"
    let ?k = "0x2000 * k"
    let ?src = "src + of_nat ?k * 4" and ?dst = "dst + of_nat ?k * 4"
    note td = dmae_doneD [OF t] and po = part_offset [OF k]
    have sd: "dmae_split_src ?r (of_nat k) = ?src" "dmae_split_dst ?r (of_nat k) = ?dst"
      unfolding dmae_split_src_def dmae_split_dst_def request_sel po(3) using pr by simp_all
    have env': "dmae_env B G V W t" using env dmae_env_frame [OF td(2)] by blast
    have nz: "?src \<noteq> 0" "?dst \<noteq> 0"
      using bl block_start [OF len(2,3), of src 4] block_start [OF len(2,3), of dst 4]
      by (auto simp: host_blocks_ok_def)
    obtain s' where s': "qed_dmae_execute_sub_operation B i ?src ?dst
          QED_DMAE_ADDRESS_HOST_PHYS QED_DMAE_ADDRESS_HOST_PHYS len t = (RC_OK, s')"
        "dmae_done V W t False False s'" "gm V W s' = gm V W t" "hmem s' = hmem t"
        "pm V W s' = (put_dwords 4 ?dst (get_dwords 4 ?src (unat len) (pm V W t)) (pm V W t))(?ca := 0)"
      using sub_op_host2host [OF env' td(1) i td(3) len(1) nz] dmae_frameD(9) [OF td(2)] by metis
    obtain c where c: "pm V W t = (?m ?k)(?ca := c)" using q by (auto simp: Q_def)
    have sub: "block 4 ?src (unat len) \<subseteq> block 4 src (unat n)" "block 4 ?dst (unat len) \<subseteq> block 4 dst (unat n)"
      "block 4 dst ?k \<subseteq> block 4 dst (unat n)"
      by (rule block_part [OF len(3)])+ (rule block_mono, use len(3) in simp)
    have rd: "get_dwords 4 ?src (unat len) (pm V W t) = get_dwords 4 ?src (unat len) (pm V W s)"
    proof (rule get_dwords_cong)
      fix x assume "x \<in> block 4 ?src (unat len)"
      then have "x \<noteq> ?ca" "x \<notin> block 4 dst ?k" using bl sub by (auto simp: host_blocks_ok_def)
      then show "pm V W t x = pm V W s x" unfolding c by (simp add: put_dwords_outside)
    qed
    have "?ca \<notin> block 4 ?dst (unat len)" using bl sub(2) by (auto simp: host_blocks_ok_def)
    then have "pm V W s' = (?m (?k + unat len))(?ca := 0)"
      unfolding s'(5) rd unfolding c get_dwords_add put_dwords_append by (simp add: put_dwords_upd_outside)
    then have "Q (?k + unat len) s'" using q s'(3,4) unfolding Q_def by auto
    then show "\<exists>s'. qed_dmae_execute_sub_operation B i (dmae_split_src ?r (of_nat k)) (dmae_split_dst ?r (of_nat k))
        QED_DMAE_ADDRESS_HOST_PHYS QED_DMAE_ADDRESS_HOST_PHYS len t = (RC_OK, s') \<and>
        dmae_done V W t False False s' \<and> Q (?k + unat len) s'"
      unfolding sd using s'(1,2) by blast
  qed
  then show thesis using s1(1) that by (auto simp: Q_def)
qed


section \<open>The self test\<close>

text \<open>\<open>t\<close> is \<open>s\<close> with the dwords \<open>vs\<close> written to the shared memory from \<open>phys\<close> on.\<close>

definition dma_filled ::
  "('d, 'g) pxp_view \<Rightarrow> 'g dmae_view \<Rightarrow> 'd qed_hwfn \<Rightarrow> u64 \<Rightarrow> u32 list \<Rightarrow> 'd qed_hwfn \<Rightarrow> bool" where
  "dma_filled V W s phys vs t \<longleftrightarrow> dmae_info t = dmae_info s \<and> dmae_frame V s t \<and>
     dmae_ok V W t = dmae_ok V W s \<and> pm V W t = put_dwords 4 phys vs (pm V W s)"

lemma dma_filled_snoc:
  assumes M: "dma_memory B V W" and f: "dma_filled V W s phys vs t"
    and ca: "completion_word_phys_addr (dmae_info s) \<notin> block 4 phys (Suc (length vs))"
  shows "dma_filled V W s phys (vs @ [v]) (dma_put B (phys + of_nat (length vs) * 4) v t)"
proof -
  let ?a = "phys + of_nat (length vs) * 4"
  have "?a \<noteq> completion_word_phys_addr (dmae_info t)"
    using ca f block_start [of 1 "length vs" "Suc (length vs)" phys 4] by (auto simp: dma_filled_def)
  note p = dma_put_mem(2,3) [OF M] dma_put_mem(4) [OF M this]
  show ?thesis using f dmae_frame_trans [OF _ p(2)]
    unfolding dma_filled_def put_dwords_snoc by (simp add: p(1,3))
qed

lemma sanity_fill_ok:
  assumes M: "dma_memory B V W"
  shows "completion_word_phys_addr (dmae_info s) \<notin> block 4 phys k \<Longrightarrow>
    dma_filled V W s phys (map (\<lambda>j. ucast (virt + of_nat j * 4)) [0..<k]) (sanity_fill B virt phys k s)"
proof (induction k)
  case (Suc k)
  have "completion_word_phys_addr (dmae_info s) \<notin> block 4 phys k"
    using Suc.prems block_mono [of k "Suc k" 4 phys] by auto
  from dma_filled_snoc [OF M Suc.IH [OF this]] Suc.prems show ?case by simp
qed (simp add: dma_filled_def)

lemma sanity_zero_ok:
  assumes M: "dma_memory B V W"
  shows "completion_word_phys_addr (dmae_info s) \<notin> block 4 phys k \<Longrightarrow>
    dma_filled V W s phys (replicate k 0) (sanity_zero B phys k s)"
proof (induction k)
  case (Suc k)
  have "completion_word_phys_addr (dmae_info s) \<notin> block 4 phys k"
    using Suc.prems block_mono [of k "Suc k" 4 phys] by auto
  from dma_filled_snoc [OF M Suc.IH [OF this], of 0] Suc.prems show ?case
    by (simp add: replicate_append_same)
qed (simp add: dma_filled_def)

lemma sanity_check_iff:
  assumes M: "dma_memory B V W"
  shows "sanity_check B virt phys sz k s = RC_OK \<longleftrightarrow>
    get_dwords 4 phys k (pm V W s) = map (\<lambda>j. ucast (virt + of_nat j * 4) - sz) [0..<k]"
proof (induction k arbitrary: virt phys)
  case (Suc k)
  have "map (\<lambda>j. ucast (virt + of_nat j * 4) - sz) [0..<Suc k] =
      (ucast virt - sz) # map (\<lambda>j. ucast (virt + 4 + of_nat j * 4) - sz) [0..<k]"
    unfolding upt_conv_Cons [OF zero_less_Suc] map_Suc_upt [symmetric] by (simp add: algebra_simps)
  then show ?case using Suc.IH [of "virt + 4" "phys + 4"]
    by (simp add: get_dwords_Suc dma_memoryD(6) [OF M] pm_def del: upt_Suc)
qed simp

lemma sanity_check_code: "sanity_check B virt phys sz k s = RC_OK \<or> sanity_check B virt phys sz k s = RC_ERR EINVAL"
  by (induction k arbitrary: virt phys) simp_all

lemma ucast_diff_add: "(ucast (x + ucast sz + y :: u64) :: u32) - sz = ucast (x + y)"
proof -
  have h: "(ucast (a + b) :: u32) = ucast a + ucast b" for a b :: u64
    unfolding word_unat_eq_iff unat_ucast_mod unat_add_mod by (simp add: mod_mod_cancel mod_add_eq)
  have "(ucast (ucast sz :: u64) :: u32) = sz"
    using unsigned_less [of sz, where 'a = nat] by (simp add: word_unat_eq_iff unat_ucast_mod)
  then show ?thesis unfolding h by simp
qed

text \<open>
  With an engine that works the self test succeeds: the buffer is one block, away from the
  completion word and from address zero.
\<close>

lemma dmae_sanity_ok:
  assumes env: "dmae_env B G V W s" and ok: "dmae_ok V W s" and up: "dmae_up s" and i: "i < 12"
    and ps: "unat ps = 8 * k" "k \<le> 0x20000"
    and z: "0 \<notin> block 4 phys (2 * k)"
    and ca: "completion_word_phys_addr (dmae_info s) \<notin> block 4 phys (2 * k)"
  obtains s' where "qed_dmae_sanity B N ps (Some (virt, phys)) i s = Some (RC_OK, s')"
    "dmae_done V W s False False s'"
proof -
  have M: "dma_memory B V W" using env by (simp add: dmae_env_def)
  let ?sz = "ps div 2" and ?top = "phys + of_nat k * 4"
  let ?pat = "map (\<lambda>j. ucast (virt + of_nat j * 4) :: u32) [0..<k]"
  have sz: "unat ?sz = 4 * k" "unat (?sz div 4) = k" using ps(1) by (simp_all add: unat_div)
  have usz: "(ucast ?sz :: u64) = of_nat k * 4"
  proof -
    have "unat (ucast ?sz :: u64) = unat (of_nat (4 * k) :: u64)"
      using sz(1) ps(2) by (subst unat_of_nat_small) (simp_all add: unat_ucast_le)
    then show ?thesis by (simp add: word_unat_eq_iff mult.commute)
  qed
  have sub: "block 4 phys k \<subseteq> block 4 phys (2 * k)" "block 4 ?top k \<subseteq> block 4 phys (2 * k)"
    using block_mono [of k "2 * k" 4 phys] block_part [of k k "2 * k" 4 phys] by simp_all
  have ap: "block 4 phys k \<inter> block 4 ?top k = {}" using ps(2) by (intro block_apart) simp
  define s1 where "s1 = sanity_fill B virt phys k s"
  define s2 where "s2 = sanity_zero B ?top k s1"
  have f1: "dma_filled V W s phys ?pat s1"
    unfolding s1_def using ca sub by (intro sanity_fill_ok [OF M]) auto
  have f2: "dma_filled V W s1 ?top (replicate k 0) s2"
    unfolding s2_def using ca sub f1 by (intro sanity_zero_ok [OF M]) (auto simp: dma_filled_def)
  have fr: "dmae_frame V s s2" "dmae_info s2 = dmae_info s" "dmae_ok V W s2"
    using f1 f2 ok dmae_frame_trans by (auto simp: dma_filled_def)
  have up2: "dmae_up s2" using up dmae_frameD [OF fr(1)] by (simp add: dmae_up_def)
  have bl: "host_blocks_ok s2 phys ?top (unat (?sz div 4))"
    unfolding host_blocks_ok_def sz(2) fr(2) using ap sub z ca by blast
  have env2: "dmae_env B G V W s2" using env dmae_env_frame [OF fr(1)] by blast
  have n2: "unat (?sz div 4) div 0x2000 < 0xFFFF" unfolding sz(2) using ps(2) by simp
  have pr: "\<not> QED_DMAE_FLAGS_IS_SET None DMAE_PARAMS_RW_REPL_SRC" by (simp add: QED_DMAE_FLAGS_IS_SET_def)
  obtain s' c where s': "qed_dmae_host2host B N i phys ?top (?sz div 4) None s2 = Some (RC_OK, s')"
    "dmae_done V W s2 False False s'"
    "pm V W s' = (put_dwords 4 ?top (get_dwords 4 phys k (pm V W s2)) (pm V W s2))
       (completion_word_phys_addr (dmae_info s2) := c)"
    using host2host_ok [OF env2 fr(3) up2 i n2 bl pr, of N] unfolding sz(2) by metis
  have "get_dwords 4 phys k (pm V W s2) = get_dwords 4 phys k (pm V W s1)"
  proof (rule get_dwords_cong)
    fix x assume "x \<in> block 4 phys k"
    then have "x \<notin> block 4 ?top (length (replicate k (0 :: u32)))" using ap by auto
    from put_dwords_outside [OF this] show "pm V W s2 x = pm V W s1 x" using f2 by (simp only: dma_filled_def)
  qed
  also have "\<dots> = ?pat"
    using f1 get_put_dwords [of phys 4 ?pat] ps(2) by (simp add: dma_filled_def block_inj4)
  finally have pat: "get_dwords 4 phys k (pm V W s2) = ?pat" .
  have "get_dwords 4 ?top k (pm V W s') = get_dwords 4 ?top k (put_dwords 4 ?top ?pat (pm V W s2))"
    unfolding s'(3) pat using ca sub fr(2) by (intro get_dwords_cong) auto
  also have "\<dots> = ?pat" using get_put_dwords [of ?top 4 ?pat] ps(2) by (simp add: block_inj4)
  finally have "sanity_check B (virt + ucast ?sz) ?top ?sz k s' = RC_OK"
    unfolding sanity_check_iff [OF M] by (simp add: ucast_diff_add)
  then have "qed_dmae_sanity B N ps (Some (virt, phys)) i s = Some (RC_OK, s')"
    using s'(1) by (simp add: qed_dmae_sanity_def Let_def usz sz(2) flip: s1_def s2_def)
  moreover have "dmae_done V W s False False s'"
    using s'(2) fr(1) dmae_frame_trans by (auto simp: dmae_done_def)
  ultimately show thesis by (rule that)
qed

end
