(* ===== verification/Qed_Hw_Device.thy ===== *)
theory Qed_Hw_Device
  imports Qed_Hw_Access Qed_Dmae_Ops
begin

unbundle bit_operations_syntax

text \<open>
  A device that has the documented behaviour: twelve windows, a GRC space of plain memory with
  the command memory and the go register of DMA channel 0, and host memory. It shows that what the
  theorems assume of the device can hold, and it is the instance their concrete cases use. A
  started command is executed at once.
\<close>

record dev_chip =
  dc_row :: "nat \<Rightarrow> u32"
  dc_gmem :: "u32 \<Rightarrow> u32"
  dc_pmem :: "u64 \<Rightarrow> u32"

record dev =
  dv_win :: "nat \<Rightarrow> u32"
  dv_pret :: "nat \<Rightarrow> u32"
  dv_chip :: dev_chip

definition dev_dmae :: "dev_chip dmae_view" where
  "dev_dmae = \<lparr>cmdrow = dc_row, gmem = dc_gmem, pmem = dc_pmem\<rparr>"

definition dev_go :: "dev_chip \<Rightarrow> dev_chip" where
  "dev_go g = g\<lparr>dc_gmem := gmem_after dev_dmae g, dc_pmem := pmem_after dev_dmae g\<rparr>"

definition dev_grc_wr :: "u32 \<Rightarrow> u32 \<Rightarrow> u32 \<Rightarrow> dev_chip \<Rightarrow> dev_chip" where
  "dev_grc_wr p a v g =
     (if a = 0xc048 then (if v = 1 then dev_go g else g)
      else if 0xc800 \<le> a \<and> a < 0xc838 then g\<lparr>dc_row := (dc_row g)((unat a - 0xc800) div 4 := v)\<rparr>
      else g\<lparr>dc_gmem := (dc_gmem g)(a div 4 := v)\<rparr>)"

definition dev_grc :: "dev_chip grc" where
  "dev_grc = \<lparr>grc_wr = dev_grc_wr, grc_rd = (\<lambda>p a g. (dc_gmem g (a div 4), g)), grc_delay = (\<lambda>us g. g)\<rparr>"

definition dev_view :: "(dev, dev_chip) pxp_view" where
  "dev_view = \<lparr>win = dv_win, pret = dv_pret, chip = dv_chip\<rparr>"

definition dev_reg_wr :: "u32 \<Rightarrow> u32 \<Rightarrow> dev \<Rightarrow> dev" where
  "dev_reg_wr off v d = (let q = unat off in
     if q < 0x60 then (if q mod 8 = 0 then d\<lparr>dv_win := (dv_win d)(q div 8 := v)\<rparr>
                       else d\<lparr>dv_pret := (dv_pret d)(q div 8 := v)\<rparr>)
     else if q < 0x1000 then d
     else (let i = (q - 0x1000) div 0x1000; n = (q - 0x1000) mod 0x1000 div 4 in
       d\<lparr>dv_chip := dev_grc_wr (dv_pret d i) (win_target (dv_win d i) n) v (dv_chip d)\<rparr>))"

definition dev_reg_rd :: "u32 \<Rightarrow> dev \<Rightarrow> u32 \<times> dev" where
  "dev_reg_rd off d = (let q = unat off; i = (q - 0x1000) div 0x1000; n = (q - 0x1000) mod 0x1000 div 4
     in (dc_gmem (dv_chip d) (win_target (dv_win d i) n div 4), d))"

definition dev_bus :: "dev bus" where
  "dev_bus = \<lparr>reg_wr = dev_reg_wr, reg_rd = dev_reg_rd, bus_delay = (\<lambda>us d. d),
     dma_rd = (\<lambda>a d. dc_pmem (dv_chip d) a),
     dma_wr = (\<lambda>a v d. d\<lparr>dv_chip := (dv_chip d)\<lparr>dc_pmem := (dc_pmem (dv_chip d))(a := v)\<rparr>\<rparr>)\<rparr>"

section \<open>It has the documented behaviour\<close>

lemma unat_admin: "i < 12 \<Longrightarrow> unat (of_nat i * 8 :: u32) = i * 8" "i < 12 \<Longrightarrow> unat (of_nat i * 8 + 4 :: u32) = i * 8 + 4"
  using unat_of_nat_small [of "i * 8", where 'n = 32] unat_of_nat_small [of "i * 8 + 4", where 'n = 32]
  by simp_all

lemma unat_win_dword:
  assumes "i < 12" "n < 1024"
  shows "unat (win_dword i n) = 0x1000 + i * 0x1000 + n * 4"
proof -
  have "win_dword i n = of_nat (0x1000 + i * 0x1000 + n * 4)" by (simp add: win_dword_def)
  then show ?thesis
    using assms unat_of_nat_small [of "0x1000 + i * 0x1000 + n * 4", where 'n = 32] by simp
qed

lemma win_decode:
  assumes "i < 12" "n < 1024"
  shows "(unat (win_dword i n) - 0x1000) div 0x1000 = i" "(unat (win_dword i n) - 0x1000) mod 0x1000 div 4 = n"
    "\<not> unat (win_dword i n) < 0x60" "\<not> unat (win_dword i n) < 0x1000"
proof -
  have u: "unat (win_dword i n) = 0x1000 + (n * 4 + i * 0x1000)" by (simp add: unat_win_dword [OF assms])
  have "n * 4 < 0x1000" using assms by simp
  then show "(unat (win_dword i n) - 0x1000) div 0x1000 = i" "(unat (win_dword i n) - 0x1000) mod 0x1000 div 4 = n"
    unfolding u by simp_all
qed (simp_all add: unat_win_dword [OF assms])

lemma dev_windows: "pxp_windows dev_bus dev_grc dev_view"
proof -
  have adm: "(i * 8) div 8 = i" "(i * 8 + 4) div 8 = i" "(i * 8 + 4) mod 8 = (4 :: nat)" for i :: nat by simp_all
  have "i < 12 \<Longrightarrow> dev_reg_wr (of_nat i * 8) v d = d\<lparr>dv_win := (dv_win d)(i := v)\<rparr>" for i v d
    by (simp add: dev_reg_wr_def Let_def unat_admin)
  moreover have "i < 12 \<Longrightarrow> dev_reg_wr (of_nat i * 8 + 4) v d = d\<lparr>dv_pret := (dv_pret d)(i := v)\<rparr>" for i v d
    by (simp add: dev_reg_wr_def Let_def unat_admin adm)
  moreover have "0x60 \<le> a \<Longrightarrow> a < 0x1000 \<Longrightarrow> dev_reg_wr a v d = d" for a v d
    by (simp add: dev_reg_wr_def Let_def word_le_nat_alt word_less_nat_alt)
  moreover have "i < 12 \<Longrightarrow> n < 1024 \<Longrightarrow> dev_reg_wr (win_dword i n) v d =
      d\<lparr>dv_chip := dev_grc_wr (dv_pret d i) (win_target (dv_win d i) n) v (dv_chip d)\<rparr>" for i n v d
    unfolding dev_reg_wr_def Let_def by (simp only: win_decode if_False)
  moreover have "i < 12 \<Longrightarrow> n < 1024 \<Longrightarrow> dev_reg_rd (win_dword i n) d =
      (dc_gmem (dv_chip d) (win_target (dv_win d i) n div 4), d)" for i n d
    unfolding dev_reg_rd_def Let_def by (simp only: win_decode)
  ultimately show ?thesis unfolding pxp_windows_def dev_bus_def dev_view_def dev_grc_def by simp
qed

lemma dev_memory: "dma_memory dev_bus dev_view dev_dmae"
  by (simp add: dma_memory_def dev_bus_def dev_view_def dev_dmae_def)

lemma dev_engine: "dmae_engine dev_grc dev_dmae 0 limit"
proof -
  have row: "dev_grc_wr p (cmd_row_addr 0 i) v g = g\<lparr>dc_row := (dc_row g)(i := v)\<rparr>" if "i < 14" for p i v g
  proof -
    have "cmd_row_addr 0 i = of_nat (0xc800 + i * 4)" by (simp add: cmd_row_addr_def)
    then have u: "unat (cmd_row_addr 0 i) = 0xc800 + i * 4"
      using that unat_of_nat_small [of "0xc800 + i * 4", where 'n = 32] by simp
    have "cmd_row_addr 0 i \<noteq> 0xc048" "0xc800 \<le> cmd_row_addr 0 i" "cmd_row_addr 0 i < 0xc838"
      using that by (auto simp: word_unat_eq_iff word_le_nat_alt word_less_nat_alt u)
    then show ?thesis by (simp add: dev_grc_wr_def u)
  qed
  have go: "dev_grc_wr p (go_addr 0) 1 g = dev_go g" for p g by (simp add: dev_grc_wr_def go_addr_def)
  show ?thesis unfolding dmae_engine_def dev_grc_def
    by (auto simp: row go Let_def dev_dmae_def dev_go_def intro: exI [of _ 0])
qed

definition dev_mem :: "dev_chip \<Rightarrow> u32 \<Rightarrow> u32" where
  "dev_mem g a = (if unat a mod 4 = 0 then dc_gmem g (a div 4) else 0)"

lemma dev_ram:
  assumes "unat a mod 4 = 0" "0x10000 \<le> unat a" "unat a + 4 * k \<le> 0x2000000"
  shows "grc_ram dev_grc p dev_mem a k"
proof -
  have "dev_mem (dev_grc_wr p (a + of_nat j * 4) v g) = (dev_mem g)(a + of_nat j * 4 := v)"
    "dc_gmem g ((a + of_nat j * 4) div 4) = dev_mem g (a + of_nat j * 4)" if "j < k" for j v g
  proof -
    let ?b = "a + of_nat j * 4"
    have "?b = of_nat (unat a + j * 4)" by simp
    then have u: "unat ?b = unat a + j * 4"
      using assms(3) that unat_of_nat_small [of "unat a + j * 4", where 'n = 32] by simp
    then have al: "unat ?b mod 4 = 0" using assms(1) by presburger
    have ne: "?b \<noteq> 0xc048" "\<not> ?b < 0xc838"
      using assms(2) u by (auto simp: word_unat_eq_iff word_less_nat_alt)
    have "unat x = unat ?b" if "unat x mod 4 = 0" "x div 4 = ?b div 4" for x :: u32
    proof -
      have "unat x div 4 = unat ?b div 4" using arg_cong [OF that(2), of unat] by (simp add: unat_div)
      then show ?thesis using that(1) al by (metis div_mult_mod_eq)
    qed
    then have inj: "unat x mod 4 = 0 \<Longrightarrow> x div 4 = ?b div 4 \<Longrightarrow> x = ?b" for x :: u32 by (simp add: word_unat_eq_iff)
    show "dc_gmem g (?b div 4) = dev_mem g ?b" unfolding dev_mem_def using al by presburger
    have wr: "dev_grc_wr p ?b v g = g\<lparr>dc_gmem := (dc_gmem g)(?b div 4 := v)\<rparr>"
      unfolding dev_grc_wr_def using ne by presburger
    show "dev_mem (dev_grc_wr p ?b v g) = (dev_mem g)(?b := v)"
    proof
      fix x
      show "dev_mem (dev_grc_wr p ?b v g) x = ((dev_mem g)(?b := v)) x"
        unfolding wr dev_mem_def using inj [of x] al by (cases "x = ?b") auto
    qed
  qed
  then show ?thesis by (simp add: grc_ram_def dev_grc_def)
qed

section \<open>A driver on it\<close>

definition dev_cdev :: qed_cdev where
  "dev_cdev = \<lparr>chip_rev = 1, is_bb = False, is_pf = True, num_ports = 2, num_ports_in_engine = 2,
     chk_reg_fifo = False, monitored_hw_addr = 0, recov_in_prog = False, aer_in_prog = False\<rparr>"

definition dev_cmd :: dmae_cmd where
  "dev_cmd = \<lparr>opcode = 0, src_addr_lo = 0, src_addr_hi = 0, dst_addr_lo = 0, dst_addr_hi = 0, length_dw = 0,
     opcode_b = 0, comp_addr_lo = 0, comp_addr_hi = 0, comp_val = 0\<rparr>"

definition dev_hwfn :: "dev qed_hwfn" where
  "dev_hwfn = \<lparr>my_id = 0, rel_pf_id = 0, abs_pf_id = 0, hw_port_id = 0, cdev = dev_cdev, p_ptt_pool = None,
     dmae_info = \<lparr>b_mem_ready = True, channel = 0, completion_word_phys_addr = 0x1000, p_completion_word = True,
       intermediate_buffer_phys_addr = 0x100000, p_intermediate_buffer = True, dmae_cmd_phys_addr = 0x2000,
       p_dmae_cmd = Some dev_cmd\<rparr>,
     hmem = (\<lambda>a. ucast a + 1), warnings = [], hw_errors = [],
     device = \<lparr>dv_win = (\<lambda>_. 7), dv_pret = (\<lambda>_. 0),
       dv_chip = \<lparr>dc_row = (\<lambda>_. 0), dc_gmem = (\<lambda>_. 0), dc_pmem = (\<lambda>_. 0)\<rparr>\<rparr>\<rparr>"

definition dev_pool :: qed_ptt_pool where
  "dev_pool = \<lparr>ptt_free_list = [], ptts = replicate 12
     \<lparr>ptt_idx = 9, pxp_offset = 9, pxp_fid = 9, pxp_control = 9, ptt_hwfn_id = 9\<rparr>\<rparr>"

definition dev_up :: "dev qed_hwfn" where
  "dev_up = snd (qed_ptt_pool_alloc (Some dev_pool) dev_hwfn)"

lemma dev_alloc: "qed_ptt_pool_alloc (Some dev_pool) dev_hwfn = (RC_OK, dev_up)"
  by (simp add: dev_up_def qed_ptt_pool_alloc_def Let_def)

lemma dev_up_ok: "ptt_ok V dev_up" "pool_inv dev_up" "ptt_free_list (pool_of dev_up) = rev [4..<12]"
  using pool_alloc_ok [OF _ dev_alloc] by (simp_all add: dev_pool_def)

lemma dev_up_fields [simp]: "cdev dev_up = dev_cdev" "dmae_info dev_up = dmae_info dev_hwfn"
  "hmem dev_up = hmem dev_hwfn" "device dev_up = device dev_hwfn" "rel_pf_id dev_up = 0"
  by (simp_all add: dev_up_def qed_ptt_pool_alloc_def Let_def dev_hwfn_def)

lemma block4_range:
  assumes "(x :: u64) \<in> block 4 a k" "unat a + 4 * k < 2 ^ 64"
  shows "unat a \<le> unat x \<and> unat x < unat a + 4 * k"
proof -
  obtain j where j: "j < k" "x = a + of_nat j * 4" using assms(1) by (auto simp: block_def)
  then have "x = of_nat (unat a + j * 4)" by simp
  then show ?thesis
    using j(1) assms(2) unat_of_nat_small [of "unat a + j * 4", where 'n = 64] by simp
qed

lemma dev_dmae_ok: "dmae_ok dev_view dev_dmae dev_up" "dmae_up dev_up" "dmae_env dev_bus dev_grc dev_view dev_dmae dev_up"
proof -
  have far: "(0x1000 :: u64) \<notin> block 4 0x100000 0x2000" using block4_range [of "0x1000" "0x100000" "0x2000"] by auto
  show "dmae_ok dev_view dev_dmae dev_up"
    using dev_up_ok(1) far by (simp add: dmae_ok_def dev_cdev_def dev_hwfn_def CHIP_REV_IS_SLOW_def
        CHIP_REV_IS_EMUL_def CHIP_REV_IS_FPGA_def DMAE_COMPLETION_VAL_def pm_def dev_view_def dev_dmae_def)
  show "dmae_up dev_up" by (simp add: dmae_up_def dev_hwfn_def dev_cdev_def QED_RECOV_IN_PROG_def)
  show "dmae_env dev_bus dev_grc dev_view dev_dmae dev_up"
    using dev_windows dev_memory dev_engine by (simp add: dmae_env_def dev_hwfn_def)
qed

end
