(* ===== verification/Qed_Dmae_Limits.thy ===== *)
theory Qed_Dmae_Limits
  imports Qed_Dmae_Ops
begin

unbundle bit_operations_syntax

text \<open>
  The limits of a DMA request: which sizes it is good for, when its loop ends, and what becomes of a
  command that is refused before it is started.
\<close>

section \<open>Sizes\<close>

text \<open>The number of parts is truncated to 16 bits, so the size counts modulo \<open>2 ^ 29\<close> dwords.\<close>

lemma request_size_mod:
  "dmae_request src dst st dt pr n = dmae_request src dst st dt pr (n mod 0x20000000)"
proof -
  have "unat (n mod 0x20000000) div 0x2000 mod 0x10000 = unat n div 0x2000 mod 0x10000"
    unfolding unat_mod using mod_mult2_eq [of "unat n" "0x2000" "0x10000"] by simp
  then have "(ucast (n div 0x2000) :: u16) = ucast (n mod 0x20000000 div 0x2000)"
    by (simp add: word_unat_eq_iff unat_ucast_mod unat_div)
  moreover have "unat (n mod 0x20000000) mod 0x2000 = unat n mod 0x2000"
    unfolding unat_mod by (simp add: mod_mod_cancel)
  then have "n mod 0x20000000 mod 0x2000 = n mod 0x2000" by (simp add: word_unat_eq_iff unat_mod)
  ultimately show ?thesis by (simp add: dmae_request_def)
qed

lemma execute_command_loop:
  "\<exists>s1. qed_dmae_execute_command B N p src dst st dt n pr s =
     (if \<not> b_mem_ready (dmae_info s) then Some (RC_ERR ENOMEM, s)
      else if QED_RECOV_IN_PROG (cdev s) then Some (RC_OK, s)
      else if p_dmae_cmd (dmae_info s) = None then Some (RC_ERR EINVAL, s)
      else dmae_split_loop B N p (dmae_request src dst st dt pr n) 0 s1)"
  unfolding qed_dmae_execute_command_def dmae_request_def Let_def by (rule exI, rule refl)

lemma execute_size_mod:
  "qed_dmae_execute_command B N p src dst st dt n pr s =
   qed_dmae_execute_command B N p src dst st dt (n mod 0x20000000) pr s"
  using request_size_mod [of src dst st dt pr n]
  unfolding qed_dmae_execute_command_def dmae_request_def Let_def by simp

lemma host2grc_size_mod:
  "qed_dmae_host2grc B N i src a n pr s = qed_dmae_host2grc B N i src a (n mod 0x20000000) pr s"
  unfolding qed_dmae_host2grc_def Let_def by (subst execute_size_mod) (rule refl)

lemma size_mod:
  fixes n :: u32
  shows "unat (n mod 0x20000000) = unat n mod 2 ^ 29"
    "unat (n mod 0x20000000) div 0x2000 = unat n div 0x2000 mod 0x10000"
  using mod_mult2_eq [of "unat n" "0x2000" "0x10000"] by (simp_all add: unat_mod)

section \<open>Termination\<close>

lemma request_cnt_mod: "unat (rq_cnt_split (dmae_request src dst st dt pr n)) = unat n div 0x2000 mod 0x10000"
  by (simp add: dmae_request_def unat_ucast_mod unat_div)

text \<open>On any device, a request of any other size returns.\<close>

lemma execute_returns:
  assumes "unat n div 0x2000 mod 0x10000 \<noteq> 0xFFFF"
  shows "\<exists>res. qed_dmae_execute_command B N p src dst st dt n pr s = Some res"
proof -
  obtain s1 where s1: "qed_dmae_execute_command B N p src dst st dt n pr s =
     (if \<not> b_mem_ready (dmae_info s) then Some (RC_ERR ENOMEM, s)
      else if QED_RECOV_IN_PROG (cdev s) then Some (RC_OK, s)
      else if p_dmae_cmd (dmae_info s) = None then Some (RC_ERR EINVAL, s)
      else dmae_split_loop B N p (dmae_request src dst st dt pr n) 0 s1)"
    using execute_command_loop by blast
  have "unat n div 0x2000 mod 0x10000 < 0xFFFF" using assms by (simp add: less_le)
  then show ?thesis using split_loop_total [of "dmae_request src dst st dt pr n" B N p 0 s1] s1
    by (simp add: request_cnt_mod split: if_splits)
qed

text \<open>With this size no part fails on a device that behaves as documented, and the loop goes on.\<close>

lemma part_dst_nonzero: "(d :: u32) \<noteq> 0 \<Longrightarrow> ucast d + ucast (dmae_split_offset j) \<noteq> (0 :: u64)"
proof -
  assume "d \<noteq> 0"
  then have d: "unat d \<noteq> 0" by (simp add: word_unat_eq_iff)
  have "unat (ucast d + ucast (dmae_split_offset j) :: u64) = unat d + unat (dmae_split_offset j)"
    using unsigned_less [of d, where 'a = nat] unsigned_less [of "dmae_split_offset j", where 'a = nat]
    by (simp add: unat_add_mod unat_ucast_mod)
  then show ?thesis using d by (metis add_is_0 unsigned_0)
qed

lemma split_len_le: "unat (dmae_split_len (dmae_request src dst st dt pr n) j) \<le> 0x2000"
proof -
  have "unat (ucast (n mod 0x2000) :: u16) = unat n mod 0x2000" 
    by (simp add: unat_ucast_mod unat_mod)
  then show ?thesis by (simp add: dmae_split_len_def dmae_request_def less_imp_le)
qed

lemma host2grc_forever:
  assumes env: "dmae_env B G V W s" and ok: "dmae_ok V W s" and up: "dmae_up s" and i: "i < 12"
    and a: "a div 4 \<noteq> 0" and n: "unat n div 0x2000 mod 0x10000 = 0xFFFF"
  shows "qed_dmae_host2grc B N i src a n pr s = None"
proof -
  let ?r = "dmae_request src (ucast (a div 4)) QED_DMAE_ADDRESS_HOST_VIRT QED_DMAE_ADDRESS_GRC pr n"
  obtain s1 where s1: "qed_dmae_host2grc B N i src a n pr s = dmae_split_loop B N i ?r 0 s1"
    "dmae_done V W s False True s1"
    using execute_start [OF ok up, of B N i src "ucast (a div 4)" QED_DMAE_ADDRESS_HOST_VIRT QED_DMAE_ADDRESS_GRC n pr]
    by (auto simp: qed_dmae_host2grc_def Let_def)
  have "rq_cnt_split ?r = 0xFFFF" using n request_cnt_mod by (simp add: word_unat_eq_iff)
  then show ?thesis unfolding s1(1)
  proof (rule split_loop_forever [where R = "dmae_done V W s False True"])
    fix j t assume t: "dmae_done V W s False True t"
    note td = dmae_doneD [OF t]
    let ?len = "dmae_split_len ?r j"
    have env': "dmae_env B G V W t" using env dmae_env_frame [OF td(2)] by blast
    have nz: "dmae_split_dst ?r j \<noteq> 0" using part_dst_nonzero [OF a] by (simp add: dmae_split_dst_def)
    have len: "unat (ucast ?len :: u32) \<le> 0x2000" using split_len_le [of src "ucast (a div 4)" QED_DMAE_ADDRESS_HOST_VIRT QED_DMAE_ADDRESS_GRC pr n j]
      by (simp add: unat_ucast_mod)
    obtain s' where "qed_dmae_execute_sub_operation B i (dmae_split_src ?r j) (dmae_split_dst ?r j)
        QED_DMAE_ADDRESS_HOST_VIRT QED_DMAE_ADDRESS_GRC (ucast ?len) t = (RC_OK, s')" "dmae_done V W t False True s'"
      by (rule sub_op_host2grc [OF env' td(1) i td(3) len nz])
    moreover from this(2) have "dmae_done V W s False True s'"
      using dmae_frame_trans [OF td(2)] by (auto simp: dmae_done_def)
    ultimately show "\<exists>s'. dmae_split_one B N i ?r j t = (RC_OK, s') \<and> dmae_done V W s False True s'"
      using t by (auto simp: dmae_split_one_def)
  qed (rule s1(2))
qed

section \<open>A refused command\<close>

text \<open>
  While no command runs (\<open>idle\<close>) the device leaves host memory alone, and accesses of the
  processor to host memory start nothing.
\<close>

definition dma_idle :: "'d bus \<Rightarrow> ('d \<Rightarrow> bool) \<Rightarrow> bool" where
  "dma_idle B idle \<longleftrightarrow> (\<forall>d us a. idle d \<longrightarrow> idle (bus_delay B us d) \<and> dma_rd B a (bus_delay B us d) = dma_rd B a d)
     \<and> (\<forall>d a v. idle d \<longrightarrow> idle (dma_wr B a v d))"

lemma idle_delays:
  assumes "dma_idle B idle" "idle d"
  shows "idle ((bus_delay B us ^^ j) d) \<and> dma_rd B a ((bus_delay B us ^^ j) d) = dma_rd B a d"
  using assms by (induction j) (auto simp: dma_idle_def)

lemma idle_memcpy:
  assumes "dma_idle B idle"
  shows "idle (device s) \<Longrightarrow> idle (device (memcpy_to_dma B dst src k s))"
  using assms by (induction k arbitrary: dst src s) (auto simp: dma_idle_def dma_put_def)

text \<open>The wait does not find a completion; the code of the refusal is lost.\<close>

lemma wait_idle:
  assumes "dma_idle B idle" "idle (device s)" "completion_word B s \<noteq> DMAE_COMPLETION_VAL"
  shows "qed_dmae_operation_wait B s =
    (RC_ERR EBUSY, s\<lparr>device := (bus_delay B 2 ^^ Suc (wait_cnt_limit (cdev s))) (device s)\<rparr>)"
proof -
  have "dmae_wait_loop B (wait_cnt_limit (cdev s)) 0 s =
      (RC_ERR EBUSY, s\<lparr>device := (bus_delay B 2 ^^ Suc (wait_cnt_limit (cdev s))) (device s)\<rparr>)"
    using idle_delays [OF assms(1,2)] assms(3) by (intro wait_loop_timeout) (simp_all add: completion_word_def)
  then show ?thesis by (simp add: qed_dmae_operation_wait_def)
qed

text \<open>
  A request to the GRC address 0 is refused by \<open>qed_dmae_post_command\<close> with \<open>-EINVAL\<close>; the caller
  goes on to wait, reports a failure of the DMA engine and returns \<open>-EBUSY\<close>. The device has seen
  the data in the intermediate buffer and delays, and no command.
\<close>

lemma memcpy_put_cmd: "memcpy_to_dma B a b k (put_dmae_cmd c s) = put_dmae_cmd c (memcpy_to_dma B a b k s)"
proof (induction k arbitrary: a b s)
  case (Suc k)
  have "dma_put B x v (put_dmae_cmd c s) = put_dmae_cmd c (dma_put B x v s)" for x v
    by (simp add: dma_put_def put_dmae_cmd_def)
  moreover have "hmem (put_dmae_cmd c s) = hmem s" by (simp add: put_dmae_cmd_def)
  ultimately show ?case by (simp add: Suc)
qed simp

lemma memcpy_keeps:
  "cdev (memcpy_to_dma B a b k s) = cdev s" "hw_errors (memcpy_to_dma B a b k s) = hw_errors s"
  "dmae_info (memcpy_to_dma B a b k s) = dmae_info s" "rel_pf_id (memcpy_to_dma B a b k s) = rel_pf_id s"
  by (induction k arbitrary: a b s) (simp_all add: dma_put_def)

lemma sub_op_null:
  assumes idle: "dma_idle B idle" "idle (device s)" and M: "dma_memory B V W" and ok: "dmae_ok V W s"
    and len: "unat len \<le> 0x2000"
  shows "\<exists>t. qed_dmae_execute_sub_operation B i src 0 QED_DMAE_ADDRESS_HOST_VIRT QED_DMAE_ADDRESS_GRC len s =
      (RC_ERR EBUSY, t) \<and> cdev t = cdev s \<and> hw_errors t = hw_errors s \<and>
    device t = (bus_delay B 2 ^^ Suc (wait_cnt_limit (cdev s)))
      (device (memcpy_to_dma B (intermediate_buffer_phys_addr (dmae_info s)) src (unat len) s))"
proof -
  let ?phys = "intermediate_buffer_phys_addr (dmae_info s)" and ?ca = "completion_word_phys_addr (dmae_info s)"
  define c where "c = (dmae_cmd_of s)\<lparr>src_addr_hi := DMA_HI ?phys, src_addr_lo := DMA_LO ?phys,
    dst_addr_hi := 0, dst_addr_lo := 0, length_dw := ucast len\<rparr>"
  define m where "m = memcpy_to_dma B ?phys src (unat len) s"
  have keep: "cdev m = cdev s" "hw_errors m = hw_errors s" "dmae_info m = dmae_info s"
    unfolding m_def by (simp_all add: memcpy_keeps)
  have nb: "?ca \<notin> block 4 ?phys (unat len)"
    using ok block_mono [OF len, of 4 ?phys] by (auto simp: dmae_ok_def)
  have "pm V W m ?ca = pm V W s ?ca"
    using memcpy_to_dma [OF M, of s ?phys "unat len" src] nb ok unfolding m_def by (simp add: put_dwords_outside Let_def)
  then have "completion_word B m \<noteq> DMAE_COMPLETION_VAL"
    using ok by (simp add: completion_word_def keep dma_memoryD(6) [OF M] dmae_ok_def pm_def)
  moreover have "idle (device m)" unfolding m_def using idle_memcpy [OF idle(1)] idle(2) .
  ultimately have w: "qed_dmae_operation_wait B (put_dmae_cmd c m) =
    (RC_ERR EBUSY, (put_dmae_cmd c m)\<lparr>device := (bus_delay B 2 ^^ Suc (wait_cnt_limit (cdev m))) (device m)\<rparr>)"
    using wait_idle [OF idle(1), of "put_dmae_cmd c m"] by (simp add: completion_word_def put_dmae_cmd_def del: funpow.simps)
  have "qed_dmae_execute_sub_operation B i src 0 QED_DMAE_ADDRESS_HOST_VIRT QED_DMAE_ADDRESS_GRC len s =
    (let (_, s) = qed_dmae_post_command B i (put_dmae_cmd c m); (r, s) = qed_dmae_operation_wait B s
     in if r \<noteq> RC_OK then (r, s) else (RC_OK, s))"
    unfolding qed_dmae_execute_sub_operation_def Let_def memcpy_put_cmd m_def [symmetric]
    by (simp add: c_def put_dmae_cmd_def dmae_cmd_of_def keep DMA_LO_def DMA_HI_def split: prod.split)
  moreover have "qed_dmae_post_command B i (put_dmae_cmd c m) = (RC_ERR EINVAL, put_dmae_cmd c m)"
    by (simp add: qed_dmae_post_command_def Let_def c_def dmae_cmd_of_def put_dmae_cmd_def)
  ultimately show ?thesis using w keep by (simp add: m_def [symmetric] put_dmae_cmd_def del: funpow.simps)
qed

lemma execute_put:
  assumes "dmae_up s" "p_dmae_cmd (dmae_info s) \<noteq> None"
  shows "\<exists>c. qed_dmae_execute_command B N p src dst st dt n pr s =
    dmae_split_loop B N p (dmae_request src dst st dt pr n) 0 (put_dmae_cmd c s)"
proof -
  obtain c where "qed_dmae_opcode (st = QED_DMAE_ADDRESS_GRC) (dt = QED_DMAE_ADDRESS_GRC) pr s = put_dmae_cmd c s"
    using opcode_put by blast
  moreover have "put_dmae_cmd c2 (put_dmae_cmd c s) = put_dmae_cmd c2 s" for c2 by (simp add: put_dmae_cmd_def)
  ultimately show ?thesis using assms
    by (auto simp: qed_dmae_execute_command_def dmae_request_def Let_def dmae_up_def)
qed

lemma host2grc_null:
  assumes idle: "dma_idle B idle" "idle (device s)" and M: "dma_memory B V W" and ok: "dmae_ok V W s"
    and up: "dmae_up s" and a: "a div 4 = 0" and n: "0 < n" "n < 0x2000"
  shows "\<exists>t. qed_dmae_host2grc B N i src a n pr s = Some (RC_ERR EBUSY, N i t) \<and>
    hw_errors t = hw_errors s @ [QED_HW_ERR_DMAE_FAIL] \<and>
    device t = (bus_delay B 2 ^^ Suc (wait_cnt_limit (cdev s)))
      (device (memcpy_to_dma B (intermediate_buffer_phys_addr (dmae_info s)) src (unat n) s))"
proof -
  let ?r = "dmae_request src 0 QED_DMAE_ADDRESS_HOST_VIRT QED_DMAE_ADDRESS_GRC pr n"
  have cmd: "p_dmae_cmd (dmae_info s) \<noteq> None" using ok by (simp add: dmae_ok_def)
  obtain c where ex: "qed_dmae_host2grc B N i src a n pr s = dmae_split_loop B N i ?r 0 (put_dmae_cmd c s)"
    using execute_put [OF up cmd, of B N i src 0 QED_DMAE_ADDRESS_HOST_VIRT QED_DMAE_ADDRESS_GRC n pr]
    unfolding qed_dmae_host2grc_def Let_def a by auto
  let ?s = "put_dmae_cmd c s"
  have un: "unat n < 0x2000" using n(2) by (simp add: word_less_nat_alt)
  have "n div 0x2000 = 0" "n mod 0x2000 = n" using un by (simp_all add: word_unat_eq_iff unat_div unat_mod)
  then have len: "rq_cnt_split ?r = 0" "dmae_split_len ?r 0 = ucast n"
    by (simp_all add: dmae_request_def dmae_split_len_def)
  have "unat (ucast n :: u16) = unat n" using un by (simp add: unat_ucast_mod)
  then have nz: "(ucast n :: u16) \<noteq> 0" and bk: "(ucast (ucast n :: u16) :: u32) = n"
    using n(1) by (auto simp: word_unat_eq_iff word_less_nat_alt unat_ucast_mod)
  have sd: "dmae_split_src ?r 0 = src" "dmae_split_dst ?r 0 = 0"
    by (simp_all add: dmae_split_src_def dmae_split_dst_def dmae_split_offset_def)
  have ok': "dmae_ok V W ?s" and id': "idle (device ?s)"
    using ok idle(2) by (simp_all add: dmae_ok_def put_dmae_cmd_def ptt_ok_def pool_of_def ptt_at_def pm_def)
  obtain t where t: "qed_dmae_execute_sub_operation B i src 0 QED_DMAE_ADDRESS_HOST_VIRT QED_DMAE_ADDRESS_GRC n ?s =
      (RC_ERR EBUSY, t)" "cdev t = cdev s" "hw_errors t = hw_errors s"
    "device t = (bus_delay B 2 ^^ Suc (wait_cnt_limit (cdev s)))
      (device (memcpy_to_dma B (intermediate_buffer_phys_addr (dmae_info s)) src (unat n) s))"
    using sub_op_null [OF idle(1) id' M ok', of n i src] un unfolding memcpy_put_cmd
    by (auto simp: put_dmae_cmd_def simp del: funpow.simps)
  have "dmae_split_one B N i ?r 0 ?s = (RC_ERR EBUSY, N i (t\<lparr>hw_errors := hw_errors s @ [QED_HW_ERR_DMAE_FAIL]\<rparr>))"
    using up t by (simp add: dmae_split_one_def len nz sd bk qed_hw_err_notify_def dmae_up_def)
  then have "dmae_split_loop B N i ?r 0 ?s = Some (RC_ERR EBUSY, N i (t\<lparr>hw_errors := hw_errors s @ [QED_HW_ERR_DMAE_FAIL]\<rparr>))"
    by (subst dmae_split_loop.simps) simp
  then show ?thesis using ex t(4) by (auto simp del: funpow.simps)
qed

end
