(* ===== verification/Qed_Hw_Claims.thy ===== *)
theory Qed_Hw_Claims
  imports Qed_Hw_Device Qed_Dmae_Limits
begin

unbundle bit_operations_syntax

text \<open>
  The properties of register access and of the DMA engine, with concrete instances on the device of
  \<open>Qed_Hw_Device\<close>.
\<close>

section \<open>Windows\<close>

lemma dev_up_pf: "is_pf (cdev dev_up)" by (simp add: dev_cdev_def)

definition dev_accesses :: "access list" where
  "dev_accesses = [AWr 5 0x10000 7, ARd 6 0x10000, AFidPretend 5 3, AMemzero 5 0x11000 8, ARd 5 0x10000]"

text \<open>
  C21. Register access through the windows is transparent. Whatever sequence of reads, writes, block
  transfers, pretends and window changes the driver performs over its twelve entries, on registers that
  the windows reach, it reads the same values and leaves the same device, host memory, pretended
  functions and warnings as accesses to the GRC addresses that use no window at all; and the entries stay
  consistent with the windows of the device.
\<close>

theorem windows_transparent:
  assumes "pxp_windows B G V" "ptt_ok V s" "is_pf (cdev s)" "list_all access_ok ops"
  shows "\<exists>s'. run_accesses B ops s = (fst (run_direct G s ops (direct_of V s)), s') \<and>
    direct_of V s' = snd (run_direct G s ops (direct_of V s)) \<and> ptt_ok V s'"
proof -
  obtain rs s' D where "run_accesses B ops s = (rs, s')" "run_direct G s ops (direct_of V s) = (rs, D)" "sim V s s' D"
    using sim_run [OF assms] by blast
  then show ?thesis using simD(1,3) [of V s s' D] by auto
qed

theorem windows_transparent_witness:
  "\<exists>s'. run_accesses dev_bus dev_accesses dev_up =
     (fst (run_direct dev_grc dev_up dev_accesses (direct_of dev_view dev_up)), s') \<and>
   direct_of dev_view s' = snd (run_direct dev_grc dev_up dev_accesses (direct_of dev_view dev_up)) \<and>
   ptt_ok dev_view s'"
  by (rule windows_transparent [OF dev_windows dev_up_ok(1) dev_up_pf])
    (simp add: dev_accesses_def grc_addr_def grc_area_def)

text \<open>
  C25. The pool of windows never hands out an entry twice. From \<open>qed_ptt_pool_alloc\<close> on, for every
  sequence of attempts to acquire and of releases of entries that were handed out, the free list has no
  duplicates and none of the reserved entries 0 to 3, and the free entries together with those handed
  out and not released are exactly the eight entries of general use.
\<close>

theorem ptt_pool_exclusive:
  assumes "length (ptts pool) = 12" "qed_ptt_pool_alloc (Some pool) s0 = (rc, s)"
    and "run_ok pool_step pool_ok ops s"
  shows "\<exists>s'. run_opt pool_step ops s = Some s' \<and> distinct (ptt_free_list (pool_of s')) \<and>
    set (ptt_free_list (pool_of s')) \<subseteq> {4..<12} \<and>
    mset (ptt_free_list (pool_of s')) + run_sum pool_step pool_loss ops s =
      mset [4..<12] + run_sum pool_step pool_gain ops s"
  using pttp.run_conserves [OF pool_alloc_ok(2) [OF assms(1,2)] assms(3)] pool_alloc_ok(3) [OF assms(1,2)]
  by (auto simp: pool_owned_def pool_inv_def simp del: upt_rec_numeral)

theorem ptt_pool_exclusive_witness:
  "\<exists>s'. run_opt pool_step [PoolTry, PoolTry, PoolRelease 11] dev_up = Some s' \<and>
    distinct (ptt_free_list (pool_of s')) \<and> set (ptt_free_list (pool_of s')) \<subseteq> {4..<12} \<and>
    mset (ptt_free_list (pool_of s')) + run_sum pool_step pool_loss [PoolTry, PoolTry, PoolRelease 11] dev_up =
      mset [4..<12] + run_sum pool_step pool_gain [PoolTry, PoolTry, PoolRelease 11] dev_up"
  by (rule ptt_pool_exclusive [OF _ dev_alloc])
    (use dev_up_ok(3) in \<open>simp_all add: dev_pool_def ptt_try_def pool_of_def\<close>)

text \<open>
  C26. What \<open>qed_memcpy_to\<close> writes to memory behind the windows, \<open>qed_memcpy_from\<close> reads back:
  the destination in host memory then holds the dwords of the source. Both move \<open>n div 4\<close> dwords, a
  rest of up to three bytes is not moved.
\<close>

theorem memcpy_roundtrip:
  assumes L: "pxp_windows B G V" and ok: "ptt_ok V s" and pf: "is_pf (cdev s)" and i: "i < 12"
    and a: "grc_area a n" and ram: "grc_ram G (pret V (device s) i) ram a (n div 4)"
    and nz: "src \<noteq> 0" "dst \<noteq> 0"
  shows "get_dwords 4 dst (n div 4) (hmem (qed_memcpy_from B i dst a n (qed_memcpy_to B i a src n s))) =
    get_dwords 4 src (n div 4) (hmem s)"
proof -
  let ?D = "direct_of V s" and ?k = "n div 4" and ?s1 = "qed_memcpy_to B i a src n s"
  have k: "?k * 4 \<le> 2 ^ 32" using a by (auto simp: grc_area_def)
  have s1: "sim V s ?s1 (direct_copy G TO_DEVICE i ?k a src ?D)"
    using sim_memcpy [OF L ok i a pf, of src TO_DEVICE] nz by (simp add: qed_memcpy_to_def)
  note d1 = simD [OF s1]
  have s2: "sim V ?s1 (qed_memcpy_from B i dst a n ?s1) (direct_copy G FROM_DEVICE i ?k a dst (direct_of V ?s1))"
    using sim_memcpy [OF L d1(1) i a, of dst FROM_DEVICE] nz pf d1(4) by (simp add: qed_memcpy_from_def)
  have r0: "grc_ram G (d_pret ?D i) ram a ?k" using ram by (simp add: direct_of_def)
  then have r1: "grc_ram G (d_pret (direct_of V ?s1) i) ram a ?k" by (simp add: d1(3))
  have "hmem (qed_memcpy_from B i dst a n ?s1) =
      put_dwords 4 dst (get_dwords 4 a ?k (ram (d_chip (direct_of V ?s1)))) (d_hmem (direct_of V ?s1))"
    using direct_copy_from [OF r1 order_refl, of dst] arg_cong [OF simD(3) [OF s2], of d_hmem]
    by (simp add: direct_of_def)
  moreover have "get_dwords 4 a ?k (ram (d_chip (direct_of V ?s1))) = get_dwords 4 src ?k (hmem s)" unfolding d1(3)
    using direct_copy_to [OF r0 order_refl, of src] get_put_dwords [of a 4 "get_dwords 4 src ?k (hmem s)"]
      block_inj4 [of ?k a] k by simp
  ultimately show ?thesis
    using get_put_dwords [of dst 4 "get_dwords 4 src ?k (hmem s)"] block_inj4 [of ?k dst] k by simp
qed

theorem memcpy_roundtrip_witness:
  "get_dwords 4 0x9000 (11 div 4) (hmem (qed_memcpy_from dev_bus 5 0x9000 0x10000 11
     (qed_memcpy_to dev_bus 5 0x10000 0x8000 11 dev_up))) = get_dwords 4 0x8000 (11 div 4) (hmem dev_up)"
  by (rule memcpy_roundtrip [OF dev_windows dev_up_ok(1) dev_up_pf _ _ dev_ram]) (simp_all add: grc_area_def)

text \<open>
  C22. A DMA request from host memory to a GRC address other than 0, without the flag that repeats the
  source, succeeds for every size with which it returns (the number of full parts of \<open>0x2000\<close> dwords is
  not \<open>0xFFFF\<close> modulo \<open>2 ^ 16\<close>), however many commands it takes: it moves the first \<open>n mod 2 ^ 29\<close> dwords
  of the source to the destination, and everything else in the memory of the chip and all of host
  memory are as before. Below \<open>2 ^ 29\<close> dwords this is the whole block; beyond, the 16 bit count of parts
  drops the multiple of \<open>2 ^ 29\<close>, and the request still reports success.
\<close>

theorem dmae_host2grc_moves:
  assumes "dmae_env B G V W s" "dmae_ok V W s" "dmae_up s" "i < 12" "a div 4 \<noteq> 0"
    and "unat n div 0x2000 mod 0x10000 \<noteq> 0xFFFF"
    and "\<not> QED_DMAE_FLAGS_IS_SET pr DMAE_PARAMS_RW_REPL_SRC"
  shows "\<exists>s'. qed_dmae_host2grc B N i src a n pr s = Some (RC_OK, s') \<and> dmae_ok V W s' \<and> hmem s' = hmem s \<and>
    gm V W s' = put_dwords 1 (a div 4) (get_dwords 4 src (unat n mod 2 ^ 29) (hmem s)) (gm V W s)"
proof -
  note m = size_mod [of n]
  have "unat (n mod 0x20000000) div 0x2000 < 0xFFFF" using assms(6) unfolding m(2) by (simp add: less_le)
  from host2grc_ok [OF assms(1-4) this assms(5,7)] show ?thesis
    unfolding host2grc_size_mod [of B N i src a n] m(1) using dmae_doneD(1) by metis
qed

theorem dmae_host2grc_moves_witness:
  "(\<exists>s'. qed_dmae_host2grc dev_bus (\<lambda>_ s. s) 5 0x8000 0x10000 0x4001 None dev_up = Some (RC_OK, s') \<and>
    dmae_ok dev_view dev_dmae s' \<and> hmem s' = hmem dev_up \<and>
    gm dev_view dev_dmae s' = put_dwords 1 (0x10000 div 4) (get_dwords 4 0x8000 0x4001 (hmem dev_up))
      (gm dev_view dev_dmae dev_up)) \<and>
   (\<exists>s'. qed_dmae_host2grc dev_bus (\<lambda>_ s. s) 5 0x8000 0x10000 0x20000003 None dev_up = Some (RC_OK, s') \<and>
    gm dev_view dev_dmae s' = put_dwords 1 (0x10000 div 4) (get_dwords 4 0x8000 3 (hmem dev_up))
      (gm dev_view dev_dmae dev_up))"
proof -
  have "\<not> QED_DMAE_FLAGS_IS_SET None DMAE_PARAMS_RW_REPL_SRC" by (simp add: QED_DMAE_FLAGS_IS_SET_def)
  note m = dmae_host2grc_moves [OF dev_dmae_ok(3,1,2) _ _ _ this, where i = 5 and a = "0x10000" and src = "0x8000"
      and N = "\<lambda>_ s. s"]
  show ?thesis using m [of "0x4001"] m [of "0x20000003"] by auto
qed

text \<open>
  C23. A DMA write followed by a DMA read of the same block returns the data: host memory at the
  destination of the read holds the dwords of the source of the write.
\<close>

theorem dmae_roundtrip:
  assumes env: "dmae_env B G V W s" and ok: "dmae_ok V W s" and up: "dmae_up s" and i: "i < 12"
    and n: "unat n div 0x2000 < 0xFFFF" and a: "a div 4 \<noteq> 0"
    and pr: "\<not> QED_DMAE_FLAGS_IS_SET pr DMAE_PARAMS_RW_REPL_SRC"
  shows "\<exists>s1 s2. qed_dmae_host2grc B N i src a n pr s = Some (RC_OK, s1) \<and>
    qed_dmae_grc2host B N i a dst n pr s1 = Some (RC_OK, s2) \<and>
    get_dwords 4 dst (unat n) (hmem s2) = get_dwords 4 src (unat n) (hmem s)"
proof -
  let ?vs = "get_dwords 4 src (unat n) (hmem s)"
  have k: "unat n \<le> 2 ^ 32" "unat n * 4 \<le> 2 ^ 64" using unsigned_less [of n, where 'a = nat] by simp_all
  obtain s1 where s1: "qed_dmae_host2grc B N i src a n pr s = Some (RC_OK, s1)" "dmae_done V W s False True s1"
    "gm V W s1 = put_dwords 1 (a div 4) ?vs (gm V W s)" by (rule host2grc_ok [OF env ok up i n a pr])
  note d1 = dmae_doneD [OF s1(2)]
  have "dmae_env B G V W s1" "dmae_up s1"
    using env up dmae_env_frame [OF d1(2)] by (simp_all add: dmae_up_def dmae_frameD [OF d1(2)])
  then obtain s2 where s2: "qed_dmae_grc2host B N i a dst n pr s1 = Some (RC_OK, s2)"
    "hmem s2 = put_dwords 4 dst (get_dwords 1 (a div 4) (unat n) (gm V W s1)) (hmem s1)"
    by (rule grc2host_ok [OF _ d1(1) _ i n a pr])
  have "get_dwords 1 (a div 4) (unat n) (gm V W s1) = ?vs"
    using get_put_dwords [of "a div 4" 1 ?vs] block_inj1 [of "unat n" "a div 4"] k s1(3) by simp
  then have "get_dwords 4 dst (unat n) (hmem s2) = ?vs"
    using get_put_dwords [of dst 4 ?vs] block_inj4 [of "unat n" dst] k s2(2) by simp
  then show ?thesis using s1(1) s2(1) by blast
qed

theorem dmae_roundtrip_witness:
  "\<exists>s1 s2. qed_dmae_host2grc dev_bus (\<lambda>_ s. s) 5 0x8000 0x10000 0x4001 None dev_up = Some (RC_OK, s1) \<and>
    qed_dmae_grc2host dev_bus (\<lambda>_ s. s) 5 0x10000 0x90000 0x4001 None s1 = Some (RC_OK, s2) \<and>
    get_dwords 4 0x90000 (unat (0x4001 :: u32)) (hmem s2) = get_dwords 4 0x8000 (unat (0x4001 :: u32)) (hmem dev_up)"
  by (rule dmae_roundtrip [OF dev_dmae_ok(3,1,2)]) (simp_all add: QED_DMAE_FLAGS_IS_SET_def)

text \<open>
  C24. When a DMA request returns. On a device that behaves as documented a write to the chip returns
  exactly when its number of full parts of 8192 dwords is not 65535 modulo 65536: the counter of the parts
  has 16 bits and the bound is inclusive, so with 65535 it wraps and the request never ends.
\<close>

theorem dmae_returns_iff:
  assumes "dmae_env B G V W s" "dmae_ok V W s" "dmae_up s" "i < 12" "a div 4 \<noteq> 0"
  shows "(\<exists>res. qed_dmae_host2grc B N i src a n pr s = Some res) \<longleftrightarrow> unat n div 0x2000 mod 0x10000 \<noteq> 0xFFFF"
proof (cases "unat n div 0x2000 mod 0x10000 = 0xFFFF")
  case True
  then show ?thesis using host2grc_forever [OF assms True] by simp
next
  case False
  then show ?thesis using execute_returns unfolding qed_dmae_host2grc_def Let_def by blast
qed

theorem dmae_returns_iff_witness:
  "\<nexists>res. qed_dmae_host2grc dev_bus (\<lambda>_ s. s) 5 0x8000 0x10000 0x1FFFE000 None dev_up = Some res"
  using dmae_returns_iff [OF dev_dmae_ok(3,1,2), of 5 "0x10000" "\<lambda>_ s. s" "0x8000" "0x1FFFE000" None] by simp

text \<open>
  C27. A request the driver refuses to post is reported as a hardware failure. A write to GRC address 0
  is refused with \<open>-EINVAL\<close>, but the code is dropped: after the full wait for a completion that nobody
  will write, the request reports a failure of the DMA engine and returns \<open>-EBUSY\<close>. The device has
  seen the data in the intermediate buffer and the delays, and no command.
\<close>

theorem dmae_refused_is_busy:
  assumes "dma_idle B idle" "idle (device s)" "dma_memory B V W" "dmae_ok V W s"
    and "dmae_up s" "a div 4 = 0" "0 < n" "n < 0x2000"
  shows "\<exists>t. qed_dmae_host2grc B N i src a n pr s = Some (RC_ERR EBUSY, N i t) \<and>
    hw_errors t = hw_errors s @ [QED_HW_ERR_DMAE_FAIL] \<and>
    device t = (bus_delay B 2 ^^ Suc (wait_cnt_limit (cdev s)))
      (device (memcpy_to_dma B (intermediate_buffer_phys_addr (dmae_info s)) src (unat n) s))"
  using assms by (rule host2grc_null)

theorem dmae_refused_is_busy_witness:
  "\<exists>t. qed_dmae_host2grc dev_bus (\<lambda>_ s. s) 5 0x8000 0 4 None dev_up = Some (RC_ERR EBUSY, t) \<and>
    hw_errors t = [QED_HW_ERR_DMAE_FAIL]"
proof -
  have "dma_idle dev_bus (\<lambda>_. True)" by (simp add: dma_idle_def dev_bus_def)
  moreover have "hw_errors dev_up = []" by (simp add: dev_up_def qed_ptt_pool_alloc_def Let_def dev_hwfn_def)
  ultimately show ?thesis
    using dmae_refused_is_busy [of dev_bus "\<lambda>_. True" dev_up dev_view dev_dmae 0 4 "\<lambda>_ s. s" 5 "0x8000" None]
      dev_memory dev_dmae_ok(1,2) by auto
qed

text \<open>
  The self test of the DMA engine passes on a device that behaves as documented, for every page
  size up to one megabyte, and leaves the engine ready.
\<close>

theorem dmae_sanity_passes:
  assumes "dmae_env B G V W s" "dmae_ok V W s" "dmae_up s" "i < 12" "unat ps = 8 * k" "k \<le> 0x20000"
    and "0 \<notin> block 4 phys (2 * k)" "completion_word_phys_addr (dmae_info s) \<notin> block 4 phys (2 * k)"
  shows "\<exists>s'. qed_dmae_sanity B N ps (Some (virt, phys)) i s = Some (RC_OK, s') \<and> dmae_ok V W s'"
  using dmae_sanity_ok [OF assms] dmae_doneD(1) by metis

theorem dmae_sanity_passes_witness:
  "\<exists>s'. qed_dmae_sanity dev_bus (\<lambda>_ s. s) 0x1000 (Some (0x700000, 0x300000)) 5 dev_up = Some (RC_OK, s') \<and>
    dmae_ok dev_view dev_dmae s'"
proof (rule dmae_sanity_passes [OF dev_dmae_ok(3,1,2), where k = 512])
  show "0 \<notin> block 4 (0x300000 :: u64) (2 * 512)"
    "completion_word_phys_addr (dmae_info dev_up) \<notin> block 4 0x300000 (2 * 512)"
    using block4_range [of 0 "0x300000" "2 * 512"] block4_range [of "0x1000" "0x300000" "2 * 512"]
    by (auto simp: dev_hwfn_def)
qed simp_all

end
