(* ===== verification/Qed_Init.thy ===== *)
theory Qed_Init
  imports Qed_Dmae Qed_Blocks
begin

unbundle bit_operations_syntax

text \<open>
  The init tool: model of \<open>qed_init_ops.c\<close>. The firmware file brings a program of
  init commands (write, read and poll, skip unless a mode or phase matches, delay, callback) which
  \<open>qed_init_run\<close> interprets; values that are only known at run time are first collected in the RT array
  and written by a command of the program. The tables of the firmware lie in host memory.

  An operation yields \<open>None\<close> when it does not return: an access outside an array, or a DMA
  request that does not end.
\<close>

section \<open>Constants\<close>

definition QED_INIT_MAX_POLL_COUNT :: nat where "QED_INIT_MAX_POLL_COUNT = 100"
definition QED_INIT_POLL_PERIOD_US :: nat where "QED_INIT_POLL_PERIOD_US = 500"
definition RUNTIME_ARRAY_SIZE :: nat where "RUNTIME_ARRAY_SIZE = 34984"
definition ANY_PHASE_ID :: u32 where "ANY_PHASE_ID = 0xffff"
definition MAX_ZIPPED_SIZE :: nat where "MAX_ZIPPED_SIZE = 8192"
definition PHASE_ENGINE :: u32 where "PHASE_ENGINE = 0"
definition DMAE_READY_CB :: u16 where "DMAE_READY_CB = 0"

definition E4_IRO_ARR_OFFSET :: u64 where "E4_IRO_ARR_OFFSET = 0"

definition INIT_MODE_OP_NOT :: u8 where "INIT_MODE_OP_NOT = 0"
definition INIT_MODE_OP_OR :: u8 where "INIT_MODE_OP_OR = 1"
definition INIT_MODE_OP_AND :: u8 where "INIT_MODE_OP_AND = 2"
definition MAX_INIT_MODE_OPS :: u8 where "MAX_INIT_MODE_OPS = 3"

definition INIT_OP_READ :: u32 where "INIT_OP_READ = 0"
definition INIT_OP_WRITE :: u32 where "INIT_OP_WRITE = 1"
definition INIT_OP_IF_MODE :: u32 where "INIT_OP_IF_MODE = 2"
definition INIT_OP_IF_PHASE :: u32 where "INIT_OP_IF_PHASE = 3"
definition INIT_OP_DELAY :: u32 where "INIT_OP_DELAY = 4"
definition INIT_OP_CALLBACK :: u32 where "INIT_OP_CALLBACK = 5"

definition INIT_SRC_INLINE :: u32 where "INIT_SRC_INLINE = 0"
definition INIT_SRC_ZEROS :: u32 where "INIT_SRC_ZEROS = 1"
definition INIT_SRC_ARRAY :: u32 where "INIT_SRC_ARRAY = 2"
definition INIT_SRC_RUNTIME :: u32 where "INIT_SRC_RUNTIME = 3"

definition INIT_POLL_NONE :: u32 where "INIT_POLL_NONE = 0"
definition INIT_POLL_EQ :: u32 where "INIT_POLL_EQ = 1"
definition INIT_POLL_OR :: u32 where "INIT_POLL_OR = 2"
definition INIT_POLL_AND :: u32 where "INIT_POLL_AND = 3"

definition INIT_ARR_STANDARD :: u32 where "INIT_ARR_STANDARD = 0"
definition INIT_ARR_ZIPPED :: u32 where "INIT_ARR_ZIPPED = 1"
definition INIT_ARR_PATTERN :: u32 where "INIT_ARR_PATTERN = 2"

text \<open>Fields, as mask and shift.\<close>

definition INIT_CALLBACK_OP_OP :: "nat \<times> nat" where "INIT_CALLBACK_OP_OP = (0xF, 0)"
definition INIT_WRITE_OP_SOURCE :: "nat \<times> nat" where "INIT_WRITE_OP_SOURCE = (0x7, 4)"
definition INIT_WRITE_OP_WIDE_BUS :: "nat \<times> nat" where "INIT_WRITE_OP_WIDE_BUS = (1, 8)"
definition INIT_WRITE_OP_ADDRESS :: "nat \<times> nat" where "INIT_WRITE_OP_ADDRESS = (0x7FFFFF, 9)"
definition INIT_READ_OP_POLL_TYPE :: "nat \<times> nat" where "INIT_READ_OP_POLL_TYPE = (0xF, 4)"
definition INIT_READ_OP_ADDRESS :: "nat \<times> nat" where "INIT_READ_OP_ADDRESS = (0x7FFFFF, 9)"
definition INIT_IF_MODE_OP_CMD_OFFSET :: "nat \<times> nat" where "INIT_IF_MODE_OP_CMD_OFFSET = (0xFFFF, 16)"
definition INIT_IF_PHASE_OP_CMD_OFFSET :: "nat \<times> nat" where "INIT_IF_PHASE_OP_CMD_OFFSET = (0xFFFF, 16)"
definition INIT_IF_PHASE_OP_PHASE :: "nat \<times> nat" where "INIT_IF_PHASE_OP_PHASE = (0xFF, 0)"
definition INIT_IF_PHASE_OP_PHASE_ID :: "nat \<times> nat" where "INIT_IF_PHASE_OP_PHASE_ID = (0xFFFF, 16)"
definition INIT_ARRAY_RAW_HDR_TYPE :: "nat \<times> nat" where "INIT_ARRAY_RAW_HDR_TYPE = (0xF, 0)"
definition INIT_ARRAY_STANDARD_HDR_SIZE :: "nat \<times> nat" where "INIT_ARRAY_STANDARD_HDR_SIZE = (0xFFFFFFF, 4)"
definition INIT_ARRAY_ZIPPED_HDR_ZIPPED_SIZE :: "nat \<times> nat" where
  "INIT_ARRAY_ZIPPED_HDR_ZIPPED_SIZE = (0xFFFFFFF, 4)"
definition INIT_ARRAY_PATTERN_HDR_PATTERN_SIZE :: "nat \<times> nat" where
  "INIT_ARRAY_PATTERN_HDR_PATTERN_SIZE = (0xF, 4)"
definition INIT_ARRAY_PATTERN_HDR_REPETITIONS :: "nat \<times> nat" where
  "INIT_ARRAY_PATTERN_HDR_REPETITIONS = (0xFFFFFF, 8)"

section \<open>State\<close>

text \<open>
  An init command is two dwords (\<open>union init_op\<close>); the second is read as one dword or
  as two halves. \<open>qed_fw_data\<close> holds the addresses of the tables in host memory.
\<close>

record init_op =
  op_data :: u32
  param2 :: u32

definition op_lo :: "init_op \<Rightarrow> u16" where "op_lo c = ucast (param2 c)"
definition op_hi :: "init_op \<Rightarrow> u16" where "op_hi c = ucast (drop_bit 16 (param2 c))"

record qed_fw_data =
  fw_ver_info :: u64
  modes_tree_buf :: u64
  init_ops :: u64
  arr_data :: u64
  fw_overlays :: u64
  fw_overlays_len :: u32
  init_ops_size :: u32

text \<open>
  A hardware function with its RT array: the values are dwords of host memory from
  \<open>init_val\<close> on, the flags a list (empty when it is not allocated).
\<close>

record 'd init_fn =
  hw :: "'d qed_hwfn"
  fw_data :: qed_fw_data
  init_val :: u64
  b_valid :: "bool list"
  unzip_buf :: u64
  iro_arr :: u64

text \<open>
  What lies outside: the device, the report of hardware errors, \<open>zlib_inflate\<close> (whether it
  succeeds, and what it has written by then, from the input bytes and the room for the output), the page size and the buffer of
  the self test, and the address of the static buffer of zeros.
\<close>

record 'd init_env =
  ie_bus :: "'d bus"
  ie_notify :: "nat \<Rightarrow> 'd qed_hwfn \<Rightarrow> 'd qed_hwfn"
  ie_inflate :: "u8 list \<Rightarrow> nat \<Rightarrow> bool \<times> u8 list"
  ie_page_size :: u32
  ie_sanity_mem :: "(u64 \<times> u64) option"
  ie_zero_buffer :: u64

text \<open>Host memory, by bytes and by stretches of dwords.\<close>

definition rd_u8 :: "(u64 \<Rightarrow> u32) \<Rightarrow> u64 \<Rightarrow> u8" where
  "rd_u8 m a = ucast (drop_bit (8 * unat (a AND 3)) (m (a AND NOT 3)))"

definition rd_init_op :: "(u64 \<Rightarrow> u32) \<Rightarrow> u64 \<Rightarrow> init_op" where
  "rd_init_op m a = \<lparr>op_data = m a, param2 = m (a + 4)\<rparr>"

definition upd_hw :: "('d qed_hwfn \<Rightarrow> 'd qed_hwfn) \<Rightarrow> 'd init_fn \<Rightarrow> 'd init_fn" where
  "upd_hw f s = s\<lparr>hw := f (hw s)\<rparr>"

definition wr_host :: "u64 \<Rightarrow> u32 list \<Rightarrow> 'd init_fn \<Rightarrow> 'd init_fn" where
  "wr_host a vs s = s\<lparr>hw := (hw s)\<lparr>hmem := put_dwords 4 a vs (hmem (hw s))\<rparr>\<rparr>"

text \<open>The result of a DMA request, on the state of this component.\<close>

definition lift_hw :: "'d init_fn \<Rightarrow> (rc \<times> 'd qed_hwfn) option \<Rightarrow> (rc \<times> 'd init_fn) option" where
  "lift_hw s r = map_option (\<lambda>(rc, h). (rc, s\<lparr>hw := h\<rparr>)) r"

text \<open>The table of internal RAM offsets; \<open>arr\<close> is the address of the array the driver carries.\<close>

definition qed_init_iro_array :: "u64 \<Rightarrow> 'd init_fn \<Rightarrow> 'd init_fn" where
  "qed_init_iro_array arr s = s\<lparr>iro_arr := arr + E4_IRO_ARR_OFFSET * 4\<rparr>"

section \<open>The RT array\<close>

text \<open>\<open>kzalloc\<close> of the two arrays: \<open>okv\<close> whether the first succeeds, \<open>a\<close> the address of the second.\<close>

definition qed_init_alloc :: "bool \<Rightarrow> u64 option \<Rightarrow> 'd init_fn \<Rightarrow> rc \<times> 'd init_fn" where
  "qed_init_alloc okv a s =
     (if \<not> is_pf (cdev (hw s)) then (RC_OK, s)
      else if \<not> okv then (RC_ERR ENOMEM, s\<lparr>b_valid := []\<rparr>)
      else (let s = s\<lparr>b_valid := replicate RUNTIME_ARRAY_SIZE False\<rparr> in
        (case a of
           None \<Rightarrow> (RC_ERR ENOMEM, s\<lparr>init_val := 0, b_valid := []\<rparr>)
         | Some p \<Rightarrow> (RC_OK, wr_host p (replicate RUNTIME_ARRAY_SIZE 0) (s\<lparr>init_val := p\<rparr>)))))"

definition qed_init_free :: "'d init_fn \<Rightarrow> 'd init_fn" where
  "qed_init_free s = s\<lparr>init_val := 0, b_valid := []\<rparr>"

definition rt_addr :: "'d init_fn \<Rightarrow> nat \<Rightarrow> u64" where
  "rt_addr s k = init_val s + of_nat k * 4"

definition rt_put :: "nat \<Rightarrow> u32 \<Rightarrow> 'd init_fn \<Rightarrow> 'd init_fn option" where
  "rt_put k v s = (if k < length (b_valid s)
     then Some (wr_host (rt_addr s k) [v] (s\<lparr>b_valid := (b_valid s)[k := True]\<rparr>)) else None)"

definition qed_init_store_rt_reg :: "u32 \<Rightarrow> u32 \<Rightarrow> 'd init_fn \<Rightarrow> 'd init_fn option" where
  "qed_init_store_rt_reg rt_offset v s =
     (if RUNTIME_ARRAY_SIZE \<le> unat rt_offset then Some s else rt_put (unat rt_offset) v s)"

primrec store_agg_loop :: "u32 \<Rightarrow> u64 \<Rightarrow> nat \<Rightarrow> 'd init_fn \<Rightarrow> 'd init_fn option" where
  "store_agg_loop rt_offset p_val 0 s = Some s"
| "store_agg_loop rt_offset p_val (Suc i) s = (case store_agg_loop rt_offset p_val i s of
     None \<Rightarrow> None
   | Some s \<Rightarrow> rt_put (unat rt_offset + i) (hmem (hw s) (p_val + of_nat i * 4)) s)"

definition qed_init_store_rt_agg :: "u32 \<Rightarrow> u64 \<Rightarrow> u64 \<Rightarrow> 'd init_fn \<Rightarrow> 'd init_fn option" where
  "qed_init_store_rt_agg rt_offset p_val sz s =
     (if of_nat RUNTIME_ARRAY_SIZE \<le> ucast rt_offset + sz - 1 then Some s
      else store_agg_loop rt_offset p_val (unat (sz div 4)) s)"

text \<open>The length of a segment of valid entries, and its invalidation.\<close>

definition rt_valid :: "'d init_fn \<Rightarrow> nat \<Rightarrow> bool option" where
  "rt_valid s k = (if k < length (b_valid s) then Some (b_valid s ! k) else None)"

function rt_segment :: "'d init_fn \<Rightarrow> nat \<Rightarrow> nat \<Rightarrow> nat \<Rightarrow> nat \<Rightarrow> nat option" where
  "rt_segment s rt_offset sz i segment =
     (if i + segment < sz
      then (case rt_valid s (rt_offset + i + segment) of
              None \<Rightarrow> None
            | Some v \<Rightarrow> if \<not> v then Some segment else rt_segment s rt_offset sz i (Suc segment))
      else Some segment)"
  by pat_completeness auto
termination
  by (relation "measure (\<lambda>(s, rt_offset, sz, i, segment). sz - (i + segment))") auto

declare rt_segment.simps [simp del]

definition rt_invalidate :: "nat \<Rightarrow> nat \<Rightarrow> 'd init_fn \<Rightarrow> 'd init_fn" where
  "rt_invalidate k n s = s\<lparr>b_valid := take k (b_valid s) @ replicate n False @ drop (k + n) (b_valid s)\<rparr>"

partial_function (option) init_rt_loop ::
  "'d init_env \<Rightarrow> nat \<Rightarrow> u32 \<Rightarrow> u16 \<Rightarrow> u16 \<Rightarrow> bool \<Rightarrow> u16 \<Rightarrow> 'd init_fn \<Rightarrow> (rc \<times> 'd init_fn) option" where
  "init_rt_loop E p_ptt addr rt_offset sz b_must_dmae i s =
     (if \<not> i < sz then Some (RC_OK, s)
      else (case rt_valid s (unat rt_offset + unat i) of
        None \<Rightarrow> None
      | Some v \<Rightarrow>
          (if \<not> v then init_rt_loop E p_ptt addr rt_offset sz b_must_dmae (i + 1) s
           else if \<not> b_must_dmae
           then init_rt_loop E p_ptt addr rt_offset sz b_must_dmae (i + 1)
                  (rt_invalidate (unat rt_offset + unat i) 1
                    (upd_hw (qed_wr (ie_bus E) p_ptt (addr + push_bit 2 (ucast i))
                      (hmem (hw s) (rt_addr s (unat rt_offset + unat i)))) s))
           else (case rt_segment s (unat rt_offset) (unat sz) (unat i) 1 of
             None \<Rightarrow> None
           | Some segment \<Rightarrow>
               (case lift_hw s (qed_dmae_host2grc (ie_bus E) (ie_notify E) p_ptt
                       (rt_addr s (unat rt_offset + unat i)) (addr + push_bit 2 (ucast i))
                       (of_nat segment) None (hw s)) of
                  None \<Rightarrow> None
                | Some (rc, s) \<Rightarrow>
                    (if rc \<noteq> RC_OK then Some (rc, s)
                     else init_rt_loop E p_ptt addr rt_offset sz b_must_dmae (i + of_nat segment + 1)
                            (rt_invalidate (unat rt_offset + unat i) segment s)))))))"

definition qed_init_rt ::
  "'d init_env \<Rightarrow> nat \<Rightarrow> u32 \<Rightarrow> u16 \<Rightarrow> u16 \<Rightarrow> bool \<Rightarrow> 'd init_fn \<Rightarrow> (rc \<times> 'd init_fn) option" where
  "qed_init_rt E p_ptt addr rt_offset sz b_must_dmae s = init_rt_loop E p_ptt addr rt_offset sz b_must_dmae 0 s"

section \<open>Arrays and fills\<close>

primrec init_array_wr :: "'d init_env \<Rightarrow> nat \<Rightarrow> u32 \<Rightarrow> u64 \<Rightarrow> nat \<Rightarrow> 'd init_fn \<Rightarrow> 'd init_fn" where
  "init_array_wr E p_ptt addr p_data 0 s = s"
| "init_array_wr E p_ptt addr p_data (Suc i) s = (let s = init_array_wr E p_ptt addr p_data i s in
     upd_hw (qed_wr (ie_bus E) p_ptt (addr + push_bit 2 (of_nat i)) (hmem (hw s) (p_data + of_nat i * 4))) s)"

definition qed_init_array_dmae ::
  "'d init_env \<Rightarrow> nat \<Rightarrow> u32 \<Rightarrow> u32 \<Rightarrow> u32 \<Rightarrow> u64 \<Rightarrow> bool \<Rightarrow> bool \<Rightarrow> 'd init_fn \<Rightarrow> (rc \<times> 'd init_fn) option" where
  "qed_init_array_dmae E p_ptt addr dmae_data_offset sz p_buf b_must_dmae b_can_dmae s = (let
     p_data = p_buf + ucast dmae_data_offset * 4
     in if (CHIP_REV_IS_SLOW (chip_rev (cdev (hw s))) \<and> sz < 16) \<or> \<not> b_can_dmae \<or> (\<not> b_must_dmae \<and> sz < 16)
        then Some (RC_OK, init_array_wr E p_ptt addr p_data (unat sz) s)
        else lift_hw s (qed_dmae_host2grc (ie_bus E) (ie_notify E) p_ptt p_data addr sz None (hw s)))"

definition qed_init_fill_dmae ::
  "'d init_env \<Rightarrow> nat \<Rightarrow> u32 \<Rightarrow> u32 \<Rightarrow> 'd init_fn \<Rightarrow> (rc \<times> 'd init_fn) option" where
  "qed_init_fill_dmae E p_ptt addr fill_count s = (let
     s = wr_host (ie_zero_buffer E) (replicate (unat DMAE_MAX_RW_SIZE) 0) s;
     params = \<lparr>dp_flags = SET_FIELD 0 DMAE_PARAMS_RW_REPL_SRC 1, dp_src_vf_id = 0, dp_dst_vf_id = 0, dp_port_id = 0,
               dp_src_pf_id = 0, dp_dst_pf_id = 0\<rparr>
     in lift_hw s (qed_dmae_host2grc (ie_bus E) (ie_notify E) p_ptt (ie_zero_buffer E) addr fill_count
          (Some params) (hw s)))"

primrec qed_init_fill :: "'d init_env \<Rightarrow> nat \<Rightarrow> u32 \<Rightarrow> u32 \<Rightarrow> nat \<Rightarrow> 'd init_fn \<Rightarrow> 'd init_fn" where
  "qed_init_fill E p_ptt addr fill 0 s = s"
| "qed_init_fill E p_ptt addr fill (Suc n) s =
     qed_init_fill E p_ptt (addr + 4) fill n (upd_hw (qed_wr (ie_bus E) p_ptt addr fill) s)"

text \<open>
  \<open>qed_unzip_data\<close>: the input as bytes, the output packed into dwords of the buffer, which was
  cleared before; the result is the number of whole dwords, 0 on failure, when part of the output may be in the buffer.
\<close>

fun pack_dwords :: "u8 list \<Rightarrow> u32 list" where
  "pack_dwords [] = []"
| "pack_dwords [a] = [ucast a]"
| "pack_dwords [a, b] = [ucast a OR push_bit 8 (ucast b)]"
| "pack_dwords [a, b, c] = [ucast a OR push_bit 8 (ucast b) OR push_bit 16 (ucast c)]"
| "pack_dwords (a # b # c # d # bs) =
     (ucast a OR push_bit 8 (ucast b) OR push_bit 16 (ucast c) OR push_bit 24 (ucast d)) # pack_dwords bs"

definition qed_unzip_data :: "'d init_env \<Rightarrow> u32 \<Rightarrow> u64 \<Rightarrow> nat \<Rightarrow> 'd init_fn \<Rightarrow> u32 \<times> 'd init_fn" where
  "qed_unzip_data E input_len input_buf max_size s =
     (let (ok, bs) = ie_inflate E (map (\<lambda>k. rd_u8 (hmem (hw s)) (input_buf + of_nat k)) [0..<unat input_len]) max_size;
        s = wr_host (unzip_buf s) (pack_dwords bs) s
      in (if ok then of_nat (length bs div 4) else 0, s))"

text \<open>The repetitions of a pattern.\<close>

primrec init_pattern_loop ::
  "'d init_env \<Rightarrow> nat \<Rightarrow> u32 \<Rightarrow> u32 \<Rightarrow> u64 \<Rightarrow> bool \<Rightarrow> bool \<Rightarrow> nat \<Rightarrow> u32 \<Rightarrow> 'd init_fn \<Rightarrow> (rc \<times> 'd init_fn) option" where
  "init_pattern_loop E p_ptt data_offset sz array_data b_must_dmae b_can_dmae 0 addr s = Some (RC_OK, s)"
| "init_pattern_loop E p_ptt data_offset sz array_data b_must_dmae b_can_dmae (Suc n) addr s =
     (case qed_init_array_dmae E p_ptt addr data_offset sz array_data b_must_dmae b_can_dmae s of
        None \<Rightarrow> None
      | Some (rc, s) \<Rightarrow> (if rc \<noteq> RC_OK then Some (rc, s)
          else init_pattern_loop E p_ptt data_offset sz array_data b_must_dmae b_can_dmae n
                 (addr + push_bit 2 sz) s))"

definition qed_init_cmd_array ::
  "'d init_env \<Rightarrow> nat \<Rightarrow> init_op \<Rightarrow> bool \<Rightarrow> bool \<Rightarrow> 'd init_fn \<Rightarrow> (rc \<times> 'd init_fn) option" where
  "qed_init_cmd_array E p_ptt cmd b_must_dmae b_can_dmae s = (let
     dmae_array_offset = param2 cmd;
     addr = push_bit 2 (GET_FIELD (op_data cmd) INIT_WRITE_OP_ADDRESS);
     array_data = arr_data (fw_data s);
     data = hmem (hw s) (array_data + ucast dmae_array_offset * 4);
     ty = GET_FIELD data INIT_ARRAY_RAW_HDR_TYPE
     in if ty = INIT_ARR_ZIPPED then (let
          input_len = GET_FIELD data INIT_ARRAY_ZIPPED_HDR_ZIPPED_SIZE;
          max_size = MAX_ZIPPED_SIZE * 4;
          s = wr_host (unzip_buf s) (replicate MAX_ZIPPED_SIZE 0) s;
          (output_len, s) = qed_unzip_data E input_len (array_data + ucast (dmae_array_offset + 1) * 4) max_size s
          in if output_len \<noteq> 0
             then qed_init_array_dmae E p_ptt addr 0 output_len (unzip_buf s) b_must_dmae b_can_dmae s
             else Some (RC_ERR EINVAL, s))
        else if ty = INIT_ARR_PATTERN then (let
          repeats = GET_FIELD data INIT_ARRAY_PATTERN_HDR_REPETITIONS;
          sz = GET_FIELD data INIT_ARRAY_PATTERN_HDR_PATTERN_SIZE
          in init_pattern_loop E p_ptt (dmae_array_offset + 1) sz array_data b_must_dmae b_can_dmae
               (unat repeats) addr s)
        else if ty = INIT_ARR_STANDARD
        then qed_init_array_dmae E p_ptt addr (dmae_array_offset + 1)
               (GET_FIELD data INIT_ARRAY_STANDARD_HDR_SIZE) array_data b_must_dmae b_can_dmae s
        else Some (RC_OK, s))"

section \<open>Commands\<close>

definition qed_init_cmd_wr ::
  "'d init_env \<Rightarrow> nat \<Rightarrow> init_op \<Rightarrow> bool \<Rightarrow> 'd init_fn \<Rightarrow> (rc \<times> 'd init_fn) option" where
  "qed_init_cmd_wr E p_ptt p_cmd b_can_dmae s = (let
     data = op_data p_cmd;
     b_must_dmae = GET_FIELD data INIT_WRITE_OP_WIDE_BUS \<noteq> 0;
     addr = push_bit 2 (GET_FIELD data INIT_WRITE_OP_ADDRESS);
     src = GET_FIELD data INIT_WRITE_OP_SOURCE
     in if b_must_dmae \<and> \<not> b_can_dmae then Some (RC_ERR EINVAL, s)
        else if src = INIT_SRC_INLINE then Some (RC_OK, upd_hw (qed_wr (ie_bus E) p_ptt addr (param2 p_cmd)) s)
        else if src = INIT_SRC_ZEROS then
          (if b_must_dmae \<or> (b_can_dmae \<and> 64 \<le> param2 p_cmd)
           then qed_init_fill_dmae E p_ptt addr (param2 p_cmd) s
           else Some (RC_OK, qed_init_fill E p_ptt addr 0 (unat (param2 p_cmd)) s))
        else if src = INIT_SRC_ARRAY then qed_init_cmd_array E p_ptt p_cmd b_must_dmae b_can_dmae s
        else if src = INIT_SRC_RUNTIME then qed_init_rt E p_ptt addr (op_hi p_cmd) (op_lo p_cmd) b_must_dmae s
        else Some (RC_OK, s))"

definition comp_eq :: "u32 \<Rightarrow> u32 \<Rightarrow> bool" where "comp_eq v expected_val \<longleftrightarrow> v = expected_val"
definition comp_and :: "u32 \<Rightarrow> u32 \<Rightarrow> bool" where "comp_and v expected_val \<longleftrightarrow> v AND expected_val = expected_val"
definition comp_or :: "u32 \<Rightarrow> u32 \<Rightarrow> bool" where "comp_or v expected_val \<longleftrightarrow> 0 < v OR expected_val"

primrec init_poll_loop ::
  "'d bus \<Rightarrow> nat \<Rightarrow> u32 \<Rightarrow> nat \<Rightarrow> (u32 \<Rightarrow> bool) \<Rightarrow> nat \<Rightarrow> u32 \<Rightarrow> 'd qed_hwfn \<Rightarrow> bool \<times> 'd qed_hwfn" where
  "init_poll_loop B p_ptt addr dl check 0 v h = (False, h)"
| "init_poll_loop B p_ptt addr dl check (Suc n) v h =
     (if check v then (True, h)
      else (let (v, h) = qed_rd B p_ptt addr (udelay B dl h) in init_poll_loop B p_ptt addr dl check n v h))"

text \<open>The flag of the result says that the poll timed out, which the code only logs.\<close>

definition qed_init_cmd_rd :: "'d init_env \<Rightarrow> nat \<Rightarrow> init_op \<Rightarrow> 'd init_fn \<Rightarrow> bool \<times> 'd init_fn" where
  "qed_init_cmd_rd E p_ptt cmd s = (let
     B = ie_bus E;
     addr = push_bit 2 (GET_FIELD (op_data cmd) INIT_READ_OP_ADDRESS);
     poll = GET_FIELD (op_data cmd) INIT_READ_OP_POLL_TYPE;
     dl = (if CHIP_REV_IS_EMUL (chip_rev (cdev (hw s))) then QED_INIT_POLL_PERIOD_US * 100
           else QED_INIT_POLL_PERIOD_US);
     (v, h) = qed_rd B p_ptt addr (hw s);
     run = (\<lambda>check. let (ok, h) = init_poll_loop B p_ptt addr dl (\<lambda>v. check v (param2 cmd)) QED_INIT_MAX_POLL_COUNT v h
            in (\<not> ok, s\<lparr>hw := h\<rparr>))
     in if poll = INIT_POLL_EQ then run comp_eq
        else if poll = INIT_POLL_OR then run comp_or
        else if poll = INIT_POLL_AND then run comp_and
        else (False, s\<lparr>hw := h\<rparr>))"

definition qed_init_cmd_cb :: "'d init_env \<Rightarrow> nat \<Rightarrow> init_op \<Rightarrow> 'd init_fn \<Rightarrow> (rc \<times> 'd init_fn) option" where
  "qed_init_cmd_cb E p_ptt p_cmd s =
     (if op_lo p_cmd = DMAE_READY_CB
      then lift_hw s (qed_dmae_sanity (ie_bus E) (ie_notify E) (ie_page_size E) (ie_sanity_mem E) p_ptt (hw s))
      else Some (RC_ERR EINVAL, s))"

text \<open>
  The expression over the modes, in prefix form: the value and the offset behind it. A mode is a bit
  of \<open>modes\<close>, a signed integer that is extended to the width of \<open>BIT\<close>; a bit number from 64 on has
  no defined value.
\<close>

partial_function (option) qed_init_cmd_mode_match ::
  "(u64 \<Rightarrow> u32) \<Rightarrow> u64 \<Rightarrow> u32 \<Rightarrow> u16 \<Rightarrow> (u8 \<times> u16) option" where
  "qed_init_cmd_mode_match m tree modes p_offset = (let
     tree_val = rd_u8 m (tree + ucast p_offset);
     p_offset = p_offset + 1
     in if tree_val = INIT_MODE_OP_NOT
        then Option.bind (qed_init_cmd_mode_match m tree modes p_offset) (\<lambda>(v, off). Some (v XOR 1, off))
        else if tree_val = INIT_MODE_OP_OR
        then Option.bind (qed_init_cmd_mode_match m tree modes p_offset) (\<lambda>(arg1, off).
               Option.bind (qed_init_cmd_mode_match m tree modes off) (\<lambda>(arg2, off). Some (arg1 OR arg2, off)))
        else if tree_val = INIT_MODE_OP_AND
        then Option.bind (qed_init_cmd_mode_match m tree modes p_offset) (\<lambda>(arg1, off).
               Option.bind (qed_init_cmd_mode_match m tree modes off) (\<lambda>(arg2, off). Some (arg1 AND arg2, off)))
        else (let k = unat (tree_val - MAX_INIT_MODE_OPS) in
          if k < 64 then Some (if bit (scast modes :: u64) k then 1 else 0, p_offset) else None))"

definition qed_init_cmd_mode :: "init_op \<Rightarrow> u32 \<Rightarrow> 'd init_fn \<Rightarrow> u32 option" where
  "qed_init_cmd_mode p_cmd modes s =
     (case qed_init_cmd_mode_match (hmem (hw s)) (modes_tree_buf (fw_data s)) modes (op_hi p_cmd) of
        None \<Rightarrow> None
      | Some (v, _) \<Rightarrow> Some (if v \<noteq> 0 then 0 else GET_FIELD (op_data p_cmd) INIT_IF_MODE_OP_CMD_OFFSET))"

definition qed_init_cmd_phase :: "init_op \<Rightarrow> u32 \<Rightarrow> u32 \<Rightarrow> u32" where
  "qed_init_cmd_phase p_cmd phase phase_id = (let data = param2 p_cmd in
     if \<not> (GET_FIELD data INIT_IF_PHASE_OP_PHASE = phase \<and>
           (GET_FIELD data INIT_IF_PHASE_OP_PHASE_ID = ANY_PHASE_ID \<or>
            GET_FIELD data INIT_IF_PHASE_OP_PHASE_ID = phase_id))
     then GET_FIELD (op_data p_cmd) INIT_IF_PHASE_OP_CMD_OFFSET else 0)"

section \<open>The program\<close>

text \<open>
  One command: return code, how many commands to skip, whether DMA is allowed from now on, and the state.
\<close>

definition init_one ::
  "'d init_env \<Rightarrow> nat \<Rightarrow> u32 \<Rightarrow> u32 \<Rightarrow> u32 \<Rightarrow> init_op \<Rightarrow> bool \<Rightarrow> 'd init_fn \<Rightarrow> (rc \<times> u32 \<times> bool \<times> 'd init_fn) option" where
  "init_one E p_ptt phase phase_id modes cmd b_dmae s = (let ty = GET_FIELD (op_data cmd) INIT_CALLBACK_OP_OP in
     if ty = INIT_OP_WRITE
     then map_option (\<lambda>(rc, s). (rc, 0, b_dmae, s)) (qed_init_cmd_wr E p_ptt cmd b_dmae s)
     else if ty = INIT_OP_READ then Some (RC_OK, 0, b_dmae, snd (qed_init_cmd_rd E p_ptt cmd s))
     else if ty = INIT_OP_IF_MODE
     then map_option (\<lambda>skip. (RC_OK, skip, b_dmae, s)) (qed_init_cmd_mode cmd modes s)
     else if ty = INIT_OP_IF_PHASE then Some (RC_OK, qed_init_cmd_phase cmd phase phase_id, b_dmae, s)
     else if ty = INIT_OP_DELAY then Some (RC_OK, 0, b_dmae, upd_hw (udelay (ie_bus E) (unat (param2 cmd))) s)
     else if ty = INIT_OP_CALLBACK
     then map_option (\<lambda>(rc, s). (rc, 0, b_dmae \<or> phase = PHASE_ENGINE \<and> op_lo cmd = DMAE_READY_CB, s))
            (qed_init_cmd_cb E p_ptt cmd s)
     else Some (RC_OK, 0, b_dmae, s))"

partial_function (option) init_run_loop ::
  "'d init_env \<Rightarrow> nat \<Rightarrow> u32 \<Rightarrow> u32 \<Rightarrow> u32 \<Rightarrow> u32 \<Rightarrow> bool \<Rightarrow> 'd init_fn \<Rightarrow> (rc \<times> 'd init_fn) option" where
  "init_run_loop E p_ptt phase phase_id modes cmd_num b_dmae s =
     (if \<not> cmd_num < init_ops_size (fw_data s) then Some (RC_OK, s)
      else (let cmd = rd_init_op (hmem (hw s)) (init_ops (fw_data s) + ucast cmd_num * 8) in
        Option.bind (init_one E p_ptt phase phase_id modes cmd b_dmae s) (\<lambda>(rc, skip, b_dmae, s).
          if rc \<noteq> RC_OK then Some (rc, s)
          else init_run_loop E p_ptt phase phase_id modes (cmd_num + skip + 1) b_dmae s)))"

text \<open>The argument \<open>buf\<close> is the buffer \<open>kzalloc\<close> returns for unzipped arrays.\<close>

definition qed_init_run ::
  "'d init_env \<Rightarrow> u64 option \<Rightarrow> nat \<Rightarrow> u32 \<Rightarrow> u32 \<Rightarrow> u32 \<Rightarrow> 'd init_fn \<Rightarrow> (rc \<times> 'd init_fn) option" where
  "qed_init_run E buf p_ptt phase phase_id modes s = (case buf of
     None \<Rightarrow> Some (RC_ERR ENOMEM, s\<lparr>unzip_buf := 0\<rparr>)
   | Some p \<Rightarrow> (let
       s = wr_host p (replicate MAX_ZIPPED_SIZE 0) (s\<lparr>unzip_buf := p\<rparr>)
       in map_option (\<lambda>(rc, s). (rc, s\<lparr>unzip_buf := 0\<rparr>))
            (init_run_loop E p_ptt phase phase_id modes 0 (phase \<noteq> PHASE_ENGINE) s)))"

text \<open>The tables of a firmware file at the address \<open>p_fw\<close> (\<open>None\<close>: no file).\<close>

definition bin_offset :: "(u64 \<Rightarrow> u32) \<Rightarrow> u64 \<Rightarrow> nat \<Rightarrow> u64" where
  "bin_offset m p_fw ty = p_fw + ucast (m (p_fw + of_nat ty * 8))"

definition bin_length :: "(u64 \<Rightarrow> u32) \<Rightarrow> u64 \<Rightarrow> nat \<Rightarrow> u32" where
  "bin_length m p_fw ty = m (p_fw + of_nat ty * 8 + 4)"

definition qed_init_fw_data :: "u64 option \<Rightarrow> 'd init_fn \<Rightarrow> rc \<times> 'd init_fn" where
  "qed_init_fw_data p s = (case p of
     None \<Rightarrow> (RC_ERR EINVAL, s)
   | Some p_fw \<Rightarrow> (let m = hmem (hw s) in
       (RC_OK, s\<lparr>fw_data := \<lparr>fw_ver_info = bin_offset m p_fw 0, modes_tree_buf = bin_offset m p_fw 3,
          init_ops = bin_offset m p_fw 1, arr_data = bin_offset m p_fw 2, fw_overlays = bin_offset m p_fw 5,
          fw_overlays_len = bin_length m p_fw 5, init_ops_size = bin_length m p_fw 1 div 8\<rparr>\<rparr>)))"

end
