(* ===== verification/Qed_Hw_Mem.thy ===== *)
theory Qed_Hw_Mem
  imports Qed_Dmae
begin

text \<open>
  What register accesses and DMA requests towards the chip do to host memory, on any device: nothing.
\<close>

lemma hmem_set_ptt [simp]: "hmem (snd (qed_set_ptt B i a h)) = hmem h"
  by (simp add: qed_set_ptt_def qed_ptt_set_win_def ptt_put_def REG_WR_def Let_def)

lemma hmem_primitives [simp]:
  "hmem (REG_WR B off v h) = hmem h" "hmem (snd (REG_RD B off h)) = hmem h" "hmem (udelay B us h) = hmem h"
  "hmem (slow_delay B h) = hmem h" "hmem (WARN c w h) = hmem h" "hmem (dma_put B a v h) = hmem h"
  "hmem (put_dmae_cmd cmd h) = hmem h"
  by (simp_all add: REG_WR_def REG_RD_def udelay_def slow_delay_def WARN_def dma_put_def put_dmae_cmd_def split_beta)

lemma hmem_fifo [simp]:
  "hmem (snd (qed_is_reg_fifo_empty B i h)) = hmem h" "hmem (reg_fifo_warn B i e a h) = hmem h"
  by (simp_all add: qed_is_reg_fifo_empty_def reg_fifo_warn_def split_beta Let_def)

lemma hmem_wr [simp]: "hmem (qed_wr B i a v h) = hmem h"
  by (simp add: qed_wr_def split_beta Let_def)

lemma hmem_rd [simp]: "hmem (snd (qed_rd B i a h)) = hmem h"
  by (simp add: qed_rd_def split_beta Let_def)

lemma hmem_post [simp]: "hmem (snd (qed_dmae_post_command B i h)) = hmem h"
proof -
  have "hmem (dmae_fill_cmd_mem B i c cmd n h) = hmem h" for c cmd n
    by (induction n) (simp_all add: Let_def)
  then show ?thesis by (simp add: qed_dmae_post_command_def Let_def)
qed

lemma hmem_wait [simp]: "hmem (snd (qed_dmae_operation_wait B h)) = hmem h"
proof -
  have "hmem (snd (dmae_wait_loop B limit cnt h)) = hmem h" for limit cnt h
  proof (induction B limit cnt h rule: dmae_wait_loop.induct)
    case (1 B limit cnt h)
    then show ?case by (subst dmae_wait_loop.simps) (simp add: Let_def)
  qed
  then show ?thesis by (simp add: qed_dmae_operation_wait_def split_beta)
qed

lemma hmem_to_dma [simp]: "hmem (memcpy_to_dma B dst src n h) = hmem h"
  by (induction n arbitrary: dst src h) simp_all

lemma hmem_sub_op:
  "dst_type \<noteq> QED_DMAE_ADDRESS_HOST_VIRT \<Longrightarrow>
     hmem (snd (qed_dmae_execute_sub_operation B i src dst src_type dst_type len h)) = hmem h"
  by (simp add: qed_dmae_execute_sub_operation_def split_beta Let_def split: qed_dmae_address_type.split)

lemma hmem_opcode [simp]: "hmem (qed_dmae_opcode sg dg pr h) = hmem h"
  unfolding qed_dmae_opcode_def Let_def split_beta by (rule hmem_primitives(7))

text \<open>A successful request; a failed one also runs the report of the error.\<close>

lemma hmem_split_loop:
  assumes "dmae_split_loop B N p r i h = Some (RC_OK, h')" "rq_dst_type r \<noteq> QED_DMAE_ADDRESS_HOST_VIRT"
  shows "hmem h' = hmem h"
proof -
  have "rq_dst_type r \<noteq> QED_DMAE_ADDRESS_HOST_VIRT \<longrightarrow> fst res = RC_OK \<longrightarrow> hmem (snd res) = hmem h"
    if "dmae_split_loop B N p r i h = Some res" for res
  proof (rule dmae_split_loop.raw_induct
      [where P = "\<lambda>B N p r i h y. rq_dst_type r \<noteq> QED_DMAE_ADDRESS_HOST_VIRT \<longrightarrow> fst y = RC_OK \<longrightarrow> hmem (snd y) = hmem h",
        OF _ that], intro impI)
    fix loop B N p r i h y
    assume IH: "\<And>B N p r i h y. loop B N p r i h = Some y \<Longrightarrow>
        rq_dst_type r \<noteq> QED_DMAE_ADDRESS_HOST_VIRT \<longrightarrow> fst y = RC_OK \<longrightarrow> hmem (snd y) = hmem h"
      and body: "(if i \<le> rq_cnt_split r
        then case dmae_split_one B N p r i h of
             (RC_OK, s') \<Rightarrow> loop B N p r (i + 1) s'
             | (RC_ERR errno, s') \<Rightarrow> Some (RC_ERR errno, s')
        else Some (RC_OK, h)) = Some y"
      and ty: "rq_dst_type r \<noteq> QED_DMAE_ADDRESS_HOST_VIRT" and ok: "fst y = RC_OK"
    have one: "hmem s' = hmem h" if "dmae_split_one B N p r i h = (RC_OK, s')" for s'
      using that hmem_sub_op [OF ty, of B p "dmae_split_src r i" "dmae_split_dst r i" "rq_src_type r" "ucast (dmae_split_len r i)" h]
      by (auto simp: dmae_split_one_def split_beta Let_def split: if_splits)
    show "hmem (snd y) = hmem h"
    proof (cases "i \<le> rq_cnt_split r")
      case True
      obtain c s' where s': "dmae_split_one B N p r i h = (c, s')" by fastforce
      show ?thesis
      proof (cases c)
        case RC_OK
        then have "loop B N p r (i + 1) s' = Some y" using body True s' by simp
        then show ?thesis using IH ty ok one s' RC_OK by metis
      qed (use body True s' ok in auto)
    qed (use body in auto)
  qed
  then show ?thesis using assms by force
qed

lemma hmem_execute:
  assumes "qed_dmae_execute_command B N p src dst st dt n pr h = Some (RC_OK, h')" "dt \<noteq> QED_DMAE_ADDRESS_HOST_VIRT"
  shows "hmem h' = hmem h"
  using assms
  by (auto simp: qed_dmae_execute_command_def Let_def split: if_splits dest!: hmem_split_loop)

lemma hmem_host2grc: "qed_dmae_host2grc B N p src a n pr h = Some (RC_OK, h') \<Longrightarrow> hmem h' = hmem h"
  by (simp add: qed_dmae_host2grc_def Let_def hmem_execute)

lemma hmem_sanity: "qed_dmae_sanity B N ps mem p h = Some (RC_OK, h') \<Longrightarrow> hmem h' = hmem h"
proof -
  have f: "hmem (sanity_fill B virt phys k h) = hmem h" "hmem (sanity_zero B phys k h) = hmem h" for virt phys k h
    by (induction k) simp_all
  assume "qed_dmae_sanity B N ps mem p h = Some (RC_OK, h')"
  then show ?thesis
    by (auto simp: qed_dmae_sanity_def qed_dmae_host2host_def Let_def f split: option.splits prod.splits if_splits
        dest!: hmem_execute)
qed

end
