(* ===== verification/Qed_Init_Rt.thy ===== *)
theory Qed_Init_Rt
  imports Qed_Init Qed_Hw_Mem Qed_Dmae_Ops
begin

unbundle bit_operations_syntax

text \<open>
  The RT array as a partial map from indices to values, and the write of a stretch of it to the
  chip.
\<close>

section \<open>Stores\<close>

definition rt_wf :: "'d init_fn \<Rightarrow> bool" where
  "rt_wf s \<longleftrightarrow> length (b_valid s) = RUNTIME_ARRAY_SIZE"

definition rt_map :: "'d init_fn \<Rightarrow> nat \<rightharpoonup> u32" where
  "rt_map s k = (if k < length (b_valid s) \<and> b_valid s ! k then Some (hmem (hw s) (rt_addr s k)) else None)"

definition rt_block :: "'d init_fn \<Rightarrow> u64 set" where
  "rt_block s = block 4 (init_val s) RUNTIME_ARRAY_SIZE"

text \<open>What a store leaves alone.\<close>

definition rt_frame :: "'d init_fn \<Rightarrow> 'd init_fn \<Rightarrow> bool" where
  "rt_frame s s' \<longleftrightarrow> init_val s' = init_val s \<and> fw_data s' = fw_data s \<and>
     (\<forall>a. a \<notin> rt_block s \<longrightarrow> hmem (hw s') a = hmem (hw s) a)"

lemma rt_frame_refl [simp]: "rt_frame s s"
  by (simp add: rt_frame_def)

lemma rt_frame_trans: "rt_frame s s1 \<Longrightarrow> rt_frame s1 s2 \<Longrightarrow> rt_frame s s2"
  by (simp add: rt_frame_def rt_block_def)

lemma rt_addr_inj: "j < RUNTIME_ARRAY_SIZE \<Longrightarrow> k < RUNTIME_ARRAY_SIZE \<Longrightarrow> rt_addr s j = rt_addr s k \<Longrightarrow> j = k"
  using block_inj4 [of RUNTIME_ARRAY_SIZE "init_val s"]
  by (auto simp: rt_addr_def RUNTIME_ARRAY_SIZE_def inj_on_def)

lemma rt_put_ok:
  assumes "rt_wf s" "k < RUNTIME_ARRAY_SIZE"
  obtains s' where "rt_put k v s = Some s'" "rt_wf s'" "rt_map s' = (rt_map s)(k \<mapsto> v)" "rt_frame s s'"
proof
  let ?s = "wr_host (rt_addr s k) [v] (s\<lparr>b_valid := (b_valid s)[k := True]\<rparr>)"
  show "rt_put k v s = Some ?s" "rt_wf ?s" using assms by (simp_all add: rt_put_def rt_wf_def wr_host_def)
  show "rt_frame s ?s" using assms(2)
    by (auto simp: rt_frame_def rt_block_def wr_host_def rt_addr_def block_def)
  show "rt_map ?s = (rt_map s)(k \<mapsto> v)"
  proof
    fix j show "rt_map ?s j = ((rt_map s)(k \<mapsto> v)) j"
      using assms rt_addr_inj [of j k s]
      by (auto simp: rt_map_def rt_wf_def wr_host_def rt_addr_def nth_list_update)
  qed
qed

text \<open>The stores a client can make, and what they mean for the map.\<close>

datatype rt_store = RtReg u32 u32 | RtAgg u32 u64 u64

fun do_store :: "rt_store \<Rightarrow> 'd init_fn \<Rightarrow> 'd init_fn option" where
  "do_store (RtReg rt_offset v) s = qed_init_store_rt_reg rt_offset v s"
| "do_store (RtAgg rt_offset p_val sz) s = qed_init_store_rt_agg rt_offset p_val sz s"

fun map_store :: "(u64 \<Rightarrow> u32) \<Rightarrow> rt_store \<Rightarrow> (nat \<rightharpoonup> u32) \<Rightarrow> nat \<rightharpoonup> u32" where
  "map_store m (RtReg rt_offset v) M =
     (if unat rt_offset < RUNTIME_ARRAY_SIZE then M(unat rt_offset \<mapsto> v) else M)"
| "map_store m (RtAgg rt_offset p_val sz) M =
     (if unat rt_offset + unat sz \<le> RUNTIME_ARRAY_SIZE
      then (\<lambda>k. if unat rt_offset \<le> k \<and> k < unat rt_offset + unat sz div 4
                then Some (m (p_val + of_nat (k - unat rt_offset) * 4)) else M k) else M)"

text \<open>An aggregate is an object of less than four gigabytes that lies outside the RT array.\<close>

fun store_ok :: "u64 set \<Rightarrow> rt_store \<Rightarrow> bool" where
  "store_ok R (RtReg rt_offset v) \<longleftrightarrow> True"
| "store_ok R (RtAgg rt_offset p_val sz) \<longleftrightarrow> unat sz < 2 ^ 32 \<and> block 4 p_val (unat sz div 4) \<inter> R = {}"

lemma store_agg_ok:
  assumes "rt_wf s" "unat o' + n \<le> RUNTIME_ARRAY_SIZE" "block 4 p n \<inter> rt_block s = {}"
  shows "\<exists>s'. store_agg_loop o' p n s = Some s' \<and> rt_wf s' \<and> rt_frame s s' \<and>
    rt_map s' = (\<lambda>k. if unat o' \<le> k \<and> k < unat o' + n
                then Some (hmem (hw s) (p + of_nat (k - unat o') * 4)) else rt_map s k)"
  using assms(2,3)
proof (induction n)
  case 0
  have "rt_map s = (\<lambda>k. if unat o' \<le> k \<and> k < unat o' + 0
      then Some (hmem (hw s) (p + of_nat (k - unat o') * 4)) else rt_map s k)" by (rule ext) auto
  then show ?case using assms(1) by simp
next
  case (Suc n)
  have "block 4 p n \<inter> rt_block s = {}" using Suc.prems(2) block_mono [of n "Suc n" 4 p] by auto
  then obtain s1 where s1: "store_agg_loop o' p n s = Some s1" "rt_wf s1" "rt_frame s s1"
    "rt_map s1 = (\<lambda>k. if unat o' \<le> k \<and> k < unat o' + n
                then Some (hmem (hw s) (p + of_nat (k - unat o') * 4)) else rt_map s k)"
    using Suc.IH Suc.prems(1) by auto
  have "p + of_nat n * 4 \<in> block 4 p (Suc n)" by (auto simp: block_def)
  then have v: "hmem (hw s1) (p + of_nat n * 4) = hmem (hw s) (p + of_nat n * 4)"
    using Suc.prems(2) s1(3) by (auto simp: rt_frame_def)
  have k: "unat o' + n < RUNTIME_ARRAY_SIZE" using Suc.prems(1) by simp
  obtain s2 where "rt_put (unat o' + n) (hmem (hw s) (p + of_nat n * 4)) s1 = Some s2" "rt_wf s2"
    "rt_map s2 = (rt_map s1)(unat o' + n \<mapsto> hmem (hw s) (p + of_nat n * 4))" "rt_frame s1 s2"
    by (rule rt_put_ok [OF s1(2) k])
  then show ?case using s1 v rt_frame_trans by (auto simp: fun_eq_iff)
qed

lemma agg_test:
  assumes "unat (sz :: u64) < 2 ^ 32"
  shows "of_nat RUNTIME_ARRAY_SIZE \<le> ucast (o' :: u32) + sz - 1 \<longleftrightarrow>
    RUNTIME_ARRAY_SIZE < unat o' + unat sz \<or> unat o' + unat sz = 0"
proof -
  have u: "unat (ucast o' + sz :: u64) = unat o' + unat sz"
    using assms unsigned_less [of o', where 'a = nat] by (simp add: unat_add_mod unat_ucast_mod)
  show ?thesis
  proof (cases "unat o' + unat sz = 0")
    case True
    then have "ucast o' + sz = 0" using u by (metis unat_eq_zero)
    moreover have "(- 1 :: u64) = 0xFFFFFFFFFFFFFFFF" by simp
    ultimately have "unat (ucast o' + sz - 1) = 0xFFFFFFFFFFFFFFFF" by (simp only: diff_0) simp
    then show ?thesis using True by (simp add: RUNTIME_ARRAY_SIZE_def word_le_nat_alt)
  next
    case False
    then have "(1 :: u64) \<le> ucast o' + sz" using u by (auto simp: word_le_nat_alt)
    then have "unat (ucast o' + sz - 1) = unat o' + unat sz - 1" using u by (simp add: unat_sub)
    then show ?thesis using False by (auto simp: RUNTIME_ARRAY_SIZE_def word_le_nat_alt)
  qed
qed

lemma do_store_ok:
  assumes "rt_wf s" "store_ok (rt_block s) st"
  shows "\<exists>s'. do_store st s = Some s' \<and> rt_wf s' \<and> rt_frame s s' \<and> rt_map s' = map_store (hmem (hw s)) st (rt_map s)"
proof (cases st)
  case (RtReg o' v)
  show ?thesis
  proof (cases "unat o' < RUNTIME_ARRAY_SIZE")
    case True
    then show ?thesis using rt_put_ok [OF assms(1) True, of v] RtReg
      by (metis do_store.simps(1) linorder_not_less map_store.simps(1) qed_init_store_rt_reg_def)
  next
    case False
    then show ?thesis using RtReg assms(1) by (auto simp: qed_init_store_rt_reg_def)
  qed
next
  case (RtAgg o' p sz)
  then have sz: "unat sz < 2 ^ 32" and dis: "block 4 p (unat sz div 4) \<inter> rt_block s = {}" using assms(2) by auto
  consider "RUNTIME_ARRAY_SIZE < unat o' + unat sz" | "unat o' + unat sz = 0" |
    "unat o' + unat sz \<le> RUNTIME_ARRAY_SIZE" "unat o' + unat sz \<noteq> 0" by linarith
  then show ?thesis
  proof cases
    case 3
    then have "unat o' + unat sz div 4 \<le> RUNTIME_ARRAY_SIZE" by (meson add_le_mono div_le_dividend le_trans order_refl)
    then show ?thesis using store_agg_ok [OF assms(1) _ dis, of o'] 3 RtAgg agg_test [OF sz, of o']
      by (auto simp: qed_init_store_rt_agg_def unat_div)
  qed (use RtAgg assms(1) agg_test [OF sz, of o'] in \<open>auto simp: qed_init_store_rt_agg_def\<close>)
qed

section \<open>Writing a stretch to the chip\<close>

text \<open>The dwords of the stretch that are valid, written over the memory of the chip.\<close>

primrec rt_flush :: "(nat \<Rightarrow> bool) \<Rightarrow> (nat \<Rightarrow> u32) \<Rightarrow> u32 \<Rightarrow> nat \<Rightarrow> (u32 \<Rightarrow> u32) \<Rightarrow> u32 \<Rightarrow> u32" where
  "rt_flush v f d 0 g = g"
| "rt_flush v f d (Suc n) g = (if v n then (rt_flush v f d n g)(d + of_nat n := f n) else rt_flush v f d n g)"

lemma rt_flush_segment:
  "(\<And>j. j < L \<Longrightarrow> v (i + j)) \<Longrightarrow>
   rt_flush v f d (i + L) g = put_dwords 1 (d + of_nat i) (map (\<lambda>j. f (i + j)) [0..<L]) (rt_flush v f d i g)"
proof (induction L)
  case (Suc L)
  then show ?case by (simp add: put_dwords_append algebra_simps)
qed simp

lemma rt_flush_outside: "x \<notin> block 1 d n \<Longrightarrow> rt_flush v f d n g x = g x"
  by (induction n) (auto simp: block_def lessThan_Suc)

lemma rt_flush_nth:
  assumes "n \<le> 2 ^ 32" "k < n"
  shows "rt_flush v f d n g (d + of_nat k) = (if v k then f k else g (d + of_nat k))"
  using assms
proof (induction n)
  case (Suc n)
  have "(of_nat k :: u32) \<noteq> of_nat n" if "k \<noteq> n"
    using that Suc.prems of_nat_inj_small [of k n, where 'n = 32] by auto
  moreover have "rt_flush v f d n g (d + of_nat k) = g (d + of_nat k)" if "k = n"
  proof (rule rt_flush_outside)
    show "d + of_nat k \<notin> block 1 d n"
    proof
      assume "d + of_nat k \<in> block 1 d n"
      then obtain x where x: "x < n" "d + of_nat k = d + of_nat x" by (auto simp: block_def)
      then have "k = x" using that Suc.prems by (intro of_nat_inj_small [where 'n = 32]) simp_all
      then show False using x(1) that by simp
    qed
  qed
  ultimately show ?case using Suc by (cases "k = n") (auto simp: less_Suc_eq)
qed simp

definition rt_cleared :: "bool list \<Rightarrow> nat \<Rightarrow> nat \<Rightarrow> bool list" where
  "rt_cleared b k n = take k b @ replicate n False @ drop (k + n) b"

lemma length_rt_cleared [simp]: "k + n \<le> length b \<Longrightarrow> length (rt_cleared b k n) = length b"
  by (simp add: rt_cleared_def)

lemma nth_rt_cleared:
  "k + n \<le> length b \<Longrightarrow> j < length b \<Longrightarrow> rt_cleared b k n ! j \<longleftrightarrow> b ! j \<and> \<not> (k \<le> j \<and> j < k + n)"
  by (auto simp: rt_cleared_def nth_append)

lemma rt_cleared_0 [simp]: "rt_cleared b k 0 = b"
  by (simp add: rt_cleared_def)

lemma rt_cleared_more:
  assumes "k + n + m \<le> length b"
  shows "rt_cleared (rt_cleared b k n) (k + n) m = rt_cleared b k (n + m)"
  using assms by (intro nth_equalityI) (auto simp: nth_rt_cleared)

lemma rt_cleared_false:
  assumes "k + n < length b" "\<not> b ! (k + n)"
  shows "rt_cleared b k (Suc n) = rt_cleared b k n"
proof (intro nth_equalityI)
  fix j assume "j < length (rt_cleared b k (Suc n))"
  then show "rt_cleared b k (Suc n) ! j = rt_cleared b k n ! j"
    using assms by (cases "j = k + n") (auto simp: nth_rt_cleared)
qed (use assms in simp)

lemma b_valid_invalidate: "b_valid (rt_invalidate k n s) = rt_cleared (b_valid s) k n"
  by (simp add: rt_invalidate_def rt_cleared_def)

lemma rt_segment_ok:
  assumes "off + sz \<le> length (b_valid s)" "i + seg \<le> sz" "\<And>j. j < seg \<Longrightarrow> b_valid s ! (off + i + j)"
  shows "\<exists>L. rt_segment s off sz i seg = Some L \<and> seg \<le> L \<and> i + L \<le> sz \<and>
    (\<forall>j < L. b_valid s ! (off + i + j)) \<and> (i + L < sz \<longrightarrow> \<not> b_valid s ! (off + i + L))"
  using assms(2,3)
proof (induction "sz - (i + seg)" arbitrary: seg)
  case 0
  then show ?case by (subst rt_segment.simps) auto
next
  case (Suc n)
  show ?case
  proof (cases "b_valid s ! (off + i + seg)")
    case True
    have "\<exists>L. rt_segment s off sz i (Suc seg) = Some L \<and> Suc seg \<le> L \<and> i + L \<le> sz \<and>
      (\<forall>j < L. b_valid s ! (off + i + j)) \<and> (i + L < sz \<longrightarrow> \<not> b_valid s ! (off + i + L))"
      using Suc.hyps(2) Suc.prems(2) True by (intro Suc.hyps(1)) (auto simp: less_Suc_eq)
    then show ?thesis using Suc.hyps(2) assms(1) True
      by (subst rt_segment.simps) (auto simp: rt_valid_def Suc_le_eq)
  next
    case False
    then show ?thesis using Suc.hyps(2) Suc.prems assms(1)
      by (subst rt_segment.simps) (auto simp: rt_valid_def)
  qed
qed

text \<open>
  With DMA: the state after the first \<open>i\<close> entries of the stretch, and the step over one segment.
  The destination is given as a dword address.
\<close>

definition rt_part ::
  "('d, 'g) pxp_view \<Rightarrow> 'g dmae_view \<Rightarrow> 'd init_fn \<Rightarrow> nat \<Rightarrow> u32 \<Rightarrow> nat \<Rightarrow> 'd init_fn \<Rightarrow> bool" where
  "rt_part V W s0 off d i s \<longleftrightarrow> dmae_ok V W (hw s) \<and> dmae_frame V (hw s0) (hw s) \<and> hmem (hw s) = hmem (hw s0) \<and>
     init_val s = init_val s0 \<and> fw_data s = fw_data s0 \<and> b_valid s = rt_cleared (b_valid s0) off i \<and>
     gm V W (hw s) = rt_flush (\<lambda>k. b_valid s0 ! (off + k)) (\<lambda>k. hmem (hw s0) (rt_addr s0 (off + k))) d i (gm V W (hw s0))"

lemma dst_dword:
  assumes "unat (d :: u32) < 0x800000" "i < 0x10000"
  shows "(push_bit 2 d + push_bit 2 (of_nat i)) div 4 = d + of_nat i"
proof -
  have "push_bit 2 d + push_bit 2 (of_nat i) = (of_nat ((unat d + i) * 4) :: u32)"
    by (simp add: push_bit_eq_mult algebra_simps)
  moreover have "unat (of_nat ((unat d + i) * 4) :: u32) = (unat d + i) * 4"
    using assms by (intro unat_of_nat_small) simp
  moreover have "unat (d + of_nat i) = unat d + i"
    using assms by (simp add: unat_add_mod unat_of_nat_small)
  ultimately show ?thesis by (simp add: word_unat_eq_iff unat_div)
qed

lemma rt_part_segment:
  assumes env: "dmae_env B G V W (hw s0)" and up: "dmae_up (hw s0)" and p: "p < 12"
    and d: "0 < unat d" "unat d < 0x800000" and part: "rt_part V W s0 off d i s"
    and b: "off + sz \<le> length (b_valid s0)" "sz < 0x10000"
    and L: "0 < L" "i + L \<le> sz" "\<And>j. j < L \<Longrightarrow> b_valid s0 ! (off + i + j)"
  obtains h where "qed_dmae_host2grc B N p (rt_addr s (off + i)) (push_bit 2 d + push_bit 2 (of_nat i))
      (of_nat L) None (hw s) = Some (RC_OK, h)"
    "rt_part V W s0 off d (i + L) (rt_invalidate (off + i) L (s\<lparr>hw := h\<rparr>))"
proof -
  note P = part [unfolded rt_part_def]
  let ?a = "push_bit 2 d + push_bit 2 (of_nat i) :: u32"
  have a: "?a div 4 = d + of_nat i" using dst_dword [OF d(2), of i] L b(2) by simp
  have "unat (d + of_nat i) = unat d + i" using d L b(2) by (simp add: unat_add_mod unat_of_nat_small)
  then have nz: "?a div 4 \<noteq> 0" unfolding a using d(1) by (metis add_is_0 less_numeral_extra(3) unsigned_0)
  have uL: "unat (of_nat L :: u32) = L" using L b(2) by (intro unat_of_nat_small) simp
  have env': "dmae_env B G V W (hw s)" using env dmae_env_frame P by blast
  have fr: "dmae_frame V (hw s0) (hw s)" using P by blast
  have up': "dmae_up (hw s)" using up by (simp add: dmae_up_def dmae_frameD [OF fr])
  have ok': "dmae_ok V W (hw s)" using P by blast
  have nn: "unat (of_nat L :: u32) div 0x2000 < 0xFFFF" using uL L b(2) by simp
  obtain h where h: "qed_dmae_host2grc B N p (rt_addr s (off + i)) ?a (of_nat L) None (hw s) = Some (RC_OK, h)"
    "dmae_done V W (hw s) False True h" "hmem h = hmem (hw s)"
    "gm V W h = put_dwords 1 (d + of_nat i) (get_dwords 4 (rt_addr s (off + i)) L (hmem (hw s))) (gm V W (hw s))"
    using host2grc_ok [OF env' ok' up' p nn nz, of None N "rt_addr s (off + i)"]
    unfolding a uL by (auto simp: QED_DMAE_FLAGS_IS_SET_def)
  have src: "get_dwords 4 (rt_addr s (off + i)) L (hmem (hw s)) =
      map (\<lambda>j. hmem (hw s0) (rt_addr s0 (off + (i + j)))) [0..<L]"
    using P by (simp add: get_dwords_def rt_addr_def algebra_simps)
  have seg: "rt_flush (\<lambda>k. b_valid s0 ! (off + k)) f d (i + L) g = put_dwords 1 (d + of_nat i)
      (map (\<lambda>j. f (i + j)) [0..<L]) (rt_flush (\<lambda>k. b_valid s0 ! (off + k)) f d i g)" for f g
    using L(3) by (intro rt_flush_segment) (simp add: add.assoc)
  have "gm V W h = rt_flush (\<lambda>k. b_valid s0 ! (off + k)) (\<lambda>k. hmem (hw s0) (rt_addr s0 (off + k))) d (i + L)
      (gm V W (hw s0))"
    unfolding h(4) src seg using P by simp
  moreover have "rt_cleared (b_valid s) (off + i) L = rt_cleared (b_valid s0) off (i + L)"
    using P rt_cleared_more [of off i L "b_valid s0"] b L(2) by simp
  moreover have "hmem h = hmem (hw s0)" using P h(3) by simp
  moreover have "init_val s = init_val s0" "fw_data s = fw_data s0" using P by simp_all
  ultimately have "rt_part V W s0 off d (i + L) (rt_invalidate (off + i) L (s\<lparr>hw := h\<rparr>))"
    unfolding rt_part_def b_valid_invalidate
    using dmae_doneD(1) [OF h(2)] dmae_frame_trans [OF fr dmae_doneD(2) [OF h(2)]] by (simp add: rt_invalidate_def)
  then show thesis using h(1) that by blast
qed

lemma rt_part_skip:
  assumes "rt_part V W s0 off d i s" "off + i < length (b_valid s0)" "\<not> b_valid s0 ! (off + i)"
  shows "rt_part V W s0 off d (Suc i) s"
  using assms by (simp add: rt_part_def rt_cleared_false)

lemma rt_part_valid:
  assumes "rt_part V W s0 off d i s" "off + sz \<le> length (b_valid s0)" "i + j < sz"
  shows "off + (i + j) < length (b_valid s)" "b_valid s ! (off + (i + j)) = b_valid s0 ! (off + (i + j))"
  using assms by (auto simp: rt_part_def nth_rt_cleared)

lemma init_rt_loop_dmae:
  assumes env: "dmae_env (ie_bus E) G V W (hw s0)" and up: "dmae_up (hw s0)" and p: "p < 12"
    and d: "0 < unat d" "unat d < 0x800000" and b: "off + unat sz \<le> length (b_valid s0)" "unat sz < 0xFFFF"
    and off: "off = unat rt_offset"
  shows "rt_part V W s0 off d i s \<Longrightarrow> i \<le> unat sz \<Longrightarrow>
    \<exists>s'. init_rt_loop E p (push_bit 2 d) rt_offset sz True (of_nat i) s = Some (RC_OK, s') \<and>
      rt_part V W s0 off d (unat sz) s'"
proof (induction "unat sz - i" arbitrary: i s rule: less_induct)
  case less
  have ui: "unat (of_nat i :: u16) = i" using less.prems(2) b(2) by (intro unat_of_nat_small) simp
  have lt: "of_nat i < sz \<longleftrightarrow> i < unat sz" by (simp add: word_less_nat_alt ui)
  have stop: "init_rt_loop E p (push_bit 2 d) rt_offset sz True (of_nat j) t = Some (RC_OK, t)"
    if "unat sz \<le> j" "j \<le> Suc (unat sz)" for j t
  proof -
    have "unat (of_nat j :: u16) = j" using that b(2) by (intro unat_of_nat_small) simp
    then show ?thesis using that by (subst init_rt_loop.simps) (simp add: word_less_nat_alt)
  qed
  show ?case
  proof (cases "i < unat sz")
    case False
    then show ?thesis using stop [of i s] less.prems by auto
  next
    case True
    note val = rt_part_valid [OF less.prems(1) b(1)]
    have v0: "rt_valid s (unat rt_offset + unat (of_nat i :: u16)) = Some (b_valid s0 ! (off + i))"
      using val [of 0] True by (simp add: rt_valid_def ui off)
    show ?thesis
    proof (cases "b_valid s0 ! (off + i)")
      case False
      have "rt_part V W s0 off d (Suc i) s" using rt_part_skip [OF less.prems(1) _ False] True b(1) by simp
      then have "\<exists>s'. init_rt_loop E p (push_bit 2 d) rt_offset sz True (of_nat (Suc i)) s = Some (RC_OK, s') \<and>
          rt_part V W s0 off d (unat sz) s'"
        using True by (intro less.hyps) auto
      then show ?thesis using True False v0 lt by (subst init_rt_loop.simps) (simp add: add.commute)
    next
      case valid: True
      have len: "off + unat sz \<le> length (b_valid s)" using less.prems b by (simp add: rt_part_def)
      obtain L where L: "rt_segment s off (unat sz) i 1 = Some L" "1 \<le> L" "i + L \<le> unat sz"
        "\<forall>j < L. b_valid s ! (off + i + j)" "i + L < unat sz \<longrightarrow> \<not> b_valid s ! (off + i + L)"
        using rt_segment_ok [OF len, of i 1] True valid val [of 0] by auto
      have all: "\<And>j. j < L \<Longrightarrow> b_valid s0 ! (off + i + j)"
        using L(3,4) val(2) by (simp add: add.assoc)
      have sz: "unat sz < 0x10000" and pos: "0 < L" using b(2) L(2) by simp_all
      obtain h where h: "qed_dmae_host2grc (ie_bus E) (ie_notify E) p (rt_addr s (off + i))
          (push_bit 2 d + push_bit 2 (of_nat i)) (of_nat L) None (hw s) = Some (RC_OK, h)"
        "rt_part V W s0 off d (i + L) (rt_invalidate (off + i) L (s\<lparr>hw := h\<rparr>))"
        by (rule rt_part_segment [OF env up p d less.prems(1) b(1) sz pos L(3) all])
      let ?t = "rt_invalidate (off + i) L (s\<lparr>hw := h\<rparr>)"
      have uci: "(ucast (of_nat i :: u16) :: u32) = of_nat i"
        using ui True sz by (simp add: word_unat_eq_iff unat_ucast_mod unat_of_nat_small)
      have nxt: "of_nat i + of_nat L + 1 = (of_nat (Suc (i + L)) :: u16)" by simp
      have step: "init_rt_loop E p (push_bit 2 d) rt_offset sz True (of_nat i) s =
          init_rt_loop E p (push_bit 2 d) rt_offset sz True (of_nat (Suc (i + L))) ?t"
        using True valid v0 lt h(1) L(1)
        by (subst init_rt_loop.simps) (simp only: ui uci nxt lift_hw_def off [symmetric] option.map option.case prod.case
            not_True_eq_False if_False if_True simp_thms)
      show ?thesis
      proof (cases "i + L = unat sz")
        case True
        then show ?thesis using stop [of "Suc (i + L)" ?t] h(2) unfolding step by simp
      next
        case False
        then have "i + L < unat sz" using L(3) by simp
        then have "\<not> b_valid s0 ! (off + (i + L))" using L(5) val(2) [of L] by (simp add: add.assoc)
        then have "rt_part V W s0 off d (Suc (i + L)) ?t"
          using rt_part_skip [OF h(2)] \<open>i + L < unat sz\<close> b(1) by simp
        then show ?thesis unfolding step using \<open>i + L < unat sz\<close> L(2) by (intro less.hyps) auto
      qed
    qed
  qed
qed

text \<open>Without DMA: one register write per valid entry, in order.\<close>

primrec rt_writes ::
  "'d bus \<Rightarrow> nat \<Rightarrow> (nat \<Rightarrow> bool) \<Rightarrow> (nat \<Rightarrow> u32) \<Rightarrow> u32 \<Rightarrow> nat \<Rightarrow> 'd qed_hwfn \<Rightarrow> 'd qed_hwfn" where
  "rt_writes B p v f a 0 h = h"
| "rt_writes B p v f a (Suc n) h = (if v n then qed_wr B p (a + push_bit 2 (of_nat n)) (f n) (rt_writes B p v f a n h)
     else rt_writes B p v f a n h)"

lemma hmem_rt_writes [simp]: "hmem (rt_writes B p v f a n h) = hmem h"
  by (induction n) simp_all

definition rt_wpart :: "'d bus \<Rightarrow> nat \<Rightarrow> 'd init_fn \<Rightarrow> nat \<Rightarrow> u32 \<Rightarrow> nat \<Rightarrow> 'd init_fn \<Rightarrow> bool" where
  "rt_wpart B p s0 off a i s \<longleftrightarrow> init_val s = init_val s0 \<and> fw_data s = fw_data s0 \<and>
     b_valid s = rt_cleared (b_valid s0) off i \<and>
     hw s = rt_writes B p (\<lambda>k. b_valid s0 ! (off + k)) (\<lambda>k. hmem (hw s0) (rt_addr s0 (off + k))) a i (hw s0)"

lemma init_rt_loop_wr:
  assumes b: "off + unat sz \<le> length (b_valid s0)" "unat sz < 0xFFFF" and off: "off = unat rt_offset"
  shows "rt_wpart (ie_bus E) p s0 off a i s \<Longrightarrow> i \<le> unat sz \<Longrightarrow>
    \<exists>s'. init_rt_loop E p a rt_offset sz False (of_nat i) s = Some (RC_OK, s') \<and>
      rt_wpart (ie_bus E) p s0 off a (unat sz) s'"
proof (induction "unat sz - i" arbitrary: i s)
  case 0
  then have "unat (of_nat i :: u16) = i" "i = unat sz" using b(2) by (simp_all add: unat_of_nat_small)
  then show ?case using 0 by (subst init_rt_loop.simps) (simp add: word_less_nat_alt)
next
  case (Suc n)
  then have i: "i < unat sz" by simp
  have ui: "unat (of_nat i :: u16) = i" using i b(2) by (intro unat_of_nat_small) simp
  have uci: "(ucast (of_nat i :: u16) :: u32) = of_nat i"
    using ui i b(2) by (simp add: word_unat_eq_iff unat_ucast_mod unat_of_nat_small)
  have lt: "of_nat i < sz" using i by (simp add: word_less_nat_alt ui)
  note P = Suc.prems(1) [unfolded rt_wpart_def]
  have v: "rt_valid s (off + i) = Some (b_valid s0 ! (off + i))"
    using P i b(1) by (simp add: rt_valid_def nth_rt_cleared)
  let ?f = "\<lambda>k. hmem (hw s0) (rt_addr s0 (off + k))"
  let ?t = "if b_valid s0 ! (off + i) then rt_invalidate (off + i) 1
    (upd_hw (qed_wr (ie_bus E) p (a + push_bit 2 (of_nat i)) (?f i)) s) else s"
  have "rt_wpart (ie_bus E) p s0 off a (Suc i) ?t"
    using P i b(1) rt_cleared_more [of off i 1 "b_valid s0"] rt_cleared_false [of off i "b_valid s0"]
    by (auto simp: rt_wpart_def b_valid_invalidate) (simp_all add: rt_invalidate_def upd_hw_def)
  then have "\<exists>s'. init_rt_loop E p a rt_offset sz False (of_nat (Suc i)) ?t = Some (RC_OK, s') \<and>
      rt_wpart (ie_bus E) p s0 off a (unat sz) s'"
    using Suc.hyps(2) i by (intro Suc.hyps(1)) simp_all
  moreover have "init_rt_loop E p a rt_offset sz False (of_nat i) s =
      init_rt_loop E p a rt_offset sz False (of_nat (Suc i)) ?t"
    using lt v P by (subst init_rt_loop.simps) (auto simp: ui uci off [symmetric] rt_addr_def add.commute)
  ultimately show ?case by simp
qed

end
