(* ===== verification/Qed_Init_Run.thy ===== *)
theory Qed_Init_Run
  imports Qed_Init_Rt Qed_Dmae_Limits
begin

unbundle bit_operations_syntax

text \<open>
  The program of init commands: expressions over the modes, and why a run comes to an end whatever
  the device answers.
\<close>

section \<open>Expressions over the modes\<close>

datatype mode_expr = Mode nat | MNot mode_expr | MOr mode_expr mode_expr | MAnd mode_expr mode_expr

primrec mode_val :: "u32 \<Rightarrow> mode_expr \<Rightarrow> bool" where
  "mode_val modes (Mode k) \<longleftrightarrow> bit modes k"
| "mode_val modes (MNot e) \<longleftrightarrow> \<not> mode_val modes e"
| "mode_val modes (MOr e f) \<longleftrightarrow> mode_val modes e \<or> mode_val modes f"
| "mode_val modes (MAnd e f) \<longleftrightarrow> mode_val modes e \<and> mode_val modes f"

text \<open>The prefix form of the firmware file, for modes of a 32 bit set.\<close>

primrec mode_code :: "mode_expr \<Rightarrow> u8 list" where
  "mode_code (Mode k) = [of_nat k + MAX_INIT_MODE_OPS]"
| "mode_code (MNot e) = INIT_MODE_OP_NOT # mode_code e"
| "mode_code (MOr e f) = INIT_MODE_OP_OR # mode_code e @ mode_code f"
| "mode_code (MAnd e f) = INIT_MODE_OP_AND # mode_code e @ mode_code f"

primrec mode_ok :: "mode_expr \<Rightarrow> bool" where
  "mode_ok (Mode k) \<longleftrightarrow> k < 32"
| "mode_ok (MNot e) \<longleftrightarrow> mode_ok e"
| "mode_ok (MOr e f) \<longleftrightarrow> mode_ok e \<and> mode_ok f"
| "mode_ok (MAnd e f) \<longleftrightarrow> mode_ok e \<and> mode_ok f"

definition tree_at :: "(u64 \<Rightarrow> u32) \<Rightarrow> u64 \<Rightarrow> u16 \<Rightarrow> u8 list \<Rightarrow> bool" where
  "tree_at m tree off bs \<longleftrightarrow> (\<forall>j < length bs. rd_u8 m (tree + ucast (off + of_nat j)) = bs ! j)"

lemma tree_at_Nil [simp]: "tree_at m tree off []"
  by (simp add: tree_at_def)

lemma tree_at_Cons: "tree_at m tree off (b # bs) \<longleftrightarrow> rd_u8 m (tree + ucast off) = b \<and> tree_at m tree (off + 1) bs"
  unfolding tree_at_def
  by (auto simp: less_Suc_eq_0_disj add.assoc)

lemma tree_at_append:
  "tree_at m tree off (bs @ cs) \<longleftrightarrow> tree_at m tree off bs \<and> tree_at m tree (off + of_nat (length bs)) cs"
  by (induction bs arbitrary: off) (simp_all add: tree_at_Cons, simp_all add: tree_at_def add.assoc)

lemma mode_byte:
  assumes "k < 32"
  shows "of_nat k + MAX_INIT_MODE_OPS \<noteq> INIT_MODE_OP_NOT" "of_nat k + MAX_INIT_MODE_OPS \<noteq> INIT_MODE_OP_OR"
    "of_nat k + MAX_INIT_MODE_OPS \<noteq> INIT_MODE_OP_AND" "unat (of_nat k :: u8) = k"
proof -
  have "unat (of_nat (k + 3) :: u8) = k + 3" using assms by (intro unat_of_nat_small) simp
  then have "unat (of_nat k + 3 :: u8) = k + 3" by simp
  then show "of_nat k + MAX_INIT_MODE_OPS \<noteq> INIT_MODE_OP_NOT" "of_nat k + MAX_INIT_MODE_OPS \<noteq> INIT_MODE_OP_OR"
    "of_nat k + MAX_INIT_MODE_OPS \<noteq> INIT_MODE_OP_AND"
    by (auto simp: INIT_MODE_OP_NOT_def INIT_MODE_OP_OR_def INIT_MODE_OP_AND_def MAX_INIT_MODE_OPS_def word_unat_eq_iff)
  show "unat (of_nat k :: u8) = k" using assms by (intro unat_of_nat_small) simp
qed

lemma mode_match:
  "tree_at m tree off (mode_code e) \<Longrightarrow> mode_ok e \<Longrightarrow>
   qed_init_cmd_mode_match m tree modes off =
     Some (if mode_val modes e then 1 else 0, off + of_nat (length (mode_code e)))"
proof (induction e arbitrary: off)
  case (Mode k)
  have "bit (scast modes :: u64) k = bit modes k" using Mode(2) by (simp add: bit_signed_iff bit_signed_take_bit_iff)
  then show ?case using Mode mode_byte [of k]
    by (subst qed_init_cmd_mode_match.simps) (simp add: tree_at_Cons Let_def)
next
  case (MNot e)
  then show ?case
    by (subst qed_init_cmd_mode_match.simps) (simp add: tree_at_Cons Let_def add.assoc)
next
  case (MOr e f)
  then show ?case
    by (subst qed_init_cmd_mode_match.simps)
      (simp add: tree_at_Cons tree_at_append Let_def add.assoc INIT_MODE_OP_NOT_def INIT_MODE_OP_OR_def)
next
  case (MAnd e f)
  then show ?case
    by (subst qed_init_cmd_mode_match.simps)
      (simp add: tree_at_Cons tree_at_append Let_def add.assoc INIT_MODE_OP_NOT_def INIT_MODE_OP_OR_def INIT_MODE_OP_AND_def)
qed

section \<open>What a command leaves alone\<close>

text \<open>
  On any device, a successful command keeps the tables, the extent of the RT array and host memory outside
  the buffers of zeros and of unzipped data.
\<close>

definition init_keep :: "u64 set \<Rightarrow> 'd init_fn \<Rightarrow> 'd init_fn \<Rightarrow> bool" where
  "init_keep A s s' \<longleftrightarrow> fw_data s' = fw_data s \<and> unzip_buf s' = unzip_buf s \<and> init_val s' = init_val s \<and>
     length (b_valid s') = length (b_valid s) \<and> (\<forall>a. a \<notin> A \<longrightarrow> hmem (hw s') a = hmem (hw s) a)"

lemma init_keep_refl [simp]: "init_keep A s s"
  by (simp add: init_keep_def)

lemma init_keep_trans: "init_keep A s s1 \<Longrightarrow> init_keep A s1 s2 \<Longrightarrow> init_keep A s s2"
  by (simp add: init_keep_def)

lemma init_keep_mono: "init_keep A s s' \<Longrightarrow> A \<subseteq> B \<Longrightarrow> init_keep B s s'"
  by (auto simp: init_keep_def)

lemma init_keep_hw: "hmem h = hmem (hw s) \<Longrightarrow> init_keep A s (s\<lparr>hw := h\<rparr>)"
  by (simp add: init_keep_def)

lemma init_keep_upd: "(\<And>h. hmem (f h) = hmem h) \<Longrightarrow> init_keep A s (upd_hw f s)"
  by (simp add: upd_hw_def init_keep_hw)

lemma init_keep_wr_host: "block 4 a (length vs) \<subseteq> A \<Longrightarrow> init_keep A s (wr_host a vs s)"
  by (auto simp: init_keep_def wr_host_def intro!: put_dwords_outside)

text \<open>The result of a command: it returns, and what it keeps when it succeeds.\<close>

definition returns :: "u64 set \<Rightarrow> 'd init_fn \<Rightarrow> (rc \<times> 'd init_fn) option \<Rightarrow> bool" where
  "returns A s r \<longleftrightarrow> (\<exists>rc s'. r = Some (rc, s') \<and> (rc = RC_OK \<longrightarrow> init_keep A s s'))"

lemma returns_SomeI: "init_keep A s s' \<Longrightarrow> returns A s (Some (rc, s'))"
  by (auto simp: returns_def)

lemma returns_trans: "init_keep A s s1 \<Longrightarrow> returns A s1 r \<Longrightarrow> returns A s r"
  using init_keep_trans by (fastforce simp: returns_def)

lemma returns_mono: "returns A s r \<Longrightarrow> A \<subseteq> B \<Longrightarrow> returns B s r"
  using init_keep_mono by (fastforce simp: returns_def)

lemma host2grc_returns:
  assumes "unat n div 0x2000 mod 0x10000 \<noteq> 0xFFFF"
  shows "returns A s (lift_hw s (qed_dmae_host2grc B N p src a n pr (hw s)))"
proof -
  obtain rc h where r: "qed_dmae_host2grc B N p src a n pr (hw s) = Some (rc, h)"
    using execute_returns [OF assms] unfolding qed_dmae_host2grc_def Let_def by fastforce
  then show ?thesis using hmem_host2grc [of B N p src a n pr "hw s"]
    by (auto simp: returns_def lift_hw_def intro: init_keep_hw)
qed

lemma init_rt_returns:
  assumes "unat sz < 0xFFFF"
  shows "unat rt_offset + unat sz \<le> length (b_valid s) \<Longrightarrow> i \<le> Suc (unat sz) \<Longrightarrow>
    returns {} s (init_rt_loop E p a rt_offset sz must (of_nat i) s)"
proof (induction "Suc (unat sz) - i" arbitrary: i s rule: less_induct)
  case less
  let ?off = "unat rt_offset"
  have ui: "unat (of_nat i :: u16) = i" using less.prems(2) assms by (intro unat_of_nat_small) simp
  have lt: "of_nat i < sz \<longleftrightarrow> i < unat sz" by (simp add: word_less_nat_alt ui)
  have go: "returns {} s (init_rt_loop E p a rt_offset sz must (of_nat j) t)"
    if "init_keep {} s t" "i < j" "j \<le> Suc (unat sz)" for j t
    using that less.prems by (intro returns_trans [OF that(1)] less.hyps) (auto simp: init_keep_def)
  have inv: "init_keep {} s (rt_invalidate k n t)" if "init_keep {} s t" "k + n \<le> length (b_valid s)" for k n t
    using that by (simp add: init_keep_def rt_invalidate_def)
  show ?case
  proof (cases "i < unat sz")
    case False
    then show ?thesis using lt by (subst init_rt_loop.simps) (simp add: returns_SomeI)
  next
    case True
    then have v: "rt_valid s (?off + i) = Some (b_valid s ! (?off + i))" using less.prems by (simp add: rt_valid_def)
    consider "\<not> b_valid s ! (?off + i)" | "b_valid s ! (?off + i)" "\<not> must" | "b_valid s ! (?off + i)" "must" by blast
    then show ?thesis
    proof cases
      case 1
      then show ?thesis using go [of s "Suc i"] True lt v
        by (subst init_rt_loop.simps) (simp add: ui add.commute)
    next
      case 2
      let ?t = "rt_invalidate (?off + i) 1 (upd_hw (qed_wr (ie_bus E) p (a + push_bit 2 (ucast (of_nat i :: u16)))
        (hmem (hw s) (rt_addr s (?off + i)))) s)"
      have "init_keep {} s ?t" using True less.prems(1) by (intro inv init_keep_upd) simp_all
      then show ?thesis using go [of ?t "Suc i"] True lt v 2
        by (subst init_rt_loop.simps) (simp add: ui add.commute)
    next
      case 3
      obtain L where L: "rt_segment s ?off (unat sz) i 1 = Some L" "1 \<le> L" "i + L \<le> unat sz"
        using rt_segment_ok [OF less.prems(1), of i 1] True 3 by auto
      have uL: "unat (of_nat L :: u32) = L" using L assms by (intro unat_of_nat_small) simp
      let ?r = "lift_hw s (qed_dmae_host2grc (ie_bus E) (ie_notify E) p (rt_addr s (?off + i))
        (a + push_bit 2 (ucast (of_nat i :: u16))) (of_nat L) None (hw s))"
      have "L div 0x2000 mod 0x10000 \<noteq> 0xFFFF" using L assms by simp
      then obtain rc t where r: "?r = Some (rc, t)" "rc = RC_OK \<longrightarrow> init_keep {} s t"
        using host2grc_returns [of "of_nat L :: u32" "{}" s] unfolding returns_def uL by blast
      have eq: "init_rt_loop E p a rt_offset sz must (of_nat i) s = (if rc \<noteq> RC_OK then Some (rc, t)
          else init_rt_loop E p a rt_offset sz must (of_nat (Suc (i + L))) (rt_invalidate (?off + i) L t))"
        using True lt v 3 L(1) r(1) by (subst init_rt_loop.simps) (simp add: ui algebra_simps)
      have "init_keep {} s (rt_invalidate (?off + i) L t)" if "rc = RC_OK"
        using r(2) that L(3) less.prems(1) by (intro inv) simp_all
      then show ?thesis using go [of "rt_invalidate (?off + i) L t" "Suc (i + L)"] L unfolding eq
        by (auto simp: returns_def)
    qed
  qed
qed

section \<open>Every command returns\<close>

lemma get_field_le: "unat (GET_FIELD (w :: u32) (msk, sh)) \<le> msk"
proof (cases "msk < 2 ^ 32")
  case True
  have "unat (drop_bit sh w AND of_nat msk) \<le> unat (of_nat msk :: u32)"
    using word_and_le1 [of "drop_bit sh w" "of_nat msk"] by (simp add: word_le_nat_alt and.commute)
  then show ?thesis using True by (simp add: GET_FIELD_def unat_of_nat_small)
next
  case False
  then show ?thesis using unsigned_less [of "GET_FIELD w (msk, sh)", where 'a = nat] by simp
qed

lemma init_array_keep: "init_keep {} s (init_array_wr E p a pd n s)"
proof (induction n)
  case (Suc n)
  then show ?case unfolding init_array_wr.simps Let_def by (rule init_keep_trans) (rule init_keep_upd, simp)
qed simp

lemma init_fill_keep: "init_keep {} s (qed_init_fill E p a v n s)"
proof (induction n arbitrary: a s)
  case (Suc n)
  have "init_keep {} s (upd_hw (qed_wr (ie_bus E) p a v) s)" by (rule init_keep_upd) simp
  then show ?case using init_keep_trans Suc by (metis qed_init_fill.simps(2))
qed simp

lemma array_dmae_returns:
  assumes "unat sz < 0x10000000"
  shows "returns {} s (qed_init_array_dmae E p a off sz buf must can s)"
proof -
  have "unat sz div 0x2000 mod 0x10000 \<noteq> 0xFFFF" using assms by (simp add: less_mult_imp_div_less)
  then show ?thesis
    by (simp add: qed_init_array_dmae_def Let_def host2grc_returns returns_SomeI init_array_keep)
qed

lemma pattern_returns:
  assumes "unat sz < 0x10000000"
  shows "returns {} s (init_pattern_loop E p off sz arr must can n a s)"
proof (induction n arbitrary: a s)
  case (Suc n)
  obtain rc s1 where "qed_init_array_dmae E p a off sz arr must can s = Some (rc, s1)" "rc = RC_OK \<longrightarrow> init_keep {} s s1"
    using array_dmae_returns [OF assms, of s E p a off arr must can] by (auto simp: returns_def)
  then show ?case using Suc [where a = "a + push_bit 2 sz" and s = s1] returns_trans [of "{}" s s1] by (auto simp: returns_def)
qed (simp add: returns_SomeI)

text \<open>The buffers a command may write, and what the library for decompression promises.\<close>

definition init_scratch :: "'d init_env \<Rightarrow> u64 \<Rightarrow> u64 set" where
  "init_scratch E buf = block 4 (ie_zero_buffer E) 0x2000 \<union> block 4 buf 0x2000"

definition inflate_bounded :: "'d init_env \<Rightarrow> bool" where
  "inflate_bounded E \<longleftrightarrow> (\<forall>bs n. length (snd (ie_inflate E bs n)) \<le> n)"

lemma pack_length: "length (pack_dwords bs) = (length bs + 3) div 4"
  by (induction bs rule: pack_dwords.induct) auto

lemma unzip_keep:
  assumes "inflate_bounded E" "qed_unzip_data E il ib 32768 s = (n, s')"
  shows "init_keep (block 4 (unzip_buf s) 0x2000) s s'" "unat n \<le> 0x2000"
proof -
  obtain ok out where o: "ie_inflate E (map (\<lambda>k. rd_u8 (hmem (hw s)) (ib + of_nat k)) [0..<unat il]) 32768 = (ok, out)" by fastforce
  have "length out \<le> 32768"
    using assms(1) [unfolded inflate_bounded_def, rule_format, of "map (\<lambda>k. rd_u8 (hmem (hw s)) (ib + of_nat k)) [0..<unat il]" 32768] o
    by simp
  then have "length (pack_dwords out) \<le> 0x2000" "unat (of_nat (length out div 4) :: u32) \<le> 0x2000"
    by (simp_all add: pack_length unat_of_nat_small)
  then have "init_keep (block 4 (unzip_buf s) 0x2000) s s' \<and> unat n \<le> 0x2000"
    using assms(2) o block_mono [of "length (pack_dwords out)" "0x2000" 4 "unzip_buf s"]
    by (auto simp: qed_unzip_data_def Let_def intro: init_keep_wr_host split: if_splits)
  then show "init_keep (block 4 (unzip_buf s) 0x2000) s s'" "unat n \<le> 0x2000" by auto
qed

lemma cmd_array_returns:
  assumes inf: "inflate_bounded E"
  shows "returns (block 4 (unzip_buf s) 0x2000) s (qed_init_cmd_array E p cmd must can s)"
proof -
  let ?A = "block 4 (unzip_buf s) 0x2000"
  let ?s1 = "wr_host (unzip_buf s) (replicate MAX_ZIPPED_SIZE 0) s"
  have s1: "init_keep ?A s ?s1" by (rule init_keep_wr_host) (simp add: MAX_ZIPPED_SIZE_def)
  have std: "unat (GET_FIELD w INIT_ARRAY_STANDARD_HDR_SIZE) < 0x10000000"
    "unat (GET_FIELD w INIT_ARRAY_PATTERN_HDR_PATTERN_SIZE) < 0x10000000" for w :: u32
    using get_field_le [of w "0xFFFFFFF" 4] get_field_le [of w "0xF" 4]
    by (simp_all add: INIT_ARRAY_STANDARD_HDR_SIZE_def INIT_ARRAY_PATTERN_HDR_PATTERN_SIZE_def)
  have zip: "returns ?A s (let (n, t) = qed_unzip_data E il ib 32768 ?s1 in
      if n \<noteq> 0 then qed_init_array_dmae E p a 0 n (unzip_buf t) must can t else Some (RC_ERR EINVAL, t))" for il ib a
  proof -
    obtain n t where t: "qed_unzip_data E il ib 32768 ?s1 = (n, t)" by fastforce
    have "init_keep ?A ?s1 t" "unat n < 0x10000000"
      using unzip_keep [OF inf t] s1 by (simp_all add: init_keep_def)
    then have "init_keep ?A s t" "unat n < 0x10000000" using init_keep_trans s1 by blast+
    then show ?thesis unfolding t
      by (auto intro!: returns_SomeI returns_trans [of ?A s t] returns_mono [OF array_dmae_returns])
  qed
  show ?thesis
    unfolding qed_init_cmd_array_def Let_def
    using zip [unfolded Let_def] std
    by (auto simp: MAX_ZIPPED_SIZE_def intro!: returns_SomeI returns_mono [OF pattern_returns] returns_mono [OF array_dmae_returns])
qed

text \<open>
  What is asked of a command of the firmware: a fill is no larger than the DMA engine can do, a stretch of
  the RT array lies inside it, and an expression over the modes is one.
\<close>

definition init_cmd_ok :: "'d init_fn \<Rightarrow> init_op \<Rightarrow> bool" where
  "init_cmd_ok s c \<longleftrightarrow> (let
     ty = GET_FIELD (op_data c) INIT_CALLBACK_OP_OP;
     src = GET_FIELD (op_data c) INIT_WRITE_OP_SOURCE in
     (ty = INIT_OP_WRITE \<and> src = INIT_SRC_ZEROS \<longrightarrow> unat (param2 c) div 0x2000 mod 0x10000 \<noteq> 0xFFFF) \<and>
     (ty = INIT_OP_WRITE \<and> src = INIT_SRC_RUNTIME \<longrightarrow> unat (op_hi c) + unat (op_lo c) \<le> length (b_valid s)) \<and>
     (ty = INIT_OP_IF_MODE \<longrightarrow>
        (\<exists>e. mode_ok e \<and> tree_at (hmem (hw s)) (modes_tree_buf (fw_data s)) (op_hi c) (mode_code e))))"

lemma cmd_wr_returns:
  assumes inf: "inflate_bounded E" and c: "init_cmd_ok s c" "GET_FIELD (op_data c) INIT_CALLBACK_OP_OP = INIT_OP_WRITE"
    and rt: "length (b_valid s) \<le> RUNTIME_ARRAY_SIZE"
  shows "returns (init_scratch E (unzip_buf s)) s (qed_init_cmd_wr E p c can s)"
proof -
  let ?A = "init_scratch E (unzip_buf s)"
  let ?src = "GET_FIELD (op_data c) INIT_WRITE_OP_SOURCE"
  have arr: "returns ?A s (qed_init_cmd_array E p c must can s)" for must
    by (rule returns_mono [OF cmd_array_returns [OF inf]]) (simp add: init_scratch_def)
  have rtm: "returns ?A s (qed_init_rt E p a (op_hi c) (op_lo c) must s)" if "?src = INIT_SRC_RUNTIME" for a must
  proof -
    have l: "unat (op_hi c) + unat (op_lo c) \<le> length (b_valid s)" using c that by (simp add: init_cmd_ok_def Let_def)
    then have "unat (op_lo c) < 0xFFFF" using rt by (simp add: RUNTIME_ARRAY_SIZE_def)
    from init_rt_returns [OF this l, of 0 E p a must] show ?thesis
      by (auto simp: qed_init_rt_def intro: returns_mono)
  qed
  have fd: "returns ?A s (qed_init_fill_dmae E p a (param2 c) s)" if "?src = INIT_SRC_ZEROS" for a
  proof -
    let ?t = "wr_host (ie_zero_buffer E) (replicate (unat DMAE_MAX_RW_SIZE) 0) s"
    have "init_keep ?A s ?t" by (rule init_keep_wr_host) (simp add: init_scratch_def DMAE_MAX_RW_SIZE_def)
    moreover have "unat (param2 c) div 0x2000 mod 0x10000 \<noteq> 0xFFFF" using c that by (simp add: init_cmd_ok_def Let_def)
    ultimately show ?thesis unfolding qed_init_fill_dmae_def Let_def by (intro returns_trans [OF _ host2grc_returns])
  qed
  have il: "init_keep ?A s (upd_hw (qed_wr (ie_bus E) p a v) s)" for a v by (rule init_keep_upd) simp
  have fl: "init_keep ?A s (qed_init_fill E p a 0 n s)" for a n by (rule init_keep_mono [OF init_fill_keep]) simp
  show ?thesis unfolding qed_init_cmd_wr_def Let_def using arr rtm fd il fl by (auto intro: returns_SomeI)
qed

lemma hmem_poll [simp]: "hmem (snd (init_poll_loop B p a dl check n v h)) = hmem h"
  by (induction n arbitrary: v h) (simp_all add: split_beta Let_def)

lemma cmd_rd_keep: "init_keep A s (snd (qed_init_cmd_rd E p c s))"
  by (simp add: qed_init_cmd_rd_def Let_def split_beta init_keep_hw)

lemma cmd_cb_returns:
  assumes "unat (ie_page_size E) < 2 ^ 31"
  shows "returns A s (qed_init_cmd_cb E p c s)"
proof (cases "op_lo c = DMAE_READY_CB")
  case True
  have "unat (ie_page_size E div 2 div 4) < 0x10000000" using assms by (simp add: unat_div less_mult_imp_div_less)
  then have n: "unat (ie_page_size E div 2 div 4) div 0x2000 mod 0x10000 \<noteq> 0xFFFF"
    by (simp add: less_mult_imp_div_less)
  have "\<exists>rc h. qed_dmae_sanity (ie_bus E) (ie_notify E) (ie_page_size E) (ie_sanity_mem E) p (hw s) = Some (rc, h)"
  proof (cases "ie_sanity_mem E")
    case (Some m)
    obtain virt phys where m: "m = (virt, phys)" by fastforce
    have "\<exists>rc h. qed_dmae_host2host (ie_bus E) (ie_notify E) p a b (ie_page_size E div 2 div 4) None t = Some (rc, h)" for a b t
      using execute_returns [OF n] unfolding qed_dmae_host2host_def by (metis surj_pair)
    then obtain rc h where "qed_dmae_host2host (ie_bus E) (ie_notify E) p phys (phys + ucast (ie_page_size E div 2))
        (ie_page_size E div 2 div 4) None (sanity_zero (ie_bus E) (phys + ucast (ie_page_size E div 2))
          (unat (ie_page_size E div 2 div 4)) (sanity_fill (ie_bus E) virt phys (unat (ie_page_size E div 2 div 4)) (hw s))) =
        Some (rc, h)" by blast
    then show ?thesis unfolding qed_dmae_sanity_def Some m Let_def by simp
  qed (simp add: qed_dmae_sanity_def)
  then obtain rc h where h: "qed_dmae_sanity (ie_bus E) (ie_notify E) (ie_page_size E) (ie_sanity_mem E) p (hw s) =
    Some (rc, h)" by blast
  then show ?thesis using True hmem_sanity init_keep_hw
    by (fastforce simp: qed_init_cmd_cb_def lift_hw_def returns_def)
qed (simp add: qed_init_cmd_cb_def returns_SomeI)

lemma cmd_mode_returns:
  assumes "init_cmd_ok s c" "GET_FIELD (op_data c) INIT_CALLBACK_OP_OP = INIT_OP_IF_MODE"
  obtains skip where "qed_init_cmd_mode c modes s = Some skip" "unat skip \<le> 0xFFFF"
proof -
  obtain e where e: "mode_ok e" "tree_at (hmem (hw s)) (modes_tree_buf (fw_data s)) (op_hi c) (mode_code e)"
    using assms by (auto simp: init_cmd_ok_def Let_def INIT_OP_WRITE_def INIT_OP_IF_MODE_def)
  show thesis
    using that mode_match [OF e(2,1), of modes] get_field_le [of "op_data c" "0xFFFF" 16]
    by (auto simp: qed_init_cmd_mode_def INIT_IF_MODE_OP_CMD_OFFSET_def split: if_splits)
qed

lemma init_one_returns:
  assumes inf: "inflate_bounded E" "unat (ie_page_size E) < 2 ^ 31" and c: "init_cmd_ok s c"
    and rt: "length (b_valid s) \<le> RUNTIME_ARRAY_SIZE"
  shows "\<exists>rc skip b' s'. init_one E p phase phase_id modes c b s = Some (rc, skip, b', s') \<and> unat skip \<le> 0xFFFF \<and>
    (rc = RC_OK \<longrightarrow> init_keep (init_scratch E (unzip_buf s)) s s')"
proof -
  let ?A = "init_scratch E (unzip_buf s)"
  let ?ty = "GET_FIELD (op_data c) INIT_CALLBACK_OP_OP"
  have ph: "unat (qed_init_cmd_phase c phase phase_id) \<le> 0xFFFF"
    using get_field_le [of "op_data c" "0xFFFF" 16]
    by (simp add: qed_init_cmd_phase_def Let_def INIT_IF_PHASE_OP_CMD_OFFSET_def)
  have dl: "init_keep ?A s (upd_hw (udelay (ie_bus E) us) s)" for us by (rule init_keep_upd) simp
  consider "?ty = INIT_OP_WRITE" | "?ty = INIT_OP_IF_MODE" | "?ty = INIT_OP_CALLBACK" |
    "?ty \<noteq> INIT_OP_WRITE" "?ty \<noteq> INIT_OP_IF_MODE" "?ty \<noteq> INIT_OP_CALLBACK" by blast
  then show ?thesis
  proof cases
    case 1
    then show ?thesis using cmd_wr_returns [OF inf(1) c 1 rt, of p b]
      by (auto simp: init_one_def Let_def returns_def)
  next
    case 2
    then show ?thesis using cmd_mode_returns [OF c 2, of modes]
      by (auto simp: init_one_def Let_def INIT_OP_WRITE_def INIT_OP_READ_def INIT_OP_IF_MODE_def)
  next
    case 3
    then show ?thesis using cmd_cb_returns [OF inf(2), of ?A s p c]
      by (auto simp: init_one_def Let_def returns_def INIT_OP_WRITE_def INIT_OP_READ_def INIT_OP_IF_MODE_def
          INIT_OP_IF_PHASE_def INIT_OP_DELAY_def INIT_OP_CALLBACK_def)
  next
    case 4
    then show ?thesis using ph dl cmd_rd_keep by (auto simp: init_one_def Let_def)
  qed
qed

section \<open>The run\<close>

text \<open>A program: commands as above, and tables that do not overlap the two buffers.\<close>

definition init_program :: "'d init_env \<Rightarrow> u64 \<Rightarrow> 'd init_fn \<Rightarrow> bool" where
  "init_program E buf s \<longleftrightarrow> length (b_valid s) \<le> RUNTIME_ARRAY_SIZE \<and> init_ops_size (fw_data s) < 0x20000000 \<and>
     (\<forall>c < init_ops_size (fw_data s). (let a = init_ops (fw_data s) + ucast c * 8 in
        a \<notin> init_scratch E buf \<and> a + 4 \<notin> init_scratch E buf \<and> init_cmd_ok s (rd_init_op (hmem (hw s)) a))) \<and>
     (\<forall>j :: u16. (modes_tree_buf (fw_data s) + ucast j) AND NOT 3 \<notin> init_scratch E buf)"

lemma cmd_ok_keep:
  assumes "init_keep A s s'" "\<And>j :: u16. (modes_tree_buf (fw_data s) + ucast j) AND NOT 3 \<notin> A"
  shows "init_cmd_ok s' c = init_cmd_ok s c"
proof -
  have "rd_u8 (hmem (hw s')) (modes_tree_buf (fw_data s) + ucast j) = rd_u8 (hmem (hw s)) (modes_tree_buf (fw_data s) + ucast j)"
    for j :: u16 using assms by (simp add: rd_u8_def init_keep_def)
  then show ?thesis using assms(1) by (simp add: init_cmd_ok_def Let_def tree_at_def init_keep_def)
qed

lemma program_keep:
  assumes P: "init_program E buf s" and k: "init_keep (init_scratch E buf) s s'"
  shows "init_program E buf s'"
proof -
  have "init_cmd_ok s' c = init_cmd_ok s c" for c
    using P by (intro cmd_ok_keep [OF k]) (simp add: init_program_def)
  then show ?thesis using P k by (auto simp: init_program_def init_keep_def Let_def rd_init_op_def)
qed

lemma run_loop_returns:
  assumes inf: "inflate_bounded E" "unat (ie_page_size E) < 2 ^ 31"
  shows "init_program E (unzip_buf s) s \<Longrightarrow> unat cmd_num \<le> 0x20000000 + 0x10000 \<Longrightarrow>
    \<exists>rc s'. init_run_loop E p phase phase_id modes cmd_num b s = Some (rc, s')"
proof (induction "unat (init_ops_size (fw_data s)) - unat cmd_num" arbitrary: cmd_num b s rule: less_induct)
  case less
  show ?case
  proof (cases "cmd_num < init_ops_size (fw_data s)")
    case False
    then show ?thesis by (subst init_run_loop.simps) simp
  next
    case True
    let ?c = "rd_init_op (hmem (hw s)) (init_ops (fw_data s) + ucast cmd_num * 8)"
    have c: "init_cmd_ok s ?c" and rt: "length (b_valid s) \<le> RUNTIME_ARRAY_SIZE"
      and sz: "unat (init_ops_size (fw_data s)) < 0x20000000"
      using less.prems True by (auto simp: init_program_def Let_def word_less_nat_alt)
    obtain rc skip b' s' where one: "init_one E p phase phase_id modes ?c b s = Some (rc, skip, b', s')"
      "unat skip \<le> 0xFFFF" "rc = RC_OK \<longrightarrow> init_keep (init_scratch E (unzip_buf s)) s s'"
      using init_one_returns [OF inf c rt] by blast
    have lt: "unat cmd_num < unat (init_ops_size (fw_data s))" using True by (simp add: word_less_nat_alt)
    have u: "unat (cmd_num + skip + 1) = unat cmd_num + unat skip + 1"
      using lt sz one(2) by (simp add: unat_add_mod)
    show ?thesis
    proof (cases "rc = RC_OK")
      case False
      then show ?thesis using True one(1) by (subst init_run_loop.simps) (simp add: Let_def)
    next
      case ok: True
      then have k: "init_keep (init_scratch E (unzip_buf s)) s s'" using one(3) by simp
      then have eq: "unzip_buf s' = unzip_buf s" "fw_data s' = fw_data s" by (simp_all add: init_keep_def)
      have "\<exists>rc s''. init_run_loop E p phase phase_id modes (cmd_num + skip + 1) b' s' = Some (rc, s'')"
        using program_keep [OF less.prems(1) k] lt sz one(2) u eq by (intro less.hyps) simp_all
      then show ?thesis using True one(1) ok by (subst init_run_loop.simps) (simp add: Let_def)
    qed
  qed
qed

lemma run_returns:
  assumes inf: "inflate_bounded E" "unat (ie_page_size E) < 2 ^ 31"
    and P: "\<And>buf. ob = Some buf \<Longrightarrow> init_program E buf s"
  shows "\<exists>rc s'. qed_init_run E ob p phase phase_id modes s = Some (rc, s')"
proof (cases ob)
  case (Some buf)
  let ?t = "wr_host buf (replicate MAX_ZIPPED_SIZE 0) (s\<lparr>unzip_buf := buf\<rparr>)"
  have P': "init_program E buf (s\<lparr>unzip_buf := buf\<rparr>)"
    using P [OF Some] by (simp add: init_program_def init_cmd_ok_def)
  have "init_keep (init_scratch E buf) (s\<lparr>unzip_buf := buf\<rparr>) ?t"
    by (rule init_keep_wr_host) (simp add: init_scratch_def MAX_ZIPPED_SIZE_def)
  then have "init_program E (unzip_buf ?t) ?t" using program_keep [OF P'] by (simp add: wr_host_def)
  then obtain rc s' where "init_run_loop E p phase phase_id modes 0 (phase \<noteq> PHASE_ENGINE) ?t = Some (rc, s')"
    using run_loop_returns [OF inf, of ?t 0 p phase phase_id modes "phase \<noteq> PHASE_ENGINE"] by auto
  then show ?thesis using Some by (simp add: qed_init_run_def Let_def)
qed (simp add: qed_init_run_def)

end
