(* ===== verification/Qed_Init_Claims.thy ===== *)
theory Qed_Init_Claims
  imports Qed_Init_Run Qed_Hw_Device Qed_Interfaces
begin

unbundle bit_operations_syntax

text \<open>
  The properties of the init tool, with concrete instances on a small firmware file and the device of
  \<open>Qed_Hw_Device\<close>.
\<close>

section \<open>A firmware file\<close>

text \<open>
  Three commands at \<open>0x4000\<close>: skip one command unless mode 3 is off; write 7 to register
  \<open>0x10000\<close>; write four entries of the RT array from entry 2 on to \<open>0x11000\<close>, a wide register. The
  expression \<open>not mode 3\<close> is at \<open>0x5000\<close>.
\<close>

definition fw_mem :: "u64 \<Rightarrow> u32" where
  "fw_mem a = (if a = 0x4000 then 0x10002 else if a = 0x4004 then 0 else
     if a = 0x4008 then 0x800001 else if a = 0x400c then 7 else
     if a = 0x4010 then 0x880131 else if a = 0x4014 then 0x20004 else
     if a = 0x5000 then 0x0600 else 0)"

definition fw_env :: "dev init_env" where
  "fw_env = \<lparr>ie_bus = dev_bus, ie_notify = (\<lambda>_ h. h), ie_inflate = (\<lambda>bs n. (False, [])), ie_page_size = 0x1000,
     ie_sanity_mem = Some (0x700000, 0x300000), ie_zero_buffer = 0x20000\<rparr>"

definition fw_hw :: "dev qed_hwfn" where
  "fw_hw = dev_up\<lparr>hmem := fw_mem\<rparr>"

definition fw_fn :: "dev init_fn" where
  "fw_fn = \<lparr>hw = fw_hw, fw_data = \<lparr>fw_ver_info = 0, modes_tree_buf = 0x5000, init_ops = 0x4000, arr_data = 0x6000,
     fw_overlays = 0, fw_overlays_len = 0, init_ops_size = 3\<rparr>, init_val = 0, b_valid = [], unzip_buf = 0, iro_arr = 0\<rparr>"

definition fw_rt :: "dev init_fn" where
  "fw_rt = snd (qed_init_alloc True (Some 0x40000) fw_fn)"

lemma fw_alloc: "qed_init_alloc True (Some 0x40000) fw_fn = (RC_OK, fw_rt)"
  by (simp add: fw_rt_def qed_init_alloc_def Let_def fw_fn_def fw_hw_def dev_cdev_def)

lemma fw_rt_fields: "fw_data fw_rt = fw_data fw_fn" "init_val fw_rt = 0x40000"
  "b_valid fw_rt = replicate RUNTIME_ARRAY_SIZE False"
  by (simp_all add: fw_rt_def qed_init_alloc_def Let_def fw_fn_def fw_hw_def dev_cdev_def wr_host_def)

section \<open>Expressions over the modes\<close>

text \<open>
  C30. The modes test of the init program is exact: for the prefix form of an expression over the
  modes, \<open>qed_init_cmd_mode\<close> evaluates the expression (it terminates, reads no further than the form, and no mode
  beyond the 32 of the set), and it skips the given number of commands exactly when the expression is false.
\<close>

theorem init_mode_exact:
  assumes "mode_ok e" "tree_at (hmem (hw s)) (modes_tree_buf (fw_data s)) (op_hi c) (mode_code e)"
  shows "qed_init_cmd_mode c modes s =
    Some (if mode_val modes e then 0 else GET_FIELD (op_data c) INIT_IF_MODE_OP_CMD_OFFSET)"
  using mode_match [OF assms(2,1), of modes] by (simp add: qed_init_cmd_mode_def)

lemma fw_tree: "tree_at fw_mem 0x5000 0 (mode_code (MNot (Mode 3)))"
  by (simp add: tree_at_Cons rd_u8_def fw_mem_def INIT_MODE_OP_NOT_def MAX_INIT_MODE_OPS_def)

theorem init_mode_exact_witness:
  "qed_init_cmd_mode \<lparr>op_data = 0x10002, param2 = 0\<rparr> 8 fw_fn =
    Some (if mode_val 8 (MNot (Mode 3)) then 0 else GET_FIELD (0x10002 :: u32) INIT_IF_MODE_OP_CMD_OFFSET)"
  using init_mode_exact [of "MNot (Mode 3)" fw_fn "\<lparr>op_data = 0x10002, param2 = 0\<rparr>" 8] fw_tree
  by (simp add: fw_fn_def fw_hw_def op_hi_def)

section \<open>The RT array\<close>

text \<open>
  C31. The RT array is a bounded store. From \<open>qed_init_alloc\<close> on, every sequence of stores of single values
  and of aggregates, at whatever indices, stays inside the arrays and leaves exactly the map that the sequence
  describes: an index holds the last value stored there, a value beyond the end is dropped, and an
  aggregate is dropped as a whole when its index plus its size in bytes passes the end.
\<close>

lemma rt_alloc_ok:
  assumes "is_pf (cdev (hw s0))" "qed_init_alloc True (Some a) s0 = (rc, s)"
  shows "rt_wf s" "rt_map s = Map.empty"
  using assms by (auto simp: qed_init_alloc_def Let_def wr_host_def rt_wf_def rt_map_def fun_eq_iff)

lemma map_store_cong:
  assumes "store_ok R st" "\<And>x. x \<notin> R \<Longrightarrow> m' x = m x"
  shows "map_store m' st M = map_store m st M"
proof (cases st)
  case (RtAgg off p sz)
  have "m' (p + of_nat (k - unat off) * 4) = m (p + of_nat (k - unat off) * 4)"
    if "unat off \<le> k" "k < unat off + unat sz div 4" for k
  proof (rule assms(2))
    have "p + of_nat (k - unat off) * 4 \<in> block 4 p (unat sz div 4)"
      unfolding block_def using that by (intro image_eqI [of _ _ "k - unat off"]) auto
    then show "p + of_nat (k - unat off) * 4 \<notin> R" using assms(1) RtAgg by auto
  qed
  then show ?thesis using RtAgg by (simp add: fun_eq_iff)
qed simp

lemma run_stores:
  assumes "\<And>x. x \<notin> rt_block s \<Longrightarrow> hmem (hw s) x = m x"
  shows "rt_wf s \<Longrightarrow> list_all (store_ok (rt_block s)) ops \<Longrightarrow>
    \<exists>s'. run_opt do_store ops s = Some s' \<and> rt_wf s' \<and> rt_map s' = fold (map_store m) ops (rt_map s)"
  using assms
proof (induction ops arbitrary: s)
  case (Cons st ops)
  obtain s1 where s1: "do_store st s = Some s1" "rt_wf s1" "rt_frame s s1"
    "rt_map s1 = map_store (hmem (hw s)) st (rt_map s)"
    using do_store_ok [OF Cons.prems(1), of st] Cons.prems(2) by auto
  have blk: "rt_block s1 = rt_block s" using s1(3) by (simp add: rt_frame_def rt_block_def)
  have "hmem (hw s1) x = m x" if "x \<notin> rt_block s1" for x
    using that s1(3) Cons.prems(3) unfolding blk by (simp add: rt_frame_def)
  then have "\<exists>s'. run_opt do_store ops s1 = Some s' \<and> rt_wf s' \<and> rt_map s' = fold (map_store m) ops (rt_map s1)"
    using Cons.prems(2) blk s1(2) by (intro Cons.IH) simp_all
  moreover have "map_store (hmem (hw s)) st (rt_map s) = map_store m st (rt_map s)"
    using Cons.prems(2,3) by (intro map_store_cong [of "rt_block s"]) simp_all
  ultimately show ?case using s1 by simp
qed simp

theorem rt_stores_exact:
  assumes "is_pf (cdev (hw s0))" "qed_init_alloc True (Some a) s0 = (rc, s)" "list_all (store_ok (rt_block s)) ops"
  shows "\<exists>s'. run_opt do_store ops s = Some s' \<and> length (b_valid s') = RUNTIME_ARRAY_SIZE \<and>
    rt_map s' = fold (map_store (hmem (hw s))) ops Map.empty"
  using run_stores [OF refl rt_alloc_ok(1) [OF assms(1,2)] assms(3)] rt_alloc_ok(2) [OF assms(1,2)]
  by (simp add: rt_wf_def)

theorem rt_stores_exact_witness:
  "\<exists>s'. run_opt do_store [RtReg 34983 5, RtReg 34984 6, RtAgg 2 0x4000 16, RtReg 3 9] fw_rt = Some s' \<and>
    length (b_valid s') = RUNTIME_ARRAY_SIZE \<and>
    rt_map s' = fold (map_store (hmem (hw fw_rt))) [RtReg 34983 5, RtReg 34984 6, RtAgg 2 0x4000 16, RtReg 3 9] Map.empty"
proof (rule rt_stores_exact [OF _ fw_alloc])
  have "x \<notin> rt_block fw_rt" if "x \<in> block 4 0x4000 4" for x
    using that block4_range [of x "0x4000" 4] block4_range [of x "0x40000" RUNTIME_ARRAY_SIZE]
    by (auto simp: rt_block_def fw_rt_fields RUNTIME_ARRAY_SIZE_def)
  then show "list_all (store_ok (rt_block fw_rt)) [RtReg 34983 5, RtReg 34984 6, RtAgg 2 0x4000 16, RtReg 3 9]"
    by auto
qed (simp add: fw_fn_def fw_hw_def dev_cdev_def)

text \<open>
  C29. The init tool writes the RT array to the chip, through the DMA engine and the windows: the stretch
  of a command that needs DMA succeeds on a device that behaves as documented, every entry stored in the stretch
  is at its place in the memory of the chip, everything else there keeps its content, and the
  entries of the stretch, and no others, are taken from the array.
\<close>

theorem init_rt_flushes:
  assumes "dmae_env (ie_bus E) G V W (hw s)" "dmae_ok V W (hw s)" "dmae_up (hw s)" "p < 12"
    and "0 < unat d" "unat d < 0x800000" "unat off + unat sz \<le> length (b_valid s)" "length (b_valid s) \<le> RUNTIME_ARRAY_SIZE"
  shows "\<exists>s'. qed_init_rt E p (push_bit 2 d) off sz True s = Some (RC_OK, s') \<and>
    (\<forall>k < unat sz. gm V W (hw s') (d + of_nat k) =
       (case rt_map s (unat off + k) of Some v \<Rightarrow> v | None \<Rightarrow> gm V W (hw s) (d + of_nat k))) \<and>
    (\<forall>x. x \<notin> block 1 d (unat sz) \<longrightarrow> gm V W (hw s') x = gm V W (hw s) x) \<and>
    rt_map s' = (\<lambda>k. if unat off \<le> k \<and> k < unat off + unat sz then None else rt_map s k)"
proof -
  let ?v = "\<lambda>k. b_valid s ! (unat off + k)" and ?f = "\<lambda>k. hmem (hw s) (rt_addr s (unat off + k))"
  have sz: "unat sz < 0xFFFF" "unat sz \<le> 2 ^ 32" using assms(7,8) by (simp_all add: RUNTIME_ARRAY_SIZE_def)
  have "rt_part V W s (unat off) d 0 s" using assms(2) by (simp add: rt_part_def)
  then obtain s' where s': "qed_init_rt E p (push_bit 2 d) off sz True s = Some (RC_OK, s')"
    "rt_part V W s (unat off) d (unat sz) s'"
    using init_rt_loop_dmae [OF assms(1,3-7) sz(1) refl, of 0 s] by (auto simp: qed_init_rt_def)
  then have gm: "gm V W (hw s') = rt_flush ?v ?f d (unat sz) (gm V W (hw s))"
    and b: "b_valid s' = rt_cleared (b_valid s) (unat off) (unat sz)" and m: "hmem (hw s') = hmem (hw s)" "init_val s' = init_val s"
    by (simp_all add: rt_part_def)
  have "rt_map s' = (\<lambda>k. if unat off \<le> k \<and> k < unat off + unat sz then None else rt_map s k)"
    using assms(7) by (auto simp: fun_eq_iff rt_map_def b m nth_rt_cleared rt_addr_def)
  moreover have "\<forall>k < unat sz. gm V W (hw s') (d + of_nat k) =
       (case rt_map s (unat off + k) of Some v \<Rightarrow> v | None \<Rightarrow> gm V W (hw s) (d + of_nat k))"
    using assms(7) by (simp add: gm rt_flush_nth [OF sz(2)] rt_map_def)
  ultimately show ?thesis using s'(1) by (simp add: gm rt_flush_outside)
qed

lemma hmem_upd_ok:
  "dmae_ok V W (h\<lparr>hmem := m\<rparr>) = dmae_ok V W h" "dmae_up (h\<lparr>hmem := m\<rparr>) = dmae_up h"
  "dmae_env B G V W (h\<lparr>hmem := m\<rparr>) = dmae_env B G V W h"
  by (simp_all add: dmae_ok_def dmae_up_def dmae_env_def ptt_ok_def pool_of_def ptt_at_def pm_def)

text \<open>The array with one value stored.\<close>

definition fw_rt1 :: "dev init_fn" where
  "fw_rt1 = the (qed_init_store_rt_reg 3 9 fw_rt)"

lemma fw_rt1_hw: "\<exists>m. hw fw_rt1 = dev_up\<lparr>hmem := m\<rparr>" "length (b_valid fw_rt1) = RUNTIME_ARRAY_SIZE"
  by (auto simp: fw_rt1_def qed_init_store_rt_reg_def rt_put_def fw_rt_fields RUNTIME_ARRAY_SIZE_def wr_host_def)
    (auto simp: fw_rt_def qed_init_alloc_def Let_def fw_fn_def fw_hw_def dev_cdev_def wr_host_def)

theorem init_rt_flushes_witness:
  "\<exists>s'. qed_init_rt fw_env 5 (push_bit 2 0x4400) 2 4 True fw_rt1 = Some (RC_OK, s') \<and>
    (\<forall>k < unat (4 :: u16). gm dev_view dev_dmae (hw s') (0x4400 + of_nat k) =
       (case rt_map fw_rt1 (unat (2 :: u16) + k) of Some v \<Rightarrow> v | None \<Rightarrow> gm dev_view dev_dmae (hw fw_rt1) (0x4400 + of_nat k))) \<and>
    (\<forall>x. x \<notin> block 1 0x4400 (unat (4 :: u16)) \<longrightarrow> gm dev_view dev_dmae (hw s') x = gm dev_view dev_dmae (hw fw_rt1) x) \<and>
    rt_map s' = (\<lambda>k. if unat (2 :: u16) \<le> k \<and> k < unat (2 :: u16) + unat (4 :: u16) then None else rt_map fw_rt1 k)"
proof -
  have ok: "dmae_env (ie_bus fw_env) dev_grc dev_view dev_dmae (hw fw_rt1)" "dmae_ok dev_view dev_dmae (hw fw_rt1)"
    "dmae_up (hw fw_rt1)"
    using fw_rt1_hw(1) dev_dmae_ok by (auto simp: hmem_upd_ok fw_env_def)
  show ?thesis
    by (rule init_rt_flushes [OF ok]) (simp_all add: fw_rt1_hw(2), simp_all add: RUNTIME_ARRAY_SIZE_def)
qed

section \<open>The run\<close>

text \<open>
  C28. A run of the init program comes to an end, whatever the device answers: polls and DMA
  requests are bounded, the interpreter moves forward with every command, and no table or array is left. This
  holds for every firmware whose expressions are well formed, whose stretches lie in the RT array and whose
  fills are within the reach of the DMA engine.
\<close>

theorem init_run_returns:
  assumes "inflate_bounded E" "unat (ie_page_size E) < 2 ^ 31" "init_program E buf s"
  shows "\<exists>rc s'. qed_init_run E (Some buf) p phase phase_id modes s = Some (rc, s')"
  by (rule run_returns [OF assms(1,2)]) (use assms(3) in simp)

lemma fw_apart:
  assumes "unat (x :: u64) < 0x20000"
  shows "x \<notin> init_scratch fw_env 0x30000"
  using assms block4_range [of x "0x20000" "0x2000"] block4_range [of x "0x30000" "0x2000"]
  by (auto simp: init_scratch_def fw_env_def)

lemma fw_tree_apart: "(0x5000 + ucast (j :: u16)) AND NOT 3 \<notin> init_scratch fw_env 0x30000"
proof (rule fw_apart)
  let ?a = "0x5000 + ucast j :: u64"
  have "unat ?a = 0x5000 + unat j" using unsigned_less [of j, where 'a = nat] by (simp add: unat_add_mod unat_ucast_mod)
  then have "unat ?a < 0x20000" using unsigned_less [of j, where 'a = nat] by simp
  moreover have "unat (?a AND NOT 3) \<le> unat ?a"
    using word_and_le2 [of ?a "NOT 3"] by (simp add: word_le_nat_alt)
  ultimately show "unat (?a AND NOT 3) < 0x20000" by linarith
qed

text \<open>The file on a function whose RT array has been allocated outside it.\<close>

definition fw_run :: "dev init_fn" where
  "fw_run = fw_fn\<lparr>init_val := 0x40000, b_valid := replicate RUNTIME_ARRAY_SIZE False\<rparr>"

lemma fw_program: "init_program fw_env 0x30000 fw_run"
proof -
  have mem: "hmem (hw fw_run) = fw_mem" "fw_data fw_run = fw_data fw_fn" "length (b_valid fw_run) = RUNTIME_ARRAY_SIZE"
    by (simp_all add: fw_run_def fw_fn_def fw_hw_def)
  have cmd: "init_cmd_ok fw_run (rd_init_op fw_mem (0x4000 + ucast c * 8))" if "c = 0 \<or> c = 1 \<or> c = 2" for c :: u32
    using that fw_tree
    by (auto simp: init_cmd_ok_def Let_def rd_init_op_def fw_mem_def GET_FIELD_def mem op_hi_def op_lo_def RUNTIME_ARRAY_SIZE_def
        INIT_CALLBACK_OP_OP_def INIT_WRITE_OP_SOURCE_def INIT_OP_WRITE_def INIT_OP_IF_MODE_def INIT_SRC_ZEROS_def
        INIT_SRC_RUNTIME_def fw_fn_def intro!: exI [of _ "MNot (Mode 3)"])
  have three: "c = 0 \<or> c = 1 \<or> c = 2" if "c < 3" for c :: u32
  proof -
    have "unat c < 3" using that by (simp add: word_less_nat_alt)
    then have "unat c = 0 \<or> unat c = 1 \<or> unat c = 2" by auto
    then show ?thesis by (simp add: word_unat_eq_iff)
  qed
  have "0x4000 + ucast c * 8 \<notin> init_scratch fw_env 0x30000 \<and> 0x4000 + ucast c * 8 + 4 \<notin> init_scratch fw_env 0x30000"
    if "c < 3" for c :: u32
    using three [OF that] fw_apart by auto
  then show ?thesis
    using cmd three fw_tree_apart mem by (auto simp: init_program_def Let_def fw_fn_def RUNTIME_ARRAY_SIZE_def)
qed

theorem init_run_returns_witness:
  "\<exists>rc s'. qed_init_run fw_env (Some 0x30000) 5 2 0 8 fw_run = Some (rc, s')"
  by (rule init_run_returns [OF _ _ fw_program]) (simp_all add: inflate_bounded_def fw_env_def)

end
