(* ===== verification/Qed_Mcp.thy ===== *)
theory Qed_Mcp
  imports Qed_Dmae
begin

unbundle bit_operations_syntax

text \<open>
  The driver's mailbox to the management firmware (MFW): \<open>qed_mcp.c\<close>. The mailbox is a block of the
  scratch pad of the management processor (MCP). The driver writes a parameter, 32 bytes of data and a header
  (command code and a 16 bit sequence number), and polls a second header until the firmware repeats the
  sequence number there. There is one mailbox per function and many callers: a list holds the commands that
  wait for an answer, and a caller that finds the mailbox occupied polls on behalf of the one that occupies it.

  Objects the code reaches through pointers have addresses here: the elements of the list
  (\<open>cmd_elems\<close>), allocated and freed, and the parameters of a command (\<open>mb_objs\<close>), which live on the stack of
  the caller. Sections under \<open>cmd_lock\<close> are functions of their own, since they are what other callers
  see as one step.
\<close>

section \<open>Constants\<close>

text \<open>
  The addresses of the registers \<open>MCP_REG_*\<close> are those of \<open>qed_reg_addr.h\<close>: \<open>MCP_REG_CPU_MODE\<close> in
  line 183825, \<open>MCP_REG_CPU_STATE\<close> in 183883, \<open>MCP_REG_CPU_PROGRAM_COUNTER\<close> in 184011,
  \<open>MCP_REG_CACHE_PAGING_ENABLE\<close> in 184745 and \<open>MCP_REG_SCRATCH\<close> in 186647. The field \<open>ENABLE\<close> is bit 0
  of its register; \<open>qed_mcp.c\<close> gives it the mask.
\<close>

definition GRCBASE_MCP :: u32 where "GRCBASE_MCP = 0xe00000"
definition QED_MCP_RESP_ITER_US :: nat where "QED_MCP_RESP_ITER_US = 10"
definition QED_DRV_MB_MAX_RETRIES :: nat where "QED_DRV_MB_MAX_RETRIES = 500 * 1000"
definition QED_MCP_RESET_RETRIES :: nat where "QED_MCP_RESET_RETRIES = 50 * 1000"
definition QED_EMUL_MCP_RESP_ITER_US :: nat where
  "QED_EMUL_MCP_RESP_ITER_US = QED_MCP_RESP_ITER_US * 100"
definition QED_EMUL_DRV_MB_MAX_RETRIES :: nat where
  "QED_EMUL_DRV_MB_MAX_RETRIES = (QED_DRV_MB_MAX_RETRIES div 100) * 6"
definition QED_EMUL_MCP_RESET_RETRIES :: nat where
  "QED_EMUL_MCP_RESET_RETRIES = (QED_MCP_RESET_RETRIES div 100) * 6"
definition QED_MCP_SHMEM_RDY_MAX_RETRIES :: nat where "QED_MCP_SHMEM_RDY_MAX_RETRIES = 20"
definition QED_MCP_SHMEM_RDY_ITER_MS :: nat where "QED_MCP_SHMEM_RDY_ITER_MS = 50"

definition MCP_REG_SCRATCH :: u32 where "MCP_REG_SCRATCH = 0xe20000"
definition MCP_REG_CACHE_PAGING_ENABLE :: u32 where "MCP_REG_CACHE_PAGING_ENABLE = 0xe06304"
definition MCP_REG_CACHE_PAGING_ENABLE_ENABLE :: "nat \<times> nat" where
  "MCP_REG_CACHE_PAGING_ENABLE_ENABLE = (1, 0)"
definition MCP_REG_CPU_MODE :: u32 where "MCP_REG_CPU_MODE = 0xe05000"
definition MCP_REG_CPU_STATE :: u32 where "MCP_REG_CPU_STATE = 0xe05004"
definition MCP_REG_CPU_PROGRAM_COUNTER :: u32 where "MCP_REG_CPU_PROGRAM_COUNTER = 0xe0501c"
definition MISCS_REG_GENERIC_HW_0 :: u32 where "MISCS_REG_GENERIC_HW_0 = 0x0096c4"
definition MISCS_REG_GENERIC_POR_0 :: u32 where "MISCS_REG_GENERIC_POR_0 = 0x0096d4"
definition MISC_REG_SHARED_MEM_ADDR :: u32 where "MISC_REG_SHARED_MEM_ADDR = 0x008c20"
definition PXP_PF_ME_OPAQUE_ADDR :: u32 where "PXP_PF_ME_OPAQUE_ADDR = 0x1f8"

definition PUBLIC_DRV_MB :: u32 where "PUBLIC_DRV_MB = 0"
definition PUBLIC_MFW_MB :: u32 where "PUBLIC_MFW_MB = 1"
definition PUBLIC_PORT :: u32 where "PUBLIC_PORT = 4"

definition DRV_MSG_SEQ_NUMBER_MASK :: u32 where "DRV_MSG_SEQ_NUMBER_MASK = 0x0000ffff"
definition DRV_PULSE_SEQ_MASK :: u32 where "DRV_PULSE_SEQ_MASK = 0x00007fff"
definition FW_MSG_SEQ_NUMBER_MASK :: u32 where "FW_MSG_SEQ_NUMBER_MASK = 0x0000ffff"
definition FW_MSG_CODE_MASK :: u32 where "FW_MSG_CODE_MASK = 0xffff0000"

definition DRV_MSG_CODE :: "u32 \<Rightarrow> u32" where "DRV_MSG_CODE c = push_bit 16 c"
definition DRV_MSG_CODE_MCP_RESET :: u32 where "DRV_MSG_CODE_MCP_RESET = DRV_MSG_CODE 0x0009"
definition DRV_MSG_CODE_RESOURCE_CMD :: u32 where "DRV_MSG_CODE_RESOURCE_CMD = DRV_MSG_CODE 0x0023"
definition DRV_MSG_CODE_MDUMP_CMD :: u32 where "DRV_MSG_CODE_MDUMP_CMD = DRV_MSG_CODE 0x0025"
definition DRV_MSG_CODE_GET_MFW_FEATURE_SUPPORT :: u32 where
  "DRV_MSG_CODE_GET_MFW_FEATURE_SUPPORT = DRV_MSG_CODE 0x0031"
definition DRV_MSG_CODE_GET_ENGINE_CONFIG :: u32 where "DRV_MSG_CODE_GET_ENGINE_CONFIG = DRV_MSG_CODE 0x0037"
definition DRV_MSG_CODE_LOAD_REQ :: u32 where "DRV_MSG_CODE_LOAD_REQ = DRV_MSG_CODE 0x1000"
definition DRV_MSG_CODE_UNLOAD_REQ :: u32 where "DRV_MSG_CODE_UNLOAD_REQ = DRV_MSG_CODE 0x2000"
definition DRV_MSG_CODE_GET_PPFID_BITMAP :: u32 where "DRV_MSG_CODE_GET_PPFID_BITMAP = DRV_MSG_CODE 0x4300"
definition FW_MSG_CODE_DRV_LOAD_ENGINE :: u32 where "FW_MSG_CODE_DRV_LOAD_ENGINE = DRV_MSG_CODE 0x1010"
definition FW_MSG_CODE_DRV_LOAD_PORT :: u32 where "FW_MSG_CODE_DRV_LOAD_PORT = DRV_MSG_CODE 0x1011"
definition FW_MSG_CODE_DRV_LOAD_FUNCTION :: u32 where "FW_MSG_CODE_DRV_LOAD_FUNCTION = DRV_MSG_CODE 0x1012"
definition FW_MSG_CODE_DRV_LOAD_REFUSED_HSI_1 :: u32 where
  "FW_MSG_CODE_DRV_LOAD_REFUSED_HSI_1 = DRV_MSG_CODE 0x1021"

text \<open>
  Offsets in \<open>struct public_drv_mb\<close> and the size of its last member, \<open>union drv_union_data\<close>: eight
  dwords, which is the largest of the members the union has.
\<close>

definition drv_mb_header_off :: u32 where "drv_mb_header_off = 0"
definition drv_mb_param_off :: u32 where "drv_mb_param_off = 4"
definition fw_mb_header_off :: u32 where "fw_mb_header_off = 8"
definition fw_mb_param_off :: u32 where "fw_mb_param_off = 12"
definition drv_pulse_mb_off :: u32 where "drv_pulse_mb_off = 16"
definition union_data_off :: u32 where "union_data_off = 24"
definition union_data_size :: nat where "union_data_size = 32"

text \<open>The address of a section of the public area, from its descriptor (offset and size in dwords).\<close>

definition SECTION_OFFSET :: "u32 \<Rightarrow> u32" where
  "SECTION_OFFSET offsize = push_bit 2 (drop_bit 0 (offsize AND 0x0000ffff))"

definition QED_SECTION_SIZE :: "u32 \<Rightarrow> u32" where
  "QED_SECTION_SIZE offsize = push_bit 2 (drop_bit 16 (offsize AND 0xffff0000))"

definition SECTION_ADDR :: "u32 \<Rightarrow> u32 \<Rightarrow> u32" where
  "SECTION_ADDR offsize idx = MCP_REG_SCRATCH + SECTION_OFFSET offsize + QED_SECTION_SIZE offsize * idx"

definition SECTION_OFFSIZE_ADDR :: "u32 \<Rightarrow> u32 \<Rightarrow> u32" where
  "SECTION_OFFSIZE_ADDR pub_base sec = pub_base + (4 + 4 * sec)"

text \<open>
  The number of dwords that hold one byte per message. The argument is a \<open>u16\<close>, promoted to \<open>int\<close>: no
  messages, no dwords.
\<close>

definition MFW_DRV_MSG_MAX_DWORDS :: "u16 \<Rightarrow> nat" where
  "MFW_DRV_MSG_MAX_DWORDS msgs = nat ((int (unat msgs) - 1) div 4 + 1)"

section \<open>State\<close>

text \<open>The parameters of a command, with the answer; pointers are host addresses, \<open>0\<close> for \<open>NULL\<close>.\<close>

record qed_mcp_mb_params =
  mb_cmd :: u32
  mb_param :: u32
  p_data_src :: u64
  p_data_dst :: u64
  data_src_size :: u8
  data_dst_size :: u8
  mcp_resp :: u32
  mcp_param :: u32
  mb_flags :: u32

definition QED_MB_FLAG_CAN_SLEEP :: u32 where "QED_MB_FLAG_CAN_SLEEP = 1"
definition QED_MB_FLAG_AVOID_BLOCK :: u32 where "QED_MB_FLAG_AVOID_BLOCK = 2"

definition QED_MB_FLAGS_IS_SET :: "qed_mcp_mb_params \<Rightarrow> u32 \<Rightarrow> bool" where
  "QED_MB_FLAGS_IS_SET params flag \<longleftrightarrow> mb_flags params AND flag \<noteq> 0"

record qed_mcp_cmd_elem =
  p_mb_params :: nat
  expected_seq_num :: u16
  b_is_completed :: bool

text \<open>
  \<open>struct qed_mcp_info\<close>, up to what describes the link and the function. The list holds addresses of
  elements. The two copies of the messages of the firmware are arrays of dwords.
\<close>

record qed_mcp_info =
  b_mfw_running :: bool
  cmd_list :: "nat list"
  b_block_cmd :: bool
  b_halted :: bool
  recovery_mode :: bool
  public_base :: u32
  drv_mb_addr :: u32
  mfw_mb_addr :: u32
  port_addr :: u32
  port_size :: u32
  drv_mb_seq :: u16
  drv_pulse_seq :: u16
  mfw_mb_cur :: "u32 list option"
  mfw_mb_shadow :: "u32 list option"
  mfw_mb_length :: u16
  mcp_hist :: u32
  mcp_handling_status :: u64

definition mcp_info_zero :: qed_mcp_info where
  "mcp_info_zero = \<lparr>b_mfw_running = False, cmd_list = [], b_block_cmd = False, b_halted = False,
     recovery_mode = False, public_base = 0, drv_mb_addr = 0, mfw_mb_addr = 0, port_addr = 0, port_size = 0,
     drv_mb_seq = 0, drv_pulse_seq = 0, mfw_mb_cur = None, mfw_mb_shadow = None, mfw_mb_length = 0,
     mcp_hist = 0, mcp_handling_status = 0\<rparr>"

text \<open>
  A hardware function with its mailbox. \<open>loaded\<close> and \<open>loaded_port\<close> are the counters of the module that stand
  in for a firmware on an emulator, \<open>is_cmt\<close> says that the device has two hardware functions.
\<close>

record 'd mcp_fn =
  mhw :: "'d qed_hwfn"
  mcp_info :: "qed_mcp_info option"
  cmd_elems :: "nat \<rightharpoonup> qed_mcp_cmd_elem"
  mb_objs :: "nat \<rightharpoonup> qed_mcp_mb_params"
  is_cmt :: bool
  loaded :: int
  loaded_port :: "int list"

text \<open>
  What lies outside: the device, and the messages that \<open>qed_hw_err_notify\<close> sends to the firmware, which are
  further commands. A call brings its stack frame, of which the code takes the address of a local
  \<open>union drv_union_data\<close>, and what \<open>kzalloc\<close> will return for the element.
\<close>

record 'd mcp_env =
  me_bus :: "'d bus"
  me_notify :: "nat \<Rightarrow> 'd mcp_fn \<Rightarrow> 'd mcp_fn"

record mb_frame =
  fr_union :: u64
  fr_elem :: "nat option"

definition mcp_of :: "'d mcp_fn \<Rightarrow> qed_mcp_info" where
  "mcp_of s = the (mcp_info s)"

definition mcp_upd :: "(qed_mcp_info \<Rightarrow> qed_mcp_info) \<Rightarrow> 'd mcp_fn \<Rightarrow> 'd mcp_fn" where
  "mcp_upd f s = s\<lparr>mcp_info := Some (f (mcp_of s))\<rparr>"

definition mcp_rd :: "'d mcp_env \<Rightarrow> nat \<Rightarrow> u32 \<Rightarrow> 'd mcp_fn \<Rightarrow> u32 \<times> 'd mcp_fn" where
  "mcp_rd E p_ptt a s = (case qed_rd (me_bus E) p_ptt a (mhw s) of (v, h) \<Rightarrow> (v, s\<lparr>mhw := h\<rparr>))"

definition mcp_wr :: "'d mcp_env \<Rightarrow> nat \<Rightarrow> u32 \<Rightarrow> u32 \<Rightarrow> 'd mcp_fn \<Rightarrow> 'd mcp_fn" where
  "mcp_wr E p_ptt a v s = s\<lparr>mhw := qed_wr (me_bus E) p_ptt a v (mhw s)\<rparr>"

definition mcp_udelay :: "'d mcp_env \<Rightarrow> nat \<Rightarrow> 'd mcp_fn \<Rightarrow> 'd mcp_fn" where
  "mcp_udelay E us s = s\<lparr>mhw := udelay (me_bus E) us (mhw s)\<rparr>"

definition mcp_msleep :: "'d mcp_env \<Rightarrow> nat \<Rightarrow> 'd mcp_fn \<Rightarrow> 'd mcp_fn" where
  "mcp_msleep E ms s = mcp_udelay E (1000 * ms) s"

definition DRV_MB_WR :: "'d mcp_env \<Rightarrow> nat \<Rightarrow> u32 \<Rightarrow> u32 \<Rightarrow> 'd mcp_fn \<Rightarrow> 'd mcp_fn" where
  "DRV_MB_WR E p_ptt off v s = mcp_wr E p_ptt (drv_mb_addr (mcp_of s) + off) v s"

definition DRV_MB_RD :: "'d mcp_env \<Rightarrow> nat \<Rightarrow> u32 \<Rightarrow> 'd mcp_fn \<Rightarrow> u32 \<times> 'd mcp_fn" where
  "DRV_MB_RD E p_ptt off s = mcp_rd E p_ptt (drv_mb_addr (mcp_of s) + off) s"

definition MCP_PF_ID :: "'d qed_hwfn \<Rightarrow> u32" where
  "MCP_PF_ID h = (if is_bb (cdev h) then ucast (rel_pf_id h) OR push_bit 3 (ucast (abs_pf_id h) AND 1)
     else ucast (rel_pf_id h))"

section \<open>Finding the mailbox\<close>

definition qed_mcp_is_init :: "'d mcp_fn \<Rightarrow> bool" where
  "qed_mcp_is_init s \<longleftrightarrow> mcp_info s \<noteq> None \<and> b_mfw_running (mcp_of s)"

definition qed_mcp_cmd_port_init :: "'d mcp_env \<Rightarrow> nat \<Rightarrow> 'd mcp_fn \<Rightarrow> 'd mcp_fn" where
  "qed_mcp_cmd_port_init E p_ptt s = (let
     addr = SECTION_OFFSIZE_ADDR (public_base (mcp_of s)) PUBLIC_PORT;
     (mfw_mb_offsize, s) = mcp_rd E p_ptt addr s
     in mcp_upd (\<lambda>m. m\<lparr>port_addr := SECTION_ADDR mfw_mb_offsize (of_nat (MFW_PORT (mhw s))),
          port_size := QED_SECTION_SIZE mfw_mb_offsize\<rparr>) s)"

text \<open>
  The wait for the firmware to fill in the number of its messages: \<open>while (!len && --cnt)\<close>. The result
  says whether \<open>cnt\<close> is still positive at the end.
\<close>

primrec shmem_wait :: "'d mcp_env \<Rightarrow> nat \<Rightarrow> nat \<Rightarrow> 'd mcp_fn \<Rightarrow> bool \<times> 'd mcp_fn" where
  "shmem_wait E p_ptt 0 s = (False, s)"
| "shmem_wait E p_ptt (Suc cnt) s =
     (if mfw_mb_length (mcp_of s) \<noteq> 0 then (True, s)
      else if cnt = 0 then (False, s)
      else (let s = mcp_msleep E QED_MCP_SHMEM_RDY_ITER_MS s;
                (v, s) = mcp_rd E p_ptt (mfw_mb_addr (mcp_of s) + 0) s
            in shmem_wait E p_ptt cnt (mcp_upd (\<lambda>m. m\<lparr>mfw_mb_length := ucast v\<rparr>) s)))"

definition qed_load_mcp_offsets :: "'d mcp_env \<Rightarrow> nat \<Rightarrow> 'd mcp_fn \<Rightarrow> rc \<times> 'd mcp_fn" where
  "qed_load_mcp_offsets E p_ptt s = (let
     mcp_pf_id = MCP_PF_ID (mhw s);
     (val, s) = mcp_rd E p_ptt MCP_REG_CACHE_PAGING_ENABLE s;
     (v, s) = mcp_rd E p_ptt MISCS_REG_GENERIC_HW_0 s;
     recov = (v AND 0x80000000 \<noteq> 0);
     s = mcp_upd (\<lambda>m. m\<lparr>recovery_mode := recov,
           b_mfw_running := GET_FIELD val MCP_REG_CACHE_PAGING_ENABLE_ENABLE \<noteq> 0 \<or> recov\<rparr>) s
     in if \<not> b_mfw_running (mcp_of s) then (RC_ERR EINVAL, s)
     else let
       (v, s) = mcp_rd E p_ptt MISC_REG_SHARED_MEM_ADDR s;
       s = mcp_upd (\<lambda>m. m\<lparr>public_base := v\<rparr>) s
     in if public_base (mcp_of s) = 0 then (RC_ERR EINVAL, s)
     else let
       s = mcp_upd (\<lambda>m. m\<lparr>public_base := public_base m OR GRCBASE_MCP\<rparr>) s;
       (mfw_mb_offsize, s) = mcp_rd E p_ptt (SECTION_OFFSIZE_ADDR (public_base (mcp_of s)) PUBLIC_MFW_MB) s;
       s = mcp_upd (\<lambda>m. m\<lparr>mfw_mb_addr := SECTION_ADDR mfw_mb_offsize mcp_pf_id\<rparr>) s;
       (v, s) = mcp_rd E p_ptt (mfw_mb_addr (mcp_of s) + 0) s;
       s = mcp_upd (\<lambda>m. m\<lparr>mfw_mb_length := ucast v\<rparr>) s;
       (rdy, s) = (if recovery_mode (mcp_of s) then (True, s)
                   else shmem_wait E p_ptt QED_MCP_SHMEM_RDY_MAX_RETRIES s)
     in if \<not> rdy then (RC_ERR EBUSY, s)
     else let
       (drv_mb_offsize, s) = mcp_rd E p_ptt (SECTION_OFFSIZE_ADDR (public_base (mcp_of s)) PUBLIC_DRV_MB) s;
       s = mcp_upd (\<lambda>m. m\<lparr>drv_mb_addr := SECTION_ADDR drv_mb_offsize mcp_pf_id\<rparr>) s;
       (v, s) = DRV_MB_RD E p_ptt drv_mb_header_off s;
       s = mcp_upd (\<lambda>m. m\<lparr>drv_mb_seq := ucast (v AND DRV_MSG_SEQ_NUMBER_MASK)\<rparr>) s;
       (v, s) = DRV_MB_RD E p_ptt drv_pulse_mb_off s;
       s = mcp_upd (\<lambda>m. m\<lparr>drv_pulse_seq := ucast (v AND DRV_PULSE_SEQ_MASK)\<rparr>) s;
       (v, s) = mcp_rd E p_ptt MISCS_REG_GENERIC_POR_0 s
     in (RC_OK, mcp_upd (\<lambda>m. m\<lparr>mcp_hist := v\<rparr>) s))"

text \<open>Release and allocation: \<open>mem\<close> and \<open>b1\<close>, \<open>b2\<close> say which of the allocations succeed.\<close>

definition qed_mcp_cmd_del_elem :: "nat \<Rightarrow> 'd mcp_fn \<Rightarrow> 'd mcp_fn" where
  "qed_mcp_cmd_del_elem a s = (let s = mcp_upd (\<lambda>m. m\<lparr>cmd_list := list_del a (cmd_list m)\<rparr>) s
     in s\<lparr>cmd_elems := (cmd_elems s)(a := None)\<rparr>)"

definition qed_mcp_free :: "'d mcp_fn \<Rightarrow> 'd mcp_fn" where
  "qed_mcp_free s = (case mcp_info s of
     None \<Rightarrow> s
   | Some m \<Rightarrow> (let
       s = mcp_upd (\<lambda>m. m\<lparr>mfw_mb_cur := None, mfw_mb_shadow := None\<rparr>) s;
       s = fold qed_mcp_cmd_del_elem (cmd_list (mcp_of s)) s
       in s\<lparr>mcp_info := None\<rparr>))"

definition qed_mcp_cmd_init ::
  "'d mcp_env \<Rightarrow> nat \<Rightarrow> bool \<Rightarrow> bool \<Rightarrow> bool \<Rightarrow> 'd mcp_fn \<Rightarrow> rc \<times> 'd mcp_fn" where
  "qed_mcp_cmd_init E p_ptt mem b1 b2 s =
     (if \<not> mem then (RC_ERR ENOMEM, s\<lparr>mcp_info := None\<rparr>)
      else let
        s = s\<lparr>mcp_info := Some mcp_info_zero\<rparr>;
        (r, s) = qed_load_mcp_offsets E p_ptt s
      in if r \<noteq> RC_OK then (RC_OK, s)
      else let
        sz = MFW_DRV_MSG_MAX_DWORDS (mfw_mb_length (mcp_of s));
        s = mcp_upd (\<lambda>m. m\<lparr>mfw_mb_cur := (if b1 then Some (replicate sz 0) else None),
              mfw_mb_shadow := (if b2 then Some (replicate sz 0) else None)\<rparr>) s
      in if mfw_mb_cur (mcp_of s) = None \<or> mfw_mb_shadow (mcp_of s) = None
         then (RC_ERR ENOMEM, qed_mcp_free s) else (RC_OK, s))"

definition qed_mcp_reread_offsets :: "'d mcp_env \<Rightarrow> nat \<Rightarrow> 'd mcp_fn \<Rightarrow> 'd mcp_fn" where
  "qed_mcp_reread_offsets E p_ptt s = (let
     (generic_por_0, s) = mcp_rd E p_ptt MISCS_REG_GENERIC_POR_0 s
     in if mcp_hist (mcp_of s) \<noteq> generic_por_0
        then (let (r, s) = qed_load_mcp_offsets E p_ptt s in qed_mcp_cmd_port_init E p_ptt s)
        else s)"

section \<open>Commands in the mailbox\<close>

text \<open>The list of the commands; these sections run under \<open>cmd_lock\<close>.\<close>

definition qed_mcp_cmd_add_elem ::
  "nat option \<Rightarrow> nat \<Rightarrow> u16 \<Rightarrow> 'd mcp_fn \<Rightarrow> nat option \<times> 'd mcp_fn" where
  "qed_mcp_cmd_add_elem mem p seq s = (case mem of
     None \<Rightarrow> (None, s)
   | Some a \<Rightarrow> (let
       s = s\<lparr>cmd_elems := (cmd_elems s)(a \<mapsto>
             \<lparr>p_mb_params = p, expected_seq_num = seq, b_is_completed = False\<rparr>)\<rparr>
       in (Some a, mcp_upd (\<lambda>m. m\<lparr>cmd_list := list_add a (cmd_list m)\<rparr>) s)))"

definition elem_at :: "'d mcp_fn \<Rightarrow> nat \<Rightarrow> qed_mcp_cmd_elem" where
  "elem_at s a = the (cmd_elems s a)"

definition qed_mcp_cmd_get_elem :: "'d mcp_fn \<Rightarrow> u16 \<Rightarrow> nat option" where
  "qed_mcp_cmd_get_elem s seq_num =
     find (\<lambda>a. expected_seq_num (elem_at s a) = seq_num) (cmd_list (mcp_of s))"

definition qed_mcp_has_pending_cmd :: "'d mcp_fn \<Rightarrow> bool" where
  "qed_mcp_has_pending_cmd s = (case cmd_list (mcp_of s) of
     [] \<Rightarrow> False | a # _ \<Rightarrow> \<not> b_is_completed (elem_at s a))"

definition mb_at :: "'d mcp_fn \<Rightarrow> nat \<Rightarrow> qed_mcp_mb_params" where
  "mb_at s p = the (mb_objs s p)"

definition mb_put :: "nat \<Rightarrow> (qed_mcp_mb_params \<Rightarrow> qed_mcp_mb_params) \<Rightarrow> 'd mcp_fn \<Rightarrow> 'd mcp_fn" where
  "mb_put p f s = s\<lparr>mb_objs := (mb_objs s)(p \<mapsto> f (mb_at s p))\<rparr>"

definition qed_mcp_update_pending_cmd :: "'d mcp_env \<Rightarrow> nat \<Rightarrow> 'd mcp_fn \<Rightarrow> rc \<times> 'd mcp_fn" where
  "qed_mcp_update_pending_cmd E p_ptt s = (let
     (resp, s) = DRV_MB_RD E p_ptt fw_mb_header_off s;
     seq_num = (ucast (resp AND FW_MSG_SEQ_NUMBER_MASK) :: u16)
     in if seq_num \<noteq> drv_mb_seq (mcp_of s) then (RC_ERR EAGAIN, s)
     else case qed_mcp_cmd_get_elem s seq_num of
       None \<Rightarrow> (RC_ERR EINVAL, s)
     | Some a \<Rightarrow> (let
         p = p_mb_params (elem_at s a);
         s = mb_put p (\<lambda>b. b\<lparr>mcp_resp := resp\<rparr>) s;
         (v, s) = DRV_MB_RD E p_ptt fw_mb_param_off s;
         s = mb_put p (\<lambda>b. b\<lparr>mcp_param := v\<rparr>) s;
         b = mb_at s p;
         s = (if p_data_dst b \<noteq> 0 \<and> data_dst_size b \<noteq> 0
              then s\<lparr>mhw := qed_memcpy_from (me_bus E) p_ptt (p_data_dst b)
                     (drv_mb_addr (mcp_of s) + union_data_off) (unat (data_dst_size b)) (mhw s)\<rparr>
              else s)
         in (RC_OK, s\<lparr>cmd_elems := (cmd_elems s)(a \<mapsto> (elem_at s a)\<lparr>b_is_completed := True\<rparr>)\<rparr>)))"

text \<open>
  The local union, by dwords: zero, then the first \<open>n\<close> bytes from the source. A dword of which only some bytes are
  copied keeps its low bytes, which come first on a little endian host.
\<close>

definition union_dword :: "(u64 \<Rightarrow> u32) \<Rightarrow> u64 \<Rightarrow> nat \<Rightarrow> nat \<Rightarrow> u32" where
  "union_dword m src n k = (if src = 0 \<or> n \<le> 4 * k then 0
     else take_bit (8 * (n - 4 * k)) (m (src + of_nat k * 4)))"

primrec union_fill :: "u64 \<Rightarrow> (nat \<Rightarrow> u32) \<Rightarrow> nat \<Rightarrow> (u64 \<Rightarrow> u32) \<Rightarrow> u64 \<Rightarrow> u32" where
  "union_fill ud f 0 m = m"
| "union_fill ud f (Suc k) m = (union_fill ud f k m)(ud + of_nat k * 4 := f k)"

definition mcp_cmd_and_union_write :: "'d mcp_env \<Rightarrow> nat \<Rightarrow> u64 \<Rightarrow> nat \<Rightarrow> u16 \<Rightarrow> 'd mcp_fn \<Rightarrow> 'd mcp_fn" where
  "mcp_cmd_and_union_write E p_ptt ud p seq_num s = (let
     b = mb_at s p;
     union_data_addr = drv_mb_addr (mcp_of s) + union_data_off;
     m = hmem (mhw s);
     s = s\<lparr>mhw := (mhw s)\<lparr>hmem := union_fill ud (union_dword m (p_data_src b) (unat (data_src_size b)))
           (union_data_size div 4) m\<rparr>\<rparr>;
     s = s\<lparr>mhw := qed_memcpy_to (me_bus E) p_ptt union_data_addr ud union_data_size (mhw s)\<rparr>;
     s = DRV_MB_WR E p_ptt drv_mb_param_off (mb_param b) s
     in DRV_MB_WR E p_ptt drv_mb_header_off (mb_cmd b OR ucast seq_num) s)"

definition qed_mcp_cmd_set_blocking :: "bool \<Rightarrow> 'd mcp_fn \<Rightarrow> 'd mcp_fn" where
  "qed_mcp_cmd_set_blocking block_cmd s = mcp_upd (\<lambda>m. m\<lparr>b_block_cmd := block_cmd\<rparr>) s"

definition qed_mcp_cmd_set_halt :: "bool \<Rightarrow> 'd mcp_fn \<Rightarrow> 'd mcp_fn" where
  "qed_mcp_cmd_set_halt halt s = mcp_upd (\<lambda>m. m\<lparr>b_halted := halt\<rparr>) s"

text \<open>The registers that are printed when the firmware does not answer; the reads touch the device.\<close>

definition qed_mcp_print_cpu_info :: "'d mcp_env \<Rightarrow> nat \<Rightarrow> 'd mcp_fn \<Rightarrow> 'd mcp_fn" where
  "qed_mcp_print_cpu_info E p_ptt s = (let
     dly = (if CHIP_REV_IS_EMUL (chip_rev (cdev (mhw s))) then QED_EMUL_MCP_RESP_ITER_US
            else QED_MCP_RESP_ITER_US);
     (v, s) = mcp_rd E p_ptt MCP_REG_CPU_MODE s;
     (v, s) = mcp_rd E p_ptt MCP_REG_CPU_STATE s;
     (v, s) = mcp_rd E p_ptt MCP_REG_CPU_PROGRAM_COUNTER s;
     s = mcp_udelay E dly s;
     (v, s) = mcp_rd E p_ptt MCP_REG_CPU_PROGRAM_COUNTER s;
     s = mcp_udelay E dly s;
     (v, s) = mcp_rd E p_ptt MCP_REG_CPU_PROGRAM_COUNTER s
     in s)"

definition mcp_err_notify :: "'d mcp_env \<Rightarrow> nat \<Rightarrow> qed_hw_err_type \<Rightarrow> 'd mcp_fn \<Rightarrow> 'd mcp_fn" where
  "mcp_err_notify E p_ptt err s = (let
     quiet = (QED_RECOV_IN_PROG (cdev (mhw s)) \<and> err \<noteq> QED_HW_ERR_FAN_FAIL);
     s = s\<lparr>mhw := qed_hw_err_notify (\<lambda>_ h. h) p_ptt err (mhw s)\<rparr>
     in if quiet then s else me_notify E p_ptt s)"

section \<open>Sending a command and waiting for the answer\<close>

text \<open>
  The parts of \<open>_qed_mcp_cmd_and_union\<close> between taking and giving back the lock: a look at the mailbox while it is
  occupied, the sending, a look for the answer, the closing after an answer and after none. Counters and
  intervals are below 2 to the 32 for every caller, so they are natural numbers.
\<close>

definition mb_poll_free :: "'d mcp_env \<Rightarrow> nat \<Rightarrow> 'd mcp_fn \<Rightarrow> rc \<times> 'd mcp_fn" where
  "mb_poll_free E p_ptt s =
     (if \<not> qed_mcp_has_pending_cmd s then (RC_OK, s) else qed_mcp_update_pending_cmd E p_ptt s)"

definition mb_send :: "'d mcp_env \<Rightarrow> nat \<Rightarrow> mb_frame \<Rightarrow> nat \<Rightarrow> 'd mcp_fn \<Rightarrow> nat option \<times> 'd mcp_fn" where
  "mb_send E p_ptt fr p s = (let
     s = qed_mcp_reread_offsets E p_ptt s;
     s = mcp_upd (\<lambda>m. m\<lparr>drv_mb_seq := drv_mb_seq m + 1\<rparr>) s;
     seq_num = drv_mb_seq (mcp_of s)
     in case qed_mcp_cmd_add_elem (fr_elem fr) p seq_num s of
       (None, s) \<Rightarrow> (None, s)
     | (Some a, s) \<Rightarrow> (Some a, mcp_cmd_and_union_write E p_ptt (fr_union fr) p seq_num s))"

definition mb_poll_resp :: "'d mcp_env \<Rightarrow> nat \<Rightarrow> nat \<Rightarrow> 'd mcp_fn \<Rightarrow> rc \<times> 'd mcp_fn" where
  "mb_poll_resp E p_ptt a s =
     (if b_is_completed (elem_at s a) then (RC_OK, s) else qed_mcp_update_pending_cmd E p_ptt s)"

definition mb_finish :: "nat \<Rightarrow> nat \<Rightarrow> 'd mcp_fn \<Rightarrow> 'd mcp_fn" where
  "mb_finish p a s = (let s = qed_mcp_cmd_del_elem a s
     in mb_put p (\<lambda>b. b\<lparr>mcp_resp := mcp_resp b AND FW_MSG_CODE_MASK\<rparr>) s)"

definition mb_give_up :: "'d mcp_env \<Rightarrow> nat \<Rightarrow> nat \<Rightarrow> nat \<Rightarrow> 'd mcp_fn \<Rightarrow> 'd mcp_fn" where
  "mb_give_up E p_ptt p a s = (let
     s = qed_mcp_print_cpu_info E p_ptt s;
     s = qed_mcp_cmd_del_elem a s
     in if \<not> QED_MB_FLAGS_IS_SET (mb_at s p) QED_MB_FLAG_AVOID_BLOCK
        then qed_mcp_cmd_set_blocking True s else s)"

definition mb_delay :: "'d mcp_env \<Rightarrow> nat \<Rightarrow> nat \<Rightarrow> nat \<Rightarrow> 'd mcp_fn \<Rightarrow> 'd mcp_fn" where
  "mb_delay E p usecs cnt s =
     (if QED_MB_FLAGS_IS_SET (mb_at s p) QED_MB_FLAG_CAN_SLEEP
      then (if cnt < 100 then mcp_udelay E 10 s else mcp_msleep E ((usecs + 999) div 1000) s)
      else mcp_udelay E usecs s)"

text \<open>The two loops. The result is the code, the count reached and the state.\<close>

function mb_wait_free ::
  "'d mcp_env \<Rightarrow> nat \<Rightarrow> nat \<Rightarrow> nat \<Rightarrow> nat \<Rightarrow> nat \<Rightarrow> 'd mcp_fn \<Rightarrow> rc \<times> nat \<times> 'd mcp_fn" where
  "mb_wait_free E p_ptt p max_retries usecs cnt s = (let (r, s) = mb_poll_free E p_ptt s in
     if r = RC_ERR EAGAIN then (let s = mb_delay E p usecs cnt s in
       if Suc cnt < max_retries then mb_wait_free E p_ptt p max_retries usecs (Suc cnt) s
       else (RC_ERR EAGAIN, Suc cnt, s))
     else (r, cnt, s))"
  by pat_completeness auto
termination by (relation "measure (\<lambda>(E, i, p, mx, us, cnt, s). mx - cnt)") auto

function mb_wait_resp ::
  "'d mcp_env \<Rightarrow> nat \<Rightarrow> nat \<Rightarrow> nat \<Rightarrow> nat \<Rightarrow> nat \<Rightarrow> nat \<Rightarrow> 'd mcp_fn \<Rightarrow> rc \<times> nat \<times> 'd mcp_fn" where
  "mb_wait_resp E p_ptt p a max_retries usecs cnt s = (let
     s = mb_delay E p usecs cnt s;
     (r, s) = mb_poll_resp E p_ptt a s in
     if r = RC_ERR EAGAIN then
       (if Suc cnt < max_retries then mb_wait_resp E p_ptt p a max_retries usecs (Suc cnt) s
        else (RC_ERR EAGAIN, Suc cnt, s))
     else (r, cnt, s))"
  by pat_completeness auto
termination by (relation "measure (\<lambda>(E, i, p, a, mx, us, cnt, s). mx - cnt)") auto

declare mb_wait_free.simps [simp del] mb_wait_resp.simps [simp del]

definition mb_retries :: "qed_mcp_mb_params \<Rightarrow> nat \<Rightarrow> nat" where
  "mb_retries b max_retries =
     (if QED_MB_FLAGS_IS_SET b QED_MB_FLAG_CAN_SLEEP then max_retries + (100 - 1) else max_retries)"

definition mcp_me_read :: "'d mcp_env \<Rightarrow> 'd mcp_fn \<Rightarrow> u32 \<times> 'd mcp_fn" where
  "mcp_me_read E s = (case REG_RD (me_bus E) PXP_PF_ME_OPAQUE_ADDR (mhw s) of (v, h) \<Rightarrow> (v, s\<lparr>mhw := h\<rparr>))"

definition mcp_cmd_and_union_wait ::
  "'d mcp_env \<Rightarrow> nat \<Rightarrow> mb_frame \<Rightarrow> nat option \<Rightarrow> nat \<Rightarrow> nat \<Rightarrow> 'd mcp_fn \<Rightarrow> rc \<times> 'd mcp_fn" where
  "mcp_cmd_and_union_wait E p_ptt fr p_mb max_retries usecs s = (case p_mb of
     None \<Rightarrow> (RC_ERR EINVAL, s)
   | Some p \<Rightarrow> (let (me, s) = mcp_me_read E s in
     if me = 0xffffffff then (RC_ERR EAGAIN, s)
     else let
       max_retries = mb_retries (mb_at s p) max_retries;
       (r, cnt, s) = mb_wait_free E p_ptt p max_retries usecs 0 s
     in if r \<noteq> RC_OK \<and> r \<noteq> RC_ERR EAGAIN then (r, s)
     else if max_retries \<le> cnt then (RC_ERR EAGAIN, s)
     else case mb_send E p_ptt fr p s of
       (None, s) \<Rightarrow> (RC_ERR ENOMEM, s)
     | (Some a, s) \<Rightarrow> (let (r, cnt, s) = mb_wait_resp E p_ptt p a max_retries usecs cnt s in
       if r \<noteq> RC_OK \<and> r \<noteq> RC_ERR EAGAIN then (r, s)
       else if max_retries \<le> cnt
            then (RC_ERR EAGAIN, mcp_err_notify E p_ptt QED_HW_ERR_MFW_RESP_FAIL (mb_give_up E p_ptt p a s))
       else (RC_OK, mb_finish p a s))))"

section \<open>The interface\<close>

text \<open>What stands in for the firmware on an emulator without one.\<close>

definition GET_MFW_FIELD :: "u32 \<Rightarrow> u32 \<times> nat \<Rightarrow> u32" where
  "GET_MFW_FIELD name field = (case field of (msk, ofs) \<Rightarrow> drop_bit ofs (name AND msk))"

definition SET_MFW_FIELD :: "u32 \<Rightarrow> u32 \<times> nat \<Rightarrow> u32 \<Rightarrow> u32" where
  "SET_MFW_FIELD name field v = (case field of (msk, ofs) \<Rightarrow>
     (name AND NOT msk) OR (push_bit ofs v AND msk))"

definition DRV_ID_MCP_HSI_VER :: "u32 \<times> nat" where "DRV_ID_MCP_HSI_VER = (0x00ff0000, 16)"

definition qed_emul_mcp_load_req :: "nat \<Rightarrow> 'd mcp_fn \<Rightarrow> 'd mcp_fn" where
  "qed_emul_mcp_load_req p s =
     (if GET_MFW_FIELD (mb_param (mb_at s p)) DRV_ID_MCP_HSI_VER \<noteq> 1
      then mb_put p (\<lambda>b. b\<lparr>mcp_resp := FW_MSG_CODE_DRV_LOAD_REFUSED_HSI_1\<rparr>) s
      else let
        port = unat (hw_port_id (mhw s));
        code = (if loaded s = 0 then FW_MSG_CODE_DRV_LOAD_ENGINE
                else if loaded_port s ! port = 0 then FW_MSG_CODE_DRV_LOAD_PORT
                else FW_MSG_CODE_DRV_LOAD_FUNCTION);
        code = (if is_cmt s then FW_MSG_CODE_DRV_LOAD_ENGINE else code);
        s = mb_put p (\<lambda>b. b\<lparr>mcp_resp := code\<rparr>) s
      in s\<lparr>loaded := loaded s + 1, loaded_port := (loaded_port s)[port := loaded_port s ! port + 1]\<rparr>)"

definition qed_emul_mcp_unload_req :: "'d mcp_fn \<Rightarrow> 'd mcp_fn" where
  "qed_emul_mcp_unload_req s = (let port = unat (hw_port_id (mhw s)) in
     s\<lparr>loaded := loaded s - 1, loaded_port := (loaded_port s)[port := loaded_port s ! port - 1]\<rparr>)"

definition qed_emul_mcp_cmd :: "nat \<Rightarrow> 'd mcp_fn \<Rightarrow> rc \<times> 'd mcp_fn" where
  "qed_emul_mcp_cmd p s =
     (if \<not> CHIP_REV_IS_EMUL (chip_rev (cdev (mhw s))) then (RC_ERR EINVAL, s)
      else let c = mb_cmd (mb_at s p) in
        if c = DRV_MSG_CODE_LOAD_REQ then (RC_OK, qed_emul_mcp_load_req p s)
        else if c = DRV_MSG_CODE_UNLOAD_REQ then (RC_OK, qed_emul_mcp_unload_req s)
        else if c \<in> {DRV_MSG_CODE_GET_MFW_FEATURE_SUPPORT, DRV_MSG_CODE_RESOURCE_CMD, DRV_MSG_CODE_MDUMP_CMD,
                     DRV_MSG_CODE_GET_ENGINE_CONFIG, DRV_MSG_CODE_GET_PPFID_BITMAP}
             then (RC_ERR EOPNOTSUPP, s)
        else (RC_OK, s))"

text \<open>
  \<open>qed_mcp_cmd_and_union\<close>: \<open>mb_limits\<close> is its choice of the number of attempts and of the interval, and
  \<open>mb_refused\<close> the checks that refuse a command before anything is sent.
\<close>

definition mb_limits :: "qed_cdev \<Rightarrow> qed_mcp_mb_params \<Rightarrow> nat \<times> nat" where
  "mb_limits c b = (let
     (max_retries, usecs) = (if CHIP_REV_IS_SLOW (chip_rev c)
        then (QED_EMUL_DRV_MB_MAX_RETRIES, QED_EMUL_MCP_RESP_ITER_US)
        else (QED_DRV_MB_MAX_RETRIES, QED_MCP_RESP_ITER_US))
     in if QED_MB_FLAGS_IS_SET b QED_MB_FLAG_CAN_SLEEP then ((max_retries + 999) div 1000, usecs * 1000)
        else (max_retries, usecs))"

definition mb_refused :: "qed_mcp_mb_params \<Rightarrow> 'd mcp_fn \<Rightarrow> errno option" where
  "mb_refused b s =
     (if \<not> qed_mcp_is_init s then Some EBUSY
      else if b_halted (mcp_of s) then Some EAGAIN
      else if b_block_cmd (mcp_of s) then Some EBUSY
      else if union_data_size < unat (data_src_size b) \<or> union_data_size < unat (data_dst_size b) then Some EINVAL
      else None)"

definition qed_mcp_cmd_and_union ::
  "'d mcp_env \<Rightarrow> nat \<Rightarrow> mb_frame \<Rightarrow> nat option \<Rightarrow> 'd mcp_fn \<Rightarrow> rc \<times> 'd mcp_fn" where
  "qed_mcp_cmd_and_union E p_ptt fr p_mb s = (case p_mb of
     None \<Rightarrow> (RC_ERR EINVAL, s)
   | Some p \<Rightarrow>
     (if CHIP_REV_IS_EMUL (chip_rev (cdev (mhw s))) \<and> \<not> qed_mcp_is_init s then qed_emul_mcp_cmd p s
      else case mb_refused (mb_at s p) s of
        Some e \<Rightarrow> (RC_ERR e, s)
      | None \<Rightarrow> (let (max_retries, usecs) = mb_limits (cdev (mhw s)) (mb_at s p)
                 in mcp_cmd_and_union_wait E p_ptt fr (Some p) max_retries usecs s)))"

text \<open>
  A call with parameters on its own stack, at address \<open>p\<close>: they are there while the call runs, and are gone
  when it returns.
\<close>

definition mb_zero :: qed_mcp_mb_params where
  "mb_zero = \<lparr>mb_cmd = 0, mb_param = 0, p_data_src = 0, p_data_dst = 0, data_src_size = 0, data_dst_size = 0,
     mcp_resp = 0, mcp_param = 0, mb_flags = 0\<rparr>"

definition mb_local ::
  "'d mcp_env \<Rightarrow> nat \<Rightarrow> mb_frame \<Rightarrow> nat \<Rightarrow> qed_mcp_mb_params \<Rightarrow> 'd mcp_fn \<Rightarrow>
     rc \<times> qed_mcp_mb_params \<times> 'd mcp_fn" where
  "mb_local E p_ptt fr p b s = (let
     s = s\<lparr>mb_objs := (mb_objs s)(p \<mapsto> b)\<rparr>;
     (r, s) = qed_mcp_cmd_and_union E p_ptt fr (Some p) s
     in (r, mb_at s p, s\<lparr>mb_objs := (mb_objs s)(p := None)\<rparr>))"

text \<open>
  \<open>_qed_mcp_cmd\<close> and its two variants. The result has the answer (response and parameter) when the command went
  through; otherwise the caller's variables keep their values.
\<close>

definition mcp_cmd_sleep ::
  "'d mcp_env \<Rightarrow> nat \<Rightarrow> mb_frame \<Rightarrow> nat \<Rightarrow> u32 \<Rightarrow> u32 \<Rightarrow> bool \<Rightarrow> 'd mcp_fn \<Rightarrow>
     rc \<times> (u32 \<times> u32) option \<times> 'd mcp_fn" where
  "mcp_cmd_sleep E p_ptt fr p c param can_sleep s = (let
     b = mb_zero\<lparr>mb_cmd := c, mb_param := param, mb_flags := (if can_sleep then QED_MB_FLAG_CAN_SLEEP else 0)\<rparr>;
     (r, b, s) = mb_local E p_ptt fr p b s
     in if r \<noteq> RC_OK then (r, None, s) else (RC_OK, Some (mcp_resp b, mcp_param b), s))"

definition qed_mcp_cmd ::
  "'d mcp_env \<Rightarrow> nat \<Rightarrow> mb_frame \<Rightarrow> nat \<Rightarrow> u32 \<Rightarrow> u32 \<Rightarrow> 'd mcp_fn \<Rightarrow> rc \<times> (u32 \<times> u32) option \<times> 'd mcp_fn" where
  "qed_mcp_cmd E p_ptt fr p c param s = mcp_cmd_sleep E p_ptt fr p c param True s"

definition qed_mcp_cmd_nosleep ::
  "'d mcp_env \<Rightarrow> nat \<Rightarrow> mb_frame \<Rightarrow> nat \<Rightarrow> u32 \<Rightarrow> u32 \<Rightarrow> 'd mcp_fn \<Rightarrow> rc \<times> (u32 \<times> u32) option \<times> 'd mcp_fn" where
  "qed_mcp_cmd_nosleep E p_ptt fr p c param s = mcp_cmd_sleep E p_ptt fr p c param False s"

section \<open>Reset of the management processor\<close>

text \<open>
  \<open>qed_mcp_reset\<close>: the whole of it after the first check runs under the lock. It uses the mailbox without looking at
  the list of the commands.
\<close>

primrec mcp_reset_wait :: "'d mcp_env \<Rightarrow> nat \<Rightarrow> nat \<Rightarrow> u32 \<Rightarrow> nat \<Rightarrow> 'd mcp_fn \<Rightarrow> 'd mcp_fn" where
  "mcp_reset_wait E p_ptt dly prev 0 s =
     (let s = mcp_udelay E dly s; (v, s) = mcp_rd E p_ptt MISCS_REG_GENERIC_POR_0 s in s)"
| "mcp_reset_wait E p_ptt dly prev (Suc left) s =
     (let s = mcp_udelay E dly s; (v, s) = mcp_rd E p_ptt MISCS_REG_GENERIC_POR_0 s
      in if v \<noteq> prev then s else mcp_reset_wait E p_ptt dly prev left s)"

definition mcp_reset_send :: "'d mcp_env \<Rightarrow> nat \<Rightarrow> 'd mcp_fn \<Rightarrow> 'd mcp_fn" where
  "mcp_reset_send E p_ptt s = (let
     s = qed_mcp_reread_offsets E p_ptt s;
     s = mcp_upd (\<lambda>m. m\<lparr>drv_mb_seq := drv_mb_seq m + 1\<rparr>) s
     in DRV_MB_WR E p_ptt drv_mb_header_off (DRV_MSG_CODE_MCP_RESET OR ucast (drv_mb_seq (mcp_of s))) s)"

definition qed_mcp_reset :: "'d mcp_env \<Rightarrow> nat \<Rightarrow> 'd mcp_fn \<Rightarrow> rc \<times> 'd mcp_fn" where
  "qed_mcp_reset E p_ptt s = (let
     (dly, retries) = (if CHIP_REV_IS_SLOW (chip_rev (cdev (mhw s)))
        then (QED_EMUL_MCP_RESP_ITER_US, QED_EMUL_MCP_RESET_RETRIES)
        else (QED_MCP_RESP_ITER_US, QED_MCP_RESET_RETRIES))
     in if b_block_cmd (mcp_of s) then (RC_ERR EBUSY, s)
     else let
       (prev, s) = mcp_rd E p_ptt MISCS_REG_GENERIC_POR_0 s;
       s = mcp_reset_send E p_ptt s;
       s = mcp_reset_wait E p_ptt dly prev retries s;
       (v, s) = mcp_rd E p_ptt MISCS_REG_GENERIC_POR_0 s
     in (if v \<noteq> prev then RC_OK else RC_ERR EAGAIN, s))"

end
