(* ===== verification/Qed_Mcp_Steps.thy ===== *)
theory Qed_Mcp_Steps
  imports Qed_Mcp
begin

unbundle bit_operations_syntax

text \<open>
  The mailbox with many callers. A call of \<open>qed_mcp_cmd_and_union\<close> is a state machine whose transitions are the
  sections between taking and giving back \<open>cmd_lock\<close>; any number of calls interleave, and between their
  transitions the firmware and the rest of the driver do what they like. The delays outside the lock are part of the
  transition they belong to, and giving up is one transition: the dump of the registers of the management processor, the
  removal of the element, which alone is under the lock, and blocking further commands. The theory has the step relation, the
  invariant of the list of the commands, and the specification of a mailbox with one slot that it refines.
\<close>

section \<open>A call as a state machine\<close>

datatype mb_pc =
  MbFree nat
| MbResp nat nat
| MbLate nat
| MbDone rc

record mb_call =
  t_ptt :: nat
  t_union :: u64
  t_max :: nat
  t_usecs :: nat
  t_pc :: mb_pc

text \<open>
  The entry: the checks of \<open>qed_mcp_cmd_and_union\<close> and what \<open>_qed_mcp_cmd_and_union\<close> does before its first
  loop. A call that is refused is done.
\<close>

definition mb_enter ::
  "'d mcp_env \<Rightarrow> nat \<Rightarrow> u64 \<Rightarrow> nat \<Rightarrow> 'd mcp_fn \<Rightarrow> mb_call \<times> 'd mcp_fn" where
  "mb_enter E p_ptt ud p s = (let
     t = \<lparr>t_ptt = p_ptt, t_union = ud, t_max = 0, t_usecs = 0, t_pc = MbDone RC_OK\<rparr>
     in if CHIP_REV_IS_EMUL (chip_rev (cdev (mhw s))) \<and> \<not> qed_mcp_is_init s
     then (let (r, s) = qed_emul_mcp_cmd p s in (t\<lparr>t_pc := MbDone r\<rparr>, s))
     else case mb_refused (mb_at s p) s of
       Some e \<Rightarrow> (t\<lparr>t_pc := MbDone (RC_ERR e)\<rparr>, s)
     | None \<Rightarrow> (let
         (max_retries, usecs) = mb_limits (cdev (mhw s)) (mb_at s p);
         (me, s) = mcp_me_read E s
         in if me = 0xffffffff then (t\<lparr>t_pc := MbDone (RC_ERR EAGAIN)\<rparr>, s)
         else (t\<lparr>t_max := mb_retries (mb_at s p) max_retries, t_usecs := usecs, t_pc := MbFree 0\<rparr>, s)))"

text \<open>One transition; \<open>mem\<close> is what \<open>kzalloc\<close> returns if it is called.\<close>

definition mb_turn ::
  "'d mcp_env \<Rightarrow> nat option \<Rightarrow> nat \<Rightarrow> mb_call \<Rightarrow> 'd mcp_fn \<Rightarrow> mb_call \<times> 'd mcp_fn" where
  "mb_turn E mem p t s = (case t_pc t of
     MbFree cnt \<Rightarrow> (let (r, s) = mb_poll_free E (t_ptt t) s in
       if r = RC_ERR EAGAIN then (let s = mb_delay E p (t_usecs t) cnt s in
         if Suc cnt < t_max t then (t\<lparr>t_pc := MbFree (Suc cnt)\<rparr>, s)
         else (t\<lparr>t_pc := MbDone (RC_ERR EAGAIN)\<rparr>, s))
       else if r \<noteq> RC_OK then (t\<lparr>t_pc := MbDone r\<rparr>, s)
       else if t_max t \<le> cnt then (t\<lparr>t_pc := MbDone (RC_ERR EAGAIN)\<rparr>, s)
       else case mb_send E (t_ptt t) \<lparr>fr_union = t_union t, fr_elem = mem\<rparr> p s of
         (None, s) \<Rightarrow> (t\<lparr>t_pc := MbDone (RC_ERR ENOMEM)\<rparr>, s)
       | (Some a, s) \<Rightarrow> (t\<lparr>t_pc := MbResp cnt a\<rparr>, s))
   | MbResp cnt a \<Rightarrow> (let
       s = mb_delay E p (t_usecs t) cnt s;
       (r, s) = mb_poll_resp E (t_ptt t) a s in
       if r = RC_ERR EAGAIN then
         (if Suc cnt < t_max t then (t\<lparr>t_pc := MbResp (Suc cnt) a\<rparr>, s)
          else (t\<lparr>t_pc := MbLate a\<rparr>, s))
       else if r \<noteq> RC_OK then (t\<lparr>t_pc := MbDone r\<rparr>, s)
       else if t_max t \<le> cnt then (t\<lparr>t_pc := MbLate a\<rparr>, s)
       else (t\<lparr>t_pc := MbDone RC_OK\<rparr>, mb_finish p a s))
   | MbLate a \<Rightarrow> (t\<lparr>t_pc := MbDone (RC_ERR EAGAIN)\<rparr>,
       mcp_err_notify E (t_ptt t) QED_HW_ERR_MFW_RESP_FAIL (mb_give_up E (t_ptt t) p a s))
   | MbDone r \<Rightarrow> (t, s))"

definition mb_done :: "mb_call \<Rightarrow> bool" where
  "mb_done t = (case t_pc t of MbDone _ \<Rightarrow> True | _ \<Rightarrow> False)"

section \<open>What happens in the mailbox\<close>

text \<open>
  The events of a transition, by the address of the parameters of the call concerned: a command goes into the mailbox,
  the header of its answer is found there, the call takes the answer, or gives up. The call that finds
  an answer need not be the one that is answered: any call that waits for the mailbox looks.
\<close>

datatype mb_event =
  MbSent nat u16
| MbAnswered nat u32
| MbCollected nat u32
| MbGaveUp nat

definition mb_found :: "'d mcp_env \<Rightarrow> nat \<Rightarrow> bool \<Rightarrow> rc \<Rightarrow> 'd mcp_fn \<Rightarrow> mb_event list" where
  "mb_found E p_ptt looked r s = (if looked \<and> r = RC_OK
     then [MbAnswered (p_mb_params (elem_at s (hd (cmd_list (mcp_of s))))) (fst (DRV_MB_RD E p_ptt fw_mb_header_off s))]
     else [])"

definition mb_events ::
  "'d mcp_env \<Rightarrow> nat option \<Rightarrow> nat \<Rightarrow> mb_call \<Rightarrow> 'd mcp_fn \<Rightarrow> mb_event list" where
  "mb_events E mem p t s = (let (t', s') = mb_turn E mem p t s in
     case t_pc t of
       MbFree cnt \<Rightarrow> (let (r, s1) = mb_poll_free E (t_ptt t) s in
         mb_found E (t_ptt t) (qed_mcp_has_pending_cmd s) r s
         @ (case t_pc t' of MbResp _ a \<Rightarrow> [MbSent p (drv_mb_seq (mcp_of s'))] | _ \<Rightarrow> []))
     | MbResp cnt a \<Rightarrow> (let s0 = mb_delay E p (t_usecs t) cnt s; (r, s1) = mb_poll_resp E (t_ptt t) a s0 in
         mb_found E (t_ptt t) (\<not> b_is_completed (elem_at s0 a)) r s0
         @ (if t_pc t' = MbDone RC_OK then [MbCollected p (mcp_resp (mb_at s1 p))] else []))
     | MbLate a \<Rightarrow> [MbGaveUp p]
     | MbDone _ \<Rightarrow> [])"

section \<open>The system\<close>

text \<open>
  The calls in progress, by the addresses of their parameters. The messages that \<open>qed_hw_err_notify\<close> sends are
  calls like the others, so here it sends none itself.
\<close>

record 'd mb_sys =
  sys_fn :: "'d mcp_fn"
  calls :: "nat \<rightharpoonup> mb_call"

definition calm :: "'d bus \<Rightarrow> 'd mcp_env" where
  "calm B = \<lparr>me_bus = B, me_notify = (\<lambda>_ s. s)\<rparr>"

text \<open>
  What the firmware, the device and other parts of the driver can do between two transitions: everything but
  to change the list of the commands, the sequence number and the objects of the calls.
\<close>

definition mb_others :: "'d mcp_fn \<Rightarrow> 'd mcp_fn \<Rightarrow> bool" where
  "mb_others s s' \<longleftrightarrow> mcp_info s \<noteq> None \<and> mcp_info s' \<noteq> None
     \<and> cmd_list (mcp_of s') = cmd_list (mcp_of s) \<and> drv_mb_seq (mcp_of s') = drv_mb_seq (mcp_of s)
     \<and> cmd_elems s' = cmd_elems s \<and> mb_objs s' = mb_objs s"

definition mem_fresh :: "nat option \<Rightarrow> 'd mcp_fn \<Rightarrow> bool" where
  "mem_fresh mem s = (case mem of None \<Rightarrow> True | Some a \<Rightarrow> cmd_elems s a = None)"

text \<open>
  The system. Whether resets of the management processor (\<open>qed_mcp_reset\<close>, which takes the lock as well) are
  among the transitions is the argument \<open>rst\<close>: they break part of what holds without them, as \<open>Qed_Mcp_Reset\<close> shows.
\<close>

inductive mb_next :: "'d bus \<Rightarrow> bool \<Rightarrow> 'd mb_sys \<Rightarrow> mb_event list \<Rightarrow> 'd mb_sys \<Rightarrow> bool"
  for B :: "'d bus" and rst :: bool where
  mb_next_call: "calls S p = None \<Longrightarrow>
    mb_enter (calm B) i ud p ((sys_fn S)\<lparr>mb_objs := (mb_objs (sys_fn S))(p \<mapsto> b)\<rparr>) = (t, s) \<Longrightarrow>
    mb_next B rst S [] \<lparr>sys_fn = s, calls = (calls S)(p \<mapsto> t)\<rparr>"
| mb_next_turn: "calls S p = Some t \<Longrightarrow> \<not> mb_done t \<Longrightarrow> mem_fresh mem (sys_fn S) \<Longrightarrow>
    mb_turn (calm B) mem p t (sys_fn S) = (t', s) \<Longrightarrow>
    mb_next B rst S (mb_events (calm B) mem p t (sys_fn S)) \<lparr>sys_fn = s, calls = (calls S)(p \<mapsto> t')\<rparr>"
| mb_next_leave: "calls S p = Some t \<Longrightarrow> mb_done t \<Longrightarrow>
    mb_next B rst S [] \<lparr>sys_fn = (sys_fn S)\<lparr>mb_objs := (mb_objs (sys_fn S))(p := None)\<rparr>,
      calls = (calls S)(p := None)\<rparr>"
| mb_next_others: "mb_others (sys_fn S) s \<Longrightarrow> mb_next B rst S [] (S\<lparr>sys_fn := s\<rparr>)"
| mb_next_reset: "rst \<Longrightarrow> qed_mcp_reset (calm B) i (sys_fn S) = (r, s) \<Longrightarrow> mb_next B rst S [] (S\<lparr>sys_fn := s\<rparr>)"

text \<open>The start: the function has its mailbox and no command was sent.\<close>

definition mb_start :: "'d mb_sys \<Rightarrow> bool" where
  "mb_start S \<longleftrightarrow> mcp_info (sys_fn S) \<noteq> None \<and> cmd_list (mcp_of (sys_fn S)) = []
     \<and> cmd_elems (sys_fn S) = Map.empty \<and> mb_objs (sys_fn S) = Map.empty \<and> calls S = Map.empty"

end
