(* ===== verification/Qed_Transitions.thy ===== *)
theory Qed_Transitions
  imports Main
begin

text \<open>
  Components that several parties drive at once, as transition systems whose transitions show lists of events:
  executions with their traces, invariants, and the contract under which one system implements another.
\<close>

section \<open>Executions\<close>

inductive exec :: "('s \<Rightarrow> 'e list \<Rightarrow> 's \<Rightarrow> bool) \<Rightarrow> 's \<Rightarrow> 'e list \<Rightarrow> 's \<Rightarrow> bool"
  for nxt :: "'s \<Rightarrow> 'e list \<Rightarrow> 's \<Rightarrow> bool" where
  exec_refl: "exec nxt s [] s"
| exec_next: "exec nxt s tr s1 \<Longrightarrow> nxt s1 es s2 \<Longrightarrow> exec nxt s (tr @ es) s2"

inductive_simps exec_empty_trace: "exec nxt s [] s'"

lemma exec_one: "nxt s es s' \<Longrightarrow> exec nxt s es s'"
  using exec_next [OF exec_refl, of nxt s es s'] by simp

lemma exec_trans: "exec nxt s1 tr' s2 \<Longrightarrow> exec nxt s tr s1 \<Longrightarrow> exec nxt s (tr @ tr') s2"
proof (induction rule: exec.induct)
  case (exec_next s1 tr' s2 es s3)
  then show ?case using exec.exec_next [of nxt s "tr @ tr'" s2 es s3] by simp
qed simp

text \<open>A system in which each transition shows one event.\<close>

primrec path :: "('s \<Rightarrow> 'e \<Rightarrow> 's \<Rightarrow> bool) \<Rightarrow> 's \<Rightarrow> 'e list \<Rightarrow> 's \<Rightarrow> bool" where
  "path nxt s [] s' \<longleftrightarrow> s' = s"
| "path nxt s (e # es) s' \<longleftrightarrow> (\<exists>s1. nxt s e s1 \<and> path nxt s1 es s')"

lemma path_append: "path nxt s (es @ fs) s' \<longleftrightarrow> (\<exists>s1. path nxt s es s1 \<and> path nxt s1 fs s')"
  by (induction es arbitrary: s) auto

lemma path_join: "path nxt s es s1 \<Longrightarrow> path nxt s1 fs s' \<Longrightarrow> path nxt s (es @ fs) s'"
  by (auto simp: path_append)

section \<open>Invariants\<close>

text \<open>A system with an invariant that its start has and its transitions keep.\<close>

locale invariant =
  fixes start :: "'s \<Rightarrow> bool"
    and nxt :: "'s \<Rightarrow> 'e list \<Rightarrow> 's \<Rightarrow> bool"
    and inv :: "'s \<Rightarrow> bool"
  assumes inv_start: "start s \<Longrightarrow> inv s"
    and inv_next: "inv s \<Longrightarrow> nxt s es s' \<Longrightarrow> inv s'"
begin

lemma exec_inv: "exec nxt s tr s' \<Longrightarrow> inv s \<Longrightarrow> inv s'"
  by (induction rule: exec.induct) (auto intro: inv_next)

lemma run_inv: "start s \<Longrightarrow> exec nxt s tr s' \<Longrightarrow> inv s'"
  by (rule exec_inv [OF _ inv_start])

end

section \<open>Refinement\<close>

text \<open>
  A system that implements a second one: the events of a transition are those of a path between what \<open>abs\<close> shows
  of its two states. So the traces of the first are traces of the second.
\<close>

locale refinement = invariant +
  fixes astart :: "'a \<Rightarrow> bool"
    and anxt :: "'a \<Rightarrow> 'e \<Rightarrow> 'a \<Rightarrow> bool"
    and abs :: "'s \<Rightarrow> 'a"
  assumes abs_start: "start s \<Longrightarrow> astart (abs s)"
    and abs_next: "inv s \<Longrightarrow> nxt s es s' \<Longrightarrow> path anxt (abs s) es (abs s')"
begin

lemma exec_refine: "exec nxt s tr s' \<Longrightarrow> inv s \<Longrightarrow> path anxt (abs s) tr (abs s')"
proof (induction rule: exec.induct)
  case (exec_next s tr s1 es s2)
  then show ?case using path_join [OF _ abs_next [OF exec_inv]] by blast
qed simp

lemma run_refine: "start s \<Longrightarrow> exec nxt s tr s' \<Longrightarrow> astart (abs s) \<and> path anxt (abs s) tr (abs s')"
  using abs_start exec_refine inv_start by blast

end

end
