(* ===== verification/Qed_Mcp_Frame.thy ===== *)
theory Qed_Mcp_Frame
  imports Qed_Mcp_Steps Qed_Transitions
begin

unbundle bit_operations_syntax

text \<open>
  What the operations of the mailbox leave alone: accesses of the device and the reading of the offsets keep the
  list of the commands, its elements and the parameters of the calls. On what is left, \<open>mb_core\<close>, each operation
  has a short description.
\<close>

named_theorems mb_frame_simps

section \<open>Accesses\<close>

lemma mcp_rd_keeps [mb_frame_simps]:
  "mcp_info (snd (mcp_rd E i a s)) = mcp_info s" "cmd_elems (snd (mcp_rd E i a s)) = cmd_elems s"
  "mb_objs (snd (mcp_rd E i a s)) = mb_objs s" "mcp_of (snd (mcp_rd E i a s)) = mcp_of s"
  by (simp_all add: mcp_rd_def mcp_of_def split: prod.split)

lemma mcp_wr_keeps [mb_frame_simps]:
  "mcp_info (mcp_wr E i a v s) = mcp_info s" "cmd_elems (mcp_wr E i a v s) = cmd_elems s"
  "mb_objs (mcp_wr E i a v s) = mb_objs s" "mcp_of (mcp_wr E i a v s) = mcp_of s"
  by (simp_all add: mcp_wr_def mcp_of_def)

lemma DRV_MB_keeps [mb_frame_simps]:
  "mcp_info (snd (DRV_MB_RD E i a s)) = mcp_info s" "cmd_elems (snd (DRV_MB_RD E i a s)) = cmd_elems s"
  "mb_objs (snd (DRV_MB_RD E i a s)) = mb_objs s" "mcp_of (snd (DRV_MB_RD E i a s)) = mcp_of s"
  "mcp_info (DRV_MB_WR E i a v s) = mcp_info s" "cmd_elems (DRV_MB_WR E i a v s) = cmd_elems s"
  "mb_objs (DRV_MB_WR E i a v s) = mb_objs s" "mcp_of (DRV_MB_WR E i a v s) = mcp_of s"
  by (simp_all add: DRV_MB_RD_def DRV_MB_WR_def mb_frame_simps)

lemma mcp_delay_keeps [mb_frame_simps]:
  "mcp_info (mcp_udelay E n s) = mcp_info s" "cmd_elems (mcp_udelay E n s) = cmd_elems s"
  "mb_objs (mcp_udelay E n s) = mb_objs s" "mcp_of (mcp_udelay E n s) = mcp_of s"
  "mcp_info (mcp_msleep E n s) = mcp_info s" "cmd_elems (mcp_msleep E n s) = cmd_elems s"
  "mb_objs (mcp_msleep E n s) = mb_objs s" "mcp_of (mcp_msleep E n s) = mcp_of s"
  by (simp_all add: mcp_udelay_def mcp_msleep_def mcp_of_def)

lemma mb_delay_keeps [mb_frame_simps]:
  "mcp_info (mb_delay E p us n s) = mcp_info s" "cmd_elems (mb_delay E p us n s) = cmd_elems s"
  "mb_objs (mb_delay E p us n s) = mb_objs s" "mcp_of (mb_delay E p us n s) = mcp_of s"
  by (simp_all add: mb_delay_def mb_frame_simps)

lemma mcp_upd_fields [mb_frame_simps]:
  "mcp_info (mcp_upd f s) = Some (f (mcp_of s))" "cmd_elems (mcp_upd f s) = cmd_elems s"
  "mb_objs (mcp_upd f s) = mb_objs s" "mcp_of (mcp_upd f s) = f (mcp_of s)" "mhw (mcp_upd f s) = mhw s"
  by (simp_all add: mcp_upd_def mcp_of_def)

lemma mb_put_fields [mb_frame_simps]:
  "mcp_info (mb_put p f s) = mcp_info s" "cmd_elems (mb_put p f s) = cmd_elems s"
  "mb_objs (mb_put p f s) = (mb_objs s)(p \<mapsto> f (mb_at s p))" "mcp_of (mb_put p f s) = mcp_of s"
  "mhw (mb_put p f s) = mhw s"
  by (simp_all add: mb_put_def mcp_of_def)

lemma mcp_me_keeps [mb_frame_simps]:
  "mcp_info (snd (mcp_me_read E s)) = mcp_info s" "cmd_elems (snd (mcp_me_read E s)) = cmd_elems s"
  "mb_objs (snd (mcp_me_read E s)) = mb_objs s" "mcp_of (snd (mcp_me_read E s)) = mcp_of s"
  by (simp_all add: mcp_me_read_def mcp_of_def split: prod.split)

lemma mhw_upd_keeps [mb_frame_simps]:
  "mcp_of (s\<lparr>mhw := h\<rparr>) = mcp_of s" "mcp_of (s\<lparr>cmd_elems := e\<rparr>) = mcp_of s" "mcp_of (s\<lparr>mb_objs := b\<rparr>) = mcp_of s"
  "mb_at (s\<lparr>mhw := h\<rparr>) p = mb_at s p" "elem_at (s\<lparr>mhw := h\<rparr>) a = elem_at s a"
  by (simp_all add: mcp_of_def mb_at_def elem_at_def)

section \<open>Finding the mailbox\<close>

text \<open>
  Reading the offsets changes addresses and the sequence number, nothing else that matters here.
\<close>

definition mb_kept :: "'d mcp_fn \<Rightarrow> 'd mcp_fn \<Rightarrow> bool" where
  "mb_kept s s' \<longleftrightarrow> (mcp_info s' = None \<longrightarrow> mcp_info s = None) \<and> cmd_list (mcp_of s') = cmd_list (mcp_of s)
     \<and> cmd_elems s' = cmd_elems s \<and> mb_objs s' = mb_objs s"

lemma mb_kept_refl [simp]: "mb_kept s s"
  by (simp add: mb_kept_def)

lemma mb_kept_trans: "mb_kept s s' \<Longrightarrow> mb_kept s' s'' \<Longrightarrow> mb_kept s s''"
  by (auto simp: mb_kept_def)

lemma shmem_wait_kept: "mb_kept s (snd (shmem_wait E i n s))"
proof (induction n arbitrary: s)
  case (Suc n)
  let ?s = "mcp_msleep E QED_MCP_SHMEM_RDY_ITER_MS s"
  let ?r = "mcp_rd E i (mfw_mb_addr (mcp_of ?s) + 0) ?s"
  let ?s2 = "mcp_upd (\<lambda>m. m\<lparr>mfw_mb_length := ucast (fst ?r)\<rparr>) (snd ?r)"
  have "mb_kept s ?s2" by (simp add: mb_kept_def mb_frame_simps)
  then show ?case using mb_kept_trans [OF _ Suc.IH [of ?s2]] by (simp add: Let_def split_beta)
qed simp

text \<open>Rules that walk through a chain of reads and updates.\<close>

lemma kept_rd:
  assumes "mb_kept s0 s" "\<And>v s'. mb_kept s0 s' \<Longrightarrow> mb_kept s0 (snd (f v s'))"
  shows "mb_kept s0 (snd (let (v, s') = mcp_rd E i a s in f v s'))"
  using assms(1) assms(2) [of "snd (mcp_rd E i a s)" "fst (mcp_rd E i a s)"]
  by (simp add: mb_kept_def mb_frame_simps split_beta)

lemma kept_wait:
  assumes "mb_kept s0 s" "\<And>v s'. mb_kept s0 s' \<Longrightarrow> mb_kept s0 (snd (f v s'))"
  shows "mb_kept s0 (snd (let (v, s') = (if c then (True, s) else shmem_wait E i n s) in f v s'))"
  using assms(1) assms(2) [of s True] mb_kept_trans [OF assms(1) shmem_wait_kept [of s E i n]]
    assms(2) [of "snd (shmem_wait E i n s)" "fst (shmem_wait E i n s)"]
  by (simp add: split_beta)

lemma kept_upd:
  assumes "mb_kept s0 s" "\<And>m. cmd_list (g m) = cmd_list m"
  shows "mb_kept s0 (mcp_upd g s)"
  using assms by (simp add: mb_kept_def mb_frame_simps)

lemma kept_let_upd:
  assumes "mb_kept s0 s" "\<And>m. cmd_list (g m) = cmd_list m" "\<And>s'. mb_kept s0 s' \<Longrightarrow> mb_kept s0 (snd (f s'))"
  shows "mb_kept s0 (snd (let s' = mcp_upd g s in f s'))"
  using assms(3) [OF kept_upd [OF assms(1,2)]] by simp

lemma kept_let: "(\<And>x. mb_kept s0 (snd (f x))) \<Longrightarrow> mb_kept s0 (snd (let x = v in f x))"
  by simp

lemma kept_if: "mb_kept s0 (snd x) \<Longrightarrow> mb_kept s0 (snd y) \<Longrightarrow> mb_kept s0 (snd (if c then x else y))"
  by simp

lemma load_offsets_kept: "mb_kept s (snd (qed_load_mcp_offsets E i s))"
  unfolding qed_load_mcp_offsets_def DRV_MB_RD_def
  by (rule kept_rd kept_wait kept_let_upd kept_if kept_let | simp add: kept_upd)+

lemma port_init_kept: "mb_kept s (qed_mcp_cmd_port_init E i s)"
  by (simp add: qed_mcp_cmd_port_init_def Let_def split_beta mb_kept_def mb_frame_simps)

lemma reread_kept: "mb_kept s (qed_mcp_reread_offsets E i s)"
proof -
  let ?s = "snd (mcp_rd E i MISCS_REG_GENERIC_POR_0 s)"
  have "mb_kept s ?s" by (simp add: mb_kept_def mb_frame_simps)
  then show ?thesis
    using mb_kept_trans [OF mb_kept_trans [OF _ load_offsets_kept [of ?s E i]] port_init_kept]
    by (simp add: qed_mcp_reread_offsets_def Let_def split_beta)
qed

section \<open>The operations\<close>

lemma update_pending_cases:
  obtains (again) s' where "qed_mcp_update_pending_cmd E i s = (RC_ERR EAGAIN, s')"
      "mcp_info s' = mcp_info s" "cmd_elems s' = cmd_elems s" "mb_objs s' = mb_objs s"
  | (lost) s' where "qed_mcp_update_pending_cmd E i s = (RC_ERR EINVAL, s')"
      "qed_mcp_cmd_get_elem s (drv_mb_seq (mcp_of s)) = None"
      "mcp_info s' = mcp_info s" "cmd_elems s' = cmd_elems s" "mb_objs s' = mb_objs s"
  | (got) a p r v s' where "qed_mcp_update_pending_cmd E i s = (RC_OK, s')"
      "qed_mcp_cmd_get_elem s (drv_mb_seq (mcp_of s)) = Some a" "p = p_mb_params (elem_at s a)"
      "ucast (r AND FW_MSG_SEQ_NUMBER_MASK) = drv_mb_seq (mcp_of s)" "mcp_info s' = mcp_info s"
      "cmd_elems s' = (cmd_elems s)(a \<mapsto> (elem_at s a)\<lparr>b_is_completed := True\<rparr>)"
      "mb_objs s' = (mb_objs s)(p \<mapsto> (mb_at s p)\<lparr>mcp_resp := r, mcp_param := v\<rparr>)"
      "r = fst (DRV_MB_RD E i fw_mb_header_off s)"
proof -
  let ?r = "fst (DRV_MB_RD E i fw_mb_header_off s)"
  let ?s = "snd (DRV_MB_RD E i fw_mb_header_off s)"
  let ?q = "ucast (?r AND FW_MSG_SEQ_NUMBER_MASK) :: u16"
  have g: "qed_mcp_cmd_get_elem ?s = qed_mcp_cmd_get_elem s" "elem_at ?s = elem_at s" "mb_at ?s = mb_at s"
    by (simp_all add: fun_eq_iff qed_mcp_cmd_get_elem_def elem_at_def mb_at_def mb_frame_simps)
  consider "?q \<noteq> drv_mb_seq (mcp_of s)"
    | "?q = drv_mb_seq (mcp_of s)" "qed_mcp_cmd_get_elem s ?q = None"
    | a where "?q = drv_mb_seq (mcp_of s)" "qed_mcp_cmd_get_elem s ?q = Some a" by fastforce
  then show thesis
  proof cases
    case 1
    then show thesis using again [of ?s]
      by (simp add: qed_mcp_update_pending_cmd_def Let_def split_beta mb_frame_simps)
  next
    case 2
    then show thesis using lost [of ?s]
      by (simp add: qed_mcp_update_pending_cmd_def Let_def split_beta mb_frame_simps g)
  next
    case (3 a)
    let ?p = "p_mb_params (elem_at s a)"
    let ?s1 = "mb_put ?p (\<lambda>b. b\<lparr>mcp_resp := ?r\<rparr>) ?s"
    let ?v = "fst (DRV_MB_RD E i fw_mb_param_off ?s1)"
    have "?q = drv_mb_seq (mcp_of s)" by (rule 3)
    then show thesis
      using 3(2) by (intro got [of "snd (qed_mcp_update_pending_cmd E i s)" a ?p ?r ?v])
        (auto simp: qed_mcp_update_pending_cmd_def Let_def split_beta mb_frame_simps g mb_at_def elem_at_def
          mb_put_def prod_eq_iff)
  qed
qed

lemma mb_send_cases:
  obtains (nomem) s' where "mb_send E i fr p s = (None, s')" "fr_elem fr = None" "mcp_info s' \<noteq> None"
      "cmd_list (mcp_of s') = cmd_list (mcp_of s)" "cmd_elems s' = cmd_elems s" "mb_objs s' = mb_objs s"
  | (sent) a s' where "mb_send E i fr p s = (Some a, s')" "fr_elem fr = Some a" "mcp_info s' \<noteq> None"
      "cmd_list (mcp_of s') = a # cmd_list (mcp_of s)"
      "cmd_elems s' = (cmd_elems s)(a \<mapsto> \<lparr>p_mb_params = p, expected_seq_num = drv_mb_seq (mcp_of s'),
         b_is_completed = False\<rparr>)" "mb_objs s' = mb_objs s"
proof -
  note k = reread_kept [of s E i, unfolded mb_kept_def]
  show thesis
  proof (cases "fr_elem fr")
    case None
    then show thesis using k
      by (intro nomem [of "snd (mb_send E i fr p s)"])
        (auto simp: mb_send_def Let_def qed_mcp_cmd_add_elem_def mb_frame_simps prod_eq_iff)
  next
    case (Some a)
    then show thesis using k
      by (intro sent [of a "snd (mb_send E i fr p s)"])
        (auto simp: mb_send_def Let_def qed_mcp_cmd_add_elem_def mb_frame_simps prod_eq_iff
          mcp_cmd_and_union_write_def list_add_def)
  qed
qed

lemma del_elem_fields [mb_frame_simps]:
  "mcp_info (qed_mcp_cmd_del_elem a s) = Some ((mcp_of s)\<lparr>cmd_list := list_del a (cmd_list (mcp_of s))\<rparr>)"
  "mhw (qed_mcp_cmd_del_elem a s) = mhw s"
  "mcp_of (qed_mcp_cmd_del_elem a s) = (mcp_of s)\<lparr>cmd_list := list_del a (cmd_list (mcp_of s))\<rparr>"
  "cmd_elems (qed_mcp_cmd_del_elem a s) = (cmd_elems s)(a := None)" "mb_objs (qed_mcp_cmd_del_elem a s) = mb_objs s"
  by (simp_all add: qed_mcp_cmd_del_elem_def Let_def mb_frame_simps)

lemma finish_fields:
  "mcp_info (mb_finish p a s) \<noteq> None" "cmd_list (mcp_of (mb_finish p a s)) = list_del a (cmd_list (mcp_of s))"
  "drv_mb_seq (mcp_of (mb_finish p a s)) = drv_mb_seq (mcp_of s)"
  "cmd_elems (mb_finish p a s) = (cmd_elems s)(a := None)"
  "mb_objs (mb_finish p a s) =
     (mb_objs s)(p \<mapsto> (mb_at s p)\<lparr>mcp_resp := mcp_resp (mb_at s p) AND FW_MSG_CODE_MASK\<rparr>)"
  by (simp_all add: mb_finish_def Let_def mb_frame_simps mb_at_def)

lemma cpu_info_keeps [mb_frame_simps]:
  "mcp_info (qed_mcp_print_cpu_info E i s) = mcp_info s" "cmd_elems (qed_mcp_print_cpu_info E i s) = cmd_elems s"
  "mb_objs (qed_mcp_print_cpu_info E i s) = mb_objs s" "mcp_of (qed_mcp_print_cpu_info E i s) = mcp_of s"
  by (simp_all add: qed_mcp_print_cpu_info_def Let_def split_beta mb_frame_simps)

lemma give_up_fields:
  fixes B :: "'d bus" and s :: "'d mcp_fn" and p a i :: nat and err :: qed_hw_err_type
  defines "s' \<equiv> mcp_err_notify (calm B) i err (mb_give_up (calm B) i p a s)"
  shows "mcp_info s' \<noteq> None" "cmd_list (mcp_of s') = list_del a (cmd_list (mcp_of s))"
    "drv_mb_seq (mcp_of s') = drv_mb_seq (mcp_of s)"
    "cmd_elems s' = (cmd_elems s)(a := None)" "mb_objs s' = mb_objs s"
  by (simp_all add: s'_def mcp_err_notify_def mb_give_up_def calm_def Let_def qed_mcp_cmd_set_blocking_def mb_frame_simps)

end
