(* ===== verification/Qed_Mcp_Inv.thy ===== *)
theory Qed_Mcp_Inv
  imports Qed_Mcp_Frame
begin

unbundle bit_operations_syntax

text \<open>
  The invariant of the mailbox under interleaved calls, and the mailbox with one slot that it implements.
\<close>

section \<open>The invariant\<close>

text \<open>The element of the list a call waits for.\<close>

definition mb_elem :: "mb_call \<Rightarrow> nat option" where
  "mb_elem t = (case t_pc t of MbResp _ a \<Rightarrow> Some a | MbLate a \<Rightarrow> Some a | _ \<Rightarrow> None)"

lemma mb_elem_pc [simp]:
  "mb_elem (t\<lparr>t_pc := MbFree n\<rparr>) = None" "mb_elem (t\<lparr>t_pc := MbResp n a\<rparr>) = Some a"
  "mb_elem (t\<lparr>t_pc := MbLate a\<rparr>) = Some a" "mb_elem (t\<lparr>t_pc := MbDone r\<rparr>) = None"
  by (simp_all add: mb_elem_def)

text \<open>
  The elements of the list are those of the calls that wait, one each, and they point to the parameters of their
  calls. A command that is not completed is the first of the list and carries the current sequence number;
  the response of a completed one carries its own.
\<close>

definition mb_ok ::
  "nat list \<Rightarrow> (nat \<rightharpoonup> qed_mcp_cmd_elem) \<Rightarrow> (nat \<rightharpoonup> qed_mcp_mb_params) \<Rightarrow> u16 \<Rightarrow> (nat \<rightharpoonup> mb_call) \<Rightarrow> bool" where
  "mb_ok L es os q cs \<longleftrightarrow> distinct L \<and> dom es = set L \<and> dom os = dom cs
     \<and> (\<forall>a e. es a = Some e \<longrightarrow> (\<exists>t. cs (p_mb_params e) = Some t \<and> mb_elem t = Some a))
     \<and> (\<forall>p t a. cs p = Some t \<and> mb_elem t = Some a \<longrightarrow> (\<exists>e. es a = Some e \<and> p_mb_params e = p))
     \<and> (\<forall>a e. es a = Some e \<and> \<not> b_is_completed e \<longrightarrow> hd L = a \<and> expected_seq_num e = q)
     \<and> (\<forall>a e b. es a = Some e \<and> b_is_completed e \<and> os (p_mb_params e) = Some b \<longrightarrow>
          ucast (mcp_resp b AND FW_MSG_SEQ_NUMBER_MASK) = expected_seq_num e)"

definition mb_inv :: "'d mb_sys \<Rightarrow> bool" where
  "mb_inv S \<longleftrightarrow> mcp_info (sys_fn S) \<noteq> None
     \<and> mb_ok (cmd_list (mcp_of (sys_fn S))) (cmd_elems (sys_fn S)) (mb_objs (sys_fn S))
         (drv_mb_seq (mcp_of (sys_fn S))) (calls S)"

lemma mb_okD:
  assumes "mb_ok L es os q cs"
  shows "distinct L" "dom es = set L" "dom os = dom cs"
    "es a = Some e \<Longrightarrow> \<exists>t. cs (p_mb_params e) = Some t \<and> mb_elem t = Some a"
    "cs p = Some t \<Longrightarrow> mb_elem t = Some a \<Longrightarrow> \<exists>e. es a = Some e \<and> p_mb_params e = p"
    "es a = Some e \<Longrightarrow> \<not> b_is_completed e \<Longrightarrow> hd L = a \<and> expected_seq_num e = q"
    "es a = Some e \<Longrightarrow> b_is_completed e \<Longrightarrow> os (p_mb_params e) = Some b \<Longrightarrow>
       ucast (mcp_resp b AND FW_MSG_SEQ_NUMBER_MASK) = expected_seq_num e"
  using assms unfolding mb_ok_def by blast+

lemma mb_okI:
  assumes "distinct L" "dom es = set L" "dom os = dom cs"
    "\<And>a e. es a = Some e \<Longrightarrow> \<exists>t. cs (p_mb_params e) = Some t \<and> mb_elem t = Some a"
    "\<And>p t a. cs p = Some t \<Longrightarrow> mb_elem t = Some a \<Longrightarrow> \<exists>e. es a = Some e \<and> p_mb_params e = p"
    "\<And>a e. es a = Some e \<Longrightarrow> \<not> b_is_completed e \<Longrightarrow> hd L = a \<and> expected_seq_num e = q"
    "\<And>a e b. es a = Some e \<Longrightarrow> b_is_completed e \<Longrightarrow> os (p_mb_params e) = Some b \<Longrightarrow>
       ucast (mcp_resp b AND FW_MSG_SEQ_NUMBER_MASK) = expected_seq_num e"
  shows "mb_ok L es os q cs"
  using assms unfolding mb_ok_def by blast

lemma mb_ok_owner:
  assumes "mb_ok L es os q cs" "es a = Some e" "es a' = Some e'" "p_mb_params e' = p_mb_params e"
  shows "a' = a" "e' = e"
  using mb_okD(4) [OF assms(1,2)] mb_okD(4) [OF assms(1,3)] assms by auto

text \<open>What a transition does to it, by kinds of change.\<close>

lemma ok_move:
  assumes ok: "mb_ok L es os q cs" and p: "cs p = Some t" "mb_elem t' = mb_elem t"
  shows "mb_ok L es os q (cs(p \<mapsto> t'))"
proof (rule mb_okI)
  note D = mb_okD [OF ok]
  show "distinct L" "dom es = set L" using D(1,2) .
  show "dom os = dom (cs(p \<mapsto> t'))" using D(3) p by auto
  show "\<exists>t. (cs(p \<mapsto> t')) (p_mb_params e) = Some t \<and> mb_elem t = Some a" if "es a = Some e" for a e
    using D(4) [OF that] p by auto
  show "\<exists>e. es a = Some e \<and> p_mb_params e = r" if "(cs(p \<mapsto> t')) r = Some u" "mb_elem u = Some a" for r u a
    using D(5) [of r _ a] p that by (auto split: if_splits)
qed (use mb_okD(6,7) [OF ok] in blast)+

lemma ok_seq:
  assumes "mb_ok L es os q cs" "\<And>a e. es a = Some e \<Longrightarrow> b_is_completed e"
  shows "mb_ok L es os q' cs"
  using assms unfolding mb_ok_def by blast

lemma ok_complete:
  assumes ok: "mb_ok L es os q cs" and a: "es a = Some e" "\<not> b_is_completed e"
    and r: "ucast (mcp_resp b AND FW_MSG_SEQ_NUMBER_MASK) = q"
  shows "mb_ok L (es(a \<mapsto> e\<lparr>b_is_completed := True\<rparr>)) (os(p_mb_params e \<mapsto> b)) q cs"
proof (rule mb_okI)
  note D = mb_okD [OF ok]
  let ?es = "es(a \<mapsto> e\<lparr>b_is_completed := True\<rparr>)"
  show "distinct L" using D(1) .
  show "dom ?es = set L" using D(2) a(1) by auto
  show "dom (os(p_mb_params e \<mapsto> b)) = dom cs" using D(3) D(4) [OF a(1)] by auto
  show "\<exists>t. cs (p_mb_params f) = Some t \<and> mb_elem t = Some c" if "?es c = Some f" for c f
    using D(4) [of c f] D(4) [OF a(1)] that by (auto split: if_splits)
  show "\<exists>f. ?es c = Some f \<and> p_mb_params f = p" if "cs p = Some t" "mb_elem t = Some c" for p t c
    using D(5) [OF that] a(1) by auto
  show "hd L = c \<and> expected_seq_num f = q" if "?es c = Some f" "\<not> b_is_completed f" for c f
    using D(6) [of c f] that by (auto split: if_splits)
  show "ucast (mcp_resp d AND FW_MSG_SEQ_NUMBER_MASK) = expected_seq_num f"
    if "?es c = Some f" "b_is_completed f" "(os(p_mb_params e \<mapsto> b)) (p_mb_params f) = Some d" for c f d
  proof (cases "c = a")
    case True
    then have "f = e\<lparr>b_is_completed := True\<rparr>" "d = b" using that by auto
    then show ?thesis using D(6) [OF a] r by simp
  next
    case False
    then have "es c = Some f" "p_mb_params f \<noteq> p_mb_params e" using that mb_ok_owner [OF ok a(1), of c f] by auto
    then show ?thesis using D(7) [of c f d] that by simp
  qed
qed

lemma ok_send:
  assumes ok: "mb_ok L es os q cs" and dn: "\<And>a e. es a = Some e \<Longrightarrow> b_is_completed e"
    and a: "es a = None" and p: "cs p = Some t" "mb_elem t = None" "mb_elem t' = Some a"
  shows "mb_ok (a # L) (es(a \<mapsto> \<lparr>p_mb_params = p, expected_seq_num = q', b_is_completed = False\<rparr>)) os q'
    (cs(p \<mapsto> t'))"
proof (rule mb_okI)
  note D = mb_okD [OF ok]
  let ?es = "es(a \<mapsto> \<lparr>p_mb_params = p, expected_seq_num = q', b_is_completed = False\<rparr>)"
  show "distinct (a # L)" using D(1,2) a by auto
  show "dom ?es = set (a # L)" using D(2) by auto
  show "dom os = dom (cs(p \<mapsto> t'))" using D(3) p by auto
  show "\<exists>t. (cs(p \<mapsto> t')) (p_mb_params f) = Some t \<and> mb_elem t = Some c" if "?es c = Some f" for c f
    using D(4) [of c f] p that by (auto split: if_splits)
  show "\<exists>f. ?es c = Some f \<and> p_mb_params f = r" if "(cs(p \<mapsto> t')) r = Some u" "mb_elem u = Some c" for r u c
    using D(5) [of r u c] p a that by (auto split: if_splits)
  show "hd (a # L) = c \<and> expected_seq_num f = q'" if "?es c = Some f" "\<not> b_is_completed f" for c f
    using dn [of c f] that by (auto split: if_splits)
  show "ucast (mcp_resp d AND FW_MSG_SEQ_NUMBER_MASK) = expected_seq_num f"
    if "?es c = Some f" "b_is_completed f" "os (p_mb_params f) = Some d" for c f d
    using D(7) [of c f d] that by (auto split: if_splits)
qed

lemma ok_del:
  assumes ok: "mb_ok L es os q cs" and p: "cs p = Some t" "mb_elem t = Some a" "mb_elem t' = None"
  shows "mb_ok (list_del a L) (es(a := None)) os q (cs(p \<mapsto> t'))"
proof (rule mb_okI)
  note D = mb_okD [OF ok]
  show "distinct (list_del a L)" using D(1) by simp
  show "dom (es(a := None)) = set (list_del a L)" using D(1,2) by auto
  show "dom os = dom (cs(p \<mapsto> t'))" using D(3) p by auto
  show "\<exists>t. (cs(p \<mapsto> t')) (p_mb_params f) = Some t \<and> mb_elem t = Some c" if "(es(a := None)) c = Some f" for c f
    using D(4) [of c f] p that by (auto split: if_splits)
  show "\<exists>f. (es(a := None)) c = Some f \<and> p_mb_params f = r"
    if "(cs(p \<mapsto> t')) r = Some u" "mb_elem u = Some c" for r u c
    using D(5) [of r u c] D(5) [OF p(1,2)] p that by (auto split: if_splits)
  show "hd (list_del a L) = c \<and> expected_seq_num f = q" if "(es(a := None)) c = Some f" "\<not> b_is_completed f" for c f
  proof -
    have "c \<noteq> a" "es c = Some f" using that(1) by (auto split: if_splits)
    moreover have "c \<in> set L" using D(2) calculation(2) by blast
    ultimately show ?thesis using D(6) [of c f] that(2) by (cases L) (auto simp: list_del_def)
  qed
  show "ucast (mcp_resp d AND FW_MSG_SEQ_NUMBER_MASK) = expected_seq_num f"
    if "(es(a := None)) c = Some f" "b_is_completed f" "os (p_mb_params f) = Some d" for c f d
    using D(7) [of c f d] that by (auto split: if_splits)
qed

lemma ok_obj:
  assumes ok: "mb_ok L es os q cs" and p: "cs p = Some t" "mb_elem t = None"
  shows "mb_ok L es (os(p \<mapsto> b)) q cs"
proof -
  note D = mb_okD [OF ok]
  have "p_mb_params e \<noteq> p" if "es a = Some e" for a e using D(4) [OF that] p by auto
  then show ?thesis using ok p unfolding mb_ok_def by (auto split: if_splits simp: insert_absorb)
qed

lemma ok_new:
  assumes ok: "mb_ok L es os q cs" and p: "cs p = None" "mb_elem t = None"
  shows "mb_ok L es (os(p \<mapsto> b)) q (cs(p \<mapsto> t))"
proof -
  note D = mb_okD [OF ok]
  have "p_mb_params e \<noteq> p" if "es a = Some e" for a e using D(4) [OF that] p by auto
  then show ?thesis using ok p unfolding mb_ok_def by (auto split: if_splits)
qed

lemma ok_leave:
  assumes ok: "mb_ok L es os q cs" and p: "cs p = Some t" "mb_elem t = None"
  shows "mb_ok L es (os(p := None)) q (cs(p := None))"
proof -
  note D = mb_okD [OF ok]
  have "p_mb_params e \<noteq> p" if "es a = Some e" for a e using D(4) [OF that] p by auto
  then show ?thesis using ok p unfolding mb_ok_def by (auto split: if_splits)
qed

section \<open>The mailbox with one slot\<close>

text \<open>
  What callers may rely on: a slot that holds at most one command (its owner and sequence number), and the answers
  that arrived and were not collected yet. A command is sent into the empty slot only; an answer goes to the
  owner of the command in the slot and carries its sequence number.
\<close>

record mbox =
  slot :: "(nat \<times> u16) option"
  answers :: "nat \<rightharpoonup> u32"

inductive mbox_next :: "mbox \<Rightarrow> mb_event \<Rightarrow> mbox \<Rightarrow> bool" where
  mbox_send: "slot m = None \<Longrightarrow> answers m p = None \<Longrightarrow> mbox_next m (MbSent p q) (m\<lparr>slot := Some (p, q)\<rparr>)"
| mbox_answer: "slot m = Some (p, q) \<Longrightarrow> ucast (h AND FW_MSG_SEQ_NUMBER_MASK) = q \<Longrightarrow>
    mbox_next m (MbAnswered p h) (m\<lparr>slot := None, answers := (answers m)(p \<mapsto> h)\<rparr>)"
| mbox_collect: "answers m p = Some h \<Longrightarrow> mbox_next m (MbCollected p h) (m\<lparr>answers := (answers m)(p := None)\<rparr>)"
| mbox_discard: "answers m p = Some h \<Longrightarrow> mbox_next m (MbGaveUp p) (m\<lparr>answers := (answers m)(p := None)\<rparr>)"
| mbox_abandon: "slot m = Some (p, q) \<Longrightarrow> mbox_next m (MbGaveUp p) (m\<lparr>slot := None\<rparr>)"

inductive_simps mbox_next_simps:
  "mbox_next m (MbSent p q) m'" "mbox_next m (MbAnswered p h) m'"
  "mbox_next m (MbCollected p h) m'" "mbox_next m (MbGaveUp p) m'"

definition mbox_start :: "mbox \<Rightarrow> bool" where
  "mbox_start m \<longleftrightarrow> slot m = None \<and> answers m = Map.empty"

text \<open>What it is in the driver: the command at the head of the list, and the responses of the completed ones.\<close>

definition mb_slot :: "nat list \<Rightarrow> (nat \<rightharpoonup> qed_mcp_cmd_elem) \<Rightarrow> (nat \<times> u16) option" where
  "mb_slot L es = (case L of [] \<Rightarrow> None | a # _ \<Rightarrow> (case es a of None \<Rightarrow> None | Some e \<Rightarrow>
     if b_is_completed e then None else Some (p_mb_params e, expected_seq_num e)))"

definition mb_answers ::
  "(nat \<rightharpoonup> qed_mcp_cmd_elem) \<Rightarrow> (nat \<rightharpoonup> qed_mcp_mb_params) \<Rightarrow> (nat \<rightharpoonup> mb_call) \<Rightarrow> nat \<rightharpoonup> u32" where
  "mb_answers es os cs p = (case cs p of None \<Rightarrow> None | Some t \<Rightarrow> (case mb_elem t of None \<Rightarrow> None | Some a \<Rightarrow>
     (case es a of None \<Rightarrow> None | Some e \<Rightarrow> if b_is_completed e then map_option mcp_resp (os p) else None)))"

definition mb_view ::
  "nat list \<Rightarrow> (nat \<rightharpoonup> qed_mcp_cmd_elem) \<Rightarrow> (nat \<rightharpoonup> qed_mcp_mb_params) \<Rightarrow> (nat \<rightharpoonup> mb_call) \<Rightarrow> mbox" where
  "mb_view L es os cs = \<lparr>slot = mb_slot L es, answers = mb_answers es os cs\<rparr>"

definition mb_abs :: "'d mb_sys \<Rightarrow> mbox" where
  "mb_abs S = mb_view (cmd_list (mcp_of (sys_fn S))) (cmd_elems (sys_fn S)) (mb_objs (sys_fn S)) (calls S)"

lemma mb_view_sel [simp]: "slot (mb_view L es os cs) = mb_slot L es" "answers (mb_view L es os cs) = mb_answers es os cs"
  by (simp_all add: mb_view_def)

lemma mb_slot_iff:
  assumes "mb_ok L es os q cs"
  shows "mb_slot L es = Some (p, r) \<longleftrightarrow>
    (\<exists>a e. es a = Some e \<and> \<not> b_is_completed e \<and> p_mb_params e = p \<and> expected_seq_num e = r)"
proof
  show "\<exists>a e. es a = Some e \<and> \<not> b_is_completed e \<and> p_mb_params e = p \<and> expected_seq_num e = r"
    if "mb_slot L es = Some (p, r)"
    using that by (auto simp: mb_slot_def split: list.splits option.splits if_splits)
  assume "\<exists>a e. es a = Some e \<and> \<not> b_is_completed e \<and> p_mb_params e = p \<and> expected_seq_num e = r"
  then obtain a e where e: "es a = Some e" "\<not> b_is_completed e" "p_mb_params e = p" "expected_seq_num e = r" by blast
  have "a \<in> set L" using mb_okD(2) [OF assms] e(1) by blast
  then obtain L' where "L = a # L'" using mb_okD(6) [OF assms e(1,2)] by (cases L) auto
  then show "mb_slot L es = Some (p, r)" using e by (simp add: mb_slot_def)
qed

lemma mb_slot_none:
  assumes "mb_ok L es os q cs"
  shows "mb_slot L es = None \<longleftrightarrow> (\<forall>a e. es a = Some e \<longrightarrow> b_is_completed e)"
proof -
  have "mb_slot L es = None \<longleftrightarrow> (\<forall>p r. mb_slot L es \<noteq> Some (p, r))" by (cases "mb_slot L es") auto
  also have "\<dots> \<longleftrightarrow> (\<forall>a e. es a = Some e \<longrightarrow> b_is_completed e)" unfolding mb_slot_iff [OF assms] by blast
  finally show ?thesis .
qed

lemma has_pending_slot:
  assumes "mb_ok (cmd_list (mcp_of s)) (cmd_elems s) os q cs"
  shows "qed_mcp_has_pending_cmd s \<longleftrightarrow> mb_slot (cmd_list (mcp_of s)) (cmd_elems s) \<noteq> None"
proof -
  have e: "cmd_elems s a \<noteq> None" if "a \<in> set (cmd_list (mcp_of s))" for a using mb_okD(2) [OF assms] that by blast
  show ?thesis
  proof (cases "cmd_list (mcp_of s)")
    case (Cons a L)
    then obtain x where "cmd_elems s a = Some x" using e [of a] by auto
    then show ?thesis using Cons by (simp add: qed_mcp_has_pending_cmd_def mb_slot_def elem_at_def)
  qed (simp add: qed_mcp_has_pending_cmd_def mb_slot_def)
qed

text \<open>The kinds of change, seen from outside.\<close>

lemma view_move:
  assumes "cs p = Some t" "mb_elem t' = mb_elem t"
  shows "mb_view L es os (cs(p \<mapsto> t')) = mb_view L es os cs"
  using assms by (auto simp: mb_view_def mb_answers_def fun_eq_iff)

lemma view_complete:
  assumes ok: "mb_ok L es os q cs" and a: "es a = Some e" "\<not> b_is_completed e"
  shows "mb_view L (es(a \<mapsto> e\<lparr>b_is_completed := True\<rparr>)) (os(p_mb_params e \<mapsto> b)) cs =
    (mb_view L es os cs)\<lparr>slot := None, answers := (mb_answers es os cs)(p_mb_params e \<mapsto> mcp_resp b)\<rparr>"
proof -
  note D = mb_okD [OF ok]
  have L: "L = a # tl L" using D(6) [OF a] D(2) a(1) by (metis domI empty_iff empty_set hd_Cons_tl)
  obtain t where t: "cs (p_mb_params e) = Some t" "mb_elem t = Some a" using D(4) [OF a(1)] by blast
  have "mb_elem u \<noteq> Some a" if "cs p = Some u" "p \<noteq> p_mb_params e" for p u using D(5) [OF that(1)] that a(1) by auto
  then have "mb_answers (es(a \<mapsto> e\<lparr>b_is_completed := True\<rparr>)) (os(p_mb_params e \<mapsto> b)) cs =
    (mb_answers es os cs)(p_mb_params e \<mapsto> mcp_resp b)"
    using t by (auto simp: mb_answers_def fun_eq_iff split: option.splits)
  moreover have "mb_slot L (es(a \<mapsto> e\<lparr>b_is_completed := True\<rparr>)) = None" by (subst L) (simp add: mb_slot_def)
  ultimately show ?thesis by (simp add: mb_view_def)
qed

lemma view_send:
  assumes ok: "mb_ok L es os q cs" and a: "es a = None" and p: "cs p = Some t" "mb_elem t = None" "mb_elem t' = Some a"
  shows "mb_view (a # L) (es(a \<mapsto> \<lparr>p_mb_params = p, expected_seq_num = q', b_is_completed = False\<rparr>)) os (cs(p \<mapsto> t')) =
    (mb_view L es os cs)\<lparr>slot := Some (p, q')\<rparr>"
proof -
  note D = mb_okD [OF ok]
  have "mb_elem u \<noteq> Some a" if "cs r = Some u" for r u using D(5) [OF that] a by auto
  then show ?thesis using p by (auto simp: mb_view_def mb_slot_def mb_answers_def fun_eq_iff split: option.splits)
qed

lemma view_del:
  assumes ok: "mb_ok L es os q cs" and p: "cs p = Some t" "mb_elem t = Some a" "mb_elem t' = None" and e: "es a = Some e"
  shows "mb_view (list_del a L) (es(a := None)) os (cs(p \<mapsto> t')) =
    (if b_is_completed e then (mb_view L es os cs)\<lparr>answers := (mb_answers es os cs)(p := None)\<rparr>
     else (mb_view L es os cs)\<lparr>slot := None\<rparr>)"
proof -
  note D = mb_okD [OF ok]
  note ok' = ok_del [OF ok p]
  have pe: "p_mb_params e = p" using D(5) [OF p(1,2)] e by auto
  have "mb_elem u \<noteq> Some a" if "cs r = Some u" "r \<noteq> p" for r u using D(5) [OF that(1)] that e pe by auto
  then have ans: "mb_answers (es(a := None)) os (cs(p \<mapsto> t')) = (mb_answers es os cs)(p := None)"
    using p by (auto simp: mb_answers_def fun_eq_iff split: option.splits)
  have "\<not> b_is_completed e \<Longrightarrow> mb_answers es os cs p = None" using p e by (simp add: mb_answers_def)
  moreover have "mb_slot (list_del a L) (es(a := None)) = (if b_is_completed e then mb_slot L es else None)"
  proof (cases "b_is_completed e")
    case True
    have "(es(a := None)) c = Some f \<and> \<not> b_is_completed f \<longleftrightarrow> es c = Some f \<and> \<not> b_is_completed f" for c f
      using True e by auto
    then have "mb_slot (list_del a L) (es(a := None)) = Some (r, k) \<longleftrightarrow> mb_slot L es = Some (r, k)" for r k
      unfolding mb_slot_iff [OF ok'] mb_slot_iff [OF ok] by blast
    then show ?thesis using True by (metis option.exhaust surj_pair)
  next
    case False
    have "b_is_completed f" if "(es(a := None)) c = Some f" for c f
      using D(6) [OF e False] D(6) [of c f] that by (auto split: if_splits)
    then show ?thesis using mb_slot_none [OF ok'] False by simp
  qed
  ultimately show ?thesis using ans by (auto simp: mb_view_def)
qed

lemma view_obj:
  assumes "cs p = Some t" "mb_elem t = None"
  shows "mb_view L es (os(p \<mapsto> b)) cs = mb_view L es os cs"
  using assms by (auto simp: mb_view_def mb_answers_def fun_eq_iff split: option.splits)

lemma view_new:
  assumes "cs p = None" "mb_elem t = None"
  shows "mb_view L es (os(p \<mapsto> b)) (cs(p \<mapsto> t)) = mb_view L es os cs"
  using assms by (auto simp: mb_view_def mb_answers_def fun_eq_iff split: option.splits)

lemma view_leave:
  assumes "cs p = Some t" "mb_elem t = None"
  shows "mb_view L es (os(p := None)) (cs(p := None)) = mb_view L es os cs"
  using assms by (auto simp: mb_view_def mb_answers_def fun_eq_iff split: option.splits)

section \<open>Allocation and release\<close>

text \<open>
  \<open>qed_mcp_cmd_init\<close> leaves the start of an execution or nothing, and \<open>qed_mcp_free\<close> frees every element of the list.
\<close>

lemma fold_del: "mcp_info s \<noteq> None \<Longrightarrow> cmd_elems (fold qed_mcp_cmd_del_elem L s) = (cmd_elems s) |` (- set L)
   \<and> mcp_info (fold qed_mcp_cmd_del_elem L s) \<noteq> None"
  by (induction L arbitrary: s) (simp_all add: qed_mcp_cmd_del_elem_def mcp_upd_def restrict_map_def fun_eq_iff)

lemma free_all:
  assumes "mcp_info s \<noteq> None" "dom (cmd_elems s) = set (cmd_list (mcp_of s))"
  shows "mcp_info (qed_mcp_free s) = None" "cmd_elems (qed_mcp_free s) = Map.empty"
proof -
  let ?s = "mcp_upd (\<lambda>m. m\<lparr>mfw_mb_cur := None, mfw_mb_shadow := None\<rparr>) s"
  obtain m where m: "mcp_info s = Some m" using assms(1) by blast
  have s: "mcp_info ?s \<noteq> None" "cmd_list (mcp_of ?s) = cmd_list (mcp_of s)" "cmd_elems ?s = cmd_elems s"
    by (simp_all add: mb_frame_simps)
  have "(cmd_elems s) |` (- set (cmd_list (mcp_of s))) = Map.empty"
    using assms(2) by (auto simp: restrict_map_def fun_eq_iff)
  then show "mcp_info (qed_mcp_free s) = None" "cmd_elems (qed_mcp_free s) = Map.empty"
    using fold_del [OF s(1), of "cmd_list (mcp_of s)"] by (simp_all add: qed_mcp_free_def m s Let_def)
qed

lemma init_outcome:
  assumes "qed_mcp_cmd_init E i mem b1 b2 s = (r, s')" "cmd_elems s = Map.empty" "mb_objs s = Map.empty"
  shows "r = RC_OK \<and> mb_start \<lparr>sys_fn = s', calls = Map.empty\<rparr> \<or>
    r = RC_ERR ENOMEM \<and> mcp_info s' = None \<and> cmd_elems s' = Map.empty"
proof (cases mem)
  case True
  let ?s = "s\<lparr>mcp_info := Some mcp_info_zero\<rparr>"
  obtain r1 s1 where l: "qed_load_mcp_offsets E i ?s = (r1, s1)" by (cases "qed_load_mcp_offsets E i ?s")
  have k: "mb_kept ?s s1" using load_offsets_kept [of ?s E i] l by simp
  have k': "mcp_info s1 \<noteq> None" "cmd_list (mcp_of s1) = []" "cmd_elems s1 = Map.empty" "mb_objs s1 = Map.empty"
    using k assms(2,3) by (auto simp: mb_kept_def mcp_of_def mcp_info_zero_def)
  show ?thesis
  proof (cases "r1 = RC_OK")
    case False
    then have "r = RC_OK" "s' = s1" using assms(1) True l by (simp_all add: qed_mcp_cmd_init_def Let_def)
    then show ?thesis using k' by (simp add: mb_start_def)
  next
    case ok: True
    let ?s2 = "mcp_upd (\<lambda>m. m\<lparr>mfw_mb_cur := (if b1 then Some (replicate (MFW_DRV_MSG_MAX_DWORDS (mfw_mb_length (mcp_of s1))) 0) else None),
      mfw_mb_shadow := (if b2 then Some (replicate (MFW_DRV_MSG_MAX_DWORDS (mfw_mb_length (mcp_of s1))) 0) else None)\<rparr>) s1"
    have s2: "mcp_info ?s2 \<noteq> None" "cmd_list (mcp_of ?s2) = []" "cmd_elems ?s2 = Map.empty" "mb_objs ?s2 = Map.empty"
      using k' by (simp_all add: mb_frame_simps)
    have "(r, s') = (if mfw_mb_cur (mcp_of ?s2) = None \<or> mfw_mb_shadow (mcp_of ?s2) = None
      then (RC_ERR ENOMEM, qed_mcp_free ?s2) else (RC_OK, ?s2))"
      using assms(1) True l ok by (simp add: qed_mcp_cmd_init_def Let_def)
    then show ?thesis using s2 free_all [of ?s2] by (auto simp: mb_start_def split: if_splits)
  qed
qed (use assms in \<open>auto simp: qed_mcp_cmd_init_def\<close>)

end
