(* ===== verification/Qed_Mcp_Sim.thy ===== *)
theory Qed_Mcp_Sim
  imports Qed_Mcp_Inv
begin

unbundle bit_operations_syntax

text \<open>
  Every transition of the interleaved mailbox keeps the invariant and is, seen from outside, a path of the mailbox with one
  slot over its events. The sections of a call are treated one by one.
\<close>

section \<open>Sections of a call\<close>

definition mb_good :: "'d mcp_fn \<Rightarrow> (nat \<rightharpoonup> mb_call) \<Rightarrow> bool" where
  "mb_good s cs \<longleftrightarrow> mcp_info s \<noteq> None
     \<and> mb_ok (cmd_list (mcp_of s)) (cmd_elems s) (mb_objs s) (drv_mb_seq (mcp_of s)) cs"

definition mb_seen :: "'d mcp_fn \<Rightarrow> (nat \<rightharpoonup> mb_call) \<Rightarrow> mbox" where
  "mb_seen s cs = mb_view (cmd_list (mcp_of s)) (cmd_elems s) (mb_objs s) cs"

lemma mb_inv_good: "mb_inv S \<longleftrightarrow> mb_good (sys_fn S) (calls S)"
  by (simp add: mb_inv_def mb_good_def)

lemma mb_abs_seen: "mb_abs S = mb_seen (sys_fn S) (calls S)"
  by (simp add: mb_abs_def mb_seen_def)

lemma mb_goodD:
  assumes "mb_good s cs"
  shows "mcp_info s \<noteq> None"
    "mb_ok (cmd_list (mcp_of s)) (cmd_elems s) (mb_objs s) (drv_mb_seq (mcp_of s)) cs"
  using assms by (simp_all add: mb_good_def)

lemma mb_good_same:
  assumes "mb_good s cs" "mcp_info s' = mcp_info s" "cmd_elems s' = cmd_elems s" "mb_objs s' = mb_objs s"
  shows "mb_good s' cs" "mb_seen s' cs = mb_seen s cs"
  using assms by (simp_all add: mb_good_def mb_seen_def mcp_of_def)

text \<open>Looking for the answer finds the element of the pending command, and no other.\<close>

lemma pending_found:
  assumes g: "mb_good s cs" and a: "cmd_elems s a = Some e" "\<not> b_is_completed e"
  shows "qed_mcp_cmd_get_elem s (drv_mb_seq (mcp_of s)) = Some a" "elem_at s a = e"
proof -
  note D = mb_okD [OF mb_goodD(2) [OF g]]
  have "a \<in> set (cmd_list (mcp_of s))" using D(2) a(1) by blast
  then obtain L where "cmd_list (mcp_of s) = a # L" using D(6) [OF a] by (cases "cmd_list (mcp_of s)") auto
  moreover show "elem_at s a = e" using a(1) by (simp add: elem_at_def)
  ultimately show "qed_mcp_cmd_get_elem s (drv_mb_seq (mcp_of s)) = Some a"
    using D(6) [OF a] by (simp add: qed_mcp_cmd_get_elem_def)
qed

lemma update_pending_good:
  assumes g: "mb_good s cs" and a: "cmd_elems s a = Some e" "\<not> b_is_completed e"
    and u: "qed_mcp_update_pending_cmd E i s = (r, s')"
  shows "mb_good s' cs" "path mbox_next (mb_seen s cs) (mb_found E i True r s) (mb_seen s' cs)" "r = RC_OK \<or> r = RC_ERR EAGAIN"
    "r = RC_OK \<Longrightarrow> slot (mb_seen s' cs) = None" "r = RC_OK \<Longrightarrow> b_is_completed (elem_at s' a)"
    "dom (cmd_elems s') = dom (cmd_elems s)"
proof -
  note f = pending_found [OF g a]
  note ok = mb_goodD(2) [OF g]
  consider (again) "r = RC_ERR EAGAIN" "mcp_info s' = mcp_info s" "cmd_elems s' = cmd_elems s" "mb_objs s' = mb_objs s"
    | (got) b where "r = RC_OK" "mcp_info s' = mcp_info s"
        "ucast (mcp_resp b AND FW_MSG_SEQ_NUMBER_MASK) = drv_mb_seq (mcp_of s)"
        "cmd_elems s' = (cmd_elems s)(a \<mapsto> e\<lparr>b_is_completed := True\<rparr>)"
        "mb_objs s' = (mb_objs s)(p_mb_params e \<mapsto> b)"
        "mcp_resp b = fst (DRV_MB_RD E i fw_mb_header_off s)"
  proof (cases rule: update_pending_cases [of E i s])
    case (got a' p h v s2)
    then have "a' = a" using f(1) by simp
    then show thesis using got u f that(2) [of "(mb_at s p)\<lparr>mcp_resp := h, mcp_param := v\<rparr>"] by simp
  qed (use u f that(1) in auto)
  note c = this
  have "mb_good s' cs \<and> path mbox_next (mb_seen s cs) (mb_found E i True r s) (mb_seen s' cs) \<and> (r = RC_OK \<longrightarrow> slot (mb_seen s' cs) = None)"
    using c
  proof cases
    case again
    then show ?thesis using mb_good_same [OF g again(2-4)] by (simp add: mb_found_def)
  next
    case got
    have of: "mcp_of s' = mcp_of s" using got(2) by (simp add: mcp_of_def)
    have "mb_slot (cmd_list (mcp_of s)) (cmd_elems s) = Some (p_mb_params e, drv_mb_seq (mcp_of s))"
      using mb_slot_iff [OF ok] mb_okD(6) [OF ok a] a by blast
    then have sl: "slot (mb_seen s cs) = Some (p_mb_params e, drv_mb_seq (mcp_of s))" by (simp add: mb_seen_def)
    have v: "mb_seen s' cs = (mb_seen s cs)\<lparr>slot := None,
      answers := (answers (mb_seen s cs))(p_mb_params e \<mapsto> mcp_resp b)\<rparr>"
      unfolding mb_seen_def of got(4,5) view_complete [OF ok a] mb_view_sel by (rule refl)
    have ev: "mb_found E i True r s = [MbAnswered (p_mb_params e) (mcp_resp b)]"
      using got(1,6) mb_okD(6) [OF ok a] f(2) by (simp add: mb_found_def)
    have "mbox_next (mb_seen s cs) (MbAnswered (p_mb_params e) (mcp_resp b)) (mb_seen s' cs)"
      unfolding v by (rule mbox_answer [OF sl got(3)])
    then have "path mbox_next (mb_seen s cs) (mb_found E i True r s) (mb_seen s' cs)" unfolding ev by simp
    moreover have "mb_good s' cs"
      using ok_complete [OF ok a got(3)] mb_goodD(1) [OF g] unfolding mb_good_def of got(2,4,5) by simp
    ultimately show ?thesis by (simp add: v)
  qed
  then show "mb_good s' cs" "path mbox_next (mb_seen s cs) (mb_found E i True r s) (mb_seen s' cs)"
    "r = RC_OK \<Longrightarrow> slot (mb_seen s' cs) = None" by blast+
  have "(r = RC_OK \<or> r = RC_ERR EAGAIN) \<and> dom (cmd_elems s') = dom (cmd_elems s) \<and>
    (r = RC_OK \<longrightarrow> b_is_completed (elem_at s' a))"
    using c
  proof cases
    case got
    have "a \<in> dom (cmd_elems s)" using a(1) by blast
    then show ?thesis using got(1,4) by (simp add: elem_at_def insert_absorb)
  qed simp
  then show "r = RC_OK \<or> r = RC_ERR EAGAIN" "dom (cmd_elems s') = dom (cmd_elems s)"
    "r = RC_OK \<Longrightarrow> b_is_completed (elem_at s' a)" by blast+
qed

lemma poll_free_good:
  assumes g: "mb_good s cs" and u: "mb_poll_free E i s = (r, s')"
  shows "mb_good s' cs" "path mbox_next (mb_seen s cs) (mb_found E i (qed_mcp_has_pending_cmd s) r s) (mb_seen s' cs)" "r = RC_OK \<or> r = RC_ERR EAGAIN"
    "r = RC_OK \<Longrightarrow> slot (mb_seen s' cs) = None" "dom (cmd_elems s') = dom (cmd_elems s)"
proof -
  note ok = mb_goodD(2) [OF g]
  have "mb_good s' cs \<and> path mbox_next (mb_seen s cs) (mb_found E i (qed_mcp_has_pending_cmd s) r s) (mb_seen s' cs) \<and> (r = RC_OK \<or> r = RC_ERR EAGAIN) \<and>
    (r = RC_OK \<longrightarrow> slot (mb_seen s' cs) = None) \<and> dom (cmd_elems s') = dom (cmd_elems s)"
  proof (cases "qed_mcp_has_pending_cmd s")
    case True
    then obtain a e where a: "cmd_elems s a = Some e" "\<not> b_is_completed e"
      using mb_slot_none [OF ok] has_pending_slot [OF ok] by auto
    have "qed_mcp_update_pending_cmd E i s = (r, s')" using u True by (simp add: mb_poll_free_def)
    note v = update_pending_good [OF g a this]
    show ?thesis using v(1-4,6) True by simp
  next
    case False
    then have "mb_slot (cmd_list (mcp_of s)) (cmd_elems s) = None" using has_pending_slot [OF ok] by blast
    then show ?thesis using u g False by (auto simp: mb_poll_free_def mb_seen_def mb_found_def)
  qed
  then show "mb_good s' cs" "path mbox_next (mb_seen s cs) (mb_found E i (qed_mcp_has_pending_cmd s) r s) (mb_seen s' cs)" "r = RC_OK \<or> r = RC_ERR EAGAIN"
    "r = RC_OK \<Longrightarrow> slot (mb_seen s' cs) = None" "dom (cmd_elems s') = dom (cmd_elems s)" by blast+
qed

lemma poll_resp_good:
  assumes g: "mb_good s cs" and p: "cs p = Some t" "mb_elem t = Some a" and u: "mb_poll_resp E i a s = (r, s')"
  shows "mb_good s' cs" "path mbox_next (mb_seen s cs) (mb_found E i (\<not> b_is_completed (elem_at s a)) r s) (mb_seen s' cs)" "r = RC_OK \<or> r = RC_ERR EAGAIN"
    "r = RC_OK \<Longrightarrow> b_is_completed (elem_at s' a)"
proof -
  obtain e where e: "cmd_elems s a = Some e" using mb_okD(5) [OF mb_goodD(2) [OF g] p] by blast
  have "mb_good s' cs \<and> path mbox_next (mb_seen s cs) (mb_found E i (\<not> b_is_completed (elem_at s a)) r s) (mb_seen s' cs) \<and> (r = RC_OK \<or> r = RC_ERR EAGAIN) \<and>
    (r = RC_OK \<longrightarrow> b_is_completed (elem_at s' a))"
  proof (cases "b_is_completed e")
    case True
    then show ?thesis using u g e by (simp add: mb_poll_resp_def elem_at_def mb_found_def)
  next
    case False
    then have "qed_mcp_update_pending_cmd E i s = (r, s')" using u e by (simp add: mb_poll_resp_def elem_at_def)
    note v = update_pending_good [OF g e False this]
    show ?thesis using v(1-3,5) e False by (simp add: elem_at_def)
  qed
  then show "mb_good s' cs" "path mbox_next (mb_seen s cs) (mb_found E i (\<not> b_is_completed (elem_at s a)) r s) (mb_seen s' cs)" "r = RC_OK \<or> r = RC_ERR EAGAIN"
    "r = RC_OK \<Longrightarrow> b_is_completed (elem_at s' a)" by blast+
qed

lemma send_good:
  assumes g: "mb_good s cs" and sl: "slot (mb_seen s cs) = None" and p: "cs p = Some t" "mb_elem t = None"
    and mem: "mem_fresh (fr_elem fr) s" and u: "mb_send E i fr p s = (x, s')" and t': "mb_elem t' = x"
  shows "mb_good s' (cs(p \<mapsto> t'))" "path mbox_next (mb_seen s cs) (case x of None \<Rightarrow> [] | Some a \<Rightarrow> [MbSent p (drv_mb_seq (mcp_of s'))]) (mb_seen s' (cs(p \<mapsto> t')))"
proof -
  note ok = mb_goodD(2) [OF g]
  have dn: "b_is_completed e" if "cmd_elems s a = Some e" for a e
    using sl mb_slot_none [OF ok] that by (simp add: mb_seen_def)
  have "mb_good s' (cs(p \<mapsto> t')) \<and> path mbox_next (mb_seen s cs) (case x of None \<Rightarrow> [] | Some a \<Rightarrow> [MbSent p (drv_mb_seq (mcp_of s'))]) (mb_seen s' (cs(p \<mapsto> t')))"
  proof (cases rule: mb_send_cases [of E i fr p s])
    case (nomem s2)
    then have s2: "x = None" "s2 = s'" using u by simp_all
    have "mb_ok (cmd_list (mcp_of s)) (cmd_elems s) (mb_objs s) (drv_mb_seq (mcp_of s')) (cs(p \<mapsto> t'))"
      using ok_move [OF ok_seq [OF ok dn] p(1)] p(2) t' s2 by simp
    then show ?thesis using nomem s2 view_move [of cs p t t'] p t' by (simp add: mb_good_def mb_seen_def)
  next
    case (sent a s2)
    then have s2: "x = Some a" "s2 = s'" using u by simp_all
    have a: "cmd_elems s a = None" using mem sent(2) by (simp add: mem_fresh_def)
    have t2: "mb_elem t' = Some a" using t' s2 by simp
    have v: "mb_seen s' (cs(p \<mapsto> t')) = (mb_seen s cs)\<lparr>slot := Some (p, drv_mb_seq (mcp_of s'))\<rparr>"
      using sent(4-6) unfolding mb_seen_def s2 by (simp add: view_send [OF ok a p t2])
    have "answers (mb_seen s cs) p = None" using p by (simp add: mb_seen_def mb_answers_def)
    then have "mbox_next (mb_seen s cs) (MbSent p (drv_mb_seq (mcp_of s'))) (mb_seen s' (cs(p \<mapsto> t')))" unfolding v by (rule mbox_send [OF sl])
    moreover have "mb_good s' (cs(p \<mapsto> t'))"
      using ok_send [OF ok dn a p t2] sent(3-6) unfolding mb_good_def s2 by simp
    ultimately show ?thesis by (simp add: s2(1))
  qed
  then show "mb_good s' (cs(p \<mapsto> t'))" "path mbox_next (mb_seen s cs) (case x of None \<Rightarrow> [] | Some a \<Rightarrow> [MbSent p (drv_mb_seq (mcp_of s'))]) (mb_seen s' (cs(p \<mapsto> t')))" by blast+
qed

text \<open>Taking an element off the list: the answer is collected, or the command abandoned.\<close>

lemma del_good:
  assumes g: "mb_good s cs" and p: "cs p = Some t" "mb_elem t = Some a" "mb_elem t' = None"
    and s': "mcp_info s' \<noteq> None" "cmd_list (mcp_of s') = list_del a (cmd_list (mcp_of s))"
      "drv_mb_seq (mcp_of s') = drv_mb_seq (mcp_of s)" "cmd_elems s' = (cmd_elems s)(a := None)"
    and ev: "ev = MbGaveUp p \<or> b_is_completed (elem_at s a) \<and> ev = MbCollected p (mcp_resp (mb_at s p))"
    and os: "mb_objs s' = mb_objs s \<or> (\<exists>b. mb_objs s' = (mb_objs s)(p \<mapsto> b))"
  shows "mb_good s' (cs(p \<mapsto> t'))" "mbox_next (mb_seen s cs) ev (mb_seen s' (cs(p \<mapsto> t')))"
proof -
  note ok = mb_goodD(2) [OF g]
  obtain e where e: "cmd_elems s a = Some e" "p_mb_params e = p" using mb_okD(5) [OF ok p(1,2)] by blast
  note okd = ok_del [OF ok p]
  let ?m = "mb_view (list_del a (cmd_list (mcp_of s))) ((cmd_elems s)(a := None)) (mb_objs s) (cs(p \<mapsto> t'))"
  have m: "mb_seen s' (cs(p \<mapsto> t')) = ?m"
    using os view_obj [of "cs(p \<mapsto> t')" p t'] p(3) unfolding mb_seen_def s' by auto
  show "mb_good s' (cs(p \<mapsto> t'))"
    using os okd ok_obj [OF okd, of p t'] p(3) s'(1) unfolding mb_good_def s'(2-4) by auto
  have "mbox_next (mb_seen s cs) ev ?m"
  proof (cases "b_is_completed e")
    case True
    have "p \<in> dom (mb_objs s)" using mb_okD(3) [OF ok] p(1) by blast
    then obtain b where b: "mb_objs s p = Some b" by blast
    then have "answers (mb_seen s cs) p = Some (mcp_resp b)"
      using p e True by (simp add: mb_seen_def mb_answers_def)
    note st = mbox_collect [OF this] mbox_discard [OF this]
    have "ev = MbGaveUp p \<or> ev = MbCollected p (mcp_resp b)" using ev b by (auto simp: mb_at_def)
    then show ?thesis using st True unfolding view_del [OF ok p e(1)] by (auto simp: mb_seen_def)
  next
    case False
    have "slot (mb_seen s cs) = Some (p, expected_seq_num e)"
      using mb_slot_iff [OF ok] e False unfolding mb_seen_def mb_view_sel by blast
    note st = mbox_abandon [OF this]
    have "ev = MbGaveUp p" using ev e(1) False by (simp add: elem_at_def)
    then show ?thesis using st False unfolding view_del [OF ok p e(1)] by (simp add: mb_seen_def)
  qed
  then show "mbox_next (mb_seen s cs) ev (mb_seen s' (cs(p \<mapsto> t')))" unfolding m .
qed

lemma move_good:
  assumes "mb_good s cs" "cs p = Some t" "mb_elem t' = mb_elem t"
  shows "mb_good s (cs(p \<mapsto> t'))" "mb_seen s (cs(p \<mapsto> t')) = mb_seen s cs"
  using assms ok_move [of _ _ _ _ cs p t t'] by (simp_all add: mb_good_def mb_seen_def view_move)

section \<open>Transitions\<close>

lemma turn_free_good:
  assumes g: "mb_good s cs" and p: "cs p = Some t" and pc: "t_pc t = MbFree cnt" and mem: "mem_fresh mem s"
    and u: "mb_turn E mem p t s = (t', s')"
  shows "mb_good s' (cs(p \<mapsto> t'))" "path mbox_next (mb_seen s cs) (mb_events E mem p t s) (mb_seen s' (cs(p \<mapsto> t')))"
    "t_pc t' \<noteq> MbDone (RC_ERR EINVAL)"
proof -
  obtain r s1 where s1: "mb_poll_free E (t_ptt t) s = (r, s1)" by (cases "mb_poll_free E (t_ptt t) s")
  note q = poll_free_good [OF g s1]
  have el: "mb_elem t = None" using pc by (simp add: mb_elem_def)
  let ?ev = "case t_pc t' of MbResp _ a \<Rightarrow> [MbSent p (drv_mb_seq (mcp_of s'))] | _ \<Rightarrow> []"
  have "mb_good s' (cs(p \<mapsto> t')) \<and> path mbox_next (mb_seen s1 cs) ?ev (mb_seen s' (cs(p \<mapsto> t'))) \<and>
    t_pc t' \<noteq> MbDone (RC_ERR EINVAL)"
  proof (cases "r = RC_OK \<and> cnt < t_max t")
    case True
    let ?fr = "\<lparr>fr_union = t_union t, fr_elem = mem\<rparr>"
    obtain x s2 where s2: "mb_send E (t_ptt t) ?fr p s1 = (x, s2)" by (cases "mb_send E (t_ptt t) ?fr p s1")
    have fr: "mem_fresh (fr_elem ?fr) s1" using mem q(5) by (auto simp: mem_fresh_def split: option.splits)
    have t': "mb_elem t' = x" "s' = s2" "t_pc t' \<noteq> MbDone (RC_ERR EINVAL)"
      "?ev = (case x of None \<Rightarrow> [] | Some a \<Rightarrow> [MbSent p (drv_mb_seq (mcp_of s'))])"
      using u True s1 s2 pc by (auto simp: mb_turn_def split: option.splits)
    have "slot (mb_seen s1 cs) = None" using q(4) True by blast
    note w = send_good [OF q(1) this p el fr s2 t'(1)]
    show ?thesis unfolding t'(4) using w t'(3) unfolding t'(2) by blast
  next
    case False
    then have t': "mb_elem t' = None" "t_pc t' \<noteq> MbDone (RC_ERR EINVAL)" "?ev = []"
      and k: "mcp_info s' = mcp_info s1" "cmd_elems s' = cmd_elems s1" "mb_objs s' = mb_objs s1"
      using u s1 pc q(3) by (auto simp: mb_turn_def Let_def mb_frame_simps split: if_splits)
    note v = mb_good_same [OF q(1) k]
    note w = move_good [OF v(1) p, of t']
    show ?thesis using v w t' el by simp
  qed
  moreover have "mb_events E mem p t s = mb_found E (t_ptt t) (qed_mcp_has_pending_cmd s) r s @ ?ev"
    by (simp add: mb_events_def u s1 pc)
  ultimately show "mb_good s' (cs(p \<mapsto> t'))" "path mbox_next (mb_seen s cs) (mb_events E mem p t s) (mb_seen s' (cs(p \<mapsto> t')))"
    "t_pc t' \<noteq> MbDone (RC_ERR EINVAL)" using path_join [OF q(2)] by simp_all
qed

lemma turn_resp_good:
  assumes g: "mb_good s cs" and p: "cs p = Some t" and pc: "t_pc t = MbResp cnt a"
    and u: "mb_turn E mem p t s = (t', s')"
  shows "mb_good s' (cs(p \<mapsto> t'))" "path mbox_next (mb_seen s cs) (mb_events E mem p t s) (mb_seen s' (cs(p \<mapsto> t')))"
    "t_pc t' \<noteq> MbDone (RC_ERR EINVAL)"
proof -
  let ?s = "mb_delay E p (t_usecs t) cnt s"
  obtain r s1 where s1: "mb_poll_resp E (t_ptt t) a ?s = (r, s1)" by (cases "mb_poll_resp E (t_ptt t) a ?s")
  have d: "mcp_info ?s = mcp_info s" "cmd_elems ?s = cmd_elems s" "mb_objs ?s = mb_objs s" by (simp_all add: mb_frame_simps)
  note g1 = mb_good_same [OF g d]
  have el: "mb_elem t = Some a" using pc by (simp add: mb_elem_def)
  note q = poll_resp_good [OF g1(1) p el s1, unfolded g1(2)]
  let ?ev = "if t_pc t' = MbDone RC_OK then [MbCollected p (mcp_resp (mb_at s1 p))] else []"
  have "mb_good s' (cs(p \<mapsto> t')) \<and> path mbox_next (mb_seen s1 cs) ?ev (mb_seen s' (cs(p \<mapsto> t'))) \<and>
    t_pc t' \<noteq> MbDone (RC_ERR EINVAL)"
  proof (cases "r = RC_OK \<and> cnt < t_max t")
    case True
    then have t': "t' = t\<lparr>t_pc := MbDone RC_OK\<rparr>" "s' = mb_finish p a s1"
      using u s1 pc by (auto simp: mb_turn_def)
    then have "mb_elem t' = None" by simp
    note w = del_good [OF q(1) p el this, of s' "MbCollected p (mcp_resp (mb_at s1 p))"]
    show ?thesis using w t' q(4) True by (auto simp: finish_fields)
  next
    case False
    then have t': "mb_elem t' = Some a" "t_pc t' \<noteq> MbDone (RC_ERR EINVAL)" "s' = s1" "?ev = []"
      using u s1 pc q(3) by (auto simp: mb_turn_def Let_def split: if_splits)
    note w = move_good [OF q(1) p, of t']
    show ?thesis using w t' el by simp
  qed
  moreover have "mb_events E mem p t s = mb_found E (t_ptt t) (\<not> b_is_completed (elem_at ?s a)) r ?s @ ?ev"
    by (simp add: mb_events_def u s1 pc Let_def)
  ultimately show "mb_good s' (cs(p \<mapsto> t'))" "path mbox_next (mb_seen s cs) (mb_events E mem p t s) (mb_seen s' (cs(p \<mapsto> t')))"
    "t_pc t' \<noteq> MbDone (RC_ERR EINVAL)" using path_join [OF q(2)] by simp_all
qed

lemma turn_late_good:
  assumes g: "mb_good s cs" and p: "cs p = Some t" and pc: "t_pc t = MbLate a"
    and u: "mb_turn (calm B) mem p t s = (t', s')"
  shows "mb_good s' (cs(p \<mapsto> t'))" "path mbox_next (mb_seen s cs) (mb_events (calm B) mem p t s) (mb_seen s' (cs(p \<mapsto> t')))"
    "t_pc t' \<noteq> MbDone (RC_ERR EINVAL)"
proof -
  have t': "t' = t\<lparr>t_pc := MbDone (RC_ERR EAGAIN)\<rparr>" "s' = mcp_err_notify (calm B) (t_ptt t)
      QED_HW_ERR_MFW_RESP_FAIL (mb_give_up (calm B) (t_ptt t) p a s)" using u pc by (simp_all add: mb_turn_def)
  have el: "mb_elem t = Some a" "mb_elem t' = None" using pc t'(1) by (simp_all add: mb_elem_def)
  have ev: "mb_events (calm B) mem p t s = [MbGaveUp p]" by (simp add: mb_events_def pc split_beta)
  note w = del_good [OF g p el, of s' "MbGaveUp p"]
  show "mb_good s' (cs(p \<mapsto> t'))" "path mbox_next (mb_seen s cs) (mb_events (calm B) mem p t s) (mb_seen s' (cs(p \<mapsto> t')))"
    "t_pc t' \<noteq> MbDone (RC_ERR EINVAL)" unfolding ev using w t' by (simp_all add: give_up_fields)
qed

lemma turn_good:
  assumes g: "mb_good s cs" and p: "cs p = Some t" and dn: "\<not> mb_done t" and mem: "mem_fresh mem s"
    and u: "mb_turn (calm B) mem p t s = (t', s')"
  shows "mb_good s' (cs(p \<mapsto> t')) \<and> path mbox_next (mb_seen s cs) (mb_events (calm B) mem p t s) (mb_seen s' (cs(p \<mapsto> t')))
    \<and> t_pc t' \<noteq> MbDone (RC_ERR EINVAL)"
proof (cases "t_pc t")
  case (MbFree cnt)
  then show ?thesis using turn_free_good [OF g p MbFree mem u] by simp
next
  case (MbResp cnt a)
  then show ?thesis using turn_resp_good [OF g p MbResp u] by simp
next
  case (MbLate a)
  then show ?thesis using turn_late_good [OF g p MbLate u] by simp
qed (use dn in \<open>simp add: mb_done_def\<close>)

lemma emul_keeps:
  assumes "qed_emul_mcp_cmd p s = (r, s')" "mb_objs s p = Some b"
  shows "mcp_info s' = mcp_info s" "cmd_elems s' = cmd_elems s" "\<exists>b. mb_objs s' = (mb_objs s)(p \<mapsto> b)"
proof -
  have "mcp_info s' = mcp_info s \<and> cmd_elems s' = cmd_elems s \<and>
    (mb_objs s' = mb_objs s \<or> (\<exists>b. mb_objs s' = (mb_objs s)(p \<mapsto> b)))"
    using assms(1) unfolding qed_emul_mcp_cmd_def qed_emul_mcp_load_req_def qed_emul_mcp_unload_req_def Let_def
    by (auto simp: mb_frame_simps split: if_splits)
  then show "mcp_info s' = mcp_info s" "cmd_elems s' = cmd_elems s" "\<exists>b. mb_objs s' = (mb_objs s)(p \<mapsto> b)"
    using assms(2) by (auto intro: exI [of _ b] simp: map_upd_triv)
qed

lemma enter_keeps:
  assumes "mb_enter E i ud p (s\<lparr>mb_objs := (mb_objs s)(p \<mapsto> b)\<rparr>) = (t, s')"
  shows "mcp_info s' = mcp_info s" "cmd_elems s' = cmd_elems s" "\<exists>b. mb_objs s' = (mb_objs s)(p \<mapsto> b)" "mb_elem t = None"
proof -
  let ?s = "s\<lparr>mb_objs := (mb_objs s)(p \<mapsto> b)\<rparr>"
  have *: "mcp_info s' = mcp_info s \<and> cmd_elems s' = cmd_elems s \<and> (\<exists>b. mb_objs s' = (mb_objs s)(p \<mapsto> b)) \<and> mb_elem t = None"
  proof (cases "CHIP_REV_IS_EMUL (chip_rev (cdev (mhw ?s))) \<and> \<not> qed_mcp_is_init ?s")
    case True
    then obtain r where r: "qed_emul_mcp_cmd p ?s = (r, s')" "mb_elem t = None"
      using assms by (auto simp: mb_enter_def mb_elem_def split: prod.splits)
    show ?thesis using emul_keeps [OF r(1)] r(2) by auto
  next
    case False
    then show ?thesis using assms mcp_me_keeps [of E ?s]
      by (auto simp: mb_enter_def Let_def mb_elem_def split_beta split: option.splits if_splits)
  qed
  then show "mcp_info s' = mcp_info s" "cmd_elems s' = cmd_elems s" "\<exists>b. mb_objs s' = (mb_objs s)(p \<mapsto> b)" "mb_elem t = None"
    by blast+
qed

lemma done_elem: "mb_done t \<Longrightarrow> mb_elem t = None"
  by (simp add: mb_done_def mb_elem_def split: mb_pc.splits)

lemma next_good:
  assumes g: "mb_inv S" and n: "mb_next B False S es S'"
  shows "mb_inv S' \<and> path mbox_next (mb_abs S) es (mb_abs S')"
proof -
  note gd = g [unfolded mb_inv_good]
  note ok = mb_goodD(2) [OF gd]
  show ?thesis using n
  proof (cases rule: mb_next.cases)
    case (mb_next_call p i ud b t s)
    note e = enter_keeps [OF mb_next_call(4)]
    obtain b' where b': "mb_objs s = (mb_objs (sys_fn S))(p \<mapsto> b')" using e(3) by blast
    have of: "mcp_of s = mcp_of (sys_fn S)" using e(1) by (simp add: mcp_of_def)
    show ?thesis
      using ok_new [OF ok mb_next_call(3) e(4)] view_new [of "calls S" p t, OF mb_next_call(3) e(4)] mb_goodD(1) [OF gd]
      by (simp add: mb_next_call(1,2) mb_inv_def mb_abs_def of e(1,2) b')
  next
    case (mb_next_turn p t mem t' s)
    note w = turn_good [OF gd mb_next_turn(3-6)]
    show ?thesis using w by (simp add: mb_inv_good mb_abs_seen mb_next_turn(1,2))
  next
    case (mb_next_leave p t)
    note el = done_elem [OF mb_next_leave(4)]
    show ?thesis using ok_leave [OF ok mb_next_leave(3) el] view_leave [of "calls S" p t, OF mb_next_leave(3) el] mb_goodD(1) [OF gd]
      by (simp add: mb_next_leave(1,2) mb_inv_def mb_abs_def mb_frame_simps)
  next
    case (mb_next_others s)
    then show ?thesis using g by (simp add: mb_inv_def mb_abs_def mb_others_def)
  qed simp
qed

text \<open>The mailbox with many callers implements the mailbox with one slot, whatever the device is.\<close>

lemma mb_answers_empty: "mb_answers es os Map.empty = Map.empty"
  by (simp add: mb_answers_def fun_eq_iff)

interpretation mbi: refinement mb_start "mb_next B False" mb_inv mbox_start mbox_next mb_abs for B
proof unfold_locales
  show "mb_inv S" "mbox_start (mb_abs S)" if "mb_start S" for S :: "'d mb_sys"
    using that by (simp_all add: mb_start_def mb_inv_def mb_ok_def mbox_start_def mb_abs_def mb_slot_def mb_answers_empty)
qed (use next_good in blast)+

end
