(* ===== verification/Qed_Mcp_Calls.thy ===== *)
theory Qed_Mcp_Calls
  imports Qed_Mcp_Sim
begin

unbundle bit_operations_syntax

text \<open>
  Single calls: a call ends after a bounded number of its own transitions, whatever happens in between; run alone, its
  transitions are the sequential code.
\<close>

section \<open>Calls end\<close>

definition mb_left :: "mb_call \<Rightarrow> nat" where
  "mb_left t = (case t_pc t of MbFree cnt \<Rightarrow> t_max t - cnt + 3 | MbResp cnt _ \<Rightarrow> t_max t - cnt + 2
     | MbLate _ \<Rightarrow> 1 | MbDone _ \<Rightarrow> 0)"

lemma mb_left_done: "mb_left t = 0 \<longleftrightarrow> mb_done t"
  by (simp add: mb_left_def mb_done_def split: mb_pc.split)

lemma turn_max [simp]: "t_max (fst (mb_turn E mem p t s)) = t_max t"
  by (simp add: mb_turn_def Let_def split_beta split: mb_pc.split option.split)

lemma turn_left:
  assumes "\<not> mb_done t"
  shows "mb_left (fst (mb_turn E mem p t s)) < mb_left t"
proof (cases "t_pc t")
  case (MbFree cnt)
  then show ?thesis by (auto simp: mb_left_def mb_turn_def Let_def split_beta split: option.splits)
next
  case (MbResp cnt a)
  then show ?thesis by (auto simp: mb_left_def mb_turn_def Let_def split_beta)
qed (use assms in \<open>simp_all add: mb_left_def mb_turn_def mb_done_def\<close>)

text \<open>The transitions of one call, each in the state the others have left.\<close>

fun mb_turns :: "'d mcp_env \<Rightarrow> nat \<Rightarrow> (nat option \<times> 'd mcp_fn) list \<Rightarrow> mb_call \<Rightarrow> mb_call" where
  "mb_turns E p [] t = t"
| "mb_turns E p ((mem, s) # xs) t = mb_turns E p xs (fst (mb_turn E mem p t s))"

lemma turn_done: "mb_done t \<Longrightarrow> mb_turn E mem p t s = (t, s)"
  by (simp add: mb_turn_def mb_done_def split: mb_pc.splits)

lemma turns_done:
  "mb_left t \<le> length xs \<Longrightarrow> mb_done (mb_turns E p xs t)"
proof (induction xs arbitrary: t)
  case (Cons x xs)
  obtain mem s where x: "x = (mem, s)" by (cases x)
  have "mb_left (fst (mb_turn E mem p t s)) \<le> length xs"
  proof (cases "mb_done t")
    case True
    then show ?thesis using mb_left_done [of t] by (simp add: turn_done)
  next
    case False
    then show ?thesis using turn_left [OF False, of E mem p s] Cons.prems by simp
  qed
  then show ?case using Cons.IH x by simp
qed (simp add: mb_left_done)

section \<open>A call alone\<close>

abbreviation turn1 :: "'d mcp_env \<Rightarrow> nat option \<Rightarrow> nat \<Rightarrow> mb_call \<times> 'd mcp_fn \<Rightarrow> mb_call \<times> 'd mcp_fn" where
  "turn1 E mem p \<equiv> \<lambda>(t, s). mb_turn E mem p t s"

definition mb_runs ::
  "'d mcp_env \<Rightarrow> nat option \<Rightarrow> nat \<Rightarrow> mb_call \<times> 'd mcp_fn \<Rightarrow> mb_call \<times> 'd mcp_fn \<Rightarrow> bool" where
  "mb_runs E mem p x y \<longleftrightarrow> (\<exists>n. (turn1 E mem p ^^ n) x = y)"

lemma runs_refl [simp]: "mb_runs E mem p x x"
  unfolding mb_runs_def by (rule exI [of _ 0]) simp

lemma runs_step: "mb_runs E mem p (turn1 E mem p x) y \<Longrightarrow> mb_runs E mem p x y"
  unfolding mb_runs_def by (metis funpow_Suc_right comp_apply)

lemma runs_one: "turn1 E mem p x = y \<Longrightarrow> mb_runs E mem p x y"
  by (rule runs_step) simp

lemma runs_trans: "mb_runs E mem p x y \<Longrightarrow> mb_runs E mem p y z \<Longrightarrow> mb_runs E mem p x z"
  unfolding mb_runs_def by (metis funpow_add comp_apply)

text \<open>The first loop: it stops in front of a look that finds the mailbox free, or it ends the call.\<close>

lemma wait_free_runs:
  assumes "mb_wait_free E i p mx us cnt s = (r, cnt', s')" "t_ptt t = i" "t_max t = mx" "t_usecs t = us"
    "t_pc t = MbFree cnt"
  shows "(r = RC_OK \<longrightarrow> (\<exists>s0. mb_runs E mem p (t, s) (t\<lparr>t_pc := MbFree cnt'\<rparr>, s0) \<and> mb_poll_free E i s0 = (RC_OK, s')))
    \<and> (r = RC_ERR EAGAIN \<longrightarrow> mx \<le> cnt') \<and> (r \<noteq> RC_OK \<longrightarrow> mb_runs E mem p (t, s) (t\<lparr>t_pc := MbDone r\<rparr>, s'))"
  using assms
proof (induction E i p mx us cnt s arbitrary: t rule: mb_wait_free.induct)
  case (1 E i p mx us cnt s)
  obtain r1 s1 where s1: "mb_poll_free E i s = (r1, s1)" by (cases "mb_poll_free E i s")
  have self: "t\<lparr>t_pc := MbFree cnt\<rparr> = t" using "1.prems"(5) by simp
  show ?case
  proof (cases "r1 = RC_ERR EAGAIN")
    case False
    then have "r = r1" "cnt' = cnt" "s' = s1" using "1.prems"(1) s1 by (simp_all add: mb_wait_free.simps [of E i p mx us cnt s])
    moreover have "r1 \<noteq> RC_OK \<Longrightarrow> turn1 E mem p (t, s) = (t\<lparr>t_pc := MbDone r1\<rparr>, s1)"
      using "1.prems"(2-5) s1 False by (simp add: mb_turn_def)
    ultimately show ?thesis using s1 self runs_one False by (metis runs_refl)
  next
    case True
    let ?s2 = "mb_delay E p us cnt s1"
    show ?thesis
    proof (cases "Suc cnt < mx")
      case lt: True
      have w: "mb_wait_free E i p mx us (Suc cnt) ?s2 = (r, cnt', s')"
        using "1.prems"(1) s1 True lt by (simp add: mb_wait_free.simps [of E i p mx us cnt s])
      have st: "turn1 E mem p (t, s) = (t\<lparr>t_pc := MbFree (Suc cnt)\<rparr>, ?s2)"
        using "1.prems"(2-5) s1 True lt by (simp add: mb_turn_def Let_def)
      note ih = "1.IH" [OF s1 [symmetric] refl True refl lt w, of "t\<lparr>t_pc := MbFree (Suc cnt)\<rparr>"]
      show ?thesis using ih "1.prems"(2-4) runs_step [of E mem p "(t, s)"] unfolding st by auto
    next
      case ge: False
      then have "r = RC_ERR EAGAIN" "cnt' = Suc cnt" "s' = ?s2"
        using "1.prems"(1) s1 True by (simp_all add: mb_wait_free.simps [of E i p mx us cnt s])
      moreover have "turn1 E mem p (t, s) = (t\<lparr>t_pc := MbDone (RC_ERR EAGAIN)\<rparr>, ?s2)"
        using "1.prems"(2-5) s1 True ge by (simp add: mb_turn_def Let_def)
      note rn = runs_one [OF this]
      ultimately show ?thesis using ge rn by simp
    qed
  qed
qed

lemma wait_resp_runs:
  assumes "mb_wait_resp E i p a mx us cnt s = (r, cnt', s')" "t_ptt t = i" "t_max t = mx" "t_usecs t = us"
    "t_pc t = MbResp cnt a"
  shows "(r = RC_OK \<longrightarrow> (\<exists>s0. mb_runs E mem p (t, s) (t\<lparr>t_pc := MbResp cnt' a\<rparr>, s0) \<and>
      mb_poll_resp E i a (mb_delay E p us cnt' s0) = (RC_OK, s')))
    \<and> (r = RC_ERR EAGAIN \<longrightarrow> mx \<le> cnt' \<and> mb_runs E mem p (t, s) (t\<lparr>t_pc := MbLate a\<rparr>, s'))
    \<and> (r \<noteq> RC_OK \<and> r \<noteq> RC_ERR EAGAIN \<longrightarrow> mb_runs E mem p (t, s) (t\<lparr>t_pc := MbDone r\<rparr>, s'))"
  using assms
proof (induction E i p a mx us cnt s arbitrary: t rule: mb_wait_resp.induct)
  case (1 E i p a mx us cnt s)
  let ?s = "mb_delay E p us cnt s"
  obtain r1 s1 where s1: "mb_poll_resp E i a ?s = (r1, s1)" by (cases "mb_poll_resp E i a ?s")
  note unf = mb_wait_resp.simps [of E i p a mx us cnt s]
  have self: "t\<lparr>t_pc := MbResp cnt a\<rparr> = t" using "1.prems"(5) by simp
  show ?case
  proof (cases "r1 = RC_ERR EAGAIN")
    case False
    then have "r = r1" "cnt' = cnt" "s' = s1" using "1.prems"(1) s1 by (simp_all add: unf)
    moreover have "r1 \<noteq> RC_OK \<Longrightarrow> turn1 E mem p (t, s) = (t\<lparr>t_pc := MbDone r1\<rparr>, s1)"
      using "1.prems"(2-5) s1 False by (simp add: mb_turn_def)
    ultimately show ?thesis using s1 self runs_one False by (metis runs_refl)
  next
    case True
    show ?thesis
    proof (cases "Suc cnt < mx")
      case lt: True
      have w: "mb_wait_resp E i p a mx us (Suc cnt) s1 = (r, cnt', s')" using "1.prems"(1) s1 True lt by (simp add: unf)
      have st: "turn1 E mem p (t, s) = (t\<lparr>t_pc := MbResp (Suc cnt) a\<rparr>, s1)"
        using "1.prems"(2-5) s1 True lt by (simp add: mb_turn_def Let_def)
      note ih = "1.IH" [OF refl s1 [symmetric] refl True lt w, of "t\<lparr>t_pc := MbResp (Suc cnt) a\<rparr>"]
      show ?thesis using ih "1.prems"(2-4) runs_step [of E mem p "(t, s)"] unfolding st by auto
    next
      case ge: False
      then have "r = RC_ERR EAGAIN" "cnt' = Suc cnt" "s' = s1" using "1.prems"(1) s1 True by (simp_all add: unf)
      moreover have "turn1 E mem p (t, s) = (t\<lparr>t_pc := MbLate a\<rparr>, s1)"
        using "1.prems"(2-5) s1 True ge by (simp add: mb_turn_def Let_def)
      note rn = runs_one [OF this]
      ultimately show ?thesis using ge rn by simp
    qed
  qed
qed

text \<open>The second half of a call: from the second loop to the return.\<close>

definition resp_half ::
  "'d mcp_env \<Rightarrow> nat \<Rightarrow> nat \<Rightarrow> nat \<Rightarrow> nat \<Rightarrow> nat \<Rightarrow> nat \<Rightarrow> 'd mcp_fn \<Rightarrow> rc \<times> 'd mcp_fn" where
  "resp_half E i p a mx us cnt s = (let (r, cnt, s) = mb_wait_resp E i p a mx us cnt s in
     if r \<noteq> RC_OK \<and> r \<noteq> RC_ERR EAGAIN then (r, s)
     else if mx \<le> cnt then (RC_ERR EAGAIN, mcp_err_notify E i QED_HW_ERR_MFW_RESP_FAIL (mb_give_up E i p a s))
     else (RC_OK, mb_finish p a s))"

lemma resp_half_runs:
  assumes "resp_half E i p a mx us cnt s = (r, s')" "t_ptt t = i" "t_max t = mx" "t_usecs t = us"
    "t_pc t = MbResp cnt a"
  shows "\<exists>t'. mb_runs E mem p (t, s) (t', s') \<and> t_pc t' = MbDone r"
proof -
  obtain r1 c1 s1 where w: "mb_wait_resp E i p a mx us cnt s = (r1, c1, s1)"
    by (metis prod_cases3)
  note run = wait_resp_runs [OF w assms(2-5), of mem]
  have late: "turn1 E mem p (t\<lparr>t_pc := MbLate a\<rparr>, s1) = (t\<lparr>t_pc := MbDone (RC_ERR EAGAIN)\<rparr>,
    mcp_err_notify E i QED_HW_ERR_MFW_RESP_FAIL (mb_give_up E i p a s1))" using assms(2) by (simp add: mb_turn_def)
  consider (ok) "r1 = RC_OK" | (again) "r1 = RC_ERR EAGAIN" | (err) "r1 \<noteq> RC_OK" "r1 \<noteq> RC_ERR EAGAIN" by blast
  then show ?thesis
  proof cases
    case ok
    then obtain s0 where s0: "mb_runs E mem p (t, s) (t\<lparr>t_pc := MbResp c1 a\<rparr>, s0)"
      "mb_poll_resp E i a (mb_delay E p us c1 s0) = (RC_OK, s1)" using run by blast
    show ?thesis
    proof (cases "mx \<le> c1")
      case True
      have "turn1 E mem p (t\<lparr>t_pc := MbResp c1 a\<rparr>, s0) = (t\<lparr>t_pc := MbLate a\<rparr>, s1)"
        using s0(2) assms(2-4) True by (simp add: mb_turn_def)
      then show ?thesis using runs_trans [OF s0(1) runs_trans [OF runs_one runs_one [OF late]]] assms(1) w ok True
        by (auto simp: resp_half_def)
    next
      case False
      have "turn1 E mem p (t\<lparr>t_pc := MbResp c1 a\<rparr>, s0) = (t\<lparr>t_pc := MbDone RC_OK\<rparr>, mb_finish p a s1)"
        using s0(2) assms(2-4) False by (simp add: mb_turn_def)
      then show ?thesis using runs_trans [OF s0(1) runs_one] assms(1) w ok False by (auto simp: resp_half_def)
    qed
  next
    case again
    then have "mx \<le> c1" "mb_runs E mem p (t, s) (t\<lparr>t_pc := MbLate a\<rparr>, s1)" using run by blast+
    note rn = this(1) runs_trans [OF this(2) runs_one [OF late]]
    show ?thesis using rn assms(1) w again by (intro exI [of _ "t\<lparr>t_pc := MbDone (RC_ERR EAGAIN)\<rparr>"]) (simp add: resp_half_def)
  next
    case err
    then show ?thesis using run assms(1) w by (auto simp: resp_half_def)
  qed
qed

lemma runs_now: "\<exists>t. x = (t, s) \<and> t_pc t = MbDone r \<Longrightarrow> \<exists>t. mb_runs E mem p x (t, s) \<and> t_pc t = MbDone r"
  by (metis runs_refl)

text \<open>The sequential code is the run of the transitions of one call, from its entry to its return.\<close>

lemma call_runs:
  assumes "qed_mcp_cmd_and_union E i fr (Some p) s = (r, s')"
  shows "\<exists>t'. mb_runs E (fr_elem fr) p (mb_enter E i (fr_union fr) p s) (t', s') \<and> t_pc t' = MbDone r"
proof (cases "CHIP_REV_IS_EMUL (chip_rev (cdev (mhw s))) \<and> \<not> qed_mcp_is_init s")
  case True
  then show ?thesis using assms by (intro runs_now) (auto simp: qed_mcp_cmd_and_union_def mb_enter_def)
next
  case emul: False
  show ?thesis
  proof (cases "mb_refused (mb_at s p) s")
    case (Some e)
    then show ?thesis using assms emul by (intro runs_now) (auto simp: qed_mcp_cmd_and_union_def mb_enter_def)
  next
    case None
    obtain mx us where lim: "mb_limits (cdev (mhw s)) (mb_at s p) = (mx, us)" by (cases "mb_limits (cdev (mhw s)) (mb_at s p)")
    obtain me s1 where me: "mcp_me_read E s = (me, s1)" by (cases "mcp_me_read E s")
    have wt: "mcp_cmd_and_union_wait E i fr (Some p) mx us s = (r, s')"
      using assms emul None lim by (auto simp: qed_mcp_cmd_and_union_def split: if_splits)
    show ?thesis
    proof (cases "me = 0xffffffff")
      case True
      then show ?thesis using wt me lim emul None
        by (intro runs_now) (auto simp: mcp_cmd_and_union_wait_def mb_enter_def)
    next
      case False
      let ?mx = "mb_retries (mb_at s1 p) mx"
      let ?t = "\<lparr>t_ptt = i, t_union = fr_union fr, t_max = ?mx, t_usecs = us, t_pc = MbFree 0\<rparr>"
      have en: "mb_enter E i (fr_union fr) p s = (?t, s1)" using me lim emul None False by (auto simp: mb_enter_def)
      obtain r1 c1 s2 where w: "mb_wait_free E i p ?mx us 0 s1 = (r1, c1, s2)" by (metis prod_cases3)
      note run = wait_free_runs [OF w, of ?t "fr_elem fr", simplified]
      show ?thesis
      proof (cases "r1 = RC_OK")
        case ok: True
        then obtain s0 where s0: "mb_runs E (fr_elem fr) p (?t, s1) (?t\<lparr>t_pc := MbFree c1\<rparr>, s0)"
          "mb_poll_free E i s0 = (RC_OK, s2)" using run by auto
        obtain x s3 where sd: "mb_send E i fr p s2 = (x, s3)" by (cases "mb_send E i fr p s2")
        have fr: "\<lparr>fr_union = fr_union fr, fr_elem = fr_elem fr\<rparr> = fr" by simp
        show ?thesis
        proof (cases "?mx \<le> c1 \<or> x = None")
          case True
          then have "turn1 E (fr_elem fr) p (?t\<lparr>t_pc := MbFree c1\<rparr>, s0) = (?t\<lparr>t_pc := MbDone r\<rparr>, s')"
            using s0(2) wt me False w ok sd by (auto simp: mb_turn_def mcp_cmd_and_union_wait_def fr split: if_splits)
          then show ?thesis unfolding en using runs_trans [OF s0(1) runs_one] by auto
        next
          case lt: False
          then obtain a where a: "x = Some a" by blast
          have st: "turn1 E (fr_elem fr) p (?t\<lparr>t_pc := MbFree c1\<rparr>, s0) = (?t\<lparr>t_pc := MbResp c1 a\<rparr>, s3)"
            using s0(2) sd a lt by (simp add: mb_turn_def fr)
          have "resp_half E i p a ?mx us c1 s3 = (r, s')"
            using wt me False w ok sd lt a by (simp add: mcp_cmd_and_union_wait_def resp_half_def Let_def)
          from resp_half_runs [OF this, of "?t\<lparr>t_pc := MbResp c1 a\<rparr>" "fr_elem fr"]
          show ?thesis unfolding en using runs_trans [OF runs_trans [OF s0(1) runs_one [OF st]]] by auto
        qed
      next
        case nok: False
        then have "r = r1 \<and> s' = s2" using wt me False w run
          by (auto simp: mcp_cmd_and_union_wait_def Let_def split: if_splits)
        then show ?thesis unfolding en using run nok by auto
      qed
    qed
  qed
qed

section \<open>A call alone in the system\<close>

text \<open>
  The sequential code is an execution of the system: what it does, any interleaving may contain. Memory for the element is
  needed while the call waits for the mailbox only.
\<close>

definition mem_due :: "nat option \<Rightarrow> mb_call \<Rightarrow> 'd mcp_fn \<Rightarrow> bool" where
  "mem_due mem t s = (case t_pc t of MbFree _ \<Rightarrow> mem_fresh mem s | _ \<Rightarrow> True)"

lemma turn_mem: "\<nexists>cnt. t_pc t = MbFree cnt \<Longrightarrow> mb_turn E mem p t s = mb_turn E mem' p t s"
  by (simp add: mb_turn_def split: mb_pc.split)

lemma exec_turn:
  assumes "cs p = Some t" "\<not> mb_done t" "mem_fresh mem s" "mb_turn (calm B) mem p t s = (t', s')"
  shows "exec (mb_next B rst) \<lparr>sys_fn = s, calls = cs\<rparr> (mb_events (calm B) mem p t s) \<lparr>sys_fn = s', calls = cs(p \<mapsto> t')\<rparr>"
  using mb_next_turn [of "\<lparr>sys_fn = s, calls = cs\<rparr>" p t mem B t' s' rst] assms by (auto intro: exec_one)

lemma turn_exec:
  assumes g: "mb_good s cs" and p: "cs p = Some t" and m: "mem_due mem t s"
    and u: "mb_turn (calm B) mem p t s = (t', s')"
  shows "(\<exists>tr. exec (mb_next B False) \<lparr>sys_fn = s, calls = cs\<rparr> tr \<lparr>sys_fn = s', calls = cs(p \<mapsto> t')\<rparr>)
    \<and> mb_good s' (cs(p \<mapsto> t')) \<and> mem_due mem t' s'"
proof (cases "mb_done t")
  case True
  then have "t' = t" "s' = s" using u turn_done [OF True, of "calm B" mem p s] by simp_all
  moreover have "cs(p \<mapsto> t) = cs" using p by (simp add: fun_upd_idem)
  ultimately show ?thesis using g m exec_refl by metis
next
  case dn: False
  show ?thesis
  proof (cases "\<exists>cnt. t_pc t = MbFree cnt")
    case True
    then obtain cnt where pc: "t_pc t = MbFree cnt" by blast
    have f: "mem_fresh mem s" using m pc by (simp add: mem_due_def)
    have "mem_due mem t' s'"
    proof -
      obtain r s1 where s1: "mb_poll_free (calm B) (t_ptt t) s = (r, s1)" by (cases "mb_poll_free (calm B) (t_ptt t) s")
      have "dom (cmd_elems s1) = dom (cmd_elems s)" by (rule poll_free_good(5) [OF g s1])
      then have "mem_fresh mem s1" using f by (auto simp: mem_fresh_def split: option.splits)
      then show ?thesis using u s1 pc
        by (auto simp: mem_due_def mb_turn_def Let_def mem_fresh_def mb_frame_simps split: if_splits option.splits prod.splits)
    qed
    then show ?thesis using turn_good [OF g p dn f u] exec_turn [of cs, OF p dn f u] by blast
  next
    case False
    have u': "mb_turn (calm B) None p t s = (t', s')" using turn_mem [OF False, of "calm B" None p s mem] u by simp
    have "t_pc t' \<noteq> MbFree c" for c using u False dn
      by (auto simp: mb_turn_def Let_def mb_done_def split: mb_pc.splits if_splits prod.splits)
    then have "mem_due mem t' s'" by (simp add: mem_due_def split: mb_pc.split)
    moreover have f: "mem_fresh None s" by (simp add: mem_fresh_def)
    ultimately show ?thesis using turn_good [OF g p dn f u'] exec_turn [of cs, OF p dn f u'] by blast
  qed
qed

lemma funpow_exec:
  assumes "mb_good s cs" "cs p = Some t" "mem_due mem t s"
  shows "(turn1 (calm B) mem p ^^ n) (t, s) = (t', s') \<Longrightarrow>
    (\<exists>tr. exec (mb_next B False) \<lparr>sys_fn = s, calls = cs\<rparr> tr \<lparr>sys_fn = s', calls = cs(p \<mapsto> t')\<rparr>)
      \<and> mb_good s' (cs(p \<mapsto> t')) \<and> mem_due mem t' s'"
proof (induction n arbitrary: t' s')
  case 0
  then have "t' = t" "s' = s" by simp_all
  moreover have "cs(p \<mapsto> t) = cs" using assms(2) by (simp add: fun_upd_idem)
  ultimately show ?case using assms exec_refl by metis
next
  case (Suc n)
  obtain t1 s1 where x: "(turn1 (calm B) mem p ^^ n) (t, s) = (t1, s1)" by (cases "(turn1 (calm B) mem p ^^ n) (t, s)")
  have u: "mb_turn (calm B) mem p t1 s1 = (t', s')" using Suc.prems x by simp
  note ih = Suc.IH [OF x]
  then obtain tr where tr: "exec (mb_next B False) \<lparr>sys_fn = s, calls = cs\<rparr> tr \<lparr>sys_fn = s1, calls = cs(p \<mapsto> t1)\<rparr>" by blast
  have c: "(cs(p \<mapsto> t1)) p = Some t1" "(cs(p \<mapsto> t1))(p \<mapsto> t') = cs(p \<mapsto> t')" by simp_all
  note st = turn_exec [of s1 "cs(p \<mapsto> t1)" p t1 mem B t' s', OF ih [THEN conjunct2, THEN conjunct1] c(1)
      ih [THEN conjunct2, THEN conjunct2] u, unfolded c(2)]
  then obtain tr' where tr': "exec (mb_next B False) \<lparr>sys_fn = s1, calls = cs(p \<mapsto> t1)\<rparr> tr' \<lparr>sys_fn = s', calls = cs(p \<mapsto> t')\<rparr>"
    by blast
  show ?case using st exec_trans [OF tr' tr] by blast
qed

text \<open>The last transition of a run that ends.\<close>

lemma funpow_last:
  assumes "\<not> mb_done t"
  shows "(turn1 E mem p ^^ n) (t, s) = (t', s') \<Longrightarrow> mb_done t' \<Longrightarrow>
    \<exists>m t1 s1. (turn1 E mem p ^^ m) (t, s) = (t1, s1) \<and> \<not> mb_done t1 \<and> mb_turn E mem p t1 s1 = (t', s')"
proof (induction n arbitrary: t' s')
  case (Suc n)
  obtain t1 s1 where x: "(turn1 E mem p ^^ n) (t, s) = (t1, s1)" by (cases "(turn1 E mem p ^^ n) (t, s)")
  then have u: "mb_turn E mem p t1 s1 = (t', s')" using Suc.prems by simp
  show ?case
  proof (cases "mb_done t1")
    case True
    then have "t' = t1" "s' = s1" using u turn_done [OF True, of E mem p s1] by simp_all
    then show ?thesis using Suc.IH [OF x True] by blast
  qed (use x u in blast)
qed (use assms in simp)

end
