(* ===== verification/Qed_Mcp_Mfw.thy ===== *)
theory Qed_Mcp_Mfw
  imports Qed_Mcp_Calls Qed_Hw_Access
begin

unbundle bit_operations_syntax

text \<open>
  The mailbox with a firmware behind it: what the driver relies on of the firmware, and that under it a command
  comes back with the firmware's answer, through the register windows and the two copies of the data.
\<close>

section \<open>What the code relies on of the firmware\<close>

text \<open>
  What can be observed of the management processor: its scratch pad, how long it still works on a command (zero when
  the answer is there), and the register that counts its resets.
\<close>

record 'g mfw =
  fw_mem :: "'g \<Rightarrow> u32 \<Rightarrow> u32"
  fw_busy :: "'g \<Rightarrow> nat"
  fw_por :: "'g \<Rightarrow> u32"

text \<open>
  The firmware's service: from the code, the parameter and the data of a command to those of the answer. The answer
  goes into the mailbox at \<open>mb\<close> with the sequence number of the command.
\<close>

type_synonym mfw_service = "u32 \<Rightarrow> u32 \<Rightarrow> u32 list \<Rightarrow> u32 \<times> u32 \<times> u32 list"

definition mbw :: "u32 \<Rightarrow> nat \<Rightarrow> u32" where
  "mbw mb j = mb + of_nat j * 4"

definition fw_answer :: "mfw_service \<Rightarrow> u32 \<Rightarrow> (u32 \<Rightarrow> u32) \<Rightarrow> u32 \<Rightarrow> u32" where
  "fw_answer F mb m = (let h = m (mbw mb 0);
     (code, prm, dat) = F (h AND FW_MSG_CODE_MASK) (m (mbw mb 1)) (get_dwords 4 (mbw mb 6) 8 m)
     in put_dwords 4 (mbw mb 6) dat (m(mbw mb 2 := (code AND FW_MSG_CODE_MASK) OR (h AND FW_MSG_SEQ_NUMBER_MASK),
          mbw mb 3 := prm)))"

text \<open>
  The fourteen dwords of the mailbox are memory; writing the first one starts the work, which takes at
  most \<open>W\<close> delays; then the answer is there. Reads disturb nothing.
\<close>

definition mfw_same :: "'g mfw \<Rightarrow> 'g \<Rightarrow> 'g \<Rightarrow> bool" where
  "mfw_same fw g g' \<longleftrightarrow> fw_mem fw g' = fw_mem fw g \<and> fw_busy fw g' = fw_busy fw g \<and> fw_por fw g' = fw_por fw g"

definition mfw_serves :: "'g grc \<Rightarrow> 'g mfw \<Rightarrow> u32 \<Rightarrow> u32 \<Rightarrow> mfw_service \<Rightarrow> nat \<Rightarrow> bool" where
  "mfw_serves G fw pr mb F W \<longleftrightarrow>
     (\<forall>g. \<forall>j < 14. fst (grc_rd G pr (mbw mb j) g) = fw_mem fw g (mbw mb j)
        \<and> mfw_same fw g (snd (grc_rd G pr (mbw mb j) g)))
   \<and> (\<forall>g. fst (grc_rd G pr MISCS_REG_GENERIC_POR_0 g) = fw_por fw g
        \<and> mfw_same fw g (snd (grc_rd G pr MISCS_REG_GENERIC_POR_0 g)))
   \<and> (\<forall>g v. \<forall>j < 14. fw_mem fw (grc_wr G pr (mbw mb j) v g) = (fw_mem fw g)(mbw mb j := v)
        \<and> fw_por fw (grc_wr G pr (mbw mb j) v g) = fw_por fw g
        \<and> (if j = 0 then 0 < fw_busy fw (grc_wr G pr (mbw mb j) v g) \<and> fw_busy fw (grc_wr G pr (mbw mb j) v g) \<le> W
           else fw_busy fw (grc_wr G pr (mbw mb j) v g) = fw_busy fw g))
   \<and> (\<forall>g us. fw_por fw (grc_delay G us g) = fw_por fw g
        \<and> (if fw_busy fw g = 0 then mfw_same fw g (grc_delay G us g)
           else fw_busy fw (grc_delay G us g) < fw_busy fw g
             \<and> fw_mem fw (grc_delay G us g) = (if fw_busy fw (grc_delay G us g) = 0
                  then fw_answer F mb (fw_mem fw g) else fw_mem fw g)))"

lemma mfw_servesD:
  assumes "mfw_serves G fw pr mb F W"
  shows "j < 14 \<Longrightarrow> fst (grc_rd G pr (mbw mb j) g) = fw_mem fw g (mbw mb j)"
    "j < 14 \<Longrightarrow> mfw_same fw g (snd (grc_rd G pr (mbw mb j) g))"
    "fst (grc_rd G pr MISCS_REG_GENERIC_POR_0 g) = fw_por fw g"
    "mfw_same fw g (snd (grc_rd G pr MISCS_REG_GENERIC_POR_0 g))"
    "j < 14 \<Longrightarrow> fw_mem fw (grc_wr G pr (mbw mb j) v g) = (fw_mem fw g)(mbw mb j := v)"
    "j < 14 \<Longrightarrow> fw_por fw (grc_wr G pr (mbw mb j) v g) = fw_por fw g"
    "0 < j \<Longrightarrow> j < 14 \<Longrightarrow> fw_busy fw (grc_wr G pr (mbw mb j) v g) = fw_busy fw g"
    "0 < fw_busy fw (grc_wr G pr (mbw mb 0) v g)" "fw_busy fw (grc_wr G pr (mbw mb 0) v g) \<le> W"
    "fw_por fw (grc_delay G us g) = fw_por fw g"
    "0 < fw_busy fw g \<Longrightarrow> fw_busy fw (grc_delay G us g) < fw_busy fw g"
    "0 < fw_busy fw g \<Longrightarrow> fw_mem fw (grc_delay G us g) = (if fw_busy fw (grc_delay G us g) = 0
       then fw_answer F mb (fw_mem fw g) else fw_mem fw g)"
proof -
  note A = assms [unfolded mfw_serves_def]
  show "j < 14 \<Longrightarrow> fst (grc_rd G pr (mbw mb j) g) = fw_mem fw g (mbw mb j)"
    "j < 14 \<Longrightarrow> mfw_same fw g (snd (grc_rd G pr (mbw mb j) g))"
    "fst (grc_rd G pr MISCS_REG_GENERIC_POR_0 g) = fw_por fw g"
    "mfw_same fw g (snd (grc_rd G pr MISCS_REG_GENERIC_POR_0 g))"
    "j < 14 \<Longrightarrow> fw_mem fw (grc_wr G pr (mbw mb j) v g) = (fw_mem fw g)(mbw mb j := v)"
    "j < 14 \<Longrightarrow> fw_por fw (grc_wr G pr (mbw mb j) v g) = fw_por fw g"
    "fw_por fw (grc_delay G us g) = fw_por fw g" using A by blast+
  show "0 < j \<Longrightarrow> j < 14 \<Longrightarrow> fw_busy fw (grc_wr G pr (mbw mb j) v g) = fw_busy fw g" using A by simp
  have "\<forall>j < 14. if j = 0 then 0 < fw_busy fw (grc_wr G pr (mbw mb j) v g) \<and> fw_busy fw (grc_wr G pr (mbw mb j) v g) \<le> W
    else fw_busy fw (grc_wr G pr (mbw mb j) v g) = fw_busy fw g" using A by blast
  from this [rule_format, of 0]
  show "0 < fw_busy fw (grc_wr G pr (mbw mb 0) v g)" "fw_busy fw (grc_wr G pr (mbw mb 0) v g) \<le> W" by simp_all
  have "if fw_busy fw g = 0 then mfw_same fw g (grc_delay G us g)
           else fw_busy fw (grc_delay G us g) < fw_busy fw g
             \<and> fw_mem fw (grc_delay G us g) = (if fw_busy fw (grc_delay G us g) = 0
                  then fw_answer F mb (fw_mem fw g) else fw_mem fw g)" using A by blast
  then show "0 < fw_busy fw g \<Longrightarrow> fw_busy fw (grc_delay G us g) < fw_busy fw g"
    "0 < fw_busy fw g \<Longrightarrow> fw_mem fw (grc_delay G us g) = (if fw_busy fw (grc_delay G us g) = 0
       then fw_answer F mb (fw_mem fw g) else fw_mem fw g)" by simp_all
qed

text \<open>
  The setting of the theorems: windows, firmware, a mailbox the windows reach, and a register that shows the device is
  on the bus.
\<close>

definition mfw_env ::
  "'d bus \<Rightarrow> 'g grc \<Rightarrow> ('d, 'g) pxp_view \<Rightarrow> 'g mfw \<Rightarrow> nat \<Rightarrow> u32 \<Rightarrow> u32 \<Rightarrow> mfw_service \<Rightarrow> nat \<Rightarrow> bool" where
  "mfw_env B G V fw i pr mb F W \<longleftrightarrow> pxp_windows B G V \<and> mfw_serves G fw pr mb F W \<and> i < 12 \<and> grc_area mb 56
     \<and> (\<forall>c q d. length (snd (snd (F c q d))) = 8)
     \<and> (\<forall>d. fst (reg_rd B PXP_PF_ME_OPAQUE_ADDR d) \<noteq> 0xffffffff
          \<and> win V (snd (reg_rd B PXP_PF_ME_OPAQUE_ADDR d)) = win V d
          \<and> pret V (snd (reg_rd B PXP_PF_ME_OPAQUE_ADDR d)) = pret V d
          \<and> chip V (snd (reg_rd B PXP_PF_ME_OPAQUE_ADDR d)) = chip V d)"

definition fw_at ::
  "('d, 'g) pxp_view \<Rightarrow> 'g mfw \<Rightarrow> nat \<Rightarrow> u32 \<Rightarrow> qed_cdev \<Rightarrow> 'd qed_hwfn \<Rightarrow> (u64 \<Rightarrow> u32) \<Rightarrow>
     (u32 \<Rightarrow> u32) \<Rightarrow> nat \<Rightarrow> u32 \<Rightarrow> bool" where
  "fw_at V fw i pr c h hm m b po \<longleftrightarrow> ptt_ok V h \<and> cdev h = c \<and> hmem h = hm
     \<and> \<not> chk_reg_fifo c \<and> \<not> CHIP_REV_IS_SLOW (chip_rev c) \<and> is_pf c \<and> pret V (device h) i = pr
     \<and> fw_mem fw (chip V (device h)) = m \<and> fw_busy fw (chip V (device h)) = b \<and> fw_por fw (chip V (device h)) = po"

section \<open>Single accesses\<close>

lemma mfw_envD:
  assumes "mfw_env B G V fw i pr mb F W"
  shows "pxp_windows B G V" "mfw_serves G fw pr mb F W" "i < 12" "grc_area mb 56"
    "length (snd (snd (F c q d))) = 8" "fst (reg_rd B PXP_PF_ME_OPAQUE_ADDR e) \<noteq> 0xffffffff"
    "win V (snd (reg_rd B PXP_PF_ME_OPAQUE_ADDR e)) = win V e"
    "pret V (snd (reg_rd B PXP_PF_ME_OPAQUE_ADDR e)) = pret V e"
    "chip V (snd (reg_rd B PXP_PF_ME_OPAQUE_ADDR e)) = chip V e"
  using assms unfolding mfw_env_def by blast+

lemma mbw_bytes: "mbw mb j = mb + of_nat (4 * j)"
  by (simp add: mbw_def)

lemma mbw_addr: "grc_area mb 56 \<Longrightarrow> j < 14 \<Longrightarrow> grc_addr (mbw mb j)"
  unfolding mbw_bytes by (erule grc_area_addr(1)) linarith

lemma mbw_eq:
  assumes "grc_area mb 56" "j < 14" "k < 14"
  shows "mbw mb j = mbw mb k \<longleftrightarrow> j = k"
proof -
  have u: "unat (mbw mb n) = unat mb + 4 * n" if "n < 14" for n
    unfolding mbw_bytes by (rule grc_area_addr(2) [OF assms(1)]) (use that in simp)
  show ?thesis
  proof
    assume "mbw mb j = mbw mb k"
    then have "unat (mbw mb j) = unat (mbw mb k)" by (rule arg_cong)
    then show "j = k" unfolding u [OF assms(2)] u [OF assms(3)] by simp
  qed (rule arg_cong)
qed

lemma por_addr: "grc_addr MISCS_REG_GENERIC_POR_0"
  by (simp add: grc_addr_def MISCS_REG_GENERIC_POR_0_def)

text \<open>A simulated access that ends in a chip of which the observations are known.\<close>

lemma fw_at_sim:
  assumes "fw_at V fw i pr c h hm m b po" "sim V h h' D" "d_pret D i = pr"
  shows "fw_at V fw i pr c h' (d_hmem D) (fw_mem fw (d_chip D)) (fw_busy fw (d_chip D)) (fw_por fw (d_chip D))"
proof -
  note d = simD [OF assms(2)]
  have "d_pret D = pret V (device h')" "d_chip D = chip V (device h')" "d_hmem D = hmem h'"
    unfolding d(3) [symmetric] by simp_all
  with assms d show ?thesis by (simp add: fw_at_def)
qed

lemma direct_rd_plain:
  assumes "\<not> chk_reg_fifo c" "\<not> CHIP_REV_IS_SLOW (chip_rev c)"
  shows "fst (direct_rd G c i a D) = fst (grc_rd G (d_pret D i) a (d_chip D))"
    "d_chip (snd (direct_rd G c i a D)) = snd (grc_rd G (d_pret D i) a (d_chip D))"
    "d_hmem (snd (direct_rd G c i a D)) = d_hmem D" "d_pret (snd (direct_rd G c i a D)) = d_pret D"
  using assms by (simp_all add: direct_rd_def direct_fifo_def direct_close_def direct_slow_def direct_warn_def
      split_beta Let_def)

lemma direct_wr_plain:
  assumes "\<not> chk_reg_fifo c" "\<not> CHIP_REV_IS_SLOW (chip_rev c)"
  shows "d_chip (direct_wr G c i a v D) = grc_wr G (d_pret D i) a v (d_chip D)"
    "d_hmem (direct_wr G c i a v D) = d_hmem D" "d_pret (direct_wr G c i a v D) = d_pret D"
  using assms by (simp_all add: direct_wr_def direct_fifo_def direct_close_def direct_slow_def direct_warn_def
      split_beta Let_def)

lemma at_rd:
  assumes E: "mfw_env B G V fw i pr mb F W" and h: "fw_at V fw i pr c h hm m b po" and a: "grc_addr a"
    and same: "\<And>g. mfw_same fw g (snd (grc_rd G pr a g))" and val: "\<And>g. fst (grc_rd G pr a g) = f g"
  obtains h' where "qed_rd B i a h = (f (chip V (device h)), h')" "fw_at V fw i pr c h' hm m b po"
proof -
  have ok: "ptt_ok V h" "\<not> chk_reg_fifo (cdev h)" "\<not> CHIP_REV_IS_SLOW (chip_rev (cdev h))"
    "pret V (device h) i = pr" using h by (auto simp: fw_at_def)
  obtain v h' D where r: "qed_rd B i a h = (v, h')" "direct_rd G (cdev h) i a (direct_of V h) = (v, D)" "sim V h h' D"
    by (rule sim_rd [OF mfw_envD(1) [OF E] ok(1) mfw_envD(3) [OF E] a])
  note p = direct_rd_plain [OF ok(2,3), of G i a "direct_of V h", unfolded r(2) fst_conv snd_conv]
  have v: "v = f (chip V (device h))" using p(1) val ok(4) by simp
  have "fw_at V fw i pr c h' hm m b po"
    using fw_at_sim [OF h r(3)] p same [of "chip V (device h)"] h by (simp add: mfw_same_def fw_at_def)
  then show thesis using that r(1) v by blast
qed

lemma at_rd_word:
  assumes "mfw_env B G V fw i pr mb F W" "fw_at V fw i pr c h hm m b po" "j < 14"
  obtains h' where "qed_rd B i (mbw mb j) h = (m (mbw mb j), h')" "fw_at V fw i pr c h' hm m b po"
proof -
  note L = mfw_servesD [OF mfw_envD(2) [OF assms(1)]]
  have "fw_mem fw (chip V (device h)) = m" using assms(2) by (simp add: fw_at_def)
  then show thesis
    using at_rd [OF assms(1,2) mbw_addr [OF mfw_envD(4) [OF assms(1)] assms(3)] L(2,1) [OF assms(3)]] that by auto
qed

lemma at_rd_por:
  assumes "mfw_env B G V fw i pr mb F W" "fw_at V fw i pr c h hm m b po"
  obtains h' where "qed_rd B i MISCS_REG_GENERIC_POR_0 h = (po, h')" "fw_at V fw i pr c h' hm m b po"
proof -
  note L = mfw_servesD [OF mfw_envD(2) [OF assms(1)]]
  have "fw_por fw (chip V (device h)) = po" using assms(2) by (simp add: fw_at_def)
  then show thesis using at_rd [OF assms por_addr L(4,3)] that by auto
qed

lemma at_wr_word:
  assumes E: "mfw_env B G V fw i pr mb F W" and h: "fw_at V fw i pr c h hm m b po" and j: "j < 14"
  obtains b' where "fw_at V fw i pr c (qed_wr B i (mbw mb j) v h) hm (m(mbw mb j := v)) b' po"
    "if j = 0 then 0 < b' \<and> b' \<le> W else b' = b"
proof -
  note L = mfw_servesD [OF mfw_envD(2) [OF E]]
  have ok: "ptt_ok V h" "\<not> chk_reg_fifo (cdev h)" "\<not> CHIP_REV_IS_SLOW (chip_rev (cdev h))"
    "pret V (device h) i = pr" using h by (auto simp: fw_at_def)
  note s = sim_wr [OF mfw_envD(1) [OF E] ok(1) mfw_envD(3) [OF E] mbw_addr [OF mfw_envD(4) [OF E] j], of v]
  note p = direct_wr_plain [OF ok(2,3), of G i "mbw mb j" v "direct_of V h"]
  let ?g = "grc_wr G pr (mbw mb j) v (chip V (device h))"
  have "fw_at V fw i pr c (qed_wr B i (mbw mb j) v h) hm (m(mbw mb j := v)) (fw_busy fw ?g) po"
    using fw_at_sim [OF h s] p h L(5,6) [OF j, of v "chip V (device h)"] by (simp add: fw_at_def)
  then show thesis
    by (rule that) (use h L(7) [OF _ j] L(8,9) in \<open>auto simp: fw_at_def\<close>)
qed

lemma at_delay:
  assumes E: "mfw_env B G V fw i pr mb F W" and h: "fw_at V fw i pr c h hm m b po" and b: "0 < b"
  obtains b' where "fw_at V fw i pr c (udelay B us h) hm (if b' = 0 then fw_answer F mb m else m) b' po" "b' < b"
proof -
  note L = mfw_servesD [OF mfw_envD(2) [OF E]] and P = pxp_windowsD [OF mfw_envD(1) [OF E]]
  have ok: "ptt_ok V h" "fw_mem fw (chip V (device h)) = m" "fw_busy fw (chip V (device h)) = b"
    using h by (auto simp: fw_at_def)
  have s: "sim V h (udelay B us h) ((direct_of V h)\<lparr>d_chip := grc_delay G us (chip V (device h))\<rparr>)"
    unfolding udelay_def by (rule sim_dev [OF ok(1)]) (simp_all add: P)
  let ?b = "fw_busy fw (grc_delay G us (chip V (device h)))"
  have "fw_at V fw i pr c (udelay B us h) hm (if ?b = 0 then fw_answer F mb m else m) ?b po"
    using fw_at_sim [OF h s] h b L(10,12) ok by (simp add: fw_at_def)
  then show thesis by (rule that) (use L(11) [of "chip V (device h)"] b ok in simp)
qed

lemma at_me:
  assumes "mfw_env B G V fw i pr mb F W" "fw_at V fw i pr c h hm m b po"
  obtains v h' where "REG_RD B PXP_PF_ME_OPAQUE_ADDR h = (v, h')" "v \<noteq> 0xffffffff" "fw_at V fw i pr c h' hm m b po"
proof -
  note E = mfw_envD [OF assms(1)]
  obtain v d where r: "reg_rd B PXP_PF_ME_OPAQUE_ADDR (device h) = (v, d)" by fastforce
  have d: "win V d = win V (device h)" "pret V d = pret V (device h)" "chip V d = chip V (device h)" "v \<noteq> 0xffffffff"
    using E(6-9) [of "device h"] by (simp_all add: r)
  have "sim V h (h\<lparr>device := d\<rparr>) ((direct_of V h)\<lparr>d_chip := chip V d\<rparr>)"
    using assms(2) d by (intro sim_dev) (simp_all add: fw_at_def)
  from fw_at_sim [OF assms(2) this] show thesis
    by (intro that [of v "h\<lparr>device := d\<rparr>"]) (use assms(2) d r in \<open>simp_all add: REG_RD_def fw_at_def\<close>)
qed

section \<open>The data of a command\<close>

lemma mbw_add: "mbw mb j + of_nat k * 4 = mbw mb (j + k)"
  by (simp add: mbw_def algebra_simps)

lemma union_area:
  assumes "grc_area mb 56" "n \<le> 32"
  shows "grc_area (mbw mb 6) n"
proof -
  have "grc_addr (mbw mb 6)" by (rule mbw_addr [OF assms(1)]) simp
  moreover have "unat (mbw mb 6) = unat mb + 24"
    using grc_area_addr(2) [OF assms(1), of 6] by (simp add: mbw_def)
  ultimately show ?thesis using assms by (simp add: grc_area_def grc_addr_def)
qed

lemma copy_to_fw:
  assumes L: "mfw_serves G fw (d_pret D i) mb F W"
  shows "k \<le> 8 \<Longrightarrow> (let D' = direct_copy G TO_DEVICE i k (mbw mb 6) src D in d_hmem D' = d_hmem D
    \<and> fw_mem fw (d_chip D') = put_dwords 4 (mbw mb 6) (get_dwords 4 src k (d_hmem D)) (fw_mem fw (d_chip D))
    \<and> fw_busy fw (d_chip D') = fw_busy fw (d_chip D) \<and> fw_por fw (d_chip D') = fw_por fw (d_chip D))"
proof (induction k)
  case (Suc k)
  note L' = mfw_servesD [OF L]
  have k: "6 + k < 14" using Suc.prems by simp
  show ?case using Suc L'(5,6) [OF k] L'(7) [OF _ k]
    unfolding direct_copy_Suc get_dwords_snoc put_dwords_snoc mbw_add Let_def by (simp add: mbw_add)
qed simp

lemma copy_from_fw:
  assumes L: "mfw_serves G fw (d_pret D i) mb F W"
  shows "k \<le> 8 \<Longrightarrow> (let D' = direct_copy G FROM_DEVICE i k (mbw mb 6) dst D in
    d_hmem D' = put_dwords 4 dst (get_dwords 4 (mbw mb 6) k (fw_mem fw (d_chip D))) (d_hmem D)
    \<and> fw_mem fw (d_chip D') = fw_mem fw (d_chip D)
    \<and> fw_busy fw (d_chip D') = fw_busy fw (d_chip D) \<and> fw_por fw (d_chip D') = fw_por fw (d_chip D))"
proof (induction k)
  case (Suc k)
  note L' = mfw_servesD [OF L]
  have k: "6 + k < 14" using Suc.prems by simp
  show ?case using Suc L'(1,2) [OF k]
    unfolding direct_copy_Suc get_dwords_snoc put_dwords_snoc mbw_add Let_def mfw_same_def
    by (simp add: mbw_add prod.case_eq_if)
qed simp

lemma at_copy_to:
  assumes E: "mfw_env B G V fw i pr mb F W" and h: "fw_at V fw i pr c h hm m b po" and n: "n \<le> 32" and src: "src \<noteq> 0"
  shows "fw_at V fw i pr c (qed_memcpy_to B i (mbw mb 6) src n h) hm
    (put_dwords 4 (mbw mb 6) (get_dwords 4 src (n div 4) hm) m) b po"
proof -
  note e = mfw_envD [OF E]
  have ok: "ptt_ok V h" "is_pf (cdev h)" "d_pret (direct_of V h) i = pr" using h by (auto simp: fw_at_def)
  have s: "sim V h (qed_memcpy_to B i (mbw mb 6) src n h) (direct_copy G TO_DEVICE i (n div 4) (mbw mb 6) src (direct_of V h))"
    using sim_memcpy [OF e(1) ok(1) e(3) union_area [OF e(4) n] ok(2), of src TO_DEVICE] src by (simp add: qed_memcpy_to_def)
  have k: "n div 4 \<le> 8" using n by simp
  from copy_to_fw [of G fw "direct_of V h" i mb F W, unfolded ok(3), OF e(2) k, of src] fw_at_sim [OF h s] h
  show ?thesis by (simp add: fw_at_def Let_def)
qed

lemma at_copy_from:
  assumes E: "mfw_env B G V fw i pr mb F W" and h: "fw_at V fw i pr c h hm m b po" and n: "n \<le> 32" and dst: "dst \<noteq> 0"
  shows "fw_at V fw i pr c (qed_memcpy_from B i dst (mbw mb 6) n h)
    (put_dwords 4 dst (get_dwords 4 (mbw mb 6) (n div 4) m) hm) m b po"
proof -
  note e = mfw_envD [OF E]
  have ok: "ptt_ok V h" "is_pf (cdev h)" "d_pret (direct_of V h) i = pr" using h by (auto simp: fw_at_def)
  have s: "sim V h (qed_memcpy_from B i dst (mbw mb 6) n h) (direct_copy G FROM_DEVICE i (n div 4) (mbw mb 6) dst (direct_of V h))"
    using sim_memcpy [OF e(1) ok(1) e(3) union_area [OF e(4) n] ok(2), of dst FROM_DEVICE] dst by (simp add: qed_memcpy_from_def)
  have k: "n div 4 \<le> 8" using n by simp
  from copy_from_fw [of G fw "direct_of V h" i mb F W, unfolded ok(3), OF e(2) k, of dst] fw_at_sim [OF h s] h
  show ?thesis by (simp add: fw_at_def Let_def)
qed

lemma at_hmem: "fw_at V fw i pr c h hm m b po \<Longrightarrow> fw_at V fw i pr c (h\<lparr>hmem := hm'\<rparr>) hm' m b po"
  using simD(1) [OF sim_hmem [OF sim_refl [of V h]], of hm'] by (simp add: fw_at_def)

text \<open>The local union: eight dwords of which those within the source are copied.\<close>

lemma union_fill_put: "union_fill ud f k m = put_dwords 4 ud (map f [0..<k]) m"
  by (induction k) (simp_all add: put_dwords_snoc)

definition union_words :: "(u64 \<Rightarrow> u32) \<Rightarrow> u64 \<Rightarrow> nat \<Rightarrow> u32 list" where
  "union_words hm src n = map (union_dword hm src n) [0..<8]"

lemma length_union_words [simp]: "length (union_words hm src n) = 8"
  by (simp add: union_words_def)

lemma get_put_4: "length vs * 4 \<le> 2 ^ LENGTH('n) \<Longrightarrow> get_dwords 4 a (length vs) (put_dwords 4 a vs m) = vs"
  for a :: "'n::len word"
  by (intro get_put_dwords block_inj4)

lemma get_union: "get_dwords 4 ud 8 (put_dwords 4 ud (union_words hm src n) m) = union_words hm src n" for ud :: u64
  using get_put_4 [of "union_words hm src n" ud m] by simp

lemma mbw_block: "block 4 (mbw mb 6) 8 = mbw mb ` {6..<14}"
proof -
  have "block 4 (mbw mb 6) 8 = (\<lambda>k. mbw mb (6 + k)) ` {..<8}" by (auto simp: block_def mbw_add)
  also have "\<dots> = mbw mb ` ((+) 6 ` {..<8})" by (simp add: image_image)
  also have "(+) 6 ` {..<8} = {6..<14 :: nat}" by (auto simp: image_iff Bex_def intro: exI [of _ "_ - 6"]) presburger
  finally show ?thesis .
qed

lemma union_outside:
  assumes "grc_area mb 56" "j < 6" "length vs = 8"
  shows "put_dwords 4 (mbw mb 6) vs m (mbw mb j) = m (mbw mb j)"
proof (rule put_dwords_outside)
  have "mbw mb j \<noteq> mbw mb k" if "6 \<le> k" "k < 14" for k
    using mbw_eq [OF assms(1), of j k] that assms(2) by simp
  then show "mbw mb j \<notin> block 4 (mbw mb 6) (length vs)" unfolding assms(3) mbw_block by fastforce
qed

section \<open>The mailbox before and after the answer\<close>

text \<open>The mailbox after the command of code \<open>q\<close> was written, and what the firmware makes of it.\<close>

definition mb_sent :: "u32 \<Rightarrow> u32 \<Rightarrow> u32 \<Rightarrow> u16 \<Rightarrow> u32 list \<Rightarrow> (u32 \<Rightarrow> u32) \<Rightarrow> u32 \<Rightarrow> u32" where
  "mb_sent mb c prm q ws m =
     ((put_dwords 4 (mbw mb 6) ws m)(mbw mb 1 := prm))(mbw mb 0 := c OR ucast q)"

lemma mb_sent_words:
  assumes A: "grc_area mb 56" and ws: "length ws = 8"
  shows "mb_sent mb c prm q ws m (mbw mb 0) = c OR ucast q" "mb_sent mb c prm q ws m (mbw mb 1) = prm"
    "mb_sent mb c prm q ws m (mbw mb 2) = m (mbw mb 2)" "get_dwords 4 (mbw mb 6) 8 (mb_sent mb c prm q ws m) = ws"
proof -
  note eq = mbw_eq [OF A]
  show "mb_sent mb c prm q ws m (mbw mb 0) = c OR ucast q" "mb_sent mb c prm q ws m (mbw mb 1) = prm"
    "mb_sent mb c prm q ws m (mbw mb 2) = m (mbw mb 2)"
    using union_outside [OF A _ ws] by (simp_all add: mb_sent_def eq)
  have "get_dwords 4 (mbw mb 6) 8 (mb_sent mb c prm q ws m) = get_dwords 4 (mbw mb 6) 8 (put_dwords 4 (mbw mb 6) ws m)"
    by (rule get_dwords_cong) (auto simp: mbw_block mb_sent_def eq)
  then show "get_dwords 4 (mbw mb 6) 8 (mb_sent mb c prm q ws m) = ws"
    using get_put_4 [of ws "mbw mb 6" m] ws by simp
qed

text \<open>The command's code has no bits where the sequence number goes.\<close>

lemma header_masks: "FW_MSG_SEQ_NUMBER_MASK = mask 16" "FW_MSG_CODE_MASK = NOT (mask 16)"
  by (simp_all add: FW_MSG_SEQ_NUMBER_MASK_def FW_MSG_CODE_MASK_def mask_eq_exp_minus_1)

lemma seq_parts: "(ucast q :: u32) AND mask 16 = ucast q" "(ucast q :: u32) AND NOT (mask 16) = 0"
  "ucast (ucast q :: u32) = q" for q :: u16
  by (rule bit_eqI; auto simp: bit_simps dest: bit_imp_le_length)+

lemma header_parts:
  fixes c d :: u32 and q :: u16
  assumes "c AND FW_MSG_SEQ_NUMBER_MASK = 0"
  shows "(c OR ucast q) AND FW_MSG_CODE_MASK = c" "(c OR ucast q) AND FW_MSG_SEQ_NUMBER_MASK = ucast q"
    "((d AND FW_MSG_CODE_MASK) OR ucast q) AND FW_MSG_CODE_MASK = d AND FW_MSG_CODE_MASK"
    "ucast (((d AND FW_MSG_CODE_MASK) OR ucast q) AND FW_MSG_SEQ_NUMBER_MASK) = q"
proof -
  have c: "c AND mask 16 = 0" using assms by (simp only: header_masks)
  have "(c AND mask 16) OR (c AND NOT (mask 16)) = c" by (rule bit_eqI) (auto simp: bit_simps)
  then have c': "c AND NOT (mask 16) = c" by (simp only: c or.left_neutral)
  show "(c OR ucast q) AND FW_MSG_CODE_MASK = c" "(c OR ucast q) AND FW_MSG_SEQ_NUMBER_MASK = ucast q"
    "((d AND FW_MSG_CODE_MASK) OR ucast q) AND FW_MSG_CODE_MASK = d AND FW_MSG_CODE_MASK"
    "ucast (((d AND FW_MSG_CODE_MASK) OR ucast q) AND FW_MSG_SEQ_NUMBER_MASK) = q"
    unfolding header_masks bit.conj_disj_distrib2 seq_parts c c' by (simp_all add: and.assoc seq_parts)
qed

lemma fw_answer_words:
  fixes q :: u16 and m :: "u32 \<Rightarrow> u32"
  assumes A: "grc_area mb 56" and ws: "length ws = 8" and c: "c AND FW_MSG_SEQ_NUMBER_MASK = 0"
    and F: "F c prm ws = (code, rprm, dat)" and dat: "length dat = 8"
  defines "m' \<equiv> fw_answer F mb (mb_sent mb c prm q ws m)"
  shows "m' (mbw mb 2) = (code AND FW_MSG_CODE_MASK) OR ucast q" "m' (mbw mb 3) = rprm"
    "k \<le> 8 \<Longrightarrow> get_dwords 4 (mbw mb 6) k m' = take k dat"
proof -
  note eq = mbw_eq [OF A] and w = mb_sent_words [OF A ws]
  have m': "m' = put_dwords 4 (mbw mb 6) dat ((mb_sent mb c prm q ws m)(mbw mb 2 := (code AND FW_MSG_CODE_MASK) OR ucast q,
      mbw mb 3 := rprm))"
    by (simp only: m'_def fw_answer_def w header_parts [OF c] F Let_def prod.case)
  show "m' (mbw mb 2) = (code AND FW_MSG_CODE_MASK) OR ucast q" "m' (mbw mb 3) = rprm"
    unfolding m' using union_outside [OF A _ dat] by (simp_all add: eq)
  have "get_dwords 4 (mbw mb 6) 8 m' = dat" unfolding m' using get_put_4 [of dat "mbw mb 6"] dat by simp
  moreover assume "k \<le> 8"
  then have "get_dwords 4 (mbw mb 6) k m' = take k (get_dwords 4 (mbw mb 6) 8 m')"
    by (auto simp: get_dwords_def take_map)
  ultimately show "get_dwords 4 (mbw mb 6) k m' = take k dat" by simp
qed

end
