(* ===== verification/Qed_Mcp_Answer.thy ===== *)
theory Qed_Mcp_Answer
  imports Qed_Mcp_Mfw
begin

unbundle bit_operations_syntax

text \<open>
  A command from the call to the answer: with a firmware that serves the mailbox, \<open>qed_mcp_cmd_and_union\<close> returns
  what the firmware computed from what the caller gave, and leaves the list of the commands as it was.
\<close>

section \<open>The steps of a call\<close>

lemma mbw_offs:
  "mb + drv_mb_header_off = mbw mb 0" "mb + drv_mb_param_off = mbw mb 1" "mb + fw_mb_header_off = mbw mb 2"
  "mb + fw_mb_param_off = mbw mb 3" "mb + union_data_off = mbw mb 6"
  by (simp_all add: mbw_def drv_mb_header_off_def drv_mb_param_off_def fw_mb_header_off_def fw_mb_param_off_def
      union_data_off_def)

definition mb_src :: "(u64 \<Rightarrow> u32) \<Rightarrow> qed_mcp_mb_params \<Rightarrow> u32 list" where
  "mb_src hm b = union_words hm (p_data_src b) (unat (data_src_size b))"

lemma length_mb_src [simp]: "length (mb_src hm b) = 8"
  by (simp add: mb_src_def)

lemma reread_at:
  assumes "mfw_env (me_bus E) G V fw i pr mb F W" "fw_at V fw i pr c (mhw s) hm m bz (mcp_hist (mcp_of s))"
  obtains h where "qed_mcp_reread_offsets E i s = s\<lparr>mhw := h\<rparr>" "fw_at V fw i pr c h hm m bz (mcp_hist (mcp_of s))"
proof -
  obtain h where r: "qed_rd (me_bus E) i MISCS_REG_GENERIC_POR_0 (mhw s) = (mcp_hist (mcp_of s), h)"
    "fw_at V fw i pr c h hm m bz (mcp_hist (mcp_of s))" by (rule at_rd_por [OF assms])
  show thesis by (rule that [OF _ r(2)]) (simp add: qed_mcp_reread_offsets_def mcp_rd_def r(1) mcp_of_def)
qed

lemma write_at:
  assumes E: "mfw_env (me_bus E) G V fw i pr mb F W" and s: "fw_at V fw i pr c (mhw s) hm m bz po"
    and mb: "drv_mb_addr (mcp_of s) = mb" and b: "mb_at s p = b" and ud: "ud \<noteq> 0"
  obtains h bz' where "mcp_cmd_and_union_write E i ud p q s = s\<lparr>mhw := h\<rparr>" "0 < bz'" "bz' \<le> W"
    "fw_at V fw i pr c h (put_dwords 4 ud (mb_src hm b) hm) (mb_sent mb (mb_cmd b) (mb_param b) q (mb_src hm b) m) bz' po"
proof -
  let ?hm = "put_dwords 4 ud (mb_src hm b) hm"
  let ?h1 = "qed_memcpy_to (me_bus E) i (mbw mb 6) ud 32 ((mhw s)\<lparr>hmem := ?hm\<rparr>)"
  have w: "get_dwords 4 ud (32 div 4) ?hm = mb_src hm b" using get_union by (simp add: mb_src_def)
  have h1: "fw_at V fw i pr c ?h1 ?hm (put_dwords 4 (mbw mb 6) (mb_src hm b) m) bz po"
    using at_copy_to [OF E at_hmem [OF s] order_refl ud, of ?hm] unfolding w .
  obtain b2 where h2: "fw_at V fw i pr c (qed_wr (me_bus E) i (mbw mb 1) (mb_param b) ?h1) ?hm
      ((put_dwords 4 (mbw mb 6) (mb_src hm b) m)(mbw mb 1 := mb_param b)) b2 po"
    using at_wr_word [OF E h1, of 1] by auto
  obtain b3 where h3: "fw_at V fw i pr c (qed_wr (me_bus E) i (mbw mb 0) (mb_cmd b OR ucast q)
      (qed_wr (me_bus E) i (mbw mb 1) (mb_param b) ?h1)) ?hm (mb_sent mb (mb_cmd b) (mb_param b) q (mb_src hm b) m) b3 po"
    "0 < b3" "b3 \<le> W"
    using at_wr_word [OF E h2, of 0] unfolding mb_sent_def by auto
  have hm: "hmem (mhw s) = hm" using s by (simp add: fw_at_def)
  have m: "drv_mb_addr (mcp_of (s\<lparr>mhw := x\<rparr>)) = mb" for x using mb by (simp add: mcp_of_def)
  show thesis
    by (rule that [OF _ h3(2,3,1)])
      (simp add: mcp_cmd_and_union_write_def Let_def DRV_MB_WR_def mcp_wr_def m b mb mbw_offs union_fill_put hm
        union_data_size_def mb_src_def union_words_def)
qed

text \<open>The state once the command is in the mailbox.\<close>

definition mb_out :: "nat \<Rightarrow> nat \<Rightarrow> 'd mcp_fn \<Rightarrow> 'd mcp_fn" where
  "mb_out p a s = s\<lparr>mcp_info := Some ((mcp_of s)\<lparr>drv_mb_seq := drv_mb_seq (mcp_of s) + 1, cmd_list := a # cmd_list (mcp_of s)\<rparr>),
     cmd_elems := (cmd_elems s)(a \<mapsto> \<lparr>p_mb_params = p, expected_seq_num = drv_mb_seq (mcp_of s) + 1, b_is_completed = False\<rparr>)\<rparr>"

lemma send_at:
  assumes E: "mfw_env (me_bus E) G V fw i pr mb F W"
    and s: "fw_at V fw i pr c (mhw s) hm m bz (mcp_hist (mcp_of s))"
    and mb: "drv_mb_addr (mcp_of s) = mb" and b: "mb_at s p = b" and fr: "fr_union fr \<noteq> 0" "fr_elem fr = Some a"
  obtains h bz' where "mb_send E i fr p s = (Some a, (mb_out p a s)\<lparr>mhw := h\<rparr>)" "0 < bz'" "bz' \<le> W"
    "fw_at V fw i pr c h (put_dwords 4 (fr_union fr) (mb_src hm b) hm)
       (mb_sent mb (mb_cmd b) (mb_param b) (drv_mb_seq (mcp_of s) + 1) (mb_src hm b) m) bz' (mcp_hist (mcp_of s))"
proof -
  obtain h where h: "qed_mcp_reread_offsets E i s = s\<lparr>mhw := h\<rparr>" "fw_at V fw i pr c h hm m bz (mcp_hist (mcp_of s))"
    by (rule reread_at [OF E s])
  let ?s = "(mb_out p a s)\<lparr>mhw := h\<rparr>"
  have s': "mhw ?s = h" "drv_mb_addr (mcp_of ?s) = mb" "mb_at ?s p = b"
    using mb b by (simp_all add: mb_out_def mcp_of_def mb_at_def)
  obtain h' bz' where w: "mcp_cmd_and_union_write E i (fr_union fr) p (drv_mb_seq (mcp_of s) + 1) ?s = ?s\<lparr>mhw := h'\<rparr>"
    "0 < bz'" "bz' \<le> W" "fw_at V fw i pr c h' (put_dwords 4 (fr_union fr) (mb_src hm b) hm)
       (mb_sent mb (mb_cmd b) (mb_param b) (drv_mb_seq (mcp_of s) + 1) (mb_src hm b) m) bz' (mcp_hist (mcp_of s))"
    by (rule write_at [OF E, of c ?s hm m bz "mcp_hist (mcp_of s)" p b "fr_union fr" "drv_mb_seq (mcp_of s) + 1"])
      (use h(2) s' fr in simp_all)
  have "qed_mcp_cmd_add_elem (Some a) p (drv_mb_seq (mcp_of s) + 1)
      (mcp_upd (\<lambda>m. m\<lparr>drv_mb_seq := drv_mb_seq m + 1\<rparr>) (s\<lparr>mhw := h\<rparr>)) = (Some a, ?s)"
    by (simp add: qed_mcp_cmd_add_elem_def mcp_upd_def mcp_of_def mb_out_def list_add_def Let_def)
  moreover have "drv_mb_seq (mcp_of (mcp_upd (\<lambda>m. m\<lparr>drv_mb_seq := drv_mb_seq m + 1\<rparr>) (s\<lparr>mhw := h\<rparr>)))
      = drv_mb_seq (mcp_of s) + 1" by (simp add: mcp_upd_def mcp_of_def)
  ultimately show thesis using that [OF _ w(2-4)] w(1) by (simp add: mb_send_def h(1) fr(2) Let_def)
qed

text \<open>A look at the mailbox before the answer is there, and once it is.\<close>

definition mb_dst :: "qed_mcp_mb_params \<Rightarrow> u32 list \<Rightarrow> (u64 \<Rightarrow> u32) \<Rightarrow> u64 \<Rightarrow> u32" where
  "mb_dst b dat hm = (if p_data_dst b \<noteq> 0 \<and> data_dst_size b \<noteq> 0
     then put_dwords 4 (p_data_dst b) (take (unat (data_dst_size b) div 4) dat) hm else hm)"

lemma poll_early:
  assumes E: "mfw_env (me_bus E) G V fw i pr mb F W" and s: "fw_at V fw i pr c (mhw s) hm m bz po"
    and mb: "drv_mb_addr (mcp_of s) = mb" and a: "\<not> b_is_completed (elem_at s a)"
    and q: "ucast (m (mbw mb 2) AND FW_MSG_SEQ_NUMBER_MASK) \<noteq> drv_mb_seq (mcp_of s)"
  obtains h where "mb_poll_resp E i a s = (RC_ERR EAGAIN, s\<lparr>mhw := h\<rparr>)" "fw_at V fw i pr c h hm m bz po"
proof -
  obtain h where r: "qed_rd (me_bus E) i (mbw mb 2) (mhw s) = (m (mbw mb 2), h)" "fw_at V fw i pr c h hm m bz po"
    using at_rd_word [OF E s, of 2] by auto
  show thesis
    by (rule that [OF _ r(2)]) (use q in \<open>simp add: mb_poll_resp_def a qed_mcp_update_pending_cmd_def
        DRV_MB_RD_def mcp_rd_def mb mbw_offs r(1) mhw_upd_keeps Let_def\<close>)
qed

lemma poll_answer:
  assumes E: "mfw_env (me_bus E) G V fw i pr mb F W" and s: "fw_at V fw i pr c (mhw s) hm m bz po"
    and mb: "drv_mb_addr (mcp_of s) = mb" and a: "\<not> b_is_completed (elem_at s a)" "cmd_list (mcp_of s) = a # l"
    "expected_seq_num (elem_at s a) = drv_mb_seq (mcp_of s)" "p_mb_params (elem_at s a) = p" and b: "mb_at s p = b"
    and q: "ucast (m (mbw mb 2) AND FW_MSG_SEQ_NUMBER_MASK) = drv_mb_seq (mcp_of s)"
    and dat: "\<And>k. k \<le> 8 \<Longrightarrow> get_dwords 4 (mbw mb 6) k m = take k dat" and n: "unat (data_dst_size b) \<le> 32"
  obtains h where "mb_poll_resp E i a s = (RC_OK, s\<lparr>mhw := h,
      mb_objs := (mb_objs s)(p \<mapsto> b\<lparr>mcp_resp := m (mbw mb 2), mcp_param := m (mbw mb 3)\<rparr>),
      cmd_elems := (cmd_elems s)(a \<mapsto> (elem_at s a)\<lparr>b_is_completed := True\<rparr>)\<rparr>)" "fw_at V fw i pr c h (mb_dst b dat hm) m bz po"
proof -
  obtain h1 where r1: "qed_rd (me_bus E) i (mbw mb 2) (mhw s) = (m (mbw mb 2), h1)" "fw_at V fw i pr c h1 hm m bz po"
    using at_rd_word [OF E s, of 2] by auto
  obtain h2 where r2: "qed_rd (me_bus E) i (mbw mb 3) h1 = (m (mbw mb 3), h2)" "fw_at V fw i pr c h2 hm m bz po"
    using at_rd_word [OF E r1(2), of 3] by auto
  define h3 where "h3 = (if p_data_dst b \<noteq> 0 \<and> data_dst_size b \<noteq> 0
    then qed_memcpy_from (me_bus E) i (p_data_dst b) (mbw mb 6) (unat (data_dst_size b)) h2 else h2)"
  have h3: "fw_at V fw i pr c h3 (mb_dst b dat hm) m bz po"
    using at_copy_from [OF E r2(2) n, of "p_data_dst b"] dat [of "unat (data_dst_size b) div 4"] n r2(2)
    by (auto simp: h3_def mb_dst_def)
  have f: "qed_mcp_cmd_get_elem (s\<lparr>mhw := h1\<rparr>) (drv_mb_seq (mcp_of s)) = Some a"
    "elem_at (s\<lparr>mhw := h1\<rparr>) a = elem_at s a" using a(2,3) by (simp_all add: qed_mcp_cmd_get_elem_def mcp_of_def elem_at_def)
  have g: "elem_at (s\<lparr>mhw := x, mb_objs := y\<rparr>) z = elem_at s z" "mcp_of (s\<lparr>mhw := x, mb_objs := y\<rparr>) = mcp_of s"
    "mb_at (s\<lparr>mhw := x, mb_objs := (mb_objs s)(p \<mapsto> w)\<rparr>) p = w"
    "elem_at (s\<lparr>mb_objs := y\<rparr>) z = elem_at s z" "mb_at (s\<lparr>mb_objs := (mb_objs s)(p \<mapsto> w)\<rparr>) p = w"
    "elem_at (s\<lparr>mb_objs := y, mhw := x\<rparr>) z = elem_at s z" for x y z w
    by (simp_all add: elem_at_def mcp_of_def mb_at_def)
  have "mb_poll_resp E i a s = (RC_OK, s\<lparr>mhw := h3,
      mb_objs := (mb_objs s)(p \<mapsto> b\<lparr>mcp_resp := m (mbw mb 2), mcp_param := m (mbw mb 3)\<rparr>),
      cmd_elems := (cmd_elems s)(a \<mapsto> (elem_at s a)\<lparr>b_is_completed := True\<rparr>)\<rparr>)"
    by (simp add: mb_poll_resp_def a qed_mcp_update_pending_cmd_def DRV_MB_RD_def mcp_rd_def mb mbw_offs r1(1) r2(1)
        mhw_upd_keeps q f mb_put_def b g h3_def Let_def)
  then show thesis using that h3 by blast
qed

lemma delay_at: "\<exists>u. mb_delay E p us cnt s = s\<lparr>mhw := udelay (me_bus E) u (mhw s)\<rparr>"
  by (auto simp: mb_delay_def mcp_udelay_def mcp_msleep_def)

text \<open>The loop that waits: the answer is found before the attempts are used up.\<close>

lemma wait_answer:
  assumes E: "mfw_env (me_bus E) G V fw i pr mb F W"
    and mb: "drv_mb_addr (mcp_of s) = mb" and a: "\<not> b_is_completed (elem_at s a)" "cmd_list (mcp_of s) = a # l"
    "expected_seq_num (elem_at s a) = drv_mb_seq (mcp_of s)" "p_mb_params (elem_at s a) = p" and b: "mb_at s p = b"
    and q: "ucast (m (mbw mb 2) AND FW_MSG_SEQ_NUMBER_MASK) \<noteq> drv_mb_seq (mcp_of s)"
    and n: "unat (data_dst_size b) \<le> 32" and m': "m' = fw_answer F mb m"
    and q': "ucast (m' (mbw mb 2) AND FW_MSG_SEQ_NUMBER_MASK) = drv_mb_seq (mcp_of s)"
    and dat: "\<And>k. k \<le> 8 \<Longrightarrow> get_dwords 4 (mbw mb 6) k m' = take k dat"
  shows "fw_at V fw i pr c h hm m bz po \<Longrightarrow> 0 < bz \<Longrightarrow> cnt + bz \<le> mx \<Longrightarrow>
    \<exists>cnt' h'. cnt' < mx \<and> fw_at V fw i pr c h' (mb_dst b dat hm) m' 0 po \<and> mb_wait_resp E i p a mx us cnt (s\<lparr>mhw := h\<rparr>) = (RC_OK, cnt', s\<lparr>mhw := h',
      mb_objs := (mb_objs s)(p \<mapsto> b\<lparr>mcp_resp := m' (mbw mb 2), mcp_param := m' (mbw mb 3)\<rparr>),
      cmd_elems := (cmd_elems s)(a \<mapsto> (elem_at s a)\<lparr>b_is_completed := True\<rparr>)\<rparr>)"
proof (induction bz arbitrary: h cnt rule: less_induct)
  case (less bz)
  obtain u where u: "mb_delay E p us cnt (s\<lparr>mhw := h\<rparr>) = s\<lparr>mhw := udelay (me_bus E) u h\<rparr>"
    using delay_at [of E p us cnt "s\<lparr>mhw := h\<rparr>"] by auto
  obtain bz1 where h1: "fw_at V fw i pr c (udelay (me_bus E) u h) hm (if bz1 = 0 then m' else m) bz1 po" "bz1 < bz"
    unfolding m' by (rule at_delay [OF E less.prems(1,2)])
  let ?s = "s\<lparr>mhw := udelay (me_bus E) u h\<rparr>"
  have s: "drv_mb_addr (mcp_of ?s) = mb" "elem_at ?s a = elem_at s a" "cmd_list (mcp_of ?s) = a # l"
    "drv_mb_seq (mcp_of ?s) = drv_mb_seq (mcp_of s)" "mb_at ?s p = b" "mhw ?s = udelay (me_bus E) u h"
    using mb a b by (simp_all add: mcp_of_def elem_at_def mb_at_def)
  show ?case
  proof (cases "bz1 = 0")
    case True
    have f: "fw_at V fw i pr c (mhw ?s) hm m' 0 po" using h1(1) by (simp add: True)
    obtain h2 where "mb_poll_resp E i a ?s = (RC_OK, ?s\<lparr>mhw := h2,
        mb_objs := (mb_objs ?s)(p \<mapsto> b\<lparr>mcp_resp := m' (mbw mb 2), mcp_param := m' (mbw mb 3)\<rparr>),
        cmd_elems := (cmd_elems ?s)(a \<mapsto> (elem_at ?s a)\<lparr>b_is_completed := True\<rparr>)\<rparr>)" "fw_at V fw i pr c h2 (mb_dst b dat hm) m' 0 po"
      by (rule poll_answer [OF E f, of a l p b dat]) (use s a b q' dat n in simp_all)
    then have "mb_wait_resp E i p a mx us cnt (s\<lparr>mhw := h\<rparr>) = (RC_OK, cnt, s\<lparr>mhw := h2,
        mb_objs := (mb_objs s)(p \<mapsto> b\<lparr>mcp_resp := m' (mbw mb 2), mcp_param := m' (mbw mb 3)\<rparr>),
        cmd_elems := (cmd_elems s)(a \<mapsto> (elem_at s a)\<lparr>b_is_completed := True\<rparr>)\<rparr>)" "fw_at V fw i pr c h2 (mb_dst b dat hm) m' 0 po"
      by (simp_all add: mb_wait_resp.simps [of E i p a mx us cnt] u s del: fun_upd_apply)
    moreover have "cnt < mx" using less.prems(2,3) by simp
    ultimately show ?thesis by blast
  next
    case False
    have f: "fw_at V fw i pr c (mhw ?s) hm m bz1 po" using h1(1) by (simp add: False)
    obtain h2 where h2: "mb_poll_resp E i a ?s = (RC_ERR EAGAIN, ?s\<lparr>mhw := h2\<rparr>)" "fw_at V fw i pr c h2 hm m bz1 po"
      by (rule poll_early [OF E f, of a]) (use s a q in simp_all)
    have "Suc cnt < mx" using less.prems(3) h1(2) False by simp
    then show ?thesis using less.IH [OF h1(2) h2(2), of "Suc cnt"] less.prems(3) h1(2) False
      by (simp add: mb_wait_resp.simps [of E i p a mx us cnt] u h2(1))
  qed
qed

section \<open>The whole call\<close>

text \<open>A mailbox that takes a command: the firmware runs and is idle, and no other command is pending.\<close>

definition mb_idle :: "'d mcp_fn \<Rightarrow> bool" where
  "mb_idle s \<longleftrightarrow> mcp_info s \<noteq> None \<and> b_mfw_running (mcp_of s) \<and> \<not> b_halted (mcp_of s) \<and> \<not> b_block_cmd (mcp_of s)
     \<and> \<not> qed_mcp_has_pending_cmd s"

definition mb_request :: "mb_frame \<Rightarrow> nat \<Rightarrow> 'd mcp_fn \<Rightarrow> bool" where
  "mb_request fr a s \<longleftrightarrow> fr_union fr \<noteq> 0 \<and> fr_elem fr = Some a \<and> cmd_elems s a = None \<and> a \<notin> set (cmd_list (mcp_of s))"

definition mb_params_ok :: "qed_mcp_mb_params \<Rightarrow> bool" where
  "mb_params_ok b \<longleftrightarrow> unat (data_src_size b) \<le> union_data_size \<and> unat (data_dst_size b) \<le> union_data_size
     \<and> mb_cmd b AND FW_MSG_SEQ_NUMBER_MASK = 0"

definition mb_attempts :: "qed_cdev \<Rightarrow> qed_mcp_mb_params \<Rightarrow> nat" where
  "mb_attempts c b = mb_retries b (fst (mb_limits c b))"

text \<open>The state after the call: only the sequence number, the answer and the memory differ.\<close>

definition mb_answered :: "nat \<Rightarrow> qed_mcp_mb_params \<Rightarrow> 'd qed_hwfn \<Rightarrow> 'd mcp_fn \<Rightarrow> 'd mcp_fn" where
  "mb_answered p b h s = s\<lparr>mhw := h, mcp_info := Some ((mcp_of s)\<lparr>drv_mb_seq := drv_mb_seq (mcp_of s) + 1\<rparr>),
     mb_objs := (mb_objs s)(p \<mapsto> b)\<rparr>"

lemma finish_out:
  assumes "cmd_elems s a = None" "a \<notin> set (cmd_list (mcp_of s))"
  shows "mb_finish p a ((mb_out p a s)\<lparr>mhw := h, mb_objs := (mb_objs s)(p \<mapsto> b),
      cmd_elems := (cmd_elems (mb_out p a s))(a \<mapsto> e)\<rparr>)
    = mb_answered p (b\<lparr>mcp_resp := mcp_resp b AND FW_MSG_CODE_MASK\<rparr>) h s"
proof -
  have "(cmd_elems s)(a := None) = cmd_elems s" using assms(1) by (simp add: fun_upd_idem)
  moreover have "list_del a (a # cmd_list (mcp_of s)) = cmd_list (mcp_of s)"
    using assms(2) by (simp add: list_del_def)
  ultimately show ?thesis
    by (simp add: mb_finish_def qed_mcp_cmd_del_elem_def mcp_upd_def mcp_of_def mb_out_def mb_put_def mb_at_def
        mb_answered_def Let_def)
qed

lemma out_fields:
  "mcp_of ((mb_out p a s)\<lparr>mhw := h\<rparr>) = (mcp_of s)\<lparr>drv_mb_seq := drv_mb_seq (mcp_of s) + 1, cmd_list := a # cmd_list (mcp_of s)\<rparr>"
  "mcp_of (mb_out p a s) = (mcp_of s)\<lparr>drv_mb_seq := drv_mb_seq (mcp_of s) + 1, cmd_list := a # cmd_list (mcp_of s)\<rparr>"
  "elem_at (mb_out p a s) a = \<lparr>p_mb_params = p, expected_seq_num = drv_mb_seq (mcp_of s) + 1, b_is_completed = False\<rparr>"
  "mb_at (mb_out p a s) p' = mb_at s p'" "mb_objs (mb_out p a s) = mb_objs s"
  by (simp_all add: mb_out_def mcp_of_def elem_at_def mb_at_def)

lemma send_and_wait:
  assumes E: "mfw_env (me_bus E) G V fw i pr (drv_mb_addr (mcp_of s)) F W"
    and s: "fw_at V fw i pr c (mhw s) hm m bz (mcp_hist (mcp_of s))" and fr: "mb_request fr a s"
    and p: "mb_at s p = b" and ok: "mb_params_ok b" and W: "W \<le> mx"
    and q: "ucast (m (mbw (drv_mb_addr (mcp_of s)) 2) AND FW_MSG_SEQ_NUMBER_MASK) \<noteq> drv_mb_seq (mcp_of s) + 1"
    and F: "F (mb_cmd b) (mb_param b) (mb_src hm b) = (code, prm, dat)"
  obtains s1 cnt s2 h m' where "mb_send E i fr p s = (Some a, s1)" "cnt < mx"
    "mb_wait_resp E i p a mx us 0 s1 = (RC_OK, cnt, s2)"
    "mb_finish p a s2 = mb_answered p (b\<lparr>mcp_param := prm, mcp_resp := code AND FW_MSG_CODE_MASK\<rparr>) h s"
    "fw_at V fw i pr c h (mb_dst b dat (put_dwords 4 (fr_union fr) (mb_src hm b) hm)) m' 0 (mcp_hist (mcp_of s))"
    "ucast (m' (mbw (drv_mb_addr (mcp_of s)) 2) AND FW_MSG_SEQ_NUMBER_MASK) = drv_mb_seq (mcp_of s) + 1"
proof -
  note e = mfw_envD [OF E]
  define mb n where "mb = drv_mb_addr (mcp_of s)" and "n = drv_mb_seq (mcp_of s) + 1"
  let ?m = "mb_sent mb (mb_cmd b) (mb_param b) n (mb_src hm b) m"
  have fr': "fr_union fr \<noteq> 0" "fr_elem fr = Some a" "cmd_elems s a = None" "a \<notin> set (cmd_list (mcp_of s))"
    using fr by (simp_all add: mb_request_def)
  have okD: "mb_cmd b AND FW_MSG_SEQ_NUMBER_MASK = 0" "unat (data_dst_size b) \<le> 32"
    using ok by (simp_all add: mb_params_ok_def union_data_size_def)
  have dat: "length dat = 8" using e(5) [of "mb_cmd b" "mb_param b" "mb_src hm b"] by (simp add: F)
  obtain h1 bz1 where h1: "mb_send E i fr p s = (Some a, (mb_out p a s)\<lparr>mhw := h1\<rparr>)" "0 < bz1" "bz1 \<le> W"
    "fw_at V fw i pr c h1 (put_dwords 4 (fr_union fr) (mb_src hm b) hm) ?m bz1 (mcp_hist (mcp_of s))"
    unfolding mb_def n_def by (rule send_at [OF E s refl p fr'(1,2)])
  note w = fw_answer_words [where mb = mb and ws = "mb_src hm b" and c = "mb_cmd b" and F = F and prm = "mb_param b"
      and code = code and rprm = prm and dat = dat and q = n and m = m, OF e(4) [folded mb_def] length_mb_src okD(1) F dat]
  note v = mb_sent_words [OF e(4) [folded mb_def] length_mb_src]
  have q1: "ucast (?m (mbw mb 2) AND FW_MSG_SEQ_NUMBER_MASK) \<noteq> drv_mb_seq (mcp_of (mb_out p a s))"
    using q unfolding v(3) mb_def [symmetric] by (simp add: out_fields)
  have q2: "ucast (fw_answer F mb ?m (mbw mb 2) AND FW_MSG_SEQ_NUMBER_MASK) = drv_mb_seq (mcp_of (mb_out p a s))"
    unfolding w header_parts(4) [OF okD(1)] by (simp add: out_fields n_def)
  have "drv_mb_addr (mcp_of (mb_out p a s)) = mb" by (simp add: out_fields mb_def)
  from wait_answer [OF E [folded mb_def] this _ _ _ _ _ q1 okD(2) refl q2 w(3) h1(4,2), of a "cmd_list (mcp_of s)" p 0 mx us]
  obtain cnt h where h: "cnt < mx"
    "fw_at V fw i pr c h (mb_dst b dat (put_dwords 4 (fr_union fr) (mb_src hm b) hm)) (fw_answer F mb ?m) 0 (mcp_hist (mcp_of s))"
    "mb_wait_resp E i p a mx us 0 ((mb_out p a s)\<lparr>mhw := h1\<rparr>) = (RC_OK, cnt, (mb_out p a s)\<lparr>mhw := h,
      mb_objs := (mb_objs s)(p \<mapsto> b\<lparr>mcp_resp := fw_answer F mb ?m (mbw mb 2), mcp_param := fw_answer F mb ?m (mbw mb 3)\<rparr>),
      cmd_elems := (cmd_elems (mb_out p a s))(a \<mapsto> (elem_at (mb_out p a s) a)\<lparr>b_is_completed := True\<rparr>)\<rparr>)"
    using h1(3) W by (auto simp: out_fields p)
  show thesis
  proof (rule that [OF h1(1) h(1,3) _ h(2)])
    show "ucast (fw_answer F mb ?m (mbw (drv_mb_addr (mcp_of s)) 2) AND FW_MSG_SEQ_NUMBER_MASK) = drv_mb_seq (mcp_of s) + 1"
      using q2 unfolding out_fields mb_def [symmetric] by simp
  qed (simp add: finish_out [OF fr'(3,4)] w header_parts(3) [OF okD(1)])
qed

lemma call_answered_at:
  assumes E: "mfw_env (me_bus E) G V fw i pr (drv_mb_addr (mcp_of s)) F W"
    and s: "fw_at V fw i pr c (mhw s) hm m bz (mcp_hist (mcp_of s))" and idle: "mb_idle s" and fr: "mb_request fr a s"
    and p: "mb_at s p = b" and ok: "mb_params_ok b" and W: "0 < W" "W \<le> mb_attempts c b"
    and q: "ucast (m (mbw (drv_mb_addr (mcp_of s)) 2) AND FW_MSG_SEQ_NUMBER_MASK) \<noteq> drv_mb_seq (mcp_of s) + 1"
    and F: "F (mb_cmd b) (mb_param b) (mb_src hm b) = (code, prm, dat)"
  shows "\<exists>h m'. fw_at V fw i pr c h (mb_dst b dat (put_dwords 4 (fr_union fr) (mb_src hm b) hm)) m' 0 (mcp_hist (mcp_of s)) \<and>
    ucast (m' (mbw (drv_mb_addr (mcp_of s)) 2) AND FW_MSG_SEQ_NUMBER_MASK) = drv_mb_seq (mcp_of s) + 1 \<and>
    qed_mcp_cmd_and_union E i fr (Some p) s =
      (RC_OK, mb_answered p (b\<lparr>mcp_param := prm, mcp_resp := code AND FW_MSG_CODE_MASK\<rparr>) h s)"
proof -
  obtain v h0 where me: "REG_RD (me_bus E) PXP_PF_ME_OPAQUE_ADDR (mhw s) = (v, h0)" "v \<noteq> 0xffffffff"
    "fw_at V fw i pr c h0 hm m bz (mcp_hist (mcp_of s))" by (rule at_me [OF E s])
  let ?s = "s\<lparr>mhw := h0\<rparr>" and ?mx = "mb_attempts c b"
  obtain mx us where l: "mb_limits c b = (mx, us)" by fastforce
  have mx: "?mx = mb_retries b mx" by (simp add: mb_attempts_def l)
  have s': "mcp_of ?s = mcp_of s" "mb_at ?s p = b" "mb_request fr a ?s"
    using p fr by (simp_all add: mhw_upd_keeps mb_request_def)
  have idle': "qed_mcp_is_init s" "\<not> b_halted (mcp_of s)" "\<not> b_block_cmd (mcp_of s)"
    "\<not> qed_mcp_has_pending_cmd ?s" using idle
    by (auto simp: mb_idle_def qed_mcp_is_init_def qed_mcp_has_pending_cmd_def mhw_upd_keeps split: list.splits)
  obtain s1 cnt s2 h m' where c: "mb_send E i fr p ?s = (Some a, s1)" "cnt < ?mx"
    "mb_wait_resp E i p a ?mx us 0 s1 = (RC_OK, cnt, s2)"
    "mb_finish p a s2 = mb_answered p (b\<lparr>mcp_param := prm, mcp_resp := code AND FW_MSG_CODE_MASK\<rparr>) h ?s"
    "fw_at V fw i pr c h (mb_dst b dat (put_dwords 4 (fr_union fr) (mb_src hm b) hm)) m' 0 (mcp_hist (mcp_of ?s))"
    "ucast (m' (mbw (drv_mb_addr (mcp_of ?s)) 2) AND FW_MSG_SEQ_NUMBER_MASK) = drv_mb_seq (mcp_of ?s) + 1"
    by (rule send_and_wait [of E G V fw i pr ?s F W c hm m bz fr a p b ?mx code prm dat us])
      (use E me(3) s' ok W q F in simp_all)
  have r: "mb_refused b s = None" "cdev (mhw s) = c"
    using idle' ok s by (simp_all add: mb_refused_def mb_params_ok_def fw_at_def)
  have fin: "mb_finish p a s2 = mb_answered p (b\<lparr>mcp_param := prm, mcp_resp := code AND FW_MSG_CODE_MASK\<rparr>) h s"
    unfolding c(4) by (simp add: mb_answered_def s'(1))
  have "mb_wait_free E i p ?mx us 0 ?s = (RC_OK, 0, ?s)"
    using idle'(4) by (simp add: mb_wait_free.simps mb_poll_free_def)
  then have "mcp_cmd_and_union_wait E i fr (Some p) mx us s = (RC_OK, mb_finish p a s2)"
    using c(1-3) W me(1,2) by (simp add: mcp_cmd_and_union_wait_def mcp_me_read_def s'(2) Let_def flip: mx)
  then show ?thesis using c(5,6) idle'(1) r unfolding s'(1) by (auto simp: qed_mcp_cmd_and_union_def p l fin)
qed

lemma call_answered:
  assumes E: "mfw_env (me_bus E) G V fw i pr (drv_mb_addr (mcp_of s)) F W"
    and s: "fw_at V fw i pr c (mhw s) hm m bz (mcp_hist (mcp_of s))" and idle: "mb_idle s" and fr: "mb_request fr a s"
    and p: "mb_at s p = b" and ok: "mb_params_ok b" and W: "0 < W" "W \<le> mb_attempts c b"
    and q: "ucast (m (mbw (drv_mb_addr (mcp_of s)) 2) AND FW_MSG_SEQ_NUMBER_MASK) \<noteq> drv_mb_seq (mcp_of s) + 1"
    and F: "F (mb_cmd b) (mb_param b) (mb_src hm b) = (code, prm, dat)"
  shows "\<exists>h. hmem h = mb_dst b dat (put_dwords 4 (fr_union fr) (mb_src hm b) hm) \<and>
    qed_mcp_cmd_and_union E i fr (Some p) s =
      (RC_OK, mb_answered p (b\<lparr>mcp_param := prm, mcp_resp := code AND FW_MSG_CODE_MASK\<rparr>) h s)"
  using call_answered_at [OF assms] by (auto simp: fw_at_def)

end
