(* ===== verification/Qed_Mcp_Device.thy ===== *)
theory Qed_Mcp_Device
  imports Qed_Mcp_Answer Qed_Hw_Device
begin

unbundle bit_operations_syntax

text \<open>
  A device with a firmware that has the documented behaviour: the windows of \<open>Qed_Hw_Device\<close> over a plain memory with one
  mailbox in it. The firmware computes the service \<open>F\<close>; a command takes two delays. The service of the example adds
  one to the parameter and to each dword of the data.
\<close>

record fw_chip =
  fc_mem :: "u32 \<Rightarrow> u32"
  fc_busy :: nat

record fw_dev =
  fd_win :: "nat \<Rightarrow> u32"
  fd_pret :: "nat \<Rightarrow> u32"
  fd_chip :: fw_chip

definition fd_mb :: u32 where "fd_mb = 0xe00100"

definition fd_service :: mfw_service where
  "fd_service c q d = (c OR 0x10000, q + 1, map (\<lambda>j. if j < length d then d ! j + 1 else 0) [0..<8])"

definition fd_grc_wr :: "u32 \<Rightarrow> u32 \<Rightarrow> u32 \<Rightarrow> fw_chip \<Rightarrow> fw_chip" where
  "fd_grc_wr p a v g = \<lparr>fc_mem = (fc_mem g)(a := v), fc_busy = (if a = fd_mb then 2 else fc_busy g)\<rparr>"

definition fd_grc_rd :: "u32 \<Rightarrow> u32 \<Rightarrow> fw_chip \<Rightarrow> u32 \<times> fw_chip" where
  "fd_grc_rd p a g = (if a = MISCS_REG_GENERIC_POR_0 then 6 else fc_mem g a, g)"

definition fd_delay :: "mfw_service \<Rightarrow> fw_chip \<Rightarrow> fw_chip" where
  "fd_delay F g = (if fc_busy g = 0 then g
     else \<lparr>fc_mem = (if fc_busy g = 1 then fw_answer F fd_mb (fc_mem g) else fc_mem g), fc_busy = fc_busy g - 1\<rparr>)"

definition fd_grc :: "mfw_service \<Rightarrow> fw_chip grc" where
  "fd_grc F = \<lparr>grc_wr = fd_grc_wr, grc_rd = fd_grc_rd, grc_delay = (\<lambda>us. fd_delay F)\<rparr>"

definition fd_mfw :: "fw_chip mfw" where
  "fd_mfw = \<lparr>fw_mem = fc_mem, fw_busy = fc_busy, fw_por = (\<lambda>_. 6)\<rparr>"

definition fd_view :: "(fw_dev, fw_chip) pxp_view" where
  "fd_view = \<lparr>win = fd_win, pret = fd_pret, chip = fd_chip\<rparr>"

definition fd_reg_wr :: "u32 \<Rightarrow> u32 \<Rightarrow> fw_dev \<Rightarrow> fw_dev" where
  "fd_reg_wr off v d = (let q = unat off in
     if q < 0x60 then (if q mod 8 = 0 then d\<lparr>fd_win := (fd_win d)(q div 8 := v)\<rparr>
                       else d\<lparr>fd_pret := (fd_pret d)(q div 8 := v)\<rparr>)
     else if q < 0x1000 then d
     else (let i = (q - 0x1000) div 0x1000; n = (q - 0x1000) mod 0x1000 div 4 in
       d\<lparr>fd_chip := fd_grc_wr (fd_pret d i) (win_target (fd_win d i) n) v (fd_chip d)\<rparr>))"

definition fd_reg_rd :: "u32 \<Rightarrow> fw_dev \<Rightarrow> u32 \<times> fw_dev" where
  "fd_reg_rd off d = (let q = unat off; i = (q - 0x1000) div 0x1000; n = (q - 0x1000) mod 0x1000 div 4
     in if q < 0x1000 then (0, d) else (fst (fd_grc_rd (fd_pret d i) (win_target (fd_win d i) n) (fd_chip d)), d))"

definition fd_bus :: "mfw_service \<Rightarrow> fw_dev bus" where
  "fd_bus F = \<lparr>reg_wr = fd_reg_wr, reg_rd = fd_reg_rd, bus_delay = (\<lambda>us d. d\<lparr>fd_chip := fd_delay F (fd_chip d)\<rparr>),
     dma_rd = (\<lambda>a d. 0), dma_wr = (\<lambda>a v d. d)\<rparr>"

definition fd_raw :: "fw_dev qed_hwfn" where
  "fd_raw = \<lparr>my_id = 0, rel_pf_id = 0, abs_pf_id = 0, hw_port_id = 0,
     cdev = dev_cdev, p_ptt_pool = None, dmae_info = dmae_info dev_hwfn, hmem = (\<lambda>a. ucast a), warnings = [], hw_errors = [],
     device = \<lparr>fd_win = (\<lambda>_. 0), fd_pret = (\<lambda>_. 0), fd_chip = \<lparr>fc_mem = (\<lambda>_. 0), fc_busy = 0\<rparr>\<rparr>\<rparr>"

definition fd_hwfn :: "fw_dev qed_hwfn" where
  "fd_hwfn = snd (qed_ptt_pool_alloc (Some dev_pool) fd_raw)"

text \<open>A driver that found the mailbox, with a command of code \<open>0x09000000\<close> to send.\<close>

definition fd_cmd :: qed_mcp_mb_params where
  "fd_cmd = mb_zero\<lparr>mb_cmd := 0x09000000, mb_param := 41, p_data_src := 0x100, data_src_size := 6,
     p_data_dst := 0x200, data_dst_size := 8\<rparr>"

definition fd_fn :: "fw_dev mcp_fn" where
  "fd_fn = \<lparr>mhw = fd_hwfn, mcp_info = Some (mcp_info_zero\<lparr>b_mfw_running := True, drv_mb_addr := fd_mb, mcp_hist := 6,
       drv_mb_seq := 0xffff - 1\<rparr>),
     cmd_elems = Map.empty, mb_objs = [0 \<mapsto> fd_cmd], is_cmt = False, loaded = 0, loaded_port = [0, 0]\<rparr>"

lemma fd_windows: "pxp_windows (fd_bus F) (fd_grc F) fd_view"
proof -
  have adm: "(i * 8) div 8 = i" "(i * 8 + 4) div 8 = i" "(i * 8 + 4) mod 8 = (4 :: nat)" for i :: nat by simp_all
  have "i < 12 \<Longrightarrow> fd_reg_wr (of_nat i * 8) v d = d\<lparr>fd_win := (fd_win d)(i := v)\<rparr>" for i v d
    by (simp add: fd_reg_wr_def Let_def unat_admin)
  moreover have "i < 12 \<Longrightarrow> fd_reg_wr (of_nat i * 8 + 4) v d = d\<lparr>fd_pret := (fd_pret d)(i := v)\<rparr>" for i v d
    by (simp add: fd_reg_wr_def Let_def unat_admin adm)
  moreover have "0x60 \<le> a \<Longrightarrow> a < 0x1000 \<Longrightarrow> fd_reg_wr a v d = d" for a v d
    by (simp add: fd_reg_wr_def Let_def word_le_nat_alt word_less_nat_alt)
  moreover have "i < 12 \<Longrightarrow> n < 1024 \<Longrightarrow> fd_reg_wr (win_dword i n) v d =
      d\<lparr>fd_chip := fd_grc_wr (fd_pret d i) (win_target (fd_win d i) n) v (fd_chip d)\<rparr>" for i n v d
    unfolding fd_reg_wr_def Let_def by (simp only: win_decode if_False)
  moreover have "i < 12 \<Longrightarrow> n < 1024 \<Longrightarrow> fd_reg_rd (win_dword i n) d =
      (fst (fd_grc_rd (fd_pret d i) (win_target (fd_win d i) n) (fd_chip d)), d)" for i n d
    unfolding fd_reg_rd_def Let_def by (simp add: win_decode)
  ultimately show ?thesis unfolding pxp_windows_def fd_bus_def fd_view_def fd_grc_def by (simp add: fd_grc_rd_def)
qed

lemma fd_area: "grc_area fd_mb 56"
  by (simp add: grc_area_def fd_mb_def)

lemma fd_word: "j < 14 \<Longrightarrow> mbw fd_mb j \<noteq> MISCS_REG_GENERIC_POR_0" "mbw fd_mb 0 = fd_mb"
  "j < 14 \<Longrightarrow> mbw fd_mb j = fd_mb \<longleftrightarrow> j = 0"
proof -
  show z: "mbw fd_mb 0 = fd_mb" by (simp add: mbw_def)
  show "mbw fd_mb j = fd_mb \<longleftrightarrow> j = 0" if "j < 14" using mbw_eq [OF fd_area that, of 0] z by simp
  assume "j < 14"
  then have "unat (fd_mb + of_nat (4 * j)) = unat fd_mb + 4 * j" by (intro grc_area_addr(2) [OF fd_area]) simp
  then have "0xe00100 \<le> unat (mbw fd_mb j)" by (simp add: mbw_bytes fd_mb_def)
  then show "mbw fd_mb j \<noteq> MISCS_REG_GENERIC_POR_0" by (auto simp: MISCS_REG_GENERIC_POR_0_def)
qed

lemma fd_serves: "mfw_serves (fd_grc F) fd_mfw pr fd_mb F 2"
  by (simp add: mfw_serves_def fd_grc_def fd_mfw_def fd_grc_rd_def fd_grc_wr_def fd_delay_def mfw_same_def fd_word)

lemma fd_mfw_env:
  assumes "i < 12" "\<And>c q d. length (snd (snd (F c q d))) = 8"
  shows "mfw_env (fd_bus F) (fd_grc F) fd_view fd_mfw i pr fd_mb F 2"
  using fd_windows fd_serves fd_area assms
  by (simp add: mfw_env_def fd_bus_def fd_reg_rd_def PXP_PF_ME_OPAQUE_ADDR_def)

lemma fd_service_length: "length (snd (snd (fd_service c q d))) = 8"
  by (simp add: fd_service_def)

lemmas fd_service_env = fd_mfw_env [of 5 fd_service, OF _ fd_service_length, simplified]

lemma fd_alloc: "qed_ptt_pool_alloc (Some dev_pool) fd_raw = (RC_OK, fd_hwfn)"
  by (simp add: fd_hwfn_def qed_ptt_pool_alloc_def Let_def)

lemma fd_at: "fw_at fd_view fd_mfw i 0 dev_cdev fd_hwfn (\<lambda>a. ucast a) (\<lambda>_. 0) 0 6"
proof -
  have "ptt_ok fd_view fd_hwfn" using pool_alloc_ok [OF _ fd_alloc] by (simp add: dev_pool_def)
  moreover have "cdev fd_hwfn = dev_cdev" "hmem fd_hwfn = (\<lambda>a. ucast a)" "device fd_hwfn =
     \<lparr>fd_win = (\<lambda>_. 0), fd_pret = (\<lambda>_. 0), fd_chip = \<lparr>fc_mem = (\<lambda>_. 0), fc_busy = 0\<rparr>\<rparr>"
    by (simp_all add: fd_hwfn_def fd_raw_def qed_ptt_pool_alloc_def Let_def)
  ultimately show ?thesis
    by (simp add: fw_at_def dev_cdev_def CHIP_REV_IS_SLOW_def CHIP_REV_IS_EMUL_def CHIP_REV_IS_FPGA_def fd_view_def fd_mfw_def)
qed

lemma fd_free: "ptt_free_list (pool_of fd_hwfn) = 11 # rev [4..<11]"
proof -
  have "ptt_free_list (pool_of fd_hwfn) = rev [4..<12]" using pool_alloc_ok(3) [OF _ fd_alloc] by (simp add: dev_pool_def)
  then show ?thesis by (simp add: upt_rec)
qed

text \<open>The call the example makes, and its answer.\<close>

definition fd_frame :: mb_frame where
  "fd_frame = \<lparr>fr_union = 0x1000, fr_elem = Some 7\<rparr>"

lemma fd_fields:
  "mcp_of fd_fn = mcp_info_zero\<lparr>b_mfw_running := True, drv_mb_addr := fd_mb, mcp_hist := 6, drv_mb_seq := 0xfffe\<rparr>"
  "mb_at fd_fn 0 = fd_cmd" "mhw fd_fn = fd_hwfn"
  by (simp_all add: fd_fn_def mcp_of_def mb_at_def)

lemma fd_ready:
  "mb_idle fd_fn" "mb_request fd_frame 7 fd_fn" "mb_params_ok fd_cmd" "2 \<le> mb_attempts dev_cdev fd_cmd"
proof -
  show "mb_idle fd_fn" by (simp add: mb_idle_def fd_fields mcp_info_zero_def qed_mcp_has_pending_cmd_def) (simp add: fd_fn_def)
  show "mb_request fd_frame 7 fd_fn"
    by (simp add: mb_request_def fd_frame_def fd_fields mcp_info_zero_def) (simp add: fd_fn_def)
  show "mb_params_ok fd_cmd"
    by (simp add: mb_params_ok_def fd_cmd_def mb_zero_def union_data_size_def FW_MSG_SEQ_NUMBER_MASK_def)
  show "2 \<le> mb_attempts dev_cdev fd_cmd"
    by (simp add: mb_attempts_def mb_limits_def mb_retries_def Let_def QED_DRV_MB_MAX_RETRIES_def QED_EMUL_DRV_MB_MAX_RETRIES_def
        fd_cmd_def mb_zero_def QED_MB_FLAGS_IS_SET_def)
qed

lemma fd_src: "mb_src (\<lambda>a. ucast a) fd_cmd = [0x100, 0x104, 0, 0, 0, 0, 0, 0]"
  by (simp add: mb_src_def union_words_def union_dword_def fd_cmd_def mb_zero_def upt_rec)

lemma fd_reply: "fd_service (mb_cmd fd_cmd) (mb_param fd_cmd) (mb_src (\<lambda>a. ucast a) fd_cmd) =
    (0x09010000, 42, [0x101, 0x105, 1, 1, 1, 1, 1, 1])"
  by (simp add: fd_service_def fd_src upt_rec) (simp add: fd_cmd_def mb_zero_def)

end
