(* ===== verification/Qed_Mcp_Reset.thy ===== *)
theory Qed_Mcp_Reset
  imports Qed_Mcp_Answer
begin

unbundle bit_operations_syntax

text \<open>
  What \<open>qed_mcp_reset\<close> does to a command in the mailbox. The reset uses the next sequence number without
  an element for it; if the firmware answers it, which it does when it refuses the reset, a caller that waits takes the
  answer for one to a command it cannot find, and returns without taking its element off the list. From then on
  the mailbox is occupied for good.
\<close>

lemma reset_wait_kept: "mb_kept s (mcp_reset_wait E i dly prev n s)"
proof (induction n arbitrary: s)
  case 0
  show ?case by (simp add: Let_def split_beta mb_kept_def mb_frame_simps)
next
  case (Suc n)
  let ?s = "snd (mcp_rd E i MISCS_REG_GENERIC_POR_0 (mcp_udelay E dly s))"
  have "mb_kept s ?s" by (simp add: mb_kept_def mb_frame_simps)
  then show ?case using mb_kept_trans [OF _ Suc.IH [of ?s]] by (simp add: Let_def split_beta)
qed

lemma reset_send_kept: "mb_kept s (mcp_reset_send E i s)"
  using reread_kept [of s E i] by (simp add: mcp_reset_send_def Let_def mb_kept_def mb_frame_simps)

lemma reset_kept: "mb_kept s (snd (qed_mcp_reset E i s))"
proof -
  have rd: "mb_kept s (snd (mcp_rd E i a s))" for a s by (simp add: mb_kept_def mb_frame_simps)
  have "mb_kept s (snd (mcp_rd E i b (mcp_reset_wait E i dly prev n (mcp_reset_send E i (snd (mcp_rd E i a s))))))" for a b dly prev n
    by (rule mb_kept_trans [OF mb_kept_trans [OF mb_kept_trans [OF rd reset_send_kept] reset_wait_kept] rd])
  then show ?thesis by (simp add: qed_mcp_reset_def Let_def split_beta)
qed

text \<open>The mailbox is occupied by a command that nobody waits for and no answer will complete.\<close>

definition mb_stuck :: "nat \<Rightarrow> 'd mb_sys \<Rightarrow> bool" where
  "mb_stuck a S \<longleftrightarrow> mcp_info (sys_fn S) \<noteq> None \<and> cmd_list (mcp_of (sys_fn S)) = [a]
     \<and> (\<exists>e. cmd_elems (sys_fn S) a = Some e \<and> \<not> b_is_completed e
           \<and> expected_seq_num e \<noteq> drv_mb_seq (mcp_of (sys_fn S)))
     \<and> (\<forall>p t. calls S p = Some t \<longrightarrow> mb_elem t = None)"

lemma stuck_same:
  assumes "mb_stuck a S" "mcp_info s' = mcp_info (sys_fn S)" "cmd_elems s' = cmd_elems (sys_fn S)"
    "\<And>p t. cs p = Some t \<Longrightarrow> mb_elem t = None"
  shows "mb_stuck a \<lparr>sys_fn = s', calls = cs\<rparr>"
  using assms by (auto simp: mb_stuck_def mcp_of_def)

lemma stuck_poll:
  assumes st: "mb_stuck a S" and u: "mb_poll_free E i (sys_fn S) = (r, s')"
  shows "r = RC_ERR EAGAIN \<or> r = RC_ERR EINVAL" "mcp_info s' = mcp_info (sys_fn S)" "cmd_elems s' = cmd_elems (sys_fn S)"
proof -
  let ?s = "sys_fn S"
  have p: "qed_mcp_has_pending_cmd ?s" "qed_mcp_cmd_get_elem ?s (drv_mb_seq (mcp_of ?s)) = None"
    using st by (auto simp: mb_stuck_def qed_mcp_has_pending_cmd_def qed_mcp_cmd_get_elem_def elem_at_def)
  have v: "qed_mcp_update_pending_cmd E i ?s = (r, s')" using u p(1) by (simp add: mb_poll_free_def)
  have "(r = RC_ERR EAGAIN \<or> r = RC_ERR EINVAL) \<and> mcp_info s' = mcp_info ?s \<and> cmd_elems s' = cmd_elems ?s"
    by (cases rule: update_pending_cases [of E i ?s]) (use v p(2) in auto)
  then show "r = RC_ERR EAGAIN \<or> r = RC_ERR EINVAL" "mcp_info s' = mcp_info ?s" "cmd_elems s' = cmd_elems ?s" by blast+
qed

lemma stuck_turn:
  assumes st: "mb_stuck a S" and p: "calls S p = Some t" and dn: "\<not> mb_done t"
    and u: "mb_turn E mem p t (sys_fn S) = (t', s')"
  shows "mb_elem t' = None" "mcp_info s' = mcp_info (sys_fn S)" "cmd_elems s' = cmd_elems (sys_fn S)"
proof -
  have "mb_elem t = None" using st p by (simp add: mb_stuck_def)
  then obtain cnt where pc: "t_pc t = MbFree cnt" using dn by (auto simp: mb_elem_def mb_done_def split: mb_pc.splits)
  obtain r s1 where s1: "mb_poll_free E (t_ptt t) (sys_fn S) = (r, s1)" by (cases "mb_poll_free E (t_ptt t) (sys_fn S)")
  note q = stuck_poll [OF st s1]
  show "mb_elem t' = None" "mcp_info s' = mcp_info (sys_fn S)" "cmd_elems s' = cmd_elems (sys_fn S)"
    using u pc s1 q by (auto simp: mb_turn_def Let_def mb_frame_simps split: if_splits)
qed

lemma stuck_next:
  assumes st: "mb_stuck a S" and n: "mb_next B False S es S'"
  shows "mb_stuck a S'"
  using n
proof (cases rule: mb_next.cases)
  case (mb_next_call p i ud b t s)
  note e = enter_keeps [OF mb_next_call(4)]
  show ?thesis unfolding mb_next_call(2) by (rule stuck_same [OF st e(1,2)]) (use st e(4) in \<open>auto simp: mb_stuck_def split: if_splits\<close>)
next
  case (mb_next_turn p t mem t' s)
  note w = stuck_turn [OF st mb_next_turn(3,4,6)]
  show ?thesis unfolding mb_next_turn(2) by (rule stuck_same [OF st w(2,3)]) (use st w(1) in \<open>auto simp: mb_stuck_def split: if_splits\<close>)
next
  case (mb_next_leave p t)
  show ?thesis unfolding mb_next_leave(2) by (rule stuck_same [OF st]) (use st in \<open>auto simp: mb_stuck_def split: if_splits\<close>)
next
  case (mb_next_others s)
  then show ?thesis using st by (simp add: mb_stuck_def mb_others_def)
qed simp

interpretation mbs: invariant "mb_stuck a" "mb_next B False" "mb_stuck a" for a B
  by unfold_locales (auto intro: stuck_next)

lemma reset_strands:
  assumes inv: "mb_inv S" and p: "calls S p = Some t" "t_pc t = MbResp cnt a"
    and L: "cmd_list (mcp_of (sys_fn S)) = [a]" "\<not> b_is_completed (elem_at (sys_fn S) a)"
    and rs: "qed_mcp_reset (calm B) i (sys_fn S) = (r, s1)"
    and seq: "drv_mb_seq (mcp_of s1) \<noteq> drv_mb_seq (mcp_of (sys_fn S))"
    and ans: "ucast (fst (DRV_MB_RD (calm B) (t_ptt t) fw_mb_header_off (mb_delay (calm B) p (t_usecs t) cnt s1))
      AND FW_MSG_SEQ_NUMBER_MASK) = drv_mb_seq (mcp_of s1)"
  shows "\<exists>S'. exec (mb_next B True) S [] S' \<and> mb_stuck a S' \<and> calls S' p = None \<and>
    p_mb_params (elem_at (sys_fn S') a) = p \<and> mb_objs (sys_fn S') p = None"
proof -
  let ?s = "sys_fn S"
  note ok = inv [unfolded mb_inv_def, THEN conjunct2]
  have el: "mb_elem t = Some a" using p(2) by (simp add: mb_elem_def)
  obtain e where e: "cmd_elems ?s a = Some e" "p_mb_params e = p" using mb_okD(5) [OF ok p(1) el] by blast
  have c: "\<not> b_is_completed e" using L(2) e(1) by (simp add: elem_at_def)
  note ex = mb_okD(6) [OF ok e(1) c]
  have k: "mcp_info s1 \<noteq> None" "cmd_list (mcp_of s1) = [a]" "cmd_elems s1 = cmd_elems ?s" "mb_objs s1 = mb_objs ?s"
    using reset_kept [of ?s "calm B" i] rs L(1) inv by (auto simp: mb_kept_def mb_inv_def)
  let ?S1 = "S\<lparr>sys_fn := s1\<rparr>"
  have n1: "mb_next B True S [] ?S1" by (rule mb_next_reset [OF TrueI rs])
  let ?d = "mb_delay (calm B) p (t_usecs t) cnt s1"
  have nf: "qed_mcp_cmd_get_elem ?d (drv_mb_seq (mcp_of s1)) = None"
    using ex seq e(1) k by (simp add: qed_mcp_cmd_get_elem_def elem_at_def mb_frame_simps)
  obtain s2 where u: "qed_mcp_update_pending_cmd (calm B) (t_ptt t) ?d = (RC_ERR EINVAL, s2)"
    and s2: "mcp_info s2 = mcp_info s1" "cmd_elems s2 = cmd_elems s1" "mb_objs s2 = mb_objs s1"
  proof (cases rule: update_pending_cases [of "calm B" "t_ptt t" ?d])
    case (again s')
    then show thesis using ans
      by (auto simp: qed_mcp_update_pending_cmd_def Let_def split_beta mb_frame_simps split: if_splits option.splits)
  qed (use nf that in \<open>auto simp: mb_frame_simps\<close>)
  have po: "mb_poll_resp (calm B) (t_ptt t) a ?d = (RC_ERR EINVAL, s2)"
    using u c e(1) k(3) by (simp add: mb_poll_resp_def elem_at_def mb_frame_simps)
  let ?t = "t\<lparr>t_pc := MbDone (RC_ERR EINVAL)\<rparr>"
  have tu: "mb_turn (calm B) None p t s1 = (?t, s2)" using po p(2) by (simp add: mb_turn_def Let_def)
  have ev: "mb_events (calm B) None p t s1 = []" using tu po p(2) by (simp add: mb_events_def mb_found_def Let_def)
  let ?S2 = "\<lparr>sys_fn = s2, calls = (calls S)(p \<mapsto> ?t)\<rparr>"
  have n2: "mb_next B True ?S1 [] ?S2"
    using mb_next_turn [of ?S1 p t None B ?t s2 True] p tu ev by (simp add: mb_done_def mem_fresh_def)
  let ?S3 = "\<lparr>sys_fn = s2\<lparr>mb_objs := (mb_objs s2)(p := None)\<rparr>, calls = (calls S)(p := None)\<rparr>"
  have n3: "mb_next B True ?S2 [] ?S3" using mb_next_leave [of ?S2 p ?t B True] by (simp add: mb_done_def)
  have others: "mb_elem u = None" if h: "calls S q = Some u" "q \<noteq> p" for q u
  proof (rule ccontr)
    assume "mb_elem u \<noteq> None"
    then obtain a' where a': "mb_elem u = Some a'" by blast
    then obtain e' where e': "cmd_elems ?s a' = Some e'" "p_mb_params e' = q" using mb_okD(5) [OF ok h(1)] by blast
    have "a' = a" using mb_okD(2) [OF ok] e'(1) L(1) by auto
    then show False using e e' h(2) by simp
  qed
  have "mb_stuck a ?S3"
    using k s2 e c ex seq others by (auto simp: mb_stuck_def mb_frame_simps mcp_of_def split: if_splits)
  moreover have "exec (mb_next B True) S [] ?S3"
    using exec_trans [OF exec_one [of "mb_next B True", OF n3] exec_trans [OF exec_one [of "mb_next B True", OF n2] exec_one [of "mb_next B True", OF n1]]] by simp
  ultimately show ?thesis using e k s2 by (intro exI [of _ ?S3]) (simp add: elem_at_def)
qed

section \<open>With a firmware that answers\<close>

text \<open>
  A firmware that acknowledges the command and is not reset, which is what it does when it refuses: the reset
  then waits in vain, and its acknowledgement is in the mailbox.
\<close>

lemma at_delay_any:
  assumes E: "mfw_env B G V fw i pr mb F W" and h: "fw_at V fw i pr c h hm m b po"
  obtains b' where "fw_at V fw i pr c (udelay B us h) hm (if 0 < b \<and> b' = 0 then fw_answer F mb m else m) b' po"
    "b' = 0 \<or> b' < b"
proof (cases "b = 0")
  case False
  then obtain b' where "fw_at V fw i pr c (udelay B us h) hm (if b' = 0 then fw_answer F mb m else m) b' po" "b' < b"
    using at_delay [OF E h] by auto
  then show thesis using that [of b'] False by simp
next
  case True
  note P = pxp_windowsD [OF mfw_envD(1) [OF E]]
  have ok: "ptt_ok V h" "fw_busy fw (chip V (device h)) = 0" using h True by (auto simp: fw_at_def)
  have s: "sim V h (udelay B us h) ((direct_of V h)\<lparr>d_chip := grc_delay G us (chip V (device h))\<rparr>)"
    unfolding udelay_def by (rule sim_dev [OF ok(1)]) (simp_all add: P)
  have "mfw_same fw (chip V (device h)) (grc_delay G us (chip V (device h)))"
    using mfw_envD(2) [OF E] ok(2) unfolding mfw_serves_def by presburger
  then have "fw_at V fw i pr c (udelay B us h) hm m 0 po"
    using fw_at_sim [OF h s] h True by (simp add: fw_at_def mfw_same_def)
  then show thesis using that [of 0] True by simp
qed

lemma reset_wait_at:
  assumes E: "mfw_env (me_bus E) G V fw i pr mb F W"
  shows "fw_at V fw i pr c (mhw s) hm m b po \<Longrightarrow> b \<le> Suc n \<Longrightarrow>
    \<exists>h. mcp_reset_wait E i dly po n s = s\<lparr>mhw := h\<rparr> \<and> fw_at V fw i pr c h hm (if 0 < b then fw_answer F mb m else m) 0 po"
proof (induction n arbitrary: s b m)
  case (0 s b m)
  obtain b' where h1: "fw_at V fw i pr c (udelay (me_bus E) dly (mhw s)) hm (if 0 < b \<and> b' = 0 then fw_answer F mb m else m) b' po"
    "b' = 0 \<or> b' < b" by (rule at_delay_any [OF E "0.prems"(1)])
  obtain h2 where h2: "qed_rd (me_bus E) i MISCS_REG_GENERIC_POR_0 (udelay (me_bus E) dly (mhw s)) = (po, h2)"
    "fw_at V fw i pr c h2 hm (if 0 < b \<and> b' = 0 then fw_answer F mb m else m) b' po" by (rule at_rd_por [OF E h1(1)])
  have "b' = 0" using h1(2) "0.prems"(2) by auto
  then show ?case using h2 by (intro exI [of _ h2]) (simp add: mcp_udelay_def mcp_rd_def)
next
  case (Suc n s b m)
  obtain b' where h1: "fw_at V fw i pr c (udelay (me_bus E) dly (mhw s)) hm (if 0 < b \<and> b' = 0 then fw_answer F mb m else m) b' po"
    "b' = 0 \<or> b' < b" by (rule at_delay_any [OF E Suc.prems(1)])
  obtain h2 where h2: "qed_rd (me_bus E) i MISCS_REG_GENERIC_POR_0 (udelay (me_bus E) dly (mhw s)) = (po, h2)"
    "fw_at V fw i pr c h2 hm (if 0 < b \<and> b' = 0 then fw_answer F mb m else m) b' po" by (rule at_rd_por [OF E h1(1)])
  have "b' \<le> Suc n" using h1(2) Suc.prems(2) by auto
  from Suc.IH [OF _ this, of "s\<lparr>mhw := h2\<rparr>"] h2(2)
  obtain h where "mcp_reset_wait E i dly po n (s\<lparr>mhw := h2\<rparr>) = s\<lparr>mhw := h\<rparr>"
    "fw_at V fw i pr c h hm (if 0 < b' then fw_answer F mb (if 0 < b \<and> b' = 0 then fw_answer F mb m else m)
       else (if 0 < b \<and> b' = 0 then fw_answer F mb m else m)) 0 po" by auto
  then show ?case using h1(2) h2(1)
    by (intro exI [of _ h]) (auto simp: mcp_udelay_def mcp_rd_def split: if_splits)
qed

lemma fw_answer_seq:
  assumes A: "grc_area mb 56" and F: "\<And>c q d. length (snd (snd (F c q d))) = 8"
  shows "fw_answer F mb m (mbw mb 2) AND FW_MSG_SEQ_NUMBER_MASK = m (mbw mb 0) AND FW_MSG_SEQ_NUMBER_MASK"
proof -
  obtain code prm dat where x: "F (m (mbw mb 0) AND FW_MSG_CODE_MASK) (m (mbw mb 1)) (get_dwords 4 (mbw mb 6) 8 m) = (code, prm, dat)"
    by (metis prod_cases3)
  have d: "length dat = 8" using F [of "m (mbw mb 0) AND FW_MSG_CODE_MASK" "m (mbw mb 1)" "get_dwords 4 (mbw mb 6) 8 m"] x by simp
  have "fw_answer F mb m (mbw mb 2) = (code AND FW_MSG_CODE_MASK) OR (m (mbw mb 0) AND FW_MSG_SEQ_NUMBER_MASK)"
    unfolding fw_answer_def Let_def x prod.case using union_outside [OF A _ d, of 2] mbw_eq [OF A, of 2 3] by simp
  moreover have "((x AND NOT (mask 16)) OR (y AND mask 16)) AND mask 16 = y AND mask 16" for x y :: u32
    by (rule bit_eqI) (auto simp: bit_simps)
  ultimately show ?thesis by (simp only: header_masks)
qed

lemma reset_at:
  assumes E: "mfw_env (me_bus E) G V fw i pr (drv_mb_addr (mcp_of s)) F W" and W: "W \<le> QED_MCP_RESET_RETRIES"
    and s: "fw_at V fw i pr c (mhw s) hm m bz (mcp_hist (mcp_of s))" and bl: "\<not> b_block_cmd (mcp_of s)"
  obtains h m' where "qed_mcp_reset E i s =
      (RC_ERR EAGAIN, s\<lparr>mcp_info := Some ((mcp_of s)\<lparr>drv_mb_seq := drv_mb_seq (mcp_of s) + 1\<rparr>), mhw := h\<rparr>)"
    "fw_at V fw i pr c h hm m' 0 (mcp_hist (mcp_of s))"
    "m' (mbw (drv_mb_addr (mcp_of s)) 2) AND FW_MSG_SEQ_NUMBER_MASK = ucast (drv_mb_seq (mcp_of s) + 1)"
proof -
  let ?po = "mcp_hist (mcp_of s)" and ?mb = "drv_mb_addr (mcp_of s)" and ?q = "drv_mb_seq (mcp_of s) + 1"
  let ?i = "Some ((mcp_of s)\<lparr>drv_mb_seq := ?q\<rparr>)"
  obtain h1 where h1: "qed_rd (me_bus E) i MISCS_REG_GENERIC_POR_0 (mhw s) = (?po, h1)" "fw_at V fw i pr c h1 hm m bz ?po"
    by (rule at_rd_por [OF E s])
  have k: "mcp_of (s\<lparr>mhw := x\<rparr>) = mcp_of s" for x by (simp add: mcp_of_def)
  obtain h2 where h2: "qed_mcp_reread_offsets E i (s\<lparr>mhw := h1\<rparr>) = s\<lparr>mhw := h2\<rparr>" "fw_at V fw i pr c h2 hm m bz ?po"
    using reread_at [OF E, of c "s\<lparr>mhw := h1\<rparr>" hm m bz] h1(2) by (auto simp: k)
  let ?hd = "DRV_MSG_CODE_MCP_RESET OR ucast ?q" and ?h3 = "\<lambda>v. qed_wr (me_bus E) i (mbw ?mb 0) v h2"
  obtain b3 where h3: "fw_at V fw i pr c (?h3 ?hd) hm (m(mbw ?mb 0 := ?hd)) b3 ?po" "0 < b3" "b3 \<le> W"
    using at_wr_word [OF E h2(2), of 0 ?hd] by auto
  have snd: "mcp_reset_send E i (s\<lparr>mhw := h1\<rparr>) = s\<lparr>mcp_info := ?i, mhw := ?h3 ?hd\<rparr>"
    by (simp add: mcp_reset_send_def h2(1) mcp_upd_def k DRV_MB_WR_def mcp_wr_def mbw_offs Let_def) (simp add: mcp_of_def mbw_offs)
  obtain h4 where h4: "mcp_reset_wait E i QED_MCP_RESP_ITER_US ?po QED_MCP_RESET_RETRIES (s\<lparr>mcp_info := ?i, mhw := ?h3 ?hd\<rparr>)
      = s\<lparr>mcp_info := ?i, mhw := h4\<rparr>" "fw_at V fw i pr c h4 hm (fw_answer F ?mb (m(mbw ?mb 0 := ?hd))) 0 ?po"
    using reset_wait_at [OF E, of c "s\<lparr>mcp_info := ?i, mhw := ?h3 ?hd\<rparr>" hm "m(mbw ?mb 0 := ?hd)" b3 ?po QED_MCP_RESET_RETRIES
        QED_MCP_RESP_ITER_US] h3 W by auto
  obtain h5 where h5: "qed_rd (me_bus E) i MISCS_REG_GENERIC_POR_0 h4 = (?po, h5)"
    "fw_at V fw i pr c h5 hm (fw_answer F ?mb (m(mbw ?mb 0 := ?hd))) 0 ?po" by (rule at_rd_por [OF E h4(2)])
  have c: "\<not> CHIP_REV_IS_SLOW (chip_rev (cdev (mhw s)))" using s by (simp add: fw_at_def)
  have "qed_mcp_reset E i s = (RC_ERR EAGAIN, s\<lparr>mcp_info := ?i, mhw := h5\<rparr>)"
    by (simp add: qed_mcp_reset_def c bl mcp_rd_def h1(1) snd h4(1) h5(1))
  moreover have rc: "DRV_MSG_CODE_MCP_RESET AND FW_MSG_SEQ_NUMBER_MASK = 0"
    by (simp add: DRV_MSG_CODE_MCP_RESET_def DRV_MSG_CODE_def FW_MSG_SEQ_NUMBER_MASK_def)
  moreover have "fw_answer F ?mb (m(mbw ?mb 0 := ?hd)) (mbw ?mb 2) AND FW_MSG_SEQ_NUMBER_MASK = ucast ?q"
    unfolding fw_answer_seq [OF mfw_envD(4) [OF E] mfw_envD(5) [OF E]]
    using header_parts(2) [OF rc, of ?q] by simp
  ultimately show thesis using that h5(2) by blast
qed

lemma reset_strands_fw:
  assumes E: "mfw_env B G V fw i pr (drv_mb_addr (mcp_of (sys_fn S))) F W" and W: "W \<le> QED_MCP_RESET_RETRIES"
    and s: "fw_at V fw i pr c (mhw (sys_fn S)) hm m bz (mcp_hist (mcp_of (sys_fn S)))" and bl: "\<not> b_block_cmd (mcp_of (sys_fn S))"
    and inv: "mb_inv S" and p: "calls S p = Some t" "t_pc t = MbResp cnt a" "t_ptt t = i"
    and L: "cmd_list (mcp_of (sys_fn S)) = [a]" "\<not> b_is_completed (elem_at (sys_fn S) a)"
  shows "\<exists>S'. exec (mb_next B True) S [] S' \<and> mb_stuck a S' \<and> calls S' p = None \<and>
    p_mb_params (elem_at (sys_fn S') a) = p \<and> mb_objs (sys_fn S') p = None"
proof -
  let ?s = "sys_fn S"
  have E': "mfw_env (me_bus (calm B)) G V fw i pr (drv_mb_addr (mcp_of ?s)) F W" using E by (simp add: calm_def)
  obtain h m' where r: "qed_mcp_reset (calm B) i ?s =
      (RC_ERR EAGAIN, ?s\<lparr>mcp_info := Some ((mcp_of ?s)\<lparr>drv_mb_seq := drv_mb_seq (mcp_of ?s) + 1\<rparr>), mhw := h\<rparr>)"
    "fw_at V fw i pr c h hm m' 0 (mcp_hist (mcp_of ?s))"
    "m' (mbw (drv_mb_addr (mcp_of ?s)) 2) AND FW_MSG_SEQ_NUMBER_MASK = ucast (drv_mb_seq (mcp_of ?s) + 1)"
    by (rule reset_at [OF E' W s bl])
  let ?s1 = "?s\<lparr>mcp_info := Some ((mcp_of ?s)\<lparr>drv_mb_seq := drv_mb_seq (mcp_of ?s) + 1\<rparr>), mhw := h\<rparr>"
  have q: "mcp_of ?s1 = (mcp_of ?s)\<lparr>drv_mb_seq := drv_mb_seq (mcp_of ?s) + 1\<rparr>" by (simp add: mcp_of_def)
  obtain u where u: "mb_delay (calm B) p (t_usecs t) cnt ?s1 = ?s1\<lparr>mhw := udelay B u h\<rparr>"
    using delay_at [of "calm B" p "t_usecs t" cnt ?s1] by (auto simp: calm_def)
  obtain b' where h6: "fw_at V fw i pr c (udelay B u h) hm (if 0 < (0 :: nat) \<and> b' = 0
      then fw_answer F (drv_mb_addr (mcp_of ?s)) m' else m') b' (mcp_hist (mcp_of ?s))" by (rule at_delay_any [OF E r(2)])
  obtain h7 where h7: "qed_rd B i (mbw (drv_mb_addr (mcp_of ?s)) 2) (udelay B u h) = (m' (mbw (drv_mb_addr (mcp_of ?s)) 2), h7)"
    using at_rd_word [OF E h6, of 2] by auto
  let ?d = "mb_delay (calm B) p (t_usecs t) cnt ?s1"
  have d: "mhw ?d = udelay B u h" "mcp_of ?d = mcp_of ?s1" unfolding u by (simp_all add: mcp_of_def)
  have ad: "drv_mb_addr (mcp_of ?d) + fw_mb_header_off = mbw (drv_mb_addr (mcp_of ?s)) 2" unfolding d(2) q by (simp add: mbw_offs)
  have "fst (DRV_MB_RD (calm B) (t_ptt t) fw_mb_header_off ?d) = m' (mbw (drv_mb_addr (mcp_of ?s)) 2)"
    unfolding DRV_MB_RD_def mcp_rd_def ad d(1) p(3) by (simp add: calm_def h7)
  then have a: "ucast (fst (DRV_MB_RD (calm B) (t_ptt t) fw_mb_header_off ?d) AND FW_MSG_SEQ_NUMBER_MASK) = drv_mb_seq (mcp_of ?s1)"
    unfolding q by (simp add: r(3) seq_parts)
  have "drv_mb_seq (mcp_of ?s1) \<noteq> drv_mb_seq (mcp_of ?s)" unfolding q by simp
  from reset_strands [OF inv p(1,2) L r(1) this a] show ?thesis .
qed

end
