(* ===== verification/Qed_Mcp_Trace.thy ===== *)
theory Qed_Mcp_Trace
  imports Qed_Mcp_Sim
begin

unbundle bit_operations_syntax

text \<open>
  What the traces of the mailbox with one slot look like, and with them those of the driver: whoever takes an answer takes
  the one to the command it sent last, and while that command was in the mailbox no other was sent or answered.
\<close>

text \<open>The call an event belongs to, and the events that concern the slot.\<close>

fun ev_call :: "mb_event \<Rightarrow> nat" where
  "ev_call (MbSent p q) = p"
| "ev_call (MbAnswered p h) = p"
| "ev_call (MbCollected p h) = p"
| "ev_call (MbGaveUp p) = p"

fun ev_slot :: "mb_event \<Rightarrow> bool" where
  "ev_slot (MbSent p q) = True"
| "ev_slot (MbAnswered p h) = True"
| "ev_slot (MbCollected p h) = False"
| "ev_slot (MbGaveUp p) = False"

text \<open>The command \<open>q\<close> of \<open>p\<close> is in the mailbox at the end of the trace; the answer \<open>h\<close> waits for \<open>p\<close>.\<close>

definition tr_sent :: "nat \<Rightarrow> u16 \<Rightarrow> mb_event list \<Rightarrow> bool" where
  "tr_sent p q tr \<longleftrightarrow> (\<exists>u v. tr = u @ MbSent p q # v \<and> list_all (\<lambda>x. \<not> ev_slot x \<and> ev_call x \<noteq> p) v)"

definition tr_answered :: "nat \<Rightarrow> u32 \<Rightarrow> mb_event list \<Rightarrow> bool" where
  "tr_answered p h tr \<longleftrightarrow> (\<exists>u w. tr = u @ MbAnswered p h # w \<and> tr_sent p (ucast (h AND FW_MSG_SEQ_NUMBER_MASK)) u
     \<and> list_all (\<lambda>x. ev_call x \<noteq> p) w)"

lemma tr_sent_more:
  assumes "tr_sent p q tr" "\<not> ev_slot x" "ev_call x \<noteq> p"
  shows "tr_sent p q (tr @ [x])"
proof -
  obtain u v where "tr = u @ MbSent p q # v" "list_all (\<lambda>x. \<not> ev_slot x \<and> ev_call x \<noteq> p) v"
    using assms(1) by (auto simp: tr_sent_def)
  then show ?thesis using assms(2,3) unfolding tr_sent_def by (intro exI [of _ u] exI [of _ "v @ [x]"]) simp
qed

lemma tr_answered_more:
  assumes "tr_answered p h tr" "ev_call x \<noteq> p"
  shows "tr_answered p h (tr @ [x])"
proof -
  obtain u w where "tr = u @ MbAnswered p h # w" "tr_sent p (ucast (h AND FW_MSG_SEQ_NUMBER_MASK)) u"
    "list_all (\<lambda>x. ev_call x \<noteq> p) w" using assms(1) by (auto simp: tr_answered_def)
  then show ?thesis using assms(2) unfolding tr_answered_def by (intro exI [of _ u] exI [of _ "w @ [x]"]) simp
qed

lemma tr_sent_now: "tr_sent p q (tr @ [MbSent p q])"
  unfolding tr_sent_def by (intro exI [of _ tr] exI [of _ "[]"]) simp

lemma tr_answered_now:
  "tr_sent p (ucast (h AND FW_MSG_SEQ_NUMBER_MASK)) tr \<Longrightarrow> tr_answered p h (tr @ [MbAnswered p h])"
  unfolding tr_answered_def by (intro exI [of _ tr] exI [of _ "[]"]) simp

definition mbox_hist :: "mb_event list \<Rightarrow> mbox \<Rightarrow> bool" where
  "mbox_hist tr m \<longleftrightarrow> (\<forall>p q. slot m = Some (p, q) \<longrightarrow> answers m p = None \<and> tr_sent p q tr)
     \<and> (\<forall>p h. answers m p = Some h \<longrightarrow> tr_answered p h tr)"

lemma hist_next:
  assumes "mbox_hist tr m" "mbox_next m x m'"
  shows "mbox_hist (tr @ [x]) m'"
  using assms(2)
proof (cases rule: mbox_next.cases)
  case (mbox_send p q)
  have "tr_answered r h (tr @ [x])" if "answers m r = Some h" for r h
    using assms(1) that mbox_send by (intro tr_answered_more) (auto simp: mbox_hist_def)
  then show ?thesis using mbox_send tr_sent_now by (auto simp: mbox_hist_def)
next
  case (mbox_answer p q h)
  have "tr_answered r k (tr @ [x])" if "answers m r = Some k" for r k
    using assms(1) that mbox_answer by (intro tr_answered_more) (auto simp: mbox_hist_def)
  moreover have "tr_answered p h (tr @ [x])" unfolding mbox_answer(1)
    by (rule tr_answered_now) (use assms(1) mbox_answer in \<open>simp add: mbox_hist_def\<close>)
  ultimately show ?thesis using mbox_answer(2) by (auto simp: mbox_hist_def)
next
  case (mbox_collect p h)
  then show ?thesis using assms(1) by (auto simp: mbox_hist_def intro!: tr_answered_more tr_sent_more)
next
  case (mbox_discard p h)
  then show ?thesis using assms(1) by (auto simp: mbox_hist_def intro!: tr_answered_more tr_sent_more)
next
  case (mbox_abandon p q)
  then show ?thesis using assms(1) by (auto simp: mbox_hist_def intro!: tr_answered_more tr_sent_more)
qed

lemma path_hist:
  assumes "mbox_start m0"
  shows "path mbox_next m0 tr m \<Longrightarrow> mbox_hist tr m"
proof (induction tr arbitrary: m rule: rev_induct)
  case Nil
  then show ?case using assms by (simp add: mbox_hist_def mbox_start_def)
next
  case (snoc x tr)
  then obtain m1 where "path mbox_next m0 tr m1" "mbox_next m1 x m" by (auto simp: path_append)
  then show ?case using snoc.IH hist_next by blast
qed

lemma collected_answered:
  assumes "mbox_start m0" "path mbox_next m0 (tr @ MbCollected p h # tr') m"
  shows "tr_answered p h tr"
proof -
  obtain m1 m2 where "path mbox_next m0 tr m1" "mbox_next m1 (MbCollected p h) m2" using assms(2) by (auto simp: path_append)
  then show ?thesis using path_hist [OF assms(1)] by (auto simp: mbox_next_simps mbox_hist_def)
qed

section \<open>The end of a call\<close>

text \<open>A call that returns success has taken an answer, and returns its code.\<close>

lemma events_success:
  assumes u: "mb_turn E mem p t s = (t', s')" and dn: "\<not> mb_done t" and ok: "t_pc t' = MbDone RC_OK"
  obtains es h where "mb_events E mem p t s = es @ [MbCollected p h]" "mcp_resp (mb_at s' p) = h AND FW_MSG_CODE_MASK"
proof (cases "t_pc t")
  case (MbFree cnt)
  then show thesis using u ok by (auto simp: mb_turn_def Let_def split: if_splits prod.splits option.splits)
next
  case (MbResp cnt a)
  let ?s = "mb_delay E p (t_usecs t) cnt s"
  obtain r s1 where s1: "mb_poll_resp E (t_ptt t) a ?s = (r, s1)" by (cases "mb_poll_resp E (t_ptt t) a ?s")
  have "s' = mb_finish p a s1" using u ok s1 MbResp by (auto simp: mb_turn_def Let_def split: if_splits)
  then have "mcp_resp (mb_at s' p) = mcp_resp (mb_at s1 p) AND FW_MSG_CODE_MASK" by (simp add: finish_fields mb_at_def)
  then show thesis using that u ok s1 MbResp by (simp add: mb_events_def Let_def)
next
  case (MbLate a)
  then show thesis using u ok by (auto simp: mb_turn_def)
next
  case (MbDone r)
  then show thesis using dn by (simp add: mb_done_def)
qed

text \<open>The codes a call can return once it was admitted.\<close>

lemma turn_codes:
  assumes u: "mb_turn E mem p t s = (t', s')" and dn: "\<not> mb_done t" and r: "t_pc t' = MbDone r"
  shows "r \<in> {RC_OK, RC_ERR EAGAIN, RC_ERR ENOMEM, RC_ERR EINVAL}"
proof -
  have up: "fst (qed_mcp_update_pending_cmd E i s) \<in> {RC_OK, RC_ERR EAGAIN, RC_ERR EINVAL}" for i s
    by (cases rule: update_pending_cases [of E i s]) auto
  have pf: "fst (mb_poll_free E i s) \<in> {RC_OK, RC_ERR EAGAIN, RC_ERR EINVAL}"
    and pr: "fst (mb_poll_resp E i a s) \<in> {RC_OK, RC_ERR EAGAIN, RC_ERR EINVAL}" for i a s
    using up [of i s] by (auto simp: mb_poll_free_def mb_poll_resp_def)
  show ?thesis
  proof (cases "t_pc t")
    case (MbFree cnt)
    then show ?thesis using pf [of "t_ptt t" s] u r by (auto simp: mb_turn_def Let_def split_beta split: if_splits option.splits)
  next
    case (MbResp cnt a)
    then show ?thesis using pr [of "t_ptt t" a "mb_delay E p (t_usecs t) cnt s"] u r
      by (auto simp: mb_turn_def Let_def split_beta split: if_splits)
  qed (use u dn r in \<open>auto simp: mb_turn_def mb_done_def\<close>)
qed

end
