(* ===== verification/Qed_Mcp_Tidy.thy ===== *)
theory Qed_Mcp_Tidy
  imports Qed_Mcp_Reset Qed_Mcp_Trace
begin

text \<open>
  What the list of the commands keeps even when the management processor is reset while commands are pending: its
  elements are the allocated ones, each once. A stranded element stays on the list, where \<open>qed_mcp_free\<close> finds it.
\<close>

definition mb_tidy :: "'d mcp_fn \<Rightarrow> bool" where
  "mb_tidy s \<longleftrightarrow> mcp_info s \<noteq> None \<and> distinct (cmd_list (mcp_of s)) \<and> dom (cmd_elems s) = set (cmd_list (mcp_of s))"

lemma tidy_same:
  assumes "mb_tidy s" "mcp_info s' \<noteq> None" "cmd_list (mcp_of s') = cmd_list (mcp_of s)" "dom (cmd_elems s') = dom (cmd_elems s)"
  shows "mb_tidy s'"
  using assms by (simp add: mb_tidy_def)

lemma tidy_kept: "mb_tidy s \<Longrightarrow> mb_kept s s' \<Longrightarrow> mb_tidy s'"
  by (auto simp: mb_tidy_def mb_kept_def)

lemma tidy_add:
  assumes "mb_tidy s" "mcp_info s' \<noteq> None" "cmd_list (mcp_of s') = a # cmd_list (mcp_of s)"
    "cmd_elems s' = (cmd_elems s)(a \<mapsto> e)" "cmd_elems s a = None"
  shows "mb_tidy s'"
  using assms by (auto simp: mb_tidy_def)

lemma tidy_del:
  assumes "mb_tidy s" "mcp_info s' \<noteq> None" "cmd_list (mcp_of s') = list_del a (cmd_list (mcp_of s))"
    "cmd_elems s' = (cmd_elems s)(a := None)"
  shows "mb_tidy s'"
  using assms by (auto simp: mb_tidy_def list_del_def)

lemma get_elem_on_list: "qed_mcp_cmd_get_elem s q = Some a \<Longrightarrow> a \<in> set (cmd_list (mcp_of s))"
  by (auto simp: qed_mcp_cmd_get_elem_def find_Some_iff)

lemma tidy_pending:
  assumes s: "mb_tidy s" and u: "qed_mcp_update_pending_cmd E i s = (r, s')"
  shows "mb_tidy s'" "cmd_elems s' a = None \<longleftrightarrow> cmd_elems s a = None"
proof -
  have "mcp_info s' = mcp_info s \<and> dom (cmd_elems s') = dom (cmd_elems s)"
  proof (cases rule: update_pending_cases [of E i s])
    case (got a p r v s1)
    have "a \<in> dom (cmd_elems s)" using get_elem_on_list [OF got(2)] s by (simp add: mb_tidy_def)
    then show ?thesis using got u by auto
  qed (use u in auto)
  then show "mb_tidy s'" "cmd_elems s' a = None \<longleftrightarrow> cmd_elems s a = None"
    using s by (auto simp: mb_tidy_def mcp_of_def)
qed

lemma tidy_delay [simp]: "mb_tidy (mb_delay E p u cnt s) = mb_tidy s"
  by (simp add: mb_tidy_def mb_frame_simps)

lemma tidy_poll:
  assumes "mb_tidy s"
  shows "mb_tidy (snd (mb_poll_free E i s))" "mb_tidy (snd (mb_poll_resp E i a s))"
    "cmd_elems (snd (mb_poll_free E i s)) b = None \<longleftrightarrow> cmd_elems s b = None"
  using tidy_pending [OF assms, of E i "fst (qed_mcp_update_pending_cmd E i s)" "snd (qed_mcp_update_pending_cmd E i s)"] assms
  by (simp_all add: mb_poll_free_def mb_poll_resp_def)

lemma tidy_send:
  assumes "mb_tidy s" "mem_fresh (fr_elem fr) s" "mb_send E i fr p s = (x, s')"
  shows "mb_tidy s'"
proof (cases rule: mb_send_cases [of E i fr p s])
  case (nomem s1)
  then show ?thesis using assms by (auto intro: tidy_same)
next
  case (sent a s1)
  then show ?thesis using assms by (auto intro!: tidy_add [OF assms(1)] simp: mem_fresh_def)
qed

lemma tidy_turn:
  assumes s: "mb_tidy s" and m: "mem_fresh mem s" and u: "mb_turn (calm B) mem p t s = (t', s')"
  shows "mb_tidy s'"
proof (cases "t_pc t")
  case (MbFree cnt)
  obtain r s1 where s1: "mb_poll_free (calm B) (t_ptt t) s = (r, s1)" by (cases "mb_poll_free (calm B) (t_ptt t) s")
  have t1: "mb_tidy s1" "mem_fresh mem s1"
    using tidy_poll(1) [OF s, of "calm B" "t_ptt t"] tidy_poll(3) [OF s, of "calm B" "t_ptt t"] m s1
    by (auto simp: mem_fresh_def split: option.splits)
  note sd = tidy_send [OF t1(1), of "\<lparr>fr_union = t_union t, fr_elem = mem\<rparr>" "calm B" "t_ptt t" p]
  show ?thesis using u MbFree s1 t1 sd
    by (auto simp: mb_turn_def Let_def split: if_splits prod.splits option.splits)
next
  case (MbResp cnt a)
  let ?s = "mb_delay (calm B) p (t_usecs t) cnt s"
  obtain r s1 where s1: "mb_poll_resp (calm B) (t_ptt t) a ?s = (r, s1)" by (cases "mb_poll_resp (calm B) (t_ptt t) a ?s")
  have t1: "mb_tidy s1" using tidy_poll(2) [of ?s "calm B" "t_ptt t" a] s s1 by simp
  have "mb_tidy (mb_finish p a s1)" by (rule tidy_del [OF t1 finish_fields(1,2,4)])
  then show ?thesis using u MbResp s1 t1 by (auto simp: mb_turn_def Let_def split: if_splits)
next
  case (MbLate a)
  have "s' = mcp_err_notify (calm B) (t_ptt t) QED_HW_ERR_MFW_RESP_FAIL (mb_give_up (calm B) (t_ptt t) p a s)"
    using u MbLate by (simp add: mb_turn_def)
  then show ?thesis using tidy_del [OF s give_up_fields(1,2,4)] by simp
qed (use u s in \<open>simp add: mb_turn_def\<close>)

lemma tidy_next: "mb_next B rst S es S' \<Longrightarrow> mb_tidy (sys_fn S) \<Longrightarrow> mb_tidy (sys_fn S')"
proof (induction rule: mb_next.induct)
  case (mb_next_call S p i ud b t s)
  then show ?case using enter_keeps(1,2) [OF mb_next_call(2)] by (simp add: mb_tidy_def mcp_of_def)
next
  case (mb_next_turn S p t mem t' s)
  then show ?case using tidy_turn by simp
next
  case (mb_next_leave S p t)
  then show ?case by (simp add: mb_tidy_def mcp_of_def)
next
  case (mb_next_others S s)
  then show ?case by (simp add: mb_tidy_def mb_others_def)
next
  case (mb_next_reset i S r s)
  then show ?case using tidy_kept [OF _ reset_kept [of "sys_fn S" "calm B" i]] by simp
qed

lemma tidy_start: "mb_start S \<Longrightarrow> mb_tidy (sys_fn S)"
  by (simp add: mb_start_def mb_tidy_def)

interpretation mbt: invariant mb_start "mb_next B rst" "\<lambda>S. mb_tidy (sys_fn S)" for B rst
  by unfold_locales (auto intro: tidy_start tidy_next)

text \<open>An execution without resets is one in which they are allowed.\<close>

lemma next_reset_allowed: "mb_next B False S es S' \<Longrightarrow> mb_next B True S es S'"
  by (induction rule: mb_next.induct) (auto intro: mb_next.intros)

lemma exec_reset_allowed: "exec (mb_next B False) S tr S' \<Longrightarrow> exec (mb_next B True) S tr S'"
  by (induction rule: exec.induct) (auto intro: exec.intros next_reset_allowed)

section \<open>How a call returns\<close>

lemma send_memory: "mb_send E i fr p s = (None, s') \<longleftrightarrow> fr_elem fr = None \<and> s' = snd (mb_send E i fr p s)"
  by (cases rule: mb_send_cases [of E i fr p s]) auto

lemma turn_no_memory:
  assumes u: "mb_turn E mem p t s = (t', s')" and dn: "\<not> mb_done t" and r: "t_pc t' = MbDone (RC_ERR ENOMEM)"
  shows "mem = None" "mb_elem t = None"
proof -
  have up: "fst (qed_mcp_update_pending_cmd E i s) \<noteq> RC_ERR ENOMEM" for i s
    by (cases rule: update_pending_cases [of E i s]) auto
  have po: "fst (mb_poll_free E i s) \<noteq> RC_ERR ENOMEM" "fst (mb_poll_resp E i a s) \<noteq> RC_ERR ENOMEM" for i a s
    using up [of i s] by (auto simp: mb_poll_free_def mb_poll_resp_def)
  have "mem = None \<and> mb_elem t = None"
  proof (cases "t_pc t")
    case (MbFree cnt)
    then show ?thesis using u r po(1) [of "t_ptt t" s]
      by (auto simp: mb_turn_def Let_def mb_elem_def send_memory split: if_splits prod.splits option.splits)
  next
    case (MbResp cnt a)
    then show ?thesis using u r po(2) [of "t_ptt t" a "mb_delay E p (t_usecs t) cnt s"]
      by (auto simp: mb_turn_def Let_def split: if_splits prod.splits)
  qed (use u r dn in \<open>auto simp: mb_turn_def mb_done_def\<close>)
  then show "mem = None" "mb_elem t = None" by blast+
qed

end
