(* ===== verification/Qed_Mcp_Claims.thy ===== *)
theory Qed_Mcp_Claims
  imports Qed_Mcp_Device Qed_Mcp_Tidy
begin

unbundle bit_operations_syntax

text \<open>
  The properties of the mailbox of the management firmware, with their concrete cases on the device of
  \<open>Qed_Mcp_Device\<close>.
\<close>

section \<open>Executions of the code\<close>

lemma call_exec:
  assumes inv: "mb_inv S" and p: "calls S p = None" and m: "mem_fresh (fr_elem fr) (sys_fn S)"
    and n: "mb_enter (calm B) i (fr_union fr) p ((sys_fn S)\<lparr>mb_objs := (mb_objs (sys_fn S))(p \<mapsto> b)\<rparr>) = (t0, s0)"
    and r: "(turn1 (calm B) (fr_elem fr) p ^^ k) (t0, s0) = (t, s')"
  shows "\<exists>tr. exec (mb_next B False) S tr \<lparr>sys_fn = s', calls = (calls S)(p \<mapsto> t)\<rparr>"
proof -
  let ?S = "\<lparr>sys_fn = s0, calls = (calls S)(p \<mapsto> t0)\<rparr>"
  have c: "exec (mb_next B False) S [] ?S" by (rule exec_one) (rule mb_next_call [OF p n])
  have g: "mb_good s0 ((calls S)(p \<mapsto> t0))" using mbi.exec_inv [OF c inv] by (simp add: mb_inv_good)
  have "cmd_elems s0 = cmd_elems (sys_fn S)" by (rule enter_keeps(2) [OF n])
  then have "mem_due (fr_elem fr) t0 s0" using m by (auto simp: mem_due_def mem_fresh_def split: mb_pc.split option.splits)
  note f = funpow_exec [OF g _ this r]
  have "((calls S)(p \<mapsto> t0)) p = Some t0" by simp
  from f [OF this] obtain tr where "exec (mb_next B False) ?S tr \<lparr>sys_fn = s', calls = (calls S)(p \<mapsto> t)\<rparr>" by auto
  then show ?thesis using exec_trans [OF _ c] by auto
qed

text \<open>The example: from its call to the transition before the return.\<close>

definition fd_sys :: "fw_dev mb_sys" where
  "fd_sys = \<lparr>sys_fn = fd_fn\<lparr>mb_objs := Map.empty\<rparr>, calls = Map.empty\<rparr>"

lemma fd_start: "mb_start fd_sys"
  by (simp add: mb_start_def fd_sys_def mcp_of_def fd_fn_def mcp_info_zero_def)

lemma fd_calls: "calls fd_sys 0 = None" "mem_fresh (fr_elem fd_frame) (sys_fn fd_sys)"
  "(sys_fn fd_sys)\<lparr>mb_objs := (mb_objs (sys_fn fd_sys))(0 \<mapsto> fd_cmd)\<rparr> = fd_fn"
  by (simp_all add: fd_sys_def mem_fresh_def fd_frame_def fd_fn_def)

lemma fd_answered:
  "\<exists>s'. qed_mcp_cmd_and_union (calm (fd_bus fd_service)) 5 fd_frame (Some 0) fd_fn = (RC_OK, s')"
proof -
  have q: "ucast ((0 :: u32) AND FW_MSG_SEQ_NUMBER_MASK) \<noteq> drv_mb_seq (mcp_of fd_fn) + 1" by (simp add: fd_fields)
  have e: "mfw_env (me_bus (calm (fd_bus fd_service))) (fd_grc fd_service) fd_view fd_mfw 5 0 (drv_mb_addr (mcp_of fd_fn)) fd_service 2"
    using fd_service_env by (simp add: calm_def fd_fields)
  have a: "fw_at fd_view fd_mfw 5 0 dev_cdev (mhw fd_fn) (\<lambda>a. ucast a) (\<lambda>_. 0) 0 (mcp_hist (mcp_of fd_fn))"
    using fd_at by (simp add: fd_fields)
  show ?thesis using call_answered [OF e a fd_ready(1,2) fd_fields(2) fd_ready(3) _ fd_ready(4) q fd_reply] by auto
qed

lemma fd_before:
  "\<exists>tr S t t' s'. exec (mb_next (fd_bus fd_service) False) fd_sys tr S \<and> calls S 0 = Some t \<and> \<not> mb_done t \<and> mb_elem t \<noteq> None \<and>
     mb_turn (calm (fd_bus fd_service)) None 0 t (sys_fn S) = (t', s') \<and> t_pc t' = MbDone RC_OK"
proof -
  obtain s2 where s2: "qed_mcp_cmd_and_union (calm (fd_bus fd_service)) 5 fd_frame (Some 0) fd_fn = (RC_OK, s2)" using fd_answered by blast
  obtain t0 s0 where n: "mb_enter (calm (fd_bus fd_service)) 5 (fr_union fd_frame) 0 fd_fn = (t0, s0)"
    by (cases "mb_enter (calm (fd_bus fd_service)) 5 (fr_union fd_frame) 0 fd_fn")
  obtain k t2 where k: "(turn1 (calm (fd_bus fd_service)) (fr_elem fd_frame) 0 ^^ k) (t0, s0) = (t2, s2)" "t_pc t2 = MbDone RC_OK"
    using call_runs [OF s2] unfolding n mb_runs_def by blast
  have dn: "\<not> mb_done t0"
  proof
    assume d: "mb_done t0"
    have "(turn1 (calm (fd_bus fd_service)) (fr_elem fd_frame) 0 ^^ j) (t0, s0) = (t0, s0)" for j
      by (induction j) (simp_all add: turn_done [OF d])
    then have "t_pc t0 = MbDone RC_OK" using k by simp
    moreover have "qed_mcp_is_init fd_fn" using fd_ready(1) by (simp add: mb_idle_def qed_mcp_is_init_def)
    ultimately show False using n by (auto simp: mb_enter_def Let_def split: option.splits prod.splits if_splits)
  qed
  obtain m t1 s1 where x: "(turn1 (calm (fd_bus fd_service)) (fr_elem fd_frame) 0 ^^ m) (t0, s0) = (t1, s1)" "\<not> mb_done t1"
    "mb_turn (calm (fd_bus fd_service)) (fr_elem fd_frame) 0 t1 s1 = (t2, s2)"
    using funpow_last [OF dn k(1)] k(2) by (auto simp: mb_done_def)
  have el: "mb_elem t1 \<noteq> None" "\<nexists>c. t_pc t1 = MbFree c" using x(2,3) k(2)
    by (auto simp: mb_elem_def mb_done_def mb_turn_def Let_def split: mb_pc.splits if_splits prod.splits option.splits)
  obtain tr where tr: "exec (mb_next (fd_bus fd_service) False) fd_sys tr \<lparr>sys_fn = s1, calls = (calls fd_sys)(0 \<mapsto> t1)\<rparr>"
    using call_exec [OF mbi.inv_start [OF fd_start] fd_calls(1,2) n [folded fd_calls(3)] x(1)] by blast
  have "mb_turn (calm (fd_bus fd_service)) None 0 t1 s1 = (t2, s2)" using x(3) turn_mem [OF el(2), of "calm (fd_bus fd_service)" None 0 s1 "fr_elem fd_frame"] by simp
  then show ?thesis using tr x(2) el(1) k(2)
    by (intro exI [of _ tr] exI [of _ "\<lparr>sys_fn = s1, calls = (calls fd_sys)(0 \<mapsto> t1)\<rparr>"] exI [of _ t1] exI [of _ t2] exI [of _ s2]) simp
qed

section \<open>One slot\<close>

text \<open>
  C32. The mailbox with any number of callers implements a mailbox with one slot. In every execution without a reset of the
  management processor, whatever the interleaving of the sections of the calls under \<open>cmd_lock\<close>, whatever the device and the firmware do in between, the sequence of
  commands sent, answers found, answers taken and calls given up is one that a mailbox allows that takes a command only when
  its slot is empty, hands an answer only to the owner of the command in the slot and only if its sequence number is
  that of the command, and gives out each answer once.
\<close>

theorem mailbox_one_slot:
  assumes "mb_start S0" "exec (mb_next B False) S0 tr S"
  shows "mbox_start (mb_abs S0) \<and> path mbox_next (mb_abs S0) tr (mb_abs S)"
  by (rule mbi.run_refine [OF assms])

lemma fd_after: "\<exists>tr h S. exec (mb_next (fd_bus fd_service) False) fd_sys (tr @ [MbCollected 0 h]) S"
proof -
  obtain tr S t t' s' where x: "exec (mb_next (fd_bus fd_service) False) fd_sys tr S" "calls S 0 = Some t" "\<not> mb_done t"
    "mb_turn (calm (fd_bus fd_service)) None 0 t (sys_fn S) = (t', s')" "t_pc t' = MbDone RC_OK" using fd_before by blast
  obtain es h where es: "mb_events (calm (fd_bus fd_service)) None 0 t (sys_fn S) = es @ [MbCollected 0 h]"
    by (rule events_success [OF x(4,3,5)])
  have "mem_fresh None (sys_fn S)" by (simp add: mem_fresh_def)
  note n = mb_next_turn [OF x(2,3) this x(4), of False]
  have "exec (mb_next (fd_bus fd_service) False) fd_sys ((tr @ es) @ [MbCollected 0 h]) \<lparr>sys_fn = s', calls = (calls S)(0 \<mapsto> t')\<rparr>"
    using exec_next [OF x(1) n] es by simp
  then show ?thesis by blast
qed

theorem mailbox_one_slot_witness:
  "\<exists>tr h S. exec (mb_next (fd_bus fd_service) False) fd_sys (tr @ [MbCollected 0 h]) S \<and> mb_start fd_sys \<and>
     mbox_start (mb_abs fd_sys) \<and> path mbox_next (mb_abs fd_sys) (tr @ [MbCollected 0 h]) (mb_abs S)"
  using fd_after mailbox_one_slot [OF fd_start] fd_start by blast

text \<open>
  C33. A call that returns success returns the answer to its own command. In every execution without a reset of
  the management processor, when a transition ends a call with success, the header it takes was found in the mailbox earlier, carries the sequence number of the
  command this call sent, no other command was sent or answered in between, and the response the caller gets is the code
  of that header.
\<close>

theorem mailbox_right_answer:
  assumes "mb_start S0" "exec (mb_next B False) S0 tr S" "calls S p = Some t" "\<not> mb_done t" "mem_fresh mem (sys_fn S)"
    "mb_turn (calm B) mem p t (sys_fn S) = (t', s')" "t_pc t' = MbDone RC_OK"
  shows "\<exists>es h. mb_events (calm B) mem p t (sys_fn S) = es @ [MbCollected p h] \<and> tr_answered p h (tr @ es)
    \<and> mcp_resp (mb_at s' p) = h AND FW_MSG_CODE_MASK"
proof -
  obtain es h where es: "mb_events (calm B) mem p t (sys_fn S) = es @ [MbCollected p h]"
    "mcp_resp (mb_at s' p) = h AND FW_MSG_CODE_MASK" by (rule events_success [OF assms(6,4,7)])
  let ?S = "\<lparr>sys_fn = s', calls = (calls S)(p \<mapsto> t')\<rparr>"
  have "exec (mb_next B False) S0 ((tr @ es) @ MbCollected p h # []) ?S"
    using exec_next [OF assms(2) mb_next_turn [OF assms(3-6), of False]] es(1) by simp
  then have "tr_answered p h (tr @ es)" using mbi.run_refine [OF assms(1)] collected_answered by blast
  then show ?thesis using es by blast
qed

theorem mailbox_right_answer_witness:
  "\<exists>tr S t t' s' es h. exec (mb_next (fd_bus fd_service) False) fd_sys tr S \<and> calls S 0 = Some t \<and>
     mb_turn (calm (fd_bus fd_service)) None 0 t (sys_fn S) = (t', s') \<and> t_pc t' = MbDone RC_OK \<and>
     tr_answered 0 h (tr @ es) \<and> mcp_resp (mb_at s' 0) = h AND FW_MSG_CODE_MASK"
proof -
  obtain tr S t t' s' where x: "exec (mb_next (fd_bus fd_service) False) fd_sys tr S" "calls S 0 = Some t" "\<not> mb_done t"
    "mb_turn (calm (fd_bus fd_service)) None 0 t (sys_fn S) = (t', s')" "t_pc t' = MbDone RC_OK" using fd_before by blast
  have "mem_fresh None (sys_fn S)" by (simp add: mem_fresh_def)
  from mailbox_right_answer [OF fd_start x(1-3) this x(4,5)] show ?thesis using x by blast
qed

text \<open>
  C35. The list of the commands is sound. In every execution, resets of the management processor included, its elements are the
  allocated ones, each once, and releasing the mailbox frees every element. In an execution without such a reset, also
  each element points to the parameters of a call that still runs and waits for just this element, so no pointer
  dangles; and a command that is not completed is the first of the list and has the current sequence number, so there is at most
  one.
\<close>

theorem mailbox_list_sound:
  assumes "mb_start S0" "exec (mb_next B rst) S0 tr S"
  shows "distinct (cmd_list (mcp_of (sys_fn S))) \<and> dom (cmd_elems (sys_fn S)) = set (cmd_list (mcp_of (sys_fn S))) \<and>
    mcp_info (qed_mcp_free (sys_fn S)) = None \<and> cmd_elems (qed_mcp_free (sys_fn S)) = Map.empty \<and>
    (\<not> rst \<longrightarrow> (\<forall>a e. cmd_elems (sys_fn S) a = Some e \<longrightarrow>
       p_mb_params e \<in> dom (mb_objs (sys_fn S)) \<and> (\<exists>t. calls S (p_mb_params e) = Some t \<and> mb_elem t = Some a) \<and>
       (b_is_completed e \<or> hd (cmd_list (mcp_of (sys_fn S))) = a \<and> expected_seq_num e = drv_mb_seq (mcp_of (sys_fn S)))))"
proof -
  note t = mbt.run_inv [OF assms, unfolded mb_tidy_def]
  have "p_mb_params e \<in> dom (mb_objs (sys_fn S)) \<and> (\<exists>t. calls S (p_mb_params e) = Some t \<and> mb_elem t = Some a) \<and>
       (b_is_completed e \<or> hd (cmd_list (mcp_of (sys_fn S))) = a \<and> expected_seq_num e = drv_mb_seq (mcp_of (sys_fn S)))"
    if "\<not> rst" and e: "cmd_elems (sys_fn S) a = Some e" for a e
  proof -
    have "exec (mb_next B False) S0 tr S" using assms(2) that(1) by simp
    note D = mb_okD [OF mbi.run_inv [OF assms(1) this, unfolded mb_inv_def, THEN conjunct2]]
    show ?thesis using D(3) D(4) [OF e] D(6) [OF e] by blast
  qed
  then show ?thesis using t free_all [of "sys_fn S"] by blast
qed

text \<open>A command of the example that waits for its answer, before and after a reset.\<close>

theorem mailbox_list_sound_witness:
  "\<exists>tr S a e t S'. exec (mb_next (fd_bus fd_service) False) fd_sys tr S \<and> cmd_elems (sys_fn S) a = Some e \<and>
     distinct (cmd_list (mcp_of (sys_fn S))) \<and> p_mb_params e \<in> dom (mb_objs (sys_fn S)) \<and>
     calls S (p_mb_params e) = Some t \<and> mb_elem t = Some a \<and>
     mb_next (fd_bus fd_service) True S [] S' \<and> sys_fn S' = snd (qed_mcp_reset (calm (fd_bus fd_service)) 5 (sys_fn S)) \<and>
     exec (mb_next (fd_bus fd_service) True) fd_sys tr S' \<and> a \<in> set (cmd_list (mcp_of (sys_fn S'))) \<and>
     dom (cmd_elems (sys_fn S')) = set (cmd_list (mcp_of (sys_fn S'))) \<and> cmd_elems (qed_mcp_free (sys_fn S')) = Map.empty"
proof -
  obtain tr S t where x: "exec (mb_next (fd_bus fd_service) False) fd_sys tr S" "calls S 0 = Some t" "mb_elem t \<noteq> None"
    using fd_before by blast
  obtain a where a: "mb_elem t = Some a" using x(3) by blast
  obtain e where e: "cmd_elems (sys_fn S) a = Some e"
    using mb_okD(5) [OF mbi.run_inv [OF fd_start x(1), unfolded mb_inv_def, THEN conjunct2] x(2) a] by blast
  let ?s = "snd (qed_mcp_reset (calm (fd_bus fd_service)) 5 (sys_fn S))"
  let ?S = "S\<lparr>sys_fn := ?s\<rparr>"
  have n: "mb_next (fd_bus fd_service) True S [] ?S" by (rule mb_next_reset [OF TrueI surjective_pairing])
  have r: "exec (mb_next (fd_bus fd_service) True) fd_sys tr ?S"
    using exec_next [OF exec_reset_allowed [OF x(1)] n] by simp
  have "cmd_elems ?s = cmd_elems (sys_fn S)" using reset_kept [of "sys_fn S"] by (simp add: mb_kept_def)
  then have m: "a \<in> dom (cmd_elems ?s)" using e by auto
  obtain u where "calls S (p_mb_params e) = Some u" "mb_elem u = Some a" using mailbox_list_sound [OF fd_start x(1)] e by blast
  with mailbox_list_sound [OF fd_start x(1)] mailbox_list_sound [OF fd_start r] x(1) e n r m
  show ?thesis by (intro exI [of _ tr] exI [of _ S] exI [of _ a] exI [of _ e] exI [of _ u] exI [of _ ?S]) auto
qed

text \<open>
  C36. A call that was admitted returns in good order. In every execution without a reset of the management processor, the
  transition that ends a call gives success, \<open>-EAGAIN\<close>, or, if there was no memory for its element and no command was
  sent, \<open>-ENOMEM\<close>; the code \<open>-EINVAL\<close> with which \<open>qed_mcp_update_pending_cmd\<close> reports an answer
  to an unknown command never comes out. Whatever the code, no element that points to the parameters of the
  call is left behind.
\<close>

theorem mailbox_call_returns_clean:
  assumes "mb_start S0" "exec (mb_next B False) S0 tr S" "calls S p = Some t" "\<not> mb_done t" "mem_fresh mem (sys_fn S)"
    "mb_turn (calm B) mem p t (sys_fn S) = (t', s')" "t_pc t' = MbDone r"
  shows "(r = RC_OK \<or> r = RC_ERR EAGAIN \<or> r = RC_ERR ENOMEM \<and> mem = None \<and> mb_elem t = None) \<and>
    (\<forall>a e. cmd_elems s' a = Some e \<longrightarrow> p_mb_params e \<noteq> p)"
proof -
  have "mb_good (sys_fn S) (calls S)" using mbi.run_inv [OF assms(1,2)] by (simp add: mb_inv_good)
  note g = turn_good [OF this assms(3-6)]
  have c: "r = RC_OK \<or> r = RC_ERR EAGAIN \<or> r = RC_ERR ENOMEM" using g turn_codes [OF assms(6,4,7)] assms(7) by auto
  have m: "mem = None \<and> mb_elem t = None" if "r = RC_ERR ENOMEM"
    using turn_no_memory [OF assms(6,4)] assms(7) that by simp
  have "mb_elem t' = None" using assms(7) by (simp add: mb_elem_def)
  moreover have "\<exists>u. ((calls S)(p \<mapsto> t')) (p_mb_params e) = Some u \<and> mb_elem u = Some a" if "cmd_elems s' a = Some e" for a e
    using mb_okD(4) [OF g [THEN conjunct1, unfolded mb_good_def, THEN conjunct2] that] .
  ultimately have "p_mb_params e \<noteq> p" if "cmd_elems s' a = Some e" for a e using that by fastforce
  then show ?thesis using c m by blast
qed

theorem mailbox_call_returns_clean_witness:
  "\<exists>tr S t t' s' a e. exec (mb_next (fd_bus fd_service) False) fd_sys tr S \<and> calls S 0 = Some t \<and>
     cmd_elems (sys_fn S) a = Some e \<and> p_mb_params e = 0 \<and>
     mb_turn (calm (fd_bus fd_service)) None 0 t (sys_fn S) = (t', s') \<and> t_pc t' = MbDone RC_OK \<and>
     (\<forall>a e. cmd_elems s' a = Some e \<longrightarrow> p_mb_params e \<noteq> 0)"
proof -
  obtain tr S t t' s' where x: "exec (mb_next (fd_bus fd_service) False) fd_sys tr S" "calls S 0 = Some t" "\<not> mb_done t"
    "mb_turn (calm (fd_bus fd_service)) None 0 t (sys_fn S) = (t', s')" "t_pc t' = MbDone RC_OK" "mb_elem t \<noteq> None"
    using fd_before by blast
  obtain a where a: "mb_elem t = Some a" using x(6) by blast
  obtain e where e: "cmd_elems (sys_fn S) a = Some e" "p_mb_params e = 0"
    using mb_okD(5) [OF mbi.run_inv [OF fd_start x(1), unfolded mb_inv_def, THEN conjunct2] x(2) a] by blast
  have "mem_fresh None (sys_fn S)" by (simp add: mem_fresh_def)
  from mailbox_call_returns_clean [OF fd_start x(1-3) this x(4,5)] show ?thesis using x e by blast
qed

section \<open>Single calls\<close>

text \<open>
  C37. Every call ends. Whatever states the firmware, the device and the other callers put before its transitions, and
  whatever memory it gets, after at most 500003 transitions of its own it has returned.
\<close>

lemma attempts_max: "mb_attempts c b \<le> 500000"
  by (simp add: mb_attempts_def mb_limits_def mb_retries_def Let_def QED_DRV_MB_MAX_RETRIES_def
      QED_EMUL_DRV_MB_MAX_RETRIES_def)

lemma enter_left:
  assumes "mb_enter E i ud p s = (t, s')"
  shows "mb_left t \<le> mb_attempts (cdev (mhw s)) (mb_at s p) + 3"
proof -
  have "mb_at (snd (mcp_me_read E s)) p = mb_at s p" by (simp add: mb_at_def mb_frame_simps)
  then show ?thesis using assms
    by (auto simp: mb_enter_def mb_left_def mb_attempts_def Let_def split_beta split: if_splits option.splits)
qed

theorem mcp_call_ends:
  assumes "mb_enter E i ud p s = (t, s')" "500003 \<le> length xs"
  shows "mb_done (mb_turns E p xs t)"
  by (rule turns_done) (use enter_left [OF assms(1)] attempts_max [of "cdev (mhw s)" "mb_at s p"] assms(2) in linarith)

theorem mcp_call_ends_witness:
  "mb_done (mb_turns (calm (fd_bus fd_service)) 0 (replicate 500003 (None, fd_fn)) (fst (mb_enter (calm (fd_bus fd_service)) 5 0x1000 0 fd_fn)))"
proof (cases "mb_enter (calm (fd_bus fd_service)) 5 0x1000 0 fd_fn")
  case (Pair t s')
  have "500003 \<le> length (replicate 500003 (None :: nat option, fd_fn))" by simp
  from mcp_call_ends [OF Pair this] show ?thesis unfolding Pair fst_conv .
qed

text \<open>
  C34. A command on an idle mailbox is answered. With a firmware that serves it, through the windows: the firmware gets the
  code, the parameter and up to 32 bytes from the caller's buffer, zero padded; the call succeeds; the caller gets the code
  and the parameter of the answer and, in the buffer it named, the data; the list of the commands and everything else of the
  function is as it was, but for the sequence number, which is one higher.
\<close>

theorem mcp_command_answered:
  assumes "mfw_env (me_bus E) G V fw i pr (drv_mb_addr (mcp_of s)) F W"
    "fw_at V fw i pr c (mhw s) hm m bz (mcp_hist (mcp_of s))" "mb_idle s" "mb_request fr a s"
    "mb_at s p = b" "mb_params_ok b" "0 < W" "W \<le> mb_attempts c b"
    "ucast (m (mbw (drv_mb_addr (mcp_of s)) 2) AND FW_MSG_SEQ_NUMBER_MASK) \<noteq> drv_mb_seq (mcp_of s) + 1"
    "F (mb_cmd b) (mb_param b) (mb_src hm b) = (code, prm, dat)"
  shows "\<exists>h. hmem h = mb_dst b dat (put_dwords 4 (fr_union fr) (mb_src hm b) hm) \<and>
    qed_mcp_cmd_and_union E i fr (Some p) s =
      (RC_OK, mb_answered p (b\<lparr>mcp_param := prm, mcp_resp := code AND FW_MSG_CODE_MASK\<rparr>) h s)"
  by (rule call_answered [OF assms])

theorem mcp_command_answered_witness:
  "\<exists>h. qed_mcp_cmd_and_union (calm (fd_bus fd_service)) 5 fd_frame (Some 0) fd_fn =
      (RC_OK, mb_answered 0 (fd_cmd\<lparr>mcp_param := 42, mcp_resp := 0x09010000\<rparr>) h fd_fn) \<and> hmem h 0x200 = 0x101 \<and> hmem h 0x204 = 0x105"
proof -
  have q: "ucast ((0 :: u32) AND FW_MSG_SEQ_NUMBER_MASK) \<noteq> drv_mb_seq (mcp_of fd_fn) + 1" by (simp add: fd_fields)
  have e: "mfw_env (me_bus (calm (fd_bus fd_service))) (fd_grc fd_service) fd_view fd_mfw 5 0 (drv_mb_addr (mcp_of fd_fn)) fd_service 2"
    using fd_service_env by (simp add: calm_def fd_fields)
  have a: "fw_at fd_view fd_mfw 5 0 dev_cdev (mhw fd_fn) (\<lambda>a. ucast a) (\<lambda>_. 0) 0 (mcp_hist (mcp_of fd_fn))"
    using fd_at by (simp add: fd_fields)
  from mcp_command_answered [OF e a fd_ready(1,2) fd_fields(2) fd_ready(3) _ fd_ready(4) q fd_reply]
  show ?thesis by (auto simp: FW_MSG_CODE_MASK_def mb_dst_def fd_cmd_def mb_zero_def)
qed

section \<open>A reset in between\<close>

text \<open>
  C38. A reset of the management processor while a command is pending can occupy the mailbox for good. \<open>qed_mcp_reset\<close>
  takes the next sequence number and writes its own command over the pending one without looking at the list; if
  the firmware acknowledges it and is not reset, the caller that waits finds an answer with a number no element has,
  returns \<open>-EINVAL\<close> and leaves its element on the list, pointing to parameters on a stack frame that is gone.
\<close>

theorem mcp_reset_strands_defect:
  assumes "mfw_env B G V fw i pr (drv_mb_addr (mcp_of (sys_fn S))) F W" "W \<le> QED_MCP_RESET_RETRIES"
    "fw_at V fw i pr c (mhw (sys_fn S)) hm m bz (mcp_hist (mcp_of (sys_fn S)))" "\<not> b_block_cmd (mcp_of (sys_fn S))"
    "mb_inv S" "calls S p = Some t" "t_pc t = MbResp cnt a" "t_ptt t = i"
    "cmd_list (mcp_of (sys_fn S)) = [a]" "\<not> b_is_completed (elem_at (sys_fn S) a)"
  shows "\<exists>S'. exec (mb_next B True) S [] S' \<and> calls S' p = None \<and> mb_objs (sys_fn S') p = None \<and>
    p_mb_params (elem_at (sys_fn S') a) = p \<and>
    (\<forall>tr S''. exec (mb_next B False) S' tr S'' \<longrightarrow> mb_stuck a S'')"
  using reset_strands_fw [OF assms] mbs.exec_inv by blast

definition fd_busy :: "fw_dev mb_sys" where
  "fd_busy = \<lparr>sys_fn = mb_out 0 7 fd_fn, calls = [0 \<mapsto> \<lparr>t_ptt = 5, t_union = 0x1000, t_max = 500000, t_usecs = 10,
     t_pc = MbResp 0 7\<rparr>]\<rparr>"

lemma fd_busy_inv: "mb_inv fd_busy"
  by (simp add: mb_inv_def fd_busy_def mb_out_def mcp_of_def mb_ok_def mb_elem_def) (auto simp: fd_fn_def mcp_info_zero_def)

theorem mcp_reset_strands_defect_witness:
  "\<exists>S'. exec (mb_next (fd_bus fd_service) True) fd_busy [] S' \<and> calls S' 0 = None \<and> p_mb_params (elem_at (sys_fn S') 7) = 0 \<and> mb_stuck 7 S'"
proof -
  have m: "mcp_of (sys_fn fd_busy) = (mcp_of fd_fn)\<lparr>drv_mb_seq := drv_mb_seq (mcp_of fd_fn) + 1, cmd_list := 7 # cmd_list (mcp_of fd_fn)\<rparr>"
    by (simp add: fd_busy_def out_fields)
  have e: "mfw_env (fd_bus fd_service) (fd_grc fd_service) fd_view fd_mfw 5 0 (drv_mb_addr (mcp_of (sys_fn fd_busy))) fd_service 2"
    using fd_service_env by (simp add: m fd_fields)
  have a: "fw_at fd_view fd_mfw 5 0 dev_cdev (mhw (sys_fn fd_busy)) (\<lambda>a. ucast a) (\<lambda>_. 0) 0 (mcp_hist (mcp_of (sys_fn fd_busy)))"
    using fd_at by (simp add: m fd_fields) (simp add: fd_busy_def mb_out_def fd_fn_def)
  have "\<exists>S'. exec (mb_next (fd_bus fd_service) True) fd_busy [] S' \<and> calls S' 0 = None \<and> mb_objs (sys_fn S') 0 = None \<and>
    p_mb_params (elem_at (sys_fn S') 7) = 0 \<and> (\<forall>tr S''. exec (mb_next (fd_bus fd_service) False) S' tr S'' \<longrightarrow> mb_stuck 7 S'')"
    by (rule mcp_reset_strands_defect [OF e _ a _ fd_busy_inv, of 0 "\<lparr>t_ptt = 5, t_union = 0x1000, t_max = 500000, t_usecs = 10,
        t_pc = MbResp 0 7\<rparr>" 0])
      (simp_all add: QED_MCP_RESET_RETRIES_def m fd_fields mcp_info_zero_def, simp_all add: fd_busy_def out_fields)
  then show ?thesis using exec_refl [of "mb_next (fd_bus fd_service) False"] by blast
qed

end
