(* ===== verification/Qed_Mcp_Local.thy ===== *)
theory Qed_Mcp_Local
  imports Qed_Mcp_Reset
begin

unbundle bit_operations_syntax

text \<open>
  Functions that send commands to the firmware one after the other: what such a function has on its stack, and that
  on a mailbox that is open every command of it is answered and leaves the mailbox open for the next one.
\<close>

text \<open>
  The stack frame of a function that sends commands: the addresses of its \<open>struct qed_mcp_mb_params\<close>, of the
  \<open>union drv_union_data\<close> of the calls it makes, and of what it receives; the results of \<open>kzalloc\<close> in
  its commands; how long its sleeps last.
\<close>

record cmd_frame =
  cf_mb :: nat
  cf_union :: u64
  cf_rsp :: u64
  cf_mem :: "nat \<Rightarrow> nat option"
  cf_nap :: "nat \<Rightarrow> nat"

definition cf_at :: "cmd_frame \<Rightarrow> nat \<Rightarrow> mb_frame" where
  "cf_at C k = \<lparr>fr_union = cf_union C, fr_elem = cf_mem C k\<rparr>"

definition usleep_range :: "'d mcp_env \<Rightarrow> nat \<Rightarrow> nat \<Rightarrow> nat \<Rightarrow> 'd mcp_fn \<Rightarrow> 'd mcp_fn" where
  "usleep_range E lo hi w s = mcp_udelay E (max lo (min hi w)) s"

text \<open>An open mailbox: the firmware is idle, and the answer it has in the mailbox is not yet that to the next command.\<close>

definition mb_open ::
  "('d, 'g) pxp_view \<Rightarrow> 'g mfw \<Rightarrow> nat \<Rightarrow> u32 \<Rightarrow> qed_cdev \<Rightarrow> cmd_frame \<Rightarrow> (u64 \<Rightarrow> u32) \<Rightarrow> 'd mcp_fn \<Rightarrow> bool" where
  "mb_open V fw i pr c C hm s \<longleftrightarrow> (\<exists>m. fw_at V fw i pr c (mhw s) hm m 0 (mcp_hist (mcp_of s))
       \<and> ucast (m (mbw (drv_mb_addr (mcp_of s)) 2) AND FW_MSG_SEQ_NUMBER_MASK) \<noteq> drv_mb_seq (mcp_of s) + 1)
     \<and> mb_idle s \<and> cf_union C \<noteq> 0
     \<and> (\<forall>k. \<exists>a. cf_mem C k = Some a \<and> cmd_elems s a = None \<and> a \<notin> set (cmd_list (mcp_of s)))"

text \<open>The state after a command: the sequence number is one higher.\<close>

definition mb_after :: "nat \<Rightarrow> 'd qed_hwfn \<Rightarrow> 'd mcp_fn \<Rightarrow> 'd mcp_fn" where
  "mb_after p h s = s\<lparr>mhw := h, mcp_info := Some ((mcp_of s)\<lparr>drv_mb_seq := drv_mb_seq (mcp_of s) + 1\<rparr>),
     mb_objs := (mb_objs s)(p := None)\<rparr>"

lemma mb_open_hmem: "mb_open V fw i pr c C hm s \<Longrightarrow> hmem (mhw s) = hm"
  by (auto simp: mb_open_def fw_at_def)

lemma mb_open_cdev: "mb_open V fw i pr c C hm s \<Longrightarrow> cdev (mhw s) = c"
  by (auto simp: mb_open_def fw_at_def)

lemma mb_after_fields [simp]:
  "mhw (mb_after p h s) = h" "mcp_of (mb_after p h s) = (mcp_of s)\<lparr>drv_mb_seq := drv_mb_seq (mcp_of s) + 1\<rparr>"
  "cmd_elems (mb_after p h s) = cmd_elems s" "elem_at (mb_after p h s) a = elem_at s a"
  "mcp_info (mb_after p h s) = Some ((mcp_of s)\<lparr>drv_mb_seq := drv_mb_seq (mcp_of s) + 1\<rparr>)"
  by (simp_all add: mb_after_def mcp_of_def elem_at_def)

lemma mb_open_mhw:
  assumes "mb_open V fw i pr c C hm s"
    and "\<And>m. fw_at V fw i pr c (mhw s) hm m 0 (mcp_hist (mcp_of s)) \<Longrightarrow> fw_at V fw i pr c h hm' m 0 (mcp_hist (mcp_of s))"
  shows "mb_open V fw i pr c C hm' (s\<lparr>mhw := h\<rparr>)"
  using assms by (auto simp: mb_open_def mb_idle_def qed_mcp_has_pending_cmd_def mhw_upd_keeps split: list.splits)

lemma open_hmem: "mb_open V fw i pr c C hm s \<Longrightarrow> mb_open V fw i pr c C hm' (s\<lparr>mhw := (mhw s)\<lparr>hmem := hm'\<rparr>\<rparr>)"
  by (erule mb_open_mhw) (rule at_hmem)

lemma open_delay:
  assumes E: "mfw_env (me_bus E) G V fw i pr mb F W" and s: "mb_open V fw i pr c C hm s"
  shows "mb_open V fw i pr c C hm (mcp_udelay E us s)"
  unfolding mcp_udelay_def
proof (rule mb_open_mhw [OF s])
  fix m assume "fw_at V fw i pr c (mhw s) hm m 0 (mcp_hist (mcp_of s))"
  from at_delay_any [OF E this, of us]
  show "fw_at V fw i pr c (udelay (me_bus E) us (mhw s)) hm m 0 (mcp_hist (mcp_of s))" by fastforce
qed

text \<open>A command of such a function.\<close>

lemma local_answered:
  assumes E: "mfw_env (me_bus E) G V fw i pr (drv_mb_addr (mcp_of s)) F W" and s: "mb_open V fw i pr c C hm s"
    and ok: "mb_params_ok b" and W: "0 < W" "W \<le> mb_attempts c b"
    and F: "F (mb_cmd b) (mb_param b) (mb_src hm b) = (code, prm, dat)"
  defines "hm' \<equiv> mb_dst b dat (put_dwords 4 (cf_union C) (mb_src hm b) hm)"
  obtains h where "mb_local E i (cf_at C k) p b s
      = (RC_OK, b\<lparr>mcp_param := prm, mcp_resp := code AND FW_MSG_CODE_MASK\<rparr>, mb_after p h s)"
    "mb_open V fw i pr c C hm' (mb_after p h s)"
proof -
  let ?s = "s\<lparr>mb_objs := (mb_objs s)(p \<mapsto> b)\<rparr>"
  obtain m where m: "fw_at V fw i pr c (mhw s) hm m 0 (mcp_hist (mcp_of s))"
    "ucast (m (mbw (drv_mb_addr (mcp_of s)) 2) AND FW_MSG_SEQ_NUMBER_MASK) \<noteq> drv_mb_seq (mcp_of s) + 1"
    using s by (auto simp: mb_open_def)
  have o: "mb_idle s" "cf_union C \<noteq> 0" "\<forall>k. \<exists>a. cf_mem C k = Some a \<and> cmd_elems s a = None \<and> a \<notin> set (cmd_list (mcp_of s))"
    using s by (auto simp: mb_open_def)
  obtain a where a: "cf_mem C k = Some a" "cmd_elems s a = None" "a \<notin> set (cmd_list (mcp_of s))" using o(3) by blast
  have k: "mcp_of ?s = mcp_of s" "mhw ?s = mhw s" "mb_at ?s p = b" by (simp_all add: mcp_of_def mb_at_def)
  have idle: "mb_idle ?s" using o(1)
    by (auto simp: mb_idle_def qed_mcp_has_pending_cmd_def k elem_at_def mb_at_def split: list.splits)
  have fr: "mb_request (cf_at C k) a ?s" using a o(2) by (simp add: mb_request_def cf_at_def k)
  from call_answered_at [where s = ?s, unfolded k(1,2), OF E m(1) idle fr k(3) ok W m(2) F]
  obtain h m' where h: "fw_at V fw i pr c h hm' m' 0 (mcp_hist (mcp_of s))"
    "ucast (m' (mbw (drv_mb_addr (mcp_of s)) 2) AND FW_MSG_SEQ_NUMBER_MASK) = drv_mb_seq (mcp_of s) + 1"
    "qed_mcp_cmd_and_union E i (cf_at C k) (Some p) ?s
      = (RC_OK, mb_answered p (b\<lparr>mcp_param := prm, mcp_resp := code AND FW_MSG_CODE_MASK\<rparr>) h ?s)"
    by (auto simp: hm'_def cf_at_def)
  have "mb_local E i (cf_at C k) p b s
      = (RC_OK, b\<lparr>mcp_param := prm, mcp_resp := code AND FW_MSG_CODE_MASK\<rparr>, mb_after p h s)"
    by (simp add: mb_local_def h(3) mb_answered_def mb_after_def mb_at_def mcp_of_def)
  moreover have "mb_open V fw i pr c C hm' (mb_after p h s)"
    using h(1,2) o by (auto simp: mb_open_def mb_idle_def qed_mcp_has_pending_cmd_def split: list.splits)
  ultimately show thesis by (rule that)
qed

end
