(* ===== verification/Qed_Bytes.thy ===== *)
theory Qed_Bytes
  imports Qed_Blocks
begin

unbundle bit_operations_syntax

text \<open>
  Bytes of a memory of dwords. The cells are the dwords at the multiples of four, the lowest byte comes first;
  \<open>mem_copy\<close> is \<open>memcpy\<close>, a byte at a time.
\<close>

definition lane :: "u64 \<Rightarrow> nat" where "lane a = unat a mod 4"
definition cell :: "u64 \<Rightarrow> u64" where "cell a = a - of_nat (lane a)"

definition byte_at :: "(u64 \<Rightarrow> u32) \<Rightarrow> u64 \<Rightarrow> u8" where
  "byte_at m a = ucast (drop_bit (8 * lane a) (m (cell a)))"

definition byte_put :: "u64 \<Rightarrow> u8 \<Rightarrow> (u64 \<Rightarrow> u32) \<Rightarrow> u64 \<Rightarrow> u32" where
  "byte_put a v m = m(cell a := (m (cell a) AND NOT (push_bit (8 * lane a) (mask 8))) OR push_bit (8 * lane a) (ucast v))"

primrec mem_copy :: "u64 \<Rightarrow> u64 \<Rightarrow> nat \<Rightarrow> (u64 \<Rightarrow> u32) \<Rightarrow> u64 \<Rightarrow> u32" where
  "mem_copy dst src 0 m = m"
| "mem_copy dst src (Suc n) m = (let m = mem_copy dst src n m in
     byte_put (dst + of_nat n) (byte_at m (src + of_nat n)) m)"

definition bytes :: "u64 \<Rightarrow> nat \<Rightarrow> u64 set" where
  "bytes a n = (\<lambda>k. a + of_nat k) ` {..<n}"

definition dword_byte :: "u32 list \<Rightarrow> nat \<Rightarrow> u8" where
  "dword_byte ws k = ucast (drop_bit (8 * (k mod 4)) (ws ! (k div 4)))"

section \<open>Single bytes\<close>

lemma lane_cases: "8 * lane a = 0 \<or> 8 * lane a = 8 \<or> 8 * lane a = 16 \<or> 8 * lane a = 24"
  unfolding lane_def by presburger

lemma byte_parts: "lane a = lane b \<Longrightarrow> cell a = cell b \<Longrightarrow> a = b"
  by (simp add: cell_def)

lemma byte_same: "ucast (drop_bit n ((x AND NOT (push_bit n (mask 8))) OR push_bit n (ucast v))) = v"
  if "n = 0 \<or> n = 8 \<or> n = 16 \<or> n = 24" for x :: u32 and v :: u8
  by (rule bit_eqI) (use that in \<open>auto simp: bit_simps\<close>)

lemma byte_other: "ucast (drop_bit k ((x AND NOT (push_bit n (mask 8))) OR push_bit n (ucast v))) = (ucast (drop_bit k x) :: u8)"
  if "k + 8 \<le> n \<or> n + 8 \<le> k" for x :: u32 and v :: u8
proof (rule bit_word_eqI)
  fix j assume "j < LENGTH(8)"
  then have j: "\<not> (n \<le> k + j \<and> k + j - n < 8)" using that by auto
  then have "\<not> (n \<le> k + j \<and> bit v (k + j - n))" using bit_imp_le_length [of v "k + j - n"] by auto
  with j show "bit (ucast (drop_bit k ((x AND NOT (push_bit n (mask 8))) OR push_bit n (ucast v))) :: u8) j
      = bit (ucast (drop_bit k x) :: u8) j"
    using bit_imp_le_length [of x "k + j"] by (auto simp: bit_simps)
qed

lemma byte_at_put: "byte_at (byte_put a v m) b = (if b = a then v else byte_at m b)"
proof (cases "cell b = cell a")
  case True
  have at: "byte_at (byte_put a v m) b = ucast (drop_bit (8 * lane b) ((m (cell a) AND NOT (push_bit (8 * lane a) (mask 8)))
      OR push_bit (8 * lane a) (ucast v)))"
    unfolding byte_at_def byte_put_def True fun_upd_same ..
  show ?thesis
  proof (cases "b = a")
    case False
    then have "lane b \<noteq> lane a" using True byte_parts by blast
    then have "8 * lane b + 8 \<le> 8 * lane a \<or> 8 * lane a + 8 \<le> 8 * lane b" by linarith
    note o = byte_other [OF this]
    show ?thesis unfolding at o if_not_P [OF False] by (simp only: byte_at_def True)
  next
    case b: True
    show ?thesis unfolding at if_P [OF b] unfolding b by (rule byte_same [OF lane_cases])
  qed
qed (auto simp: byte_at_def byte_put_def)

section \<open>Copies\<close>

lemma bytes_Suc: "bytes a (Suc n) = insert (a + of_nat n) (bytes a n)"
  by (simp add: bytes_def lessThan_Suc)

lemma of_nat_eq_iff_64: "k < n \<Longrightarrow> j < n \<Longrightarrow> n \<le> 2 ^ 64 \<Longrightarrow> (of_nat k :: u64) = of_nat j \<longleftrightarrow> k = j"
  by (simp add: word_unat_eq_iff unat_of_nat take_bit_eq_mod)

lemma bytes_inj: "k < n \<Longrightarrow> j < n \<Longrightarrow> n \<le> 2 ^ 64 \<Longrightarrow> a + of_nat k = a + of_nat j \<longleftrightarrow> k = j" for a :: u64
  by (simp add: of_nat_eq_iff_64)

lemma bytes_apart:
  assumes "unat a + n \<le> unat b" "unat b + k \<le> 2 ^ 64"
  shows "bytes a n \<inter> bytes b k = {}"
proof -
  have u: "unat (c + of_nat j :: u64) = unat c + j" if "unat c + j < 2 ^ 64" for c j
    using that by (simp add: unat_word_ariths unat_of_nat take_bit_eq_mod)
  have "a + of_nat i \<noteq> b + of_nat j" if "i < n" "j < k" for i j
  proof -
    have "unat (a + of_nat i) < unat b" "unat b \<le> unat (b + of_nat j)" using assms that by (simp_all add: u)
    then show ?thesis by auto
  qed
  then show ?thesis by (auto simp: bytes_def)
qed

lemma mem_copy_outside: "a \<notin> bytes dst n \<Longrightarrow> byte_at (mem_copy dst src n m) a = byte_at m a"
  by (induction n) (simp_all add: bytes_Suc byte_at_put Let_def)

lemma mem_copy_at:
  assumes "bytes dst n \<inter> bytes src n = {}" "n \<le> 2 ^ 64" "k < n"
  shows "byte_at (mem_copy dst src n m) (dst + of_nat k) = byte_at m (src + of_nat k)"
  using assms
proof (induction n)
  case (Suc n)
  have d: "bytes dst n \<inter> bytes src n = {}" "src + of_nat n \<notin> bytes dst n" using Suc.prems(1) by (auto simp: bytes_Suc)
  show ?case
  proof (cases "k = n")
    case True
    then show ?thesis using mem_copy_outside [OF d(2)] by (simp add: byte_at_put Let_def)
  next
    case False
    then have k: "k < n" "dst + of_nat k \<noteq> dst + of_nat n"
      using Suc.prems bytes_inj [of k "Suc n" n dst] by auto
    then show ?thesis using Suc.IH [OF d(1) _ k(1)] Suc.prems(2) by (simp add: byte_at_put Let_def)
  qed
qed simp

section \<open>Bytes of dwords\<close>

lemma lane_add: "lane (a + of_nat k) = (lane a + k) mod 4"
proof -
  have "unat (a + of_nat k :: u64) mod 4 = (unat a + k) mod 4"
    by (simp add: unat_word_ariths unat_of_nat take_bit_eq_mod mod_mod_cancel mod_simps)
  then show ?thesis by (simp add: lane_def mod_simps)
qed

lemma cell_add: "lane a = 0 \<Longrightarrow> cell (a + of_nat k) = a + of_nat (k div 4) * 4"
proof -
  assume "lane a = 0"
  then have "cell (a + of_nat k) + of_nat (k mod 4) = a + of_nat k" by (simp add: cell_def lane_add)
  moreover have "(of_nat k :: u64) = of_nat (k div 4) * 4 + of_nat (k mod 4)"
    by (subst div_mult_mod_eq [of k 4, symmetric], simp only: of_nat_add of_nat_mult of_nat_numeral)
  ultimately show ?thesis by (simp add: algebra_simps)
qed

lemma byte_at_get:
  assumes "lane a = 0" "k < 4 * n"
  shows "byte_at m (a + of_nat k) = dword_byte (get_dwords 4 a n m) k"
proof -
  have "k div 4 < n" using assms(2) by simp
  then show ?thesis using assms(1)
    by (simp add: byte_at_def dword_byte_def cell_add lane_add get_dwords_def)
qed

lemma byte_at_put_dwords:
  assumes "lane b = 0" "a \<notin> bytes b (4 * length vs)"
  shows "byte_at (put_dwords 4 b vs m) a = byte_at m a"
proof -
  have "cell a \<notin> block 4 b (length vs)"
  proof
    assume "cell a \<in> block 4 b (length vs)"
    then obtain j where j: "cell a = b + of_nat j * 4" "j < length vs" by (auto simp: block_def)
    have "a = b + of_nat (4 * j + lane a)" using j(1) by (simp add: cell_def algebra_simps)
    moreover have "4 * j + lane a < 4 * length vs" using j(2) by (simp add: lane_def)
    ultimately show False using assms(2) unfolding bytes_def by blast
  qed
  from put_dwords_outside [OF this] show ?thesis by (simp only: byte_at_def)
qed

end
