(* ===== verification/Qed_Mcp_Nvm.thy ===== *)
theory Qed_Mcp_Nvm
  imports Qed_Mcp_Local Qed_Bytes
begin

unbundle bit_operations_syntax

text \<open>
  Access to the non-volatile memory of the board through the mailbox: the commands \<open>qed_mcp_nvm_rd_cmd\<close>
  and \<open>qed_mcp_nvm_wr_cmd\<close>, and the functions that read and write whole buffers, in
  \<open>src/qed-8.70.12.0/src/qed_mcp.c\<close>. Buffers start at a multiple of four.
\<close>

section \<open>Constants\<close>

definition MCP_DRV_NVM_BUF_LEN :: u32 where "MCP_DRV_NVM_BUF_LEN = 32"
definition FLASH_PAGE_SIZE :: u32 where "FLASH_PAGE_SIZE = 0x1000"

definition DRV_MSG_CODE_NVM_PUT_FILE_BEGIN :: u32 where "DRV_MSG_CODE_NVM_PUT_FILE_BEGIN = DRV_MSG_CODE 0x0001"
definition DRV_MSG_CODE_NVM_PUT_FILE_DATA :: u32 where "DRV_MSG_CODE_NVM_PUT_FILE_DATA = DRV_MSG_CODE 0x0002"
definition DRV_MSG_CODE_NVM_READ_NVRAM :: u32 where "DRV_MSG_CODE_NVM_READ_NVRAM = DRV_MSG_CODE 0x0005"
definition DRV_MSG_CODE_NVM_WRITE_NVRAM :: u32 where "DRV_MSG_CODE_NVM_WRITE_NVRAM = DRV_MSG_CODE 0x0006"
definition DRV_MSG_CODE_NVM_DEL_FILE :: u32 where "DRV_MSG_CODE_NVM_DEL_FILE = DRV_MSG_CODE 0x0008"
definition DRV_MSG_CODE_PHY_RAW_READ :: u32 where "DRV_MSG_CODE_PHY_RAW_READ = DRV_MSG_CODE 0x000b"
definition DRV_MSG_CODE_PHY_RAW_WRITE :: u32 where "DRV_MSG_CODE_PHY_RAW_WRITE = DRV_MSG_CODE 0x000c"
definition DRV_MSG_CODE_PHY_CORE_READ :: u32 where "DRV_MSG_CODE_PHY_CORE_READ = DRV_MSG_CODE 0x000d"
definition DRV_MSG_CODE_PHY_CORE_WRITE :: u32 where "DRV_MSG_CODE_PHY_CORE_WRITE = DRV_MSG_CODE 0x000e"
definition DRV_MSG_CODE_EXT_PHY_FW_UPGRADE :: u32 where "DRV_MSG_CODE_EXT_PHY_FW_UPGRADE = DRV_MSG_CODE 0x002a"
definition DRV_MSG_CODE_ENCRYPT_PASSWORD :: u32 where "DRV_MSG_CODE_ENCRYPT_PASSWORD = DRV_MSG_CODE 0x0036"

definition FW_MSG_CODE_NVM_OK :: u32 where "FW_MSG_CODE_NVM_OK = DRV_MSG_CODE 0x0001"
definition FW_MSG_CODE_NVM_PUT_FILE_FINISH_OK :: u32 where "FW_MSG_CODE_NVM_PUT_FILE_FINISH_OK = DRV_MSG_CODE 0x0040"
definition FW_MSG_CODE_OK :: u32 where "FW_MSG_CODE_OK = DRV_MSG_CODE 0x0016"
definition FW_MSG_CODE_ERROR :: u32 where "FW_MSG_CODE_ERROR = DRV_MSG_CODE 0x0017"

definition DRV_MB_PARAM_NVM_OFFSET :: "u32 \<times> nat" where "DRV_MB_PARAM_NVM_OFFSET = (0x00FFFFFF, 0)"
definition DRV_MB_PARAM_NVM_LEN :: "u32 \<times> nat" where "DRV_MB_PARAM_NVM_LEN = (0xFF000000, 24)"
definition FW_MB_PARAM_NVM_PUT_FILE_REQ_OFFSET :: "u32 \<times> nat" where
  "FW_MB_PARAM_NVM_PUT_FILE_REQ_OFFSET = (0x00ffffff, 0)"
definition FW_MB_PARAM_NVM_PUT_FILE_REQ_SIZE :: "u32 \<times> nat" where
  "FW_MB_PARAM_NVM_PUT_FILE_REQ_SIZE = (0xff000000, 24)"

section \<open>State\<close>

text \<open>
  The function with what these operations change besides: \<open>nvm_info.valid\<close> of the function and \<open>mcp_nvm_resp\<close>
  of the device.
\<close>

record 'd nvm_dev =
  nv_fn :: "'d mcp_fn"
  nvm_valid :: bool
  mcp_nvm_resp :: u32

section \<open>Commands\<close>

definition nvm_flags :: "bool \<Rightarrow> u32" where
  "nvm_flags b_can_sleep = (if b_can_sleep then QED_MB_FLAG_CAN_SLEEP else 0)"

definition qed_mcp_nvm_wr_cmd ::
  "'d mcp_env \<Rightarrow> nat \<Rightarrow> cmd_frame \<Rightarrow> nat \<Rightarrow> u32 \<Rightarrow> u32 \<Rightarrow> u32 \<Rightarrow> u64 \<Rightarrow> bool \<Rightarrow> 'd nvm_dev \<Rightarrow>
     rc \<times> (u32 \<times> u32) option \<times> 'd nvm_dev" where
  "qed_mcp_nvm_wr_cmd E p_ptt C k c param i_txn_size i_buf b_can_sleep D = (let
     b = mb_zero\<lparr>mb_cmd := c, mb_param := param, p_data_src := i_buf, data_src_size := ucast i_txn_size,
           mb_flags := nvm_flags b_can_sleep\<rparr>;
     (r, b, s) = mb_local E p_ptt (cf_at C k) (cf_mb C) b (nv_fn D);
     D = D\<lparr>nv_fn := s\<rparr>
     in if r \<noteq> RC_OK then (r, None, D)
        else (RC_OK, Some (mcp_resp b, mcp_param b), D\<lparr>nvm_valid := False\<rparr>))"

text \<open>The size of the data that were read is the parameter of the answer; so many bytes are copied from \<open>raw_data\<close>.\<close>

definition qed_mcp_nvm_rd_cmd ::
  "'d mcp_env \<Rightarrow> nat \<Rightarrow> cmd_frame \<Rightarrow> nat \<Rightarrow> u32 \<Rightarrow> u32 \<Rightarrow> u64 \<Rightarrow> bool \<Rightarrow> 'd mcp_fn \<Rightarrow>
     rc \<times> (u32 \<times> u32) option \<times> 'd mcp_fn" where
  "qed_mcp_nvm_rd_cmd E p_ptt C k c param o_buf b_can_sleep s = (let
     b = mb_zero\<lparr>mb_cmd := c, mb_param := param, p_data_dst := cf_rsp C, data_dst_size := ucast MCP_DRV_NVM_BUF_LEN,
           mb_flags := nvm_flags b_can_sleep\<rparr>;
     (r, b, s) = mb_local E p_ptt (cf_at C k) (cf_mb C) b s
     in if r \<noteq> RC_OK then (r, None, s)
        else let
          o_txn_size = mcp_param b;
          s = s\<lparr>mhw := (mhw s)\<lparr>hmem := mem_copy o_buf (cf_rsp C) (unat o_txn_size) (hmem (mhw s))\<rparr>\<rparr>
        in (RC_OK, Some (mcp_resp b, o_txn_size), s))"

section \<open>Reading\<close>

text \<open>
  The loop of \<open>qed_mcp_nvm_read\<close>, with its variables as arguments; the result is the return code and \<open>resp\<close>.
  It may run forever, which is \<open>None\<close>.
\<close>

definition nvm_nap :: "'d mcp_env \<Rightarrow> cmd_frame \<Rightarrow> nat \<Rightarrow> bool \<Rightarrow> 'd mcp_fn \<Rightarrow> 'd mcp_fn" where
  "nvm_nap E C k b s = (if b then usleep_range E 1000 2000 (cf_nap C k) s else s)"

partial_function (option) nvm_read_loop ::
  "'d mcp_env \<Rightarrow> nat \<Rightarrow> cmd_frame \<Rightarrow> u32 \<Rightarrow> u64 \<Rightarrow> nat \<Rightarrow> u32 \<Rightarrow> u32 \<Rightarrow> u32 \<Rightarrow> u32 \<Rightarrow> 'd mcp_fn \<Rightarrow>
     (rc \<times> u32 \<times> 'd mcp_fn) option" where
  "nvm_read_loop E p_ptt C addr p_buf k nvm_offset resp bytes_left offset s =
     (if bytes_left = 0 then Some (RC_OK, resp, s)
      else let
        bytes_to_copy = min bytes_left MCP_DRV_NVM_BUF_LEN;
        nvm_offset = SET_MFW_FIELD nvm_offset DRV_MB_PARAM_NVM_OFFSET (addr + offset);
        nvm_offset = SET_MFW_FIELD nvm_offset DRV_MB_PARAM_NVM_LEN bytes_to_copy
      in case qed_mcp_nvm_rd_cmd E p_ptt C k DRV_MSG_CODE_NVM_READ_NVRAM nvm_offset (p_buf + ucast offset) True s of
        (r, None, s) \<Rightarrow> Some (r, FW_MSG_CODE_ERROR, s)
      | (r, Some (resp, buf_size), s) \<Rightarrow>
          if resp \<noteq> FW_MSG_CODE_NVM_OK then Some (RC_ERR EINVAL, resp, s)
          else nvm_read_loop E p_ptt C addr p_buf (Suc k) nvm_offset resp (bytes_left - buf_size) (offset + buf_size)
                 (nvm_nap E C k (bytes_left mod FLASH_PAGE_SIZE < (bytes_left - buf_size) mod FLASH_PAGE_SIZE) s))"

definition fn_ptt_acquire :: "(nat \<Rightarrow> nat list) \<Rightarrow> 'd mcp_fn \<Rightarrow> nat option \<times> 'd mcp_fn" where
  "fn_ptt_acquire rels s = (case qed_ptt_acquire rels (mhw s) of (p, h) \<Rightarrow> (p, s\<lparr>mhw := h\<rparr>))"

definition fn_ptt_release :: "nat \<Rightarrow> 'd mcp_fn \<Rightarrow> 'd mcp_fn" where
  "fn_ptt_release p_ptt s = s\<lparr>mhw := qed_ptt_release p_ptt (mhw s)\<rparr>"

definition qed_mcp_nvm_read ::
  "'d mcp_env \<Rightarrow> (nat \<Rightarrow> nat list) \<Rightarrow> cmd_frame \<Rightarrow> u32 \<Rightarrow> u64 \<Rightarrow> u32 \<Rightarrow> 'd nvm_dev \<Rightarrow> (rc \<times> 'd nvm_dev) option" where
  "qed_mcp_nvm_read E rels C addr p_buf len D = (case fn_ptt_acquire rels (nv_fn D) of
     (None, s) \<Rightarrow> Some (RC_ERR EBUSY, D\<lparr>nv_fn := s\<rparr>)
   | (Some p_ptt, s) \<Rightarrow> (case nvm_read_loop E p_ptt C addr p_buf 0 0 0 len 0 s of
       None \<Rightarrow> None
     | Some (r, resp, s) \<Rightarrow> Some (r, D\<lparr>mcp_nvm_resp := resp, nv_fn := fn_ptt_release p_ptt s\<rparr>)))"

definition qed_mcp_phy_read ::
  "'d mcp_env \<Rightarrow> (nat \<Rightarrow> nat list) \<Rightarrow> cmd_frame \<Rightarrow> u32 \<Rightarrow> u32 \<Rightarrow> u64 \<Rightarrow> 'd nvm_dev \<Rightarrow> rc \<times> u32 option \<times> 'd nvm_dev" where
  "qed_mcp_phy_read E rels C c addr p_buf D =
     (if QED_RECOV_IN_PROG (cdev (mhw (nv_fn D))) then (RC_ERR EAGAIN, None, D)
      else case fn_ptt_acquire rels (nv_fn D) of
        (None, s) \<Rightarrow> (RC_ERR EBUSY, None, D\<lparr>nv_fn := s\<rparr>)
      | (Some p_ptt, s) \<Rightarrow> (let
          (r, out, s) = qed_mcp_nvm_rd_cmd E p_ptt C 0
             (if c = DRV_MSG_CODE_PHY_CORE_READ then DRV_MSG_CODE_PHY_CORE_READ else DRV_MSG_CODE_PHY_RAW_READ)
             addr p_buf True s;
          resp = (case out of None \<Rightarrow> 0 | Some (resp, _) \<Rightarrow> resp)
          in (r, map_option snd out, D\<lparr>mcp_nvm_resp := resp, nv_fn := fn_ptt_release p_ptt s\<rparr>)))"

section \<open>Writing\<close>

definition qed_mcp_nvm_del_file ::
  "'d mcp_env \<Rightarrow> (nat \<Rightarrow> nat list) \<Rightarrow> cmd_frame \<Rightarrow> u32 \<Rightarrow> 'd nvm_dev \<Rightarrow> rc \<times> 'd nvm_dev" where
  "qed_mcp_nvm_del_file E rels C addr D = (case fn_ptt_acquire rels (nv_fn D) of
     (None, s) \<Rightarrow> (RC_ERR EBUSY, D\<lparr>nv_fn := s\<rparr>)
   | (Some p_ptt, s) \<Rightarrow> (let
       (r, out, s) = qed_mcp_cmd E p_ptt (cf_at C 0) (cf_mb C) DRV_MSG_CODE_NVM_DEL_FILE addr s;
       resp = (case out of None \<Rightarrow> 0 | Some (resp, _) \<Rightarrow> resp)
       in (r, D\<lparr>mcp_nvm_resp := resp, nv_fn := fn_ptt_release p_ptt s, nvm_valid := False\<rparr>)))"

text \<open>The commands of \<open>enum qed_nvm_cmd\<close> have the values of the messages, so the selection is a check.\<close>

definition nvm_write_cmds :: "u32 list" where
  "nvm_write_cmds = [DRV_MSG_CODE_NVM_PUT_FILE_BEGIN, DRV_MSG_CODE_NVM_PUT_FILE_DATA, DRV_MSG_CODE_NVM_WRITE_NVRAM,
     DRV_MSG_CODE_EXT_PHY_FW_UPGRADE, DRV_MSG_CODE_ENCRYPT_PASSWORD]"

partial_function (option) nvm_write_loop ::
  "'d mcp_env \<Rightarrow> nat \<Rightarrow> cmd_frame \<Rightarrow> u32 \<Rightarrow> u32 \<Rightarrow> u64 \<Rightarrow> u32 \<Rightarrow> nat \<Rightarrow> rc \<Rightarrow> u32 \<Rightarrow> u32 \<Rightarrow> u32 \<Rightarrow> 'd nvm_dev \<Rightarrow>
     (rc \<times> u32 \<times> 'd nvm_dev) option" where
  "nvm_write_loop E p_ptt C c addr p_buf len k r resp buf_idx buf_size D =
     (if \<not> buf_idx < len then Some (r, resp, D)
      else let
        nvm_offset = (if c = DRV_MSG_CODE_NVM_PUT_FILE_BEGIN then addr
                      else (push_bit 24 buf_size OR addr) + buf_idx)
      in case qed_mcp_nvm_wr_cmd E p_ptt C k c nvm_offset buf_size (p_buf + ucast buf_idx) True D of
        (r, None, D) \<Rightarrow> Some (r, FW_MSG_CODE_ERROR, D)
      | (r, Some (resp, param), D) \<Rightarrow>
          if resp \<noteq> FW_MSG_CODE_OK \<and> resp \<noteq> FW_MSG_CODE_NVM_OK \<and> resp \<noteq> FW_MSG_CODE_NVM_PUT_FILE_FINISH_OK
          then Some (RC_ERR EINVAL, resp, D)
          else let
            D = D\<lparr>nv_fn := nvm_nap E C k ((buf_idx + buf_size) mod 0x1000 < buf_idx mod 0x1000) (nv_fn D)\<rparr>;
            (buf_idx, buf_size) = (if param \<noteq> 0 \<and> c = DRV_MSG_CODE_NVM_PUT_FILE_DATA
               then (GET_MFW_FIELD param FW_MB_PARAM_NVM_PUT_FILE_REQ_OFFSET,
                     GET_MFW_FIELD param FW_MB_PARAM_NVM_PUT_FILE_REQ_SIZE)
               else (buf_idx + buf_size, min (len - (buf_idx + buf_size)) MCP_DRV_NVM_BUF_LEN))
          in nvm_write_loop E p_ptt C c addr p_buf len (Suc k) r resp buf_idx buf_size D)"

definition qed_mcp_nvm_write ::
  "'d mcp_env \<Rightarrow> (nat \<Rightarrow> nat list) \<Rightarrow> cmd_frame \<Rightarrow> u32 \<Rightarrow> u32 \<Rightarrow> u64 \<Rightarrow> u32 \<Rightarrow> 'd nvm_dev \<Rightarrow> (rc \<times> 'd nvm_dev) option" where
  "qed_mcp_nvm_write E rels C c addr p_buf len D = (case fn_ptt_acquire rels (nv_fn D) of
     (None, s) \<Rightarrow> Some (RC_ERR EBUSY, D\<lparr>nv_fn := s\<rparr>)
   | (Some p_ptt, s) \<Rightarrow>
      (if c \<notin> set nvm_write_cmds then Some (RC_ERR EINVAL, D\<lparr>nv_fn := fn_ptt_release p_ptt s\<rparr>)
       else case nvm_write_loop E p_ptt C c addr p_buf len 0 (RC_ERR EINVAL) 0 0 (min len MCP_DRV_NVM_BUF_LEN)
              (D\<lparr>nv_fn := s\<rparr>) of
         None \<Rightarrow> None
       | Some (r, resp, D) \<Rightarrow> Some (r, D\<lparr>mcp_nvm_resp := resp, nv_fn := fn_ptt_release p_ptt (nv_fn D)\<rparr>)))"

definition qed_mcp_phy_write ::
  "'d mcp_env \<Rightarrow> (nat \<Rightarrow> nat list) \<Rightarrow> cmd_frame \<Rightarrow> u32 \<Rightarrow> u32 \<Rightarrow> u64 \<Rightarrow> u32 \<Rightarrow> 'd nvm_dev \<Rightarrow> rc \<times> 'd nvm_dev" where
  "qed_mcp_phy_write E rels C c addr p_buf len D =
     (if QED_RECOV_IN_PROG (cdev (mhw (nv_fn D))) then (RC_ERR EAGAIN, D)
      else case fn_ptt_acquire rels (nv_fn D) of
        (None, s) \<Rightarrow> (RC_ERR EBUSY, D\<lparr>nv_fn := s\<rparr>)
      | (Some p_ptt, s) \<Rightarrow> (let
          (r, out, D) = qed_mcp_nvm_wr_cmd E p_ptt C 0
             (if c = DRV_MSG_CODE_PHY_CORE_WRITE then DRV_MSG_CODE_PHY_CORE_WRITE else DRV_MSG_CODE_PHY_RAW_WRITE)
             addr len p_buf True (D\<lparr>nv_fn := s\<rparr>);
          resp = (case out of None \<Rightarrow> 0 | Some (resp, _) \<Rightarrow> resp)
          in (r, D\<lparr>mcp_nvm_resp := resp, nv_fn := fn_ptt_release p_ptt (nv_fn D)\<rparr>)))"

section \<open>Writing returns\<close>

text \<open>
  Unless the firmware chooses the next part, as it does for the data of a file, the loop that writes comes to its
  end whatever the device and the firmware answer.
\<close>

lemma write_loop_returns:
  assumes "c \<noteq> DRV_MSG_CODE_NVM_PUT_FILE_DATA"
  shows "idx \<le> len \<Longrightarrow> n = min (len - idx) MCP_DRV_NVM_BUF_LEN \<Longrightarrow>
    \<exists>y. nvm_write_loop E i C c addr p_buf len k r resp idx n D = Some y"
proof (induction "unat (len - idx)" arbitrary: k r resp idx n D rule: less_induct)
  case less
  show ?case
  proof (cases "idx < len")
    case True
    have n: "unat n = min (unat len - unat idx) 32"
      using less.prems by (simp add: MCP_DRV_NVM_BUF_LEN_def min_def word_le_nat_alt unat_sub)
    have u: "unat idx < unat len" using True by (simp add: word_less_nat_alt)
    have "unat len < 2 ^ 32" using unsigned_less [where 'a = nat, of len] by simp
    then have "unat idx + unat n < 2 ^ 32" using n u by linarith
    then have add: "unat (idx + n) = unat idx + unat n" by (simp add: unat_word_ariths)
    then have le: "idx + n \<le> len" using n u by (simp add: word_le_nat_alt)
    have "unat (len - (idx + n)) < unat (len - idx)"
      using n u add unat_sub [OF le] unat_sub [OF less.prems(1)] by linarith
    note IH = less.hyps [OF this le refl]
    define q where "q = (if c = DRV_MSG_CODE_NVM_PUT_FILE_BEGIN then addr else (push_bit 24 n OR addr) + idx)"
    obtain r' out D' where w: "qed_mcp_nvm_wr_cmd E i C k c q n (p_buf + ucast idx) True D = (r', out, D')" by (metis prod_cases3)
    note step = nvm_write_loop.simps [of E i C c addr p_buf len k r resp idx n D, folded q_def, unfolded w Let_def]
    show ?thesis
    proof (cases out)
      case None
      then show ?thesis using True by (simp add: step)
    next
      case (Some x)
      obtain code prm where "x = (code, prm)" by fastforce
      then show ?thesis using True assms IH by (simp add: step Some del: split_paired_Ex)
    qed
  qed (simp add: nvm_write_loop.simps)
qed

theorem nvm_write_returns:
  assumes "c \<noteq> DRV_MSG_CODE_NVM_PUT_FILE_DATA"
  shows "\<exists>y. qed_mcp_nvm_write E rels C c addr p_buf len D = Some y"
proof -
  obtain p s where a: "fn_ptt_acquire rels (nv_fn D) = (p, s)" by fastforce
  have w: "\<exists>y. nvm_write_loop E i C c addr p_buf len 0 (RC_ERR EINVAL) 0 0 (min len MCP_DRV_NVM_BUF_LEN) (D\<lparr>nv_fn := s\<rparr>) = Some y" for i
    by (rule write_loop_returns [OF assms]) simp_all
  show ?thesis
  proof (cases p)
    case (Some i)
    obtain r resp D' where "nvm_write_loop E i C c addr p_buf len 0 (RC_ERR EINVAL) 0 0 (min len MCP_DRV_NVM_BUF_LEN) (D\<lparr>nv_fn := s\<rparr>)
      = Some (r, resp, D')" using w [of i] by fastforce
    then show ?thesis using a Some by (simp add: qed_mcp_nvm_write_def)
  qed (simp add: qed_mcp_nvm_write_def a)
qed

end
