(* ===== verification/Qed_Mcp_Nvm_Read.thy ===== *)
theory Qed_Mcp_Nvm_Read
  imports Qed_Mcp_Nvm
begin

unbundle bit_operations_syntax

text \<open>
  Reading the non-volatile memory: with a firmware that answers a read with the bytes asked for, \<open>qed_mcp_nvm_read\<close>
  returns and has the image in the caller's buffer; with one that reports no progress it never returns.
\<close>

section \<open>The parameter of a read\<close>

lemma nvm_fields: "DRV_MB_PARAM_NVM_OFFSET = (mask 24, 0)" "DRV_MB_PARAM_NVM_LEN = (push_bit 24 (mask 8), 24)"
  by (simp_all add: DRV_MB_PARAM_NVM_OFFSET_def DRV_MB_PARAM_NVM_LEN_def mask_eq_exp_minus_1 push_bit_eq_mult)

definition nvm_param :: "u32 \<Rightarrow> u32 \<Rightarrow> u32 \<Rightarrow> u32" where
  "nvm_param x a n = SET_MFW_FIELD (SET_MFW_FIELD x DRV_MB_PARAM_NVM_OFFSET a) DRV_MB_PARAM_NVM_LEN n"

lemma nvm_param_fields:
  assumes "unat a < 2 ^ 24" "unat n \<le> 32"
  shows "GET_MFW_FIELD (nvm_param x a n) DRV_MB_PARAM_NVM_OFFSET = a" "GET_MFW_FIELD (nvm_param x a n) DRV_MB_PARAM_NVM_LEN = n"
proof -
  have "GET_MFW_FIELD (nvm_param x a n) DRV_MB_PARAM_NVM_OFFSET = take_bit 24 a"
    unfolding nvm_param_def SET_MFW_FIELD_def GET_MFW_FIELD_def nvm_fields prod.case
    by (rule bit_word_eqI) (auto simp: bit_simps)
  moreover have "take_bit 24 a = a" using assms(1) by (simp add: take_bit_eq_mod word_unat_eq_iff unat_mod)
  ultimately show "GET_MFW_FIELD (nvm_param x a n) DRV_MB_PARAM_NVM_OFFSET = a" by simp
  have "GET_MFW_FIELD (nvm_param x a n) DRV_MB_PARAM_NVM_LEN = take_bit 8 n"
    unfolding nvm_param_def SET_MFW_FIELD_def GET_MFW_FIELD_def nvm_fields prod.case
    by (rule bit_word_eqI) (auto simp: bit_simps)
  moreover have "take_bit 8 n = n" using assms(2) by (simp add: take_bit_eq_mod word_unat_eq_iff unat_mod)
  ultimately show "GET_MFW_FIELD (nvm_param x a n) DRV_MB_PARAM_NVM_LEN = n" by simp
qed

section \<open>What the code relies on\<close>

text \<open>
  A read of up to 32 bytes succeeds, its parameter is the number of bytes asked for, and its data are those of the
  image from the offset on.
\<close>

definition nvm_serves :: "mfw_service \<Rightarrow> (nat \<Rightarrow> u8) \<Rightarrow> bool" where
  "nvm_serves F img \<longleftrightarrow> (\<forall>q d. let n = GET_MFW_FIELD q DRV_MB_PARAM_NVM_LEN in unat n \<le> 32 \<longrightarrow>
     (case F DRV_MSG_CODE_NVM_READ_NVRAM q d of (code, prm, dat) \<Rightarrow> code AND FW_MSG_CODE_MASK = FW_MSG_CODE_NVM_OK
        \<and> prm = n \<and> (\<forall>k < unat n. dword_byte dat k = img (unat (GET_MFW_FIELD q DRV_MB_PARAM_NVM_OFFSET) + k))))"

text \<open>The addresses: the locals are aligned, and do not overlap the buffer.\<close>

definition nvm_scratch :: "cmd_frame \<Rightarrow> u64 set" where
  "nvm_scratch C = bytes (cf_union C) 32 \<union> bytes (cf_rsp C) 32"

definition nvm_bufs :: "cmd_frame \<Rightarrow> u64 \<Rightarrow> nat \<Rightarrow> bool" where
  "nvm_bufs C p_buf n \<longleftrightarrow> lane (cf_union C) = 0 \<and> lane (cf_rsp C) = 0 \<and> cf_rsp C \<noteq> 0
     \<and> bytes p_buf n \<inter> nvm_scratch C = {}"

text \<open>What a function that sends commands keeps of the function's mailbox: all but the sequence number.\<close>

definition mb_advanced :: "nat \<Rightarrow> 'd mcp_fn \<Rightarrow> 'd mcp_fn \<Rightarrow> bool" where
  "mb_advanced n s s' \<longleftrightarrow> mcp_of s' = (mcp_of s)\<lparr>drv_mb_seq := drv_mb_seq (mcp_of s) + of_nat n\<rparr> \<and> cmd_elems s' = cmd_elems s"

lemma mb_advanced_trans: "mb_advanced n s s' \<Longrightarrow> mb_advanced k s' s'' \<Longrightarrow> mb_advanced (n + k) s s''"
  by (simp add: mb_advanced_def)

lemma mb_advanced_after: "mb_advanced (Suc 0) s (mb_after p h s)"
  by (simp add: mb_advanced_def)

lemma mb_advanced_mhw: "mb_advanced n s s' \<Longrightarrow> mb_advanced n s (s'\<lparr>mhw := h\<rparr>)"
  by (simp add: mb_advanced_def mcp_of_def)

section \<open>One read\<close>

lemma bytes_sub: "n \<le> N \<Longrightarrow> bytes a n \<subseteq> bytes a N"
  by (auto simp: bytes_def)

lemma bytes_shift: "j + n \<le> N \<Longrightarrow> bytes (a + of_nat j) n \<subseteq> bytes a N"
proof
  fix x assume "j + n \<le> N" "x \<in> bytes (a + of_nat j) n"
  then obtain k where "x = a + of_nat (j + k)" "j + k < N" by (auto simp: bytes_def add.assoc)
  then show "x \<in> bytes a N" unfolding bytes_def by blast
qed

lemma rd_params:
  fixes q :: u32 and d :: u64
  defines "b \<equiv> mb_zero\<lparr>mb_cmd := DRV_MSG_CODE_NVM_READ_NVRAM, mb_param := q, p_data_dst := d,
    data_dst_size := ucast MCP_DRV_NVM_BUF_LEN, mb_flags := nvm_flags True\<rparr>"
  assumes "\<not> CHIP_REV_IS_SLOW (chip_rev c)" "W \<le> 599"
  shows "mb_params_ok b" "W \<le> mb_attempts c b"
  using assms(3) unfolding b_def
  by (simp_all add: mb_params_ok_def mb_zero_def union_data_size_def MCP_DRV_NVM_BUF_LEN_def DRV_MSG_CODE_NVM_READ_NVRAM_def
      DRV_MSG_CODE_def FW_MSG_SEQ_NUMBER_MASK_def mb_attempts_def mb_limits_def mb_retries_def nvm_flags_def
      QED_MB_FLAGS_IS_SET_def QED_MB_FLAG_CAN_SLEEP_def assms(2) QED_DRV_MB_MAX_RETRIES_def push_bit_eq_mult)

lemma union_words_none: "union_words hm src 0 = replicate 8 0"
  by (intro nth_equalityI) (simp_all add: union_words_def union_dword_def)

lemma open_not_slow: "mb_open V fw i pr c C hm s \<Longrightarrow> \<not> CHIP_REV_IS_SLOW (chip_rev c)"
  by (auto simp: mb_open_def fw_at_def)

lemma rd_cmd_at:
  fixes p_buf :: u64
  assumes E: "mfw_env (me_bus E) G V fw i pr (drv_mb_addr (mcp_of s)) F W" and s: "mb_open V fw i pr c C hm s"
    and F: "F DRV_MSG_CODE_NVM_READ_NVRAM q (replicate 8 0) = (code, n, dat)" and W: "0 < W" "W \<le> 599"
    and C: "cf_rsp C \<noteq> 0"
  defines "hm' \<equiv> mem_copy p_buf (cf_rsp C) (unat n) (put_dwords 4 (cf_rsp C) dat (put_dwords 4 (cf_union C) (replicate 8 0) hm))"
  obtains s' where "qed_mcp_nvm_rd_cmd E i C k DRV_MSG_CODE_NVM_READ_NVRAM q p_buf True s
      = (RC_OK, Some (code AND FW_MSG_CODE_MASK, n), s')"
    "mb_open V fw i pr c C hm' s'" "mb_advanced (Suc 0) s s'"
proof -
  define b where "b = mb_zero\<lparr>mb_cmd := DRV_MSG_CODE_NVM_READ_NVRAM, mb_param := q, p_data_dst := cf_rsp C,
    data_dst_size := ucast MCP_DRV_NVM_BUF_LEN, mb_flags := nvm_flags True\<rparr>"
  note p = rd_params [OF open_not_slow [OF s] W(2), where q = q and d = "cf_rsp C", folded b_def]
  have z: "mb_src hm b = replicate 8 0"
    by (simp add: mb_src_def b_def mb_zero_def union_words_none)
  have F': "F (mb_cmd b) (mb_param b) (mb_src hm b) = (code, n, dat)" unfolding z by (simp add: b_def F)
  have "length dat = 8" using mfw_envD(5) [OF E, of DRV_MSG_CODE_NVM_READ_NVRAM q "replicate 8 0"] by (simp add: F)
  then have d: "mb_dst b dat m = put_dwords 4 (cf_rsp C) dat m" for m
    using C by (simp add: mb_dst_def b_def MCP_DRV_NVM_BUF_LEN_def)
  obtain h where h: "mb_local E i (cf_at C k) (cf_mb C) b s
      = (RC_OK, b\<lparr>mcp_param := n, mcp_resp := code AND FW_MSG_CODE_MASK\<rparr>, mb_after (cf_mb C) h s)"
    "mb_open V fw i pr c C (put_dwords 4 (cf_rsp C) dat (put_dwords 4 (cf_union C) (replicate 8 0) hm)) (mb_after (cf_mb C) h s)"
    using local_answered [OF E s p(1) W(1) p(2) F', of k "cf_mb C"] unfolding d z by metis
  let ?s = "(mb_after (cf_mb C) h s)\<lparr>mhw := h\<lparr>hmem := hm'\<rparr>\<rparr>"
  have hm: "hmem h = put_dwords 4 (cf_rsp C) dat (put_dwords 4 (cf_union C) (replicate 8 0) hm)"
    using mb_open_hmem [OF h(2)] by simp
  have "qed_mcp_nvm_rd_cmd E i C k DRV_MSG_CODE_NVM_READ_NVRAM q p_buf True s
      = (RC_OK, Some (code AND FW_MSG_CODE_MASK, n), ?s)"
    unfolding qed_mcp_nvm_rd_cmd_def b_def [symmetric] by (simp add: Let_def h(1) hm hm'_def)
  moreover have "mb_open V fw i pr c C hm' ?s" using open_hmem [OF h(2), of hm'] by simp
  ultimately show thesis using that mb_advanced_mhw [OF mb_advanced_after] by blast
qed

text \<open>The bytes after a read.\<close>

lemma rd_bytes:
  fixes hm :: "u64 \<Rightarrow> u32"
  assumes al: "lane (cf_union C) = 0" "lane (cf_rsp C) = 0" and n: "unat n \<le> 32" "length dat = 8"
    and dj: "bytes p_buf (unat n) \<inter> nvm_scratch C = {}"
  defines "hm' \<equiv> mem_copy p_buf (cf_rsp C) (unat n) (put_dwords 4 (cf_rsp C) dat (put_dwords 4 (cf_union C) (replicate 8 0) hm))"
  shows "k < unat n \<Longrightarrow> byte_at hm' (p_buf + of_nat k) = dword_byte dat k"
    "a \<notin> bytes p_buf (unat n) \<Longrightarrow> a \<notin> nvm_scratch C \<Longrightarrow> byte_at hm' a = byte_at hm a"
proof -
  let ?m = "put_dwords 4 (cf_union C) (replicate 8 0) hm"
  have sub: "bytes (cf_rsp C) (unat n) \<subseteq> bytes (cf_rsp C) 32" using n(1) by (rule bytes_sub)
  have dj': "bytes p_buf (unat n) \<inter> bytes (cf_rsp C) (unat n) = {}" using dj sub by (auto simp: nvm_scratch_def)
  show "byte_at hm' (p_buf + of_nat k) = dword_byte dat k" if "k < unat n"
  proof -
    have "byte_at hm' (p_buf + of_nat k) = byte_at (put_dwords 4 (cf_rsp C) dat ?m) (cf_rsp C + of_nat k)"
      unfolding hm'_def by (rule mem_copy_at [OF dj' _ that]) (use n(1) in simp)
    also have "\<dots> = dword_byte (get_dwords 4 (cf_rsp C) 8 (put_dwords 4 (cf_rsp C) dat ?m)) k"
      by (rule byte_at_get [OF al(2)]) (use that n(1) in simp)
    also have "get_dwords 4 (cf_rsp C) 8 (put_dwords 4 (cf_rsp C) dat ?m) = dat"
      using get_put_4 [of dat "cf_rsp C" ?m] n(2) by simp
    finally show ?thesis .
  qed
  show "byte_at hm' a = byte_at hm a" if "a \<notin> bytes p_buf (unat n)" "a \<notin> nvm_scratch C"
  proof -
    have o: "a \<notin> bytes (cf_rsp C) (4 * length dat)" "a \<notin> bytes (cf_union C) (4 * length (replicate 8 (0 :: u32)))"
      using that(2) n(2) by (simp_all add: nvm_scratch_def)
    show ?thesis
      unfolding hm'_def mem_copy_outside [OF that(1)] byte_at_put_dwords [OF al(2) o(1)] byte_at_put_dwords [OF al(1) o(2)] ..
  qed
qed

section \<open>The loop\<close>

lemma nvm_nap_open:
  assumes "mfw_env (me_bus E) G V fw i pr mb F W" "mb_open V fw i pr c C hm s"
  shows "mb_open V fw i pr c C hm (nvm_nap E C k b s)" "mb_advanced 0 s (nvm_nap E C k b s)"
proof -
  show "mb_open V fw i pr c C hm (nvm_nap E C k b s)"
    using open_delay [OF assms] assms(2) by (simp add: nvm_nap_def usleep_range_def)
  show "mb_advanced 0 s (nvm_nap E C k b s)"
    by (simp add: nvm_nap_def usleep_range_def mcp_udelay_def mb_advanced_def mcp_of_def)
qed

text \<open>What a read of the rest has done.\<close>

definition nvm_read_to ::
  "cmd_frame \<Rightarrow> (nat \<Rightarrow> u8) \<Rightarrow> nat \<Rightarrow> u64 \<Rightarrow> nat \<Rightarrow> nat \<Rightarrow> (u64 \<Rightarrow> u32) \<Rightarrow> (u64 \<Rightarrow> u32) \<Rightarrow> bool" where
  "nvm_read_to C img addr p_buf j n hm hm' \<longleftrightarrow>
     (\<forall>k < n. byte_at hm' (p_buf + of_nat (j + k)) = img (addr + j + k))
   \<and> (\<forall>a. a \<notin> bytes (p_buf + of_nat j) n \<longrightarrow> a \<notin> nvm_scratch C \<longrightarrow> byte_at hm' a = byte_at hm a)"

lemma nvm_read_toD:
  assumes "nvm_read_to C img addr p_buf j n hm hm'"
  shows "k < n \<Longrightarrow> byte_at hm' (p_buf + of_nat (j + k)) = img (addr + j + k)"
    "a \<notin> bytes (p_buf + of_nat j) n \<Longrightarrow> a \<notin> nvm_scratch C \<Longrightarrow> byte_at hm' a = byte_at hm a"
  using assms unfolding nvm_read_to_def by blast+

lemma bytes_later:
  assumes "k < n" "j + n + n' \<le> 2 ^ 64"
  shows "p_buf + of_nat (j + k) \<notin> bytes (p_buf + of_nat (j + n)) n'"
proof
  assume "p_buf + of_nat (j + k) \<in> bytes (p_buf + of_nat (j + n)) n'"
  then obtain y where y: "p_buf + of_nat (j + k) = p_buf + of_nat (j + n) + of_nat y" "y < n'" unfolding bytes_def by blast
  then have "p_buf + of_nat (j + k) = p_buf + of_nat (j + n + y)" by (simp only: of_nat_add add.assoc)
  moreover have "j + k < j + n + n'" "j + n + y < j + n + n'" using assms(1) y(2) by linarith+
  ultimately have "j + k = j + n + y" using bytes_inj [OF _ _ assms(2)] by blast
  then show False using assms(1) by linarith
qed

lemma nvm_read_to_trans:
  assumes "nvm_read_to C img addr p_buf j n hm hm1" "nvm_read_to C img addr p_buf (j + n) n' hm1 hm2"
    and dj: "bytes p_buf (j + n + n') \<inter> nvm_scratch C = {}" and le: "j + n + n' \<le> 2 ^ 64"
  shows "nvm_read_to C img addr p_buf j (n + n') hm hm2"
proof -
  note d1 = nvm_read_toD [OF assms(1)] and d2 = nvm_read_toD [OF assms(2)]
  have "byte_at hm2 (p_buf + of_nat (j + k)) = img (addr + j + k)" if k: "k < n + n'" for k
  proof (cases "k < n")
    case True
    have "j + k < j + n + n'" using k by linarith
    then have "p_buf + of_nat (j + k) \<in> bytes p_buf (j + n + n')" unfolding bytes_def by blast
    then have "p_buf + of_nat (j + k) \<notin> nvm_scratch C" using dj by blast
    from d2(2) [OF bytes_later [OF True le] this] show ?thesis unfolding d1(1) [OF True] .
  next
    case False
    then have y: "n + (k - n) = k" "k - n < n'" using k by linarith+
    from d2(1) [OF y(2)] show ?thesis unfolding add.assoc y(1) .
  qed
  moreover have "byte_at hm2 a = byte_at hm a" if a: "a \<notin> bytes (p_buf + of_nat j) (n + n')" "a \<notin> nvm_scratch C" for a
  proof -
    have "a \<notin> bytes (p_buf + of_nat j) n" using a(1) bytes_sub [of n "n + n'" "p_buf + of_nat j"] by auto
    moreover have "a \<notin> bytes (p_buf + of_nat (j + n)) n'"
      using a(1) bytes_shift [of n n' "n + n'" "p_buf + of_nat j"] unfolding of_nat_add add.assoc [symmetric] by auto
    ultimately show ?thesis using d1(2) d2(2) a(2) by metis
  qed
  ultimately show ?thesis unfolding nvm_read_to_def by blast
qed

lemma read_chunk:
  assumes E: "mfw_env (me_bus E) G V fw i pr (drv_mb_addr (mcp_of s)) F W" and s: "mb_open V fw i pr c C hm s"
    and F: "nvm_serves F img" and W: "0 < W" "W \<le> 599" and C: "nvm_bufs C p_buf N"
    and n: "unat n \<le> 32" "unat off + unat n \<le> N" and a: "unat addr + unat off < 2 ^ 24"
  obtains s' hm' where "qed_mcp_nvm_rd_cmd E i C k DRV_MSG_CODE_NVM_READ_NVRAM (nvm_param x (addr + off) n)
      (p_buf + ucast off) True s = (RC_OK, Some (FW_MSG_CODE_NVM_OK, n), s')"
    "mb_open V fw i pr c C hm' s'" "mb_advanced (Suc 0) s s'" "nvm_read_to C img (unat addr) p_buf (unat off) (unat n) hm hm'"
proof -
  let ?q = "nvm_param x (addr + off) n" and ?p = "p_buf + of_nat (unat off)"
  obtain code prm dat where f: "F DRV_MSG_CODE_NVM_READ_NVRAM ?q (replicate 8 0) = (code, prm, dat)" by (metis prod_cases3)
  have ad: "unat (addr + off) = unat addr + unat off" using a by (simp add: unat_word_ariths)
  have q: "GET_MFW_FIELD ?q DRV_MB_PARAM_NVM_OFFSET = addr + off" "GET_MFW_FIELD ?q DRV_MB_PARAM_NVM_LEN = n"
    using nvm_param_fields [OF _ n(1), of "addr + off" x] a by (simp_all only: ad)
  have "code AND FW_MSG_CODE_MASK = FW_MSG_CODE_NVM_OK \<and> prm = n \<and> (\<forall>j < unat n. dword_byte dat j = img (unat (addr + off) + j))"
    using F [unfolded nvm_serves_def Let_def, THEN spec, THEN spec, of ?q "replicate 8 0"] n(1) unfolding q f prod.case by blast
  then have f': "code AND FW_MSG_CODE_MASK = FW_MSG_CODE_NVM_OK" "prm = n"
    "\<And>j. j < unat n \<Longrightarrow> dword_byte dat j = img (unat addr + unat off + j)" unfolding ad by blast+
  have dat: "length dat = 8" using mfw_envD(5) [OF E, of DRV_MSG_CODE_NVM_READ_NVRAM ?q "replicate 8 0"] by (simp add: f)
  have C': "lane (cf_union C) = 0" "lane (cf_rsp C) = 0" "cf_rsp C \<noteq> 0" "bytes ?p (unat n) \<inter> nvm_scratch C = {}"
    using C bytes_shift [OF n(2), of p_buf] unfolding nvm_bufs_def by blast+
  have u: "(ucast off :: u64) = of_nat (unat off)" by simp
  note b = rd_bytes [OF C'(1,2) n(1) dat C'(4), where hm = hm]
  show thesis
  proof (rule rd_cmd_at [OF E s f W C'(3), of k ?p])
    fix s' assume h: "qed_mcp_nvm_rd_cmd E i C k DRV_MSG_CODE_NVM_READ_NVRAM ?q ?p True s
        = (RC_OK, Some (code AND FW_MSG_CODE_MASK, prm), s')"
      "mb_open V fw i pr c C (mem_copy ?p (cf_rsp C) (unat prm) (put_dwords 4 (cf_rsp C) dat (put_dwords 4 (cf_union C) (replicate 8 0) hm))) s'"
      "mb_advanced (Suc 0) s s'"
    show thesis
    proof (rule that [OF _ h(2,3)])
      show "qed_mcp_nvm_rd_cmd E i C k DRV_MSG_CODE_NVM_READ_NVRAM ?q (p_buf + ucast off) True s
          = (RC_OK, Some (FW_MSG_CODE_NVM_OK, n), s')" using h(1) by (simp only: u f'(1,2))
      show "nvm_read_to C img (unat addr) p_buf (unat off) (unat n) hm
         (mem_copy ?p (cf_rsp C) (unat prm) (put_dwords 4 (cf_rsp C) dat (put_dwords 4 (cf_union C) (replicate 8 0) hm)))"
        unfolding nvm_read_to_def f'(2) of_nat_add add.assoc [symmetric]
        by (intro conjI allI impI, simp only: b(1) f'(3), rule b(2))
    qed
  qed
qed

lemma chunks_Suc: "0 < l \<Longrightarrow> Suc 0 + (l - min l 32 + 31) div 32 = (l + 31) div 32" for l :: nat
proof (cases "l \<le> 32")
  case True
  assume "0 < l"
  then show ?thesis using True by (simp add: div_nat_eqI)
next
  case False
  then obtain m where "l = 32 + m" using le_Suc_ex [of 32 l] by auto
  then show ?thesis by simp
qed

lemma read_loop_at:
  assumes E: "mfw_env (me_bus E) G V fw i pr mb F W" and F: "nvm_serves F img" and W: "0 < W" "W \<le> 599"
    and C: "nvm_bufs C p_buf N" and A: "unat addr + N \<le> 2 ^ 24"
  shows "mb_open V fw i pr c C hm s \<Longrightarrow> drv_mb_addr (mcp_of s) = mb \<Longrightarrow> unat off + unat left = N \<Longrightarrow>
    \<exists>s' hm'. nvm_read_loop E i C addr p_buf k x resp left off s
        = Some (RC_OK, if left = 0 then resp else FW_MSG_CODE_NVM_OK, s')
      \<and> mb_open V fw i pr c C hm' s' \<and> mb_advanced ((unat left + 31) div 32) s s'
      \<and> nvm_read_to C img (unat addr) p_buf (unat off) (unat left) hm hm'"
proof (induction "unat left" arbitrary: k x resp left off s hm rule: less_induct)
  case less
  show ?case
  proof (cases "left = 0")
    case True
    then show ?thesis using less.prems(1)
      by (intro exI [of _ s] exI [of _ hm]) (simp add: nvm_read_loop.simps mb_advanced_def nvm_read_to_def)
  next
    case False
    define n where "n = min left MCP_DRV_NVM_BUF_LEN"
    have n: "unat n = min (unat left) 32" by (simp add: n_def MCP_DRV_NVM_BUF_LEN_def min_def word_le_nat_alt)
    have pos: "0 < unat left" using False by (simp add: unat_gt_0)
    have b: "unat n \<le> 32" "unat off + unat n \<le> N" "unat addr + unat off < 2 ^ 24" "0 < unat n"
      using n pos less.prems(3) A by linarith+
    note E' = E [folded less.prems(2)]
    obtain s1 hm1 where s1: "qed_mcp_nvm_rd_cmd E i C k DRV_MSG_CODE_NVM_READ_NVRAM (nvm_param x (addr + off) n)
        (p_buf + ucast off) True s = (RC_OK, Some (FW_MSG_CODE_NVM_OK, n), s1)"
      "mb_open V fw i pr c C hm1 s1" "mb_advanced (Suc 0) s s1"
      "nvm_read_to C img (unat addr) p_buf (unat off) (unat n) hm hm1"
      by (rule read_chunk [OF E' less.prems(1) F W C b(1,2,3)])
    define s2 where "s2 = nvm_nap E C k (left mod FLASH_PAGE_SIZE < (left - n) mod FLASH_PAGE_SIZE) s1"
    note s2 = nvm_nap_open [OF E s1(2), of k "left mod FLASH_PAGE_SIZE < (left - n) mod FLASH_PAGE_SIZE", folded s2_def]
    have l: "unat (left - n) = unat left - unat n" using n by (intro unat_sub) (simp add: word_le_nat_alt)
    have o: "unat (off + n) = unat off + unat n" using b A by (simp add: unat_word_ariths)
    have k2: "mb_advanced (Suc 0) s s2" using mb_advanced_trans [OF s1(3) s2(2)] by simp
    then have mb2: "drv_mb_addr (mcp_of s2) = mb" using less.prems(2) by (simp add: mb_advanced_def)
    have lt: "unat (left - n) < unat left" "unat (off + n) + unat (left - n) = N"
      using l o b(4) n less.prems(3) by linarith+
    from less.hyps [OF lt(1) s2(1) mb2 lt(2), of "Suc k" "nvm_param x (addr + off) n" FW_MSG_CODE_NVM_OK]
    obtain s3 hm3 where s3: "nvm_read_loop E i C addr p_buf (Suc k) (nvm_param x (addr + off) n) FW_MSG_CODE_NVM_OK (left - n) (off + n) s2
        = Some (RC_OK, FW_MSG_CODE_NVM_OK, s3)" "mb_open V fw i pr c C hm3 s3"
      "mb_advanced ((unat (left - n) + 31) div 32) s2 s3"
      "nvm_read_to C img (unat addr) p_buf (unat (off + n)) (unat (left - n)) hm1 hm3" by auto
    have "nvm_read_loop E i C addr p_buf k x resp left off s = Some (RC_OK, FW_MSG_CODE_NVM_OK, s3)"
      using False s3(1) by (simp add: nvm_read_loop.simps [of E i C addr p_buf k] Let_def s1(1)
          flip: nvm_param_def n_def s2_def)
    moreover have "mb_advanced ((unat left + 31) div 32) s s3"
    proof -
      have "Suc 0 + (unat left - unat n + 31) div 32 = (unat left + 31) div 32" unfolding n by (rule chunks_Suc [OF pos])
      then show ?thesis using mb_advanced_trans [OF k2 s3(3)] by (simp only: l)
    qed
    moreover have "nvm_read_to C img (unat addr) p_buf (unat off) (unat left) hm hm3"
    proof -
      have e: "unat n + (unat left - unat n) = unat left" "unat off + unat n + (unat left - unat n) = N"
        using n less.prems(3) by linarith+
      have dj: "bytes p_buf N \<inter> nvm_scratch C = {}" using C by (simp add: nvm_bufs_def)
      have le: "N \<le> 2 ^ 64" using A by simp
      from nvm_read_to_trans [OF s1(4) s3(4) [unfolded o l], unfolded e, OF dj le] show ?thesis .
    qed
    ultimately show ?thesis using s3(2) False by auto
  qed
qed

section \<open>The whole function\<close>

lemma at_free_list:
  assumes "fw_at V fw i pr c h hm m b po"
  shows "fw_at V fw i pr c (h\<lparr>p_ptt_pool := Some ((pool_of h)\<lparr>ptt_free_list := l\<rparr>)\<rparr>) hm m b po"
  using assms by (simp add: fw_at_def ptt_ok_def pool_of_def ptt_at_def)

lemma open_acquire:
  assumes "mb_open V fw i pr c C hm s" "ptt_free_list (pool_of (mhw s)) = i # l"
  obtains s' where "fn_ptt_acquire rels s = (Some i, s')" "mb_open V fw i pr c C hm s'" "mb_advanced 0 s s'"
proof -
  have "p_ptt_pool (mhw s) \<noteq> None" using assms(1) by (auto simp: mb_open_def fw_at_def ptt_ok_def)
  then have "qed_ptt_acquire rels (mhw s) = (Some i, snd (ptt_try (mhw s)))"
    using acquire_loop_now [OF assms(2)] by (auto simp: qed_ptt_acquire_def QED_BAR_ACQUIRE_TIMEOUT_def)
  then have "fn_ptt_acquire rels s = (Some i, s\<lparr>mhw := snd (ptt_try (mhw s))\<rparr>)" by (simp add: fn_ptt_acquire_def)
  moreover have "mb_open V fw i pr c C hm (s\<lparr>mhw := snd (ptt_try (mhw s))\<rparr>)"
    using mb_open_mhw [OF assms(1) at_free_list] assms(2) by (simp add: ptt_try_def)
  ultimately show thesis using that by (simp add: mb_advanced_def mcp_of_def)
qed

lemma open_release:
  assumes "mb_open V fw i pr c C hm s"
  shows "mb_open V fw i pr c C hm (fn_ptt_release j s)" "mb_advanced 0 s (fn_ptt_release j s)"
  unfolding fn_ptt_release_def qed_ptt_release_def
  by (rule mb_open_mhw [OF assms at_free_list], assumption) (simp add: mb_advanced_def mcp_of_def)

lemma nvm_read_at:
  assumes E: "mfw_env (me_bus E) G V fw i pr (drv_mb_addr (mcp_of (nv_fn D))) F W" and F: "nvm_serves F img"
    and W: "0 < W" "W \<le> 599" and D: "mb_open V fw i pr c C hm (nv_fn D)" "ptt_free_list (pool_of (mhw (nv_fn D))) = i # l"
    and C: "nvm_bufs C p_buf (unat len)" and A: "unat addr + unat len \<le> 2 ^ 24"
  shows "\<exists>s hm'. qed_mcp_nvm_read E rels C addr p_buf len D = Some (RC_OK,
      D\<lparr>mcp_nvm_resp := (if len = 0 then 0 else FW_MSG_CODE_NVM_OK), nv_fn := s\<rparr>)
    \<and> mb_open V fw i pr c C hm' s \<and> mb_advanced ((unat len + 31) div 32) (nv_fn D) s
    \<and> nvm_read_to C img (unat addr) p_buf 0 (unat len) hm hm'"
proof -
  obtain s1 where s1: "fn_ptt_acquire rels (nv_fn D) = (Some i, s1)" "mb_open V fw i pr c C hm s1" "mb_advanced 0 (nv_fn D) s1"
    by (rule open_acquire [OF D])
  have mb: "drv_mb_addr (mcp_of s1) = drv_mb_addr (mcp_of (nv_fn D))" using s1(3) by (simp add: mb_advanced_def)
  have "unat (0 :: u32) + unat len = unat len" by simp
  from read_loop_at [OF E F W C A s1(2) mb this, of 0 0 0]
  obtain s2 hm2 where s2: "nvm_read_loop E i C addr p_buf 0 0 0 len 0 s1 = Some (RC_OK, if len = 0 then 0 else FW_MSG_CODE_NVM_OK, s2)"
    "mb_open V fw i pr c C hm2 s2" "mb_advanced ((unat len + 31) div 32) s1 s2" "nvm_read_to C img (unat addr) p_buf 0 (unat len) hm hm2"
    by auto
  note r = open_release [OF s2(2), of i]
  have "mb_advanced ((unat len + 31) div 32) (nv_fn D) (fn_ptt_release i s2)"
    using mb_advanced_trans [OF mb_advanced_trans [OF s1(3) s2(3)] r(2)] by simp
  moreover have "qed_mcp_nvm_read E rels C addr p_buf len D = Some (RC_OK,
      D\<lparr>mcp_nvm_resp := (if len = 0 then 0 else FW_MSG_CODE_NVM_OK), nv_fn := fn_ptt_release i s2\<rparr>)"
    by (simp add: qed_mcp_nvm_read_def s1(1) s2(1))
  ultimately show ?thesis using r(1) s2(4) by blast
qed

section \<open>A firmware that makes no progress\<close>

definition nvm_stalls :: "mfw_service \<Rightarrow> bool" where
  "nvm_stalls F \<longleftrightarrow> (\<forall>q d. case F DRV_MSG_CODE_NVM_READ_NVRAM q d of (code, prm, dat) \<Rightarrow>
     code AND FW_MSG_CODE_MASK = FW_MSG_CODE_NVM_OK \<and> prm = 0)"

lemma read_stalls:
  assumes E: "mfw_env (me_bus E) G V fw i pr (drv_mb_addr (mcp_of s)) F W" and F: "nvm_stalls F"
    and W: "0 < W" "W \<le> 599" and C: "cf_rsp C \<noteq> 0" and s: "mb_open V fw i pr c C hm s"
  obtains s' hm' where "qed_mcp_nvm_rd_cmd E i C k DRV_MSG_CODE_NVM_READ_NVRAM q p_buf True s
      = (RC_OK, Some (FW_MSG_CODE_NVM_OK, 0), s')" "mb_open V fw i pr c C hm' s'" "mb_advanced (Suc 0) s s'"
proof -
  obtain code prm dat where f: "F DRV_MSG_CODE_NVM_READ_NVRAM q (replicate 8 0) = (code, prm, dat)" by (metis prod_cases3)
  have f': "code AND FW_MSG_CODE_MASK = FW_MSG_CODE_NVM_OK" "prm = 0"
    using F [unfolded nvm_stalls_def, THEN spec, THEN spec, of q "replicate 8 0"] unfolding f prod.case by blast+
  show thesis by (rule rd_cmd_at [OF E s f W C, of k p_buf]) (rule that, simp_all only: f')
qed

lemma loop_stalls:
  assumes F: "nvm_stalls F" and W: "0 < W" "W \<le> 599" and C: "cf_rsp C \<noteq> 0"
  shows "nvm_read_loop E i C addr p_buf k x resp left off s = Some y \<Longrightarrow>
    mfw_env (me_bus E) G V fw i pr (drv_mb_addr (mcp_of s)) F W \<Longrightarrow> mb_open V fw i pr c C hm s \<Longrightarrow> left = 0"
proof (rule ccontr)
  assume A: "nvm_read_loop E i C addr p_buf k x resp left off s = Some y"
    "mfw_env (me_bus E) G V fw i pr (drv_mb_addr (mcp_of s)) F W" "mb_open V fw i pr c C hm s" "left \<noteq> 0"
  have "cf_rsp C \<noteq> 0 \<longrightarrow> mfw_env (me_bus E) G V fw i pr (drv_mb_addr (mcp_of s)) F W \<longrightarrow>
    (\<forall>hm. mb_open V fw i pr c C hm s \<longrightarrow> left \<noteq> 0 \<longrightarrow> False)"
  proof (rule nvm_read_loop.raw_induct
      [where P = "\<lambda>E i C addr p_buf k x resp left off s y. cf_rsp C \<noteq> 0 \<longrightarrow>
         mfw_env (me_bus E) G V fw i pr (drv_mb_addr (mcp_of s)) F W \<longrightarrow>
         (\<forall>hm. mb_open V fw i pr c C hm s \<longrightarrow> left \<noteq> 0 \<longrightarrow> False)", OF _ A(1)], goal_cases)
    case (1 loop E i C addr p_buf k x resp left off s y)
    show ?case
    proof (intro impI allI)
      fix hm assume H: "cf_rsp C \<noteq> 0" "mfw_env (me_bus E) G V fw i pr (drv_mb_addr (mcp_of s)) F W"
        "mb_open V fw i pr c C hm s" "left \<noteq> 0"
      let ?q = "SET_MFW_FIELD (SET_MFW_FIELD x DRV_MB_PARAM_NVM_OFFSET (addr + off)) DRV_MB_PARAM_NVM_LEN
        (min left MCP_DRV_NVM_BUF_LEN)"
      obtain s1 hm1 where s1: "qed_mcp_nvm_rd_cmd E i C k DRV_MSG_CODE_NVM_READ_NVRAM ?q (p_buf + ucast off) True s
          = (RC_OK, Some (FW_MSG_CODE_NVM_OK, 0), s1)" "mb_open V fw i pr c C hm1 s1" "mb_advanced (Suc 0) s s1"
        by (rule read_stalls [OF H(2) F W H(1,3)])
      note n = nvm_nap_open [OF H(2) s1(2), of k False]
      have "drv_mb_addr (mcp_of (nvm_nap E C k False s1)) = drv_mb_addr (mcp_of s)"
        using mb_advanced_trans [OF s1(3) n(2)] by (simp add: mb_advanced_def)
      moreover have "loop E i C addr p_buf (Suc k) ?q FW_MSG_CODE_NVM_OK left off (nvm_nap E C k False s1) = Some y"
        using "1"(2) H(4) by (simp add: Let_def s1(1))
      ultimately show False using "1"(1) H(1,2,4) n(1) by metis
    qed
  qed
  with A C show False by blast
qed

end
