(* ===== verification/Qed_Mcp_Nvm_Claims.thy ===== *)
theory Qed_Mcp_Nvm_Claims
  imports Qed_Mcp_Nvm_Read Qed_Mcp_Device
begin

unbundle bit_operations_syntax

text \<open>
  The properties of reading the non-volatile memory, each with a witness on a device with a firmware.
\<close>

section \<open>Firmware of the examples\<close>

text \<open>A memory with the number of a byte, modulo 256, in each byte, and a firmware that reads it; one that never gets on.\<close>

definition nv_img :: "nat \<Rightarrow> u8" where "nv_img n = of_nat n"

definition nv_dword :: "nat \<Rightarrow> u32" where
  "nv_dword n = ucast (nv_img n) OR push_bit 8 (ucast (nv_img (n + 1))) OR push_bit 16 (ucast (nv_img (n + 2)))
     OR push_bit 24 (ucast (nv_img (n + 3)))"

definition nv_service :: mfw_service where
  "nv_service c q d = (FW_MSG_CODE_NVM_OK, GET_MFW_FIELD q DRV_MB_PARAM_NVM_LEN,
     map (\<lambda>j. nv_dword (unat (GET_MFW_FIELD q DRV_MB_PARAM_NVM_OFFSET) + 4 * j)) [0..<8])"

definition nv_stall :: mfw_service where
  "nv_stall c q d = (FW_MSG_CODE_NVM_OK, 0, replicate 8 0)"

definition nv_frame :: cmd_frame where
  "nv_frame = \<lparr>cf_mb = 1, cf_union = 0x1000, cf_rsp = 0x2000, cf_mem = (\<lambda>_. Some 7), cf_nap = (\<lambda>_. 1500)\<rparr>"

definition nv_dev :: "fw_dev nvm_dev" where
  "nv_dev = \<lparr>nv_fn = fd_fn, nvm_valid = True, mcp_nvm_resp = 0\<rparr>"

lemma nv_dword_byte: "r < 4 \<Longrightarrow> ucast (drop_bit (8 * r) (nv_dword n)) = nv_img (n + r)"
proof -
  have b: "\<not> bit (v :: u8) j" if "8 \<le> j" for v j using that bit_imp_le_length [of v j] by auto
  assume "r < 4"
  then consider "r = 0" | "r = 1" | "r = 2" | "r = 3" by linarith
  then show ?thesis
  proof cases
    case 1
    then show ?thesis unfolding nv_dword_def by (intro bit_word_eqI) (auto simp: bit_simps)
  next
    case 2
    then show ?thesis unfolding nv_dword_def by (intro bit_word_eqI) (auto simp: bit_simps b)
  next
    case 3
    then show ?thesis unfolding nv_dword_def by (intro bit_word_eqI) (auto simp: bit_simps b)
  next
    case 4
    then show ?thesis unfolding nv_dword_def by (intro bit_word_eqI) (auto simp: bit_simps b)
  qed
qed

lemma nv_ok: "FW_MSG_CODE_NVM_OK AND FW_MSG_CODE_MASK = FW_MSG_CODE_NVM_OK"
  by (simp add: FW_MSG_CODE_NVM_OK_def FW_MSG_CODE_MASK_def DRV_MSG_CODE_def)

lemma nv_serves: "nvm_serves nv_service nv_img"
proof -
  have "dword_byte (map (\<lambda>j. nv_dword (o' + 4 * j)) [0..<8]) k = nv_img (o' + k)" if "k < 32" for o' k
  proof -
    have "k div 4 < 8" "o' + 4 * (k div 4) + k mod 4 = o' + k" using that by auto
    then show ?thesis using nv_dword_byte [of "k mod 4" "o' + 4 * (k div 4)"] by (simp add: dword_byte_def add.commute)
  qed
  then show ?thesis unfolding nvm_serves_def nv_service_def Let_def prod.case by (simp add: nv_ok del: upt_rec_numeral)
qed

lemma nv_stalls: "nvm_stalls nv_stall"
  by (simp add: nvm_stalls_def nv_stall_def nv_ok)

lemma nv_lengths: "length (snd (snd (nv_service c q d))) = 8" "length (snd (snd (nv_stall c q d))) = 8"
  by (simp_all add: nv_service_def nv_stall_def)

lemma nv_env:
  "mfw_env (me_bus (calm (fd_bus nv_service))) (fd_grc nv_service) fd_view fd_mfw 11 0 (drv_mb_addr (mcp_of (nv_fn nv_dev))) nv_service 2"
  "mfw_env (me_bus (calm (fd_bus nv_stall))) (fd_grc nv_stall) fd_view fd_mfw 11 0 (drv_mb_addr (mcp_of (nv_fn nv_dev))) nv_stall 2"
  using fd_mfw_env [OF _ nv_lengths(1), where i = 11 and pr = 0] fd_mfw_env [OF _ nv_lengths(2), where i = 11 and pr = 0]
  by (simp_all add: calm_def nv_dev_def fd_fields)

lemma nv_open: "mb_open fd_view fd_mfw 11 0 dev_cdev nv_frame (\<lambda>a. ucast a) (nv_fn nv_dev)"
proof -
  have "fw_at fd_view fd_mfw 11 0 dev_cdev (mhw fd_fn) (\<lambda>a. ucast a) (\<lambda>_. 0) 0 (mcp_hist (mcp_of fd_fn))"
    using fd_at by (simp add: fd_fields)
  moreover have "cmd_elems fd_fn = Map.empty" by (simp add: fd_fn_def)
  ultimately show ?thesis using fd_ready(1)
    by (auto simp: mb_open_def nv_dev_def nv_frame_def fd_fields mcp_info_zero_def intro!: exI [of _ "\<lambda>_. 0"])
qed

lemma nv_free: "\<exists>l. ptt_free_list (pool_of (mhw (nv_fn nv_dev))) = 11 # l"
  using fd_free by (simp add: nv_dev_def fd_fields)

lemma nv_bufs: "nvm_bufs nv_frame 0x3000 40"
  using bytes_apart [of "0x1000" 32 "0x3000" 40] bytes_apart [of "0x2000" 32 "0x3000" 40]
  by (auto simp: nvm_bufs_def nvm_scratch_def nv_frame_def lane_def)

section \<open>Reading\<close>

text \<open>
  C39. Reading returns and delivers. On an open mailbox, with a firmware that answers a read of up to 32 bytes with
  the bytes asked for, \<open>qed_mcp_nvm_read\<close> ends with success for every length in range: the buffer holds the image from
  the address on, byte by byte, no other byte of the memory but those of the two locals changes, it took one command
  for every 32 bytes begun, and the mailbox is open again.
\<close>

theorem nvm_read_image:
  assumes "mfw_env (me_bus E) G V fw i pr (drv_mb_addr (mcp_of (nv_fn D))) F W" "nvm_serves F img" "0 < W" "W \<le> 599"
    "mb_open V fw i pr c C hm (nv_fn D)" "ptt_free_list (pool_of (mhw (nv_fn D))) = i # l"
    "nvm_bufs C p_buf (unat len)" "unat addr + unat len \<le> 2 ^ 24"
  shows "\<exists>s. qed_mcp_nvm_read E rels C addr p_buf len D = Some (RC_OK,
      D\<lparr>mcp_nvm_resp := (if len = 0 then 0 else FW_MSG_CODE_NVM_OK), nv_fn := s\<rparr>)
    \<and> (\<forall>k < unat len. byte_at (hmem (mhw s)) (p_buf + of_nat k) = img (unat addr + k))
    \<and> (\<forall>a. a \<notin> bytes p_buf (unat len) \<longrightarrow> a \<notin> nvm_scratch C \<longrightarrow> byte_at (hmem (mhw s)) a = byte_at hm a)
    \<and> mb_open V fw i pr c C (hmem (mhw s)) s \<and> mb_advanced ((unat len + 31) div 32) (nv_fn D) s"
proof -
  obtain s hm' where s: "qed_mcp_nvm_read E rels C addr p_buf len D = Some (RC_OK,
      D\<lparr>mcp_nvm_resp := (if len = 0 then 0 else FW_MSG_CODE_NVM_OK), nv_fn := s\<rparr>)"
    "mb_open V fw i pr c C hm' s" "mb_advanced ((unat len + 31) div 32) (nv_fn D) s"
    "nvm_read_to C img (unat addr) p_buf 0 (unat len) hm hm'"
    using nvm_read_at [OF assms, of rels] by blast
  have hm': "hmem (mhw s) = hm'" by (rule mb_open_hmem [OF s(2)])
  show ?thesis using s(1-3) nvm_read_toD [OF s(4)] by (intro exI [of _ s]) (simp add: hm')
qed

theorem nvm_read_image_witness:
  "\<exists>s. qed_mcp_nvm_read (calm (fd_bus nv_service)) (\<lambda>_. []) nv_frame 0x10 0x3000 40 nv_dev = Some (RC_OK,
      nv_dev\<lparr>mcp_nvm_resp := FW_MSG_CODE_NVM_OK, nv_fn := s\<rparr>)
    \<and> byte_at (hmem (mhw s)) 0x3000 = 0x10 \<and> byte_at (hmem (mhw s)) 0x3027 = 0x37
    \<and> byte_at (hmem (mhw s)) 0x3028 = 0x28 \<and> drv_mb_seq (mcp_of s) = 0"
proof -
  obtain l where l: "ptt_free_list (pool_of (mhw (nv_fn nv_dev))) = 11 # l" using nv_free by blast
  from nvm_read_image [OF nv_env(1) nv_serves _ _ nv_open l, of "0x3000" 40 "0x10" "\<lambda>_. []"] nv_bufs
  obtain s where s: "qed_mcp_nvm_read (calm (fd_bus nv_service)) (\<lambda>_. []) nv_frame 0x10 0x3000 40 nv_dev = Some (RC_OK,
      nv_dev\<lparr>mcp_nvm_resp := FW_MSG_CODE_NVM_OK, nv_fn := s\<rparr>)"
    "\<forall>k < 40. byte_at (hmem (mhw s)) (0x3000 + of_nat k) = nv_img (0x10 + k)"
    "\<forall>a. a \<notin> bytes 0x3000 40 \<longrightarrow> a \<notin> nvm_scratch nv_frame \<longrightarrow> byte_at (hmem (mhw s)) a = byte_at (\<lambda>a. ucast a) a"
    "mb_advanced 2 (nv_fn nv_dev) s" by auto
  have b: "byte_at (hmem (mhw s)) 0x3000 = 0x10" "byte_at (hmem (mhw s)) 0x3027 = 0x37"
    using s(2) [rule_format, of 0] s(2) [rule_format, of 39] by (simp_all add: nv_img_def)
  have o: "0x3028 \<notin> bytes 0x3000 40" "0x3028 \<notin> nvm_scratch nv_frame"
    using bytes_apart [of "0x3000" 40 "0x3028" 1] bytes_apart [of "0x1000" 32 "0x3028" 1] bytes_apart [of "0x2000" 32 "0x3028" 1]
    by (auto simp: nvm_scratch_def nv_frame_def bytes_Suc)
  have "byte_at (hmem (mhw s)) 0x3028 = byte_at (\<lambda>a. ucast a) 0x3028" using s(3) o by blast
  also have "\<dots> = 0x28" by (simp add: byte_at_def lane_def cell_def)
  finally have "byte_at (hmem (mhw s)) 0x3028 = 0x28" .
  moreover have "drv_mb_seq (mcp_of s) = 0" using s(4) by (simp add: mb_advanced_def nv_dev_def fd_fields)
  ultimately show ?thesis using s(1) b by blast
qed

text \<open>
  C40. A firmware that acknowledges a read and reports no byte keeps \<open>qed_mcp_nvm_read\<close> in its loop for good: the
  number of bytes left is what the firmware says, and the loop has no other bound.
\<close>

theorem nvm_read_stall_defect:
  assumes "mfw_env (me_bus E) G V fw i pr (drv_mb_addr (mcp_of (nv_fn D))) F W" "nvm_stalls F" "0 < W" "W \<le> 599"
    "mb_open V fw i pr c C hm (nv_fn D)" "ptt_free_list (pool_of (mhw (nv_fn D))) = i # l" "cf_rsp C \<noteq> 0" "len \<noteq> 0"
  shows "qed_mcp_nvm_read E rels C addr p_buf len D = None"
proof -
  obtain s where s: "fn_ptt_acquire rels (nv_fn D) = (Some i, s)" "mb_open V fw i pr c C hm s" "mb_advanced 0 (nv_fn D) s"
    by (rule open_acquire [OF assms(5,6)])
  have E: "mfw_env (me_bus E) G V fw i pr (drv_mb_addr (mcp_of s)) F W" using assms(1) s(3) by (simp add: mb_advanced_def)
  have "nvm_read_loop E i C addr p_buf 0 0 0 len 0 s = None"
    using loop_stalls [OF assms(2-4,7) _ E s(2)] assms(8) by (metis option.exhaust)
  then show ?thesis by (simp add: qed_mcp_nvm_read_def s(1))
qed

theorem nvm_read_stall_defect_witness:
  "qed_mcp_nvm_read (calm (fd_bus nv_stall)) (\<lambda>_. []) nv_frame 0x10 0x3000 40 nv_dev = None"
proof -
  obtain l where l: "ptt_free_list (pool_of (mhw (nv_fn nv_dev))) = 11 # l" using nv_free by blast
  show ?thesis by (rule nvm_read_stall_defect [OF nv_env(2) nv_stalls _ _ nv_open l]) (simp_all add: nv_frame_def)
qed

end
