(* ===== verification/Spec2Isabelle.thy ===== *)
theory Spec2Isabelle
  imports Qed_Ooo_Claims Qed_Spq_Claims Qed_Hw_Claims Qed_Init_Claims Qed_Mcp_Claims Qed_Mcp_Nvm_Claims
begin

text \<open>
  \<^bold>\<open>The core of the qed driver\<close>

  The repository is the Linux driver of the FastLinQ 4xxxx adapters: a core module \<open>qed\<close> that owns the
  hardware, and the protocol drivers \<open>qede\<close> (Ethernet), \<open>qedr\<close> (RDMA), \<open>qedf\<close> and \<open>qedi\<close> (storage) on top of
  it. The development covers the mechanisms of the core that the rest is built on. All source files named below are
  in \<open>src/qed-8.70.12.0/src/\<close>.

  \<^item> Register access (\<open>qed_hw.c\<close>, first half). The chip is reached through twelve windows (PTT entries) of the PCI BAR
    which the driver moves over the address space of the chip (GRC). All other parts go through it.
  \<^item> The DMA engine (\<open>qed_hw.c\<close>, second half) moves blocks between host memory and the chip. Its commands
    are posted with register writes.
  \<^item> The init tool (\<open>qed_init_ops.c\<close>) interprets the program of the firmware file that configures
    the chip, with register writes and DMA requests.
  \<^item> Chains (\<open>qed_chain.h\<close>, \<open>qed_chain.c\<close>, and their allocation in \<open>qed_dev.c\<close>) are the rings of all queues
    shared with the firmware, in three layouts of their pages and two index widths.
  \<^item> The slow path queue (\<open>qed_spq.c\<close>, and requests in \<open>qed_sp_commands.c\<close>) posts messages (ramrods) to the
    firmware on a chain and matches the completions that come back on the event queue, another chain.
  \<^item> Out-of-order placement (\<open>qed_ooo.c\<close>) keeps TCP segments that arrived ahead of a gap.
  \<^item> The mailbox (\<open>qed_mcp.c\<close>, first part) carries commands to the management firmware: one mailbox per function in the
    scratch pad of the management processor, written and polled through the windows by any number of callers. The
    non-volatile memory of the board is read and written with such commands, 32 bytes at a time.

  \<^bold>\<open>How the code is modelled\<close>

  Integers have the width of the source (\<open>u8\<close> to \<open>u64\<close> are words) and wrap as in C; a nat stands for a loop counter
  or an index whose bound is proved. A structure is a record, an enumeration a datatype or a group of constants, a
  linked list a HOL list with the kernel's operations (\<open>list_add\<close>, \<open>list_add_tail\<close>, \<open>list_del\<close> of
  \<open>Qed_Prelude\<close>), a bit field a pair of mask and shift. Functions pass the state explicitly and return the negative
  error codes of the kernel as \<open>RC_ERR\<close>. Log messages are left out; warnings (\<open>WARN\<close>) and reported hardware
  errors are recorded. The byte order is little endian, the build that of the repository's makefile (not
  \<open>ASIC_ONLY\<close>, binary and zipped firmware).

  What is not under \<open>src/\<close> is an argument. The kernel allocators are sequences of results. The device is a type
  \<open>'d\<close> with functions for register accesses, delays and accesses to shared memory (\<open>bus\<close>); \<open>zlib\<close>, the report
  to the management firmware and the callbacks of clients are functions. What theorems rely on of them is a
  predicate: \<open>pxp_windows\<close> (a window shows the addresses it was set to), \<open>dma_memory\<close> and \<open>dmae_engine\<close> (a posted
  command is executed within the time the driver waits), \<open>dma_idle\<close>, \<open>grc_ram\<close>, \<open>inflate_bounded\<close>, \<open>mfw_serves\<close> (the
  firmware answers a command in the mailbox). \<open>Qed_Hw_Device\<close> and \<open>Qed_Mcp_Device\<close> define devices and prove that they
  have them.

  Host memory is a function from byte addresses to dwords, used at multiples of four; dwords at other addresses do not
  overlap their neighbours. The hypothesis \<open>dmae_engine\<close> looks at the direction, completion and reset bits of an
  opcode only: functions, ports and byte orders are not told apart.

  Code that runs under a lock is one step; threads interleave at these steps, in every order. Delays outside the lock belong
  to the step before or after them, and a call of the mailbox that gives up does so in one step, in which only the
  removal of its element is under the lock. A loop that may
  not end is a partial function with the value \<open>None\<close> for not returning, and theorems say when it returns.

  \<^bold>\<open>Theories\<close>

  \<^item> \<open>Qed_Prelude\<close>: types, error codes, lists, word arithmetic. \<open>Qed_Blocks\<close>: blocks of dwords in a memory.
    \<open>Qed_Bytes\<close>: its bytes, and copies of them.
    \<open>Qed_Interfaces\<close>: the contracts \<open>conserving\<close> (an owner of objects is exact about what it takes and
    hands out), its extension \<open>conserving_exact\<close> (an operation outside its condition fails) and \<open>ring\<close> (a ring as its user
    sees it), with what follows for every run. The first is interpreted for the slow path queue and the pool
    of windows, the second for the out-of-order component, the third for chains, which is how the slow path queue uses them.
  \<^item> \<open>Qed_Chain\<close>: the fast path (\<open>qed_chain_produce\<close>, \<open>qed_chain_consume\<close> and the rest of \<open>qed_chain.h\<close>).
    \<open>Qed_Chain_Correct\<close> relates a chain to unbounded positions of producer and consumer; \<open>Qed_Chain_Props\<close>,
    \<open>Qed_Chain_Rewind\<close>, \<open>Qed_Chain_Slots\<close> and \<open>Qed_Chain_Ring\<close> derive the order of the elements, the count of
    free ones and when it is exact, rewinding and when it finds its page, disjointness and lookup of slots, and the ring interface.
  \<^item> \<open>Qed_Chain_Alloc\<close>, \<open>Qed_Chain_Alloc_Correct\<close>: allocation and release in the three layouts; success
    establishes what the fast path needs, failure gives everything back.
  \<^item> \<open>Qed_Ooo\<close>, \<open>Qed_Ooo_Correct\<close>, \<open>Qed_Ooo_Events\<close>: the isles of the connections, allocation and release with
    every block they obtain and free, conservation of the buffers, and what each firmware event does to the isles of its
    connection.
  \<^item> \<open>Qed_Spq\<close>: the queue, the wait for a blocking request, the event queue, allocation. \<open>Qed_Spq_Window\<close>: ring,
    bitmap of completions and outstanding positions. \<open>Qed_Spq_Lists\<close>: ownership of the entries.
    \<open>Qed_Spq_Events\<close>: the interleaved sections. \<open>Qed_Spq_Setup\<close>: from allocation to the invariant.
    \<open>Qed_Spq_Eq\<close>: the wait and the event loop.
  \<^item> \<open>Qed_Hw\<close>: windows, registers, block copies, pretending to be another function. \<open>Qed_Hw_Correct\<close> and
    \<open>Qed_Hw_Access\<close>: a simulation with accesses that use no windows, for single accesses and any sequence; the
    pool of windows.
  \<^item> \<open>Qed_Dmae\<close>: buffers, commands, requests, self test. \<open>Qed_Dmae_Correct\<close>: one command. \<open>Qed_Dmae_Ops\<close>: requests of
    any length in all directions. \<open>Qed_Dmae_Limits\<close>: sizes, termination, refused commands. \<open>Qed_Hw_Mem\<close>: what
    stays of host memory on any device.
  \<^item> \<open>Qed_Init\<close>: RT array, commands, interpreter, firmware tables. \<open>Qed_Init_Rt\<close>: the RT array as a map and
    its transfer to the chip. \<open>Qed_Init_Run\<close>: expressions over modes, and termination on any device.
  \<^item> \<open>Qed_Transitions\<close>: executions of systems driven by several parties, with the events they show; the
    contracts \<open>invariant\<close> and \<open>refinement\<close>. Both are interpreted for the mailbox.
  \<^item> \<open>Qed_Mcp\<close>: finding the mailbox, the list of the commands, sending and waiting, the reset. \<open>Qed_Mcp_Steps\<close>: a call as a
    state machine whose transitions are the sections under \<open>cmd_lock\<close>, and the step relation of any number of calls
    with anything else in between. \<open>Qed_Mcp_Frame\<close>, \<open>Qed_Mcp_Inv\<close>, \<open>Qed_Mcp_Sim\<close>: what each section changes, the
    invariant of the list, the mailbox with one slot, and the refinement. \<open>Qed_Mcp_Trace\<close>: what the traces of the mailbox
    with one slot say. \<open>Qed_Mcp_Calls\<close>: calls end, and the sequential code is an execution. \<open>Qed_Mcp_Mfw\<close>,
    \<open>Qed_Mcp_Answer\<close>: a firmware behind the windows, and a command from call to answer. \<open>Qed_Mcp_Reset\<close>: a reset while a
    command is pending. \<open>Qed_Mcp_Tidy\<close>: what the list keeps even then, and how calls return.
  \<^item> \<open>Qed_Mcp_Local\<close>: functions that send one command after the other. \<open>Qed_Mcp_Nvm\<close>: the commands for the
    non-volatile memory (\<open>qed_mcp_nvm_rd_cmd\<close>, \<open>qed_mcp_nvm_wr_cmd\<close>) and the functions on top of them; writing returns.
    \<open>Qed_Mcp_Nvm_Read\<close>: a read from the call to the bytes in the buffer, and a firmware that makes no progress.
  \<^item> \<open>Qed_Chain_Claims\<close>, \<open>Qed_Ooo_Claims\<close>, \<open>Qed_Spq_Claims\<close>, \<open>Qed_Hw_Claims\<close>, \<open>Qed_Init_Claims\<close>,
    \<open>Qed_Mcp_Claims\<close>, \<open>Qed_Mcp_Nvm_Claims\<close>: the properties, each with a concrete instance where it has hypotheses.

  \<^bold>\<open>What is shown\<close>

  \<^item> Chains (C1 to C5): elements come out in the order they went in, in every layout and across index
    wrap-around; what the count of free elements is, and exactly when it is right (it is not on rings with more than one
    unusable element per page, nor on a 16 bit ring of 65536 elements); allocation establishes the layout
    and leaks nothing; exactly when rewinding restores an earlier position (it does not on some 16 bit PBL chains when the index
    wraps). Further theorems show that slots in use never overlap and that lookup finds its slots.
  \<^item> Out-of-order placement (C6 to C10): a sequence of operations stays within the arrays exactly if no event opens an isle for
    a connection outside the range of the function; every buffer is then in exactly one place, handed out, or leaked by an
    event that was refused; joining and deleting isles do what their names say and nothing else; release is complete.
  \<^item> Slow path queue (C11 to C20): every interleaving of the locked sections that satisfy \<open>spq_ok\<close> conserves the entries and
    keeps bitmap and ring consistent (left out are a waiter that gives up on a ramrod that is not posted or just
    completed, and a wait that a recovery ends while the entry is on a list); ramrods are posted in order with their position as echo; completions in any
    order empty the ring; waits are bounded. Two theorems show what a timeout breaks that comes before the
    request was posted.
  \<^item> Registers and DMA (C21 to C27): windows are transparent for every sequence of accesses; a request moves its
    block, of a size below \<open>2 ^ 29\<close> dwords, and nothing else; a request returns exactly for the sizes given; windows are never handed out twice; what is
    written is read back; a refused command is reported as a failure of the hardware.
  \<^item> Init tool (C28 to C31): a run ends on any device; values stored in the RT array arrive in the chip; the test of
    modes is the evaluation of its expression; stores stay inside the array.
  \<^item> Mailbox (C32 to C38): without resets of the management processor, whatever the interleaving of the callers, it is a
    mailbox with one slot, a call that succeeds has the answer to its own command, the list of the commands never
    holds a dangling pointer, and calls return only the codes they should and leave nothing behind. Also with resets, the list
    has the allocated elements, each once, and release frees them. With a firmware that answers, a command gets its data there and
    back; calls end. One theorem shows how a reset while a command is pending occupies the mailbox for good.
  \<^item> Non-volatile memory (C39, C40): with a firmware that answers, reading returns for every length and has the image in the
    buffer, byte by byte, with nothing else of the memory changed; with a firmware that reports no progress it never
    returns. Writing returns on any device unless the firmware chooses the parts.

  \<^bold>\<open>Bounds\<close>

  No property is limited to a bounded number of steps. Counters that bound a loop are those of the source:
  1000 attempts to obtain a window, 10000 polls for a DMA completion (times 2000 or 200 on emulation and FPGA), 100
  polls of an init command, the limits of the waits of the slow path queue, 500000 polls of the mailbox. \<open>partial_function\<close> is used for the
  loop over the parts of a DMA request, the loop over the RT array, the expressions over the modes, the loop over
  the init commands and the loops that read and write the non-volatile memory; for each a theorem says when it returns.

  \<^bold>\<open>Not modelled\<close>

  Diagnostics of chains and of the out-of-order component; the report of a stuck ramrod at the end of \<open>qed_spq_block\<close> and the
  branches of \<open>qed_spq_fill_entry\<close> and \<open>qed_spq_add_entry\<close> for values outside their enumerations; the hardware context of the slow path connection and the
  contents of the ramrods (\<open>qed_spq_hw_initialize\<close>, most of \<open>qed_sp_commands.c\<close>), which fill structures of the
  firmware; the hardware locks of \<open>qed_hw.c\<close>, which are not compiled. Of the other files of the core, the
  configuration of the queue manager (\<open>qed_init_fw_funcs.c\<close>), contexts (\<open>qed_cxt.c\<close>), the other commands and the events of
  the management firmware (the rest of \<open>qed_mcp.c\<close>: load and unload, link, resource locks, transceivers), light L2 (\<open>qed_ll2.c\<close>), SR-IOV (\<open>qed_sriov.c\<close>, \<open>qed_vf.c\<close>) and RDMA (\<open>qed_rdma.c\<close>,
  \<open>qed_roce.c\<close>, \<open>qed_iwarp.c\<close>) are clients of what is modelled and not reached yet; interrupts, debug dumps, DCBX,
  statistics and the kernel interfaces of \<open>qed_main.c\<close> are dominated by tables or by calls into the
  kernel, as are the protocol drivers. Weak memory ordering is not modelled: the barriers of the code are
  taken to order what they separate.
\<close>

end
